(* ===== verification/Prelude.thy ===== *)
theory Prelude
  imports Main "HOL-Library.Sublist" "HOL-Library.Multiset"
begin

text \<open>
  Shared vocabulary of the development: Go's byte strings and the functions of package
  \<^verbatim>\<open>strings\<close> the sources call, JSON values, HTTP requests and responses, and the
  lemma collections the component theories draw on.

  A Go \<^verbatim>\<open>string\<close> is a sequence of bytes, and so is \<^typ>\<open>string\<close>: a \<^typ>\<open>char\<close>
  has eight bits.  \<^const>\<open>length\<close> is therefore Go's \<^verbatim>\<open>len\<close>.  The parts of the Go
  standard library that cannot be written down here (the Unicode case tables, SHA-256,
  HMAC, Ed25519) are the fields of the record \<open>golib\<close>, which every definition that needs
  one takes as its first argument.
\<close>

named_theorems go_string "facts about Go's string functions"
named_theorems keeps_intro "composition rules for actions that keep a property of the tables"
named_theorems handler_defs "definitions unfolded when a handler is analysed branch by branch"

section \<open>Standard library functions that stay parameters\<close>

record golib =
  lib_sha256 :: "string \<Rightarrow> string"
  lib_hmac :: "string \<Rightarrow> string \<Rightarrow> string"
  lib_lower :: "string \<Rightarrow> string"
  lib_upper :: "string \<Rightarrow> string"
  lib_public :: "string \<Rightarrow> string"
  lib_sign :: "string \<Rightarrow> string \<Rightarrow> string"
  lib_verify :: "string \<Rightarrow> string \<Rightarrow> string \<Rightarrow> bool"

text \<open>
  \<open>lib_public seed\<close> is the Ed25519 public key of a private key, \<open>lib_sign seed msg\<close> a
  signature and \<open>lib_verify public msg sig\<close> its check.  \<open>lib_lower\<close> and \<open>lib_upper\<close> are
  consulted only for strings that hold a byte outside ASCII.
\<close>

section \<open>Characters\<close>

definition byte :: "char \<Rightarrow> nat" where
  "byte c = of_char c"

definition chr :: "nat \<Rightarrow> char" where
  "chr n = char_of n"

lemma byte_less [simp]: "byte c < 256"
  by (simp add: byte_def)

lemma byte_chr [simp]: "n < 256 \<Longrightarrow> byte (chr n) = n"
  by (simp add: byte_def chr_def)

lemma chr_byte [simp]: "chr (byte c) = c"
  by (simp add: byte_def chr_def)

lemma byte_inject [simp]: "byte c = byte d \<longleftrightarrow> c = d"
  by (metis chr_byte)

definition newline :: char where
  "newline = CHR 0x0A"

definition is_ascii :: "string \<Rightarrow> bool" where
  "is_ascii s = list_all (\<lambda>c. byte c < 128) s"

definition is_digit :: "char \<Rightarrow> bool" where
  "is_digit c = (48 \<le> byte c \<and> byte c \<le> 57)"

definition is_lower_letter :: "char \<Rightarrow> bool" where
  "is_lower_letter c = (97 \<le> byte c \<and> byte c \<le> 122)"

definition lower_char :: "char \<Rightarrow> char" where
  "lower_char c = (if 65 \<le> byte c \<and> byte c \<le> 90 then chr (byte c + 32) else c)"

definition upper_char :: "char \<Rightarrow> char" where
  "upper_char c = (if 97 \<le> byte c \<and> byte c \<le> 122 then chr (byte c - 32) else c)"

lemma lower_char_idem [simp]: "lower_char (lower_char c) = lower_char c"
  by (simp add: lower_char_def)

lemma byte_lower_char: "byte c < 128 \<Longrightarrow> byte (lower_char c) < 128"
  by (simp add: lower_char_def)

lemma upper_char_idem [simp]: "upper_char (upper_char c) = upper_char c"
proof (cases "97 \<le> byte c \<and> byte c \<le> 122")
  case True
  then have "byte (chr (byte c - 32)) = byte c - 32"
    by (intro byte_chr) linarith
  with True show ?thesis
    by (auto simp: upper_char_def)
qed (auto simp: upper_char_def)

section \<open>Package strings\<close>

definition toLower :: "golib \<Rightarrow> string \<Rightarrow> string" where
  "toLower lib s = (if is_ascii s then map lower_char s else lib_lower lib s)"

definition toUpper :: "golib \<Rightarrow> string \<Rightarrow> string" where
  "toUpper lib s = (if is_ascii s then map upper_char s else lib_upper lib s)"

text \<open>
  The white space \<^verbatim>\<open>strings.TrimSpace\<close> removes is Unicode's, so it is a list of UTF-8
  encodings: the six ASCII characters, U+0085, U+00A0, U+1680, U+2000 to U+200A, U+2028,
  U+2029, U+202F, U+205F and U+3000.
\<close>

definition space_runes :: "string list" where
  "space_runes =
     [[CHR 0x09], [CHR 0x0A], [CHR 0x0B], [CHR 0x0C], [CHR 0x0D], [CHR 0x20],
      [CHR 0xC2, CHR 0x85], [CHR 0xC2, CHR 0xA0], [CHR 0xE1, CHR 0x9A, CHR 0x80],
      [CHR 0xE2, CHR 0x80, CHR 0x80], [CHR 0xE2, CHR 0x80, CHR 0x81],
      [CHR 0xE2, CHR 0x80, CHR 0x82], [CHR 0xE2, CHR 0x80, CHR 0x83],
      [CHR 0xE2, CHR 0x80, CHR 0x84], [CHR 0xE2, CHR 0x80, CHR 0x85],
      [CHR 0xE2, CHR 0x80, CHR 0x86], [CHR 0xE2, CHR 0x80, CHR 0x87],
      [CHR 0xE2, CHR 0x80, CHR 0x88], [CHR 0xE2, CHR 0x80, CHR 0x89],
      [CHR 0xE2, CHR 0x80, CHR 0x8A], [CHR 0xE2, CHR 0x80, CHR 0xA8],
      [CHR 0xE2, CHR 0x80, CHR 0xA9], [CHR 0xE2, CHR 0x80, CHR 0xAF],
      [CHR 0xE2, CHR 0x81, CHR 0x9F], [CHR 0xE3, CHR 0x80, CHR 0x80]]"

lemma space_runes_nonempty: "w \<in> set space_runes \<Longrightarrow> 0 < length w"
  by (auto simp: space_runes_def)

function strip_runes :: "string list \<Rightarrow> string \<Rightarrow> string" where
  "strip_runes ws s =
     (case find (\<lambda>w. w \<noteq> [] \<and> prefix w s) ws of
        None \<Rightarrow> s
      | Some w \<Rightarrow> strip_runes ws (drop (length w) s))"
  by pat_completeness auto
termination
proof (relation "measure (\<lambda>(ws, s). length s)")
  fix ws :: "string list" and s w :: string
  assume "find (\<lambda>w. w \<noteq> [] \<and> prefix w s) ws = Some w"
  then have "w \<noteq> []" "prefix w s"
    by (auto simp: find_Some_iff)
  then have "0 < length w" "length w \<le> length s"
    by (auto dest: prefix_length_le)
  then have "length s - length w < length s"
    by linarith
  then show "((ws, drop (length w) s), ws, s) \<in> measure (\<lambda>(ws, s). length s)"
    by auto
qed simp

declare strip_runes.simps [simp del]

definition trimSpace :: "string \<Rightarrow> string" where
  "trimSpace s = rev (strip_runes (map rev space_runes) (rev (strip_runes space_runes s)))"

definition trimCut :: "char set \<Rightarrow> string \<Rightarrow> string" where
  "trimCut cs s = rev (dropWhile (\<lambda>c. c \<in> cs) (rev (dropWhile (\<lambda>c. c \<in> cs) s)))"

definition trimRight :: "char \<Rightarrow> string \<Rightarrow> string" where
  "trimRight c s = rev (dropWhile (\<lambda>d. d = c) (rev s))"

definition cutAt :: "char \<Rightarrow> string \<Rightarrow> string \<times> string \<times> bool" where
  "cutAt c s = (case dropWhile (\<lambda>d. d \<noteq> c) s of
      [] \<Rightarrow> (s, [], False)
    | _ # rest \<Rightarrow> (takeWhile (\<lambda>d. d \<noteq> c) s, rest, True))"

fun splitOn :: "char \<Rightarrow> string \<Rightarrow> string list" where
  "splitOn c [] = [[]]"
| "splitOn c (d # s) =
     (if d = c then [] # splitOn c s
      else case splitOn c s of [] \<Rightarrow> [[d]] | w # ws \<Rightarrow> (d # w) # ws)"

fun joinWith :: "string \<Rightarrow> string list \<Rightarrow> string" where
  "joinWith sep [] = []"
| "joinWith sep [w] = w"
| "joinWith sep (w # ws) = w @ sep @ joinWith sep ws"

definition containsAny :: "string \<Rightarrow> string \<Rightarrow> bool" where
  "containsAny s cs = list_ex (\<lambda>c. c \<in> set cs) s"

definition hasPrefix :: "string \<Rightarrow> string \<Rightarrow> bool" where
  "hasPrefix s p = prefix p s"

definition hasSuffix :: "string \<Rightarrow> string \<Rightarrow> bool" where
  "hasSuffix s p = suffix p s"

definition trimPrefix :: "string \<Rightarrow> string \<Rightarrow> string" where
  "trimPrefix s p = (if prefix p s then drop (length p) s else s)"

definition stringContains :: "string \<Rightarrow> string \<Rightarrow> bool" where
  "stringContains s t = sublist t s"

subsection \<open>Facts\<close>

lemma splitOn_nonempty [simp]: "splitOn c s \<noteq> []"
  by (induction s) (auto split: list.splits)

lemma splitOn_no_sep: "c \<notin> set s \<Longrightarrow> splitOn c s = [s]"
  by (induction s) auto

lemma splitOn_append: "c \<notin> set w \<Longrightarrow> splitOn c (w @ c # s) = w # splitOn c s"
  by (induction w) auto

lemma splitOn_joinWith [go_string]:
  "ws \<noteq> [] \<Longrightarrow> \<forall>w \<in> set ws. c \<notin> set w \<Longrightarrow> splitOn c (joinWith [c] ws) = ws"
proof (induction "[c]" ws rule: joinWith.induct)
  case (3 w v vs)
  then show ?case
    by (simp add: splitOn_append)
qed (simp_all add: splitOn_no_sep)

lemma joinWith_inject [go_string]:
  assumes "\<forall>w \<in> set ws. c \<notin> set w" and "\<forall>w \<in> set vs. c \<notin> set w"
    and "ws \<noteq> []" and "vs \<noteq> []" and "joinWith [c] ws = joinWith [c] vs"
  shows "ws = vs"
  using assms by (metis splitOn_joinWith)

lemma cutAt_append [go_string]: "c \<notin> set k \<Longrightarrow> cutAt c (k @ c # v) = (k, v, True)"
proof -
  assume "c \<notin> set k"
  then have "dropWhile (\<lambda>d. d \<noteq> c) (k @ c # v) = c # v" "takeWhile (\<lambda>d. d \<noteq> c) (k @ c # v) = k"
    by (auto simp: dropWhile_append takeWhile_append)
  then show ?thesis
    by (simp add: cutAt_def)
qed

lemma cutAt_none [go_string]: "c \<notin> set s \<Longrightarrow> cutAt c s = (s, [], False)"
proof -
  assume "c \<notin> set s"
  then have "dropWhile (\<lambda>d. d \<noteq> c) s = []"
    by auto
  then show ?thesis
    by (simp only: cutAt_def list.case)
qed

lemma cutAt_True: "cutAt c s = (k, v, True) \<Longrightarrow> s = k @ c # v \<and> c \<notin> set k"
proof -
  assume *: "cutAt c s = (k, v, True)"
  then obtain d r where dr: "dropWhile (\<lambda>d. d \<noteq> c) s = d # r"
    by (auto simp: cutAt_def split: list.splits)
  then have "d = c"
    by (simp add: dropWhile_eq_Cons_conv)
  with * dr have "k = takeWhile (\<lambda>d. d \<noteq> c) s" "v = r" "dropWhile (\<lambda>d. d \<noteq> c) s = c # v"
    by (auto simp: cutAt_def)
  then show ?thesis
    by (metis (mono_tags, lifting) set_takeWhileD takeWhile_dropWhile_id)
qed

lemma trimPrefix_append [go_string]: "trimPrefix (p @ s) p = s"
  by (simp add: trimPrefix_def)

lemma set_dropWhile_subset: "set (dropWhile P xs) \<subseteq> set xs"
  using set_dropWhileD by fastforce

lemma trimCut_subset: "set (trimCut cs s) \<subseteq> set s"
  by (auto simp: trimCut_def dest!: set_dropWhileD)

lemma trimCut_hd: "trimCut cs s \<noteq> [] \<Longrightarrow> hd (trimCut cs s) \<notin> cs"
proof -
  define t where "t = dropWhile (\<lambda>c. c \<in> cs) s"
  assume ne: "trimCut cs s \<noteq> []"
  have pre: "trimCut cs s = rev (dropWhile (\<lambda>c. c \<in> cs) (rev t))"
    by (simp add: trimCut_def t_def)
  then have pfx: "prefix (trimCut cs s) t"
    by (metis rev_rev_ident suffix_dropWhile suffix_to_prefix)
  then have "t \<noteq> []" and "hd (trimCut cs s) = hd t"
    using ne by (auto simp: prefix_def)
  moreover have "hd t \<notin> cs"
    using \<open>t \<noteq> []\<close> hd_dropWhile [of "\<lambda>c. c \<in> cs" s] by (simp add: t_def)
  ultimately show ?thesis by simp
qed

lemma strip_runes_suffix: "suffix (strip_runes ws s) s"
proof (induction ws s rule: strip_runes.induct)
  case (1 ws s)
  show ?case
  proof (cases "find (\<lambda>w. w \<noteq> [] \<and> prefix w s) ws")
    case None
    then show ?thesis
      by (simp add: strip_runes.simps [of ws s])
  next
    case (Some w)
    with 1 have "suffix (strip_runes ws (drop (length w) s)) (drop (length w) s)"
      by simp
    then have "suffix (strip_runes ws (drop (length w) s)) s"
      using suffix_drop suffix_order.trans by blast
    with Some show ?thesis
      by (simp add: strip_runes.simps [of ws s])
  qed
qed

lemma trimSpace_subset: "set (trimSpace s) \<subseteq> set s"
  unfolding trimSpace_def
  by (metis set_mono_suffix set_rev strip_runes_suffix subset_trans)

lemma strip_runes_id: "find (\<lambda>w. w \<noteq> [] \<and> prefix w s) ws = None \<Longrightarrow> strip_runes ws s = s"
  by (subst strip_runes.simps) simp

lemma space_runes_hd:
  "\<forall>w \<in> set space_runes. w \<noteq> [] \<and> \<not> (32 < byte (hd w) \<and> byte (hd w) < 128)"
  "\<forall>w \<in> set (map rev space_runes). w \<noteq> [] \<and> \<not> (32 < byte (hd w) \<and> byte (hd w) < 128)"
  by (simp_all add: space_runes_def byte_def)

lemma trimSpace_clean:
  assumes "\<forall>c \<in> set s. 32 < byte c \<and> byte c < 128"
  shows "trimSpace s = s"
proof -
  have no: "find (\<lambda>w. w \<noteq> [] \<and> prefix w t) ws = None"
    if ws: "\<forall>w \<in> set ws. w \<noteq> [] \<and> \<not> (32 < byte (hd w) \<and> byte (hd w) < 128)"
      and t: "set t \<subseteq> set s" for t ws
    using ws t assms by (force simp: find_None_iff prefix_def neq_Nil_conv)
  have a: "strip_runes space_runes s = s"
    by (intro strip_runes_id no space_runes_hd) simp
  have b: "strip_runes (map rev space_runes) (rev s) = rev s"
    by (intro strip_runes_id no space_runes_hd) simp
  show ?thesis
    by (simp add: trimSpace_def a b)
qed

end
