(* ===== verification/Encoding.thy ===== *)
theory Encoding
  imports Prelude
begin

text \<open>
  The text encodings of the sources: lower-case hexadecimal (\<^verbatim>\<open>encoding/hex\<close>), unpadded
  Base64 (\<^verbatim>\<open>base64.RawStdEncoding\<close> and \<^verbatim>\<open>base64.RawURLEncoding\<close>) and decimal numbers
  (\<^verbatim>\<open>strconv\<close>), each with its round trip.
\<close>

section \<open>Hexadecimal\<close>

definition hex_digit :: "nat \<Rightarrow> char" where
  "hex_digit n = (if n < 10 then chr (48 + n) else chr (87 + n))"

definition hex_value :: "char \<Rightarrow> nat option" where
  "hex_value c = (let b = byte c in
     if 48 \<le> b \<and> b \<le> 57 then Some (b - 48)
     else if 97 \<le> b \<and> b \<le> 102 then Some (b - 87)
     else if 65 \<le> b \<and> b \<le> 70 then Some (b - 55)
     else None)"

fun hex_encode :: "string \<Rightarrow> string" where
  "hex_encode [] = []"
| "hex_encode (c # s) = hex_digit (byte c div 16) # hex_digit (byte c mod 16) # hex_encode s"

fun hex_decode :: "string \<Rightarrow> string option" where
  "hex_decode [] = Some []"
| "hex_decode [c] = None"
| "hex_decode (h # l # s) =
     (case (hex_value h, hex_value l, hex_decode s) of
        (Some a, Some b, Some r) \<Rightarrow> Some (chr (16 * a + b) # r)
      | _ \<Rightarrow> None)"

definition is_lower_hex :: "char \<Rightarrow> bool" where
  "is_lower_hex c = (48 \<le> byte c \<and> byte c \<le> 57 \<or> 97 \<le> byte c \<and> byte c \<le> 102)"

lemma byte_hex_digit: "n < 16 \<Longrightarrow> byte (hex_digit n) = (if n < 10 then 48 + n else 87 + n)"
  by (simp add: hex_digit_def)

lemma hex_value_digit [simp]: "n < 16 \<Longrightarrow> hex_value (hex_digit n) = Some n"
  by (auto simp: hex_value_def byte_hex_digit Let_def)

lemma hex_digit_lower [simp]: "n < 16 \<Longrightarrow> is_lower_hex (hex_digit n)"
  by (auto simp: is_lower_hex_def byte_hex_digit)

lemma byte_div_16 [simp]: "byte c div 16 < 16"
  using byte_less [of c] by linarith

lemma hex_decode_encode [simp]: "hex_decode (hex_encode s) = Some s"
  by (induction s) simp_all

lemma length_hex_encode [simp]: "length (hex_encode s) = 2 * length s"
  by (induction s) simp_all

lemma hex_encode_lower: "c \<in> set (hex_encode s) \<Longrightarrow> is_lower_hex c"
  by (induction s) auto

lemma hex_encode_inject [simp]: "hex_encode s = hex_encode t \<longleftrightarrow> s = t"
  by (metis hex_decode_encode option.inject)

lemma hex_encode_eq_Nil [simp]: "hex_encode s = [] \<longleftrightarrow> s = []"
  by (cases s) simp_all

lemma hex_decode_length: "hex_decode h = Some s \<Longrightarrow> length h = 2 * length s"
  by (induction h arbitrary: s rule: hex_decode.induct) (auto split: option.splits)

lemma hex_value_less: "hex_value c = Some n \<Longrightarrow> n < 16"
  by (auto simp: hex_value_def Let_def split: if_splits)

lemma hex_digit_value: "is_lower_hex c \<Longrightarrow> hex_value c = Some n \<Longrightarrow> hex_digit n = c"
proof -
  assume lc: "is_lower_hex c" and v: "hex_value c = Some n"
  then have "byte c = (if n < 10 then 48 + n else 87 + n)" "n < 16"
    by (auto simp: is_lower_hex_def hex_value_def Let_def split: if_splits)
  then have "byte (hex_digit n) = byte c"
    by (simp add: byte_hex_digit)
  then show ?thesis
    by simp
qed

text \<open>Decoding then encoding gives the text back exactly when the text was lower case.\<close>

lemma hex_encode_decode:
  "hex_decode h = Some s \<Longrightarrow> \<forall>c \<in> set h. is_lower_hex c \<Longrightarrow> hex_encode s = h"
proof (induction h arbitrary: s rule: hex_decode.induct)
  case (3 h l t)
  then obtain a b r where abr: "hex_value h = Some a" "hex_value l = Some b" "hex_decode t = Some r"
      and s: "s = chr (16 * a + b) # r"
    by (auto split: option.splits)
  have "a < 16" "b < 16"
    using abr hex_value_less by auto
  then have "byte (chr (16 * a + b)) = 16 * a + b"
    by simp
  moreover have "hex_digit a = h" "hex_digit b = l"
    using 3 abr hex_digit_value by auto
  ultimately show ?case
    using 3 abr s \<open>b < 16\<close> by simp
qed simp_all

section \<open>Base64 without padding\<close>

definition b64_digit :: "nat \<Rightarrow> char" where
  "b64_digit n =
     (if n < 26 then chr (65 + n) else if n < 52 then chr (71 + n)
      else if n < 62 then chr (n - 4) else if n = 62 then CHR ''+'' else CHR ''/'')"

definition b64_value :: "char \<Rightarrow> nat option" where
  "b64_value c = (let b = byte c in
     if 65 \<le> b \<and> b \<le> 90 then Some (b - 65)
     else if 97 \<le> b \<and> b \<le> 122 then Some (b - 71)
     else if 48 \<le> b \<and> b \<le> 57 then Some (b + 4)
     else if b = 43 then Some 62
     else if b = 47 then Some 63
     else None)"

fun b64_encode :: "string \<Rightarrow> string" where
  "b64_encode [] = []"
| "b64_encode [a] =
     [b64_digit (byte a div 4), b64_digit (byte a mod 4 * 16)]"
| "b64_encode [a, b] =
     [b64_digit (byte a div 4), b64_digit (byte a mod 4 * 16 + byte b div 16),
      b64_digit (byte b mod 16 * 4)]"
| "b64_encode (a # b # c # s) =
     b64_digit (byte a div 4) # b64_digit (byte a mod 4 * 16 + byte b div 16)
     # b64_digit (byte b mod 16 * 4 + byte c div 64) # b64_digit (byte c mod 64)
     # b64_encode s"

fun b64_groups :: "string \<Rightarrow> string option" where
  "b64_groups [] = Some []"
| "b64_groups [p] = None"
| "b64_groups [p, q] =
     (case (b64_value p, b64_value q) of
        (Some w, Some x) \<Rightarrow> Some [chr (w * 4 + x div 16)]
      | _ \<Rightarrow> None)"
| "b64_groups [p, q, r] =
     (case (b64_value p, b64_value q, b64_value r) of
        (Some w, Some x, Some y) \<Rightarrow> Some [chr (w * 4 + x div 16), chr (x mod 16 * 16 + y div 4)]
      | _ \<Rightarrow> None)"
| "b64_groups (p # q # r # t # s) =
     (case (b64_value p, b64_value q, b64_value r, b64_value t, b64_groups s) of
        (Some w, Some x, Some y, Some z, Some rest) \<Rightarrow>
          Some (chr (w * 4 + x div 16) # chr (x mod 16 * 16 + y div 4)
                # chr (y mod 4 * 64 + z) # rest)
      | _ \<Rightarrow> None)"

text \<open>Go's decoder skips carriage returns and line feeds and, unless made strict, ignores the
  unused low bits of the last digit.\<close>

definition b64_decode :: "string \<Rightarrow> string option" where
  "b64_decode s = b64_groups (filter (\<lambda>c. c \<noteq> CHR 0x0A \<and> c \<noteq> CHR 0x0D) s)"

text \<open>\<^verbatim>\<open>base64.RawURLEncoding\<close> differs in its last two digits only.\<close>

definition b64url_encode :: "string \<Rightarrow> string" where
  "b64url_encode s =
     map (\<lambda>c. if c = CHR ''+'' then CHR ''-'' else if c = CHR ''/'' then CHR ''_'' else c)
       (b64_encode s)"

lemma byte_plus_slash: "byte (CHR ''+'') = 43" "byte (CHR ''/'') = 47"
  by (simp_all add: byte_def)

lemma b64_value_digit [simp]: "n < 64 \<Longrightarrow> b64_value (b64_digit n) = Some n"
  by (auto simp: b64_value_def b64_digit_def Let_def byte_plus_slash)

lemma b64_digit_printable: "n < 64 \<Longrightarrow> 42 < byte (b64_digit n)"
  by (auto simp: b64_digit_def byte_plus_slash)

lemma byte_div_64 [simp]: "byte c div 64 < 4"
  using byte_less [of c] by linarith

lemma byte_quarters [simp]:
  "byte c div 4 < 64" "byte c mod 4 * 16 + byte d div 16 < 64" "byte c mod 4 * 16 < 64"
  "byte c mod 16 * 4 + byte d div 64 < 64" "byte c mod 16 * 4 < 64" "byte c mod 64 < 64"
proof -
  have "byte c mod 4 \<le> 3" "byte c mod 16 \<le> 15"
    by simp_all
  then show "byte c div 4 < 64" "byte c mod 4 * 16 + byte d div 16 < 64" "byte c mod 4 * 16 < 64"
    "byte c mod 16 * 4 + byte d div 64 < 64" "byte c mod 16 * 4 < 64" "byte c mod 64 < 64"
    using byte_less [of c] byte_div_16 [of d] byte_div_64 [of d] by (linarith, linarith, linarith,
      linarith, linarith, simp)
qed

lemma pack_div_mod:
  "r < m \<Longrightarrow> (q * m + r) div m = q" "r < m \<Longrightarrow> (q * m + r) mod m = r" for q m r :: nat
  by simp_all

lemma b64_rebuild:
  "byte a div 4 * 4 + (byte a mod 4 * 16 + byte b div 16) div 16 = byte a"
  "byte a div 4 * 4 + (byte a mod 4 * 16) div 16 = byte a"
  "(byte a mod 4 * 16 + byte b div 16) mod 16 * 16 + (byte b mod 16 * 4 + byte c div 64) div 4 = byte b"
  "(byte a mod 4 * 16 + byte b div 16) mod 16 * 16 + (byte b mod 16 * 4) div 4 = byte b"
  "(byte b mod 16 * 4 + byte c div 64) mod 4 * 64 + byte c mod 64 = byte c"
  by (simp_all only: pack_div_mod byte_div_16 byte_div_64 div_mult_mod_eq
      nonzero_mult_div_cancel_right zero_neq_numeral not_False_eq_True)

lemma b64_groups_encode: "b64_groups (b64_encode s) = Some s"
  by (induction s rule: b64_encode.induct)
    (simp_all only: b64_encode.simps b64_groups.simps b64_value_digit byte_quarters
      b64_rebuild option.case prod.case chr_byte)

lemma b64_encode_printable: "c \<in> set (b64_encode s) \<Longrightarrow> 42 < byte c"
  by (induction s rule: b64_encode.induct) (auto intro!: b64_digit_printable)

lemma b64_decode_encode [simp]: "b64_decode (b64_encode s) = Some s"
proof -
  have "filter (\<lambda>c. c \<noteq> CHR 0x0A \<and> c \<noteq> CHR 0x0D) (b64_encode s) = b64_encode s"
  proof (rule filter_True, rule ballI)
    fix c
    assume "c \<in> set (b64_encode s)"
    then have "42 < byte c"
      by (rule b64_encode_printable)
    then show "c \<noteq> CHR 0x0A \<and> c \<noteq> CHR 0x0D"
      by (auto simp: byte_def)
  qed
  then show ?thesis
    by (simp add: b64_decode_def b64_groups_encode)
qed

section \<open>Decimal\<close>

fun itoa :: "nat \<Rightarrow> string" where
  "itoa n = (if n < 10 then [chr (48 + n)] else itoa (n div 10) @ [chr (48 + n mod 10)])"

declare itoa.simps [simp del]

definition formatInt :: "int \<Rightarrow> string" where
  "formatInt n = (if n < 0 then CHR ''-'' # itoa (nat (- n)) else itoa (nat n))"

definition digits_value :: "string \<Rightarrow> nat" where
  "digits_value s = foldl (\<lambda>n c. 10 * n + (byte c - 48)) 0 s"

text \<open>\<^verbatim>\<open>strconv.ParseInt(s, 10, 64)\<close>: an optional sign, at least one digit, and a value that fits
  in 64 bits.\<close>

definition parseInt :: "string \<Rightarrow> int option" where
  "parseInt s =
     (let (neg, ds) = (case s of
          [] \<Rightarrow> (False, [])
        | c # r \<Rightarrow> if c = CHR ''-'' then (True, r) else if c = CHR ''+'' then (False, r) else (False, s))
      in if ds = [] \<or> \<not> list_all is_digit ds then None
         else let v = (if neg then - int (digits_value ds) else int (digits_value ds))
           in if - (2 ^ 63) \<le> v \<and> v < 2 ^ 63 then Some v else None)"

lemma itoa_digits: "c \<in> set (itoa n) \<Longrightarrow> is_digit c"
proof (induction n rule: itoa.induct)
  case (1 n)
  then show ?case
    by (subst (asm) (2) itoa.simps) (auto simp: is_digit_def split: if_splits)
qed

lemma itoa_nonempty [simp]: "itoa n \<noteq> []"
  by (subst itoa.simps) simp

lemma digits_value_snoc: "digits_value (s @ [c]) = 10 * digits_value s + (byte c - 48)"
  by (simp add: digits_value_def)

lemma digits_value_itoa [simp]: "digits_value (itoa n) = n"
proof (induction n rule: itoa.induct)
  case (1 n)
  show ?case
  proof (cases "n < 10")
    case True
    then show ?thesis
      by (subst itoa.simps) (simp add: digits_value_def)
  next
    case False
    with 1 have "digits_value (itoa (n div 10)) = n div 10"
      by simp
    with False show ?thesis
      by (subst itoa.simps) (simp add: digits_value_snoc)
  qed
qed

lemma itoa_inject [simp]: "itoa m = itoa n \<longleftrightarrow> m = n"
  by (metis digits_value_itoa)

lemma is_digit_sign: "is_digit c \<Longrightarrow> c \<noteq> CHR ''-'' \<and> c \<noteq> CHR ''+''"
  by (auto simp: is_digit_def byte_def)

lemma parseInt_itoa: "int n < 2 ^ 63 \<Longrightarrow> parseInt (itoa n) = Some (int n)"
proof -
  assume n: "int n < 2 ^ 63"
  obtain c r where cr: "itoa n = c # r"
    by (meson itoa_nonempty neq_Nil_conv)
  have dig: "\<forall>d \<in> set (itoa n). is_digit d"
    using itoa_digits by blast
  then have sign: "c \<noteq> CHR ''-'' \<and> c \<noteq> CHR ''+''"
    using cr is_digit_sign by simp
  have all: "list_all is_digit (c # r)"
    using dig cr by (simp add: list_all_iff)
  have "digits_value (c # r) = n"
    using cr by (metis digits_value_itoa)
  with n sign all show ?thesis
    unfolding parseInt_def cr by (simp add: Let_def)
qed

lemma parseInt_formatInt: "- (2 ^ 63) \<le> n \<Longrightarrow> n < 2 ^ 63 \<Longrightarrow> parseInt (formatInt n) = Some n"
proof (cases "n < 0")
  case False
  moreover assume "n < 2 ^ 63"
  ultimately show ?thesis
    using parseInt_itoa [of "nat n"] by (simp add: formatInt_def)
next
  case True
  assume lo: "- (2 ^ 63) \<le> n" and hi: "n < 2 ^ 63"
  have "list_all is_digit (itoa (nat (- n)))"
    using itoa_digits by (auto simp: list_all_iff)
  with True lo hi show ?thesis
    by (simp add: parseInt_def formatInt_def Let_def)
qed

lemma itoa_length_le: "n < 10 ^ k \<Longrightarrow> 0 < k \<Longrightarrow> length (itoa n) \<le> k"
proof (induction n arbitrary: k rule: itoa.induct)
  case (1 n)
  show ?case
  proof (cases "n < 10")
    case True
    with 1 show ?thesis
      by (subst itoa.simps) simp
  next
    case False
    obtain j where j: "k = Suc j"
      using "1.prems" by (cases k) auto
    with False "1.prems" have "0 < j"
      by (cases j) auto
    moreover have "n div 10 < 10 ^ j"
      using "1.prems" j by (simp add: less_mult_imp_div_less mult.commute)
    ultimately have "length (itoa (n div 10)) \<le> j"
      using 1 False by simp
    with False j show ?thesis
      by (subst itoa.simps) simp
  qed
qed

end
