(* ===== verification/Http.thy ===== *)
theory Http
  imports Encoding
begin

text \<open>
  What the handlers see of HTTP: a request with its headers and cookies already parsed, the
  response writer as an explicit value, and JSON.  A response writer keeps the first status
  it is given and appends every body written to it, which is what \<^verbatim>\<open>net/http\<close> does.
\<close>

datatype json =
    JNull
  | JBool bool
  | JNum int
  | JStr string
  | JArr "json list"
  | JObj "(string \<times> json) list"

type_synonym headers = "(string \<times> string) list"

definition header_get :: "headers \<Rightarrow> string \<Rightarrow> string" where
  "header_get hs k = (case map_of hs k of None \<Rightarrow> [] | Some v \<Rightarrow> v)"

definition header_set :: "headers \<Rightarrow> string \<Rightarrow> string \<Rightarrow> headers" where
  "header_set hs k v = (k, v) # filter (\<lambda>h. fst h \<noteq> k) hs"

definition header_del :: "headers \<Rightarrow> string \<Rightarrow> headers" where
  "header_del hs k = filter (\<lambda>h. fst h \<noteq> k) hs"

lemma header_get_set [simp]:
  "header_get (header_set hs k v) k' = (if k' = k then v else header_get hs k')"
proof -
  have "map_of (filter (\<lambda>h. fst h \<noteq> k) hs) k' = (if k' = k then None else map_of hs k')"
    by (induction hs) auto
  then show ?thesis
    by (auto simp: header_get_def header_set_def)
qed

lemma header_get_del [simp]:
  "header_get (header_del hs k) k' = (if k' = k then [] else header_get hs k')"
proof -
  have "map_of (filter (\<lambda>h. fst h \<noteq> k) hs) k' = (if k' = k then None else map_of hs k')"
    by (induction hs) auto
  then show ?thesis
    by (auto simp: header_get_def header_del_def)
qed

record request =
  rq_method :: string
  rq_escaped :: string
  rq_path :: string
  rq_headers :: headers
  rq_cookies :: "(string \<times> string) list"
  rq_query :: "(string \<times> string) list"
  rq_remote :: string
  rq_host :: string
  rq_tls :: bool

text \<open>\<open>rq_escaped\<close> is \<^verbatim>\<open>r.URL.EscapedPath()\<close> and \<open>rq_path\<close> is \<^verbatim>\<open>r.URL.Path\<close>.\<close>

record cookie =
  ck_name :: string
  ck_value :: string
  ck_path :: string
  ck_http_only :: bool
  ck_same_site :: string
  ck_max_age :: int
  ck_secure :: bool

record response =
  rs_status :: "nat option"
  rs_headers :: headers
  rs_cookies :: "cookie list"
  rs_body :: "json list"

definition fresh_response :: response where
  "fresh_response = \<lparr>rs_status = None, rs_headers = [], rs_cookies = [], rs_body = []\<rparr>"

definition status_of :: "response \<Rightarrow> nat" where
  "status_of rw = (case rs_status rw of None \<Rightarrow> 200 | Some c \<Rightarrow> c)"

definition writeHeader :: "nat \<Rightarrow> response \<Rightarrow> response" where
  "writeHeader code rw = (case rs_status rw of
      None \<Rightarrow> rw\<lparr>rs_status := Some code\<rparr>
    | Some _ \<Rightarrow> rw)"

definition writeJSON :: "nat \<Rightarrow> json \<Rightarrow> response \<Rightarrow> response" where
  "writeJSON code v rw =
     (let rw' = writeHeader code (rw\<lparr>rs_headers := header_set (rs_headers rw) ''Content-Type'' ''application/json''\<rparr>)
      in rw'\<lparr>rs_body := rs_body rw' @ [v]\<rparr>)"

definition writeAuthError :: "nat \<Rightarrow> string \<Rightarrow> response \<Rightarrow> response" where
  "writeAuthError code msg rw = writeJSON code (JObj [(''error'', JStr msg)]) rw"

definition setCookie :: "cookie \<Rightarrow> response \<Rightarrow> response" where
  "setCookie c rw = rw\<lparr>rs_cookies := rs_cookies rw @ [c]\<rparr>"

definition ok_body :: json where
  "ok_body = JObj [(''ok'', JBool True)]"

lemma status_writeJSON [simp]:
  "rs_status (writeJSON code v rw) = (case rs_status rw of None \<Rightarrow> Some code | Some c \<Rightarrow> Some c)"
  by (auto simp: writeJSON_def writeHeader_def Let_def split: option.splits)

lemma body_writeJSON [simp]: "rs_body (writeJSON code v rw) = rs_body rw @ [v]"
  by (auto simp: writeJSON_def writeHeader_def Let_def split: option.splits)

lemma cookies_writeJSON [simp]: "rs_cookies (writeJSON code v rw) = rs_cookies rw"
  by (auto simp: writeJSON_def writeHeader_def Let_def split: option.splits)

lemma status_writeAuthError [simp]:
  "rs_status (writeAuthError code msg rw) = (case rs_status rw of None \<Rightarrow> Some code | Some c \<Rightarrow> Some c)"
  by (simp add: writeAuthError_def)

lemma body_writeAuthError [simp]:
  "rs_body (writeAuthError code msg rw) = rs_body rw @ [JObj [(''error'', JStr msg)]]"
  by (simp add: writeAuthError_def)

lemma cookies_writeAuthError [simp]: "rs_cookies (writeAuthError code msg rw) = rs_cookies rw"
  by (simp add: writeAuthError_def)

lemma setCookie_simps [simp]:
  "rs_status (setCookie c rw) = rs_status rw" "rs_body (setCookie c rw) = rs_body rw"
  "rs_cookies (setCookie c rw) = rs_cookies rw @ [c]"
  by (simp_all add: setCookie_def)

lemma fresh_response_simps [simp]:
  "rs_status fresh_response = None" "rs_body fresh_response = []" "rs_cookies fresh_response = []"
  by (simp_all add: fresh_response_def)

section \<open>Durations\<close>

text \<open>Instants and durations are integers that count nanoseconds, as \<^verbatim>\<open>time.Duration\<close> does.\<close>

abbreviation second :: int where
  "second \<equiv> 1000000000"

abbreviation minute :: int where
  "minute \<equiv> 60 * second"

abbreviation hour :: int where
  "hour \<equiv> 60 * minute"

text \<open>\<^verbatim>\<open>fmt.Sprintf("%d seconds", int(d.Seconds()))\<close> cast to an interval: the duration cut down to
  whole seconds.\<close>

definition interval :: "int \<Rightarrow> int" where
  "interval d = d div second * second"

end
