(* ===== verification/Internal.thy ===== *)
theory Internal
  imports Http
begin

text \<open>
  The three shared packages under \<^verbatim>\<open>src/internal\<close>: \<^verbatim>\<open>appname\<close> (which names an application may
  have), \<^verbatim>\<open>traceparent\<close> (the W3C trace context header) and \<^verbatim>\<open>devicesig\<close> (requests signed with
  a device's Ed25519 key).
\<close>

section \<open>Package appname\<close>

definition MaxLen :: nat where
  "MaxLen = 32"

definition name_start :: "char \<Rightarrow> bool" where
  "name_start c = (is_lower_letter c \<or> is_digit c)"

definition name_char :: "char \<Rightarrow> bool" where
  "name_char c = (name_start c \<or> c = CHR ''-'')"

text \<open>The pattern \<^verbatim>\<open>^[a-z0-9][a-z0-9-]*$\<close>.\<close>

definition pattern :: "string \<Rightarrow> bool" where
  "pattern s = (case s of [] \<Rightarrow> False | c # r \<Rightarrow> name_start c \<and> list_all name_char r)"

definition appname_Valid :: "string \<Rightarrow> bool" where
  "appname_Valid s = (length s \<le> MaxLen \<and> pattern s)"

lemma name_char_byte: "name_char c \<Longrightarrow> byte c = 45 \<or> 48 \<le> byte c \<and> byte c \<le> 57 \<or> 97 \<le> byte c \<and> byte c \<le> 122"
  by (auto simp: name_char_def name_start_def is_lower_letter_def is_digit_def byte_def)

lemma pattern_iff: "pattern s \<longleftrightarrow> s \<noteq> [] \<and> name_start (hd s) \<and> (\<forall>c \<in> set s. name_char c)"
  by (auto simp: pattern_def list_all_iff name_char_def split: list.splits)

lemma appname_Valid_chars: "appname_Valid s \<Longrightarrow> c \<in> set s \<Longrightarrow> name_char c"
  by (simp add: appname_Valid_def pattern_iff)

lemma appname_Valid_nonempty: "appname_Valid s \<Longrightarrow> s \<noteq> []"
  by (simp add: appname_Valid_def pattern_iff)

section \<open>Package traceparent\<close>

definition slice :: "nat \<Rightarrow> nat \<Rightarrow> string \<Rightarrow> string" where
  "slice i j s = take (j - i) (drop i s)"

definition lowerHex :: "string \<Rightarrow> bool" where
  "lowerHex s = list_all is_lower_hex s"

definition all_zero :: "string \<Rightarrow> bool" where
  "all_zero s = (trimCut {CHR ''0''} s = [])"

definition traceparent_valid :: "string \<Rightarrow> bool" where
  "traceparent_valid h =
     (if length h < 55 \<or> h ! 2 \<noteq> CHR ''-'' \<or> h ! 35 \<noteq> CHR ''-'' \<or> h ! 52 \<noteq> CHR ''-'' then False
      else let version = slice 0 2 h in
        if version = ''ff'' \<or> (version = ''00'' \<and> length h \<noteq> 55)
           \<or> (length h > 55 \<and> h ! 55 \<noteq> CHR ''-'') then False
        else if \<not> list_all lowerHex [version, slice 3 35 h, slice 36 52 h, slice 53 55 h] then False
        else \<not> all_zero (slice 3 35 h) \<and> \<not> all_zero (slice 36 52 h))"

definition TraceID :: "string \<Rightarrow> string" where
  "TraceID h = (if \<not> traceparent_valid h then [] else slice 3 35 h)"

text \<open>\<open>r16\<close> and \<open>r8\<close> are the bytes \<^verbatim>\<open>random(16)\<close> and \<^verbatim>\<open>random(8)\<close> draw.\<close>

definition traceparent_Next :: "string \<Rightarrow> string \<Rightarrow> string \<Rightarrow> string" where
  "traceparent_Next r16 r8 h =
     (let (trace, flags) =
        (if traceparent_valid h then (slice 3 35 h, slice 53 55 h) else (hex_encode r16, ''01''))
      in ''00-'' @ trace @ ''-'' @ hex_encode r8 @ ''-'' @ flags)"

lemma all_zero_iff: "all_zero s \<longleftrightarrow> (\<forall>c \<in> set s. c = CHR ''0'')"
proof
  assume "all_zero s"
  then have "dropWhile (\<lambda>c. c \<in> {CHR ''0''}) (rev (dropWhile (\<lambda>c. c \<in> {CHR ''0''}) s)) = []"
    unfolding all_zero_def trimCut_def by (simp only: rev_is_Nil_conv)
  then have *: "\<forall>c \<in> set (dropWhile (\<lambda>c. c = CHR ''0'') s). c = CHR ''0''"
    by (simp only: dropWhile_eq_Nil_conv set_rev singleton_iff)
  have "dropWhile (\<lambda>c. c = CHR ''0'') s = []"
  proof (rule ccontr)
    assume ne: "dropWhile (\<lambda>c. c = CHR ''0'') s \<noteq> []"
    then have "hd (dropWhile (\<lambda>c. c = CHR ''0'') s) = CHR ''0''"
      using * by (meson hd_in_set)
    with hd_dropWhile [OF ne] show False
      by simp
  qed
  then show "\<forall>c \<in> set s. c = CHR ''0''"
    by (simp only: dropWhile_eq_Nil_conv)
next
  assume *: "\<forall>c \<in> set s. c = CHR ''0''"
  then have "dropWhile (\<lambda>c. c = CHR ''0'') s = []"
    by (simp only: dropWhile_eq_Nil_conv)
  then show "all_zero s"
    unfolding all_zero_def trimCut_def by (simp only: singleton_iff rev.simps dropWhile.simps)
qed

lemma hex_encode_zero: "(\<forall>c \<in> set (hex_encode s). c = CHR ''0'') \<longleftrightarrow> (\<forall>c \<in> set s. byte c = 0)"
proof (induction s)
  case (Cons c s)
  have d: "hex_digit n = CHR ''0'' \<longleftrightarrow> n = 0" if "n < 16" for n
  proof -
    have "hex_digit n = CHR ''0'' \<longleftrightarrow> byte (hex_digit n) = 48"
      using byte_inject [of "hex_digit n" "CHR ''0''"] by (simp add: byte_def)
    also have "\<dots> \<longleftrightarrow> n = 0"
      using that by (auto simp: byte_hex_digit)
    finally show ?thesis .
  qed
  have "byte c div 16 = 0 \<and> byte c mod 16 = 0 \<longleftrightarrow> byte c = 0"
    using div_mult_mod_eq [of "byte c" 16] by linarith
  moreover have "hex_digit (byte c div 16) = CHR ''0'' \<longleftrightarrow> byte c div 16 = 0"
    "hex_digit (byte c mod 16) = CHR ''0'' \<longleftrightarrow> byte c mod 16 = 0"
    by (simp_all add: d)
  ultimately show ?case
    using Cons.IH
    by (simp only: hex_encode.simps list.set ball_simps conj_assoc [symmetric])
qed simp

lemma slice_layout:
  assumes "length t = 32" "length p = 16" "length f = 2"
  shows "slice 0 2 (''00-'' @ t @ ''-'' @ p @ ''-'' @ f) = ''00''"
    and "slice 3 35 (''00-'' @ t @ ''-'' @ p @ ''-'' @ f) = t"
    and "slice 36 52 (''00-'' @ t @ ''-'' @ p @ ''-'' @ f) = p"
    and "slice 53 55 (''00-'' @ t @ ''-'' @ p @ ''-'' @ f) = f"
  using assms by (simp_all add: slice_def)

lemma traceparent_valid_layout:
  assumes "length t = 32" "length p = 16" "length f = 2"
  shows "traceparent_valid (''00-'' @ t @ ''-'' @ p @ ''-'' @ f) \<longleftrightarrow>
    lowerHex t \<and> lowerHex p \<and> lowerHex f \<and> \<not> all_zero t \<and> \<not> all_zero p"
proof -
  have "lowerHex ''00''"
    by (simp add: lowerHex_def is_lower_hex_def byte_def)
  with assms show ?thesis
    unfolding traceparent_valid_def slice_layout [OF assms]
    by (auto simp: nth_append Let_def)
qed

lemma length_slice [simp]: "j \<le> length h \<Longrightarrow> length (slice i j h) = j - i"
  by (simp add: slice_def)

lemma traceparent_validD:
  assumes "traceparent_valid h"
  shows "55 \<le> length h" "lowerHex (slice 3 35 h)" "lowerHex (slice 53 55 h)" "\<not> all_zero (slice 3 35 h)"
  using assms by (auto simp: traceparent_valid_def Let_def split: if_splits)

lemma lowerHex_hex_encode [simp]: "lowerHex (hex_encode s)"
  by (auto simp: lowerHex_def list_all_iff hex_encode_lower)

text \<open>
  Trace continuity.  Whatever header a request came in with, the header sent to the next
  hop is a valid version 00 header; it carries the incoming trace id when the incoming header
  was valid, and the fresh one otherwise.  The random bytes are assumed not to be all zero,
  because an all-zero id means none.
\<close>

theorem traceparent_next_continues:
  assumes "length r16 = 16" "length r8 = 8"
    and "\<exists>c \<in> set r16. byte c \<noteq> 0" "\<exists>c \<in> set r8. byte c \<noteq> 0"
  shows "traceparent_valid (traceparent_Next r16 r8 h) \<and> length (traceparent_Next r16 r8 h) = 55 \<and>
    TraceID (traceparent_Next r16 r8 h) = (if traceparent_valid h then TraceID h else hex_encode r16)"
proof -
  define t where "t = (if traceparent_valid h then slice 3 35 h else hex_encode r16)"
  define f where "f = (if traceparent_valid h then slice 53 55 h else ''01'')"
  have next_eq: "traceparent_Next r16 r8 h = ''00-'' @ t @ ''-'' @ hex_encode r8 @ ''-'' @ f"
    by (simp add: traceparent_Next_def t_def f_def)
  have len: "length t = 32" "length (hex_encode r8) = 16" "length f = 2"
    using assms traceparent_validD(1) [of h] by (auto simp: t_def f_def)
  have "lowerHex ''01''"
    by (simp add: lowerHex_def is_lower_hex_def byte_def)
  moreover have "\<not> all_zero (hex_encode r16)"
    using assms by (simp add: all_zero_iff hex_encode_zero)
  ultimately have "lowerHex t" "lowerHex f" "\<not> all_zero t"
    using traceparent_validD [of h] by (simp_all add: t_def f_def)
  moreover have "\<not> all_zero (hex_encode r8)"
    using assms by (simp add: all_zero_iff hex_encode_zero)
  ultimately have "traceparent_valid (traceparent_Next r16 r8 h)"
    unfolding next_eq traceparent_valid_layout [OF len] by simp
  moreover have "slice 3 35 (traceparent_Next r16 r8 h) = t"
    unfolding next_eq by (rule slice_layout [OF len])
  ultimately show ?thesis
    using len by (auto simp: TraceID_def t_def next_eq)
qed

theorem traceparent_next_continues_witness:
  "length (traceparent_Next (replicate 16 (CHR ''a'')) (replicate 8 (CHR ''b'')) ''junk'') = 55"
  using traceparent_next_continues
    [of "replicate 16 (CHR ''a'')" "replicate 8 (CHR ''b'')" "''junk''"]
  by (simp add: byte_def)

end
