(* ===== verification/Devicesig.thy ===== *)
theory Devicesig
  imports Internal
begin

text \<open>
  Package \<^verbatim>\<open>internal/devicesig\<close>: the agent signs a request with its Ed25519 key and the control
  plane verifies it.  Ed25519 and SHA-256 are parameters (\<^typ>\<open>golib\<close>); what the package relies
  on is \<open>ed25519_ok\<close>: sizes, and that a signature verifies under the signer's public key.
\<close>

definition HeaderKey :: string where "HeaderKey = ''X-Device-Key''"
definition HeaderNonce :: string where "HeaderNonce = ''X-Device-Nonce''"
definition HeaderTimestamp :: string where "HeaderTimestamp = ''X-Device-Timestamp''"
definition HeaderSignature :: string where "HeaderSignature = ''X-Device-Signature''"

definition ClockSkew :: int where "ClockSkew = 5 * minute"
definition MinNonceLen :: nat where "MinNonceLen = 16"
definition PublicKeySize :: nat where "PublicKeySize = 32"
definition SignatureSize :: nat where "SignatureSize = 64"

definition sig_path :: "request \<Rightarrow> string" where
  "sig_path r = (if rq_escaped r \<noteq> [] then rq_escaped r else rq_path r)"

definition payload :: "golib \<Rightarrow> string \<Rightarrow> string \<Rightarrow> string \<Rightarrow> string \<Rightarrow> string \<Rightarrow> string \<Rightarrow> string" where
  "payload lib meth path key nonce stamp body =
     joinWith [newline] [meth, path, key, nonce, stamp, hex_encode (lib_sha256 lib body)]"

text \<open>\<open>at\<close> is in nanoseconds; \<^verbatim>\<open>at.Unix()\<close> is whole seconds, rounded down.\<close>

definition SignAt :: "golib \<Rightarrow> request \<Rightarrow> string \<Rightarrow> string \<Rightarrow> string \<Rightarrow> int \<Rightarrow> request" where
  "SignAt lib r priv body nonce at =
     (let key = hex_encode (lib_public lib priv);
          stamp = formatInt (at div second);
          sig = lib_sign lib priv (payload lib (rq_method r) (sig_path r) key nonce stamp body);
          h1 = header_set (rq_headers r) HeaderKey key;
          h2 = header_set h1 HeaderNonce nonce;
          h3 = header_set h2 HeaderTimestamp stamp;
          h4 = header_set h3 HeaderSignature (hex_encode sig)
      in r\<lparr>rq_headers := h4\<rparr>)"

text \<open>\<^verbatim>\<open>Sign\<close> draws sixteen random bytes and sends them in hex.\<close>

definition Sign :: "golib \<Rightarrow> request \<Rightarrow> string \<Rightarrow> string \<Rightarrow> string \<Rightarrow> int \<Rightarrow> request" where
  "Sign lib r priv body rnd at = SignAt lib r priv body (hex_encode rnd) at"

definition Verify :: "golib \<Rightarrow> int \<Rightarrow> request \<Rightarrow> string \<Rightarrow> string + string \<times> string" where
  "Verify lib t r body =
     (let deviceKey = trimSpace (header_get (rq_headers r) HeaderKey);
          nonce = header_get (rq_headers r) HeaderNonce;
          stamp = trimSpace (header_get (rq_headers r) HeaderTimestamp);
          sigHex = trimSpace (header_get (rq_headers r) HeaderSignature)
      in if deviceKey = [] \<or> nonce = [] \<or> stamp = [] \<or> sigHex = []
         then Inl ''missing device signature headers''
         else if length nonce < MinNonceLen then Inl ''nonce too short''
         else case hex_decode deviceKey of
           None \<Rightarrow> Inl ''device key is not 32 bytes hex''
         | Some pub \<Rightarrow>
             if length pub \<noteq> PublicKeySize then Inl ''device key is not 32 bytes hex''
             else case hex_decode sigHex of
               None \<Rightarrow> Inl ''signature is not 64 bytes hex''
             | Some sig \<Rightarrow>
                 if length sig \<noteq> SignatureSize then Inl ''signature is not 64 bytes hex''
                 else case parseInt stamp of
                   None \<Rightarrow> Inl ''bad timestamp''
                 | Some secs \<Rightarrow>
                     let dt = t - secs * second in
                     if dt > ClockSkew \<or> dt < - ClockSkew then Inl ''timestamp outside window''
                     else if \<not> lib_verify lib pub
                         (payload lib (rq_method r) (sig_path r) deviceKey nonce stamp body) sig
                       then Inl ''bad signature''
                       else Inr (deviceKey, nonce))"

definition ed25519_ok :: "golib \<Rightarrow> bool" where
  "ed25519_ok lib \<longleftrightarrow>
     (\<forall>priv. length (lib_public lib priv) = PublicKeySize) \<and>
     (\<forall>priv msg. length (lib_sign lib priv msg) = SignatureSize) \<and>
     (\<forall>priv msg. lib_verify lib (lib_public lib priv) msg (lib_sign lib priv msg))"

text \<open>A toy instance, for witnesses: it satisfies \<open>ed25519_ok\<close>, and nothing else is claimed of it.\<close>

definition toy_lib :: golib where
  "toy_lib = \<lparr>lib_sha256 = (\<lambda>s. take 32 (s @ replicate 32 (CHR ''0''))),
     lib_hmac = (\<lambda>k m. take 32 (k @ replicate 32 (CHR ''0''))),
     lib_lower = id, lib_upper = id,
     lib_public = (\<lambda>k. take 32 (k @ replicate 32 (CHR ''0''))),
     lib_sign = (\<lambda>k m. take 64 (k @ replicate 64 (CHR ''0''))),
     lib_verify = (\<lambda>p m s. take 32 s = p)\<rparr>"

lemma toy_lib_ok: "ed25519_ok toy_lib"
  by (auto simp: ed25519_ok_def toy_lib_def PublicKeySize_def SignatureSize_def min_def)

section \<open>Facts about accepted requests\<close>

lemma hex_clean: "is_lower_hex c \<Longrightarrow> 32 < byte c \<and> byte c < 128"
  by (auto simp: is_lower_hex_def)

lemma trimSpace_hex [simp]: "trimSpace (hex_encode s) = hex_encode s"
  by (intro trimSpace_clean) (auto dest: hex_encode_lower hex_clean)

lemma trimSpace_formatInt [simp]: "trimSpace (formatInt n) = formatInt n"
proof (intro trimSpace_clean ballI)
  fix c
  assume "c \<in> set (formatInt n)"
  then have "c = CHR ''-'' \<or> is_digit c"
    by (auto simp: formatInt_def itoa_digits split: if_splits)
  then show "32 < byte c \<and> byte c < 128"
    by (auto simp: is_digit_def byte_def)
qed

lemma formatInt_nonempty [simp]: "formatInt n \<noteq> []"
  by (simp add: formatInt_def)

lemma header_names_distinct [simp]:
  "HeaderKey \<noteq> HeaderNonce" "HeaderKey \<noteq> HeaderTimestamp" "HeaderKey \<noteq> HeaderSignature"
  "HeaderNonce \<noteq> HeaderKey" "HeaderNonce \<noteq> HeaderTimestamp" "HeaderNonce \<noteq> HeaderSignature"
  "HeaderTimestamp \<noteq> HeaderKey" "HeaderTimestamp \<noteq> HeaderNonce" "HeaderTimestamp \<noteq> HeaderSignature"
  "HeaderSignature \<noteq> HeaderKey" "HeaderSignature \<noteq> HeaderNonce" "HeaderSignature \<noteq> HeaderTimestamp"
  by (simp_all add: HeaderKey_def HeaderNonce_def HeaderTimestamp_def HeaderSignature_def)

text \<open>What acceptance means, read off the branches of \<^const>\<open>Verify\<close>.\<close>

lemma Verify_InrD:
  assumes "Verify lib t r body = Inr (key, nonce)"
  shows "key = trimSpace (header_get (rq_headers r) HeaderKey)"
    and "nonce = header_get (rq_headers r) HeaderNonce"
    and "MinNonceLen \<le> length nonce"
    and "\<exists>pub sig secs. hex_decode key = Some pub \<and> length pub = PublicKeySize \<and>
      parseInt (trimSpace (header_get (rq_headers r) HeaderTimestamp)) = Some secs \<and>
      \<bar>t - secs * second\<bar> \<le> ClockSkew \<and>
      lib_verify lib pub (payload lib (rq_method r) (sig_path r) key nonce
        (trimSpace (header_get (rq_headers r) HeaderTimestamp)) body) sig"
  using assms by (auto simp: Verify_def Let_def split: if_splits option.splits)

lemma SignAt_headers:
  "header_get (rq_headers (SignAt lib r priv body nonce at)) HeaderKey = hex_encode (lib_public lib priv)"
  "header_get (rq_headers (SignAt lib r priv body nonce at)) HeaderNonce = nonce"
  "header_get (rq_headers (SignAt lib r priv body nonce at)) HeaderTimestamp = formatInt (at div second)"
  "header_get (rq_headers (SignAt lib r priv body nonce at)) HeaderSignature =
     hex_encode (lib_sign lib priv (payload lib (rq_method r) (sig_path r)
       (hex_encode (lib_public lib priv)) nonce (formatInt (at div second)) body))"
  "rq_method (SignAt lib r priv body nonce at) = rq_method r"
  "sig_path (SignAt lib r priv body nonce at) = sig_path r"
  by (simp_all add: SignAt_def Let_def sig_path_def)

lemma Verify_SignAt:
  assumes "ed25519_ok lib" and "MinNonceLen \<le> length nonce"
    and "- (2 ^ 63) \<le> at div second" and "at div second < 2 ^ 63"
    and "\<bar>t - at div second * second\<bar> \<le> ClockSkew"
  shows "Verify lib t (SignAt lib r priv body nonce at) body
    = Inr (hex_encode (lib_public lib priv), nonce)"
proof -
  have sizes: "length (lib_public lib priv) = PublicKeySize"
      "\<And>m. length (lib_sign lib priv m) = SignatureSize"
      "\<And>m. lib_verify lib (lib_public lib priv) m (lib_sign lib priv m)"
    using assms(1) by (simp_all add: ed25519_ok_def)
  have nonempty: "lib_public lib priv \<noteq> []" "\<And>m. lib_sign lib priv m \<noteq> []" "nonce \<noteq> []"
    using sizes(1,2) assms(2) by (auto simp: PublicKeySize_def SignatureSize_def MinNonceLen_def
        simp flip: length_0_conv)
  have window: "\<not> (t - at div second * second > ClockSkew \<or> t - at div second * second < - ClockSkew)"
    using assms(5) by linarith
  show ?thesis
    unfolding Verify_def
    using sizes nonempty window assms(2) parseInt_formatInt [OF assms(3,4)]
    by (simp add: SignAt_headers Let_def)
qed

text \<open>
  C35.  Sign and verify agree.  A request signed at \<open>at\<close> over a body, with a nonce of at least
  sixteen bytes, is accepted by \<^const>\<open>Verify\<close> for that body at every instant whose distance
  from the timestamp is within the clock skew, and acceptance returns the signer's key in hex
  and the nonce that was sent.
\<close>

theorem sign_then_verify:
  assumes "ed25519_ok lib" and "MinNonceLen \<le> length nonce"
    and "- (2 ^ 63) \<le> at div second" and "at div second < 2 ^ 63"
    and "\<bar>t - at div second * second\<bar> \<le> ClockSkew"
  shows "Verify lib t (SignAt lib r priv body nonce at) body
    = Inr (hex_encode (lib_public lib priv), nonce)"
  using assms by (rule Verify_SignAt)

theorem sign_then_verify_witness:
  "Verify toy_lib (7 * second)
     (SignAt toy_lib \<lparr>rq_method = ''POST'', rq_escaped = ''/v1/tunnel'', rq_path = ''/v1/tunnel'',
        rq_headers = [], rq_cookies = [], rq_query = [], rq_remote = [], rq_host = [], rq_tls = True\<rparr>
        ''seed'' ''body'' ''0123456789abcdef'' 0) ''body''
   = Inr (hex_encode (lib_public toy_lib ''seed''), ''0123456789abcdef'')"
  by (rule sign_then_verify) (simp_all add: toy_lib_ok MinNonceLen_def ClockSkew_def)

text \<open>The fields of an accepted payload hold no line break, so the payload determines them.\<close>

lemma hex_decode_chars: "hex_decode h = Some s \<Longrightarrow> c \<in> set h \<Longrightarrow> \<exists>n. hex_value c = Some n"
  by (induction h arbitrary: s rule: hex_decode.induct) (auto split: option.splits)

lemma hex_value_newline: "hex_value newline = None"
  by (simp add: hex_value_def newline_def byte_def)

lemma hex_decode_newline: "hex_decode h = Some s \<Longrightarrow> newline \<notin> set h"
  using hex_decode_chars hex_value_newline by fastforce

lemma newline_not_hex: "newline \<notin> set (hex_encode s)"
  using hex_decode_newline hex_decode_encode by blast

lemma parseInt_newline: "parseInt s = Some n \<Longrightarrow> newline \<notin> set s"
  by (auto simp: parseInt_def Let_def list_all_iff newline_def is_digit_def byte_def
      split: list.splits if_splits)

text \<open>
  The signature covers everything.  If two requests are both accepted and their signed
  payloads are the same bytes, then the requests agree on the method, the path, the device
  key, the nonce, the timestamp and the digest of the body: no byte can move from one field
  to the next.  HTTP already keeps line breaks out of the method, the path and a header value.
\<close>

theorem payload_determines_request:
  assumes "Verify lib t r body = Inr (key, nonce)" and "Verify lib t' r' body' = Inr (key', nonce')"
    and "newline \<notin> set (rq_method r) \<union> set (sig_path r) \<union> set nonce"
    and "newline \<notin> set (rq_method r') \<union> set (sig_path r') \<union> set nonce'"
    and "stamp = trimSpace (header_get (rq_headers r) HeaderTimestamp)"
    and "stamp' = trimSpace (header_get (rq_headers r') HeaderTimestamp)"
    and "payload lib (rq_method r) (sig_path r) key nonce stamp body
       = payload lib (rq_method r') (sig_path r') key' nonce' stamp' body'"
  shows "rq_method r = rq_method r' \<and> sig_path r = sig_path r' \<and> key = key' \<and> nonce = nonce' \<and>
    stamp = stamp' \<and> lib_sha256 lib body = lib_sha256 lib body'"
proof -
  let ?fs = "[rq_method r, sig_path r, key, nonce, stamp, hex_encode (lib_sha256 lib body)]"
  let ?gs = "[rq_method r', sig_path r', key', nonce', stamp', hex_encode (lib_sha256 lib body')]"
  have "newline \<notin> set key" "newline \<notin> set stamp"
    using Verify_InrD(4) [OF assms(1)] assms(5) hex_decode_newline parseInt_newline by auto
  moreover have "newline \<notin> set key'" "newline \<notin> set stamp'"
    using Verify_InrD(4) [OF assms(2)] assms(6) hex_decode_newline parseInt_newline by auto
  ultimately have "\<forall>w \<in> set ?fs. newline \<notin> set w" "\<forall>w \<in> set ?gs. newline \<notin> set w"
    using assms(3,4) newline_not_hex by auto
  then have "?fs = ?gs"
    using assms(7) joinWith_inject [of ?fs newline ?gs] by (simp add: payload_def)
  then show ?thesis
    by simp
qed

definition sample_request :: "string \<Rightarrow> request" where
  "sample_request host = SignAt toy_lib \<lparr>rq_method = ''POST'', rq_escaped = ''/v1/tunnel'',
     rq_path = ''/v1/tunnel'', rq_headers = [], rq_cookies = [], rq_query = [], rq_remote = [],
     rq_host = host, rq_tls = True\<rparr> ''seed'' ''body'' ''0123456789abcdef'' 0"

lemma sample_request_accepted:
  "Verify toy_lib 0 (sample_request host) ''body''
   = Inr (hex_encode (lib_public toy_lib ''seed''), ''0123456789abcdef'')"
  unfolding sample_request_def
  by (rule Verify_SignAt) (simp_all add: toy_lib_ok MinNonceLen_def ClockSkew_def)

lemma sample_request_simps:
  "rq_method (sample_request host) = ''POST''" "sig_path (sample_request host) = ''/v1/tunnel''"
  "trimSpace (header_get (rq_headers (sample_request host)) HeaderTimestamp) = formatInt 0"
  unfolding sample_request_def SignAt_headers by (simp_all add: sig_path_def)

theorem payload_determines_request_witness:
  "sig_path (sample_request ''a'') = sig_path (sample_request ''b'')"
proof -
  have n: "newline \<notin> set (rq_method (sample_request h)) \<union> set (sig_path (sample_request h))
      \<union> set ''0123456789abcdef''" for h
    by (simp add: sample_request_simps newline_def)
  show ?thesis
    using payload_determines_request [OF sample_request_accepted [of "''a''"]
        sample_request_accepted [of "''b''"] n n refl refl]
    by (simp add: sample_request_simps)
qed

end
