(* ===== verification/Store.thy ===== *)
theory Store
  imports Devicesig
begin

text \<open>
  The control plane's PostgreSQL schema (\<^verbatim>\<open>hosted/control-plane/migrations\<close>) as records of
  rows, and the way handlers run statements against it.  A table is the list of its rows in
  insertion order; columns that no query reads are left out.  Columns with a \<^verbatim>\<open>CHECK ... IN\<close>
  are datatypes.

  An action is a function on a \<open>world\<close>: the tables, the clock, the outcome of the next
  database calls (\<open>w_faults\<close>: a \<^const>\<open>True\<close> makes that call fail), the random bytes and row
  identifiers still to be drawn, and the mail sent so far.  Actions return an error or a value,
  so each \<^verbatim>\<open>if err != nil\<close> of the sources is a branch here.
\<close>

section \<open>Rows\<close>

datatype dev_status = DevActive | DevDisabled
datatype role = Admin | Guest
datatype sub_status = SubActive | SubSuspended
datatype enrol_status = Pending | Approved | Refused

fun role_text :: "role \<Rightarrow> string" where
  "role_text Admin = ''admin''"
| "role_text Guest = ''guest''"

fun dev_status_text :: "dev_status \<Rightarrow> string" where
  "dev_status_text DevActive = ''active''"
| "dev_status_text DevDisabled = ''disabled''"

fun sub_status_text :: "sub_status \<Rightarrow> string" where
  "sub_status_text SubActive = ''active''"
| "sub_status_text SubSuspended = ''suspended''"

record account_row =
  ar_id :: string
  ar_email :: string
  ar_password :: "string option"
  ar_verified :: "int option"

record subscription_row =
  su_account :: string
  su_status :: sub_status

record session_row =
  sr_id :: string
  sr_account :: string
  sr_hash :: string
  sr_expires :: int
  sr_revoked :: "int option"
  sr_agent :: string
  sr_ip :: string

record token_row =
  tk_id :: string
  tk_account :: string
  tk_hash :: string
  tk_expires :: int
  tk_used :: "int option"

record device_row =
  dv_key :: string
  dv_id :: string
  dv_name :: string
  dv_status :: dev_status

record binding_row =
  bn_device :: string
  bn_user :: string
  bn_role :: role
  bn_by :: "string option"
  bn_created :: int
  bn_revoked :: "int option"

record invite_row =
  iv_id :: string
  iv_device :: string
  iv_by :: string
  iv_hash :: string
  iv_role :: role
  iv_expires :: int
  iv_used :: "int option"
  iv_used_by :: "string option"

record app_row =
  ap_device :: string
  ap_name :: string
  ap_type :: string

record nonce_row =
  nn_nonce :: string
  nn_key :: string
  nn_expires :: int

record enrolment_row =
  en_hash :: string
  en_key :: string
  en_name :: string
  en_status :: enrol_status
  en_by :: "string option"
  en_expires :: int
  en_used :: "int option"

record audit_details =
  ad_account :: string
  ad_key :: string
  ad_role :: string
  ad_prev :: string
  ad_from :: string
  ad_to :: string
  ad_reason :: string

record audit_row =
  au_device :: "string option"
  au_actor :: string
  au_action :: string
  au_details :: audit_details
  au_at :: int

record db =
  t_accounts :: "account_row list"
  t_subscriptions :: "subscription_row list"
  t_sessions :: "session_row list"
  t_verify :: "token_row list"
  t_reset :: "token_row list"
  t_enrol :: "token_row list"
  t_devices :: "device_row list"
  t_bindings :: "binding_row list"
  t_invites :: "invite_row list"
  t_apps :: "app_row list"
  t_nonces :: "nonce_row list"
  t_enrolments :: "enrolment_row list"
  t_audit :: "audit_row list"

definition empty_db :: db where
  "empty_db = \<lparr>t_accounts = [], t_subscriptions = [], t_sessions = [], t_verify = [], t_reset = [],
     t_enrol = [], t_devices = [], t_bindings = [], t_invites = [], t_apps = [], t_nonces = [],
     t_enrolments = [], t_audit = []\<rparr>"

text \<open>\<^verbatim>\<open>UPDATE ... WHERE\<close> on a table.\<close>

definition updateWhere :: "('r \<Rightarrow> bool) \<Rightarrow> ('r \<Rightarrow> 'r) \<Rightarrow> 'r list \<Rightarrow> 'r list" where
  "updateWhere P f rows = map (\<lambda>r. if P r then f r else r) rows"

lemma updateWhere_simps [simp]:
  "updateWhere P f [] = []"
  "updateWhere P f (r # rs) = (if P r then f r else r) # updateWhere P f rs"
  "length (updateWhere P f rs) = length rs"
  "updateWhere P f (rs @ qs) = updateWhere P f rs @ updateWhere P f qs"
  by (simp_all add: updateWhere_def)

lemma updateWhere_map: "(\<And>r. k (f r) = k r) \<Longrightarrow> map k (updateWhere P f rs) = map k rs"
  by (simp add: updateWhere_def)

lemma in_updateWhere: "r \<in> set (updateWhere P f rs) \<longleftrightarrow> (\<exists>q \<in> set rs. r = (if P q then f q else q))"
  by (auto simp: updateWhere_def)

lemma updateWhere_others:
  "(\<And>q. P q \<Longrightarrow> A q \<and> A (f q)) \<Longrightarrow> \<not> A b \<Longrightarrow> b \<in> set (updateWhere P f rows) \<longleftrightarrow> b \<in> set rows"
proof (induction rows)
  case (Cons r rows)
  then show ?case
    by (cases "P r") auto
qed simp

lemma updateWhere_all: "r \<in> set (updateWhere P f rows) \<Longrightarrow> (\<And>q. P q \<Longrightarrow> R (f q)) \<Longrightarrow>
  (\<And>q. q \<in> set rows \<Longrightarrow> \<not> P q \<Longrightarrow> R q) \<Longrightarrow> R r"
  unfolding in_updateWhere by (elim bexE) (metis (full_types))

lemma updateWhere_id: "(\<And>r. r \<in> set rs \<Longrightarrow> \<not> P r) \<Longrightarrow> updateWhere P f rs = rs"
  by (induction rs) auto

section \<open>Errors, worlds and actions\<close>

datatype err =
    ErrNoRows | ErrUnique | ErrDb | ErrRand | ErrAudit
  | ErrDeviceDisabled | ErrLastAdmin | ErrAdminLeave
  | ErrInviteDevice | ErrInviteCreator | ErrAlreadyBound | ErrSignature

record mail =
  ml_to :: string
  ml_subject :: string
  ml_body :: string
  ml_wire :: "string option"

record world =
  w_db :: db
  w_now :: int
  w_faults :: "bool list"
  w_rand :: "string list"
  w_uuid :: "string list"
  w_outbox :: "mail list"

type_synonym 'a act = "world \<Rightarrow> (err + 'a) \<times> world"
type_synonym handler = "response \<Rightarrow> world \<Rightarrow> response \<times> world"

definition ret :: "'a \<Rightarrow> 'a act" where
  "ret x w = (Inr x, w)"

definition fail :: "err \<Rightarrow> 'a act" where
  "fail e w = (Inl e, w)"

definition andThen :: "'a act \<Rightarrow> ('a \<Rightarrow> 'b act) \<Rightarrow> 'b act" where
  "andThen m k w = (case m w of (Inl e, w') \<Rightarrow> (Inl e, w') | (Inr x, w') \<Rightarrow> k x w')"

text \<open>\<open>attempt m k\<close> runs \<open>m\<close> and hands its error or value to \<open>k\<close>, as code that looks at \<^verbatim>\<open>err\<close>
  itself does.\<close>

definition attempt :: "'a act \<Rightarrow> (err + 'a \<Rightarrow> world \<Rightarrow> 'r) \<Rightarrow> world \<Rightarrow> 'r" where
  "attempt m k w = (case m w of (r, w') \<Rightarrow> k r w')"

text \<open>One database call.  The statement itself sees the clock and the tables.\<close>

definition stmt :: "(int \<Rightarrow> db \<Rightarrow> err + 'a \<times> db) \<Rightarrow> 'a act" where
  "stmt f w = (let w' = w\<lparr>w_faults := tl (w_faults w)\<rparr> in
     if w_faults w \<noteq> [] \<and> hd (w_faults w) then (Inl ErrDb, w')
     else case f (w_now w) (w_db w) of
       Inl e \<Rightarrow> (Inl e, w')
     | Inr (a, d) \<Rightarrow> (Inr a, w'\<lparr>w_db := d\<rparr>))"

definition query :: "(int \<Rightarrow> db \<Rightarrow> err + 'a) \<Rightarrow> 'a act" where
  "query f = stmt (\<lambda>t d. case f t d of Inl e \<Rightarrow> Inl e | Inr a \<Rightarrow> Inr (a, d))"

definition exec :: "(int \<Rightarrow> db \<Rightarrow> db) \<Rightarrow> unit act" where
  "exec f = stmt (\<lambda>t d. Inr ((), f t d))"

text \<open>\<^verbatim>\<open>QueryRow(...).Scan\<close>: the first row, or \<^const>\<open>ErrNoRows\<close>.\<close>

definition firstRow :: "'r list \<Rightarrow> err + 'r" where
  "firstRow rs = (case rs of [] \<Rightarrow> Inl ErrNoRows | r # _ \<Rightarrow> Inr r)"

definition readRand :: "string act" where
  "readRand w = (case w_rand w of
      [] \<Rightarrow> (Inl ErrRand, w)
    | b # bs \<Rightarrow> (Inr b, w\<lparr>w_rand := bs\<rparr>))"

definition newUuid :: "string act" where
  "newUuid w = (case w_uuid w of
      [] \<Rightarrow> (Inl ErrDb, w)
    | u # us \<Rightarrow> (Inr u, w\<lparr>w_uuid := us\<rparr>))"

text \<open>
  \<^verbatim>\<open>inTx\<close>: begin, run, commit; every error rolls the tables back to what they were.  A commit
  that fails is taken as not having happened.
\<close>

definition inTx :: "'a act \<Rightarrow> 'a act" where
  "inTx fn w = (case stmt (\<lambda>t d. Inr ((), d)) w of
      (Inl e, w1) \<Rightarrow> (Inl e, w1)
    | (Inr _, w1) \<Rightarrow> (case fn w1 of
        (Inl e, w2) \<Rightarrow> (Inl e, w2\<lparr>w_db := w_db w\<rparr>)
      | (Inr x, w2) \<Rightarrow> (case stmt (\<lambda>t d. Inr ((), d)) w2 of
          (Inl e, w3) \<Rightarrow> (Inl e, w3\<lparr>w_db := w_db w\<rparr>)
        | (Inr _, w3) \<Rightarrow> (Inr x, w3))))"

subsection \<open>Running without faults\<close>

lemma ret_simp [simp]: "ret x w = (Inr x, w)"
  by (simp add: ret_def)

lemma fail_simp [simp]: "fail e w = (Inl e, w)"
  by (simp add: fail_def)

lemma no_faults_left: "w_faults w = [] \<Longrightarrow> w\<lparr>w_faults := []\<rparr> = w"
  by (cases w) simp

lemma stmt_ok:
  "w_faults w = [] \<Longrightarrow> stmt f w = (case f (w_now w) (w_db w) of
     Inl e \<Rightarrow> (Inl e, w) | Inr (a, d) \<Rightarrow> (Inr a, w\<lparr>w_db := d\<rparr>))"
  by (simp add: stmt_def Let_def no_faults_left)

lemma query_ok:
  "w_faults w = [] \<Longrightarrow> query f w = (f (w_now w) (w_db w), w)"
  by (simp add: query_def stmt_ok split: sum.splits)

lemma exec_ok:
  "w_faults w = [] \<Longrightarrow> exec f w = (Inr (), w\<lparr>w_db := f (w_now w) (w_db w)\<rparr>)"
  by (simp add: exec_def stmt_ok)

lemma inTx_ok:
  assumes "w_faults w = []"
    and "\<And>r w'. fn w = (r, w') \<Longrightarrow> w_faults w' = []"
  shows "inTx fn w = (case fn w of (Inl e, w') \<Rightarrow> (Inl e, w'\<lparr>w_db := w_db w\<rparr>) | (Inr x, w') \<Rightarrow> (Inr x, w'))"
proof -
  obtain r w' where rw: "fn w = (r, w')"
    by (cases "fn w")
  then have "w_faults w' = []"
    using assms(2) by blast
  with assms(1) rw show ?thesis
    by (cases r) (simp_all add: inTx_def stmt_ok)
qed

lemmas act_ok = andThen_def attempt_def stmt_ok query_ok exec_ok inTx_ok

subsection \<open>Successful runs, step by step\<close>

lemma andThen_Inr:
  "andThen m k w = (Inr y, w') \<longleftrightarrow> (\<exists>x w1. m w = (Inr x, w1) \<and> k x w1 = (Inr y, w'))"
  by (auto simp: andThen_def split: prod.splits sum.splits)

lemma stmt_Inr:
  "stmt f w = (Inr x, w') \<longleftrightarrow> \<not> (w_faults w \<noteq> [] \<and> hd (w_faults w)) \<and>
     (\<exists>d. f (w_now w) (w_db w) = Inr (x, d) \<and> w' = w\<lparr>w_faults := tl (w_faults w), w_db := d\<rparr>)"
  by (auto simp: stmt_def Let_def split: sum.splits)

lemma exec_Inr:
  "exec f w = (Inr x, w') \<longleftrightarrow> \<not> (w_faults w \<noteq> [] \<and> hd (w_faults w)) \<and>
     w' = w\<lparr>w_faults := tl (w_faults w), w_db := f (w_now w) (w_db w)\<rparr>"
  by (auto simp: exec_def stmt_Inr)

lemma query_Inr:
  "query f w = (Inr x, w') \<longleftrightarrow> \<not> (w_faults w \<noteq> [] \<and> hd (w_faults w)) \<and>
     f (w_now w) (w_db w) = Inr x \<and> w' = w\<lparr>w_faults := tl (w_faults w)\<rparr>"
  by (auto simp: query_def stmt_Inr split: sum.splits)

lemma readRand_Inr: "readRand w = (Inr x, w') \<longleftrightarrow> (\<exists>bs. w_rand w = x # bs \<and> w' = w\<lparr>w_rand := bs\<rparr>)"
  by (auto simp: readRand_def split: list.splits)

lemma newUuid_Inr: "newUuid w = (Inr x, w') \<longleftrightarrow> (\<exists>us. w_uuid w = x # us \<and> w' = w\<lparr>w_uuid := us\<rparr>)"
  by (auto simp: newUuid_def split: list.splits)

lemma firstRow_Inr: "firstRow rs = Inr r \<longleftrightarrow> (\<exists>qs. rs = r # qs)"
  by (auto simp: firstRow_def split: list.splits)

lemmas act_Inr = andThen_Inr stmt_Inr exec_Inr query_Inr readRand_Inr newUuid_Inr firstRow_Inr

subsection \<open>Actions that keep a property of the tables\<close>

definition keeps :: "(db \<Rightarrow> bool) \<Rightarrow> (world \<Rightarrow> 'r \<times> world) \<Rightarrow> bool" where
  "keeps P m \<longleftrightarrow> (\<forall>w. P (w_db w) \<longrightarrow> P (w_db (snd (m w))))"

lemma keepsD: "keeps P m \<Longrightarrow> P (w_db w) \<Longrightarrow> m w = (r, w') \<Longrightarrow> P (w_db w')"
  by (metis keeps_def snd_conv)

lemma keeps_ret [keeps_intro]: "keeps P (ret x)"
  by (simp add: keeps_def)

lemma keeps_fail [keeps_intro]: "keeps P (fail e)"
  by (simp add: keeps_def)

lemma keeps_Pair [keeps_intro]: "keeps P (Pair r)"
  by (simp add: keeps_def)

lemma keeps_andThen [keeps_intro]:
  "keeps P m \<Longrightarrow> (\<And>x. keeps P (k x)) \<Longrightarrow> keeps P (andThen m k)"
  unfolding keeps_def andThen_def by (auto split: prod.splits sum.splits)

lemma keeps_attempt [keeps_intro]:
  "keeps P m \<Longrightarrow> (\<And>r. keeps P (k r)) \<Longrightarrow> keeps P (attempt m k)"
  unfolding keeps_def attempt_def by (auto split: prod.splits)

lemma keeps_stmt:
  "(\<And>t d a d'. P d \<Longrightarrow> f t d = Inr (a, d') \<Longrightarrow> P d') \<Longrightarrow> keeps P (stmt f)"
  by (auto simp: keeps_def stmt_def Let_def split: sum.splits)

lemma keeps_query [keeps_intro]: "keeps P (query f)"
  unfolding query_def by (rule keeps_stmt) (auto split: sum.splits)

lemma keeps_exec: "(\<And>t d. P d \<Longrightarrow> P (f t d)) \<Longrightarrow> keeps P (exec f)"
  unfolding exec_def by (rule keeps_stmt) auto

lemma keeps_readRand [keeps_intro]: "keeps P readRand"
  by (auto simp: keeps_def readRand_def split: list.splits)

lemma keeps_newUuid [keeps_intro]: "keeps P newUuid"
  by (auto simp: keeps_def newUuid_def split: list.splits)

lemma keeps_pure: "(\<And>w. w_db (snd (m w)) = w_db w) \<Longrightarrow> keeps P m"
  by (simp add: keeps_def)

text \<open>
  A transaction is all or nothing: it succeeds, and then its body succeeded on tables that were
  those before, or it fails and the tables are those before.
\<close>

lemma stmt_skip_db: "stmt (\<lambda>t d. Inr ((), d)) w = (r, w') \<Longrightarrow> w_db w' = w_db w"
  by (auto simp: stmt_def Let_def split: if_splits)

lemma inTx_atomic:
  assumes "inTx m w = (r, w')"
  shows "(\<exists>e. r = Inl e \<and> w_db w' = w_db w) \<or>
    (\<exists>x w1 w2. r = Inr x \<and> w_db w1 = w_db w \<and> m w1 = (Inr x, w2) \<and> w_db w' = w_db w2)"
proof -
  obtain b w1 where b: "stmt (\<lambda>t d. Inr ((), d)) w = (b, w1)"
    by (cases "stmt (\<lambda>t d. Inr ((), d)) w")
  obtain q w2 where q: "m w1 = (q, w2)"
    by (cases "m w1")
  obtain c w3 where c: "stmt (\<lambda>t d. Inr ((), d)) w2 = (c, w3)"
    by (cases "stmt (\<lambda>t d. Inr ((), d)) w2")
  note same = stmt_skip_db [OF b] stmt_skip_db [OF c]
  show ?thesis
    using assms b q c same
    by (auto simp: inTx_def split: sum.splits)
qed

lemma inTx_Inr:
  assumes "inTx m w = (Inr x, w')"
  obtains w1 w2 where "w_db w1 = w_db w" and "w_now w1 = w_now w" and "m w1 = (Inr x, w2)" and "w_db w' = w_db w2"
proof -
  obtain b w1 where b: "stmt (\<lambda>t d. Inr ((), d)) w = (b, w1)"
    by (cases "stmt (\<lambda>t d. Inr ((), d)) w")
  obtain q w2 where q: "m w1 = (q, w2)"
    by (cases "m w1")
  obtain c w3 where c: "stmt (\<lambda>t d. Inr ((), d)) w2 = (c, w3)"
    by (cases "stmt (\<lambda>t d. Inr ((), d)) w2")
  have "q = Inr x" "w' = w3"
    using assms b q c by (auto simp: inTx_def split: sum.splits)
  moreover have "w_now w1 = w_now w"
    using b by (auto simp: stmt_def Let_def split: if_splits)
  ultimately show thesis
    using that [of w1 w2] q stmt_skip_db [OF b] stmt_skip_db [OF c] by simp
qed

lemma inTx_InrD:
  "inTx m w = (Inr x, w') \<Longrightarrow> \<exists>w1 w2. m w1 = (Inr x, w2) \<and> w_db w1 = w_db w \<and> w_now w1 = w_now w \<and> w_db w' = w_db w2"
  by (erule inTx_Inr) blast

lemma inTx_Inl: "inTx m w = (Inl e, w') \<Longrightarrow> w_db w' = w_db w"
  using inTx_atomic [of m w "Inl e" w'] by auto

lemma keeps_inTx [keeps_intro]: "keeps P m \<Longrightarrow> keeps P (inTx m)"
  unfolding keeps_def using inTx_atomic by (metis prod.collapse snd_conv)

lemma keeps_if [keeps_intro]:
  "(b \<Longrightarrow> keeps P m) \<Longrightarrow> (\<not> b \<Longrightarrow> keeps P n) \<Longrightarrow> keeps P (if b then m else n)"
  by simp

lemma keeps_option [keeps_intro]:
  "keeps P n \<Longrightarrow> (\<And>x. keeps P (s x)) \<Longrightarrow> keeps P (case v of None \<Rightarrow> n | Some x \<Rightarrow> s x)"
  by (simp split: option.splits)

lemma keeps_sum [keeps_intro]:
  "(\<And>e. keeps P (l e)) \<Longrightarrow> (\<And>x. keeps P (r x)) \<Longrightarrow> keeps P (case v of Inl e \<Rightarrow> l e | Inr x \<Rightarrow> r x)"
  by (simp split: sum.splits)

lemma keeps_prod [keeps_intro]: "(\<And>x y. keeps P (f x y)) \<Longrightarrow> keeps P (case v of (x, y) \<Rightarrow> f x y)"
  by (simp split: prod.splits)

lemma keeps_let [keeps_intro]: "(\<And>x. keeps P (f x)) \<Longrightarrow> keeps P (let x = v in f x)"
  by simp

subsection \<open>What an action establishes when it succeeds\<close>

definition triple :: "(db \<Rightarrow> bool) \<Rightarrow> 'a act \<Rightarrow> ('a \<Rightarrow> db \<Rightarrow> bool) \<Rightarrow> bool" where
  "triple P m Q \<longleftrightarrow> (\<forall>w x w'. P (w_db w) \<longrightarrow> m w = (Inr x, w') \<longrightarrow> Q x (w_db w'))"

lemma tripleD: "triple P m Q \<Longrightarrow> P (w_db w) \<Longrightarrow> m w = (Inr x, w') \<Longrightarrow> Q x (w_db w')"
  by (auto simp: triple_def)

lemma triple_ret: "(\<And>d. P d \<Longrightarrow> Q x d) \<Longrightarrow> triple P (ret x) Q"
  by (auto simp: triple_def)

lemma triple_fail: "triple P (fail e) Q"
  by (auto simp: triple_def)

lemma triple_andThen: "triple P m R \<Longrightarrow> (\<And>x. triple (R x) (k x) Q) \<Longrightarrow> triple P (andThen m k) Q"
  unfolding triple_def andThen_def by (auto split: prod.splits sum.splits)

lemma triple_stmt:
  "(\<And>t d a d'. P d \<Longrightarrow> f t d = Inr (a, d') \<Longrightarrow> Q a d') \<Longrightarrow> triple P (stmt f) Q"
  by (auto simp: triple_def stmt_def Let_def split: sum.splits if_splits)

lemma triple_query:
  "(\<And>t d a. P d \<Longrightarrow> f t d = Inr a \<Longrightarrow> Q a d) \<Longrightarrow> triple P (query f) Q"
  unfolding query_def by (rule triple_stmt) (auto split: sum.splits)

lemma triple_exec: "(\<And>t d. P d \<Longrightarrow> Q () (f t d)) \<Longrightarrow> triple P (exec f) Q"
  unfolding exec_def by (rule triple_stmt) auto

lemma triple_exec_sp: "triple P (exec f) (\<lambda>_ d. \<exists>t d0. P d0 \<and> d = f t d0)"
  by (rule triple_exec) blast

lemma triple_stmt_sp: "triple P (stmt f) (\<lambda>x d. \<exists>t d0. P d0 \<and> f t d0 = Inr (x, d))"
  by (rule triple_stmt) blast

lemma triple_query_sp: "triple P (query f) (\<lambda>x d. P d \<and> (\<exists>t. f t d = Inr x))"
  by (rule triple_query) blast

lemma query_first_Inr:
  "query (\<lambda>t d. firstRow (f t d)) w = (Inr r, w') \<Longrightarrow>
   (\<exists>rs. f (w_now w) (w_db w) = r # rs) \<and> w_db w' = w_db w \<and> w_now w' = w_now w \<and>
   w_rand w' = w_rand w \<and> w_uuid w' = w_uuid w"
  by (auto simp: query_def stmt_def Let_def firstRow_def split: list.splits if_splits)

lemma triple_if: "(b \<Longrightarrow> triple P m Q) \<Longrightarrow> (\<not> b \<Longrightarrow> triple P n Q) \<Longrightarrow> triple P (if b then m else n) Q"
  by simp

lemma triple_weaken: "triple P m Q \<Longrightarrow> (\<And>d. P' d \<Longrightarrow> P d) \<Longrightarrow> (\<And>x d. Q x d \<Longrightarrow> Q' x d) \<Longrightarrow> triple P' m Q'"
  unfolding triple_def by blast

lemma triple_inTx: "triple P m Q \<Longrightarrow> triple P (inTx m) Q"
  unfolding triple_def using inTx_atomic by (metis sum.distinct(1) sum.inject(2))

end
