(* ===== verification/Ratelimit.thy ===== *)
theory Ratelimit
  imports Store
begin

text \<open>
  \<^verbatim>\<open>hosted/control-plane/ratelimit.go\<close>: the per-key sliding window counter and its sweep.  The
  limiter is a record; \<open>allow\<close> takes the instant it runs at and returns the answer and the new
  limiter.  The map from key to hit times is a partial function with a finite domain, which is
  kept as an association list so that it can be evaluated.

  \<open>spec_allow\<close> is the limiter's contract: a full history of hits per key that nothing ever
  forgets.  The refinement theorem says that forgetting (pruning on access and the sweep)
  never changes an answer.
\<close>

record rateLimiter =
  rl_hits :: "(string \<times> int list) list"
  rl_limit :: nat
  rl_window :: int
  rl_lastSweep :: int

text \<open>\<^verbatim>\<open>lastSweep\<close> starts as Go's zero time, long before any clock reading: \<open>zero_time\<close>.\<close>

definition zero_time :: int where
  "zero_time = - 62135596800 * second"

definition newRateLimiter :: "nat \<Rightarrow> int \<Rightarrow> rateLimiter" where
  "newRateLimiter limit window =
     \<lparr>rl_hits = [], rl_limit = limit, rl_window = window, rl_lastSweep = zero_time\<rparr>"

definition hits_of :: "(string \<times> int list) list \<Rightarrow> string \<Rightarrow> int list" where
  "hits_of hs key = (case map_of hs key of None \<Rightarrow> [] | Some ts \<Rightarrow> ts)"

definition put_hits :: "(string \<times> int list) list \<Rightarrow> string \<Rightarrow> int list \<Rightarrow> (string \<times> int list) list" where
  "put_hits hs key ts = (key, ts) # filter (\<lambda>h. fst h \<noteq> key) hs"

definition live :: "int \<Rightarrow> int \<Rightarrow> int list \<Rightarrow> int list" where
  "live window t ts = filter (\<lambda>u. t - u < window) ts"

definition sweepLocked :: "int \<Rightarrow> rateLimiter \<Rightarrow> rateLimiter" where
  "sweepLocked t l =
     (if t - rl_lastSweep l < rl_window l then l
      else l\<lparr>rl_lastSweep := t,
             rl_hits := filter (\<lambda>(key, times). length (live (rl_window l) t times) \<noteq> 0) (rl_hits l)\<rparr>)"

definition allow :: "int \<Rightarrow> string \<Rightarrow> rateLimiter \<Rightarrow> bool \<times> rateLimiter" where
  "allow t key l0 =
     (let l = sweepLocked t l0;
          kept = live (rl_window l) t (hits_of (rl_hits l) key)
      in if length kept \<ge> rl_limit l then (False, l\<lparr>rl_hits := put_hits (rl_hits l) key kept\<rparr>)
         else (True, l\<lparr>rl_hits := put_hits (rl_hits l) key (kept @ [t])\<rparr>))"

text \<open>
  \<open>splitHostPort\<close> is \<^verbatim>\<open>net.SplitHostPort\<close>: \<open>host:port\<close> with no other colon, or \<open>[host]:port\<close>.
  \<^verbatim>\<open>None\<close> stands for its error.
\<close>

definition splitHostPort :: "string \<Rightarrow> (string \<times> string) option" where
  "splitHostPort hp =
     (case cutAt (CHR '':'') (rev hp) of
        (_, _, False) \<Rightarrow> None
      | (prot, rest, True) \<Rightarrow>
          let host = rev rest; port = rev prot in
          if host \<noteq> [] \<and> hd host = CHR ''['' then
            (if last host = CHR '']'' \<and> length host \<ge> 2
                \<and> CHR ''['' \<notin> set (tl host) \<and> CHR '']'' \<notin> set (butlast (tl host))
                \<and> CHR ''['' \<notin> set port \<and> CHR '']'' \<notin> set port
             then Some (butlast (tl host), port) else None)
          else if CHR '':'' \<in> set host then None
          else if CHR ''['' \<in> set hp \<or> CHR '']'' \<in> set hp then None
          else Some (host, port))"

definition clientIP :: "request \<Rightarrow> string" where
  "clientIP r =
     (let fwd = header_get (rq_headers r) ''X-Forwarded-For'';
          first = trimSpace (fst (cutAt (CHR '','') fwd));
          host = trimSpace (rq_remote r)
      in if fwd \<noteq> [] \<and> first \<noteq> [] then first
         else case splitHostPort host of Some (h, _) \<Rightarrow> h | None \<Rightarrow> host)"

text \<open>The wrapped handler runs only when the hit is inside the limit.\<close>

definition rl_middleware ::
  "request \<Rightarrow> handler \<Rightarrow> rateLimiter \<Rightarrow> response \<Rightarrow> world \<Rightarrow> (response \<times> world) \<times> rateLimiter" where
  "rl_middleware r nxt l rw w =
     (case allow (w_now w) (clientIP r) l of
        (False, l') \<Rightarrow>
          let rw' = rw\<lparr>rs_headers := header_set (rs_headers rw) ''Retry-After'' (formatInt (rl_window l div second))\<rparr>
          in ((writeJSON 429 (JObj [(''error'', JStr ''too many requests'')]) rw', w), l')
      | (True, l') \<Rightarrow> (nxt rw w, l'))"

section \<open>Runs\<close>

fun runWith :: "(int \<Rightarrow> string \<Rightarrow> 's \<Rightarrow> bool \<times> 's) \<Rightarrow> 's \<Rightarrow> (int \<times> string) list \<Rightarrow> bool list \<times> 's" where
  "runWith step s [] = ([], s)"
| "runWith step s ((t, key) # evs) =
     (let (b, s') = step t key s; (bs, s'') = runWith step s' evs in (b # bs, s''))"

text \<open>The contract: every granted hit is remembered for ever.\<close>

definition spec_allow :: "nat \<Rightarrow> int \<Rightarrow> int \<Rightarrow> string \<Rightarrow> (string \<times> int) list \<Rightarrow> bool \<times> (string \<times> int) list" where
  "spec_allow limit window t key granted =
     (if length (filter (\<lambda>(k, u). k = key \<and> t - u < window) granted) \<ge> limit then (False, granted)
      else (True, granted @ [(key, t)]))"

fun rising :: "int \<Rightarrow> (int \<times> 'a) list \<Rightarrow> bool" where
  "rising t [] = True"
| "rising t ((u, _) # evs) = (t \<le> u \<and> rising u evs)"

section \<open>Facts\<close>

lemma map_of_filter_neq: "map_of (filter (\<lambda>h. fst h \<noteq> k) hs) k' = (if k' = k then None else map_of hs k')"
  by (induction hs) auto

lemma hits_of_put [simp]: "hits_of (put_hits hs k ts) k' = (if k' = k then ts else hits_of hs k')"
  by (simp add: hits_of_def put_hits_def map_of_filter_neq)

lemma distinct_put [simp]: "distinct (map fst hs) \<Longrightarrow> distinct (map fst (put_hits hs k ts))"
  by (auto simp: put_hits_def distinct_map_filter)

lemma live_live: "t \<le> u \<Longrightarrow> live w u (live w t ts) = live w u ts"
  by (induction ts) (auto simp: live_def)

lemma live_append [simp]: "live w t (ts @ us) = live w t ts @ live w t us"
  by (simp add: live_def)

lemma sweep_fields [simp]:
  "rl_limit (sweepLocked t l) = rl_limit l" "rl_window (sweepLocked t l) = rl_window l"
  by (simp_all add: sweepLocked_def)

lemma map_of_filter_snd:
  "distinct (map fst hs) \<Longrightarrow> map_of (filter (\<lambda>(k, ts). P ts) hs) key =
     (case map_of hs key of None \<Rightarrow> None | Some ts \<Rightarrow> if P ts then Some ts else None)"
proof (induction hs)
  case (Cons h hs)
  then have "map_of hs (fst h) = None"
    by (simp add: map_of_eq_None_iff)
  with Cons show ?case
    by (cases h; cases "key = fst h") simp_all
qed simp

lemma hits_of_filter:
  "distinct (map fst hs) \<Longrightarrow>
   hits_of (filter (\<lambda>(k, ts). P ts) hs) key = (if P (hits_of hs key) then hits_of hs key else [])"
  by (simp add: hits_of_def map_of_filter_snd split: option.splits)

lemma sweep_live:
  assumes "distinct (map fst (rl_hits l))" and "t \<le> u"
  shows "live (rl_window l) u (hits_of (rl_hits (sweepLocked t l)) key)
       = live (rl_window l) u (hits_of (rl_hits l) key)"
proof (cases "live (rl_window l) t (hits_of (rl_hits l) key) = []")
  case True
  then have "live (rl_window l) u (hits_of (rl_hits l) key) = []"
    using live_live [OF assms(2), of "rl_window l" "hits_of (rl_hits l) key"] by (simp add: live_def)
  then show ?thesis
    using assms(1) hits_of_filter [OF assms(1), of "\<lambda>ts. live (rl_window l) t ts \<noteq> []" key] True
    by (auto simp: sweepLocked_def live_def split: if_splits)
next
  case False
  then show ?thesis
    using assms(1) hits_of_filter [OF assms(1), of "\<lambda>ts. live (rl_window l) t ts \<noteq> []" key]
    by (auto simp: sweepLocked_def)
qed

lemma sweep_distinct: "distinct (map fst (rl_hits l)) \<Longrightarrow> distinct (map fst (rl_hits (sweepLocked t l)))"
  by (simp add: sweepLocked_def distinct_map_filter)

text \<open>The relation between the limiter and the full history at instants from \<open>t\<close> on.\<close>

definition limiter_abs :: "int \<Rightarrow> rateLimiter \<Rightarrow> (string \<times> int) list \<Rightarrow> bool" where
  "limiter_abs t l g \<longleftrightarrow> distinct (map fst (rl_hits l)) \<and>
     (\<forall>key u. t \<le> u \<longrightarrow> live (rl_window l) u (hits_of (rl_hits l) key)
        = map snd (filter (\<lambda>(k, v). k = key \<and> u - v < rl_window l) g))"

lemma limiter_abs_new: "limiter_abs t (newRateLimiter limit window) []"
  by (simp add: limiter_abs_def newRateLimiter_def hits_of_def live_def)

lemma allow_fields:
  "allow t key l = (b, l') \<Longrightarrow> rl_limit l' = rl_limit l \<and> rl_window l' = rl_window l"
  by (auto simp: allow_def Let_def split: if_splits)

lemma allow_refines:
  assumes abs: "limiter_abs t0 l g" and "t0 \<le> t" and "allow t key l = (b, l')"
  shows "\<exists>g'. spec_allow (rl_limit l) (rl_window l) t key g = (b, g') \<and> limiter_abs t l' g'"
proof -
  let ?w = "rl_window l"
  let ?s = "sweepLocked t l"
  let ?kept = "live ?w t (hits_of (rl_hits ?s) key)"
  have dist: "distinct (map fst (rl_hits l))" "distinct (map fst (rl_hits ?s))"
    using abs sweep_distinct by (auto simp: limiter_abs_def)
  have same: "live ?w u (hits_of (rl_hits ?s) k) = map snd (filter (\<lambda>(k', v). k' = k \<and> u - v < ?w) g)"
    if "t \<le> u" for u k
    using abs that assms(2) sweep_live [OF dist(1) that] by (simp add: limiter_abs_def)
  have len: "length ?kept = length (filter (\<lambda>(k, v). k = key \<and> t - v < ?w) g)"
    using same [of t key] by simp
  have kept: "live ?w u ?kept = map snd (filter (\<lambda>(k', v). k' = key \<and> u - v < ?w) g)" if "t \<le> u" for u
    using live_live [OF that] same [OF that] by simp
  show ?thesis
  proof (cases "length ?kept \<ge> rl_limit l")
    case True
    then have "b = False" "l' = ?s\<lparr>rl_hits := put_hits (rl_hits ?s) key ?kept\<rparr>"
      using assms(3) by (auto simp: allow_def Let_def)
    then show ?thesis
      using True len dist(2) kept same
      by (auto simp: spec_allow_def limiter_abs_def)
  next
    case False
    then have "b = True" "l' = ?s\<lparr>rl_hits := put_hits (rl_hits ?s) key (?kept @ [t])\<rparr>"
      using assms(3) by (auto simp: allow_def Let_def)
    then show ?thesis
      using False len dist(2) kept same
      by (auto simp: spec_allow_def limiter_abs_def) (simp_all add: live_def)
  qed
qed

section \<open>The contract of a limiter\<close>

text \<open>Hits of a key granted in the window that ends at \<open>s\<close>.\<close>

definition granted_in :: "int \<Rightarrow> string \<Rightarrow> int \<Rightarrow> (string \<times> int) list \<Rightarrow> nat" where
  "granted_in window key s g = length (filter (\<lambda>(k, u). k = key \<and> s - u < window \<and> u \<le> s) g)"

definition granted_of :: "(int \<times> string) list \<Rightarrow> bool list \<Rightarrow> (string \<times> int) list" where
  "granted_of evs bs = map (\<lambda>((t, k), b). (k, t)) (filter snd (zip evs bs))"

locale window_limiter =
  fixes step :: "int \<Rightarrow> string \<Rightarrow> 's \<Rightarrow> bool \<times> 's"
    and rel :: "int \<Rightarrow> 's \<Rightarrow> (string \<times> int) list \<Rightarrow> bool"
    and limit :: nat and window :: int
  assumes step_refines: "rel t0 s g \<Longrightarrow> t0 \<le> t \<Longrightarrow> step t key s = (b, s') \<Longrightarrow>
      \<exists>g'. spec_allow limit window t key g = (b, g') \<and> rel t s' g'"
begin

lemma run_refines:
  "rel t0 s g \<Longrightarrow> rising t0 evs \<Longrightarrow>
   fst (runWith step s evs) = fst (runWith (spec_allow limit window) g evs)"
proof (induction evs arbitrary: t0 s g)
  case (Cons ev evs)
  obtain t key where ev: "ev = (t, key)"
    by (cases ev)
  obtain b s' where a: "step t key s = (b, s')"
    by (cases "step t key s")
  have "t0 \<le> t" "rising t evs"
    using Cons.prems ev by simp_all
  with step_refines [OF Cons.prems(1) _ a]
  obtain g' where g': "spec_allow limit window t key g = (b, g')" "rel t s' g'"
    by blast
  with a ev Cons.IH [OF g'(2) \<open>rising t evs\<close>] show ?case
    by (simp add: case_prod_beta)
qed simp

lemma spec_bounded:
  "\<forall>(k, u) \<in> set g. u \<le> t0 \<Longrightarrow> rising t0 evs \<Longrightarrow> (\<And>k s. granted_in window k s g \<le> limit) \<Longrightarrow>
   granted_in window key s (g @ granted_of evs (fst (runWith (spec_allow limit window) g evs))) \<le> limit"
proof (induction evs arbitrary: t0 g)
  case (Cons ev evs)
  obtain t k where ev: "ev = (t, k)"
    by (cases ev)
  have t: "t0 \<le> t" "rising t evs" "\<forall>(k, u) \<in> set g. u \<le> t"
    using Cons.prems ev by fastforce+
  show ?case
  proof (cases "length (filter (\<lambda>(k', u). k' = k \<and> t - u < window) g) \<ge> limit")
    case True
    then show ?thesis
      using Cons.IH [OF t(3,2) Cons.prems(3)] ev
      by (simp add: spec_allow_def case_prod_beta granted_of_def)
  next
    case False
    have sub: "length (filter (\<lambda>(k', u). k' = k \<and> s' - u < window \<and> u \<le> s') g) < limit" if "t \<le> s'" for s'
    proof -
      have "length (filter (\<lambda>(k', u). k' = k \<and> s' - u < window \<and> u \<le> s') g)
          = length (filter (\<lambda>x. (case x of (k', u) \<Rightarrow> s' - u < window \<and> u \<le> s'))
              (filter (\<lambda>(k', u). k' = k \<and> t - u < window) g))"
        using that by (auto intro!: arg_cong [where f = length] filter_cong)
      also have "\<dots> \<le> length (filter (\<lambda>(k', u). k' = k \<and> t - u < window) g)"
        by (rule length_filter_le)
      finally show ?thesis
        using False by linarith
    qed
    have bound: "granted_in window k' s' (g @ [(k, t)]) \<le> limit" for k' s'
      using sub [of s'] Cons.prems(3) [of k' s'] by (auto simp: granted_in_def)
    have old: "\<forall>(k', u) \<in> set (g @ [(k, t)]). u \<le> t"
      using t(3) by auto
    show ?thesis
      using False Cons.IH [OF old t(2) bound] ev
      by (simp add: spec_allow_def case_prod_beta granted_of_def)
  qed
qed (simp add: granted_of_def)

lemma window_bound:
  assumes "rel t0 s0 []" and "rising t0 evs"
  shows "granted_in window key s (granted_of evs (fst (runWith step s0 evs))) \<le> limit"
  using spec_bounded [of "[]" t0 evs key s] assms run_refines [OF assms]
  by (simp add: granted_in_def)

end

interpretation lim: window_limiter allow
  "\<lambda>t l g. limiter_abs t l g \<and> rl_limit l = limit \<and> rl_window l = window" limit window
  for limit window
  by unfold_locales (use allow_refines allow_fields in blast)

lemma new_related:
  "limiter_abs t (newRateLimiter limit window) [] \<and> rl_limit (newRateLimiter limit window) = limit \<and>
   rl_window (newRateLimiter limit window) = window"
  using limiter_abs_new by (simp add: newRateLimiter_def)

section \<open>Properties\<close>

text \<open>
  C36.  Forgetting is invisible.  On every sequence of hits at non-decreasing instants the limiter, which
  prunes a key's hits when the key is used and drops idle keys in a sweep once per window,
  gives the same answers as the contract that remembers every granted hit for ever.
\<close>

theorem limiter_refines_history:
  assumes "rising t0 evs"
  shows "fst (runWith allow (newRateLimiter limit window) evs)
    = fst (runWith (spec_allow limit window) [] evs)"
  using lim.run_refines [OF new_related assms] .

theorem limiter_refines_history_witness:
  "fst (runWith allow (newRateLimiter 1 minute) [(0, ''a''), (1, ''b''), (minute, ''a'')])
     = [True, True, True]"
proof -
  have "fst (runWith (spec_allow 1 minute) [] [(0, ''a''), (1, ''b''), (minute, ''a'')]) = [True, True, True]"
    by (simp add: spec_allow_def)
  then show ?thesis
    using limiter_refines_history [of 0 "[(0, ''a''), (1, ''b''), (minute, ''a'')]" 1 minute] by simp
qed

text \<open>
  The limit holds in every window.  Whatever the sequence of hits at non-decreasing
  instants, and whichever window of the configured length one looks at, a key never has more
  than \<open>limit\<close> granted hits in it.
\<close>

theorem limiter_bounds_every_window:
  assumes "rising t0 evs"
  shows "granted_in window key s (granted_of evs (fst (runWith allow (newRateLimiter limit window) evs))) \<le> limit"
  using lim.window_bound [OF new_related assms] .

theorem limiter_bounds_every_window_witness:
  "granted_in minute ''a'' 5 (granted_of [(0, ''a''), (1, ''a''), (2, ''a'')]
     (fst (runWith allow (newRateLimiter 2 minute) [(0, ''a''), (1, ''a''), (2, ''a'')]))) \<le> 2"
  by (rule limiter_bounds_every_window [of 0]) simp

end
