(* ===== verification/AuditLog.thy ===== *)
theory AuditLog
  imports Store
begin

text \<open>
  \<^verbatim>\<open>hosted/control-plane/audit.go\<close>: the closed set of audit actions, the validation that keeps
  path characters out of every value, and \<open>appendAudit\<close>, the only statement that touches
  \<^verbatim>\<open>audit_events\<close>.  The lemmas say what one call adds to the table, and that a table of clean
  rows stays one.
\<close>

definition ActionAccountDeleted :: string where "ActionAccountDeleted = ''account.deleted''"
definition ActionDeviceEnrolled :: string where "ActionDeviceEnrolled = ''device.enrolled''"
definition ActionDeviceDisabled :: string where "ActionDeviceDisabled = ''device.disabled''"
definition ActionDeviceUnenrolled :: string where "ActionDeviceUnenrolled = ''device.unenrolled''"
definition ActionBindingRevoked :: string where "ActionBindingRevoked = ''binding.revoked''"
definition ActionDeviceRemoved :: string where "ActionDeviceRemoved = ''device.removed''"
definition ActionDeviceAppsSynced :: string where "ActionDeviceAppsSynced = ''device.apps_synced''"
definition ActionInviteCreated :: string where "ActionInviteCreated = ''invite.created''"
definition ActionInviteRedeemed :: string where "ActionInviteRedeemed = ''invite.redeemed''"
definition ActionTunnelConnected :: string where "ActionTunnelConnected = ''tunnel.connected''"
definition ActionTunnelDisconnected :: string where "ActionTunnelDisconnected = ''tunnel.disconnected''"
definition ActionRemoteDenied :: string where "ActionRemoteDenied = ''remote.denied''"
definition ActionSubscriptionChanged :: string where "ActionSubscriptionChanged = ''subscription.changed''"

definition validActions :: "string list" where
  "validActions =
     [ActionAccountDeleted, ActionDeviceEnrolled, ActionDeviceDisabled, ActionDeviceUnenrolled,
      ActionBindingRevoked, ActionDeviceRemoved, ActionDeviceAppsSynced, ActionInviteCreated,
      ActionInviteRedeemed, ActionTunnelConnected, ActionTunnelDisconnected, ActionRemoteDenied,
      ActionSubscriptionChanged]"

definition AuditDetails :: audit_details where
  "AuditDetails = \<lparr>ad_account = [], ad_key = [], ad_role = [], ad_prev = [], ad_from = [],
     ad_to = [], ad_reason = []\<rparr>"

text \<open>The validators return the error, if there is one.\<close>

definition path_chars :: string where
  "path_chars = [CHR 0x2F, CHR 0x5C, CHR 0x00]"

definition validateToken :: "string \<Rightarrow> string \<Rightarrow> string option" where
  "validateToken field v =
     (if v = [] then Some (''audit: '' @ field @ '' is empty'')
      else if containsAny v path_chars then Some (''audit: '' @ field @ '' must not hold a path'')
      else None)"

definition validateOptionalToken :: "string \<Rightarrow> string \<Rightarrow> string option" where
  "validateOptionalToken field v = (if v = [] then None else validateToken field v)"

text \<open>The source ranges over a Go map, in no fixed order; any bad field fails the call.\<close>

definition detail_fields :: "audit_details \<Rightarrow> (string \<times> string) list" where
  "detail_fields dt =
     [(''account_id'', ad_account dt), (''device_key'', ad_key dt), (''role'', ad_role dt),
      (''prev_role'', ad_prev dt), (''from_status'', ad_from dt), (''to_status'', ad_to dt),
      (''reason'', ad_reason dt)]"

definition nullIf :: "string \<Rightarrow> string option" where
  "nullIf s = (if s = [] then None else Some s)"

definition appendAudit :: "string \<Rightarrow> string \<Rightarrow> string \<Rightarrow> audit_details \<Rightarrow> unit act" where
  "appendAudit deviceID actor action details =
     (if action \<notin> set validActions then fail ErrAudit
      else if validateOptionalToken ''device_id'' deviceID \<noteq> None then fail ErrAudit
      else if validateToken ''actor'' actor \<noteq> None then fail ErrAudit
      else if list_ex (\<lambda>(f, v). validateOptionalToken f v \<noteq> None) (detail_fields details)
        then fail ErrAudit
      else exec (\<lambda>t d. d\<lparr>t_audit := t_audit d @
             [\<lparr>au_device = nullIf deviceID, au_actor = actor, au_action = action,
               au_details = details, au_at = t\<rparr>]\<rparr>))"

section \<open>What the table holds\<close>

definition no_path :: "string \<Rightarrow> bool" where
  "no_path s \<longleftrightarrow> CHR 0x2F \<notin> set s \<and> CHR 0x5C \<notin> set s \<and> CHR 0x00 \<notin> set s"

definition audit_row_clean :: "audit_row \<Rightarrow> bool" where
  "audit_row_clean r \<longleftrightarrow> au_action r \<in> set validActions \<and> au_actor r \<noteq> [] \<and> no_path (au_actor r) \<and>
     (\<forall>s. au_device r = Some s \<longrightarrow> s \<noteq> [] \<and> no_path s) \<and>
     list_all (\<lambda>(f, v). no_path v) (detail_fields (au_details r))"

lemma validateToken_None: "validateToken f v = None \<longleftrightarrow> v \<noteq> [] \<and> no_path v"
  by (auto simp: validateToken_def containsAny_def path_chars_def no_path_def list_ex_iff)

lemma validateOptionalToken_None: "validateOptionalToken f v = None \<longleftrightarrow> no_path v"
  by (auto simp: validateOptionalToken_def validateToken_None no_path_def)

text \<open>\<open>audit_inv a\<close>: the log still starts with the rows \<open>a\<close>, and all its rows are clean.\<close>

definition audit_inv :: "audit_row list \<Rightarrow> db \<Rightarrow> bool" where
  "audit_inv a d \<longleftrightarrow> prefix a (t_audit d) \<and> list_all audit_row_clean (t_audit d)"

lemma audit_inv_other [simp]:
  "audit_inv a (d\<lparr>t_accounts := x1\<rparr>) = audit_inv a d"
  "audit_inv a (d\<lparr>t_subscriptions := x2\<rparr>) = audit_inv a d"
  "audit_inv a (d\<lparr>t_sessions := x3\<rparr>) = audit_inv a d"
  "audit_inv a (d\<lparr>t_verify := x4\<rparr>) = audit_inv a d"
  "audit_inv a (d\<lparr>t_reset := x5\<rparr>) = audit_inv a d"
  "audit_inv a (d\<lparr>t_enrol := x6\<rparr>) = audit_inv a d"
  "audit_inv a (d\<lparr>t_devices := x7\<rparr>) = audit_inv a d"
  "audit_inv a (d\<lparr>t_bindings := x8\<rparr>) = audit_inv a d"
  "audit_inv a (d\<lparr>t_invites := x9\<rparr>) = audit_inv a d"
  "audit_inv a (d\<lparr>t_apps := x10\<rparr>) = audit_inv a d"
  "audit_inv a (d\<lparr>t_nonces := x11\<rparr>) = audit_inv a d"
  "audit_inv a (d\<lparr>t_enrolments := x12\<rparr>) = audit_inv a d"
  by (simp_all add: audit_inv_def)

text \<open>Whatever a call does, it leaves every table but the log alone, and only adds clean rows to it.\<close>

lemma appendAudit_other:
  assumes "\<And>d x. P (d\<lparr>t_audit := x\<rparr>) = P d"
  shows "keeps P (appendAudit deviceID actor action details)"
  unfolding appendAudit_def by (intro keeps_intro keeps_exec) (simp add: assms)

definition auditRow :: "string \<Rightarrow> string \<Rightarrow> string \<Rightarrow> audit_details \<Rightarrow> int \<Rightarrow> audit_row" where
  "auditRow deviceID actor action details t =
     \<lparr>au_device = nullIf deviceID, au_actor = actor, au_action = action, au_details = details, au_at = t\<rparr>"

definition audit_args_ok :: "string \<Rightarrow> string \<Rightarrow> string \<Rightarrow> audit_details \<Rightarrow> bool" where
  "audit_args_ok deviceID actor action details \<longleftrightarrow> action \<in> set validActions \<and> no_path deviceID \<and>
     actor \<noteq> [] \<and> no_path actor \<and> list_all (\<lambda>(f, v). no_path v) (detail_fields details)"

lemma appendAudit_alt:
  "appendAudit deviceID actor action details =
     (if audit_args_ok deviceID actor action details
      then exec (\<lambda>t d. d\<lparr>t_audit := t_audit d @ [auditRow deviceID actor action details t]\<rparr>)
      else fail ErrAudit)"
proof -
  have "list_ex (\<lambda>(f, v). validateOptionalToken f v \<noteq> None) fs \<longleftrightarrow> \<not> list_all (\<lambda>(f, v). no_path v) fs" for fs
    by (induction fs) (auto simp: validateOptionalToken_None)
  then show ?thesis
    by (simp add: appendAudit_def validateToken_None validateOptionalToken_None audit_args_ok_def
        auditRow_def)
qed

lemma auditRow_clean:
  "audit_args_ok deviceID actor action details \<Longrightarrow> audit_row_clean (auditRow deviceID actor action details t)"
  by (simp add: audit_args_ok_def audit_row_clean_def auditRow_def nullIf_def)

lemma appendAudit_ok:
  "w_faults w = [] \<Longrightarrow> audit_args_ok deviceID actor action details \<Longrightarrow>
   appendAudit deviceID actor action details w = (Inr (), w\<lparr>w_db := (w_db w)\<lparr>t_audit :=
     t_audit (w_db w) @ [auditRow deviceID actor action details (w_now w)]\<rparr>\<rparr>)"
  by (simp add: appendAudit_alt exec_ok)

lemma appendAudit_Inr:
  "appendAudit deviceID actor action details w = (Inr x, w') \<longleftrightarrow> audit_args_ok deviceID actor action details \<and>
     \<not> (w_faults w \<noteq> [] \<and> hd (w_faults w)) \<and>
     w' = w\<lparr>w_faults := tl (w_faults w), w_db := (w_db w)\<lparr>t_audit :=
       t_audit (w_db w) @ [auditRow deviceID actor action details (w_now w)]\<rparr>\<rparr>"
  by (simp add: appendAudit_alt exec_Inr)

lemma appendAudit_adds:
  "appendAudit deviceID actor action details w = (Inr x, w') \<Longrightarrow>
   \<exists>row. w_db w' = (w_db w)\<lparr>t_audit := t_audit (w_db w) @ [row]\<rparr> \<and> au_action row = action \<and>
     au_actor row = actor \<and> au_device row = nullIf deviceID \<and> au_details row = details"
  by (auto simp: appendAudit_Inr auditRow_def)

lemma appendAudit_audit_inv: "keeps (audit_inv a) (appendAudit deviceID actor action details)"
  unfolding appendAudit_alt
  by (intro keeps_intro keeps_exec) (simp add: audit_inv_def auditRow_clean)

lemma appendAudit_triple:
  "triple P (appendAudit deviceID actor action details)
     (\<lambda>_ d. \<exists>d0 t. P d0 \<and> d = d0\<lparr>t_audit := t_audit d0 @ [auditRow deviceID actor action details t]\<rparr>)"
  unfolding appendAudit_alt by (intro triple_if triple_fail triple_exec) blast

lemma triple_appendAudit:
  "(\<And>d row. P d \<Longrightarrow> au_action row = action \<Longrightarrow> au_actor row = actor \<Longrightarrow> au_device row = nullIf deviceID \<Longrightarrow>
     au_details row = details \<Longrightarrow> Q () (d\<lparr>t_audit := t_audit d @ [row]\<rparr>)) \<Longrightarrow>
   triple P (appendAudit deviceID actor action details) Q"
  unfolding appendAudit_alt by (intro triple_if triple_fail triple_exec) (simp add: auditRow_def)

end
