(* ===== verification/Schema.thy ===== *)
theory Schema
  imports AuditLog
begin

text \<open>
  The constraints of \<^verbatim>\<open>hosted/control-plane/migrations\<close>: primary and unique keys, foreign keys,
  the generated \<^verbatim>\<open>device_id\<close>, the checks, and what deleting an account takes with it.  \<open>wf_db\<close>
  states them of a whole database, with the rules the handlers add on top (the state an
  enrolment can be in), and \<open>cp_inv\<close> adds that the audit log only grows and stays clean.  The
  lemmas give the inserts that several components share.
\<close>

section \<open>Keys\<close>

definition account_ids :: "db \<Rightarrow> string list" where
  "account_ids d = map ar_id (t_accounts d)"

definition device_ids :: "db \<Rightarrow> string list" where
  "device_ids d = map dv_id (t_devices d)"

text \<open>\<^verbatim>\<open>encode(sha256(decode(public_key, 'hex')), 'hex')\<close>; the column's check makes the key 64
  lower-case hex digits.\<close>

definition key_check :: "string \<Rightarrow> bool" where
  "key_check k \<longleftrightarrow> length k = 64 \<and> list_all is_lower_hex k"

definition device_id_of :: "golib \<Rightarrow> string \<Rightarrow> string" where
  "device_id_of lib key =
     (case hex_decode key of None \<Rightarrow> [] | Some raw \<Rightarrow> hex_encode (lib_sha256 lib raw))"

section \<open>Well-formed databases\<close>

definition wf_tokens :: "db \<Rightarrow> token_row list \<Rightarrow> bool" where
  "wf_tokens d rows \<longleftrightarrow> distinct (map tk_id rows) \<and> distinct (map tk_hash rows) \<and>
     set (map tk_account rows) \<subseteq> set (account_ids d)"

definition enrolment_ok :: "enrolment_row \<Rightarrow> bool" where
  "enrolment_ok e \<longleftrightarrow> (en_by e = None \<longleftrightarrow> en_status e = Pending) \<and>
     (en_used e \<noteq> None \<longrightarrow> en_status e = Approved)"

definition wf_accounts :: "db \<Rightarrow> bool" where
  "wf_accounts d \<longleftrightarrow> distinct (account_ids d) \<and> distinct (map ar_email (t_accounts d)) \<and>
     distinct (map su_account (t_subscriptions d)) \<and>
     set (map su_account (t_subscriptions d)) \<subseteq> set (account_ids d) \<and>
     distinct (map sr_id (t_sessions d)) \<and> distinct (map sr_hash (t_sessions d)) \<and>
     set (map sr_account (t_sessions d)) \<subseteq> set (account_ids d) \<and>
     wf_tokens d (t_verify d) \<and> wf_tokens d (t_reset d) \<and> wf_tokens d (t_enrol d)"

definition wf_devices :: "golib \<Rightarrow> db \<Rightarrow> bool" where
  "wf_devices lib d \<longleftrightarrow> distinct (device_ids d) \<and> distinct (map dv_key (t_devices d)) \<and>
     (\<forall>v \<in> set (t_devices d). dv_id v = device_id_of lib (dv_key v) \<and> key_check (dv_key v)) \<and>
     distinct (map (\<lambda>b. (bn_device b, bn_user b)) (t_bindings d)) \<and>
     set (map bn_device (t_bindings d)) \<subseteq> set (device_ids d) \<and>
     set (map bn_user (t_bindings d)) \<subseteq> set (account_ids d) \<and>
     distinct (map (\<lambda>p. (ap_device p, ap_name p)) (t_apps d)) \<and>
     set (map ap_device (t_apps d)) \<subseteq> set (device_ids d)"

definition wf_codes :: "db \<Rightarrow> bool" where
  "wf_codes d \<longleftrightarrow> distinct (map iv_id (t_invites d)) \<and> distinct (map iv_hash (t_invites d)) \<and>
     set (map iv_device (t_invites d)) \<subseteq> set (device_ids d) \<and>
     set (map iv_by (t_invites d)) \<subseteq> set (account_ids d) \<and>
     (\<forall>i \<in> set (t_invites d). iv_used_by i \<noteq> None \<longrightarrow> iv_used i \<noteq> None) \<and>
     distinct (map nn_nonce (t_nonces d)) \<and>
     distinct (map en_hash (t_enrolments d)) \<and>
     (\<forall>e \<in> set (t_enrolments d). enrolment_ok e)"

definition wf_db :: "golib \<Rightarrow> db \<Rightarrow> bool" where
  "wf_db lib d \<longleftrightarrow> wf_accounts d \<and> wf_devices lib d \<and> wf_codes d"

definition cp_inv :: "golib \<Rightarrow> audit_row list \<Rightarrow> db \<Rightarrow> bool" where
  "cp_inv lib a d \<longleftrightarrow> wf_db lib d \<and> audit_inv a d"

lemmas wf_defs = wf_db_def wf_accounts_def wf_devices_def wf_codes_def wf_tokens_def
  account_ids_def device_ids_def

lemma cp_inv_empty: "cp_inv lib [] empty_db"
  by (simp add: cp_inv_def wf_defs audit_inv_def empty_db_def)

text \<open>Each part of the invariant depends on the tables it names and on no other.\<close>

lemma account_ids_frame [simp]:
  "account_ids (d\<lparr>t_subscriptions := x1\<rparr>) = account_ids d"
  "account_ids (d\<lparr>t_sessions := x2\<rparr>) = account_ids d"
  "account_ids (d\<lparr>t_verify := x3\<rparr>) = account_ids d"
  "account_ids (d\<lparr>t_reset := x4\<rparr>) = account_ids d"
  "account_ids (d\<lparr>t_enrol := x5\<rparr>) = account_ids d"
  "account_ids (d\<lparr>t_devices := x6\<rparr>) = account_ids d"
  "account_ids (d\<lparr>t_bindings := x7\<rparr>) = account_ids d"
  "account_ids (d\<lparr>t_invites := x8\<rparr>) = account_ids d"
  "account_ids (d\<lparr>t_apps := x9\<rparr>) = account_ids d"
  "account_ids (d\<lparr>t_nonces := x10\<rparr>) = account_ids d"
  "account_ids (d\<lparr>t_enrolments := x11\<rparr>) = account_ids d"
  "account_ids (d\<lparr>t_audit := x12\<rparr>) = account_ids d"
  by (simp_all add: account_ids_def)

lemma device_ids_frame [simp]:
  "device_ids (d\<lparr>t_accounts := x1\<rparr>) = device_ids d"
  "device_ids (d\<lparr>t_subscriptions := x2\<rparr>) = device_ids d"
  "device_ids (d\<lparr>t_sessions := x3\<rparr>) = device_ids d"
  "device_ids (d\<lparr>t_verify := x4\<rparr>) = device_ids d"
  "device_ids (d\<lparr>t_reset := x5\<rparr>) = device_ids d"
  "device_ids (d\<lparr>t_enrol := x6\<rparr>) = device_ids d"
  "device_ids (d\<lparr>t_bindings := x7\<rparr>) = device_ids d"
  "device_ids (d\<lparr>t_invites := x8\<rparr>) = device_ids d"
  "device_ids (d\<lparr>t_apps := x9\<rparr>) = device_ids d"
  "device_ids (d\<lparr>t_nonces := x10\<rparr>) = device_ids d"
  "device_ids (d\<lparr>t_enrolments := x11\<rparr>) = device_ids d"
  "device_ids (d\<lparr>t_audit := x12\<rparr>) = device_ids d"
  by (simp_all add: device_ids_def)

lemma wf_tokens_frame [simp]:
  "wf_tokens (d\<lparr>t_subscriptions := x1\<rparr>) rows = wf_tokens d rows"
  "wf_tokens (d\<lparr>t_sessions := x2\<rparr>) rows = wf_tokens d rows"
  "wf_tokens (d\<lparr>t_verify := x3\<rparr>) rows = wf_tokens d rows"
  "wf_tokens (d\<lparr>t_reset := x4\<rparr>) rows = wf_tokens d rows"
  "wf_tokens (d\<lparr>t_enrol := x5\<rparr>) rows = wf_tokens d rows"
  "wf_tokens (d\<lparr>t_devices := x6\<rparr>) rows = wf_tokens d rows"
  "wf_tokens (d\<lparr>t_bindings := x7\<rparr>) rows = wf_tokens d rows"
  "wf_tokens (d\<lparr>t_invites := x8\<rparr>) rows = wf_tokens d rows"
  "wf_tokens (d\<lparr>t_apps := x9\<rparr>) rows = wf_tokens d rows"
  "wf_tokens (d\<lparr>t_nonces := x10\<rparr>) rows = wf_tokens d rows"
  "wf_tokens (d\<lparr>t_enrolments := x11\<rparr>) rows = wf_tokens d rows"
  "wf_tokens (d\<lparr>t_audit := x12\<rparr>) rows = wf_tokens d rows"
  by (simp_all add: wf_tokens_def)

lemma wf_accounts_frame [simp]:
  "wf_accounts (d\<lparr>t_devices := x1\<rparr>) = wf_accounts d"
  "wf_accounts (d\<lparr>t_bindings := x2\<rparr>) = wf_accounts d"
  "wf_accounts (d\<lparr>t_invites := x3\<rparr>) = wf_accounts d"
  "wf_accounts (d\<lparr>t_apps := x4\<rparr>) = wf_accounts d"
  "wf_accounts (d\<lparr>t_nonces := x5\<rparr>) = wf_accounts d"
  "wf_accounts (d\<lparr>t_enrolments := x6\<rparr>) = wf_accounts d"
  "wf_accounts (d\<lparr>t_audit := x7\<rparr>) = wf_accounts d"
  by (simp_all add: wf_accounts_def)

lemma wf_devices_frame [simp]:
  "wf_devices lib (d\<lparr>t_subscriptions := x1\<rparr>) = wf_devices lib d"
  "wf_devices lib (d\<lparr>t_sessions := x2\<rparr>) = wf_devices lib d"
  "wf_devices lib (d\<lparr>t_verify := x3\<rparr>) = wf_devices lib d"
  "wf_devices lib (d\<lparr>t_reset := x4\<rparr>) = wf_devices lib d"
  "wf_devices lib (d\<lparr>t_enrol := x5\<rparr>) = wf_devices lib d"
  "wf_devices lib (d\<lparr>t_invites := x6\<rparr>) = wf_devices lib d"
  "wf_devices lib (d\<lparr>t_nonces := x7\<rparr>) = wf_devices lib d"
  "wf_devices lib (d\<lparr>t_enrolments := x8\<rparr>) = wf_devices lib d"
  "wf_devices lib (d\<lparr>t_audit := x9\<rparr>) = wf_devices lib d"
  by (simp_all add: wf_devices_def)

lemma wf_codes_frame [simp]:
  "wf_codes (d\<lparr>t_subscriptions := x1\<rparr>) = wf_codes d"
  "wf_codes (d\<lparr>t_sessions := x2\<rparr>) = wf_codes d"
  "wf_codes (d\<lparr>t_verify := x3\<rparr>) = wf_codes d"
  "wf_codes (d\<lparr>t_reset := x4\<rparr>) = wf_codes d"
  "wf_codes (d\<lparr>t_enrol := x5\<rparr>) = wf_codes d"
  "wf_codes (d\<lparr>t_bindings := x6\<rparr>) = wf_codes d"
  "wf_codes (d\<lparr>t_apps := x7\<rparr>) = wf_codes d"
  "wf_codes (d\<lparr>t_audit := x8\<rparr>) = wf_codes d"
  by (simp_all add: wf_codes_def)

lemma wf_db_frame [simp]:
  "wf_db lib (d\<lparr>t_audit := x1\<rparr>) = wf_db lib d"
  by (simp_all add: wf_db_def)

text \<open>What a new content of one table has to satisfy.\<close>

lemma wf_set_accounts:
  "wf_db lib d \<Longrightarrow> map ar_id rows = account_ids d \<Longrightarrow> map ar_email rows = map ar_email (t_accounts d) \<Longrightarrow>
   wf_db lib (d\<lparr>t_accounts := rows\<rparr>)"
  by (simp add: wf_db_def wf_accounts_def wf_devices_def wf_codes_def wf_tokens_def account_ids_def)

lemma wf_set_subscriptions:
  "wf_db lib d \<Longrightarrow> distinct (map su_account rows) \<Longrightarrow> set (map su_account rows) \<subseteq> set (account_ids d) \<Longrightarrow>
   wf_db lib (d\<lparr>t_subscriptions := rows\<rparr>)"
  by (simp add: wf_db_def wf_accounts_def)

lemma wf_set_sessions:
  "wf_db lib d \<Longrightarrow> distinct (map sr_id rows) \<Longrightarrow> distinct (map sr_hash rows) \<Longrightarrow>
   set (map sr_account rows) \<subseteq> set (account_ids d) \<Longrightarrow> wf_db lib (d\<lparr>t_sessions := rows\<rparr>)"
  by (simp add: wf_db_def wf_accounts_def)

lemma wf_set_tokens:
  "wf_db lib d \<Longrightarrow> wf_tokens d rows \<Longrightarrow> wf_db lib (d\<lparr>t_verify := rows\<rparr>)"
  "wf_db lib d \<Longrightarrow> wf_tokens d rows \<Longrightarrow> wf_db lib (d\<lparr>t_reset := rows\<rparr>)"
  "wf_db lib d \<Longrightarrow> wf_tokens d rows \<Longrightarrow> wf_db lib (d\<lparr>t_enrol := rows\<rparr>)"
  by (simp_all add: wf_db_def wf_accounts_def)

lemma wf_set_devices:
  "wf_db lib d \<Longrightarrow> map dv_id rows = device_ids d \<Longrightarrow> map dv_key rows = map dv_key (t_devices d) \<Longrightarrow>
   (\<And>v. v \<in> set rows \<Longrightarrow> dv_id v = device_id_of lib (dv_key v) \<and> key_check (dv_key v)) \<Longrightarrow>
   wf_db lib (d\<lparr>t_devices := rows\<rparr>)"
  by (simp add: wf_db_def wf_devices_def wf_codes_def device_ids_def del: set_map)

lemma wf_add_device:
  assumes "wf_db lib d" and "key_check key" and "key \<notin> set (map dv_key (t_devices d))"
    and "device_id_of lib key \<notin> set (device_ids d)"
  shows "wf_db lib (d\<lparr>t_devices := t_devices d @
    [\<lparr>dv_key = key, dv_id = device_id_of lib key, dv_name = nm, dv_status = st\<rparr>]\<rparr>)"
proof -
  let ?row = "\<lparr>dv_key = key, dv_id = device_id_of lib key, dv_name = nm, dv_status = st\<rparr>"
  let ?d = "d\<lparr>t_devices := t_devices d @ [?row]\<rparr>"
  have ids: "device_ids ?d = device_ids d @ [device_id_of lib key]"
    by (simp add: device_ids_def)
  have "wf_accounts ?d"
    using assms(1) by (simp add: wf_db_def)
  moreover have "wf_codes ?d"
    using assms(1) unfolding wf_db_def wf_codes_def ids by (simp del: set_map) blast
  moreover have "wf_devices lib ?d"
    using assms unfolding wf_db_def wf_devices_def ids by (simp del: set_map) (simp, blast)
  ultimately show ?thesis
    by (simp add: wf_db_def)
qed

lemma wf_set_bindings:
  "wf_db lib d \<Longrightarrow> distinct (map (\<lambda>b. (bn_device b, bn_user b)) rows) \<Longrightarrow>
   set (map bn_device rows) \<subseteq> set (device_ids d) \<Longrightarrow> set (map bn_user rows) \<subseteq> set (account_ids d) \<Longrightarrow>
   wf_db lib (d\<lparr>t_bindings := rows\<rparr>)"
  by (simp add: wf_db_def wf_devices_def)

lemma wf_set_apps:
  "wf_db lib d \<Longrightarrow> distinct (map (\<lambda>p. (ap_device p, ap_name p)) rows) \<Longrightarrow>
   set (map ap_device rows) \<subseteq> set (device_ids d) \<Longrightarrow> wf_db lib (d\<lparr>t_apps := rows\<rparr>)"
  by (simp add: wf_db_def wf_devices_def)

lemma wf_set_invites:
  "wf_db lib d \<Longrightarrow> distinct (map iv_id rows) \<Longrightarrow> distinct (map iv_hash rows) \<Longrightarrow>
   set (map iv_device rows) \<subseteq> set (device_ids d) \<Longrightarrow> set (map iv_by rows) \<subseteq> set (account_ids d) \<Longrightarrow>
   (\<And>i. i \<in> set rows \<Longrightarrow> iv_used_by i \<noteq> None \<longrightarrow> iv_used i \<noteq> None) \<Longrightarrow> wf_db lib (d\<lparr>t_invites := rows\<rparr>)"
  by (simp add: wf_db_def wf_codes_def)

lemma wf_set_nonces:
  "wf_db lib d \<Longrightarrow> distinct (map nn_nonce rows) \<Longrightarrow> wf_db lib (d\<lparr>t_nonces := rows\<rparr>)"
  by (simp add: wf_db_def wf_codes_def)

lemma wf_set_enrolments:
  "wf_db lib d \<Longrightarrow> distinct (map en_hash rows) \<Longrightarrow> (\<And>e. e \<in> set rows \<Longrightarrow> enrolment_ok e) \<Longrightarrow>
   wf_db lib (d\<lparr>t_enrolments := rows\<rparr>)"
  by (simp add: wf_db_def wf_codes_def)

text \<open>And what the tables satisfy now.\<close>

lemma wf_dbD:
  assumes "wf_db lib d"
  shows "distinct (account_ids d)" and "distinct (map ar_email (t_accounts d))"
    and "distinct (map su_account (t_subscriptions d))"
    and "set (map su_account (t_subscriptions d)) \<subseteq> set (account_ids d)"
    and "distinct (map sr_id (t_sessions d))" and "distinct (map sr_hash (t_sessions d))"
    and "set (map sr_account (t_sessions d)) \<subseteq> set (account_ids d)"
    and "wf_tokens d (t_verify d)" and "wf_tokens d (t_reset d)" and "wf_tokens d (t_enrol d)"
    and "distinct (device_ids d)" and "distinct (map dv_key (t_devices d))"
    and "\<And>v. v \<in> set (t_devices d) \<Longrightarrow> dv_id v = device_id_of lib (dv_key v)"
    and "\<And>v. v \<in> set (t_devices d) \<Longrightarrow> key_check (dv_key v)"
    and "distinct (map (\<lambda>b. (bn_device b, bn_user b)) (t_bindings d))"
    and "set (map bn_device (t_bindings d)) \<subseteq> set (device_ids d)"
    and "set (map bn_user (t_bindings d)) \<subseteq> set (account_ids d)"
    and "distinct (map (\<lambda>p. (ap_device p, ap_name p)) (t_apps d))"
    and "set (map ap_device (t_apps d)) \<subseteq> set (device_ids d)"
    and "distinct (map iv_id (t_invites d))" and "distinct (map iv_hash (t_invites d))"
    and "set (map iv_device (t_invites d)) \<subseteq> set (device_ids d)"
    and "set (map iv_by (t_invites d)) \<subseteq> set (account_ids d)"
    and "\<And>i. i \<in> set (t_invites d) \<Longrightarrow> iv_used_by i \<noteq> None \<Longrightarrow> iv_used i \<noteq> None"
    and "distinct (map nn_nonce (t_nonces d))" and "distinct (map en_hash (t_enrolments d))"
    and "\<And>e. e \<in> set (t_enrolments d) \<Longrightarrow> enrolment_ok e"
  using assms unfolding wf_db_def wf_accounts_def wf_devices_def wf_codes_def by blast+

lemma appendAudit_inv [keeps_intro]: "keeps (cp_inv lib a) (appendAudit dev actor action details)"
proof -
  have "keeps (wf_db lib) (appendAudit dev actor action details)"
    by (rule appendAudit_other) simp
  then show ?thesis
    using appendAudit_audit_inv [of a] by (simp add: keeps_def cp_inv_def)
qed

lemma keeps_inv_exec:
  assumes "\<And>t d. wf_db lib d \<Longrightarrow> wf_db lib (f t d)" and "\<And>t d. t_audit (f t d) = t_audit d"
  shows "keeps (cp_inv lib a) (exec f)"
  by (rule keeps_exec) (use assms in \<open>simp add: cp_inv_def audit_inv_def\<close>)

lemma keeps_inv_stmt:
  assumes "\<And>t d x d'. wf_db lib d \<Longrightarrow> f t d = Inr (x, d') \<Longrightarrow> wf_db lib d'"
    and "\<And>t d x d'. f t d = Inr (x, d') \<Longrightarrow> t_audit d' = t_audit d"
  shows "keeps (cp_inv lib a) (stmt f)"
proof (rule keeps_stmt)
  fix t d x d'
  assume "cp_inv lib a d" and "f t d = Inr (x, d')"
  then show "cp_inv lib a d'"
    using assms(1) [of d t x d'] assms(2) [of t d x d'] by (simp add: cp_inv_def audit_inv_def)
qed

section \<open>Token rows\<close>

text \<open>The insert into one of the three token tables: unique id and hash, an account that exists.\<close>

definition tokenInsert ::
  "string \<Rightarrow> string \<Rightarrow> string \<Rightarrow> int \<Rightarrow> db \<Rightarrow> token_row list \<Rightarrow> err + token_row list" where
  "tokenInsert i acct h expires d rows =
     (if i \<in> set (map tk_id rows) \<or> h \<in> set (map tk_hash rows) then Inl ErrUnique
      else if acct \<notin> set (account_ids d) then Inl ErrDb
      else Inr (rows @ [\<lparr>tk_id = i, tk_account = acct, tk_hash = h, tk_expires = expires, tk_used = None\<rparr>]))"

definition tokenLive :: "string \<Rightarrow> int \<Rightarrow> token_row \<Rightarrow> bool" where
  "tokenLive h t k \<longleftrightarrow> tk_hash k = h \<and> tk_used k = None \<and> tk_expires k > t"

lemma wf_tokenInsert:
  "wf_tokens d rows \<Longrightarrow> tokenInsert i acct h e d rows = Inr rows' \<Longrightarrow> wf_tokens d rows'"
  by (auto simp: wf_tokens_def tokenInsert_def image_subset_iff split: if_splits)

lemma wf_tokens_updateWhere:
  "(\<And>r. tk_id (f r) = tk_id r \<and> tk_hash (f r) = tk_hash r \<and> tk_account (f r) = tk_account r) \<Longrightarrow>
   wf_tokens d (updateWhere P f rows) = wf_tokens d rows"
  by (simp add: wf_tokens_def updateWhere_map)

section \<open>Deleting an account\<close>

text \<open>\<^verbatim>\<open>DELETE FROM accounts\<close> with its \<^verbatim>\<open>ON DELETE CASCADE\<close> and \<^verbatim>\<open>ON DELETE SET NULL\<close> rules.\<close>

definition release :: "string \<Rightarrow> string option \<Rightarrow> string option" where
  "release i v = (if v = Some i then None else v)"

definition deleteAccountRow :: "string \<Rightarrow> db \<Rightarrow> db" where
  "deleteAccountRow i d = d\<lparr>
     t_accounts := filter (\<lambda>r. ar_id r \<noteq> i) (t_accounts d),
     t_subscriptions := filter (\<lambda>r. su_account r \<noteq> i) (t_subscriptions d),
     t_sessions := filter (\<lambda>r. sr_account r \<noteq> i) (t_sessions d),
     t_verify := filter (\<lambda>r. tk_account r \<noteq> i) (t_verify d),
     t_reset := filter (\<lambda>r. tk_account r \<noteq> i) (t_reset d),
     t_enrol := filter (\<lambda>r. tk_account r \<noteq> i) (t_enrol d),
     t_bindings := map (\<lambda>b. b\<lparr>bn_by := release i (bn_by b)\<rparr>)
       (filter (\<lambda>b. bn_user b \<noteq> i) (t_bindings d)),
     t_invites := map (\<lambda>v. v\<lparr>iv_used_by := release i (iv_used_by v)\<rparr>)
       (filter (\<lambda>v. iv_by v \<noteq> i) (t_invites d)),
     t_enrolments := filter (\<lambda>e. en_by e \<noteq> Some i) (t_enrolments d)\<rparr>"

lemma deleteAccountRow_ids [simp]:
  "set (account_ids (deleteAccountRow i d)) = set (account_ids d) - {i}"
  "device_ids (deleteAccountRow i d) = device_ids d"
  "distinct (account_ids d) \<Longrightarrow> distinct (account_ids (deleteAccountRow i d))"
  by (auto simp: account_ids_def device_ids_def deleteAccountRow_def distinct_map_filter)

lemma keys_filter: "set (map k rows) \<subseteq> A \<Longrightarrow> set (map k (filter (\<lambda>r. k r \<noteq> i) rows)) \<subseteq> A - {i}"
  by auto

lemma keys_filter_other: "set (map k rows) \<subseteq> A \<Longrightarrow> set (map k (filter P rows)) \<subseteq> A"
  by auto

lemma deleteAccountRow_tokens:
  "wf_tokens d rows \<Longrightarrow> wf_tokens (deleteAccountRow i d) (filter (\<lambda>r. tk_account r \<noteq> i) rows)"
  by (simp only: wf_tokens_def deleteAccountRow_ids distinct_map_filter keys_filter simp_thms)

lemma deleteAccountRow_accounts: "wf_accounts d \<Longrightarrow> wf_accounts (deleteAccountRow i d)"
proof -
  assume wf: "wf_accounts d"
  have tables: "t_accounts (deleteAccountRow i d) = filter (\<lambda>r. ar_id r \<noteq> i) (t_accounts d)"
    "t_subscriptions (deleteAccountRow i d) = filter (\<lambda>r. su_account r \<noteq> i) (t_subscriptions d)"
    "t_sessions (deleteAccountRow i d) = filter (\<lambda>r. sr_account r \<noteq> i) (t_sessions d)"
    "t_verify (deleteAccountRow i d) = filter (\<lambda>r. tk_account r \<noteq> i) (t_verify d)"
    "t_reset (deleteAccountRow i d) = filter (\<lambda>r. tk_account r \<noteq> i) (t_reset d)"
    "t_enrol (deleteAccountRow i d) = filter (\<lambda>r. tk_account r \<noteq> i) (t_enrol d)"
    by (simp_all add: deleteAccountRow_def)
  show ?thesis
    using wf unfolding wf_accounts_def tables
    by (simp only: deleteAccountRow_ids deleteAccountRow_tokens distinct_map_filter keys_filter simp_thms)
qed

lemma deleteAccountRow_devices: "wf_devices lib d \<Longrightarrow> wf_devices lib (deleteAccountRow i d)"
proof -
  assume wf: "wf_devices lib d"
  have tables: "t_devices (deleteAccountRow i d) = t_devices d" "t_apps (deleteAccountRow i d) = t_apps d"
    "\<And>f. (\<And>b v. f (b\<lparr>bn_by := v\<rparr>) = f b) \<Longrightarrow> map f (t_bindings (deleteAccountRow i d))
       = map f (filter (\<lambda>b. bn_user b \<noteq> i) (t_bindings d))"
    by (simp_all add: deleteAccountRow_def)
  have users: "set (map bn_user (t_bindings (deleteAccountRow i d))) \<subseteq> set (account_ids d) - {i}"
    using wf keys_filter [of bn_user "t_bindings d"] by (simp add: tables wf_devices_def)
  have devs: "set (map bn_device (t_bindings (deleteAccountRow i d))) \<subseteq> set (device_ids d)"
    using wf keys_filter_other [of bn_device "t_bindings d"] by (simp add: tables wf_devices_def)
  show ?thesis
    using wf users devs unfolding wf_devices_def
    by (simp add: tables distinct_map_filter)
qed

lemma deleteAccountRow_codes: "wf_codes d \<Longrightarrow> wf_codes (deleteAccountRow i d)"
proof -
  assume wf: "wf_codes d"
  have tables: "t_nonces (deleteAccountRow i d) = t_nonces d"
    "t_enrolments (deleteAccountRow i d) = filter (\<lambda>e. en_by e \<noteq> Some i) (t_enrolments d)"
    "\<And>f. (\<And>b v. f (b\<lparr>iv_used_by := v\<rparr>) = f b) \<Longrightarrow> map f (t_invites (deleteAccountRow i d))
       = map f (filter (\<lambda>b. iv_by b \<noteq> i) (t_invites d))"
    by (simp_all add: deleteAccountRow_def)
  have users: "set (map iv_by (t_invites (deleteAccountRow i d))) \<subseteq> set (account_ids d) - {i}"
    using wf keys_filter [of iv_by "t_invites d"] by (simp add: tables wf_codes_def)
  have devs: "set (map iv_device (t_invites (deleteAccountRow i d))) \<subseteq> set (device_ids d)"
    using wf keys_filter_other [of iv_device "t_invites d"] by (simp add: tables wf_codes_def)
  have used: "\<forall>v \<in> set (t_invites (deleteAccountRow i d)). iv_used_by v \<noteq> None \<longrightarrow> iv_used v \<noteq> None"
    using wf by (auto simp: wf_codes_def deleteAccountRow_def release_def)
  show ?thesis
    using wf users devs used unfolding wf_codes_def
    by (simp add: tables distinct_map_filter)
qed

lemma wf_deleteAccountRow: "wf_db lib d \<Longrightarrow> wf_db lib (deleteAccountRow i d)"
  by (simp add: wf_db_def deleteAccountRow_accounts deleteAccountRow_devices deleteAccountRow_codes)

end
