(* ===== verification/Mail.thy ===== *)
theory Mail
  imports Ratelimit Schema
begin

text \<open>
  \<^verbatim>\<open>hosted/control-plane/mail.go\<close> and \<^verbatim>\<open>config.go\<close>: settings read from the environment (a
  function \<open>getenv\<close>, where an unset variable is the empty string), the mailer, and the links
  its messages carry.  A message is recorded in the world's outbox; handing it to an SMTP server
  or to the log is input and output and is left out.
\<close>

definition env :: "(string \<Rightarrow> string) \<Rightarrow> string \<Rightarrow> string \<Rightarrow> string" where
  "env getenv key fallback = (let v = getenv key in if v \<noteq> [] then v else fallback)"

record mailer =
  ma_addr :: string
  ma_from :: string
  ma_auth :: "(string \<times> string \<times> string) option"

definition newMailer :: "(string \<Rightarrow> string) \<Rightarrow> mailer" where
  "newMailer getenv =
     (let addr = getenv ''RFM_SMTP_ADDR'';
          user = getenv ''RFM_SMTP_USER'';
          host = (case splitHostPort addr of Some (h, _) \<Rightarrow> h | None \<Rightarrow> addr)
      in \<lparr>ma_addr = addr, ma_from = env getenv ''RFM_MAIL_FROM'' ''no-reply@localhost'',
          ma_auth = (if user \<noteq> [] then Some (user, getenv ''RFM_SMTP_PASSWORD'', host) else None)\<rparr>)"

definition crlf :: string where
  "crlf = [CHR 0x0D, CHR 0x0A]"

definition wire_message :: "string \<Rightarrow> string \<Rightarrow> string \<Rightarrow> string \<Rightarrow> string" where
  "wire_message sender to subject body =
     ''From: '' @ sender @ crlf @ ''To: '' @ to @ crlf @ ''Subject: '' @ subject @ crlf @
     ''Content-Type: text/plain; charset=utf-8'' @ crlf @ crlf @ body @ crlf"

text \<open>\<open>ml_wire\<close> is what goes to the server, \<^const>\<open>None\<close> for a message that is only logged.\<close>

definition mail_send :: "mailer \<Rightarrow> string \<Rightarrow> string \<Rightarrow> string \<Rightarrow> world \<Rightarrow> world" where
  "mail_send m to subject body w =
     (if containsAny to crlf then w
      else w\<lparr>w_outbox := w_outbox w @ [\<lparr>ml_to = to, ml_subject = subject, ml_body = body,
             ml_wire = (if ma_addr m = [] then None
                        else Some (wire_message (ma_from m) to subject body))\<rparr>]\<rparr>)"

definition linkBase :: "(string \<Rightarrow> string) \<Rightarrow> request \<Rightarrow> string" where
  "linkBase getenv r =
     (let v = getenv ''RFM_BASE_URL'';
          scheme = (if rq_tls r \<or> header_get (rq_headers r) ''X-Forwarded-Proto'' = ''https''
                    then ''https'' else ''http'')
      in if v \<noteq> [] then trimRight (CHR ''/'') v else scheme @ ''://'' @ rq_host r)"

text \<open>\<^verbatim>\<open>url.QueryEscape\<close>: letters, digits and \<^verbatim>\<open>-_.~\<close> stand for themselves, a space is \<^verbatim>\<open>+\<close>, every
  other byte is percent-encoded in upper-case hex.\<close>

definition upper_hex :: "nat \<Rightarrow> char" where
  "upper_hex n = (if n < 10 then chr (48 + n) else chr (55 + n))"

definition unreserved :: "char \<Rightarrow> bool" where
  "unreserved c \<longleftrightarrow> is_digit c \<or> is_lower_letter c \<or> (65 \<le> byte c \<and> byte c \<le> 90) \<or> c \<in> set ''-_.~''"

fun queryEscape :: "string \<Rightarrow> string" where
  "queryEscape [] = []"
| "queryEscape (c # s) =
     (if unreserved c then [c]
      else if c = CHR '' '' then ''+''
      else [CHR ''%'', upper_hex (byte c div 16), upper_hex (byte c mod 16)]) @ queryEscape s"

definition approvalCode :: "string \<Rightarrow> string" where
  "approvalCode code = (if code = [] then [] else ''&code='' @ queryEscape code)"

lemma mail_send_simps [simp]:
  "w_db (mail_send m to subject body w) = w_db w" "w_now (mail_send m to subject body w) = w_now w"
  "w_faults (mail_send m to subject body w) = w_faults w" "w_rand (mail_send m to subject body w) = w_rand w"
  "w_uuid (mail_send m to subject body w) = w_uuid w"
  by (simp_all add: mail_send_def)

lemma keeps_mail_send [keeps_intro]: "keeps P (\<lambda>w. (rw, mail_send m to subject body w))"
  by (simp add: keeps_def)

text \<open>An escaped value can be put in a query string: it holds no separator, no space and no line break.\<close>

lemma upper_hex_unreserved: "n < 16 \<Longrightarrow> unreserved (upper_hex n)"
  by (auto simp: upper_hex_def unreserved_def is_digit_def)

lemma queryEscape_chars: "c \<in> set (queryEscape s) \<Longrightarrow> unreserved c \<or> c = CHR ''%'' \<or> c = CHR ''+''"
  by (induction s) (auto simp: upper_hex_unreserved split: if_splits)

lemma queryEscape_safe: "CHR ''&'' \<notin> set (queryEscape s) \<and> newline \<notin> set (queryEscape s) \<and> CHR 0x0D \<notin> set (queryEscape s)"
proof -
  have "\<not> unreserved (CHR ''&'')" "\<not> unreserved newline" "\<not> unreserved (CHR 0x0D)"
    by (simp_all add: unreserved_def is_digit_def is_lower_letter_def newline_def byte_def)
  then show ?thesis
    using queryEscape_chars [of _ s] by (fastforce simp: newline_def)
qed

end
