(* ===== verification/Auth.thy ===== *)
theory Auth
  imports Mail
begin

text \<open>
  \<^verbatim>\<open>hosted/control-plane/auth.go\<close>: accounts, passwords, sessions, and the handlers for signing
  up, in and out, confirming an address and resetting a password; with \<open>seedSubscription\<close> of
  \<^verbatim>\<open>subscription.go\<close>, which sign-up calls.  A handler takes the decoded request body, \<^const>\<open>None\<close>
  when decoding fails, and, behind \<open>requireSession\<close>, the account and session found there.
\<close>

unbundle bit_operations_syntax

definition rateWindow :: int where "rateWindow = minute"
definition sessionTTL :: int where "sessionTTL = 30 * 24 * hour"
definition verifyTTL :: int where "verifyTTL = 24 * hour"
definition resetTTL :: int where "resetTTL = hour"
definition minPasswordLen :: nat where "minPasswordLen = 12"
definition hashIterations :: nat where "hashIterations = 210000"
definition hashSaltLen :: nat where "hashSaltLen = 32"
definition hashKeyLen :: nat where "hashKeyLen = 32"
definition sessionCookie :: string where "sessionCookie = ''rfm_session''"

record account =
  ac_id :: string
  ac_email :: string
  ac_verified :: bool

type_synonym ctx = "(account \<times> string) option"

definition tryAgain :: "response \<Rightarrow> response" where
  "tryAgain rw = writeAuthError 500 ''try again later'' rw"

definition badBody :: "response \<Rightarrow> response" where
  "badBody rw = writeAuthError 400 ''invalid request body'' rw"

definition unauthorized :: "response \<Rightarrow> response" where
  "unauthorized rw = writeAuthError 401 ''unauthorized'' rw"

section \<open>Addresses\<close>

definition normalizeEmail :: "golib \<Rightarrow> string \<Rightarrow> string" where
  "normalizeEmail lib email = toLower lib (trimSpace email)"

definition notPrintable :: "char \<Rightarrow> bool" where
  "notPrintable c \<longleftrightarrow> byte c \<le> 32 \<or> byte c = 127"

definition validEmail :: "golib \<Rightarrow> string \<Rightarrow> bool" where
  "validEmail lib email0 =
     (let email = normalizeEmail lib email0 in
      if email = [] \<or> length email > 254 \<or> list_ex notPrintable email then False
      else case cutAt (CHR ''@'') email of (local, domain, ok) \<Rightarrow>
        \<not> (\<not> ok \<or> local = [] \<or> domain = [] \<or> \<not> stringContains domain ''.''))"

section \<open>Passwords\<close>

definition xorBytes :: "string \<Rightarrow> string \<Rightarrow> string" where
  "xorBytes a b = map2 (\<lambda>c d. chr (byte c XOR byte d)) a b"

fun pbkdf2_loop :: "golib \<Rightarrow> string \<Rightarrow> nat \<Rightarrow> string \<Rightarrow> string \<Rightarrow> string" where
  "pbkdf2_loop lib password 0 prev out = out"
| "pbkdf2_loop lib password (Suc n) prev out =
     (let prev' = lib_hmac lib password prev in pbkdf2_loop lib password n prev' (xorBytes out prev'))"

definition pbkdf2Key :: "golib \<Rightarrow> string \<Rightarrow> string \<Rightarrow> nat \<Rightarrow> string" where
  "pbkdf2Key lib password salt iterations =
     (let sum = lib_hmac lib password (salt @ [CHR 0x00, CHR 0x00, CHR 0x00, CHR 0x01])
      in take hashKeyLen (pbkdf2_loop lib password (iterations - 1) sum sum))"

text \<open>\<open>readRand\<close> hands out the next random bytes; the source asks for \<^const>\<open>hashSaltLen\<close> of them.\<close>

definition hashPassword :: "golib \<Rightarrow> string \<Rightarrow> string act" where
  "hashPassword lib password = andThen readRand (\<lambda>salt.
     let key = pbkdf2Key lib password salt hashIterations in
     ret (''pbkdf2-sha256$'' @ itoa hashIterations @ ''$'' @ b64_encode salt @ ''$'' @ b64_encode key))"

definition checkPassword :: "golib \<Rightarrow> string \<Rightarrow> string \<Rightarrow> bool" where
  "checkPassword lib password stored =
     (case splitOn (CHR ''$'') stored of
        [scheme, iters, salt64, want64] \<Rightarrow>
          if scheme \<noteq> ''pbkdf2-sha256'' then False
          else if iters \<noteq> itoa hashIterations then False
          else (case b64_decode salt64 of
              None \<Rightarrow> False
            | Some salt \<Rightarrow> (case b64_decode want64 of
                None \<Rightarrow> False
              | Some want \<Rightarrow>
                  if length want \<noteq> hashKeyLen then False
                  else pbkdf2Key lib password salt hashIterations = want))
      | _ \<Rightarrow> False)"

section \<open>Tokens and cookies\<close>

definition hashToken :: "golib \<Rightarrow> string \<Rightarrow> string" where
  "hashToken lib raw = hex_encode (lib_sha256 lib raw)"

definition newRawToken :: "golib \<Rightarrow> (string \<times> string) act" where
  "newRawToken lib = andThen readRand (\<lambda>buf.
     let raw = b64url_encode buf in ret (raw, hex_encode (lib_sha256 lib raw)))"

definition bearer :: string where "bearer = ''Bearer ''"

definition sessionTokenFromRequest :: "request \<Rightarrow> string" where
  "sessionTokenFromRequest r =
     (let auth = header_get (rq_headers r) ''Authorization'';
          fromHeader = (if auth \<noteq> [] \<and> hasPrefix auth bearer \<and> drop (length bearer) auth \<noteq> []
                        then drop (length bearer) auth else [])
      in case map_of (rq_cookies r) sessionCookie of
           Some v \<Rightarrow> if v \<noteq> [] then v else fromHeader
         | None \<Rightarrow> fromHeader)"

definition insecureCookies :: "(string \<Rightarrow> string) \<Rightarrow> bool" where
  "insecureCookies getenv \<longleftrightarrow> getenv ''RFM_INSECURE_COOKIES'' \<noteq> []"

definition setSessionCookie :: "(string \<Rightarrow> string) \<Rightarrow> string \<Rightarrow> response \<Rightarrow> response" where
  "setSessionCookie getenv raw rw = setCookie
     \<lparr>ck_name = sessionCookie, ck_value = raw, ck_path = ''/'', ck_http_only = True,
      ck_same_site = ''Lax'', ck_max_age = sessionTTL div second, ck_secure = (\<not> insecureCookies getenv)\<rparr> rw"

definition clearSessionCookie :: "(string \<Rightarrow> string) \<Rightarrow> response \<Rightarrow> response" where
  "clearSessionCookie getenv rw = setCookie
     \<lparr>ck_name = sessionCookie, ck_value = [], ck_path = ''/'', ck_http_only = True,
      ck_same_site = ''Lax'', ck_max_age = - 1, ck_secure = (\<not> insecureCookies getenv)\<rparr> rw"

section \<open>Sessions\<close>

definition insertSession :: "string \<Rightarrow> string \<Rightarrow> string \<Rightarrow> string \<Rightarrow> unit act" where
  "insertSession accountID h userAgent ip = andThen newUuid (\<lambda>i. stmt (\<lambda>t d.
     if i \<in> set (map sr_id (t_sessions d)) \<or> h \<in> set (map sr_hash (t_sessions d)) then Inl ErrUnique
     else if accountID \<notin> set (account_ids d) then Inl ErrDb
     else Inr ((), d\<lparr>t_sessions := t_sessions d @
        [\<lparr>sr_id = i, sr_account = accountID, sr_hash = h, sr_expires = t + interval sessionTTL,
          sr_revoked = None, sr_agent = userAgent, sr_ip = ip\<rparr>]\<rparr>)))"

definition createSession :: "golib \<Rightarrow> string \<Rightarrow> string \<Rightarrow> string \<Rightarrow> string act" where
  "createSession lib accountID userAgent ip = andThen (newRawToken lib) (\<lambda>(raw, h).
     andThen (insertSession accountID h userAgent ip) (\<lambda>_. ret raw))"

text \<open>The join of a live session with its account.\<close>

definition sessionRows :: "golib \<Rightarrow> string \<Rightarrow> int \<Rightarrow> db \<Rightarrow> (account \<times> string) list" where
  "sessionRows lib raw t d =
     [(\<lparr>ac_id = ar_id a, ac_email = ar_email a, ac_verified = (ar_verified a \<noteq> None)\<rparr>, sr_id s).
        s \<leftarrow> t_sessions d,
        sr_hash s = hashToken lib raw \<and> sr_revoked s = None \<and> sr_expires s > t,
        a \<leftarrow> t_accounts d, ar_id a = sr_account s]"

definition lookupSession :: "golib \<Rightarrow> string \<Rightarrow> (account \<times> string) act" where
  "lookupSession lib raw = query (\<lambda>t d. firstRow (sessionRows lib raw t d))"

definition requireSession :: "golib \<Rightarrow> request \<Rightarrow> (ctx \<Rightarrow> handler) \<Rightarrow> handler" where
  "requireSession lib r nxt rw =
     (let raw = sessionTokenFromRequest r in
      if raw = [] then Pair (unauthorized rw)
      else attempt (lookupSession lib raw) (\<lambda>res. case res of
          Inl _ \<Rightarrow> Pair (unauthorized rw)
        | Inr as \<Rightarrow> nxt (Some as) rw))"

section \<open>Handlers\<close>

definition seedSubscription :: "string \<Rightarrow> unit act" where
  "seedSubscription accountID = stmt (\<lambda>t d.
     if accountID \<in> set (map su_account (t_subscriptions d)) then Inr ((), d)
     else if accountID \<notin> set (account_ids d) then Inl ErrDb
     else Inr ((), d\<lparr>t_subscriptions := t_subscriptions d @
        [\<lparr>su_account = accountID, su_status = SubActive\<rparr>]\<rparr>))"

definition insertAccount :: "string \<Rightarrow> string \<Rightarrow> string act" where
  "insertAccount email h = andThen newUuid (\<lambda>i. stmt (\<lambda>t d.
     if i \<in> set (account_ids d) \<or> email \<in> set (map ar_email (t_accounts d)) then Inl ErrUnique
     else Inr (i, d\<lparr>t_accounts := t_accounts d @
        [\<lparr>ar_id = i, ar_email = email, ar_password = Some h, ar_verified = None\<rparr>]\<rparr>)))"

definition insertVerify :: "string \<Rightarrow> string \<Rightarrow> unit act" where
  "insertVerify accountID h = andThen newUuid (\<lambda>i. stmt (\<lambda>t d.
     case tokenInsert i accountID h (t + interval verifyTTL) d (t_verify d) of
       Inl e \<Rightarrow> Inl e | Inr rows \<Rightarrow> Inr ((), d\<lparr>t_verify := rows\<rparr>)))"

definition insertReset :: "string \<Rightarrow> string \<Rightarrow> unit act" where
  "insertReset accountID h = andThen newUuid (\<lambda>i. stmt (\<lambda>t d.
     case tokenInsert i accountID h (t + interval resetTTL) d (t_reset d) of
       Inl e \<Rightarrow> Inl e | Inr rows \<Rightarrow> Inr ((), d\<lparr>t_reset := rows\<rparr>)))"

definition blank_line :: string where "blank_line = [newline, newline]"

definition verify_body :: "string \<Rightarrow> string" where
  "verify_body lnk = ''Someone signed up for anywhere-file with this address. Confirm it here:''
     @ blank_line @ lnk @ blank_line @
     ''The link works once and stops working after a day. If this was not you, ignore it.''"

definition reset_body :: "string \<Rightarrow> string" where
  "reset_body lnk = ''Someone asked to reset the anywhere-file password for this address. Set a new one here:''
     @ blank_line @ lnk @ blank_line @
     ''The link works once and stops working after an hour. If this was not you, ignore it.''"

definition signup ::
  "golib \<Rightarrow> (string \<Rightarrow> string) \<Rightarrow> mailer \<Rightarrow> request \<Rightarrow> (string \<times> string \<times> string) option \<Rightarrow> handler" where
  "signup lib getenv m r inp rw = (case inp of None \<Rightarrow> Pair (badBody rw)
   | Some (inEmail, inPassword, inCode) \<Rightarrow>
     let email = normalizeEmail lib inEmail in
     if \<not> validEmail lib email then Pair (writeAuthError 400 ''invalid email'' rw)
     else if length inPassword < minPasswordLen then Pair (writeAuthError 400 ''password too short'' rw)
     else attempt (hashPassword lib inPassword) (\<lambda>res. case res of Inl _ \<Rightarrow> Pair (tryAgain rw)
     | Inr h \<Rightarrow> attempt (insertAccount email h) (\<lambda>res. case res of
         Inl e \<Rightarrow> if e = ErrUnique then Pair (writeJSON 200 ok_body rw) else Pair (tryAgain rw)
     | Inr accountID \<Rightarrow> attempt (seedSubscription accountID) (\<lambda>res. case res of Inl _ \<Rightarrow> Pair (tryAgain rw)
     | Inr _ \<Rightarrow> attempt (newRawToken lib) (\<lambda>res. case res of Inl _ \<Rightarrow> Pair (tryAgain rw)
     | Inr rt \<Rightarrow> attempt (insertVerify accountID (snd rt)) (\<lambda>res. case res of Inl _ \<Rightarrow> Pair (tryAgain rw)
     | Inr _ \<Rightarrow> (\<lambda>w. (writeJSON 200 ok_body rw,
         mail_send m email ''Confirm your address'' (verify_body
           (linkBase getenv r @ ''/verify?token='' @ queryEscape (fst rt) @ approvalCode inCode)) w))))))))"

definition signin ::
  "golib \<Rightarrow> (string \<Rightarrow> string) \<Rightarrow> request \<Rightarrow> (string \<times> string) option \<Rightarrow> handler" where
  "signin lib getenv r inp rw = (case inp of None \<Rightarrow> Pair (badBody rw)
   | Some (inEmail, inPassword) \<Rightarrow>
     let email = normalizeEmail lib inEmail;
         refused = writeAuthError 401 ''invalid email or password'' rw in
     attempt (query (\<lambda>t d. firstRow (filter (\<lambda>a. ar_email a = email) (t_accounts d)))) (\<lambda>res. case res of
       Inl _ \<Rightarrow> attempt (hashPassword lib inPassword) (\<lambda>_. Pair refused)
     | Inr acct \<Rightarrow> (case ar_password acct of None \<Rightarrow> Pair refused
       | Some stored \<Rightarrow>
           if \<not> checkPassword lib inPassword stored then Pair refused
           else attempt (createSession lib (ar_id acct) (header_get (rq_headers r) ''User-Agent'') (clientIP r))
             (\<lambda>res. case res of Inl _ \<Rightarrow> Pair (tryAgain rw)
             | Inr raw \<Rightarrow> Pair (writeJSON 200 (JObj [(''ok'', JBool True), (''token'', JStr raw)])
                 (setSessionCookie getenv raw rw))))))"

definition revokeSession :: "string \<Rightarrow> unit act" where
  "revokeSession i = exec (\<lambda>t d. d\<lparr>t_sessions :=
     updateWhere (\<lambda>s. sr_id s = i) (\<lambda>s. s\<lparr>sr_revoked := Some t\<rparr>) (t_sessions d)\<rparr>)"

definition signout :: "(string \<Rightarrow> string) \<Rightarrow> ctx \<Rightarrow> handler" where
  "signout getenv ctx rw = (case ctx of None \<Rightarrow> Pair (unauthorized rw)
   | Some (_, sessionID) \<Rightarrow>
     attempt (revokeSession sessionID) (\<lambda>_. Pair (writeJSON 200 ok_body (clearSessionCookie getenv rw))))"

definition invalidLink :: "response \<Rightarrow> response" where
  "invalidLink rw = writeAuthError 400 ''invalid or expired link'' rw"

definition verifyTx :: "string \<Rightarrow> string \<Rightarrow> unit act" where
  "verifyTx tokenID accountID = inTx (andThen
     (exec (\<lambda>t d. d\<lparr>t_verify := updateWhere (\<lambda>k. tk_id k = tokenID) (\<lambda>k. k\<lparr>tk_used := Some t\<rparr>) (t_verify d)\<rparr>))
     (\<lambda>_. exec (\<lambda>t d. d\<lparr>t_accounts :=
        updateWhere (\<lambda>a. ar_id a = accountID) (\<lambda>a. a\<lparr>ar_verified := Some t\<rparr>) (t_accounts d)\<rparr>)))"

text \<open>\<open>decodeBody\<close> has already answered when the body does not decode; the handler answers again.\<close>

definition verifyEmail :: "golib \<Rightarrow> string option \<Rightarrow> handler" where
  "verifyEmail lib inp rw = (case inp of None \<Rightarrow> Pair (invalidLink (badBody rw))
   | Some token \<Rightarrow>
     if token = [] then Pair (invalidLink rw)
     else attempt (query (\<lambda>t d. firstRow (filter (tokenLive (hashToken lib token) t) (t_verify d)))) (\<lambda>res. case res of
       Inl _ \<Rightarrow> Pair (invalidLink rw)
     | Inr k \<Rightarrow> attempt (verifyTx (tk_id k) (tk_account k)) (\<lambda>res. case res of
         Inl _ \<Rightarrow> Pair (tryAgain rw)
       | Inr _ \<Rightarrow> Pair (writeJSON 200 ok_body rw))))"

definition resetRequest ::
  "golib \<Rightarrow> (string \<Rightarrow> string) \<Rightarrow> mailer \<Rightarrow> request \<Rightarrow> (string \<times> string) option \<Rightarrow> handler" where
  "resetRequest lib getenv m r inp rw = (case inp of None \<Rightarrow> Pair (badBody rw)
   | Some (inEmail, inCode) \<Rightarrow>
     let email = normalizeEmail lib inEmail;
         done = Pair (writeJSON 200 ok_body rw) in
     if \<not> validEmail lib email then done
     else attempt (query (\<lambda>t d. firstRow (filter (\<lambda>a. ar_email a = email) (t_accounts d)))) (\<lambda>res. case res of
       Inl _ \<Rightarrow> done
     | Inr acct \<Rightarrow> attempt (newRawToken lib) (\<lambda>res. case res of Inl _ \<Rightarrow> done
     | Inr rt \<Rightarrow> attempt (insertReset (ar_id acct) (snd rt)) (\<lambda>res. case res of Inl _ \<Rightarrow> done
     | Inr _ \<Rightarrow> (\<lambda>w. (writeJSON 200 ok_body rw,
         mail_send m email ''Reset your password'' (reset_body
           (linkBase getenv r @ ''/reset/confirm?token='' @ queryEscape (fst rt) @ approvalCode inCode)) w))))))"

definition resetTx :: "string \<Rightarrow> string \<Rightarrow> string \<Rightarrow> unit act" where
  "resetTx tokenID accountID h = inTx (andThen
     (exec (\<lambda>t d. d\<lparr>t_reset := updateWhere (\<lambda>k. tk_id k = tokenID) (\<lambda>k. k\<lparr>tk_used := Some t\<rparr>) (t_reset d)\<rparr>))
     (\<lambda>_. andThen
       (exec (\<lambda>t d. d\<lparr>t_accounts :=
          updateWhere (\<lambda>a. ar_id a = accountID) (\<lambda>a. a\<lparr>ar_password := Some h\<rparr>) (t_accounts d)\<rparr>))
       (\<lambda>_. exec (\<lambda>t d. d\<lparr>t_sessions :=
          updateWhere (\<lambda>s. sr_account s = accountID \<and> sr_revoked s = None)
            (\<lambda>s. s\<lparr>sr_revoked := Some t\<rparr>) (t_sessions d)\<rparr>))))"

definition resetConfirm :: "golib \<Rightarrow> (string \<times> string) option \<Rightarrow> handler" where
  "resetConfirm lib inp rw = (case inp of None \<Rightarrow> Pair (badBody rw)
   | Some (token, newPassword) \<Rightarrow>
     if token = [] then Pair (invalidLink rw)
     else if length newPassword < minPasswordLen then Pair (writeAuthError 400 ''password too short'' rw)
     else attempt (query (\<lambda>t d. firstRow (filter (tokenLive (hashToken lib token) t) (t_reset d)))) (\<lambda>res. case res of
       Inl _ \<Rightarrow> Pair (invalidLink rw)
     | Inr k \<Rightarrow> attempt (hashPassword lib newPassword) (\<lambda>res. case res of Inl _ \<Rightarrow> Pair (tryAgain rw)
     | Inr h \<Rightarrow> attempt (resetTx (tk_id k) (tk_account k) h) (\<lambda>res. case res of
         Inl _ \<Rightarrow> Pair (tryAgain rw)
       | Inr _ \<Rightarrow> Pair (writeJSON 200 ok_body rw)))))"

definition me :: "ctx \<Rightarrow> handler" where
  "me ctx rw = (case ctx of None \<Rightarrow> Pair (unauthorized rw)
   | Some (a, _) \<Rightarrow> Pair (writeJSON 200
       (JObj [(''id'', JStr (ac_id a)), (''email'', JStr (ac_email a)), (''email_verified'', JBool (ac_verified a))]) rw))"

end
