(* ===== verification/AuthFacts.thy ===== *)
theory AuthFacts
  imports Auth
begin

text \<open>
  What \<open>Auth\<close> guarantees: every handler keeps the database invariant; a password hash is
  accepted for its password; sign-in yields a token that works until it expires, is revoked or
  the password is reset; sign-up and the reset request do not tell who has an account.
\<close>

section \<open>The invariant\<close>

lemma insertSession_inv [keeps_intro]: "keeps (cp_inv lib a) (insertSession acct h ua ip)"
  unfolding insertSession_def
proof (intro keeps_intro keeps_inv_stmt)
  fix i t d x d'
  assume wf: "wf_db lib d" and eq: "(if i \<in> set (map sr_id (t_sessions d)) \<or> h \<in> set (map sr_hash (t_sessions d)) then Inl ErrUnique
     else if acct \<notin> set (account_ids d) then Inl ErrDb
     else Inr ((), d\<lparr>t_sessions := t_sessions d @
        [\<lparr>sr_id = i, sr_account = acct, sr_hash = h, sr_expires = t + interval sessionTTL,
          sr_revoked = None, sr_agent = ua, sr_ip = ip\<rparr>]\<rparr>)) = Inr (x, d')"
  then show "wf_db lib d'"
    using wf_dbD(5-7) [OF wf] by (auto intro!: wf_set_sessions [OF wf] simp: image_subset_iff split: if_splits)
qed (auto split: if_splits)

lemma token_stmt_inv:
  assumes "\<And>d. wf_db lib d \<Longrightarrow> wf_tokens d (get d)"
    and "\<And>d rows. wf_db lib d \<Longrightarrow> wf_tokens d rows \<Longrightarrow> wf_db lib (put rows d)"
    and "\<And>d rows. t_audit (put rows d) = t_audit d"
  shows "keeps (cp_inv lib a) (stmt (\<lambda>t d. case tokenInsert i acct h (e t) d (get d) of
       Inl e \<Rightarrow> Inl e | Inr rows \<Rightarrow> Inr (v t, put rows d)))"
  by (rule keeps_inv_stmt) (auto simp: assms(3) intro: assms(2) wf_tokenInsert assms(1) split: sum.splits)

lemma insertVerify_inv [keeps_intro]: "keeps (cp_inv lib a) (insertVerify acct h)"
  unfolding insertVerify_def
  by (intro keeps_intro token_stmt_inv) (simp_all add: wf_dbD(8) wf_set_tokens)

lemma insertReset_inv [keeps_intro]: "keeps (cp_inv lib a) (insertReset acct h)"
  unfolding insertReset_def
  by (intro keeps_intro token_stmt_inv) (simp_all add: wf_dbD(9) wf_set_tokens)

lemma hashPassword_keeps [keeps_intro]: "keeps P (hashPassword lib p)"
  unfolding hashPassword_def by (intro keeps_intro)

lemma newRawToken_keeps [keeps_intro]: "keeps P (newRawToken lib)"
  unfolding newRawToken_def by (intro keeps_intro)

lemma createSession_inv [keeps_intro]: "keeps (cp_inv lib a) (createSession lib' acct ua ip)"
  unfolding createSession_def by (intro keeps_intro)

lemma lookupSession_keeps [keeps_intro]: "keeps P (lookupSession lib raw)"
  unfolding lookupSession_def by (intro keeps_intro)

lemma requireSession_keeps [keeps_intro]:
  "(\<And>c rw. keeps P (nxt c rw)) \<Longrightarrow> keeps P (requireSession lib r nxt rw)"
  unfolding requireSession_def by (intro keeps_intro)

lemma sub_snoc: "A \<subseteq> set xs \<Longrightarrow> A \<subseteq> set (xs @ [x])"
  by auto

lemma wf_add_account:
  assumes "wf_db lib d" and "i \<notin> set (account_ids d)" and "email \<notin> set (map ar_email (t_accounts d))"
  shows "wf_db lib (d\<lparr>t_accounts := t_accounts d @ [\<lparr>ar_id = i, ar_email = email, ar_password = p, ar_verified = v\<rparr>]\<rparr>)"
proof -
  let ?d = "d\<lparr>t_accounts := t_accounts d @ [\<lparr>ar_id = i, ar_email = email, ar_password = p, ar_verified = v\<rparr>]\<rparr>"
  have ids: "account_ids ?d = account_ids d @ [i]"
    by (simp add: account_ids_def)
  have toks: "wf_tokens ?d rows" if "wf_tokens d rows" for rows
    using that unfolding wf_tokens_def ids by - (elim conjE, intro conjI; (assumption | erule sub_snoc))
  have "wf_accounts ?d"
    using assms toks unfolding wf_db_def wf_accounts_def ids
    by - (elim conjE, intro conjI; (assumption | erule sub_snoc | (simp; blast?)))
  moreover have "wf_codes ?d"
    using assms(1) unfolding wf_db_def wf_codes_def ids
    by - (elim conjE, intro conjI; (assumption | erule sub_snoc | (simp; blast?)))
  moreover have "wf_devices lib ?d"
    using assms(1) unfolding wf_db_def wf_devices_def ids
    by - (elim conjE, intro conjI; (assumption | erule sub_snoc | (simp; blast?)))
  ultimately show ?thesis
    by (simp add: wf_db_def)
qed

lemma insertAccount_inv [keeps_intro]: "keeps (cp_inv lib a) (insertAccount email h)"
  unfolding insertAccount_def
  by (intro keeps_intro keeps_inv_stmt) (auto intro!: wf_add_account split: if_splits)

lemma seedSubscription_inv [keeps_intro]: "keeps (cp_inv lib a) (seedSubscription acct)"
  unfolding seedSubscription_def
proof (intro keeps_inv_stmt)
  fix t d x d'
  assume wf: "wf_db lib d" and "(if acct \<in> set (map su_account (t_subscriptions d)) then Inr ((), d)
     else if acct \<notin> set (account_ids d) then Inl ErrDb
     else Inr ((), d\<lparr>t_subscriptions := t_subscriptions d @
        [\<lparr>su_account = acct, su_status = SubActive\<rparr>]\<rparr>)) = Inr (x, d')"
  then show "wf_db lib d'"
    using wf_dbD(3,4) [OF wf] by (auto intro!: wf_set_subscriptions [OF wf] simp: image_subset_iff split: if_splits)
qed (auto split: if_splits)

lemma wf_touch_sessions:
  "(\<And>r. sr_id (f r) = sr_id r) \<Longrightarrow> (\<And>r. sr_hash (f r) = sr_hash r) \<Longrightarrow>
   (\<And>r. sr_account (f r) = sr_account r) \<Longrightarrow> wf_db lib d \<Longrightarrow>
   wf_db lib (d\<lparr>t_sessions := updateWhere P f (t_sessions d)\<rparr>)"
  by (rule wf_set_sessions) (simp_all add: updateWhere_map wf_dbD(5-7) del: set_map)

lemma revokeSession_inv [keeps_intro]: "keeps (cp_inv lib a) (revokeSession i)"
  unfolding revokeSession_def
  by (rule keeps_inv_exec) (auto intro!: wf_touch_sessions)

lemma wf_touch_account:
  "(\<And>r. ar_id (f r) = ar_id r) \<Longrightarrow> (\<And>r. ar_email (f r) = ar_email r) \<Longrightarrow> wf_db lib d \<Longrightarrow>
   wf_db lib (d\<lparr>t_accounts := updateWhere P f (t_accounts d)\<rparr>)"
  by (rule wf_set_accounts) (simp_all add: updateWhere_map account_ids_def)

lemma verifyTx_inv [keeps_intro]: "keeps (cp_inv lib a) (verifyTx i acct)"
  unfolding verifyTx_def
  by (intro keeps_intro keeps_inv_exec)
    (auto intro!: wf_set_tokens wf_touch_account simp: wf_tokens_updateWhere wf_dbD(8))

lemma resetTx_inv [keeps_intro]: "keeps (cp_inv lib a) (resetTx i acct h)"
  unfolding resetTx_def
  by (intro keeps_intro keeps_inv_exec)
    (auto intro!: wf_set_tokens wf_touch_account wf_touch_sessions simp: wf_tokens_updateWhere wf_dbD(9))

lemma signup_inv: "keeps (cp_inv lib a) (signup lib' getenv m r inp rw)"
  unfolding signup_def by (intro keeps_intro)

lemma signin_inv: "keeps (cp_inv lib a) (signin lib' getenv r inp rw)"
  unfolding signin_def by (intro keeps_intro)

lemma signout_inv: "keeps (cp_inv lib a) (signout getenv ctx rw)"
  unfolding signout_def by (intro keeps_intro)

lemma verifyEmail_inv: "keeps (cp_inv lib a) (verifyEmail lib' inp rw)"
  unfolding verifyEmail_def by (intro keeps_intro)

lemma resetRequest_inv: "keeps (cp_inv lib a) (resetRequest lib' getenv m r inp rw)"
  unfolding resetRequest_def Let_def by (intro keeps_intro)

lemma resetConfirm_inv: "keeps (cp_inv lib a) (resetConfirm lib' inp rw)"
  unfolding resetConfirm_def by (intro keeps_intro)

lemma me_inv: "keeps P (me ctx rw)"
  unfolding me_def by (intro keeps_intro)

section \<open>Passwords\<close>

definition hmac_ok :: "golib \<Rightarrow> bool" where
  "hmac_ok lib \<longleftrightarrow> (\<forall>k m. length (lib_hmac lib k m) = 32)"

lemma length_xorBytes [simp]: "length (xorBytes a b) = min (length a) (length b)"
  by (simp add: xorBytes_def)

lemma length_pbkdf2_loop:
  "hmac_ok lib \<Longrightarrow> length out = 32 \<Longrightarrow> length (pbkdf2_loop lib p n prev out) = 32"
  by (induction n arbitrary: prev out) (simp_all add: Let_def hmac_ok_def)

lemma length_pbkdf2Key [simp]: "hmac_ok lib \<Longrightarrow> length (pbkdf2Key lib p salt n) = hashKeyLen"
  using length_pbkdf2_loop [of lib] by (simp add: pbkdf2Key_def Let_def hashKeyLen_def hmac_ok_def)

definition stored_hash :: "golib \<Rightarrow> string \<Rightarrow> string \<Rightarrow> string" where
  "stored_hash lib password salt = joinWith ''$'' [''pbkdf2-sha256'', itoa hashIterations,
     b64_encode salt, b64_encode (pbkdf2Key lib password salt hashIterations)]"

lemma hashPassword_run:
  "hashPassword lib p w = (case w_rand w of [] \<Rightarrow> (Inl ErrRand, w)
     | salt # bs \<Rightarrow> (Inr (stored_hash lib p salt), w\<lparr>w_rand := bs\<rparr>))"
  by (simp add: hashPassword_def andThen_def readRand_def stored_hash_def Let_def split: list.splits)

lemma dollar_free:
  "CHR ''$'' \<notin> set (itoa n)" "CHR ''$'' \<notin> set (b64_encode s)" "CHR ''$'' \<notin> set ''pbkdf2-sha256''"
proof -
  show "CHR ''$'' \<notin> set (itoa n)"
    using itoa_digits [of "CHR ''$''" n] by (auto simp: is_digit_def byte_def)
  show "CHR ''$'' \<notin> set (b64_encode s)"
    using b64_encode_printable [of "CHR ''$''" s] by (auto simp: byte_def)
qed simp

lemma checkPassword_stored:
  assumes "hmac_ok lib"
  shows "checkPassword lib q (stored_hash lib p salt) \<longleftrightarrow>
    pbkdf2Key lib q salt hashIterations = pbkdf2Key lib p salt hashIterations"
proof -
  have "splitOn (CHR ''$'') (stored_hash lib p salt) = [''pbkdf2-sha256'', itoa hashIterations,
     b64_encode salt, b64_encode (pbkdf2Key lib p salt hashIterations)]"
    unfolding stored_hash_def using dollar_free by (intro splitOn_joinWith) simp_all
  then show ?thesis
    using assms by (simp add: checkPassword_def)
qed

text \<open>
  A stored password hash works.  Whatever salt is drawn, the string \<^const>\<open>hashPassword\<close>
  returns is accepted by \<^const>\<open>checkPassword\<close> for the same password, and for another password
  exactly when both derive the same key from that salt.
\<close>

theorem password_hash_round_trip:
  assumes "hmac_ok lib" and "hashPassword lib p w = (Inr stored, w')"
  shows "checkPassword lib p stored \<and> (\<exists>salt. \<forall>q. checkPassword lib q stored \<longleftrightarrow>
    pbkdf2Key lib q salt hashIterations = pbkdf2Key lib p salt hashIterations)"
  using assms checkPassword_stored [OF assms(1)]
  by (auto simp: hashPassword_run split: list.splits)

definition sample_world :: world where
  "sample_world = \<lparr>w_db = empty_db, w_now = 0, w_faults = [], w_rand = [''salt'', ''token'', ''more''],
     w_uuid = [''u1'', ''u2'', ''u3'', ''u4''], w_outbox = []\<rparr>"

lemma toy_hmac_ok: "hmac_ok toy_lib"
  by (auto simp: hmac_ok_def toy_lib_def min_def)

theorem password_hash_round_trip_witness:
  "checkPassword toy_lib ''hunter2'' (stored_hash toy_lib ''hunter2'' ''salt'')"
  by (rule password_hash_round_trip [OF toy_hmac_ok, where w = sample_world, THEN conjunct1])
    (simp add: hashPassword_run sample_world_def)

section \<open>Sessions\<close>

definition account_of :: "account_row \<Rightarrow> account" where
  "account_of a = \<lparr>ac_id = ar_id a, ac_email = ar_email a, ac_verified = (ar_verified a \<noteq> None)\<rparr>"

definition session_live :: "string \<Rightarrow> int \<Rightarrow> session_row \<Rightarrow> bool" where
  "session_live h t s \<longleftrightarrow> sr_hash s = h \<and> sr_revoked s = None \<and> sr_expires s > t"

lemma sessionRows_alt:
  "sessionRows lib raw t d = concat (map (\<lambda>s. map (\<lambda>a. (account_of a, sr_id s))
     (filter (\<lambda>a. ar_id a = sr_account s) (t_accounts d))) (filter (session_live (hashToken lib raw) t) (t_sessions d)))"
proof -
  have inner: "concat (map (\<lambda>a. if ar_id a = i then [(\<lparr>ac_id = ar_id a, ac_email = ar_email a,
      ac_verified = (ar_verified a \<noteq> None)\<rparr>, j)] else []) as) = map (\<lambda>a. (account_of a, j)) (filter (\<lambda>a. ar_id a = i) as)"
    for i j as
    by (induction as) (simp_all add: account_of_def)
  have outer: "concat (map (\<lambda>s. if P s then f s else []) ss) = concat (map f (filter P ss))" for P f and ss :: "session_row list"
    by (induction ss) simp_all
  show ?thesis
    unfolding sessionRows_def session_live_def inner outer ..
qed

lemma sessionRows_Cons:
  "sessionRows lib raw t d = x # xs \<Longrightarrow> \<exists>s a. s \<in> set (t_sessions d) \<and> a \<in> set (t_accounts d) \<and>
     session_live (hashToken lib raw) t s \<and> ar_id a = sr_account s \<and> x = (account_of a, sr_id s)"
proof -
  assume "sessionRows lib raw t d = x # xs"
  then have "x \<in> set (sessionRows lib raw t d)"
    by simp
  then show ?thesis
    by (auto simp: sessionRows_alt)
qed

lemma sessionRows_empty:
  "(\<And>s. s \<in> set (t_sessions d) \<Longrightarrow> sr_hash s = hashToken lib raw \<Longrightarrow> sr_revoked s \<noteq> None) \<Longrightarrow> sessionRows lib raw t d = []"
  by (force simp: sessionRows_alt session_live_def filter_empty_conv)

lemma filter_unique:
  "distinct (map f xs) \<Longrightarrow> x \<in> set xs \<Longrightarrow> filter (\<lambda>y. f y = f x) xs = [x]"
proof (induction xs)
  case (Cons y ys)
  then show ?case
    by (cases "x = y") (auto simp: filter_empty_conv rev_image_eqI)
qed simp

lemma createSession_run:
  assumes "w_faults w = []" and "w_rand w = buf # bs" and "w_uuid w = i # us"
    and "i \<notin> set (map sr_id (t_sessions (w_db w)))"
    and "hashToken lib (b64url_encode buf) \<notin> set (map sr_hash (t_sessions (w_db w)))"
    and "acct \<in> set (account_ids (w_db w))"
  shows "createSession lib acct ua ip w = (Inr (b64url_encode buf),
    w\<lparr>w_rand := bs, w_uuid := us, w_db := (w_db w)\<lparr>t_sessions := t_sessions (w_db w) @
      [\<lparr>sr_id = i, sr_account = acct, sr_hash = hashToken lib (b64url_encode buf),
        sr_expires = w_now w + sessionTTL, sr_revoked = None, sr_agent = ua, sr_ip = ip\<rparr>]\<rparr>\<rparr>)"
  using assms
  by (simp add: createSession_def newRawToken_def insertSession_def andThen_def readRand_def newUuid_def
      stmt_ok Let_def hashToken_def interval_def sessionTTL_def)

lemma query_first_run:
  "w_faults w = [] \<Longrightarrow> query (\<lambda>t d. firstRow (f t d)) w =
     (case f (w_now w) (w_db w) of [] \<Rightarrow> (Inl ErrNoRows, w) | r # _ \<Rightarrow> (Inr r, w))"
  by (simp add: query_ok firstRow_def split: list.splits)

text \<open>
  Sign-in opens a session.  With the right password, random bytes and a row id that are
  not already taken, and no database fault, \<^const>\<open>signin\<close> answers 200 with the token in the body
  and in the cookie, and from then on that token resolves to the account, at every instant
  before the session expires and at none after.
\<close>

theorem signin_opens_session:
  assumes "w_faults w = []" and "wf_db lib' (w_db w)" and "acct \<in> set (t_accounts (w_db w))"
    and "ar_email acct = normalizeEmail lib email" and "ar_password acct = Some stored"
    and "checkPassword lib password stored" and "w_rand w = buf # bs" and "w_uuid w = i # us"
    and "i \<notin> set (map sr_id (t_sessions (w_db w)))"
    and "hashToken lib (b64url_encode buf) \<notin> set (map sr_hash (t_sessions (w_db w)))"
    and "raw = b64url_encode buf"
  shows "\<exists>w'. signin lib getenv r (Some (email, password)) rw w =
      (writeJSON 200 (JObj [(''ok'', JBool True), (''token'', JStr raw)]) (setSessionCookie getenv raw rw), w') \<and>
    (\<forall>t. sessionRows lib raw t (w_db w') =
       (if t < w_now w + sessionTTL then [(account_of acct, i)] else []))"
proof -
  have dist: "distinct (map ar_email (t_accounts (w_db w)))" "distinct (map ar_id (t_accounts (w_db w)))"
    using wf_dbD(1,2) [OF assms(2)] by (simp_all add: account_ids_def)
  have row: "filter (\<lambda>a. ar_email a = normalizeEmail lib email) (t_accounts (w_db w)) = [acct]"
    using filter_unique [OF dist(1) assms(3)] assms(4) by simp
  have acct: "filter (\<lambda>a. ar_id a = ar_id acct) (t_accounts (w_db w)) = [acct]"
    using filter_unique [OF dist(2) assms(3)] .
  have known: "ar_id acct \<in> set (account_ids (w_db w))"
    using assms(3) by (simp add: account_ids_def)
  have none: "filter (session_live (hashToken lib (b64url_encode buf)) t) (t_sessions (w_db w)) = []" for t
    using assms(10) by (force simp: filter_empty_conv session_live_def)
  show ?thesis
    unfolding signin_def Let_def attempt_def
    using createSession_run [OF assms(1,7-10) known] row acct none assms(5,6,11)
    by (simp add: query_first_run [OF assms(1)] sessionRows_alt session_live_def [abs_def])
qed

text \<open>
  Signing out ends that session and no other.  After a sign-out without a database fault
  the token never resolves again, and every token with another hash resolves exactly as before.
\<close>

theorem signout_ends_session:
  assumes "w_faults w = []" and "wf_db lib' (w_db w)" and "sessionTokenFromRequest r = raw" and "raw \<noteq> []"
    and "sessionRows lib raw (w_now w) (w_db w) \<noteq> []"
    and "requireSession lib r (signout getenv) rw w = (rw', w')"
  shows "(\<forall>t. sessionRows lib raw t (w_db w') = []) \<and>
    (\<forall>raw' t. hashToken lib raw' \<noteq> hashToken lib raw \<longrightarrow>
       sessionRows lib raw' t (w_db w') = sessionRows lib raw' t (w_db w))"
proof -
  obtain x xs where x: "sessionRows lib raw (w_now w) (w_db w) = x # xs"
    using assms(5) by (cases "sessionRows lib raw (w_now w) (w_db w)") auto
  obtain s a where s: "s \<in> set (t_sessions (w_db w))" "sr_hash s = hashToken lib raw" "x = (account_of a, sr_id s)"
    using sessionRows_Cons [OF x] by (auto simp: session_live_def)
  let ?upd = "updateWhere (\<lambda>q. sr_id q = sr_id s) (\<lambda>q. q\<lparr>sr_revoked := Some (w_now w)\<rparr>)"
  have db: "w_db w' = (w_db w)\<lparr>t_sessions := ?upd (t_sessions (w_db w))\<rparr>"
    using assms(3,4,6) x s(3)
    by (auto simp: requireSession_def lookupSession_def query_first_run [OF assms(1)] attempt_def
        signout_def revokeSession_def exec_ok [OF assms(1)])
  note wf = wf_dbD(5,6) [OF assms(2)]
  have same_id: "q = s" if "q \<in> set (t_sessions (w_db w))" "sr_id q = sr_id s" for q
    using wf(1) that s(1) by (auto simp: distinct_map dest: inj_onD)
  have its_hash: "sr_hash q = hashToken lib raw" if "q \<in> set (t_sessions (w_db w))" "sr_id q = sr_id s" for q
    using same_id [OF that] s(2) by simp
  have same_hash: "q = s" if "q \<in> set (t_sessions (w_db w))" "sr_hash q = sr_hash s" for q
    using wf(2) that s(1) by (auto simp: distinct_map dest: inj_onD)
  have revoked: "sr_revoked q \<noteq> None"
    if q: "q \<in> set (?upd (t_sessions (w_db w)))" "sr_hash q = hashToken lib raw" for q
  proof -
    obtain p where p: "p \<in> set (t_sessions (w_db w))"
      "q = (if sr_id p = sr_id s then p\<lparr>sr_revoked := Some (w_now w)\<rparr> else p)"
      using q(1) unfolding in_updateWhere by blast
    then have "sr_hash p = sr_hash s"
      using q(2) s(2) by (auto split: if_splits)
    then have "p = s"
      using same_hash p(1) by blast
    then show ?thesis
      using p(2) by simp
  qed
  have "sessionRows lib raw t (w_db w') = []" for t
    using revoked by (intro sessionRows_empty) (simp add: db)
  moreover have "sessionRows lib raw' t (w_db w') = sessionRows lib raw' t (w_db w)"
    if "hashToken lib raw' \<noteq> hashToken lib raw" for raw' t
  proof -
    have "filter (session_live (hashToken lib raw') t) (?upd ss) = filter (session_live (hashToken lib raw') t) ss"
      if "set ss \<subseteq> set (t_sessions (w_db w))" for ss
      using that its_hash \<open>hashToken lib raw' \<noteq> hashToken lib raw\<close>
      by (induction ss) (auto simp: session_live_def)
    then show ?thesis
      by (simp add: sessionRows_alt db)
  qed
  ultimately show ?thesis
    by blast
qed

section \<open>Resetting a password\<close>

lemma resetTx_triple:
  "triple (\<lambda>d. d = d0) (resetTx i acct h) (\<lambda>_ d. \<exists>t1 t2. d = d0\<lparr>
     t_reset := updateWhere (\<lambda>k. tk_id k = i) (\<lambda>k. k\<lparr>tk_used := Some t1\<rparr>) (t_reset d0),
     t_accounts := updateWhere (\<lambda>a. ar_id a = acct) (\<lambda>a. a\<lparr>ar_password := Some h\<rparr>) (t_accounts d0),
     t_sessions := updateWhere (\<lambda>s. sr_account s = acct \<and> sr_revoked s = None)
       (\<lambda>s. s\<lparr>sr_revoked := Some t2\<rparr>) (t_sessions d0)\<rparr>)"
  unfolding resetTx_def
  by (intro triple_inTx triple_andThen [OF triple_exec_sp] triple_exec)
    (clarsimp, rule exI, rule exI, rule refl)

lemma resetConfirm_ok:
  assumes "resetConfirm lib (Some (token, pw)) rw w = (rw', w')" and "rs_status rw = None"
    and "rs_status rw' = Some 200"
  shows "\<exists>k rest salt t1 t2. filter (tokenLive (hashToken lib token) (w_now w)) (t_reset (w_db w)) = k # rest \<and>
    w_db w' = (w_db w)\<lparr>
     t_reset := updateWhere (\<lambda>q. tk_id q = tk_id k) (\<lambda>k. k\<lparr>tk_used := Some t1\<rparr>) (t_reset (w_db w)),
     t_accounts := updateWhere (\<lambda>a. ar_id a = tk_account k)
       (\<lambda>a. a\<lparr>ar_password := Some (stored_hash lib pw salt)\<rparr>) (t_accounts (w_db w)),
     t_sessions := updateWhere (\<lambda>s. sr_account s = tk_account k \<and> sr_revoked s = None)
       (\<lambda>s. s\<lparr>sr_revoked := Some t2\<rparr>) (t_sessions (w_db w))\<rparr>"
proof -
  let ?f = "\<lambda>t d. filter (tokenLive (hashToken lib token) t) (t_reset d)"
  obtain q w1 where q: "query (\<lambda>t d. firstRow (?f t d)) w = (q, w1)"
    by (cases "query (\<lambda>t d. firstRow (?f t d)) w")
  obtain h w2 where h: "hashPassword lib pw w1 = (h, w2)"
    by (cases "hashPassword lib pw w1")
  have "\<exists>k v. q = Inr k \<and> h = Inr v \<and> resetTx (tk_id k) (tk_account k) v w2 = (Inr (), w')"
    using assms q h
    by (auto simp: resetConfirm_def attempt_def invalidLink_def tryAgain_def
        split: if_splits sum.splits prod.splits)
  then obtain k v where k: "q = Inr k" "h = Inr v" "resetTx (tk_id k) (tk_account k) v w2 = (Inr (), w')"
    by blast
  have first: "\<exists>rest. ?f (w_now w) (w_db w) = k # rest" "w_db w1 = w_db w"
    using query_first_Inr [of ?f w k w1] q k(1) by auto
  obtain salt where salt: "v = stored_hash lib pw salt" "w_db w2 = w_db w"
    using h k(2) first(2) by (auto simp: hashPassword_run split: list.splits)
  show ?thesis
    using tripleD [OF resetTx_triple _ k(3), of "w_db w"] first salt by auto
qed

text \<open>
  A password reset that answers 200 does all it promises, whatever database faults it met:
  it used a live link; afterwards the account has the new password; no session of the account
  resolves any more, whichever token is presented and whenever; and the link is dead.
\<close>

theorem reset_ends_every_session:
  assumes "wf_db lib' (w_db w)" and "hmac_ok lib"
    and "resetConfirm lib (Some (token, pw)) rw w = (rw', w')" and "rs_status rw = None"
    and "rs_status rw' = Some 200"
  shows "\<exists>k \<in> set (t_reset (w_db w)). tokenLive (hashToken lib token) (w_now w) k \<and>
    (\<forall>raw t a s. (a, s) \<in> set (sessionRows lib raw t (w_db w')) \<longrightarrow> ac_id a \<noteq> tk_account k) \<and>
    (\<forall>a \<in> set (t_accounts (w_db w')). ar_id a = tk_account k \<longrightarrow>
       (\<exists>h. ar_password a = Some h \<and> checkPassword lib pw h)) \<and>
    (\<forall>t. filter (tokenLive (hashToken lib token) t) (t_reset (w_db w')) = [])"
proof -
  obtain k rest salt t1 t2 where k: "filter (tokenLive (hashToken lib token) (w_now w)) (t_reset (w_db w)) = k # rest"
    and w': "w_db w' = (w_db w)\<lparr>
     t_reset := updateWhere (\<lambda>q. tk_id q = tk_id k) (\<lambda>k. k\<lparr>tk_used := Some t1\<rparr>) (t_reset (w_db w)),
     t_accounts := updateWhere (\<lambda>a. ar_id a = tk_account k)
       (\<lambda>a. a\<lparr>ar_password := Some (stored_hash lib pw salt)\<rparr>) (t_accounts (w_db w)),
     t_sessions := updateWhere (\<lambda>s. sr_account s = tk_account k \<and> sr_revoked s = None)
       (\<lambda>s. s\<lparr>sr_revoked := Some t2\<rparr>) (t_sessions (w_db w))\<rparr>"
    using resetConfirm_ok [OF assms(3-5)] by blast
  have kin: "k \<in> set (t_reset (w_db w))" "tokenLive (hashToken lib token) (w_now w) k"
    using arg_cong [OF k, of set] by auto
  have one: "q = k" if "q \<in> set (t_reset (w_db w))" "tk_hash q = tk_hash k" for q
    using wf_dbD(9) [OF assms(1)] that kin(1) by (auto simp: wf_tokens_def distinct_map dest: inj_onD)
  have sess: "sr_revoked s \<noteq> None \<or> sr_account s \<noteq> tk_account k" if "s \<in> set (t_sessions (w_db w'))" for s
    using that unfolding w' by simp (erule updateWhere_all; auto)
  have acct: "(\<exists>h. ar_password a = Some h \<and> checkPassword lib pw h) \<or> ar_id a \<noteq> tk_account k"
    if "a \<in> set (t_accounts (w_db w'))" for a
    using that unfolding w' by simp (erule updateWhere_all; auto simp: checkPassword_stored [OF assms(2)])
  have dead: "tk_used q \<noteq> None \<or> tk_hash q \<noteq> hashToken lib token" if "q \<in> set (t_reset (w_db w'))" for q
    using that one kin(2) unfolding w' by simp (erule updateWhere_all; auto simp: tokenLive_def)
  show ?thesis
  proof (intro bexI [OF _ kin(1)] conjI kin(2) allI impI ballI)
    fix raw t a s
    assume "(a, s) \<in> set (sessionRows lib raw t (w_db w'))"
    then show "ac_id a \<noteq> tk_account k"
      using sess by (fastforce simp: sessionRows_alt session_live_def account_of_def)
  qed (use acct dead in \<open>auto simp: filter_empty_conv tokenLive_def\<close>)
qed

section \<open>What a caller learns\<close>

text \<open>
  The reset request is no census.  For every address, every state of the database, every
  fault and every random source, a reset request with a readable body gets one and the same answer.
\<close>

theorem reset_request_reveals_nothing:
  "fst (resetRequest lib getenv m r (Some (email, code)) rw w) = writeJSON 200 ok_body rw"
  by (simp add: resetRequest_def attempt_def Let_def split: prod.splits sum.splits)

lemma signup_valid:
  assumes "w_faults w = []" and "w_rand w = salt # buf # bs" and "w_uuid w = i # j # us"
    and "i \<notin> set (account_ids (w_db w))" and "i \<notin> set (map su_account (t_subscriptions (w_db w)))"
    and "j \<notin> set (map tk_id (t_verify (w_db w)))"
    and "hashToken lib (b64url_encode buf) \<notin> set (map tk_hash (t_verify (w_db w)))"
    and "validEmail lib (normalizeEmail lib email)" and "minPasswordLen \<le> length pw"
    and "normalizeEmail lib email \<notin> set (map ar_email (t_accounts (w_db w)))"
  shows "\<exists>w'. signup lib getenv m r (Some (email, pw, code)) rw w = (writeJSON 200 ok_body rw, w') \<and>
    w_db w' = (w_db w)\<lparr>
      t_accounts := t_accounts (w_db w) @ [\<lparr>ar_id = i, ar_email = normalizeEmail lib email,
        ar_password = Some (stored_hash lib pw salt), ar_verified = None\<rparr>],
      t_subscriptions := t_subscriptions (w_db w) @ [\<lparr>su_account = i, su_status = SubActive\<rparr>],
      t_verify := t_verify (w_db w) @ [\<lparr>tk_id = j, tk_account = i, tk_hash = hashToken lib (b64url_encode buf),
        tk_expires = w_now w + verifyTTL, tk_used = None\<rparr>]\<rparr>"
  using assms
  by (simp add: signup_def Let_def attempt_def hashPassword_run insertAccount_def andThen_def newUuid_def
      stmt_ok seedSubscription_def newRawToken_def readRand_def insertVerify_def tokenInsert_def
      account_ids_def hashToken_def interval_def verifyTTL_def)

text \<open>
  Sign-up is no census either.  For a valid address and password, with working storage and
  random bytes and row ids that are not already taken, the answer is the same whether the address
  is new or already has an account; and in the second case the accounts are left as they were.
\<close>

theorem signup_reveals_nothing:
  assumes "w_faults w = []" and "w_rand w = salt # buf # bs" and "w_uuid w = i # j # us"
    and "i \<notin> set (account_ids (w_db w))" and "i \<notin> set (map su_account (t_subscriptions (w_db w)))"
    and "j \<notin> set (map tk_id (t_verify (w_db w)))"
    and "hashToken lib (b64url_encode buf) \<notin> set (map tk_hash (t_verify (w_db w)))"
    and "validEmail lib (normalizeEmail lib email)" and "minPasswordLen \<le> length pw"
  shows "fst (signup lib getenv m r (Some (email, pw, code)) rw w) = writeJSON 200 ok_body rw \<and>
    (normalizeEmail lib email \<in> set (map ar_email (t_accounts (w_db w))) \<longrightarrow>
       w_db (snd (signup lib getenv m r (Some (email, pw, code)) rw w)) = w_db w)"
proof (cases "normalizeEmail lib email \<in> set (map ar_email (t_accounts (w_db w)))")
  case True
  then have "signup lib getenv m r (Some (email, pw, code)) rw w =
      (writeJSON 200 ok_body rw, w\<lparr>w_rand := buf # bs, w_uuid := j # us\<rparr>)"
    using assms by (simp add: signup_def Let_def attempt_def hashPassword_run insertAccount_def andThen_def
        newUuid_def stmt_ok)
  then show ?thesis
    by simp
next
  case False
  then show ?thesis
    using signup_valid [OF assms(1-9), of getenv m r code rw] by auto
qed

section \<open>Single use of the mailed links\<close>

text \<open>
  C40.  The update that spends a reset link does not ask whether the link is still unspent, so two
  requests that both found it live before either wrote both succeed; the later password stays.
\<close>

theorem reset_link_race:
  assumes "w_faults w = []" and "w_faults w1 = []"
    and "filter (tokenLive (hashToken lib token) (w_now w)) (t_reset (w_db w)) = k # rest"
    and "resetTx (tk_id k) (tk_account k) h1 w = (res1, w1)"
    and "resetTx (tk_id k) (tk_account k) h2 w1 = (res2, w2)"
  shows "res1 = Inr () \<and> res2 = Inr () \<and>
    (\<forall>a \<in> set (t_accounts (w_db w2)). ar_id a = tk_account k \<longrightarrow> ar_password a = Some h2)"
proof -
  have run: "\<exists>w'. resetTx i acct h w = (Inr (), w') \<and>
      t_accounts (w_db w') = updateWhere (\<lambda>a. ar_id a = acct) (\<lambda>a. a\<lparr>ar_password := Some h\<rparr>) (t_accounts (w_db w))"
    if "w_faults w = []" for w i acct h
    using that by (simp add: resetTx_def inTx_def andThen_def exec_ok stmt_ok)
  show ?thesis
    using run [OF assms(1), of "tk_id k" "tk_account k" h1] run [OF assms(2), of "tk_id k" "tk_account k" h2] assms(4,5)
    by (auto simp: in_updateWhere)
qed

section \<open>Concrete runs\<close>

definition demo_account :: account_row where
  "demo_account = \<lparr>ar_id = ''acct'', ar_email = ''a@b.c'',
     ar_password = Some (stored_hash toy_lib ''correct horse battery'' ''salt''), ar_verified = None\<rparr>"

definition demo_db :: db where
  "demo_db = empty_db\<lparr>t_accounts := [demo_account],
     t_sessions := [\<lparr>sr_id = ''sess'', sr_account = ''acct'', sr_hash = hashToken toy_lib ''tok'',
       sr_expires = hour, sr_revoked = None, sr_agent = [], sr_ip = []\<rparr>],
     t_reset := [\<lparr>tk_id = ''rst'', tk_account = ''acct'', tk_hash = hashToken toy_lib ''lnk'',
       tk_expires = hour, tk_used = None\<rparr>]\<rparr>"

definition demo_world :: world where
  "demo_world = sample_world\<lparr>w_db := demo_db\<rparr>"

definition demo_request :: request where
  "demo_request = \<lparr>rq_method = ''POST'', rq_escaped = [], rq_path = [], rq_headers = [],
     rq_cookies = [(sessionCookie, ''tok'')], rq_query = [], rq_remote = ''10.0.0.1:99'',
     rq_host = ''h'', rq_tls = True\<rparr>"

lemmas demo_defs = demo_world_def sample_world_def demo_db_def demo_account_def empty_db_def

lemma demo_wf: "wf_db lib (w_db demo_world)"
  by (simp add: wf_defs demo_defs)

lemma demo_email: "normalizeEmail toy_lib ''a@b.c'' = ''a@b.c''"
proof -
  have "trimSpace ''a@b.c'' = ''a@b.c''"
    by (rule trimSpace_clean) (simp add: byte_def)
  then show ?thesis
    by (simp add: normalizeEmail_def toLower_def is_ascii_def lower_char_def byte_def)
qed

lemma demo_hash_free: "hashToken toy_lib (b64url_encode ''salt'') \<noteq> hashToken toy_lib ''tok''"
  by code_simp

theorem signin_opens_session_witness:
  "fst (signin toy_lib (\<lambda>_. []) demo_request (Some (''a@b.c'', ''correct horse battery'')) fresh_response demo_world) =
     writeJSON 200 (JObj [(''ok'', JBool True), (''token'', JStr (b64url_encode ''salt''))])
       (setSessionCookie (\<lambda>_. []) (b64url_encode ''salt'') fresh_response)"
proof -
  have "\<exists>w'. signin toy_lib (\<lambda>_. []) demo_request (Some (''a@b.c'', ''correct horse battery'')) fresh_response demo_world =
      (writeJSON 200 (JObj [(''ok'', JBool True), (''token'', JStr (b64url_encode ''salt''))])
        (setSessionCookie (\<lambda>_. []) (b64url_encode ''salt'') fresh_response), w') \<and>
    (\<forall>t. sessionRows toy_lib (b64url_encode ''salt'') t (w_db w') =
       (if t < w_now demo_world + sessionTTL then [(account_of demo_account, ''u1'')] else []))"
    by (rule signin_opens_session [OF _ demo_wf, where stored = "stored_hash toy_lib ''correct horse battery'' ''salt''"
          and bs = "[''token'', ''more'']" and us = "[''u2'', ''u3'', ''u4'']"])
      (simp_all add: demo_email demo_hash_free checkPassword_stored [OF toy_hmac_ok], simp_all add: demo_defs demo_hash_free)
  then show ?thesis
    by auto
qed

theorem signout_ends_session_witness:
  "sessionRows toy_lib ''tok'' 0 (w_db (snd (requireSession toy_lib demo_request (signout (\<lambda>_. [])) fresh_response demo_world))) = []"
proof -
  have "sessionRows toy_lib ''tok'' (w_now demo_world) (w_db demo_world) \<noteq> []"
    by (simp add: sessionRows_alt demo_defs session_live_def)
  then show ?thesis
    using signout_ends_session [OF _ demo_wf, of demo_request "''tok''" toy_lib "\<lambda>_. []" fresh_response]
    by (auto simp: demo_request_def sessionTokenFromRequest_def demo_defs prod_eq_iff)
qed

lemma demo_reset:
  "\<exists>w'. resetConfirm toy_lib (Some (''lnk'', ''a longer password'')) fresh_response demo_world =
     (writeJSON 200 ok_body fresh_response, w')"
  by (simp add: resetConfirm_def attempt_def minPasswordLen_def query_ok firstRow_def tokenLive_def hashPassword_run
      resetTx_def inTx_def andThen_def exec_ok stmt_ok demo_defs)

theorem reset_ends_every_session_witness:
  "\<exists>k \<in> set (t_reset (w_db demo_world)). tokenLive (hashToken toy_lib ''lnk'') (w_now demo_world) k"
proof -
  obtain w' where "resetConfirm toy_lib (Some (''lnk'', ''a longer password'')) fresh_response demo_world =
     (writeJSON 200 ok_body fresh_response, w')"
    using demo_reset by blast
  from reset_ends_every_session [OF demo_wf toy_hmac_ok this] show ?thesis
    by auto
qed

lemma demo_valid_email: "validEmail toy_lib ''a@b.c''"
  using demo_email
  by (simp add: validEmail_def notPrintable_def byte_def cutAt_def stringContains_def sublist_code)

theorem signup_reveals_nothing_witness:
  "fst (signup toy_lib (\<lambda>_. []) (newMailer (\<lambda>_. [])) demo_request (Some (''a@b.c'', ''correct horse battery'', [])) fresh_response sample_world)
     = writeJSON 200 ok_body fresh_response"
  using signup_reveals_nothing [of sample_world "''salt''" "''token''" "[''more'']" "''u1''" "''u2''" "[''u3'', ''u4'']"
      toy_lib "''a@b.c''" "''correct horse battery''"] demo_email demo_valid_email
  by (simp add: sample_world_def empty_db_def account_ids_def minPasswordLen_def)

theorem reset_link_race_witness:
  "fst (resetTx ''rst'' ''acct'' ''h1'' demo_world) = Inr () \<and>
   fst (resetTx ''rst'' ''acct'' ''h2'' (snd (resetTx ''rst'' ''acct'' ''h1'' demo_world))) = Inr ()"
proof -
  let ?k = "\<lparr>tk_id = ''rst'', tk_account = ''acct'', tk_hash = hashToken toy_lib ''lnk'', tk_expires = hour, tk_used = None\<rparr>"
  have live: "filter (tokenLive (hashToken toy_lib ''lnk'') (w_now demo_world)) (t_reset (w_db demo_world)) = ?k # []"
    by (simp add: demo_defs tokenLive_def)
  have ok: "w_faults demo_world = []" "w_faults (snd (resetTx ''rst'' ''acct'' ''h1'' demo_world)) = []"
    by (simp_all add: demo_defs resetTx_def inTx_def andThen_def exec_ok stmt_ok)
  show ?thesis
    using reset_link_race [OF ok live, of "''h1''" "fst (resetTx ''rst'' ''acct'' ''h1'' demo_world)" "''h2''"
      "fst (resetTx ''rst'' ''acct'' ''h2'' (snd (resetTx ''rst'' ''acct'' ''h1'' demo_world)))"
      "snd (resetTx ''rst'' ''acct'' ''h2'' (snd (resetTx ''rst'' ''acct'' ''h1'' demo_world)))"] by simp
qed

end
