(* ===== verification/AgentAuth.thy ===== *)
theory AgentAuth
  imports Schema
begin

text \<open>
  \<^verbatim>\<open>hosted/control-plane/agent.go\<close>: a signed agent request is verified and its nonce claimed in
  \<^verbatim>\<open>device_nonces\<close>.  The signature is checked against the process clock \<open>t\<close>, the nonce against
  the database's clock, which is the world's.  The lemmas follow one nonce through any sequence
  of calls.
\<close>

definition agentNonceTTL :: int where
  "agentNonceTTL = 10 * minute"

definition purgeNonces :: "int \<Rightarrow> db \<Rightarrow> db" where
  "purgeNonces t d = d\<lparr>t_nonces := filter (\<lambda>n. \<not> nn_expires n \<le> t) (t_nonces d)\<rparr>"

definition claimNonce :: "string \<Rightarrow> string \<Rightarrow> int \<Rightarrow> db \<Rightarrow> err + bool \<times> db" where
  "claimNonce nonce key t d =
     (if nonce \<in> set (map nn_nonce (t_nonces d)) then Inl ErrNoRows
      else Inr (True, d\<lparr>t_nonces := t_nonces d @
        [\<lparr>nn_nonce = nonce, nn_key = key, nn_expires = t + interval agentNonceTTL\<rparr>]\<rparr>))"

definition verifyAgentSignature :: "golib \<Rightarrow> int \<Rightarrow> request \<Rightarrow> string \<Rightarrow> string act" where
  "verifyAgentSignature lib t r body =
     (case Verify lib t r body of
        Inl _ \<Rightarrow> fail ErrSignature
      | Inr (deviceKey, nonce) \<Rightarrow>
          attempt (exec purgeNonces) (\<lambda>_.
          attempt (stmt (claimNonce nonce deviceKey)) (\<lambda>c. case c of
             Inl _ \<Rightarrow> fail ErrSignature
           | Inr claimed \<Rightarrow> if claimed then ret deviceKey else fail ErrSignature)))"

section \<open>Facts\<close>

lemma verifyAgentSignature_inv [keeps_intro]: "keeps (cp_inv lib a) (verifyAgentSignature lib' t r body)"
proof -
  have purge: "keeps (cp_inv lib a) (exec purgeNonces)"
    by (rule keeps_inv_exec) (auto simp: purgeNonces_def intro: wf_set_nonces distinct_map_filter wf_dbD(25))
  have claim: "keeps (cp_inv lib a) (stmt (claimNonce nonce key))" for nonce key
    by (rule keeps_inv_stmt) (auto simp: claimNonce_def dest: wf_dbD(25) intro!: wf_set_nonces split: if_splits)
  show ?thesis
    unfolding verifyAgentSignature_def
    by (intro keeps_intro purge claim)
qed

text \<open>A call touches no table but the nonces.\<close>

lemma verifyAgentSignature_frame:
  assumes "\<And>d rows. P (d\<lparr>t_nonces := rows\<rparr>) = P d"
  shows "keeps P (verifyAgentSignature lib t r body)"
proof -
  have purge: "keeps P (exec purgeNonces)"
    by (rule keeps_exec) (simp add: purgeNonces_def assms)
  have claim: "keeps P (stmt (claimNonce nonce key))" for nonce key
    by (rule keeps_stmt) (auto simp: claimNonce_def assms split: if_splits)
  show ?thesis
    unfolding verifyAgentSignature_def
    by (intro keeps_intro purge claim)
qed

lemma stmt_now [simp]: "w_now (snd (stmt f w)) = w_now w"
  by (auto simp: stmt_def Let_def split: sum.splits)

lemma exec_now [simp]: "w_now (snd (exec f w)) = w_now w"
  by (simp add: exec_def)

lemma verifyAgentSignature_Inr:
  assumes "verifyAgentSignature lib t r body w = (Inr key, w')"
  shows "\<exists>nonce d. Verify lib t r body = Inr (key, nonce) \<and>
     (d = w_db w \<or> d = purgeNonces (w_now w) (w_db w)) \<and>
     nonce \<notin> set (map nn_nonce (t_nonces d)) \<and>
     w_db w' = d\<lparr>t_nonces := t_nonces d @ [\<lparr>nn_nonce = nonce, nn_key = key,
       nn_expires = w_now w + interval agentNonceTTL\<rparr>]\<rparr>"
proof -
  obtain k nonce where v: "Verify lib t r body = Inr (k, nonce)"
    using assms by (cases "Verify lib t r body") (auto simp: verifyAgentSignature_def)
  obtain p w1 where p: "exec purgeNonces w = (p, w1)"
    by (cases "exec purgeNonces w")
  have d: "w_db w1 = w_db w \<or> w_db w1 = purgeNonces (w_now w) (w_db w)" and now: "w_now w1 = w_now w"
    using p exec_now [of purgeNonces w] by (auto simp: exec_def stmt_def Let_def split: if_splits)
  obtain c w2 where c: "stmt (claimNonce nonce k) w1 = (c, w2)"
    by (cases "stmt (claimNonce nonce k) w1")
  have "c = Inr True" "k = key" "w' = w2"
    using assms v p c by (auto simp: verifyAgentSignature_def attempt_def split: sum.splits if_splits)
  with c have "claimNonce nonce key (w_now w1) (w_db w1) = Inr (True, w_db w2)"
    by (auto simp: stmt_Inr)
  with v d now \<open>k = key\<close> \<open>w' = w2\<close> show ?thesis
    by (intro exI [of _ nonce] exI [of _ "w_db w1"]) (auto simp: claimNonce_def split: if_splits)
qed

text \<open>The row of a claimed nonce stays while its lifetime lasts, and blocks the nonce.\<close>

definition claimed_until :: "string \<Rightarrow> int \<Rightarrow> db \<Rightarrow> bool" where
  "claimed_until nonce e d \<longleftrightarrow> (\<exists>n \<in> set (t_nonces d). nn_nonce n = nonce \<and> nn_expires n = e)"

lemma claimed_purge: "t < e \<Longrightarrow> claimed_until nonce e d \<Longrightarrow> claimed_until nonce e (purgeNonces t d)"
  by (force simp: claimed_until_def purgeNonces_def)

lemma claimed_stays:
  assumes "claimed_until nonce e (w_db w)" and "w_now w < e"
    and "verifyAgentSignature lib t r body w = (res, w')"
  shows "claimed_until nonce e (w_db w')"
proof -
  have purge: "claimed_until nonce e (w_db (snd (exec purgeNonces w)))"
    using assms(1) claimed_purge [OF assms(2,1)] by (auto simp: exec_def stmt_def Let_def)
  have claim: "keeps (claimed_until nonce e) (stmt (claimNonce n k))" for n k
    by (rule keeps_stmt) (auto simp: claimNonce_def claimed_until_def split: if_splits)
  have rest: "keeps (claimed_until nonce e) (attempt (stmt (claimNonce n k)) (\<lambda>c. case c of
             Inl _ \<Rightarrow> fail ErrSignature
           | Inr claimed \<Rightarrow> if claimed then ret k else fail ErrSignature))" for n and k :: string
    by (intro keeps_intro claim)
  show ?thesis
    using assms(1,3) purge rest
    by (auto simp: verifyAgentSignature_def attempt_def [of "exec purgeNonces"] keeps_def
        split: sum.splits prod.splits) (metis snd_conv)
qed

lemma claimed_blocks:
  assumes "claimed_until nonce e (w_db w)" and "w_now w < e"
    and "verifyAgentSignature lib t r body w = (Inr key, w')"
  shows "header_get (rq_headers r) HeaderNonce \<noteq> nonce"
proof -
  obtain n d where n: "Verify lib t r body = Inr (key, n)"
    and d: "d = w_db w \<or> d = purgeNonces (w_now w) (w_db w)" "n \<notin> set (map nn_nonce (t_nonces d))"
    using verifyAgentSignature_Inr [OF assms(3)] by blast
  have "claimed_until nonce e d"
    using assms(1,2) d(1) claimed_purge by blast
  then have "n \<noteq> nonce"
    using d(2) by (auto simp: claimed_until_def)
  then show ?thesis
    using Verify_InrD(2) [OF n] by simp
qed

section \<open>Sequences of signed requests\<close>

record signed_call =
  sc_clock :: int
  sc_now :: int
  sc_faults :: "bool list"
  sc_request :: request
  sc_body :: string

definition call_world :: "db \<Rightarrow> signed_call \<Rightarrow> world" where
  "call_world d c = \<lparr>w_db = d, w_now = sc_now c, w_faults = sc_faults c, w_rand = [], w_uuid = [],
     w_outbox = []\<rparr>"

definition signedStep :: "golib \<Rightarrow> db \<Rightarrow> signed_call \<Rightarrow> (err + string) \<times> db" where
  "signedStep lib d c =
     (case verifyAgentSignature lib (sc_clock c) (sc_request c) (sc_body c) (call_world d c) of
        (res, w') \<Rightarrow> (res, w_db w'))"

fun runSigned :: "golib \<Rightarrow> db \<Rightarrow> signed_call list \<Rightarrow> (err + string) list" where
  "runSigned lib d [] = []"
| "runSigned lib d (c # cs) = (case signedStep lib d c of (res, d') \<Rightarrow> res # runSigned lib d' cs)"

definition sc_nonce :: "signed_call \<Rightarrow> string" where
  "sc_nonce c = header_get (rq_headers (sc_request c)) HeaderNonce"

fun clock_rises :: "int \<Rightarrow> signed_call list \<Rightarrow> bool" where
  "clock_rises t [] = True"
| "clock_rises t (c # cs) = (t \<le> sc_now c \<and> clock_rises (sc_now c) cs)"

lemma length_runSigned [simp]: "length (runSigned lib d cs) = length cs"
  by (induction cs arbitrary: d) (auto split: prod.splits)

lemma signedStep_claims:
  assumes "signedStep lib d c = (Inr key, d')"
  shows "claimed_until (sc_nonce c) (sc_now c + agentNonceTTL) d'"
proof -
  obtain w' where w': "verifyAgentSignature lib (sc_clock c) (sc_request c) (sc_body c) (call_world d c) = (Inr key, w')"
    "d' = w_db w'"
    using assms by (auto simp: signedStep_def split: prod.splits)
  obtain nonce d0 where v: "Verify lib (sc_clock c) (sc_request c) (sc_body c) = Inr (key, nonce)"
    and w: "w_db w' = d0\<lparr>t_nonces := t_nonces d0 @ [\<lparr>nn_nonce = nonce, nn_key = key,
       nn_expires = sc_now c + interval agentNonceTTL\<rparr>]\<rparr>"
    using verifyAgentSignature_Inr [OF w'(1)] by (auto simp: call_world_def)
  show ?thesis
    unfolding w'(2) w claimed_until_def sc_nonce_def Verify_InrD(2) [OF v, symmetric]
    by (simp add: interval_def agentNonceTTL_def)
qed

lemma clock_rises_le: "clock_rises t cs \<Longrightarrow> j < length cs \<Longrightarrow> t \<le> sc_now (cs ! j)"
proof (induction cs arbitrary: t j)
  case (Cons c cs)
  then show ?case
    by (cases j) fastforce+
qed simp

lemma claimed_blocks_run:
  "claimed_until nonce e d \<Longrightarrow> clock_rises t cs \<Longrightarrow> j < length cs \<Longrightarrow> sc_nonce (cs ! j) = nonce \<Longrightarrow>
   runSigned lib d cs ! j = Inr key \<Longrightarrow> e \<le> sc_now (cs ! j)"
proof (induction cs arbitrary: d t j)
  case (Cons c cs)
  show ?case
  proof (cases "e \<le> sc_now c")
    case True
    have "sc_now c \<le> sc_now ((c # cs) ! j)"
      using Cons.prems clock_rises_le [of "sc_now c" "c # cs" j] by simp
    with True show ?thesis
      by linarith
  next
    case False
    obtain res w' where call: "verifyAgentSignature lib (sc_clock c) (sc_request c) (sc_body c)
        (call_world d c) = (res, w')"
      by (cases "verifyAgentSignature lib (sc_clock c) (sc_request c) (sc_body c) (call_world d c)")
    have cl: "claimed_until nonce e (w_db (call_world d c))" "w_now (call_world d c) < e"
      using Cons.prems(1) False by (simp_all add: call_world_def)
    show ?thesis
    proof (cases j)
      case 0
      with Cons.prems(4,5) call have "res = Inr key" "sc_nonce c = nonce"
        by (simp_all add: signedStep_def)
      then show ?thesis
        using claimed_blocks [OF cl] call by (auto simp: sc_nonce_def)
    next
      case (Suc i)
      then show ?thesis
        using Cons.IH [OF claimed_stays [OF cl call], of "sc_now c" i] Cons.prems call
        by (simp add: signedStep_def)
    qed
  qed
qed simp

lemma nonce_gap:
  "clock_rises t cs \<Longrightarrow> i < j \<Longrightarrow> j < length cs \<Longrightarrow> sc_nonce (cs ! i) = sc_nonce (cs ! j) \<Longrightarrow>
   runSigned lib d cs ! i = Inr k1 \<Longrightarrow> runSigned lib d cs ! j = Inr k2 \<Longrightarrow>
   sc_now (cs ! i) + agentNonceTTL \<le> sc_now (cs ! j)"
proof (induction cs arbitrary: d t i j)
  case (Cons c cs)
  obtain res d' where st: "signedStep lib d c = (res, d')"
    by (cases "signedStep lib d c")
  obtain j' where j': "j = Suc j'"
    using Cons.prems(2) by (cases j) auto
  show ?case
  proof (cases i)
    case 0
    then have cl: "claimed_until (sc_nonce c) (sc_now c + agentNonceTTL) d'"
      using Cons.prems(5) st signedStep_claims by simp
    have "clock_rises (sc_now c) cs" "j' < length cs" "sc_nonce (cs ! j') = sc_nonce c"
      "runSigned lib d' cs ! j' = Inr k2"
      using Cons.prems(1,3,4,6) st j' 0 by simp_all
    from claimed_blocks_run [OF cl this] show ?thesis
      using j' 0 by simp
  next
    case (Suc i')
    then show ?thesis
      using Cons.IH [of "sc_now c" i' j' d'] Cons.prems st j' by simp
  qed
qed simp

lemma runSigned_verified:
  "i < length cs \<Longrightarrow> runSigned lib d cs ! i = Inr key \<Longrightarrow>
   Verify lib (sc_clock (cs ! i)) (sc_request (cs ! i)) (sc_body (cs ! i)) = Inr (key, sc_nonce (cs ! i))"
proof (induction cs arbitrary: d i)
  case (Cons c cs)
  show ?case
  proof (cases i)
    case 0
    then obtain w' where "verifyAgentSignature lib (sc_clock c) (sc_request c) (sc_body c)
        (call_world d c) = (Inr key, w')"
      using Cons.prems(2) by (auto simp: signedStep_def split: prod.splits)
    then obtain nonce where v: "Verify lib (sc_clock c) (sc_request c) (sc_body c) = Inr (key, nonce)"
      using verifyAgentSignature_Inr by blast
    show ?thesis
      using 0 v Verify_InrD(2) [OF v] by (simp add: sc_nonce_def)
  next
    case (Suc i')
    then show ?thesis
      using Cons.IH [of i'] Cons.prems by (auto split: prod.splits)
  qed
qed simp

section \<open>Properties\<close>

text \<open>
  C33.  A nonce is accepted once in its lifetime.  In every sequence of signed requests, from
  every state of the tables, with any database faults, and with a database clock that does not
  run backwards, two accepted requests with the same nonce are at least \<^const>\<open>agentNonceTTL\<close>
  apart on the database's clock.
\<close>

theorem nonce_accepted_once:
  assumes "clock_rises t cs" and "i < j" and "j < length cs"
    and "sc_nonce (cs ! i) = sc_nonce (cs ! j)"
    and "runSigned lib d cs ! i = Inr k1" and "runSigned lib d cs ! j = Inr k2"
  shows "sc_now (cs ! i) + agentNonceTTL \<le> sc_now (cs ! j)"
  using assms by (rule nonce_gap)

text \<open>
  A captured request cannot be replayed while the clocks agree, except in one instant.
  If the process clock and the database clock show the same time, a request that was accepted
  and is sent again, with the same nonce and timestamp, is accepted again only exactly
  \<^const>\<open>agentNonceTTL\<close> after the first time.
\<close>

theorem replay_only_at_expiry:
  assumes "clock_rises t cs" and "i < j" and "j < length cs"
    and "sc_request (cs ! i) = sc_request (cs ! j)"
    and "sc_clock (cs ! i) = sc_now (cs ! i)" and "sc_clock (cs ! j) = sc_now (cs ! j)"
    and "runSigned lib d cs ! i = Inr k1" and "runSigned lib d cs ! j = Inr k2"
  shows "sc_now (cs ! j) = sc_now (cs ! i) + agentNonceTTL"
proof -
  have "sc_nonce (cs ! i) = sc_nonce (cs ! j)"
    by (simp add: sc_nonce_def assms(4))
  then have far: "sc_now (cs ! i) + agentNonceTTL \<le> sc_now (cs ! j)"
    using nonce_gap assms(1-3,7,8) by blast
  have vi: "Verify lib (sc_clock (cs ! i)) (sc_request (cs ! i)) (sc_body (cs ! i)) = Inr (k1, sc_nonce (cs ! i))"
    using runSigned_verified [of i cs] assms(2,3,7) by simp
  have vj: "Verify lib (sc_clock (cs ! j)) (sc_request (cs ! i)) (sc_body (cs ! j)) = Inr (k2, sc_nonce (cs ! j))"
    using runSigned_verified [of j cs] assms(3,4,8) by simp
  show ?thesis
    using far Verify_InrD(4) [OF vi] Verify_InrD(4) [OF vj] assms(5,6)
    by (auto simp: agentNonceTTL_def ClockSkew_def)
qed

definition boundary_calls :: "signed_call list" where
  "boundary_calls = map (\<lambda>t. \<lparr>sc_clock = t, sc_now = t, sc_faults = [],
     sc_request = sample_request [], sc_body = ''body''\<rparr>) [- (5 * minute), 5 * minute]"

lemma sample_request_verified:
  "\<bar>t\<bar> \<le> ClockSkew \<Longrightarrow> Verify toy_lib t (sample_request h) ''body''
   = Inr (hex_encode (lib_public toy_lib ''seed''), ''0123456789abcdef'')"
  unfolding sample_request_def
  by (rule Verify_SignAt) (simp_all add: toy_lib_ok MinNonceLen_def)

lemma boundary_run:
  "runSigned toy_lib empty_db boundary_calls =
     [Inr (hex_encode (lib_public toy_lib ''seed'')), Inr (hex_encode (lib_public toy_lib ''seed''))]"
  by (simp add: boundary_calls_def signedStep_def call_world_def verifyAgentSignature_def
      sample_request_verified ClockSkew_def attempt_def exec_ok stmt_ok purgeNonces_def claimNonce_def
      empty_db_def agentNonceTTL_def interval_def del: set_filter)

lemma boundary_accepted:
  "runSigned toy_lib empty_db boundary_calls ! 0 = Inr (hex_encode (lib_public toy_lib ''seed''))"
  "runSigned toy_lib empty_db boundary_calls ! 1 = Inr (hex_encode (lib_public toy_lib ''seed''))"
  by (simp_all add: boundary_run)

theorem nonce_accepted_once_witness:
  "sc_now (boundary_calls ! 0) + agentNonceTTL \<le> sc_now (boundary_calls ! 1)"
  by (rule nonce_accepted_once [OF _ _ _ _ boundary_accepted, of "- (5 * minute)"])
    (simp_all add: boundary_calls_def sc_nonce_def)

theorem replay_only_at_expiry_witness:
  "sc_now (boundary_calls ! 1) = sc_now (boundary_calls ! 0) + agentNonceTTL"
  by (rule replay_only_at_expiry [OF _ _ _ _ _ _ boundary_accepted, of "- (5 * minute)"])
    (simp_all add: boundary_calls_def)

end
