(* ===== verification/Enrol.thy ===== *)
theory Enrol
  imports AuthFacts AgentAuth
begin

text \<open>
  \<^verbatim>\<open>hosted/control-plane/enrol.go\<close>: minting an enrolment token, enrolling a PC with it, the
  browser flow (start, answer, poll), disabling a device and a PC's own sign-out.  A signed
  handler takes the process clock, the raw body (\<^const>\<open>None\<close> when it cannot be read) and the
  JSON decoder for its input.  Instants in answers are numbers.
\<close>

definition enrolTokenTTL :: int where "enrolTokenTTL = 10 * minute"
definition enrolStartTTL :: int where "enrolStartTTL = 10 * minute"
definition enrolPollEvery :: int where "enrolPollEvery = 5 * second"

definition notFound :: "response \<Rightarrow> response" where
  "notFound rw = writeAuthError 404 ''not found'' rw"

definition signedBody ::
  "golib \<Rightarrow> int \<Rightarrow> request \<Rightarrow> string option \<Rightarrow> (string \<Rightarrow> string \<Rightarrow> handler) \<Rightarrow> handler" where
  "signedBody lib clk r inp nxt rw = (case inp of None \<Rightarrow> Pair (badBody rw)
   | Some body \<Rightarrow> attempt (verifyAgentSignature lib clk r body) (\<lambda>res. case res of
       Inl _ \<Rightarrow> Pair (writeAuthError 401
         (case Verify lib clk r body of Inl msg \<Rightarrow> msg | Inr _ \<Rightarrow> ''nonce already used'') rw)
     | Inr deviceKey \<Rightarrow> nxt body deviceKey rw))"

section \<open>Tokens\<close>

definition insertEnrolToken :: "string \<Rightarrow> string \<Rightarrow> int act" where
  "insertEnrolToken accountID h = andThen newUuid (\<lambda>i. stmt (\<lambda>t d.
     case tokenInsert i accountID h (t + interval enrolTokenTTL) d (t_enrol d) of
       Inl e \<Rightarrow> Inl e | Inr rows \<Rightarrow> Inr (t + interval enrolTokenTTL, d\<lparr>t_enrol := rows\<rparr>)))"

definition mintEnrolToken :: "golib \<Rightarrow> ctx \<Rightarrow> handler" where
  "mintEnrolToken lib ctx rw = (case ctx of None \<Rightarrow> Pair (unauthorized rw)
   | Some (a, _) \<Rightarrow> attempt (newRawToken lib) (\<lambda>res. case res of Inl _ \<Rightarrow> Pair (tryAgain rw)
     | Inr rt \<Rightarrow> attempt (insertEnrolToken (ac_id a) (snd rt)) (\<lambda>res. case res of Inl _ \<Rightarrow> Pair (tryAgain rw)
       | Inr e \<Rightarrow> Pair (writeJSON 200 (JObj [(''token'', JStr (fst rt)), (''expires_at'', JNum e)]) rw))))"

section \<open>Enrolling\<close>

text \<open>Spending the token is one guarded update that returns the account it belongs to.\<close>

definition spendToken :: "string \<Rightarrow> int \<Rightarrow> token_row list \<Rightarrow> (string \<times> token_row list) option" where
  "spendToken h t rows = (case filter (tokenLive h t) rows of
      [] \<Rightarrow> None
    | k # _ \<Rightarrow> Some (tk_account k, updateWhere (tokenLive h t) (\<lambda>k. k\<lparr>tk_used := Some t\<rparr>) rows))"

definition consumeEnrolToken :: "string \<Rightarrow> string act" where
  "consumeEnrolToken h = stmt (\<lambda>t d. case spendToken h t (t_enrol d) of
      None \<Rightarrow> Inl ErrNoRows
    | Some (acct, rows) \<Rightarrow> Inr (acct, d\<lparr>t_enrol := rows\<rparr>))"

definition upsertDevice :: "golib \<Rightarrow> string \<Rightarrow> string \<Rightarrow> (string \<times> dev_status) act" where
  "upsertDevice lib key name = stmt (\<lambda>t d.
     if \<not> key_check key then Inl ErrDb
     else case filter (\<lambda>v. dv_key v = key) (t_devices d) of
       v # _ \<Rightarrow> Inr ((dv_id v, dv_status v), d\<lparr>t_devices :=
         updateWhere (\<lambda>v. dv_key v = key) (\<lambda>v. v\<lparr>dv_name := name\<rparr>) (t_devices d)\<rparr>)
     | [] \<Rightarrow> if device_id_of lib key \<in> set (device_ids d) then Inl ErrUnique
         else Inr ((device_id_of lib key, DevActive), d\<lparr>t_devices := t_devices d @
           [\<lparr>dv_key = key, dv_id = device_id_of lib key, dv_name = name, dv_status = DevActive\<rparr>]\<rparr>))"

definition isBinding :: "string \<Rightarrow> string \<Rightarrow> binding_row \<Rightarrow> bool" where
  "isBinding dev user b \<longleftrightarrow> bn_device b = dev \<and> bn_user b = user"

definition bindAdmin :: "string \<Rightarrow> string \<Rightarrow> unit act" where
  "bindAdmin dev user = stmt (\<lambda>t d.
     if list_ex (isBinding dev user) (t_bindings d) then
       Inr ((), d\<lparr>t_bindings := updateWhere (\<lambda>b. isBinding dev user b \<and> bn_revoked b \<noteq> None)
         (\<lambda>b. b\<lparr>bn_role := Admin, bn_revoked := None, bn_by := Some user\<rparr>) (t_bindings d)\<rparr>)
     else if dev \<notin> set (device_ids d) \<or> user \<notin> set (account_ids d) then Inl ErrDb
     else Inr ((), d\<lparr>t_bindings := t_bindings d @
        [\<lparr>bn_device = dev, bn_user = user, bn_role = Admin, bn_by = Some user, bn_created = t,
          bn_revoked = None\<rparr>]\<rparr>))"

definition enrolTx :: "golib \<Rightarrow> string \<Rightarrow> string \<Rightarrow> string \<Rightarrow> (string \<times> string) act" where
  "enrolTx lib deviceKey name token = inTx (
     andThen (consumeEnrolToken (hashToken lib token)) (\<lambda>accountID.
     andThen (upsertDevice lib deviceKey name) (\<lambda>(deviceID, status).
     if status \<noteq> DevActive then fail ErrDeviceDisabled
     else andThen (bindAdmin deviceID accountID) (\<lambda>_.
     andThen (appendAudit deviceID accountID ActionDeviceEnrolled
        (AuditDetails\<lparr>ad_account := accountID, ad_key := deviceKey, ad_role := ''admin''\<rparr>)) (\<lambda>_.
     ret (deviceID, accountID))))))"

definition enrolDevice ::
  "golib \<Rightarrow> int \<Rightarrow> request \<Rightarrow> (string \<Rightarrow> (string \<times> string \<times> string) option) \<Rightarrow> string option \<Rightarrow> handler" where
  "enrolDevice lib clk r dec inp = signedBody lib clk r inp (\<lambda>body deviceKey rw. (case dec body of
      None \<Rightarrow> Pair (badBody rw)
    | Some (inPublicKey, inName, inToken) \<Rightarrow>
        if inToken = [] then Pair (badBody rw)
        else if inPublicKey \<noteq> [] \<and> inPublicKey \<noteq> deviceKey
          then Pair (writeAuthError 400 ''public_key does not match the signature'' rw)
        else if length inName > 64 then Pair (writeAuthError 400 ''name too long'' rw)
        else attempt (enrolTx lib deviceKey inName inToken) (\<lambda>res. case res of
            Inl e \<Rightarrow> if e = ErrNoRows
                then Pair (writeAuthError 401 ''enrolment token invalid, expired or used'' rw)
              else if e = ErrDeviceDisabled then Pair (writeAuthError 403 ''device disabled'' rw)
              else Pair (tryAgain rw)
          | Inr (deviceID, accountID) \<Rightarrow> Pair (writeJSON 200
              (JObj [(''device_id'', JStr deviceID), (''name'', JStr inName)]) rw))))"

section \<open>Disabling\<close>

definition activeAdmin :: "string \<Rightarrow> string \<Rightarrow> db \<Rightarrow> bool" where
  "activeAdmin dev user d \<longleftrightarrow>
     list_ex (\<lambda>b. isBinding dev user b \<and> bn_role b = Admin \<and> bn_revoked b = None) (t_bindings d)"

definition disableTx :: "string \<Rightarrow> string \<Rightarrow> unit act" where
  "disableTx deviceID user = inTx (
     andThen (stmt (\<lambda>t d.
        let hit = (\<lambda>v. dv_id v = deviceID \<and> activeAdmin deviceID user d)
        in Inr (length (filter hit (t_devices d)), d\<lparr>t_devices :=
             updateWhere hit (\<lambda>v. v\<lparr>dv_status := DevDisabled\<rparr>) (t_devices d)\<rparr>))) (\<lambda>n.
     if n = 0 then fail ErrNoRows
     else appendAudit deviceID user ActionDeviceDisabled
        (AuditDetails\<lparr>ad_account := user, ad_from := ''active'', ad_to := ''disabled''\<rparr>)))"

definition disableDevice :: "ctx \<Rightarrow> string \<Rightarrow> handler" where
  "disableDevice ctx deviceID rw = (case ctx of None \<Rightarrow> Pair (unauthorized rw)
   | Some (a, _) \<Rightarrow>
     if validateToken ''device_id'' deviceID \<noteq> None then Pair (notFound rw)
     else attempt (disableTx deviceID (ac_id a)) (\<lambda>res. case res of
         Inl e \<Rightarrow> if e = ErrNoRows then Pair (notFound rw) else Pair (tryAgain rw)
       | Inr _ \<Rightarrow> Pair (writeJSON 200 ok_body rw)))"

section \<open>Browser enrolment\<close>

definition userCodeAlphabet :: string where
  "userCodeAlphabet = ''BCDFGHJKLMNPQRSTVWXZ''"

text \<open>The loop over random bytes; the list of draws left is what it consumes.\<close>

fun userCodeLoop :: "string list \<Rightarrow> string \<Rightarrow> (string \<times> string list) option" where
  "userCodeLoop draws code = (if length code \<ge> 8 then Some (code, draws) else
     (case draws of
        (b # _) # rest \<Rightarrow>
          if byte b \<ge> 240 then userCodeLoop rest code
          else userCodeLoop rest (code @ [userCodeAlphabet ! (byte b mod length userCodeAlphabet)])
      | _ \<Rightarrow> None))"

declare userCodeLoop.simps [simp del]

definition newUserCode :: "string act" where
  "newUserCode w = (case userCodeLoop (w_rand w) [] of
      None \<Rightarrow> (Inl ErrRand, w\<lparr>w_rand := []\<rparr>)
    | Some (code, rest) \<Rightarrow> (Inr (take 4 code @ ''-'' @ drop 4 code), w\<lparr>w_rand := rest\<rparr>))"

definition normalizeUserCode :: "golib \<Rightarrow> string \<Rightarrow> string" where
  "normalizeUserCode lib code = filter (\<lambda>c. c \<noteq> CHR ''-'') (toUpper lib (trimSpace code))"

definition insertEnrolment :: "string \<Rightarrow> string \<Rightarrow> string \<Rightarrow> int act" where
  "insertEnrolment h key name = stmt (\<lambda>t d.
     if h \<in> set (map en_hash (t_enrolments d)) then Inl ErrUnique
     else Inr (t + interval enrolStartTTL, d\<lparr>t_enrolments := t_enrolments d @
        [\<lparr>en_hash = h, en_key = key, en_name = name, en_status = Pending, en_by = None,
          en_expires = t + interval enrolStartTTL, en_used = None\<rparr>]\<rparr>))"

definition startEnrolment ::
  "golib \<Rightarrow> (string \<Rightarrow> string) \<Rightarrow> int \<Rightarrow> request \<Rightarrow> (string \<Rightarrow> string option) \<Rightarrow> string option \<Rightarrow> handler" where
  "startEnrolment lib getenv clk r dec inp = signedBody lib clk r inp (\<lambda>body deviceKey rw. (case dec body of
      None \<Rightarrow> Pair (badBody rw)
    | Some inName \<Rightarrow>
        if length inName > 64 then Pair (writeAuthError 400 ''name too long'' rw)
        else if list_ex (\<lambda>c. byte c < 32 \<or> byte c = 127) inName
          then Pair (writeAuthError 400 ''name has a control character in it'' rw)
        else attempt newUserCode (\<lambda>res. case res of Inl _ \<Rightarrow> Pair (tryAgain rw)
        | Inr code \<Rightarrow> attempt (insertEnrolment (hashToken lib (normalizeUserCode lib code)) deviceKey inName)
            (\<lambda>res. case res of Inl _ \<Rightarrow> Pair (tryAgain rw)
            | Inr e \<Rightarrow> Pair (writeJSON 200 (JObj [(''user_code'', JStr code),
                (''approve_url'', JStr (linkBase getenv r @ ''/approve?code='' @ queryEscape code)),
                (''interval_seconds'', JNum (enrolPollEvery div second)), (''expires_at'', JNum e)]) rw)))))"

definition enrolmentWaiting :: "string \<Rightarrow> string \<Rightarrow> int \<Rightarrow> enrolment_row \<Rightarrow> bool" where
  "enrolmentWaiting h key t e \<longleftrightarrow> en_hash e = h \<and> en_key e = key \<and> en_used e = None \<and> en_expires e > t"

text \<open>\<^verbatim>\<open>answered_by::text\<close> of a row that was approved; a null would fail the scan.\<close>

definition collectEnrolment :: "string \<Rightarrow> string \<Rightarrow> string act" where
  "collectEnrolment h key = stmt (\<lambda>t d.
     let hit = (\<lambda>e. enrolmentWaiting h key t e \<and> en_status e = Approved) in
     case filter hit (t_enrolments d) of
       [] \<Rightarrow> Inl ErrNoRows
     | e # _ \<Rightarrow> (case en_by e of None \<Rightarrow> Inl ErrDb
         | Some acct \<Rightarrow> Inr (acct, d\<lparr>t_enrolments :=
             updateWhere hit (\<lambda>e. e\<lparr>en_used := Some t\<rparr>) (t_enrolments d)\<rparr>)))"

definition pollTx :: "golib \<Rightarrow> string \<Rightarrow> string \<Rightarrow> string act" where
  "pollTx lib h key = inTx (
     andThen (collectEnrolment h key) (\<lambda>accountID.
     andThen (newRawToken lib) (\<lambda>rt.
     andThen (insertEnrolToken accountID (snd rt)) (\<lambda>_. ret (fst rt)))))"

definition noneWaiting :: "response \<Rightarrow> response" where
  "noneWaiting rw = writeAuthError 404 ''no request is waiting: it expired or was already used'' rw"

definition pollEnrolment ::
  "golib \<Rightarrow> int \<Rightarrow> request \<Rightarrow> (string \<Rightarrow> string option) \<Rightarrow> string option \<Rightarrow> handler" where
  "pollEnrolment lib clk r dec inp = signedBody lib clk r inp (\<lambda>body deviceKey rw. (case dec body of
      None \<Rightarrow> Pair (badBody rw)
    | Some inUserCode \<Rightarrow>
        if inUserCode = [] then Pair (badBody rw)
        else let codeHash = hashToken lib (normalizeUserCode lib inUserCode) in
          attempt (query (\<lambda>t d. firstRow (filter (enrolmentWaiting codeHash deviceKey t) (t_enrolments d))))
            (\<lambda>res. case res of
              Inl e \<Rightarrow> if e = ErrNoRows then Pair (noneWaiting rw) else Pair (tryAgain rw)
            | Inr row \<Rightarrow> (case en_status row of
                Refused \<Rightarrow> Pair (writeAuthError 403 ''the request was refused in the browser'' rw)
              | Pending \<Rightarrow> Pair (writeJSON 200 (JObj [(''status'', JStr ''pending''),
                  (''interval_seconds'', JNum (enrolPollEvery div second))]) rw)
              | Approved \<Rightarrow> attempt (pollTx lib codeHash deviceKey) (\<lambda>res. case res of
                  Inl e \<Rightarrow> if e = ErrNoRows then Pair (noneWaiting rw) else Pair (tryAgain rw)
                | Inr raw \<Rightarrow> Pair (writeJSON 200 (JObj [(''status'', JStr ''approved''),
                    (''enrolment_token'', JStr raw)]) rw))))))"

definition answerRows :: "string \<Rightarrow> bool \<Rightarrow> string \<Rightarrow> nat act" where
  "answerRows h approve user = stmt (\<lambda>t d.
     let hit = (\<lambda>e. en_hash e = h \<and> en_status e = Pending \<and> en_used e = None \<and> en_expires e > t);
         n = length (filter hit (t_enrolments d)) in
     if n \<noteq> 0 \<and> user \<notin> set (account_ids d) then Inl ErrDb
     else Inr (n, d\<lparr>t_enrolments := updateWhere hit
        (\<lambda>e. e\<lparr>en_status := (if approve then Approved else Refused), en_by := Some user\<rparr>) (t_enrolments d)\<rparr>))"

definition answerEnrolment :: "golib \<Rightarrow> ctx \<Rightarrow> (string \<times> bool) option \<Rightarrow> handler" where
  "answerEnrolment lib ctx inp rw = (case ctx of None \<Rightarrow> Pair (unauthorized rw)
   | Some (a, _) \<Rightarrow> (case inp of None \<Rightarrow> Pair (badBody rw)
   | Some (inCode, inApprove) \<Rightarrow>
       attempt (answerRows (hashToken lib (normalizeUserCode lib inCode)) inApprove (ac_id a)) (\<lambda>res. case res of
         Inl _ \<Rightarrow> Pair (tryAgain rw)
       | Inr n \<Rightarrow> if n = 0 then Pair (writeAuthError 404 ''that request expired or was already answered'' rw)
           else Pair (writeJSON 200 (JObj [(''ok'', JBool True), (''message'', JStr
             (if inApprove then ''Approved. The PC finishes signing itself in.''
              else ''The PC was refused. It stays signed out.''))]) rw))))"

section \<open>A PC signs itself out\<close>

definition unenrolTx :: "string \<Rightarrow> string act" where
  "unenrolTx deviceKey = inTx (
     andThen (query (\<lambda>t d. firstRow (map dv_id (filter (\<lambda>v. dv_key v = deviceKey) (t_devices d))))) (\<lambda>deviceID.
     andThen (exec (\<lambda>t d. d\<lparr>t_bindings := updateWhere (\<lambda>b. bn_device b = deviceID \<and> bn_revoked b = None)
        (\<lambda>b. b\<lparr>bn_revoked := Some t\<rparr>) (t_bindings d)\<rparr>)) (\<lambda>_.
     andThen (appendAudit deviceID deviceID ActionDeviceUnenrolled (AuditDetails\<lparr>ad_key := deviceKey\<rparr>)) (\<lambda>_.
     ret deviceID))))"

definition unenrolDevice :: "golib \<Rightarrow> int \<Rightarrow> request \<Rightarrow> string option \<Rightarrow> handler" where
  "unenrolDevice lib clk r inp = signedBody lib clk r inp (\<lambda>body deviceKey rw.
     attempt (unenrolTx deviceKey) (\<lambda>res. case res of
         Inl e \<Rightarrow> if e = ErrNoRows then Pair (writeJSON 200 ok_body rw) else Pair (tryAgain rw)
       | Inr _ \<Rightarrow> Pair (writeJSON 200 ok_body rw)))"

end
