(* ===== verification/SingleUse.thy ===== *)
theory SingleUse
  imports Store
begin

text \<open>
  The contract of a single-use secret: an enrolment token, an approved browser enrolment, an
  invite.  A use may be refused; a use that succeeds leaves the secret spent, a spent secret
  is always refused, and using one secret never revives another.  The component theories
  interpret the locale on the update statement that spends their secret.  \<open>'x\<close> is what else a use
  depends on: the instant, and for an invite who presents it.
\<close>

fun runUses :: "('k \<Rightarrow> 'x \<Rightarrow> 's \<Rightarrow> ('r \<times> 's) option) \<Rightarrow> 's \<Rightarrow> ('k \<times> 'x) list \<Rightarrow> 'r option list" where
  "runUses use s [] = []"
| "runUses use s ((k, t) # us) = (case use k t s of
      None \<Rightarrow> None # runUses use s us
    | Some (r, s') \<Rightarrow> Some r # runUses use s' us)"

lemma length_runUses [simp]: "length (runUses use s us) = length us"
  by (induction use s us rule: runUses.induct) (auto split: option.splits)

locale single_use =
  fixes use :: "'k \<Rightarrow> 'x \<Rightarrow> 's \<Rightarrow> ('r \<times> 's) option"
    and spent :: "'k \<Rightarrow> 's \<Rightarrow> bool"
    and ok :: "'s \<Rightarrow> bool"
  assumes use_ok: "ok s \<Longrightarrow> use k t s = Some (r, s') \<Longrightarrow> ok s'"
    and use_spends: "ok s \<Longrightarrow> use k t s = Some (r, s') \<Longrightarrow> spent k s'"
    and spent_refused: "ok s \<Longrightarrow> spent k s \<Longrightarrow> use k t s = None"
    and use_keeps: "ok s \<Longrightarrow> use k t s = Some (r, s') \<Longrightarrow> spent k' s \<Longrightarrow> spent k' s'"
begin

lemma spent_run:
  "ok s \<Longrightarrow> spent k s \<Longrightarrow> j < length us \<Longrightarrow> fst (us ! j) = k \<Longrightarrow> runUses use s us ! j = None"
proof (induction us arbitrary: s j)
  case (Cons u us)
  obtain k1 t1 where u: "u = (k1, t1)"
    by (cases u)
  show ?case
  proof (cases "use k1 t1 s")
    case None
    with Cons u show ?thesis
      by (cases j) auto
  next
    case (Some rs)
    obtain r s' where rs: "rs = (r, s')"
      by (cases rs)
    have "k1 \<noteq> k"
      using Some Cons.prems spent_refused by fastforce
    then obtain i where j: "j = Suc i" "i < length us" "fst (us ! i) = k"
      using Cons.prems u by (cases j) auto
    have "ok s'" "spent k s'"
      using Some rs Cons.prems use_ok use_keeps by blast+
    from Cons.IH [OF this j(2,3)] show ?thesis
      using Some rs u j by simp
  qed
qed simp

lemma at_most_once:
  "ok s \<Longrightarrow> i < j \<Longrightarrow> j < length us \<Longrightarrow> fst (us ! i) = fst (us ! j) \<Longrightarrow>
   runUses use s us ! i \<noteq> None \<Longrightarrow> runUses use s us ! j = None"
proof (induction us arbitrary: s i j)
  case (Cons u us)
  obtain k1 t1 where u: "u = (k1, t1)"
    by (cases u)
  obtain j' where j: "j = Suc j'" "j' < length us"
    using Cons.prems by (cases j) auto
  show ?case
  proof (cases "use k1 t1 s")
    case None
    with Cons.prems(5) u obtain i' where i: "i = Suc i'"
      by (cases i) auto
    show ?thesis
      using Cons.IH [OF Cons.prems(1), of i' j'] Cons.prems u None i j by simp
  next
    case (Some rs)
    obtain r s' where rs: "rs = (r, s')"
      by (cases rs)
    have s': "ok s'" "spent k1 s'"
      using Some rs Cons.prems(1) use_ok use_spends by blast+
    show ?thesis
    proof (cases i)
      case 0
      then have "fst (us ! j') = k1"
        using Cons.prems(4) u j by simp
      from spent_run [OF s' j(2) this] show ?thesis
        using Some rs u j by simp
    next
      case (Suc i')
      then show ?thesis
        using Cons.IH [OF s'(1), of i' j'] Cons.prems u Some rs j by simp
    qed
  qed
qed simp

end

end
