(* ===== verification/EnrolFacts.thy ===== *)
theory EnrolFacts
  imports Enrol SingleUse
begin

text \<open>
  What \<open>Enrol\<close> guarantees: the invariant, that a token and an approval are spent once, what a
  successful enrolment leaves in the tables, that only an admin disables a device, and that a
  PC that signs itself out is reachable by nobody.
\<close>

section \<open>The invariant\<close>

lemma signedBody_inv [keeps_intro]:
  "(\<And>body key rw. keeps (cp_inv lib a) (nxt body key rw)) \<Longrightarrow>
   keeps (cp_inv lib a) (signedBody lib' clk r inp nxt rw)"
  unfolding signedBody_def by (intro keeps_intro)

lemma insertEnrolToken_inv [keeps_intro]: "keeps (cp_inv lib a) (insertEnrolToken acct h)"
  unfolding insertEnrolToken_def
  by (intro keeps_intro token_stmt_inv) (simp_all add: wf_dbD(10) wf_set_tokens)

lemma spendToken_rows:
  "spendToken h t rows = Some (acct, rows') \<Longrightarrow>
   rows' = updateWhere (tokenLive h t) (\<lambda>k. k\<lparr>tk_used := Some t\<rparr>) rows"
  by (auto simp: spendToken_def split: list.splits)

lemma consumeEnrolToken_inv [keeps_intro]: "keeps (cp_inv lib a) (consumeEnrolToken h)"
  unfolding consumeEnrolToken_def
  by (rule keeps_inv_stmt)
    (auto intro!: wf_set_tokens simp: wf_tokens_updateWhere wf_dbD(10) dest!: spendToken_rows split: option.splits)

lemma wf_touch_devices:
  assumes "\<And>r. dv_id (f r) = dv_id r" and "\<And>r. dv_key (f r) = dv_key r" and "wf_db lib d"
  shows "wf_db lib (d\<lparr>t_devices := updateWhere P f (t_devices d)\<rparr>)"
proof (rule wf_set_devices [OF assms(3)])
  fix v
  assume "v \<in> set (updateWhere P f (t_devices d))"
  then obtain q where "q \<in> set (t_devices d)" "v = (if P q then f q else q)"
    unfolding in_updateWhere by blast
  then show "dv_id v = device_id_of lib (dv_key v) \<and> key_check (dv_key v)"
    using wf_dbD(13,14) [OF assms(3)] assms(1,2) by auto
qed (simp_all add: updateWhere_map assms device_ids_def)

lemma upsertDevice_inv [keeps_intro]: "keeps (cp_inv lib a) (upsertDevice lib key name)"
  unfolding upsertDevice_def
  by (rule keeps_inv_stmt)
    (auto intro!: wf_touch_devices wf_add_device simp: filter_empty_conv split: if_splits list.splits)

lemma wf_touch_bindings:
  "(\<And>b. bn_device (f b) = bn_device b) \<Longrightarrow> (\<And>b. bn_user (f b) = bn_user b) \<Longrightarrow> wf_db lib d \<Longrightarrow>
   wf_db lib (d\<lparr>t_bindings := updateWhere P f (t_bindings d)\<rparr>)"
  by (rule wf_set_bindings) (simp_all add: updateWhere_map wf_dbD(15-17) del: set_map)

lemma wf_add_binding:
  assumes "wf_db lib d" and "\<not> list_ex (isBinding dev user) (t_bindings d)" and "dev \<in> set (device_ids d)"
    and "user \<in> set (account_ids d)" and "bn_device b = dev" and "bn_user b = user"
  shows "wf_db lib (d\<lparr>t_bindings := t_bindings d @ [b]\<rparr>)"
  using assms wf_dbD(15-17) [OF assms(1)]
  by (intro wf_set_bindings) (auto simp: list_ex_iff isBinding_def image_subset_iff)

lemma bindAdmin_inv [keeps_intro]: "keeps (cp_inv lib a) (bindAdmin dev user)"
  unfolding bindAdmin_def
  by (rule keeps_inv_stmt) (auto intro!: wf_touch_bindings wf_add_binding split: if_splits)

lemma enrolTx_inv [keeps_intro]: "keeps (cp_inv lib a) (enrolTx lib key name token)"
  unfolding enrolTx_def by (intro keeps_intro)

lemma disableTx_inv [keeps_intro]: "keeps (cp_inv lib a) (disableTx dev user)"
  unfolding disableTx_def
  by (intro keeps_intro keeps_inv_stmt) (auto simp: Let_def intro!: wf_touch_devices)

lemma newUserCode_keeps [keeps_intro]: "keeps P newUserCode"
  by (rule keeps_pure) (auto simp: newUserCode_def split: option.splits)

lemma enrolment_ok_new:
  "enrolment_ok \<lparr>en_hash = h, en_key = key, en_name = nm, en_status = Pending, en_by = None,
     en_expires = e, en_used = None\<rparr>"
  by (simp add: enrolment_ok_def)

lemma insertEnrolment_inv [keeps_intro]: "keeps (cp_inv lib a) (insertEnrolment h key name)"
  unfolding insertEnrolment_def
  by (rule keeps_inv_stmt)
    (auto intro!: wf_set_enrolments simp: wf_dbD(26) enrolment_ok_new dest: wf_dbD(27) split: if_splits)

lemma wf_touch_enrolments:
  assumes "\<And>e. en_hash (f e) = en_hash e" and "\<And>e. e \<in> set (t_enrolments d) \<Longrightarrow> P e \<Longrightarrow> enrolment_ok (f e)"
    and "wf_db lib d"
  shows "wf_db lib (d\<lparr>t_enrolments := updateWhere P f (t_enrolments d)\<rparr>)"
proof (rule wf_set_enrolments [OF assms(3)])
  fix e
  assume "e \<in> set (updateWhere P f (t_enrolments d))"
  then obtain q where "q \<in> set (t_enrolments d)" "e = (if P q then f q else q)"
    unfolding in_updateWhere by blast
  then show "enrolment_ok e"
    using wf_dbD(27) [OF assms(3)] assms(2) by simp
qed (simp add: updateWhere_map assms(1) wf_dbD(26) [OF assms(3)])

lemma collectEnrolment_inv [keeps_intro]: "keeps (cp_inv lib a) (collectEnrolment h key)"
  unfolding collectEnrolment_def
proof (rule keeps_inv_stmt)
  fix t d x d'
  assume wf: "wf_db lib d" and "(let hit = (\<lambda>e. enrolmentWaiting h key t e \<and> en_status e = Approved) in
     case filter hit (t_enrolments d) of
       [] \<Rightarrow> Inl ErrNoRows
     | e # _ \<Rightarrow> (case en_by e of None \<Rightarrow> Inl ErrDb
         | Some acct \<Rightarrow> Inr (acct, d\<lparr>t_enrolments :=
             updateWhere hit (\<lambda>e. e\<lparr>en_used := Some t\<rparr>) (t_enrolments d)\<rparr>))) = Inr (x, d')"
  then show "wf_db lib d'"
    using wf_dbD(27) [OF wf]
    by (auto simp: Let_def enrolment_ok_def intro!: wf_touch_enrolments split: list.splits option.splits)
qed (auto simp: Let_def split: list.splits option.splits)

lemma pollTx_inv [keeps_intro]: "keeps (cp_inv lib a) (pollTx lib' h key)"
  unfolding pollTx_def by (intro keeps_intro)

lemma answerRows_inv [keeps_intro]: "keeps (cp_inv lib a) (answerRows h approve user)"
  unfolding answerRows_def
  by (rule keeps_inv_stmt)
    (auto simp: Let_def enrolment_ok_def intro!: wf_touch_enrolments split: if_splits)

lemma unenrolTx_inv [keeps_intro]: "keeps (cp_inv lib a) (unenrolTx key)"
  unfolding unenrolTx_def
  by (intro keeps_intro keeps_inv_exec) (auto intro!: wf_touch_bindings)

lemma keeps_status [keeps_intro]:
  "keeps P p \<Longrightarrow> keeps P q \<Longrightarrow> keeps P s \<Longrightarrow>
   keeps P (case v of Pending \<Rightarrow> p | Approved \<Rightarrow> q | Refused \<Rightarrow> s)"
  by (cases v) simp_all

lemma mintEnrolToken_inv: "keeps (cp_inv lib a) (mintEnrolToken lib' ctx rw)"
  unfolding mintEnrolToken_def by (intro keeps_intro)

lemma enrolDevice_inv: "keeps (cp_inv lib a) (enrolDevice lib clk r dec inp rw)"
  unfolding enrolDevice_def by (intro keeps_intro)

lemma disableDevice_inv: "keeps (cp_inv lib a) (disableDevice ctx dev rw)"
  unfolding disableDevice_def by (intro keeps_intro)

lemma startEnrolment_inv: "keeps (cp_inv lib a) (startEnrolment lib' getenv clk r dec inp rw)"
  unfolding startEnrolment_def by (intro keeps_intro)

lemma pollEnrolment_inv: "keeps (cp_inv lib a) (pollEnrolment lib' clk r dec inp rw)"
  unfolding pollEnrolment_def by (intro keeps_intro)

lemma answerEnrolment_inv: "keeps (cp_inv lib a) (answerEnrolment lib' ctx inp rw)"
  unfolding answerEnrolment_def by (intro keeps_intro)

lemma unenrolDevice_inv: "keeps (cp_inv lib a) (unenrolDevice lib' clk r inp rw)"
  unfolding unenrolDevice_def by (intro keeps_intro)

section \<open>Spending\<close>

definition token_spent :: "string \<Rightarrow> token_row list \<Rightarrow> bool" where
  "token_spent h rows \<longleftrightarrow> (\<forall>k \<in> set rows. tk_hash k = h \<longrightarrow> tk_used k \<noteq> None)"

lemma spendToken_None: "token_spent h rows \<Longrightarrow> spendToken h t rows = None"
proof -
  assume "token_spent h rows"
  then have "filter (tokenLive h t) rows = []"
    by (auto simp: filter_empty_conv tokenLive_def token_spent_def)
  then show ?thesis
    by (simp add: spendToken_def)
qed

lemma spendToken_SomeD:
  assumes "spendToken h t rows = Some (acct, rows')"
  shows "\<exists>k \<in> set rows. tokenLive h t k \<and> tk_account k = acct"
    and "rows' = updateWhere (tokenLive h t) (\<lambda>k. k\<lparr>tk_used := Some t\<rparr>) rows"
proof -
  obtain k ks where k: "filter (tokenLive h t) rows = k # ks" "tk_account k = acct"
    using assms by (auto simp: spendToken_def split: list.splits)
  have "k \<in> set (filter (tokenLive h t) rows)"
    by (simp add: k(1))
  with k(2) show "\<exists>k \<in> set rows. tokenLive h t k \<and> tk_account k = acct"
    by auto
  show "rows' = updateWhere (tokenLive h t) (\<lambda>k. k\<lparr>tk_used := Some t\<rparr>) rows"
    using assms by (rule spendToken_rows)
qed

lemma spendToken_spends:
  assumes "distinct (map tk_hash rows)" and "spendToken h t rows = Some (acct, rows')"
  shows "token_spent h rows'"
proof -
  obtain k where k: "k \<in> set rows" "tokenLive h t k"
    using spendToken_SomeD(1) [OF assms(2)] by blast
  have one: "q = k" if "q \<in> set rows" "tk_hash q = h" for q
    using assms(1) that k by (auto simp: distinct_map tokenLive_def dest: inj_onD)
  show ?thesis
    unfolding token_spent_def spendToken_SomeD(2) [OF assms(2)]
  proof (intro ballI impI)
    fix r
    assume r: "r \<in> set (updateWhere (tokenLive h t) (\<lambda>k. k\<lparr>tk_used := Some t\<rparr>) rows)" "tk_hash r = h"
    then obtain q where q: "q \<in> set rows" "r = (if tokenLive h t q then q\<lparr>tk_used := Some t\<rparr> else q)"
      unfolding in_updateWhere by blast
    then have "tk_hash q = h"
      using r(2) by (auto split: if_splits)
    then have "q = k"
      using one q(1) by blast
    then show "tk_used r \<noteq> None"
      using q(2) k(2) by simp
  qed
qed

lemma token_spent_update:
  "token_spent h rows \<Longrightarrow> token_spent h (updateWhere P (\<lambda>k. k\<lparr>tk_used := Some t\<rparr>) rows)"
  unfolding token_spent_def by (auto simp: updateWhere_def)

interpretation enrol_token: single_use spendToken token_spent "\<lambda>rows. distinct (map tk_hash rows)"
proof unfold_locales
  fix k t r and rows rows' :: "token_row list" and k'
  assume "distinct (map tk_hash rows)" and use: "spendToken k t rows = Some (r, rows')"
  show "distinct (map tk_hash rows')"
    unfolding spendToken_SomeD(2) [OF use] using \<open>distinct (map tk_hash rows)\<close> by (simp add: updateWhere_map)
  show "token_spent k rows'"
    using \<open>distinct (map tk_hash rows)\<close> use by (rule spendToken_spends)
  show "token_spent k' rows \<Longrightarrow> token_spent k' rows'"
    unfolding spendToken_SomeD(2) [OF use] by (rule token_spent_update)
qed (rule spendToken_None)

text \<open>
  C32.  An enrolment token enrols one PC.  Whatever requests race for one token, in whatever
  order the guarded updates of their transactions run, and at whatever instants, at most one of them gets
  the account back.
\<close>

theorem enrolment_token_single_use:
  assumes "distinct (map tk_hash rows)" and "i < j" and "j < length us"
    and "fst (us ! i) = fst (us ! j)" and "runUses spendToken rows us ! i \<noteq> None"
  shows "runUses spendToken rows us ! j = None"
  using assms by (rule enrol_token.at_most_once)

theorem enrolment_token_single_use_witness:
  "runUses spendToken [\<lparr>tk_id = ''i'', tk_account = ''a'', tk_hash = ''h'', tk_expires = 9, tk_used = None\<rparr>]
     [(''h'', 1), (''h'', 2)] ! 1 = None"
  by (rule enrolment_token_single_use [of _ 0])
    (simp_all add: spendToken_def tokenLive_def)

section \<open>A successful enrolment\<close>

definition boundTo :: "string \<Rightarrow> string \<Rightarrow> db \<Rightarrow> bool" where
  "boundTo dev user d \<longleftrightarrow> list_ex (\<lambda>b. isBinding dev user b \<and> bn_revoked b = None) (t_bindings d)"

lemma upsertDevice_Inr:
  assumes "upsertDevice lib key name w = (Inr (dev, st), w')" and "wf_db lib (w_db w)"
  shows "\<exists>rows. w_db w' = (w_db w)\<lparr>t_devices := rows\<rparr> \<and> dev = device_id_of lib key \<and>
    (\<exists>v \<in> set rows. dv_key v = key \<and> dv_id v = dev \<and> dv_name v = name \<and> dv_status v = st)"
proof (cases "filter (\<lambda>v. dv_key v = key) (t_devices (w_db w))")
  case Nil
  then show ?thesis
    using assms(1) by (auto simp: upsertDevice_def stmt_Inr split: if_splits)
next
  case (Cons v vs)
  let ?upd = "updateWhere (\<lambda>v. dv_key v = key) (\<lambda>v. v\<lparr>dv_name := name\<rparr>) (t_devices (w_db w))"
  have v: "v \<in> set (t_devices (w_db w))" "dv_key v = key"
    using arg_cong [OF Cons, of set] by auto
  then have "v\<lparr>dv_name := name\<rparr> \<in> set ?upd"
    unfolding in_updateWhere by (intro bexI [of _ v]) auto
  moreover have "dv_id v = device_id_of lib key"
    using wf_dbD(13) [OF assms(2) v(1)] v(2) by simp
  moreover have "dev = dv_id v" "st = dv_status v" "w_db w' = (w_db w)\<lparr>t_devices := ?upd\<rparr>"
    using assms(1) Cons by (auto simp: upsertDevice_def stmt_Inr split: if_splits)
  ultimately show ?thesis
    using v(2) by (intro exI [of _ ?upd]) (auto intro!: bexI [of _ "v\<lparr>dv_name := name\<rparr>"])
qed

lemma bindAdmin_Inr:
  assumes "bindAdmin dev user w = (Inr x, w')"
  shows "w_db w' = (w_db w)\<lparr>t_bindings := t_bindings (w_db w')\<rparr> \<and> boundTo dev user (w_db w') \<and>
    (\<not> boundTo dev user (w_db w) \<longrightarrow> activeAdmin dev user (w_db w')) \<and>
    (\<forall>b. \<not> isBinding dev user b \<longrightarrow> (b \<in> set (t_bindings (w_db w')) \<longleftrightarrow> b \<in> set (t_bindings (w_db w))))"
proof -
  let ?P = "\<lambda>b. isBinding dev user b \<and> bn_revoked b \<noteq> None"
  let ?f = "\<lambda>b. b\<lparr>bn_role := Admin, bn_revoked := None, bn_by := Some user\<rparr>"
  have keep: "isBinding dev user (?f b) = isBinding dev user b" for b
    by (simp add: isBinding_def)
  show ?thesis
  proof (cases "list_ex (isBinding dev user) (t_bindings (w_db w))")
    case True
    then have db: "w_db w' = (w_db w)\<lparr>t_bindings := updateWhere ?P ?f (t_bindings (w_db w))\<rparr>"
      using assms by (auto simp: bindAdmin_def stmt_Inr)
    have others: "\<not> isBinding dev user b \<Longrightarrow>
        b \<in> set (updateWhere ?P ?f (t_bindings (w_db w))) \<longleftrightarrow> b \<in> set (t_bindings (w_db w))" for b
      by (rule updateWhere_others [where A = "isBinding dev user"]) (simp_all add: keep)
    obtain b where b: "b \<in> set (t_bindings (w_db w))" "isBinding dev user b"
      using True by (auto simp: list_ex_iff)
    have img: "(if ?P q then ?f q else q) \<in> set (updateWhere ?P ?f (t_bindings (w_db w)))"
      if "q \<in> set (t_bindings (w_db w))" for q
      using that unfolding in_updateWhere by blast
    define q where "q = (if ?P b then ?f b else b)"
    have q: "q \<in> set (t_bindings (w_db w'))" "isBinding dev user q" "bn_revoked q = None"
      using img [OF b(1)] b(2) keep by (auto simp: q_def db)
    have "bn_role q = Admin" if "\<not> boundTo dev user (w_db w)"
      using that b by (auto simp: q_def boundTo_def list_ex_iff)
    then have "\<not> boundTo dev user (w_db w) \<longrightarrow> activeAdmin dev user (w_db w')" "boundTo dev user (w_db w')"
      using q by (auto simp: boundTo_def activeAdmin_def list_ex_iff)
    then show ?thesis
      using db others by auto
  next
    case False
    then show ?thesis
      using assms
      by (auto simp: bindAdmin_def stmt_Inr boundTo_def activeAdmin_def isBinding_def split: if_splits)
  qed
qed

lemma enrolTx_effect:
  assumes "wf_db lib (w_db w)" and "enrolTx lib key name token w = (res, w')"
  shows "case res of
    Inl _ \<Rightarrow> w_db w' = w_db w
  | Inr (dev, acct) \<Rightarrow>
      dev = device_id_of lib key \<and>
      (\<exists>k \<in> set (t_enrol (w_db w)). tk_hash k = hashToken lib token \<and> tk_used k = None \<and> tk_account k = acct) \<and>
      token_spent (hashToken lib token) (t_enrol (w_db w')) \<and>
      (\<exists>v \<in> set (t_devices (w_db w')). dv_key v = key \<and> dv_id v = dev \<and> dv_name v = name \<and> dv_status v = DevActive) \<and>
      boundTo dev acct (w_db w') \<and> (\<not> boundTo dev acct (w_db w) \<longrightarrow> activeAdmin dev acct (w_db w')) \<and>
      (\<forall>b. \<not> isBinding dev acct b \<longrightarrow> (b \<in> set (t_bindings (w_db w')) \<longleftrightarrow> b \<in> set (t_bindings (w_db w)))) \<and>
      (\<exists>row. t_audit (w_db w') = t_audit (w_db w) @ [row] \<and> au_action row = ActionDeviceEnrolled)"
proof (cases res)
  case (Inl e)
  then show ?thesis
    using assms(2) inTx_Inl by (auto simp: enrolTx_def)
next
  case (Inr da)
  obtain dev acct where da: "da = (dev, acct)"
    by (cases da)
  let ?h = "hashToken lib token"
  obtain w1 w2 where w12: "w_db w1 = w_db w" "w_db w' = w_db w2"
    and body: "andThen (consumeEnrolToken ?h) (\<lambda>accountID.
     andThen (upsertDevice lib key name) (\<lambda>(deviceID, status).
     if status \<noteq> DevActive then fail ErrDeviceDisabled
     else andThen (bindAdmin deviceID accountID) (\<lambda>_.
     andThen (appendAudit deviceID accountID ActionDeviceEnrolled
        (AuditDetails\<lparr>ad_account := accountID, ad_key := key, ad_role := ''admin''\<rparr>)) (\<lambda>_.
     ret (deviceID, accountID))))) w1 = (Inr (dev, acct), w2)"
    using assms(2) Inr da unfolding enrolTx_def by (auto elim: inTx_Inr)
  then obtain wa wb wc where c: "consumeEnrolToken ?h w1 = (Inr acct, wa)"
    and u: "upsertDevice lib key name wa = (Inr (dev, DevActive), wb)"
    and b: "bindAdmin dev acct wb = (Inr (), wc)"
    and a0: "appendAudit dev acct ActionDeviceEnrolled
        (AuditDetails\<lparr>ad_account := acct, ad_key := key, ad_role := ''admin''\<rparr>) wc = (Inr (), w2)"
    by (auto simp: andThen_Inr split: if_splits)
  obtain row where a: "w_db w2 = (w_db wc)\<lparr>t_audit := t_audit (w_db wc) @ [row]\<rparr>" "au_action row = ActionDeviceEnrolled"
    using appendAudit_adds [OF a0] by blast
  obtain t rows where s: "spendToken ?h t (t_enrol (w_db w)) = Some (acct, rows)"
      "w_db wa = (w_db w)\<lparr>t_enrol := rows\<rparr>"
    using c w12(1) by (auto simp: consumeEnrolToken_def stmt_Inr split: option.splits)
  have toks: "distinct (map tk_hash (t_enrol (w_db w)))"
    using wf_dbD(10) [OF assms(1)] by (simp add: wf_tokens_def)
  have wfa: "wf_db lib (w_db wa)"
    using wf_dbD(10) [OF assms(1)] assms(1) unfolding s(2) spendToken_SomeD(2) [OF s(1)]
    by (intro wf_set_tokens) (simp_all add: wf_tokens_updateWhere)
  obtain drows where d: "w_db wb = (w_db wa)\<lparr>t_devices := drows\<rparr>" "dev = device_id_of lib key"
      "\<exists>v \<in> set drows. dv_key v = key \<and> dv_id v = dev \<and> dv_name v = name \<and> dv_status v = DevActive"
    using upsertDevice_Inr [OF u wfa] by blast
  define brows where "brows = t_bindings (w_db wc)"
  have r: "w_db wc = (w_db wb)\<lparr>t_bindings := brows\<rparr>" "boundTo dev acct (w_db wc)"
      "\<not> boundTo dev acct (w_db wb) \<longrightarrow> activeAdmin dev acct (w_db wc)"
      "\<forall>b. \<not> isBinding dev acct b \<longrightarrow> (b \<in> set brows \<longleftrightarrow> b \<in> set (t_bindings (w_db wb)))"
    using bindAdmin_Inr [OF b] by (simp_all add: brows_def)
  show ?thesis
    using Inr da w12 a s(2) d r spendToken_SomeD(1) [OF s(1)] spendToken_spends [OF toks s(1)]
    by (auto simp: tokenLive_def boundTo_def activeAdmin_def)
qed

text \<open>
  What a successful enrolment leaves behind.  The transaction ran on a live token and spent
  it; the device row carries the signing key and the id derived from it, the name that was
  sent, and is active; the token's account is bound to the device, as its admin unless it was
  bound already; no other binding changed; one audit row was added.  A failed enrolment leaves
  every table as it was.
\<close>

theorem enrolment_effect:
  assumes "wf_db lib (w_db w)" and "enrolTx lib key name token w = (res, w')"
  shows "case res of
    Inl _ \<Rightarrow> w_db w' = w_db w
  | Inr (dev, acct) \<Rightarrow>
      dev = device_id_of lib key \<and>
      (\<exists>k \<in> set (t_enrol (w_db w)). tk_hash k = hashToken lib token \<and> tk_used k = None \<and> tk_account k = acct) \<and>
      token_spent (hashToken lib token) (t_enrol (w_db w')) \<and>
      (\<exists>v \<in> set (t_devices (w_db w')). dv_key v = key \<and> dv_id v = dev \<and> dv_name v = name \<and> dv_status v = DevActive) \<and>
      boundTo dev acct (w_db w') \<and> (\<not> boundTo dev acct (w_db w) \<longrightarrow> activeAdmin dev acct (w_db w')) \<and>
      (\<forall>b. \<not> isBinding dev acct b \<longrightarrow> (b \<in> set (t_bindings (w_db w')) \<longleftrightarrow> b \<in> set (t_bindings (w_db w)))) \<and>
      (\<exists>row. t_audit (w_db w') = t_audit (w_db w) @ [row] \<and> au_action row = ActionDeviceEnrolled)"
  using assms by (rule enrolTx_effect)

definition demo_key :: string where
  "demo_key = hex_encode (lib_public toy_lib ''seed'')"

definition enrol_world :: world where
  "enrol_world = demo_world\<lparr>w_db := demo_db\<lparr>t_enrol := [\<lparr>tk_id = ''e1'', tk_account = ''acct'',
     tk_hash = hashToken toy_lib ''once'', tk_expires = 1, tk_used = None\<rparr>]\<rparr>\<rparr>"

lemma enrol_world_wf: "wf_db lib (w_db enrol_world)"
  by (simp add: enrol_world_def wf_defs demo_defs)

lemma demo_key_check: "key_check demo_key"
  by (simp add: key_check_def demo_key_def toy_lib_def list_all_iff hex_encode_lower)

lemma demo_audit_ok:
  "audit_args_ok (device_id_of toy_lib demo_key) ''acct'' ActionDeviceEnrolled
     (AuditDetails\<lparr>ad_account := ''acct'', ad_key := demo_key, ad_role := ''admin''\<rparr>)"
proof -
  have "\<not> is_lower_hex (CHR 0x2F)" "\<not> is_lower_hex (CHR 0x5C)" "\<not> is_lower_hex (CHR 0x00)"
    by (simp_all add: is_lower_hex_def byte_def)
  then have hex: "no_path (hex_encode s)" for s
    using hex_encode_lower by (auto simp: no_path_def)
  have id: "\<exists>s. device_id_of toy_lib demo_key = hex_encode s"
    by (simp add: device_id_of_def demo_key_def)
  have "no_path demo_key" "no_path (device_id_of toy_lib demo_key)" "no_path ''acct''" "no_path ''admin''" "no_path []"
    using hex id by (auto simp: demo_key_def no_path_def)
  then show ?thesis
    by (simp add: audit_args_ok_def detail_fields_def AuditDetails_def validActions_def)
qed

lemma enrol_world_run:
  "\<exists>w'. enrolTx toy_lib demo_key ''pc'' ''once'' enrol_world = (Inr (device_id_of toy_lib demo_key, ''acct''), w')"
  using appendAudit_ok [OF _ demo_audit_ok]
  by (simp add: enrolTx_def inTx_def andThen_def stmt_ok consumeEnrolToken_def spendToken_def tokenLive_def
      upsertDevice_def demo_key_check device_ids_def account_ids_def bindAdmin_def enrol_world_def demo_defs)

theorem enrolment_effect_witness:
  "\<exists>w'. enrolTx toy_lib demo_key ''pc'' ''once'' enrol_world = (Inr (device_id_of toy_lib demo_key, ''acct''), w') \<and>
     activeAdmin (device_id_of toy_lib demo_key) ''acct'' (w_db w')"
proof -
  obtain w' where run: "enrolTx toy_lib demo_key ''pc'' ''once'' enrol_world = (Inr (device_id_of toy_lib demo_key, ''acct''), w')"
    using enrol_world_run by blast
  have "\<not> boundTo (device_id_of toy_lib demo_key) ''acct'' (w_db enrol_world)"
    by (simp add: boundTo_def enrol_world_def demo_defs)
  with enrolment_effect [OF enrol_world_wf run] run show ?thesis
    by auto
qed

section \<open>Disabling, and signing a PC out\<close>

lemma disableTx_triple:
  "triple (\<lambda>d. d = d0) (disableTx dev user) (\<lambda>_ d. \<exists>row.
     filter (\<lambda>v. dv_id v = dev \<and> activeAdmin dev user d0) (t_devices d0) \<noteq> [] \<and>
     d = d0\<lparr>t_devices := updateWhere (\<lambda>v. dv_id v = dev \<and> activeAdmin dev user d0)
           (\<lambda>v. v\<lparr>dv_status := DevDisabled\<rparr>) (t_devices d0), t_audit := t_audit d0 @ [row]\<rparr>)"
  unfolding disableTx_def
  by (intro triple_inTx triple_andThen [OF triple_stmt_sp] triple_if triple_fail triple_appendAudit)
    (auto simp: Let_def)

lemma unenrolTx_triple:
  "triple (\<lambda>d. d = d0) (unenrolTx key) (\<lambda>dev d. \<exists>qs t row.
     map dv_id (filter (\<lambda>v. dv_key v = key) (t_devices d0)) = dev # qs \<and>
     d = d0\<lparr>t_bindings := updateWhere (\<lambda>b. bn_device b = dev \<and> bn_revoked b = None)
           (\<lambda>b. b\<lparr>bn_revoked := Some t\<rparr>) (t_bindings d0), t_audit := t_audit d0 @ [row]\<rparr>)"
  unfolding unenrolTx_def
  by (intro triple_inTx triple_andThen [OF triple_query_sp] triple_andThen [OF triple_exec_sp]
      triple_andThen [OF appendAudit_triple] triple_ret)
    (clarsimp simp: firstRow_Inr, (rule exI)+, rule refl)

text \<open>
  Only an admin disables a device.  The transaction succeeds only if the caller holds an
  unrevoked admin binding on that device, and then the device is disabled and every other
  device is as before; otherwise nothing changes.
\<close>

theorem disable_needs_admin:
  assumes "disableTx dev user w = (res, w')"
  shows "case res of
    Inl _ \<Rightarrow> w_db w' = w_db w
  | Inr _ \<Rightarrow> activeAdmin dev user (w_db w) \<and> dev \<in> set (device_ids (w_db w')) \<and>
      (\<forall>v \<in> set (t_devices (w_db w')). dv_id v = dev \<longrightarrow> dv_status v = DevDisabled) \<and>
      (\<forall>v. dv_id v \<noteq> dev \<longrightarrow> (v \<in> set (t_devices (w_db w')) \<longleftrightarrow> v \<in> set (t_devices (w_db w)))) \<and>
      t_bindings (w_db w') = t_bindings (w_db w)"
proof (cases res)
  case (Inl e)
  then show ?thesis
    using assms inTx_Inl by (auto simp: disableTx_def)
next
  case (Inr u)
  let ?hit = "\<lambda>v. dv_id v = dev \<and> activeAdmin dev user (w_db w)"
  let ?f = "\<lambda>v. v\<lparr>dv_status := DevDisabled\<rparr>"
  obtain row where n: "filter ?hit (t_devices (w_db w)) \<noteq> []"
    and db: "w_db w' = (w_db w)\<lparr>t_devices := updateWhere ?hit ?f (t_devices (w_db w)),
      t_audit := t_audit (w_db w) @ [row]\<rparr>"
    using tripleD [OF disableTx_triple _ assms [unfolded Inr], of "w_db w"] by auto
  have adm: "activeAdmin dev user (w_db w)"
    using n by (auto simp: filter_empty_conv)
  have "dev \<in> set (device_ids (w_db w'))"
    using n by (auto simp: db device_ids_def updateWhere_map filter_empty_conv simp del: set_map) auto
  moreover have "\<forall>v \<in> set (updateWhere ?hit ?f (t_devices (w_db w))). dv_id v = dev \<longrightarrow> dv_status v = DevDisabled"
    by (intro ballI, erule updateWhere_all) (use adm in auto)
  moreover have "v \<in> set (updateWhere ?hit ?f (t_devices (w_db w))) \<longleftrightarrow> v \<in> set (t_devices (w_db w))"
    if "dv_id v \<noteq> dev" for v
    by (rule updateWhere_others [where A = "\<lambda>v. dv_id v = dev"]) (use that in auto)
  ultimately show ?thesis
    using Inr adm db by simp
qed

text \<open>
  A PC that signs itself out is off everybody's account: after the transaction no binding
  of the device whose key signed the request is active, and bindings of other devices are untouched.
\<close>

theorem unenrol_revokes_everyone:
  assumes "unenrolTx key w = (res, w')"
  shows "case res of
    Inl _ \<Rightarrow> w_db w' = w_db w
  | Inr dev \<Rightarrow> (\<exists>v \<in> set (t_devices (w_db w)). dv_key v = key \<and> dv_id v = dev) \<and>
      (\<forall>user. \<not> boundTo dev user (w_db w')) \<and>
      (\<forall>b. bn_device b \<noteq> dev \<longrightarrow> (b \<in> set (t_bindings (w_db w')) \<longleftrightarrow> b \<in> set (t_bindings (w_db w))))"
proof (cases res)
  case (Inl e)
  then show ?thesis
    using assms inTx_Inl by (auto simp: unenrolTx_def)
next
  case (Inr dev)
  let ?hit = "\<lambda>b. bn_device b = dev \<and> bn_revoked b = None"
  obtain t qs where d: "map dv_id (filter (\<lambda>v. dv_key v = key) (t_devices (w_db w))) = dev # qs"
    and b: "t_bindings (w_db w') = updateWhere ?hit (\<lambda>b. b\<lparr>bn_revoked := Some t\<rparr>) (t_bindings (w_db w))"
    using tripleD [OF unenrolTx_triple _ assms [unfolded Inr], of "w_db w"] by auto
  have "dev \<in> set (map dv_id (filter (\<lambda>v. dv_key v = key) (t_devices (w_db w))))"
    by (simp add: d)
  moreover have "\<forall>b \<in> set (t_bindings (w_db w')). bn_device b = dev \<longrightarrow> bn_revoked b \<noteq> None"
    unfolding b by (intro ballI, erule updateWhere_all) auto
  then have "\<not> boundTo dev user (w_db w')" for user
    by (auto simp: boundTo_def list_ex_iff isBinding_def)
  moreover have "c \<in> set (t_bindings (w_db w')) \<longleftrightarrow> c \<in> set (t_bindings (w_db w))" if "bn_device c \<noteq> dev" for c
    unfolding b by (rule updateWhere_others [where A = "\<lambda>b. bn_device b = dev"]) (use that in auto)
  ultimately show ?thesis
    using Inr by auto
qed

section \<open>Collecting an approval\<close>

definition spendEnrolment ::
  "string \<times> string \<Rightarrow> int \<Rightarrow> enrolment_row list \<Rightarrow> (string option \<times> enrolment_row list) option" where
  "spendEnrolment hk t rows =
     (let hit = (\<lambda>e. enrolmentWaiting (fst hk) (snd hk) t e \<and> en_status e = Approved) in
      case filter hit rows of [] \<Rightarrow> None
      | e # _ \<Rightarrow> Some (en_by e, updateWhere hit (\<lambda>e. e\<lparr>en_used := Some t\<rparr>) rows))"

definition enrolment_spent :: "string \<times> string \<Rightarrow> enrolment_row list \<Rightarrow> bool" where
  "enrolment_spent hk rows \<longleftrightarrow> (\<forall>e \<in> set rows. en_hash e = fst hk \<and> en_key e = snd hk \<longrightarrow> en_used e \<noteq> None)"

lemma collectEnrolment_spends:
  "collectEnrolment h key = stmt (\<lambda>t d. case spendEnrolment (h, key) t (t_enrolments d) of
      None \<Rightarrow> Inl ErrNoRows
    | Some (by, rows) \<Rightarrow> (case by of None \<Rightarrow> Inl ErrDb | Some acct \<Rightarrow> Inr (acct, d\<lparr>t_enrolments := rows\<rparr>)))"
  unfolding collectEnrolment_def spendEnrolment_def Let_def
  by (intro arg_cong [where f = stmt] ext) (simp split: list.splits)

lemma spendEnrolment_SomeD:
  assumes "spendEnrolment hk t rows = Some (r, rows')"
  shows "\<exists>e \<in> set rows. enrolmentWaiting (fst hk) (snd hk) t e \<and> en_status e = Approved \<and> en_by e = r"
    and "rows' = updateWhere (\<lambda>e. enrolmentWaiting (fst hk) (snd hk) t e \<and> en_status e = Approved)
      (\<lambda>e. e\<lparr>en_used := Some t\<rparr>) rows"
proof -
  obtain e es where e: "filter (\<lambda>e. enrolmentWaiting (fst hk) (snd hk) t e \<and> en_status e = Approved) rows = e # es"
    "en_by e = r"
    using assms by (auto simp: spendEnrolment_def Let_def split: list.splits)
  have "e \<in> set (filter (\<lambda>e. enrolmentWaiting (fst hk) (snd hk) t e \<and> en_status e = Approved) rows)"
    by (simp add: e(1))
  with e(2) show "\<exists>e \<in> set rows. enrolmentWaiting (fst hk) (snd hk) t e \<and> en_status e = Approved \<and> en_by e = r"
    by auto
  show "rows' = updateWhere (\<lambda>e. enrolmentWaiting (fst hk) (snd hk) t e \<and> en_status e = Approved)
      (\<lambda>e. e\<lparr>en_used := Some t\<rparr>) rows"
    using assms by (auto simp: spendEnrolment_def Let_def split: list.splits)
qed

lemma spendEnrolment_spends:
  assumes "distinct (map en_hash rows)" and "spendEnrolment hk t rows = Some (r, rows')"
  shows "enrolment_spent hk rows'"
proof -
  let ?hit = "\<lambda>e. enrolmentWaiting (fst hk) (snd hk) t e \<and> en_status e = Approved"
  obtain k where k: "k \<in> set rows" "?hit k"
    using spendEnrolment_SomeD(1) [OF assms(2)] by blast
  have one: "?hit q" if "q \<in> set rows" "en_hash q = fst hk" for q
  proof -
    have "q = k"
      using assms(1) that k inj_onD [of en_hash "set rows" q k] by (simp add: distinct_map enrolmentWaiting_def)
    then show ?thesis
      using k by simp
  qed
  show ?thesis
    unfolding enrolment_spent_def spendEnrolment_SomeD(2) [OF assms(2)]
    by (intro ballI, erule updateWhere_all) (use one in auto)
qed

interpretation browser_approval: single_use spendEnrolment enrolment_spent "\<lambda>rows. distinct (map en_hash rows)"
proof unfold_locales
  fix k t r and rows rows' :: "enrolment_row list" and k'
  assume "distinct (map en_hash rows)" and use: "spendEnrolment k t rows = Some (r, rows')"
  show "distinct (map en_hash rows')"
    unfolding spendEnrolment_SomeD(2) [OF use] using \<open>distinct (map en_hash rows)\<close> by (simp add: updateWhere_map)
  show "enrolment_spent k rows'"
    using \<open>distinct (map en_hash rows)\<close> use by (rule spendEnrolment_spends)
  show "enrolment_spent k' rows \<Longrightarrow> enrolment_spent k' rows'"
    unfolding spendEnrolment_SomeD(2) [OF use] enrolment_spent_def
    by (intro ballI, erule updateWhere_all) auto
next
  fix k t and rows :: "enrolment_row list"
  assume "enrolment_spent k rows"
  then have "filter (\<lambda>e. enrolmentWaiting (fst k) (snd k) t e \<and> en_status e = Approved) rows = []"
    by (auto simp: filter_empty_conv enrolment_spent_def enrolmentWaiting_def)
  then show "spendEnrolment k t rows = None"
    by (simp add: spendEnrolment_def)
qed

lemma pollTx_triple:
  "triple (\<lambda>d. d = d0) (pollTx lib h key) (\<lambda>raw d. \<exists>t acct rows i e.
     spendEnrolment (h, key) t (t_enrolments d0) = Some (Some acct, rows) \<and>
     d = d0\<lparr>t_enrolments := rows, t_enrol := t_enrol d0 @
       [\<lparr>tk_id = i, tk_account = acct, tk_hash = hashToken lib raw, tk_expires = e, tk_used = None\<rparr>]\<rparr>)"
proof -
  have tok: "triple P (newRawToken lib) (\<lambda>rt d. P d \<and> snd rt = hashToken lib (fst rt))" for P
    by (auto simp: triple_def newRawToken_def act_Inr Let_def hashToken_def)
  have ins: "triple P (insertEnrolToken acct hh) (\<lambda>_ d. \<exists>d1 i e. P d1 \<and> d = d1\<lparr>t_enrol := t_enrol d1 @
       [\<lparr>tk_id = i, tk_account = acct, tk_hash = hh, tk_expires = e, tk_used = None\<rparr>]\<rparr>)" for P acct hh
    unfolding insertEnrolToken_def
  proof (rule triple_andThen [where R = "\<lambda>_. P"])
    show "triple P newUuid (\<lambda>_. P)"
      by (auto simp: triple_def newUuid_Inr)
  qed (rule triple_stmt, auto simp: tokenInsert_def split: sum.splits if_splits)
  have coll: "triple (\<lambda>d. d = d0) (collectEnrolment h key) (\<lambda>acct d. \<exists>t rows.
      spendEnrolment (h, key) t (t_enrolments d0) = Some (Some acct, rows) \<and> d = d0\<lparr>t_enrolments := rows\<rparr>)"
    unfolding collectEnrolment_spends
    by (rule triple_stmt) (clarsimp split: option.splits, intro exI conjI, assumption, rule refl)
  show ?thesis
    unfolding pollTx_def
    by (intro triple_inTx triple_andThen [OF coll] triple_andThen [OF tok] triple_andThen [OF ins] triple_ret)
      (clarsimp, intro exI conjI, assumption, rule refl)
qed

text \<open>
  A browser approval hands one token to one PC.  When a poll collects a token, there was an
  enrolment row for the code and for the very key that signed the poll, approved and neither
  used nor expired; the new token belongs to the account that approved it; and the row is spent
  from then on, so no later poll gets a token for it.
\<close>

theorem poll_collects_once:
  assumes "wf_db lib' (w_db w)" and "pollTx lib h key w = (Inr raw, w')"
  shows "(\<exists>e \<in> set (t_enrolments (w_db w)). \<exists>acct. en_hash e = h \<and> en_key e = key \<and> en_status e = Approved \<and>
      en_used e = None \<and> en_by e = Some acct \<and>
      (\<exists>k \<in> set (t_enrol (w_db w')). tk_hash k = hashToken lib raw \<and> tk_account k = acct \<and> tk_used k = None)) \<and>
    (\<forall>w2 raw2 w3. t_enrolments (w_db w2) = t_enrolments (w_db w') \<longrightarrow> pollTx lib h key w2 \<noteq> (Inr raw2, w3))"
proof -
  obtain t acct rows i e where s: "spendEnrolment (h, key) t (t_enrolments (w_db w)) = Some (Some acct, rows)"
    and db: "w_db w' = (w_db w)\<lparr>t_enrolments := rows, t_enrol := t_enrol (w_db w) @
       [\<lparr>tk_id = i, tk_account = acct, tk_hash = hashToken lib raw, tk_expires = e, tk_used = None\<rparr>]\<rparr>"
    using tripleD [OF pollTx_triple _ assms(2), of "w_db w"] by blast
  have spent: "enrolment_spent (h, key) rows" "distinct (map en_hash rows)"
    using browser_approval.use_spends [OF wf_dbD(26) [OF assms(1)] s]
      browser_approval.use_ok [OF wf_dbD(26) [OF assms(1)] s] .
  have "pollTx lib h key w2 \<noteq> (Inr raw2, w3)" if "t_enrolments (w_db w2) = rows" for w2 raw2 w3
  proof
    assume "pollTx lib h key w2 = (Inr raw2, w3)"
    from tripleD [OF pollTx_triple _ this, of "w_db w2"] show False
      using browser_approval.spent_refused [OF spent(2,1)] that by auto
  qed
  then show ?thesis
    using spendEnrolment_SomeD(1) [OF s] db by (auto simp: enrolmentWaiting_def)
qed

section \<open>User codes\<close>

lemma userCodeLoop_ok:
  "userCodeLoop draws code = Some (c, rest) \<Longrightarrow> length code \<le> 8 \<Longrightarrow> set code \<subseteq> set userCodeAlphabet \<Longrightarrow>
   length c = 8 \<and> set c \<subseteq> set userCodeAlphabet"
proof (induction draws code rule: userCodeLoop.induct)
  case (1 draws code)
  have alpha: "userCodeAlphabet ! (n mod length userCodeAlphabet) \<in> set userCodeAlphabet" for n
    by (rule nth_mem) (simp add: userCodeAlphabet_def)
  show ?case
  proof (cases "8 \<le> length code")
    case True
    then show ?thesis
      using 1 by (simp add: userCodeLoop.simps [of draws code])
  next
    case False
    have eq: "(case draws of (b # _) # rest \<Rightarrow>
          if byte b \<ge> 240 then userCodeLoop rest code
          else userCodeLoop rest (code @ [userCodeAlphabet ! (byte b mod length userCodeAlphabet)])
      | _ \<Rightarrow> None) = Some (c, rest)"
      using 1(3) False by (simp add: userCodeLoop.simps [of draws code])
    then obtain b bs rest' where d: "draws = (b # bs) # rest'"
      by (auto split: list.splits)
    let ?code' = "code @ [userCodeAlphabet ! (byte b mod length userCodeAlphabet)]"
    have step: "length ?code' \<le> 8" "set ?code' \<subseteq> set userCodeAlphabet"
      using False 1(5) alpha by auto
    show ?thesis
    proof (cases "240 \<le> byte b")
      case True
      then show ?thesis
        using 1(1) [OF \<open>\<not> 8 \<le> length code\<close> d refl] 1(4,5) eq d by simp
    next
      case small: False
      then show ?thesis
        using 1(2) [OF False d refl] step eq d by simp
    qed
  qed
qed

lemma alphabet_chars: "c \<in> set userCodeAlphabet \<Longrightarrow> 65 \<le> byte c \<and> byte c \<le> 90"
  by (auto simp: userCodeAlphabet_def byte_def)

lemma upper_lower: "65 \<le> byte c \<and> byte c \<le> 90 \<Longrightarrow> upper_char (lower_char c) = c \<and> upper_char c = c"
  by (auto simp: upper_char_def lower_char_def)

lemma filter_dash: "set c \<subseteq> set userCodeAlphabet \<Longrightarrow> filter (\<lambda>x. x \<noteq> CHR ''-'') c = c"
  by (auto simp: filter_id_conv userCodeAlphabet_def)

lemma upper_dash: "upper_char (CHR ''-'') = CHR ''-''"
  by (simp add: upper_char_def byte_def)

text \<open>
  A minted code reads back.  Every code is eight letters of the alphabet with a dash in the
  middle, and what a person types, in either case, with or without the dash, and with spaces
  around it, is hashed as those eight letters.
\<close>

theorem user_code_reads_back:
  assumes "newUserCode w = (Inr code, w')"
  shows "\<exists>c. length c = 8 \<and> set c \<subseteq> set userCodeAlphabet \<and> code = take 4 c @ ''-'' @ drop 4 c \<and>
    normalizeUserCode lib code = c \<and> normalizeUserCode lib c = c \<and>
    normalizeUserCode lib (map lower_char code) = c"
proof -
  obtain c rest where c: "userCodeLoop (w_rand w) [] = Some (c, rest)" "code = take 4 c @ ''-'' @ drop 4 c"
    using assms by (auto simp: newUserCode_def split: option.splits)
  have ok: "length c = 8" "set c \<subseteq> set userCodeAlphabet"
    using userCodeLoop_ok [OF c(1)] by auto
  have range: "65 \<le> byte x \<and> byte x \<le> 90" if "x \<in> set c" for x
    using ok(2) that alphabet_chars by blast
  have norm: "normalizeUserCode lib s = filter (\<lambda>x. x \<noteq> CHR ''-'') (map upper_char s)"
    if "\<forall>x \<in> set s. 32 < byte x \<and> byte x < 128" for s
    using that trimSpace_clean [OF that] by (auto simp: normalizeUserCode_def toUpper_def is_ascii_def list_all_iff)
  have dash: "32 < byte (CHR ''-'') \<and> byte (CHR ''-'') < 128" "lower_char (CHR ''-'') = CHR ''-''"
    by (simp_all add: byte_def lower_char_def)
  have up: "map upper_char c = c" "map (upper_char \<circ> lower_char) c = c"
    using range upper_lower by (simp_all add: map_idI)
  have parts: "filter (\<lambda>x. x \<noteq> CHR ''-'') (take 4 c) = take 4 c" "filter (\<lambda>x. x \<noteq> CHR ''-'') (drop 4 c) = drop 4 c"
    by (rule filter_dash, use ok(2) set_take_subset set_drop_subset in fastforce)+
  have s1: "\<forall>x \<in> set code. 32 < byte x \<and> byte x < 128" "\<forall>x \<in> set c. 32 < byte x \<and> byte x < 128"
    using range dash by (fastforce simp: c(2) dest: in_set_takeD in_set_dropD)+
  have s2: "\<forall>x \<in> set (map lower_char code). 32 < byte x \<and> byte x < 128"
    using s1(1) by (auto simp: lower_char_def)
  have "normalizeUserCode lib code = c"
    unfolding norm [OF s1(1)] using up parts by (simp add: c(2) take_map [symmetric] drop_map [symmetric] upper_dash)
  moreover have "normalizeUserCode lib c = c"
    unfolding norm [OF s1(2)] using up filter_dash [OF ok(2)] by simp
  moreover have "normalizeUserCode lib (map lower_char code) = c"
    unfolding norm [OF s2] using up parts by (simp add: c(2) take_map [symmetric] drop_map [symmetric] upper_dash dash)
  ultimately show ?thesis
    using ok c(2) by blast
qed

section \<open>Concrete runs\<close>

definition demo_dev :: string where
  "demo_dev = device_id_of toy_lib demo_key"

definition guest_account :: account_row where
  "guest_account = \<lparr>ar_id = ''guest'', ar_email = ''g@b.c'', ar_password = None, ar_verified = None\<rparr>"

definition pc_db :: db where
  "pc_db = demo_db\<lparr>t_accounts := [demo_account, guest_account],
     t_devices := [\<lparr>dv_key = demo_key, dv_id = demo_dev, dv_name = ''pc'', dv_status = DevActive\<rparr>],
     t_bindings := [\<lparr>bn_device = demo_dev, bn_user = ''acct'', bn_role = Admin, bn_by = Some ''acct'',
         bn_created = 0, bn_revoked = None\<rparr>],
     t_invites := [\<lparr>iv_id = ''inv'', iv_device = demo_dev, iv_by = ''acct'', iv_hash = hashToken toy_lib ''code'',
         iv_role = Guest, iv_expires = hour, iv_used = None, iv_used_by = None\<rparr>],
     t_enrolments := [\<lparr>en_hash = ''h'', en_key = demo_key, en_name = ''pc'', en_status = Approved,
         en_by = Some ''acct'', en_expires = hour, en_used = None\<rparr>]\<rparr>"

definition pc_world :: world where
  "pc_world = sample_world\<lparr>w_db := pc_db\<rparr>"

lemmas pc_defs = pc_world_def pc_db_def guest_account_def demo_defs

lemma pc_wf: "wf_db toy_lib (w_db pc_world)"
  by (simp add: pc_defs wf_defs demo_dev_def demo_key_check enrolment_ok_def)

lemma no_path_hex: "no_path (hex_encode s)"
proof -
  have "\<not> is_lower_hex (CHR 0x2F)" "\<not> is_lower_hex (CHR 0x5C)" "\<not> is_lower_hex (CHR 0x00)"
    by (simp_all add: is_lower_hex_def byte_def)
  then show ?thesis
    using hex_encode_lower by (auto simp: no_path_def)
qed

lemma demo_dev_hex: "demo_dev = hex_encode (lib_sha256 toy_lib (lib_public toy_lib ''seed''))"
  by (simp add: demo_dev_def device_id_of_def demo_key_def)

lemma demo_dev_ok: "no_path demo_dev" "demo_dev \<noteq> []" "no_path demo_key"
proof -
  have "lib_sha256 toy_lib s \<noteq> []" for s
    by (cases s) (simp_all add: toy_lib_def)
  then show "demo_dev \<noteq> []"
    unfolding demo_dev_hex hex_encode_eq_Nil .
  show "no_path demo_dev" "no_path demo_key"
    unfolding demo_dev_hex demo_key_def by (rule no_path_hex)+
qed

lemma audit_demo:
  assumes "action \<in> set validActions" and "actor \<noteq> []" and "no_path actor"
    and "list_all (\<lambda>(f, v). no_path v) (detail_fields dt)"
  shows "audit_args_ok demo_dev actor action dt"
  using assms demo_dev_ok by (simp add: audit_args_ok_def)

lemma disable_run:
  "\<exists>w'. disableTx demo_dev ''acct'' pc_world = (Inr (), w')"
proof -
  have "audit_args_ok demo_dev ''acct'' ActionDeviceDisabled
      (AuditDetails\<lparr>ad_account := ''acct'', ad_from := ''active'', ad_to := ''disabled''\<rparr>)"
    by (rule audit_demo) (simp_all add: validActions_def no_path_def detail_fields_def AuditDetails_def)
  note ok = appendAudit_ok [OF _ this]
  show ?thesis
    by (simp add: disableTx_def inTx_def andThen_def stmt_ok Let_def activeAdmin_def isBinding_def ok pc_defs)
qed

theorem disable_needs_admin_witness:
  "activeAdmin demo_dev ''acct'' (w_db pc_world) \<and> fst (disableTx demo_dev ''guest'' pc_world) \<noteq> Inr ()"
proof -
  obtain w' where run: "disableTx demo_dev ''acct'' pc_world = (Inr (), w')"
    using disable_run by blast
  have "\<not> activeAdmin demo_dev ''guest'' (w_db pc_world)"
    by (simp add: pc_defs activeAdmin_def isBinding_def)
  then show ?thesis
    using disable_needs_admin [OF run] disable_needs_admin [of demo_dev "''guest''" pc_world, OF prod.collapse [symmetric]]
    by (auto split: sum.splits)
qed

lemma unenrol_run:
  "\<exists>w'. unenrolTx demo_key pc_world = (Inr demo_dev, w')"
proof -
  have "audit_args_ok demo_dev demo_dev ActionDeviceUnenrolled (AuditDetails\<lparr>ad_key := demo_key\<rparr>)"
    by (rule audit_demo) (simp_all add: validActions_def no_path_def [of "[]"] detail_fields_def AuditDetails_def demo_dev_ok)
  note ok = appendAudit_ok [OF _ this]
  show ?thesis
    by (simp add: unenrolTx_def inTx_def andThen_def stmt_ok query_ok exec_ok firstRow_def ok pc_defs)
qed

theorem unenrol_revokes_everyone_witness:
  "boundTo demo_dev ''acct'' (w_db pc_world) \<and> \<not> boundTo demo_dev ''acct'' (w_db (snd (unenrolTx demo_key pc_world)))"
proof -
  obtain w' where run: "unenrolTx demo_key pc_world = (Inr demo_dev, w')"
    using unenrol_run by blast
  have "boundTo demo_dev ''acct'' (w_db pc_world)"
    by (simp add: pc_defs boundTo_def isBinding_def)
  then show ?thesis
    using unenrol_revokes_everyone [OF run] run by simp
qed

theorem poll_collects_once_witness:
  "fst (pollTx toy_lib ''h'' demo_key pc_world) = Inr (b64url_encode ''salt'') \<and>
   (\<exists>k \<in> set (t_enrol (w_db (snd (pollTx toy_lib ''h'' demo_key pc_world)))). tk_account k = ''acct'')"
proof -
  obtain w' where run: "pollTx toy_lib ''h'' demo_key pc_world = (Inr (b64url_encode ''salt''), w')"
    by (simp add: pollTx_def collectEnrolment_def inTx_def andThen_def stmt_ok Let_def enrolmentWaiting_def
        newRawToken_def readRand_def insertEnrolToken_def newUuid_def tokenInsert_def account_ids_def pc_defs)
  from poll_collects_once [OF pc_wf run] have "\<exists>k \<in> set (t_enrol (w_db w')). tk_account k = ''acct''"
    by (auto simp: pc_defs)
  then show ?thesis
    using run by simp
qed

definition code_draws :: "string list" where
  "code_draws = map (\<lambda>n. [chr n]) [255, 0, 1, 2, 3, 4, 5, 6, 7]"

theorem user_code_reads_back_witness:
  "length (normalizeUserCode toy_lib (map lower_char ''BCDF-GHJK'')) = 8 \<and>
   normalizeUserCode toy_lib (map lower_char ''BCDF-GHJK'') = normalizeUserCode toy_lib ''BCDF-GHJK''"
proof -
  have "newUserCode (pc_world\<lparr>w_rand := code_draws\<rparr>) = (Inr ''BCDF-GHJK'', pc_world\<lparr>w_rand := []\<rparr>)"
    by (simp add: newUserCode_def code_draws_def userCodeLoop.simps userCodeAlphabet_def)
  from user_code_reads_back [OF this, of toy_lib] show ?thesis
    by metis
qed

end
