(* ===== verification/Tunnel.thy ===== *)
theory Tunnel
  imports EnrolFacts
begin

text \<open>
  \<^verbatim>\<open>hosted/control-plane/tunnel.go\<close>: the registry of live agent connections, the heartbeat, and
  the handshake.  A tunnel's identity, a pointer in the source, is the number \<open>tn_conn\<close>; the
  registry also keeps which connections were closed.  The socket and HTTP/2 are outside: what
  taking the connection over gave is an argument of \<open>openTunnel\<close>, and so are the outcomes of the
  pings that \<open>watch\<close> sends.
\<close>

definition reasonReplaced :: string where "reasonReplaced = ''replaced''"
definition reasonTimeout :: string where "reasonTimeout = ''heartbeat timeout''"
definition reasonClosed :: string where "reasonClosed = ''closed''"

record tunnel =
  tn_device :: string
  tn_conn :: nat

record tunnelRegistry =
  rg_live :: "(string \<times> tunnel) list"
  rg_closed :: "nat list"

definition newTunnelRegistry :: tunnelRegistry where
  "newTunnelRegistry = \<lparr>rg_live = [], rg_closed = []\<rparr>"

definition tunnel_close :: "tunnel \<Rightarrow> tunnelRegistry \<Rightarrow> tunnelRegistry" where
  "tunnel_close t reg =
     (if tn_conn t \<in> set (rg_closed reg) then reg
      else reg\<lparr>rg_closed := tn_conn t # rg_closed reg\<rparr>)"

definition registry_get :: "string \<Rightarrow> tunnelRegistry \<Rightarrow> tunnel option" where
  "registry_get deviceID reg = map_of (rg_live reg) deviceID"

definition registry_put :: "tunnel \<Rightarrow> tunnelRegistry \<Rightarrow> tunnel option \<times> tunnelRegistry" where
  "registry_put t reg =
     (registry_get (tn_device t) reg,
      reg\<lparr>rg_live := (tn_device t, t) # filter (\<lambda>e. fst e \<noteq> tn_device t) (rg_live reg)\<rparr>)"

definition registry_drop :: "tunnel \<Rightarrow> tunnelRegistry \<Rightarrow> bool \<times> tunnelRegistry" where
  "registry_drop t reg =
     (if registry_get (tn_device t) reg \<noteq> Some t then (False, reg)
      else (True, reg\<lparr>rg_live := filter (\<lambda>e. fst e \<noteq> tn_device t) (rg_live reg)\<rparr>))"

definition registry_online :: "string \<Rightarrow> tunnelRegistry \<Rightarrow> bool" where
  "registry_online deviceID reg \<longleftrightarrow> registry_get deviceID reg \<noteq> None"

definition registry_count :: "tunnelRegistry \<Rightarrow> nat" where
  "registry_count reg = length (rg_live reg)"

text \<open>What one turn of the heartbeat sees: the tunnel was closed, or the ping was answered, ran
  into its deadline, or failed.\<close>

datatype ping = Closed | Answered | Deadline | Failed

fun registry_watch :: "ping list \<Rightarrow> string option" where
  "registry_watch [] = None"
| "registry_watch (Closed # ps) = Some reasonClosed"
| "registry_watch (Answered # ps) = registry_watch ps"
| "registry_watch (Deadline # ps) = Some reasonTimeout"
| "registry_watch (Failed # ps) = Some reasonClosed"

definition registry_record :: "tunnel \<Rightarrow> string \<Rightarrow> string \<Rightarrow> world \<Rightarrow> world" where
  "registry_record t action reason w =
     snd (appendAudit (tn_device t) (tn_device t) action (AuditDetails\<lparr>ad_reason := reason\<rparr>) w)"

text \<open>The handler after the handshake, in two halves: before and after \<open>watch\<close>.\<close>

definition tunnelConnect :: "tunnel \<Rightarrow> tunnelRegistry \<Rightarrow> world \<Rightarrow> tunnelRegistry \<times> world" where
  "tunnelConnect t reg w =
     (case registry_put t reg of (old, reg1) \<Rightarrow>
        (case old of
           None \<Rightarrow> (reg1, registry_record t ActionTunnelConnected [] w)
         | Some o1 \<Rightarrow> (tunnel_close o1 reg1,
             registry_record t ActionTunnelConnected []
               (registry_record o1 ActionTunnelDisconnected reasonReplaced w))))"

definition tunnelEnd :: "tunnel \<Rightarrow> string \<Rightarrow> tunnelRegistry \<Rightarrow> world \<Rightarrow> tunnelRegistry \<times> world" where
  "tunnelEnd t reason reg w =
     (case registry_drop t (tunnel_close t reg) of
        (True, reg') \<Rightarrow> (reg', registry_record t ActionTunnelDisconnected reason w)
      | (False, reg') \<Rightarrow> (reg', w))"

datatype hijack = HijackFails | EarlyBytes | WriteFails | ClientFails | Hijacked nat

definition openTunnel ::
  "golib \<Rightarrow> int \<Rightarrow> request \<Rightarrow> string option \<Rightarrow> hijack \<Rightarrow> tunnelRegistry \<Rightarrow> response \<Rightarrow> world \<Rightarrow>
     (response \<times> world) \<times> tunnelRegistry \<times> tunnel option" where
  "openTunnel lib clk r inp hj reg rw w =
     (case inp of None \<Rightarrow> ((badBody rw, w), reg, None)
      | Some body \<Rightarrow> (case verifyAgentSignature lib clk r body w of
          (Inl _, w1) \<Rightarrow> ((writeAuthError 401
              (case Verify lib clk r body of Inl msg \<Rightarrow> msg | Inr _ \<Rightarrow> ''nonce already used'') rw, w1), reg, None)
        | (Inr deviceKey, w1) \<Rightarrow>
          (case query (\<lambda>t d. firstRow (filter (\<lambda>v. dv_key v = deviceKey) (t_devices d))) w1 of
            (Inl e, w2) \<Rightarrow> ((if e = ErrNoRows then writeAuthError 404 ''device not enrolled'' rw else tryAgain rw, w2), reg, None)
          | (Inr dev, w2) \<Rightarrow>
            if dv_status dev \<noteq> DevActive then ((writeAuthError 403 ''device disabled'' rw, w2), reg, None)
            else (case query (\<lambda>t d. Inr (list_ex (\<lambda>b. bn_device b = dv_id dev \<and> bn_revoked b = None) (t_bindings d))) w2 of
                (Inl _, w3) \<Rightarrow> ((tryAgain rw, w3), reg, None)
              | (Inr bound, w3) \<Rightarrow>
                if \<not> bound then ((writeAuthError 410 ''device removed from its account'' rw, w3), reg, None)
                else (case hj of
                    HijackFails \<Rightarrow> ((tryAgain rw, w3), reg, None)
                  | Hijacked c \<Rightarrow>
                      let t = \<lparr>tn_device = dv_id dev, tn_conn = c\<rparr> in
                      (case tunnelConnect t reg w3 of (reg', w4) \<Rightarrow> ((rw, w4), reg', Some t))
                  | _ \<Rightarrow> ((rw, w3), reg, None))))))"

section \<open>The registry's contract\<close>

text \<open>
  A table of sessions: one live entry per device, replaced by a newer one, and removed only by
  its own session.
\<close>

locale session_table =
  fixes get :: "string \<Rightarrow> 'r \<Rightarrow> 's option"
    and put :: "'s \<Rightarrow> 'r \<Rightarrow> 's option \<times> 'r"
    and drop :: "'s \<Rightarrow> 'r \<Rightarrow> bool \<times> 'r"
    and dev :: "'s \<Rightarrow> string"
  assumes put_get: "get d (snd (put t r)) = (if d = dev t then Some t else get d r)"
    and put_old: "fst (put t r) = get (dev t) r"
    and drop_get: "get d (snd (drop t r)) = (if d = dev t \<and> get (dev t) r = Some t then None else get d r)"
    and drop_own: "fst (drop t r) \<longleftrightarrow> get (dev t) r = Some t"
begin

lemma replacement_survives:
  "t \<noteq> t' \<Longrightarrow> dev t = dev t' \<Longrightarrow> get (dev t) (snd (drop t (snd (put t' r)))) = Some t' \<and> \<not> fst (drop t (snd (put t' r)))"
  by (simp add: drop_get drop_own put_get)

lemma drop_twice: "\<not> fst (drop t (snd (drop t r)))"
  by (simp add: drop_own drop_get)

lemma put_then_drop: "fst (drop t (snd (put t r))) \<and> get (dev t) (snd (drop t (snd (put t r)))) = None"
  by (simp add: drop_own drop_get put_get)

lemma other_device: "d \<noteq> dev t \<Longrightarrow> get d (snd (put t r)) = get d r \<and> get d (snd (drop t r)) = get d r"
  by (simp add: drop_get put_get)

end

lemma map_of_filter_key: "map_of (filter (\<lambda>e. fst e \<noteq> k) xs) k' = (if k' = k then None else map_of xs k')"
  by (induction xs) auto

interpretation tunnels: session_table registry_get registry_put registry_drop tn_device
  by unfold_locales (auto simp: registry_get_def registry_put_def registry_drop_def map_of_filter_key)

lemma get_close [simp]: "registry_get d (tunnel_close t reg) = registry_get d reg"
  by (simp add: registry_get_def tunnel_close_def)

section \<open>Life of the tunnels\<close>

lemma connect_reg:
  "registry_get d (fst (tunnelConnect t reg w)) = (if d = tn_device t then Some t else registry_get d reg)"
proof -
  obtain o1 reg1 where p: "registry_put t reg = (o1, reg1)"
    by (cases "registry_put t reg")
  have "registry_get d (fst (tunnelConnect t reg w)) = registry_get d reg1"
    using p by (cases o1) (simp_all add: tunnelConnect_def)
  then show ?thesis
    using tunnels.put_get [of d t reg] p by simp
qed

lemma end_reg:
  "registry_get d (fst (tunnelEnd t reason reg w)) =
     (if d = tn_device t \<and> registry_get (tn_device t) reg = Some t then None else registry_get d reg)"
proof -
  obtain b reg1 where p: "registry_drop t (tunnel_close t reg) = (b, reg1)"
    by (cases "registry_drop t (tunnel_close t reg)")
  have "registry_get d (fst (tunnelEnd t reason reg w)) = registry_get d reg1"
    using p by (cases b) (simp_all add: tunnelEnd_def)
  then show ?thesis
    using tunnels.drop_get [of d t "tunnel_close t reg"] p by simp
qed

lemma end_drop: "fst (registry_drop t (tunnel_close t reg)) \<longleftrightarrow> registry_get (tn_device t) reg = Some t"
  by (simp add: tunnels.drop_own)

text \<open>
  The life of the tunnels, as events in the order they take effect: a handshake goes through, a handler's \<open>watch\<close> looks at
  the tunnel and may return, a device is removed and its tunnel closed, anything else on the server changes the database
  (but writes no row about a tunnel; only \<open>record\<close> does).  Each half of the handler runs as one event.
\<close>

datatype tunnelEvent = TConnects tunnel | TWatches tunnel "ping list" | TRemoved string | TOther world

record tstate =
  ts_reg :: tunnelRegistry
  ts_world :: world

definition tunnelRows :: "world \<Rightarrow> audit_row list" where
  "tunnelRows w = filter (\<lambda>a. au_action a = ActionTunnelConnected \<or> au_action a = ActionTunnelDisconnected) (t_audit (w_db w))"

fun tunnelStep :: "tunnelEvent \<Rightarrow> tstate \<Rightarrow> tstate" where
  "tunnelStep (TConnects t) s = (case tunnelConnect t (ts_reg s) (ts_world s) of (reg, w) \<Rightarrow> \<lparr>ts_reg = reg, ts_world = w\<rparr>)"
| "tunnelStep (TWatches t ps) s = (case registry_watch ps of None \<Rightarrow> s
     | Some reason \<Rightarrow> (case tunnelEnd t reason (ts_reg s) (ts_world s) of (reg, w) \<Rightarrow> \<lparr>ts_reg = reg, ts_world = w\<rparr>))"
| "tunnelStep (TRemoved d) s = (case registry_get d (ts_reg s) of None \<Rightarrow> s | Some t \<Rightarrow> s\<lparr>ts_reg := tunnel_close t (ts_reg s)\<rparr>)"
| "tunnelStep (TOther w) s = (if tunnelRows w = tunnelRows (ts_world s) then s\<lparr>ts_world := w\<rparr> else s)"

definition tunnelRun :: "tunnelEvent list \<Rightarrow> tstate \<Rightarrow> tstate" where
  "tunnelRun es s = foldl (\<lambda>s e. tunnelStep e s) s es"

section \<open>What the audit log should tell\<close>

text \<open>
  Read off the events alone, with no registry: a connection ends with the first thing that ends it, a newer connection of
  the same device or the return of its own \<open>watch\<close>; it stands if nothing has.
\<close>

fun firstEnd :: "tunnel \<Rightarrow> tunnelEvent list \<Rightarrow> string option" where
  "firstEnd t [] = None"
| "firstEnd t (TConnects u # es) = (if tn_device u = tn_device t then Some reasonReplaced else firstEnd t es)"
| "firstEnd t (TWatches u ps # es) = (if u = t \<and> registry_watch ps \<noteq> None then registry_watch ps else firstEnd t es)"
| "firstEnd t (TRemoved d # es) = firstEnd t es"
| "firstEnd t (TOther w # es) = firstEnd t es"

fun connectionRows :: "string \<Rightarrow> tunnelEvent list \<Rightarrow> (string \<times> string) list" where
  "connectionRows d [] = []"
| "connectionRows d (e # es) = (case e of
     TConnects t \<Rightarrow> (if tn_device t = d then (ActionTunnelConnected, []) #
         (case firstEnd t es of None \<Rightarrow> [] | Some reason \<Rightarrow> [(ActionTunnelDisconnected, reason)]) else [])
   | _ \<Rightarrow> []) @ connectionRows d es"

fun standingTunnel :: "string \<Rightarrow> tunnelEvent list \<Rightarrow> tunnel option" where
  "standingTunnel d [] = None"
| "standingTunnel d (e # es) = (case standingTunnel d es of Some u \<Rightarrow> Some u | None \<Rightarrow> (case e of
     TConnects t \<Rightarrow> (if tn_device t = d \<and> firstEnd t es = None then Some t else None)
   | _ \<Rightarrow> None))"

definition loggedOf :: "string \<Rightarrow> world \<Rightarrow> (string \<times> string) list" where
  "loggedOf d w = map (\<lambda>a. (au_action a, ad_reason (au_details a))) (filter (\<lambda>a. au_device a = Some d) (tunnelRows w))"

lemma firstEnd_snoc: "firstEnd t (es @ [e]) = (case firstEnd t es of None \<Rightarrow> firstEnd t [e] | Some r \<Rightarrow> Some r)"
  by (induction t es rule: firstEnd.induct) auto

lemma not_ended: "firstEnd t es = None \<Longrightarrow> tn_device t = d \<Longrightarrow> connectionRows d es = [] \<and> standingTunnel d es = None"
  by (induction t es rule: firstEnd.induct) (auto split: if_splits)

lemma standingTunnel_device: "standingTunnel d es = Some t \<Longrightarrow> tn_device t = d"
  by (induction es) (auto split: option.splits tunnelEvent.splits if_splits)

lemma connectionRows_connects:
  "connectionRows d (es @ [TConnects t]) = connectionRows d es @ (if tn_device t = d then
     (case standingTunnel d es of None \<Rightarrow> [] | Some _ \<Rightarrow> [(ActionTunnelDisconnected, reasonReplaced)]) @ [(ActionTunnelConnected, [])] else [])"
proof (induction es)
  case (Cons e es)
  then show ?case by (cases e) (auto simp: firstEnd_snoc dest: not_ended split: option.splits)
qed simp

lemma standingTunnel_connects: "standingTunnel d (es @ [TConnects t]) = (if tn_device t = d then Some t else standingTunnel d es)"
proof (induction es)
  case (Cons e es)
  then show ?case by (cases e) (auto simp: firstEnd_snoc split: option.splits)
qed simp

lemma connectionRows_watches:
  "registry_watch ps = Some reason \<Longrightarrow>
   connectionRows d (es @ [TWatches t ps]) = connectionRows d es @ (if standingTunnel d es = Some t then [(ActionTunnelDisconnected, reason)] else [])"
proof (induction es)
  case (Cons e es)
  then show ?case by (cases e) (auto simp: firstEnd_snoc dest: not_ended split: option.splits)
qed simp

lemma standingTunnel_watches:
  "registry_watch ps = Some reason \<Longrightarrow> standingTunnel d (es @ [TWatches t ps]) = (if standingTunnel d es = Some t then None else standingTunnel d es)"
proof (induction es)
  case (Cons e es)
  then show ?case by (cases e) (auto simp: firstEnd_snoc dest: not_ended split: option.splits)
qed simp

lemma quiet_event:
  assumes "\<And>t. firstEnd t [e] = None" "\<And>t. e \<noteq> TConnects t"
  shows "connectionRows d (es @ [e]) = connectionRows d es \<and> standingTunnel d (es @ [e]) = standingTunnel d es"
proof (induction es)
  case (Cons a es)
  then show ?case by (cases a) (auto simp: firstEnd_snoc assms split: option.splits)
qed (use assms in \<open>cases e; auto\<close>)

section \<open>What the audit log tells\<close>

text \<open>\<open>tells calm d w new w'\<close>: of the rows \<open>new\<close> the log of a device got those whose statement went through, in order, and all when calm.\<close>

definition tells :: "bool \<Rightarrow> string \<Rightarrow> world \<Rightarrow> (string \<times> string) list \<Rightarrow> world \<Rightarrow> bool" where
  "tells calm d w new w' \<longleftrightarrow> (\<exists>rs. loggedOf d w' = loggedOf d w @ rs \<and> subseq rs new \<and>
     (calm \<and> w_faults w = [] \<longrightarrow> rs = new \<and> w_faults w' = []))"

lemma tells_none: "tells calm d w [] w"
  by (auto simp: tells_def)

lemma tells_trans:
  assumes "tells calm d w a w'" "tells calm d w' b w''"
  shows "tells calm d w (a @ b) w''"
proof -
  obtain rs where rs: "loggedOf d w' = loggedOf d w @ rs" "subseq rs a" "calm \<and> w_faults w = [] \<longrightarrow> rs = a \<and> w_faults w' = []"
    using assms(1) by (auto simp: tells_def)
  obtain rs' where rs': "loggedOf d w'' = loggedOf d w' @ rs'" "subseq rs' b" "calm \<and> w_faults w' = [] \<longrightarrow> rs' = b \<and> w_faults w'' = []"
    using assms(2) by (auto simp: tells_def)
  show ?thesis
    unfolding tells_def using rs rs' by (intro exI [of _ "rs @ rs'"]) (auto intro: list_emb_append_mono)
qed

lemma record_tells:
  assumes d: "d \<noteq> []" "no_path d" and action: "action = ActionTunnelConnected \<or> action = ActionTunnelDisconnected" and "no_path reason"
  shows "tells calm d w (if tn_device t = d then [(action, reason)] else []) (registry_record t action reason w)"
proof (cases "audit_args_ok (tn_device t) (tn_device t) action (AuditDetails\<lparr>ad_reason := reason\<rparr>)")
  case False
  have "tn_device t \<noteq> d"
    using False assms by (auto simp: audit_args_ok_def detail_fields_def AuditDetails_def no_path_def validActions_def)
  then show ?thesis using False by (simp add: registry_record_def appendAudit_alt fail_def tells_none)
next
  case True
  let ?row = "auditRow (tn_device t) (tn_device t) action (AuditDetails\<lparr>ad_reason := reason\<rparr>) (w_now w)"
  have row: "au_action ?row = action" "au_device ?row = Some d \<longleftrightarrow> tn_device t = d" "ad_reason (au_details ?row) = reason"
    using d(1) by (auto simp: auditRow_def nullIf_def)
  show ?thesis
    using True action row
    by (auto simp: registry_record_def appendAudit_alt exec_def stmt_def Let_def tells_def loggedOf_def tunnelRows_def auditRow_def)
qed

lemma reasons_no_path: "no_path reasonReplaced" "no_path []" "registry_watch ps = Some r \<Longrightarrow> no_path r"
proof -
  have "no_path reasonClosed" "no_path reasonTimeout" by code_simp+
  then show "registry_watch ps = Some r \<Longrightarrow> no_path r" by (induction ps rule: registry_watch.induct) auto
qed (code_simp, simp add: no_path_def)

lemma connect_tells:
  assumes "d \<noteq> []" "no_path d" and reg: "\<forall>x t. registry_get x reg = Some t \<longrightarrow> tn_device t = x"
  shows "tells calm d w (if tn_device t = d then
      (case registry_get d reg of None \<Rightarrow> [] | Some _ \<Rightarrow> [(ActionTunnelDisconnected, reasonReplaced)]) @ [(ActionTunnelConnected, [])] else [])
     (snd (tunnelConnect t reg w))"
proof (cases "registry_get (tn_device t) reg")
  case None
  then show ?thesis
    using record_tells [OF assms(1,2), of ActionTunnelConnected "[]" calm w t]
    by (auto simp: tunnelConnect_def registry_put_def reasons_no_path)
next
  case (Some o1)
  have "tn_device o1 = tn_device t" using reg Some by blast
  let ?w = "registry_record o1 ActionTunnelDisconnected reasonReplaced w"
  have "tells calm d w (if tn_device o1 = d then [(ActionTunnelDisconnected, reasonReplaced)] else []) ?w"
    by (rule record_tells) (use assms in \<open>simp_all add: reasons_no_path\<close>)
  moreover have "tells calm d ?w (if tn_device t = d then [(ActionTunnelConnected, [])] else []) (registry_record t ActionTunnelConnected [] ?w)"
    by (rule record_tells) (use assms in \<open>simp_all add: reasons_no_path\<close>)
  ultimately have "tells calm d w ((if tn_device o1 = d then [(ActionTunnelDisconnected, reasonReplaced)] else []) @
      (if tn_device t = d then [(ActionTunnelConnected, [])] else [])) (registry_record t ActionTunnelConnected [] ?w)"
    by (rule tells_trans)
  then show ?thesis
    using Some \<open>tn_device o1 = tn_device t\<close> by (auto simp: tunnelConnect_def registry_put_def)
qed

lemma end_tells:
  assumes "d \<noteq> []" "no_path d" "no_path reason" and reg: "\<forall>x t. registry_get x reg = Some t \<longrightarrow> tn_device t = x"
  shows "tells calm d w (if registry_get d reg = Some t then [(ActionTunnelDisconnected, reason)] else []) (snd (tunnelEnd t reason reg w))"
proof (cases "registry_get (tn_device t) reg = Some t")
  case True
  then have "snd (tunnelEnd t reason reg w) = registry_record t ActionTunnelDisconnected reason w"
    by (simp add: tunnelEnd_def registry_drop_def)
  moreover have "registry_get d reg = Some t \<longleftrightarrow> tn_device t = d" using True reg by metis
  ultimately show ?thesis using record_tells [OF assms(1,2) _ assms(3), of ActionTunnelDisconnected calm w t] by simp
next
  case False
  then have "snd (tunnelEnd t reason reg w) = w" by (simp add: tunnelEnd_def registry_drop_def)
  moreover have "registry_get d reg \<noteq> Some t" using False reg by metis
  ultimately show ?thesis by (simp add: tells_none)
qed

lemma tunnelRun_snoc: "tunnelRun (es @ [e]) s = tunnelStep e (tunnelRun es s)"
  by (simp add: tunnelRun_def)

text \<open>The registry agrees with what the events say still stands, and the log with what they say should be told.\<close>

lemma run_tells:
  fixes w :: world
  assumes d: "d \<noteq> []" "no_path d" and calm: "\<And>w'. calm \<Longrightarrow> TOther w' \<in> set es \<Longrightarrow> w_faults w' = []"
  defines "s0 \<equiv> \<lparr>ts_reg = newTunnelRegistry, ts_world = w\<rparr>"
  shows "(\<forall>x. registry_get x (ts_reg (tunnelRun es s0)) = standingTunnel x es) \<and>
    tells calm d w (connectionRows d es) (ts_world (tunnelRun es s0))"
  using calm
proof (induction es rule: rev_induct)
  case Nil
  show ?case by (simp add: tunnelRun_def s0_def newTunnelRegistry_def registry_get_def tells_none)
next
  case (snoc e es)
  let ?s = "tunnelRun es s0"
  have reg: "\<forall>x. registry_get x (ts_reg ?s) = standingTunnel x es" and told: "tells calm d w (connectionRows d es) (ts_world ?s)"
    using snoc.IH snoc.prems by auto
  have dev: "\<forall>x t. registry_get x (ts_reg ?s) = Some t \<longrightarrow> tn_device t = x" using reg standingTunnel_device by simp
  show ?case
  proof (cases e)
    case (TConnects t)
    have "\<forall>x. registry_get x (ts_reg (tunnelRun (es @ [e]) s0)) = standingTunnel x (es @ [e])"
      using reg TConnects connect_reg [of _ t "ts_reg ?s" "ts_world ?s"] by (auto simp: tunnelRun_snoc standingTunnel_connects split: prod.splits)
    then show ?thesis
      using tells_trans [OF told connect_tells [OF d dev, of calm "ts_world ?s" t]] reg TConnects
      by (auto simp: tunnelRun_snoc connectionRows_connects split: prod.splits)
  next
    case (TWatches t ps)
    show ?thesis
    proof (cases "registry_watch ps")
      case None
      then show ?thesis using TWatches quiet_event [of e _ es] reg told by (simp add: tunnelRun_snoc)
    next
      case (Some reason)
      have "\<forall>x. registry_get x (ts_reg (tunnelRun (es @ [e]) s0)) = standingTunnel x (es @ [e])"
        using reg dev TWatches Some end_reg [of _ t reason "ts_reg ?s" "ts_world ?s"] standingTunnel_device [of _ es t]
        by (auto simp: tunnelRun_snoc standingTunnel_watches split: prod.splits)
      then show ?thesis
        using tells_trans [OF told end_tells [OF d reasons_no_path(3) [OF Some] dev, of calm "ts_world ?s" t]] reg TWatches Some
        by (auto simp: tunnelRun_snoc connectionRows_watches split: prod.splits)
    qed
  next
    case (TRemoved x)
    then show ?thesis using quiet_event [of e _ es] reg told by (auto simp: tunnelRun_snoc split: option.splits)
  next
    case (TOther w')
    have "tells calm d (ts_world ?s) [] w'" if "tunnelRows w' = tunnelRows (ts_world ?s)"
      using that snoc.prems [of w'] TOther by (auto simp: tells_def loggedOf_def)
    then show ?thesis
      using TOther quiet_event [of e _ es] reg told tells_trans [OF told, of "[]" w'] by (auto simp: tunnelRun_snoc)
  qed
qed

text \<open>
  C37.  The registry names the newest connection, and every connection's end is in the audit log once, with its reason.
  Take anything that can happen to the tunnels of one life of the server: handshakes, heartbeats that end, removed devices,
  and any other work on the database in between, each half of a handler taken as one step.  The tunnel the registry has for a device is the last one that connected, unless something ended it.
  While no statement fails, the rows the audit log gained about a device are, in order: for each connection one row that it
  came, and right after it, once something has ended it, one row with the reason, which is that it was replaced if the next
  connection came before its own \<^verbatim>\<open>watch\<close> returned, and what \<^verbatim>\<open>watch\<close> said otherwise.  When statements fail rows may
  be missing, but none is ever added, repeated or out of order.
\<close>

theorem tunnel_end_recorded_once:
  assumes "d \<noteq> []" "no_path d"
  shows "let s = tunnelRun es \<lparr>ts_reg = newTunnelRegistry, ts_world = w\<rparr> in
    registry_get d (ts_reg s) = standingTunnel d es \<and>
    (\<exists>rs. loggedOf d (ts_world s) = loggedOf d w @ rs \<and> subseq rs (connectionRows d es) \<and>
      (w_faults w = [] \<and> (\<forall>w'. TOther w' \<in> set es \<longrightarrow> w_faults w' = []) \<longrightarrow> rs = connectionRows d es))"
  using run_tells [OF assms, of "\<forall>w'. TOther w' \<in> set es \<longrightarrow> w_faults w' = []" es w] by (auto simp: tells_def Let_def)

definition demo_connections :: "tunnelEvent list" where
  "demo_connections =
     [TConnects \<lparr>tn_device = ''pc'', tn_conn = 1\<rparr>, TConnects \<lparr>tn_device = ''pc'', tn_conn = 2\<rparr>,
      TWatches \<lparr>tn_device = ''pc'', tn_conn = 1\<rparr> [ping.Closed], TWatches \<lparr>tn_device = ''pc'', tn_conn = 2\<rparr> [ping.Answered, ping.Deadline]]"

theorem tunnel_end_recorded_once_witness:
  "loggedOf ''pc'' (ts_world (tunnelRun demo_connections \<lparr>ts_reg = newTunnelRegistry, ts_world = pc_world\<rparr>)) =
     loggedOf ''pc'' pc_world @
     [(ActionTunnelConnected, []), (ActionTunnelDisconnected, reasonReplaced), (ActionTunnelConnected, []), (ActionTunnelDisconnected, reasonTimeout)]"
proof -
  have "no_path ''pc''" by code_simp
  moreover have "connectionRows ''pc'' demo_connections =
      [(ActionTunnelConnected, []), (ActionTunnelDisconnected, reasonReplaced), (ActionTunnelConnected, []), (ActionTunnelDisconnected, reasonTimeout)]"
    by (simp add: demo_connections_def)
  moreover have "w_faults pc_world = []" by (simp add: pc_defs)
  moreover have "TOther w' \<notin> set demo_connections" for w' by (simp add: demo_connections_def)
  ultimately show ?thesis using tunnel_end_recorded_once [of "''pc''" demo_connections pc_world] by (auto simp: Let_def)
qed

text \<open>
  A reconnecting agent is not shadowed.  When a second tunnel of a device is up, the late
  end of the first one leaves the second in place and records nothing.
\<close>

theorem late_end_keeps_replacement:
  assumes "tn_device t = tn_device t'" and "tn_conn t \<noteq> tn_conn t'"
  shows "registry_get (tn_device t) (fst (tunnelEnd t reason (fst (tunnelConnect t' reg w)) w')) = Some t' \<and>
    snd (tunnelEnd t reason (fst (tunnelConnect t' reg w)) w') = w'"
proof -
  have "t \<noteq> t'"
    using assms(2) by auto
  have "\<not> fst (registry_drop t (tunnel_close t (fst (tunnelConnect t' reg w))))"
    using assms(1) \<open>t \<noteq> t'\<close> by (simp add: end_drop connect_reg)
  then have "snd (tunnelEnd t reason (fst (tunnelConnect t' reg w)) w') = w'"
    by (auto simp: tunnelEnd_def split: prod.splits bool.splits)
  then show ?thesis
    using assms(1) \<open>t \<noteq> t'\<close> by (simp add: end_reg connect_reg)
qed

theorem late_end_keeps_replacement_witness:
  "registry_get ''pc'' (fst (tunnelEnd \<lparr>tn_device = ''pc'', tn_conn = 1\<rparr> reasonClosed
     (fst (tunnelConnect \<lparr>tn_device = ''pc'', tn_conn = 2\<rparr> newTunnelRegistry pc_world)) pc_world))
   = Some \<lparr>tn_device = ''pc'', tn_conn = 2\<rparr>"
  using late_end_keeps_replacement [of "\<lparr>tn_device = ''pc'', tn_conn = 1\<rparr>" "\<lparr>tn_device = ''pc'', tn_conn = 2\<rparr>"
      reasonClosed newTunnelRegistry pc_world pc_world]
  by simp

section \<open>The handshake\<close>

lemma verify_tables:
  assumes "verifyAgentSignature lib clk r body w = (res, w')"
  shows "t_devices (w_db w') = t_devices (w_db w)" and "t_bindings (w_db w') = t_bindings (w_db w)"
    and "t_audit (w_db w') = t_audit (w_db w)"
proof -
  have k: "keeps (\<lambda>d. t_devices d = t_devices (w_db w) \<and> t_bindings d = t_bindings (w_db w) \<and> t_audit d = t_audit (w_db w))
      (verifyAgentSignature lib clk r body)"
    by (rule verifyAgentSignature_frame) simp
  show "t_devices (w_db w') = t_devices (w_db w)" "t_bindings (w_db w') = t_bindings (w_db w)"
    "t_audit (w_db w') = t_audit (w_db w)"
    using keepsD [OF k _ assms] by simp_all
qed

lemma query_db: "query f w = (res, w') \<Longrightarrow> w_db w' = w_db w"
  by (auto simp: query_def stmt_def Let_def split: if_splits sum.splits)

text \<open>
  A tunnel opens only for a device of somebody's account.  If the handshake ends with a
  tunnel, the request was signed with the key of an enrolled device that is active and has an
  unrevoked binding, the tunnel carries that device's id, and it is the live one; in every
  other case the registry is unchanged.
\<close>

theorem tunnel_needs_bound_device:
  assumes "openTunnel lib clk r inp hj reg rw w = ((rw', w'), reg', res)"
  shows "case res of None \<Rightarrow> reg' = reg
    | Some t \<Rightarrow> (\<exists>body key nonce v. inp = Some body \<and> Verify lib clk r body = Inr (key, nonce) \<and>
        v \<in> set (t_devices (w_db w)) \<and> dv_key v = key \<and> dv_id v = tn_device t \<and> dv_status v = DevActive \<and>
        (\<exists>user. boundTo (tn_device t) user (w_db w)) \<and> registry_get (tn_device t) reg' = Some t)"
proof (cases res)
  case None
  then show ?thesis
    using assms by (auto simp: openTunnel_def Let_def split: option.splits prod.splits sum.splits if_splits hijack.splits)
next
  case (Some t)
  obtain body where inp: "inp = Some body"
    using assms Some by (cases inp) (simp_all add: openTunnel_def)
  obtain s w1 where v1: "verifyAgentSignature lib clk r body w = (s, w1)"
    by (cases "verifyAgentSignature lib clk r body w")
  obtain key where key: "s = Inr key"
    using assms Some inp v1 by (cases s) (simp_all add: openTunnel_def)
  let ?q = "\<lambda>t d. filter (\<lambda>v. dv_key v = key) (t_devices d)"
  obtain q w2 where q: "query (\<lambda>t d. firstRow (?q t d)) w1 = (q, w2)"
    by (cases "query (\<lambda>t d. firstRow (?q t d)) w1")
  obtain v where v: "q = Inr v" "dv_status v = DevActive"
    using assms Some inp v1 key q by (cases q) (auto simp: openTunnel_def split: if_splits)
  let ?e = "\<lambda>t d. Inr (list_ex (\<lambda>b. bn_device b = dv_id v \<and> bn_revoked b = None) (t_bindings d))"
  obtain b w3 where b: "query ?e w2 = (b, w3)"
    by (cases "query ?e w2")
  have b1: "b = Inr True"
    using assms Some inp v1 key q v b by (cases b) (auto simp: openTunnel_def split: if_splits)
  have t: "tn_device t = dv_id v" "registry_get (tn_device t) reg' = Some t"
    using assms Some inp v1 key q v b b1
    by (auto simp: openTunnel_def Let_def connect_reg split: hijack.splits prod.splits)
      (metis connect_reg fst_conv tunnel.select_convs(1))
  have first: "\<exists>rs. ?q (w_now w1) (w_db w1) = v # rs"
    using query_first_Inr [of ?q w1 v w2] q v(1) by simp
  then have "v \<in> set (filter (\<lambda>v. dv_key v = key) (t_devices (w_db w1)))"
    by (metis list.set_intros(1))
  moreover have "list_ex (\<lambda>b. bn_device b = dv_id v \<and> bn_revoked b = None) (t_bindings (w_db w2))"
    using b b1 by (auto simp: query_Inr)
  ultimately show ?thesis
    using verify_tables [OF v1] verifyAgentSignature_Inr [OF v1 [unfolded key]] query_db [OF q] Some inp t v(2)
    by (auto simp: boundTo_def list_ex_iff isBinding_def)
qed

text \<open>A signed request of the demonstration PC.\<close>

definition signed_world :: world where
  "signed_world = pc_world\<lparr>w_db := pc_db\<lparr>t_nonces :=
     [\<lparr>nn_nonce = ''0123456789abcdef'', nn_key = demo_key, nn_expires = agentNonceTTL\<rparr>]\<rparr>\<rparr>"

lemma demo_signed: "verifyAgentSignature toy_lib 0 (sample_request []) ''body'' pc_world = (Inr demo_key, signed_world)"
  by (simp add: verifyAgentSignature_def sample_request_accepted attempt_def exec_ok stmt_ok purgeNonces_def
      claimNonce_def signed_world_def agentNonceTTL_def interval_def pc_defs flip: demo_key_def)

theorem tunnel_needs_bound_device_witness:
  "\<exists>v \<in> set (t_devices (w_db pc_world)). dv_id v = demo_dev \<and> dv_status v = DevActive"
proof -
  let ?t = "\<lparr>tn_device = demo_dev, tn_conn = 3\<rparr>"
  have "\<exists>w' reg'. openTunnel toy_lib 0 (sample_request []) (Some ''body'') (Hijacked 3) newTunnelRegistry fresh_response pc_world
      = ((fresh_response, w'), reg', Some ?t)"
    by (simp add: openTunnel_def demo_signed)
      (simp add: Let_def query_ok firstRow_def signed_world_def pc_defs split: prod.splits)
  then show ?thesis
    using tunnel_needs_bound_device [of toy_lib 0 "sample_request []" "Some ''body''" "Hijacked 3" newTunnelRegistry
        fresh_response pc_world fresh_response _ _ "Some ?t"] by auto
qed

end
