(* ===== verification/Bindings.thy ===== *)
theory Bindings
  imports Tunnel
begin

text \<open>
  \<^verbatim>\<open>hosted/control-plane/bindings.go\<close> and \<^verbatim>\<open>invite.go\<close>: who may reach a device.  Listing, revoking,
  leaving, removing, and invites.  A path value that the statements cast to a UUID is read by
  \<open>uuid_in\<close>, a function that gives the canonical text of a UUID and nothing for other text; a
  duration by \<open>parseDuration\<close>.
\<close>

section \<open>Listing\<close>

definition isActiveAdmin :: "string \<Rightarrow> string \<Rightarrow> bool act" where
  "isActiveAdmin deviceID accountID = query (\<lambda>t d. Inr (activeAdmin deviceID accountID d))"

definition optTime :: "int option \<Rightarrow> json" where
  "optTime v = (case v of None \<Rightarrow> JNull | Some t \<Rightarrow> JNum t)"

text \<open>Byte order of strings, for \<^verbatim>\<open>ORDER BY\<close>.  Sorting is stable, so ties keep the order of the rows.\<close>

fun string_less_eq :: "string \<Rightarrow> string \<Rightarrow> bool" where
  "string_less_eq [] t = True"
| "string_less_eq (c # s) [] = False"
| "string_less_eq (c # s) (d # t) = (byte c < byte d \<or> (c = d \<and> string_less_eq s t))"

fun insertBy :: "('a \<Rightarrow> 'a \<Rightarrow> bool) \<Rightarrow> 'a \<Rightarrow> 'a list \<Rightarrow> 'a list" where
  "insertBy le x [] = [x]"
| "insertBy le x (y # ys) = (if le x y then x # y # ys else y # insertBy le x ys)"

definition sortBy :: "('a \<Rightarrow> 'a \<Rightarrow> bool) \<Rightarrow> 'a list \<Rightarrow> 'a list" where
  "sortBy le xs = foldr (insertBy le) xs []"

definition appsOf :: "string \<Rightarrow> db \<Rightarrow> string list" where
  "appsOf dev d = sortBy string_less_eq (map ap_name (filter (\<lambda>p. ap_device p = dev) (t_apps d)))"

definition deviceRows :: "string \<Rightarrow> db \<Rightarrow> (device_row \<times> binding_row) list" where
  "deviceRows user d =
     sortBy (\<lambda>x y. string_less_eq (dv_name (fst x)) (dv_name (fst y)) \<and>
         (dv_name (fst x) = dv_name (fst y) \<longrightarrow> string_less_eq (dv_id (fst x)) (dv_id (fst y))))
       [(v, b). b \<leftarrow> t_bindings d, bn_user b = user, v \<leftarrow> t_devices d, dv_id v = bn_device b]"

definition deviceJSON :: "tunnelRegistry \<Rightarrow> db \<Rightarrow> device_row \<times> binding_row \<Rightarrow> json" where
  "deviceJSON reg d vb = (case vb of (v, b) \<Rightarrow> JObj
     [(''device_id'', JStr (dv_id v)), (''name'', JStr (dv_name v)), (''status'', JStr (dev_status_text (dv_status v))),
      (''role'', JStr (role_text (bn_role b))), (''revoked_at'', optTime (bn_revoked b)),
      (''online'', JBool (registry_online (dv_id v) reg)),
      (''apps'', JArr (if bn_revoked b = None then map JStr (appsOf (dv_id v) d) else []))])"

definition listDevices :: "tunnelRegistry \<Rightarrow> ctx \<Rightarrow> handler" where
  "listDevices reg ctx rw = (case ctx of None \<Rightarrow> Pair (unauthorized rw)
   | Some (a, _) \<Rightarrow> attempt (query (\<lambda>t d. Inr (map (deviceJSON reg d) (deviceRows (ac_id a) d)))) (\<lambda>res. case res of
       Inl _ \<Rightarrow> Pair (tryAgain rw)
     | Inr out \<Rightarrow> Pair (writeJSON 200 (JObj [(''devices'', JArr out)]) rw)))"

definition userRows :: "string \<Rightarrow> db \<Rightarrow> (account_row \<times> binding_row) list" where
  "userRows dev d = sortBy (\<lambda>x y. bn_created (snd x) \<le> bn_created (snd y))
     [(a, b). b \<leftarrow> t_bindings d, bn_device b = dev, a \<leftarrow> t_accounts d, ar_id a = bn_user b]"

definition userJSON :: "account_row \<times> binding_row \<Rightarrow> json" where
  "userJSON ab = (case ab of (a, b) \<Rightarrow> JObj
     [(''user_id'', JStr (bn_user b)), (''email'', JStr (ar_email a)), (''role'', JStr (role_text (bn_role b))),
      (''created_at'', JNum (bn_created b)), (''revoked_at'', optTime (bn_revoked b))])"

definition listDeviceUsers :: "ctx \<Rightarrow> string \<Rightarrow> handler" where
  "listDeviceUsers ctx deviceID rw = (case ctx of None \<Rightarrow> Pair (unauthorized rw)
   | Some (a, _) \<Rightarrow> attempt (isActiveAdmin deviceID (ac_id a)) (\<lambda>res.
       if res \<noteq> Inr True then Pair (notFound rw)
       else attempt (query (\<lambda>t d. Inr (map userJSON (userRows deviceID d)))) (\<lambda>res. case res of
           Inl _ \<Rightarrow> Pair (tryAgain rw)
         | Inr out \<Rightarrow> Pair (writeJSON 200 (JObj [(''users'', JArr out)]) rw))))"

section \<open>Revoking\<close>

text \<open>\<^verbatim>\<open>SELECT 1 FROM devices ... FOR UPDATE\<close>: the lock makes the transactions on one device run in
  turn, which is how transactions run here.\<close>

definition lockDevice :: "string \<Rightarrow> unit act" where
  "lockDevice deviceID = query (\<lambda>t d. if deviceID \<in> set (device_ids d) then Inr () else Inl ErrNoRows)"

definition requireAdmin :: "string \<Rightarrow> string \<Rightarrow> unit act" where
  "requireAdmin deviceID user w = (case isActiveAdmin deviceID user w of
      (Inr True, w') \<Rightarrow> (Inr (), w')
    | (_, w') \<Rightarrow> (Inl ErrNoRows, w'))"

definition adminCount :: "string \<Rightarrow> db \<Rightarrow> nat" where
  "adminCount dev d = length (filter (\<lambda>b. bn_device b = dev \<and> bn_role b = Admin \<and> bn_revoked b = None) (t_bindings d))"

text \<open>The update, and the role it returns; \<open>target\<close> is cast to a UUID first.\<close>

definition revokeRow :: "(string \<Rightarrow> string option) \<Rightarrow> string \<Rightarrow> string \<Rightarrow> role act" where
  "revokeRow uuid_in deviceID target = stmt (\<lambda>t d. case uuid_in target of None \<Rightarrow> Inl ErrDb
   | Some user \<Rightarrow>
       let hit = (\<lambda>b. isBinding deviceID user b \<and> bn_revoked b = None \<and>
                   (bn_role b \<noteq> Admin \<or> adminCount deviceID d > 1)) in
       case filter hit (t_bindings d) of
         [] \<Rightarrow> Inl ErrNoRows
       | b # _ \<Rightarrow> Inr (bn_role b, d\<lparr>t_bindings := updateWhere hit (\<lambda>b. b\<lparr>bn_revoked := Some t\<rparr>) (t_bindings d)\<rparr>))"

definition stillActive :: "(string \<Rightarrow> string option) \<Rightarrow> string \<Rightarrow> string \<Rightarrow> bool act" where
  "stillActive uuid_in deviceID target = query (\<lambda>t d. case uuid_in target of None \<Rightarrow> Inl ErrDb
   | Some user \<Rightarrow> Inr (boundTo deviceID user d))"

definition revokeTx :: "(string \<Rightarrow> string option) \<Rightarrow> string \<Rightarrow> string \<Rightarrow> string \<Rightarrow> unit act" where
  "revokeTx uuid_in deviceID user target = inTx (
     andThen (lockDevice deviceID) (\<lambda>_.
     andThen (requireAdmin deviceID user) (\<lambda>_.
     attempt (revokeRow uuid_in deviceID target) (\<lambda>res. case res of
       Inl e \<Rightarrow> if e = ErrNoRows
           then andThen (stillActive uuid_in deviceID target) (\<lambda>active.
             if active then fail ErrLastAdmin else fail ErrNoRows)
           else fail e
     | Inr role \<Rightarrow> appendAudit deviceID user ActionBindingRevoked
           (AuditDetails\<lparr>ad_account := target, ad_role := role_text role\<rparr>)))))"

definition revokeBinding :: "(string \<Rightarrow> string option) \<Rightarrow> ctx \<Rightarrow> string \<Rightarrow> string \<Rightarrow> handler" where
  "revokeBinding uuid_in ctx deviceID target rw = (case ctx of None \<Rightarrow> Pair (unauthorized rw)
   | Some (a, _) \<Rightarrow>
     if validateToken ''device_id'' deviceID \<noteq> None \<or> validateToken ''user'' target \<noteq> None then Pair (notFound rw)
     else attempt (revokeTx uuid_in deviceID (ac_id a) target) (\<lambda>res. case res of
         Inl e \<Rightarrow> if e = ErrLastAdmin then Pair (writeAuthError 409 ''a device keeps at least one admin'' rw)
           else Pair (notFound rw)
       | Inr _ \<Rightarrow> Pair (writeJSON 200 ok_body rw)))"

definition leaveRow :: "string \<Rightarrow> string \<Rightarrow> role act" where
  "leaveRow deviceID user = stmt (\<lambda>t d.
     let hit = (\<lambda>b. isBinding deviceID user b \<and> bn_revoked b = None \<and> bn_role b \<noteq> Admin) in
     case filter hit (t_bindings d) of
       [] \<Rightarrow> Inl ErrNoRows
     | b # _ \<Rightarrow> Inr (bn_role b, d\<lparr>t_bindings := updateWhere hit (\<lambda>b. b\<lparr>bn_revoked := Some t\<rparr>) (t_bindings d)\<rparr>))"

definition leaveTx :: "string \<Rightarrow> string \<Rightarrow> unit act" where
  "leaveTx deviceID user = inTx (
     andThen (lockDevice deviceID) (\<lambda>_.
     attempt (leaveRow deviceID user) (\<lambda>res. case res of
       Inl e \<Rightarrow> if e = ErrNoRows
           then andThen (isActiveAdmin deviceID user) (\<lambda>admin.
             if admin then fail ErrAdminLeave else fail ErrNoRows)
           else fail e
     | Inr role \<Rightarrow> appendAudit deviceID user ActionBindingRevoked
           (AuditDetails\<lparr>ad_account := user, ad_role := role_text role\<rparr>))))"

definition leaveDevice :: "ctx \<Rightarrow> string \<Rightarrow> handler" where
  "leaveDevice ctx deviceID rw = (case ctx of None \<Rightarrow> Pair (unauthorized rw)
   | Some (a, _) \<Rightarrow>
     if validateToken ''device_id'' deviceID \<noteq> None then Pair (notFound rw)
     else attempt (leaveTx deviceID (ac_id a)) (\<lambda>res. case res of
         Inl e \<Rightarrow> if e = ErrNoRows then Pair (notFound rw)
           else if e = ErrAdminLeave
             then Pair (writeAuthError 403 ''the admin of a device does not leave it, they sign out on it'' rw)
           else Pair (tryAgain rw)
       | Inr _ \<Rightarrow> Pair (writeJSON 200 ok_body rw)))"

definition removeTx :: "string \<Rightarrow> string \<Rightarrow> unit act" where
  "removeTx deviceID user = inTx (
     andThen (lockDevice deviceID) (\<lambda>_.
     andThen (requireAdmin deviceID user) (\<lambda>_.
     andThen (exec (\<lambda>t d. d\<lparr>t_bindings := updateWhere (\<lambda>b. bn_device b = deviceID \<and> bn_revoked b = None)
        (\<lambda>b. b\<lparr>bn_revoked := Some t\<rparr>) (t_bindings d)\<rparr>)) (\<lambda>_.
     appendAudit deviceID user ActionDeviceRemoved (AuditDetails\<lparr>ad_account := user\<rparr>)))))"

definition removeDevice ::
  "ctx \<Rightarrow> string \<Rightarrow> tunnelRegistry \<Rightarrow> response \<Rightarrow> world \<Rightarrow> (response \<times> world) \<times> tunnelRegistry" where
  "removeDevice ctx deviceID reg rw w = (case ctx of None \<Rightarrow> ((unauthorized rw, w), reg)
   | Some (a, _) \<Rightarrow>
     if validateToken ''device_id'' deviceID \<noteq> None then ((notFound rw, w), reg)
     else (case removeTx deviceID (ac_id a) w of
         (Inl e, w') \<Rightarrow> ((if e = ErrNoRows then notFound rw else tryAgain rw, w'), reg)
       | (Inr _, w') \<Rightarrow> ((writeJSON 200 ok_body rw, w'),
           (case registry_get deviceID reg of None \<Rightarrow> reg | Some t \<Rightarrow> tunnel_close t reg))))"

section \<open>Invites\<close>

definition inviteTTL :: int where "inviteTTL = 24 * hour"
definition maxInviteTTL :: int where "maxInviteTTL = 7 * 24 * hour"
definition redeemAccountLimit :: nat where "redeemAccountLimit = 10"

definition insertInvite :: "string \<Rightarrow> string \<Rightarrow> string \<Rightarrow> role \<Rightarrow> int \<Rightarrow> int act" where
  "insertInvite dev user h role ttl = andThen newUuid (\<lambda>i. stmt (\<lambda>t d.
     if i \<in> set (map iv_id (t_invites d)) \<or> h \<in> set (map iv_hash (t_invites d)) then Inl ErrUnique
     else if dev \<notin> set (device_ids d) \<or> user \<notin> set (account_ids d) then Inl ErrDb
     else Inr (t + interval ttl, d\<lparr>t_invites := t_invites d @
        [\<lparr>iv_id = i, iv_device = dev, iv_by = user, iv_hash = h, iv_role = role,
          iv_expires = t + interval ttl, iv_used = None, iv_used_by = None\<rparr>]\<rparr>)))"

definition createInviteTx :: "string \<Rightarrow> string \<Rightarrow> string \<Rightarrow> role \<Rightarrow> int \<Rightarrow> int act" where
  "createInviteTx deviceID user h role ttl = inTx (
     andThen (query (\<lambda>t d. firstRow (map dv_status (filter (\<lambda>v. dv_id v = deviceID) (t_devices d))))) (\<lambda>status.
     andThen (requireAdmin deviceID user) (\<lambda>_.
     if status \<noteq> DevActive then fail ErrInviteDevice
     else andThen (insertInvite deviceID user h role ttl) (\<lambda>e.
     andThen (appendAudit deviceID user ActionInviteCreated
        (AuditDetails\<lparr>ad_account := user, ad_role := role_text role\<rparr>)) (\<lambda>_. ret e)))))"

fun parseRole :: "string \<Rightarrow> role option" where
  "parseRole s = (if s = [] \<or> s = ''guest'' then Some Guest else if s = ''admin'' then Some Admin else None)"

text \<open>\<open>inp\<close> is \<^verbatim>\<open>Some ('''', '''')\<close> for a request without a body, which is not decoded.\<close>

definition createInvite ::
  "golib \<Rightarrow> (string \<Rightarrow> int option) \<Rightarrow> ctx \<Rightarrow> string \<Rightarrow> (string \<times> string) option \<Rightarrow> handler" where
  "createInvite lib parseDuration ctx deviceID inp rw = (case ctx of None \<Rightarrow> Pair (unauthorized rw)
   | Some (a, _) \<Rightarrow>
     if validateToken ''device_id'' deviceID \<noteq> None then Pair (notFound rw)
     else (case inp of None \<Rightarrow> Pair (badBody rw)
     | Some (inRole, inExpires) \<Rightarrow> (case parseRole inRole of
         None \<Rightarrow> Pair (writeAuthError 400 ''role must be guest or admin'' rw)
       | Some role \<Rightarrow>
         (case (if inExpires = [] then Some inviteTTL
                else case parseDuration inExpires of None \<Rightarrow> None
                  | Some p \<Rightarrow> if p \<le> 0 \<or> p > maxInviteTTL then None else Some p) of
            None \<Rightarrow> Pair (writeAuthError 400 ''expires_in must be a duration up to 168h'' rw)
          | Some ttl \<Rightarrow> attempt (newRawToken lib) (\<lambda>res. case res of Inl _ \<Rightarrow> Pair (tryAgain rw)
            | Inr rt \<Rightarrow> attempt (createInviteTx deviceID (ac_id a) (snd rt) role ttl) (\<lambda>res. case res of
                Inl e \<Rightarrow> if e = ErrNoRows then Pair (notFound rw)
                  else if e = ErrInviteDevice then Pair (writeAuthError 403 ''device disabled'' rw)
                  else Pair (tryAgain rw)
              | Inr e \<Rightarrow> Pair (writeJSON 200 (JObj [(''code'', JStr (fst rt)),
                  (''role'', JStr (role_text role)), (''expires_at'', JNum e)]) rw)))))))"

definition inviteLive :: "string \<Rightarrow> int \<Rightarrow> invite_row \<Rightarrow> bool" where
  "inviteLive h t i \<longleftrightarrow> iv_hash i = h \<and> iv_used i = None \<and> iv_expires i > t"

text \<open>The select that joins the invite with its device and looks at both bindings.\<close>

definition inviteRow :: "string \<Rightarrow> string \<Rightarrow> int \<Rightarrow> db \<Rightarrow> (invite_row \<times> dev_status \<times> bool \<times> bool) list" where
  "inviteRow h user t d =
     [(i, dv_status v, activeAdmin (iv_device i) (iv_by i) d, boundTo (iv_device i) user d).
        i \<leftarrow> filter (inviteLive h t) (t_invites d), v \<leftarrow> t_devices d, dv_id v = iv_device i]"

text \<open>The guarded update, which the trigger \<^verbatim>\<open>invites_single_use\<close> lets pass for an unused row.\<close>

definition spendInvite ::
  "string \<Rightarrow> string \<Rightarrow> int \<Rightarrow> invite_row list \<Rightarrow> ((string \<times> role) \<times> invite_row list) option" where
  "spendInvite user inviteID t rows =
     (let hit = (\<lambda>i. iv_id i = inviteID \<and> iv_used i = None) in
      case filter hit rows of [] \<Rightarrow> None
      | i # _ \<Rightarrow> Some ((iv_device i, iv_role i),
          updateWhere hit (\<lambda>i. i\<lparr>iv_used := Some t, iv_used_by := Some user\<rparr>) rows))"

definition useInvite :: "string \<Rightarrow> string \<Rightarrow> (string \<times> role) act" where
  "useInvite user inviteID = stmt (\<lambda>t d. case spendInvite user inviteID t (t_invites d) of
      None \<Rightarrow> Inl ErrNoRows
    | Some (dr, rows) \<Rightarrow> if user \<notin> set (account_ids d) then Inl ErrDb else Inr (dr, d\<lparr>t_invites := rows\<rparr>))"

definition upsertBinding :: "string \<Rightarrow> string \<Rightarrow> role \<Rightarrow> string \<Rightarrow> unit act" where
  "upsertBinding dev user role creator = stmt (\<lambda>t d.
     if dev \<notin> set (device_ids d) \<or> user \<notin> set (account_ids d) then Inl ErrDb
     else if list_ex (isBinding dev user) (t_bindings d) then
       Inr ((), d\<lparr>t_bindings := updateWhere (isBinding dev user)
         (\<lambda>b. b\<lparr>bn_role := role, bn_by := Some creator, bn_revoked := None\<rparr>) (t_bindings d)\<rparr>)
     else Inr ((), d\<lparr>t_bindings := t_bindings d @
        [\<lparr>bn_device = dev, bn_user = user, bn_role = role, bn_by = Some creator, bn_created = t,
          bn_revoked = None\<rparr>]\<rparr>))"

definition redeemTx :: "golib \<Rightarrow> string \<Rightarrow> string \<Rightarrow> (string \<times> role) act" where
  "redeemTx lib user code = inTx (
     andThen (query (\<lambda>t d. firstRow (inviteRow (hashToken lib code) user t d))) (\<lambda>(i, status, creatorAdmin, alreadyBound).
     if status \<noteq> DevActive then fail ErrInviteDevice
     else if \<not> creatorAdmin then fail ErrInviteCreator
     else if alreadyBound then fail ErrAlreadyBound
     else andThen (useInvite user (iv_id i)) (\<lambda>(deviceID, role).
     andThen (upsertBinding deviceID user role (iv_by i)) (\<lambda>_.
     andThen (appendAudit deviceID user ActionInviteRedeemed
        (AuditDetails\<lparr>ad_account := user, ad_role := role_text role\<rparr>)) (\<lambda>_.
     ret (deviceID, role))))))"

definition redeemInvite :: "golib \<Rightarrow> account \<Rightarrow> string option \<Rightarrow> handler" where
  "redeemInvite lib a inp rw = (case inp of None \<Rightarrow> Pair (badBody rw)
   | Some code \<Rightarrow>
     let invalid = writeAuthError 404 ''invite invalid, expired or used'' rw in
     if code = [] then Pair invalid
     else attempt (redeemTx lib (ac_id a) code) (\<lambda>res. case res of
         Inl e \<Rightarrow> if e = ErrNoRows then Pair invalid
           else if e = ErrInviteDevice then Pair (writeAuthError 403 ''device disabled'' rw)
           else if e = ErrInviteCreator
             then Pair (writeAuthError 403 ''the invite was made by someone who no longer administers this device'' rw)
           else if e = ErrAlreadyBound then Pair (writeAuthError 409 ''already has access to this device'' rw)
           else Pair (tryAgain rw)
       | Inr (deviceID, role) \<Rightarrow> Pair (writeJSON 200
           (JObj [(''device_id'', JStr deviceID), (''role'', JStr (role_text role))]) rw)))"

text \<open>The handler around it, with the limiter that counts per account.\<close>

definition redeemInviteHandler ::
  "golib \<Rightarrow> ctx \<Rightarrow> string option \<Rightarrow> rateLimiter \<Rightarrow> response \<Rightarrow> world \<Rightarrow> (response \<times> world) \<times> rateLimiter" where
  "redeemInviteHandler lib ctx inp perAccount rw w = (case ctx of
      None \<Rightarrow> ((unauthorized rw, w), perAccount)
    | Some (a, _) \<Rightarrow> (case allow (w_now w) (ac_id a) perAccount of
        (False, l') \<Rightarrow> ((writeAuthError 429 ''too many requests''
            (rw\<lparr>rs_headers := header_set (rs_headers rw) ''Retry-After'' (formatInt (rateWindow div second))\<rparr>), w), l')
      | (True, l') \<Rightarrow> (redeemInvite lib a inp rw w, l')))"

end
