(* ===== verification/BindingsFacts.thy ===== *)
theory BindingsFacts
  imports Bindings
begin

text \<open>
  What \<open>Bindings\<close> guarantees: the invariant; a device keeps an admin through every revocation;
  an invite is spent once and gives exactly the role it carries; a removed device is unbound and
  its tunnel closed; a listing shows the caller's own devices only.
\<close>

section \<open>The invariant\<close>

lemma isActiveAdmin_keeps [keeps_intro]: "keeps P (isActiveAdmin dev user)"
  unfolding isActiveAdmin_def by (intro keeps_intro)

lemma lockDevice_keeps [keeps_intro]: "keeps P (lockDevice dev)"
  unfolding lockDevice_def by (intro keeps_intro)

lemma stillActive_keeps [keeps_intro]: "keeps P (stillActive f dev target)"
  unfolding stillActive_def by (intro keeps_intro)

lemma requireAdmin_keeps [keeps_intro]: "keeps P (requireAdmin dev user)"
  using isActiveAdmin_keeps [of P dev user]
  by (auto simp: keeps_def requireAdmin_def split: prod.splits sum.splits bool.splits)

lemma revokeRow_inv [keeps_intro]: "keeps (cp_inv lib a) (revokeRow f dev target)"
  unfolding revokeRow_def
  by (rule keeps_inv_stmt) (auto simp: Let_def intro!: wf_touch_bindings split: option.splits list.splits)

lemma leaveRow_inv [keeps_intro]: "keeps (cp_inv lib a) (leaveRow dev user)"
  unfolding leaveRow_def
  by (rule keeps_inv_stmt) (auto simp: Let_def intro!: wf_touch_bindings split: list.splits)

lemma revokeTx_inv [keeps_intro]: "keeps (cp_inv lib a) (revokeTx f dev user target)"
  unfolding revokeTx_def by (intro keeps_intro)

lemma leaveTx_inv [keeps_intro]: "keeps (cp_inv lib a) (leaveTx dev user)"
  unfolding leaveTx_def by (intro keeps_intro)

lemma removeTx_inv [keeps_intro]: "keeps (cp_inv lib a) (removeTx dev user)"
  unfolding removeTx_def
  by (intro keeps_intro keeps_inv_exec) (auto intro!: wf_touch_bindings)

lemma insertInvite_inv [keeps_intro]: "keeps (cp_inv lib a) (insertInvite dev user h role ttl)"
  unfolding insertInvite_def
proof (intro keeps_intro keeps_inv_stmt)
  fix i t d x d'
  assume wf: "wf_db lib d" and "(if i \<in> set (map iv_id (t_invites d)) \<or> h \<in> set (map iv_hash (t_invites d)) then Inl ErrUnique
     else if dev \<notin> set (device_ids d) \<or> user \<notin> set (account_ids d) then Inl ErrDb
     else Inr (t + interval ttl, d\<lparr>t_invites := t_invites d @
        [\<lparr>iv_id = i, iv_device = dev, iv_by = user, iv_hash = h, iv_role = role,
          iv_expires = t + interval ttl, iv_used = None, iv_used_by = None\<rparr>]\<rparr>)) = Inr (x, d')"
  then show "wf_db lib d'"
    using wf_dbD(20-24) [OF wf] by (auto intro!: wf_set_invites [OF wf] simp: image_subset_iff split: if_splits)
qed (auto split: if_splits)

lemma createInviteTx_inv [keeps_intro]: "keeps (cp_inv lib a) (createInviteTx dev user h role ttl)"
  unfolding createInviteTx_def by (intro keeps_intro)

lemma spendInvite_rows:
  "spendInvite user i t rows = Some (dr, rows') \<Longrightarrow>
   rows' = updateWhere (\<lambda>v. iv_id v = i \<and> iv_used v = None) (\<lambda>v. v\<lparr>iv_used := Some t, iv_used_by := Some user\<rparr>) rows"
  by (auto simp: spendInvite_def Let_def split: list.splits)

lemma wf_touch_invites:
  assumes "wf_db lib d"
  shows "wf_db lib (d\<lparr>t_invites := updateWhere P (\<lambda>v. v\<lparr>iv_used := Some t, iv_used_by := Some user\<rparr>) (t_invites d)\<rparr>)"
proof (rule wf_set_invites [OF assms])
  show "iv_used_by i \<noteq> None \<longrightarrow> iv_used i \<noteq> None"
    if "i \<in> set (updateWhere P (\<lambda>v. v\<lparr>iv_used := Some t, iv_used_by := Some user\<rparr>) (t_invites d))" for i
    using that by (rule updateWhere_all) (use wf_dbD(24) [OF assms] in auto)
qed (simp_all add: updateWhere_map wf_dbD(20-23) [OF assms] del: set_map)

lemma useInvite_inv [keeps_intro]: "keeps (cp_inv lib a) (useInvite user i)"
  unfolding useInvite_def
  by (rule keeps_inv_stmt)
    (auto dest!: spendInvite_rows intro!: wf_touch_invites split: option.splits if_splits)

lemma upsertBinding_inv [keeps_intro]: "keeps (cp_inv lib a) (upsertBinding dev user role creator)"
  unfolding upsertBinding_def
  by (rule keeps_inv_stmt) (auto intro!: wf_touch_bindings wf_add_binding split: if_splits)

lemma redeemTx_inv [keeps_intro]: "keeps (cp_inv lib a) (redeemTx lib' user code)"
  unfolding redeemTx_def by (intro keeps_intro)

lemma listDevices_keeps: "keeps P (listDevices reg ctx rw)"
  unfolding listDevices_def by (intro keeps_intro)

lemma listDeviceUsers_keeps: "keeps P (listDeviceUsers ctx dev rw)"
  unfolding listDeviceUsers_def by (intro keeps_intro)

lemma revokeBinding_inv: "keeps (cp_inv lib a) (revokeBinding f ctx dev target rw)"
  unfolding revokeBinding_def by (intro keeps_intro)

lemma leaveDevice_inv: "keeps (cp_inv lib a) (leaveDevice ctx dev rw)"
  unfolding leaveDevice_def by (intro keeps_intro)

lemma createInvite_inv: "keeps (cp_inv lib a) (createInvite lib' pd ctx dev inp rw)"
  unfolding createInvite_def by (intro keeps_intro)

lemma redeemInvite_inv: "keeps (cp_inv lib a) (redeemInvite lib' acc inp rw)"
  unfolding redeemInvite_def by (intro keeps_intro)

section \<open>A device keeps an admin\<close>

definition has_admin :: "string \<Rightarrow> db \<Rightarrow> bool" where
  "has_admin dev d \<longleftrightarrow> distinct (map (\<lambda>b. (bn_device b, bn_user b)) (t_bindings d)) \<and> adminCount dev d \<ge> 1"

abbreviation admin_row :: "string \<Rightarrow> binding_row \<Rightarrow> bool" where
  "admin_row dev b \<equiv> bn_device b = dev \<and> bn_role b = Admin \<and> bn_revoked b = None"

lemma one_binding:
  "distinct (map (\<lambda>b. (bn_device b, bn_user b)) rows) \<Longrightarrow> length (filter (isBinding dev user) rows) \<le> 1"
proof (induction rows)
  case (Cons b rows)
  have "filter (isBinding dev user) rows = []" if "isBinding dev user b"
    using Cons.prems that by (auto simp: filter_empty_conv isBinding_def image_iff)
  then show ?case
    using Cons by auto
qed simp

lemma revoke_one_admin:
  assumes "distinct (map (\<lambda>b. (bn_device b, bn_user b)) rows)"
    and "\<And>b. b \<in> set rows \<Longrightarrow> P b \<Longrightarrow> isBinding dev user b \<and> (admin_row dev b \<longrightarrow> length (filter (admin_row dev) rows) > 1)"
    and "length (filter (admin_row dev) rows) \<ge> 1"
  shows "length (filter (admin_row dev) (updateWhere P (\<lambda>b. b\<lparr>bn_revoked := Some t\<rparr>) rows)) \<ge> 1"
proof (cases "\<exists>b \<in> set rows. P b \<and> admin_row dev b")
  case False
  then have "filter (admin_row dev) (updateWhere P (\<lambda>b. b\<lparr>bn_revoked := Some t\<rparr>) rows) = filter (admin_row dev) rows"
    by (induction rows) auto
  then show ?thesis
    using assms(3) by simp
next
  case True
  then have many: "length (filter (admin_row dev) rows) > 1"
    using assms(2) by blast
  have isB: "isBinding dev user b" if "b \<in> set rows" "P b" for b
    using assms(2) [OF that] ..
  have upd: "filter (admin_row dev) (updateWhere P (\<lambda>b. b\<lparr>bn_revoked := Some t\<rparr>) rows) = filter (\<lambda>b. admin_row dev b \<and> \<not> P b) rows"
    by (induction rows) auto
  have "length (filter (admin_row dev) rows) =
      length (filter (\<lambda>b. admin_row dev b \<and> \<not> P b) rows) + length (filter (\<lambda>b. admin_row dev b \<and> P b) rows)"
    by (induction rows) auto
  moreover have "length (filter (\<lambda>b. admin_row dev b \<and> P b) rows) \<le> length (filter (isBinding dev user) rows)"
  proof -
    have eq: "filter (\<lambda>b. admin_row dev b \<and> P b) rows = filter (\<lambda>b. admin_row dev b \<and> P b) (filter (isBinding dev user) rows)"
      unfolding filter_filter using isB by (intro filter_cong) blast+
    show ?thesis
      by (subst eq) (rule length_filter_le)
  qed
  ultimately show ?thesis
    unfolding upd using many one_binding [OF assms(1), of dev user] by linarith
qed

lemma revokeRow_has_admin [keeps_intro]: "keeps (has_admin dev) (revokeRow f dev target)"
  unfolding revokeRow_def
proof (rule keeps_stmt)
  fix t d x d'
  assume P: "has_admin dev d"
    and "(case f target of None \<Rightarrow> Inl ErrDb
   | Some user \<Rightarrow>
       let hit = (\<lambda>b. isBinding dev user b \<and> bn_revoked b = None \<and>
                   (bn_role b \<noteq> Admin \<or> adminCount dev d > 1)) in
       case filter hit (t_bindings d) of
         [] \<Rightarrow> Inl ErrNoRows
       | b # _ \<Rightarrow> Inr (bn_role b, d\<lparr>t_bindings := updateWhere hit (\<lambda>b. b\<lparr>bn_revoked := Some t\<rparr>) (t_bindings d)\<rparr>)) = Inr (x, d')"
  then obtain user where d': "d' = d\<lparr>t_bindings := updateWhere (\<lambda>b. isBinding dev user b \<and> bn_revoked b = None \<and>
                   (bn_role b \<noteq> Admin \<or> adminCount dev d > 1)) (\<lambda>b. b\<lparr>bn_revoked := Some t\<rparr>) (t_bindings d)\<rparr>"
    by (auto simp: Let_def split: option.splits list.splits)
  then have tb: "t_bindings d' = updateWhere (\<lambda>b. isBinding dev user b \<and> bn_revoked b = None \<and>
      (bn_role b \<noteq> Admin \<or> adminCount dev d > 1)) (\<lambda>b. b\<lparr>bn_revoked := Some t\<rparr>) (t_bindings d)"
    by simp
  show "has_admin dev d'"
    unfolding has_admin_def
  proof
    show "distinct (map (\<lambda>b. (bn_device b, bn_user b)) (t_bindings d'))"
      using P by (simp add: d' updateWhere_map has_admin_def)
    show "1 \<le> adminCount dev d'"
      unfolding adminCount_def tb using P
      by (intro revoke_one_admin [where user = user]) (auto simp: has_admin_def adminCount_def)
  qed
qed

lemma leaveRow_has_admin [keeps_intro]: "keeps (has_admin dev) (leaveRow dev user)"
  unfolding leaveRow_def
proof (rule keeps_stmt)
  fix t d x d'
  assume P: "has_admin dev d" and "(let hit = (\<lambda>b. isBinding dev user b \<and> bn_revoked b = None \<and> bn_role b \<noteq> Admin) in
     case filter hit (t_bindings d) of
       [] \<Rightarrow> Inl ErrNoRows
     | b # _ \<Rightarrow> Inr (bn_role b, d\<lparr>t_bindings := updateWhere hit (\<lambda>b. b\<lparr>bn_revoked := Some t\<rparr>) (t_bindings d)\<rparr>)) = Inr (x, d')"
  then have d': "d' = d\<lparr>t_bindings := updateWhere (\<lambda>b. isBinding dev user b \<and> bn_revoked b = None \<and> bn_role b \<noteq> Admin)
      (\<lambda>b. b\<lparr>bn_revoked := Some t\<rparr>) (t_bindings d)\<rparr>"
    by (auto simp: Let_def split: list.splits)
  then have tb: "t_bindings d' = updateWhere (\<lambda>b. isBinding dev user b \<and> bn_revoked b = None \<and> bn_role b \<noteq> Admin)
      (\<lambda>b. b\<lparr>bn_revoked := Some t\<rparr>) (t_bindings d)"
    by simp
  show "has_admin dev d'"
    unfolding has_admin_def
  proof
    show "distinct (map (\<lambda>b. (bn_device b, bn_user b)) (t_bindings d'))"
      using P by (simp add: d' updateWhere_map has_admin_def)
    show "1 \<le> adminCount dev d'"
      unfolding adminCount_def tb using P
      by (intro revoke_one_admin [where user = user]) (auto simp: has_admin_def adminCount_def)
  qed
qed

lemma appendAudit_has_admin [keeps_intro]: "keeps (has_admin dev) (appendAudit x actor action details)"
  by (rule appendAudit_other) (simp add: has_admin_def adminCount_def)

lemma revokeTx_has_admin [keeps_intro]: "keeps (has_admin dev) (revokeTx f dev user target)"
  unfolding revokeTx_def by (intro keeps_intro)

lemma leaveTx_has_admin [keeps_intro]: "keeps (has_admin dev) (leaveTx dev user)"
  unfolding leaveTx_def by (intro keeps_intro)

datatype quit = Revoke string string | Leave string

definition quitTx :: "(string \<Rightarrow> string option) \<Rightarrow> string \<Rightarrow> quit \<Rightarrow> unit act" where
  "quitTx f dev q = (case q of Revoke user target \<Rightarrow> revokeTx f dev user target | Leave user \<Rightarrow> leaveTx dev user)"

fun runQuits :: "(string \<Rightarrow> string option) \<Rightarrow> string \<Rightarrow> quit list \<Rightarrow> world \<Rightarrow> world" where
  "runQuits f dev [] w = w"
| "runQuits f dev (q # qs) w = runQuits f dev qs (snd (quitTx f dev q w))"

text \<open>
  C34.  A device keeps at least one admin.  Start from a device with an active admin; after any
  sequence of revocations and departures on it, by whoever and of whomever, with any database
  faults, it still has an active admin.
\<close>

theorem last_admin_stays:
  assumes "wf_db lib (w_db w)" and "adminCount dev (w_db w) \<ge> 1"
  shows "adminCount dev (w_db (runQuits f dev qs w)) \<ge> 1"
proof -
  have "has_admin dev (w_db w) \<Longrightarrow> has_admin dev (w_db (runQuits f dev qs w))"
  proof (induction qs arbitrary: w)
    case (Cons q qs)
    have "keeps (has_admin dev) (quitTx f dev q)"
      by (cases q) (simp_all add: quitTx_def revokeTx_has_admin leaveTx_has_admin)
    then show ?case
      using Cons by (simp add: keeps_def)
  qed simp
  then show ?thesis
    using assms wf_dbD(15) [OF assms(1)] by (simp add: has_admin_def)
qed

theorem last_admin_stays_witness:
  "adminCount demo_dev (w_db (runQuits Some demo_dev [Revoke ''acct'' ''acct'', Leave ''acct''] pc_world)) \<ge> 1"
  by (rule last_admin_stays [OF pc_wf]) (simp add: adminCount_def pc_defs)

section \<open>Invites\<close>

definition invite_spent :: "string \<Rightarrow> invite_row list \<Rightarrow> bool" where
  "invite_spent i rows \<longleftrightarrow> (\<forall>v \<in> set rows. iv_id v = i \<longrightarrow> iv_used v \<noteq> None)"

lemma spendInvite_SomeD:
  assumes "spendInvite user i t rows = Some (dr, rows')"
  shows "\<exists>v \<in> set rows. iv_id v = i \<and> iv_used v = None \<and> dr = (iv_device v, iv_role v)"
proof -
  obtain v vs where v: "filter (\<lambda>v. iv_id v = i \<and> iv_used v = None) rows = v # vs" "dr = (iv_device v, iv_role v)"
    using assms by (auto simp: spendInvite_def Let_def split: list.splits)
  have "v \<in> set (filter (\<lambda>v. iv_id v = i \<and> iv_used v = None) rows)"
    by (simp add: v(1))
  then show ?thesis
    using v(2) by auto
qed

definition spendInviteAt ::
  "string \<Rightarrow> string \<times> int \<Rightarrow> invite_row list \<Rightarrow> ((string \<times> role) \<times> invite_row list) option" where
  "spendInviteAt inviteID ut rows = spendInvite (fst ut) inviteID (snd ut) rows"

interpretation invite: single_use spendInviteAt invite_spent "\<lambda>rows. True"
proof unfold_locales
  fix k ut r and rows rows' :: "invite_row list" and k'
  assume "spendInviteAt k ut rows = Some (r, rows')"
  then have use: "spendInvite (fst ut) k (snd ut) rows = Some (r, rows')"
    by (simp add: spendInviteAt_def)
  show "invite_spent k rows'"
    unfolding spendInvite_rows [OF use] invite_spent_def
    by (intro ballI, erule updateWhere_all) auto
  show "invite_spent k' rows \<Longrightarrow> invite_spent k' rows'"
    unfolding spendInvite_rows [OF use] invite_spent_def
    by (intro ballI, erule updateWhere_all) auto
next
  fix k ut and rows :: "invite_row list"
  assume "invite_spent k rows"
  then have "filter (\<lambda>v. iv_id v = k \<and> iv_used v = None) rows = []"
    by (auto simp: filter_empty_conv invite_spent_def)
  then show "spendInviteAt k ut rows = None"
    by (simp add: spendInviteAt_def spendInvite_def)
qed simp

text \<open>
  An invite lets one person in.  Whoever presents it, and in whatever order the guarded
  updates of their transactions run, at most one update gets the device and the role back.
\<close>

theorem invite_single_use:
  assumes "i < j" and "j < length us" and "fst (us ! i) = fst (us ! j)"
    and "runUses spendInviteAt rows us ! i \<noteq> None"
  shows "runUses spendInviteAt rows us ! j = None"
  using invite.at_most_once [OF TrueI assms] .

theorem invite_single_use_witness:
  "runUses spendInviteAt (t_invites pc_db) [(''inv'', ''guest'', 1), (''inv'', ''other'', 2)] ! 1 = None"
  by (rule invite_single_use [of 0]) (simp_all add: spendInviteAt_def spendInvite_def pc_db_def)

lemma upsertBinding_Inr:
  assumes "upsertBinding dev user role creator w = (Inr x, w')"
  shows "w_db w' = (w_db w)\<lparr>t_bindings := t_bindings (w_db w')\<rparr> \<and> boundTo dev user (w_db w') \<and>
    (\<forall>b \<in> set (t_bindings (w_db w')). isBinding dev user b \<longrightarrow> bn_role b = role \<and> bn_by b = Some creator) \<and>
    (\<forall>b. \<not> isBinding dev user b \<longrightarrow> (b \<in> set (t_bindings (w_db w')) \<longleftrightarrow> b \<in> set (t_bindings (w_db w))))"
proof -
  let ?f = "\<lambda>b. b\<lparr>bn_role := role, bn_by := Some creator, bn_revoked := None\<rparr>"
  have keep: "isBinding dev user (?f b) = isBinding dev user b" for b
    by (simp add: isBinding_def)
  show ?thesis
  proof (cases "list_ex (isBinding dev user) (t_bindings (w_db w))")
    case True
    then have db: "w_db w' = (w_db w)\<lparr>t_bindings := updateWhere (isBinding dev user) ?f (t_bindings (w_db w))\<rparr>"
      using assms by (auto simp: upsertBinding_def stmt_Inr split: if_splits)
    obtain b where b: "b \<in> set (t_bindings (w_db w))" "isBinding dev user b"
      using True by (auto simp: list_ex_iff)
    have "?f b \<in> set (updateWhere (isBinding dev user) ?f (t_bindings (w_db w)))"
      unfolding in_updateWhere using b by (intro bexI [of _ b]) auto
    then have "boundTo dev user (w_db w')"
      using b(2) keep by (auto simp: db boundTo_def list_ex_iff intro!: bexI [of _ "?f b"])
    moreover have "\<forall>c \<in> set (updateWhere (isBinding dev user) ?f (t_bindings (w_db w))).
        isBinding dev user c \<longrightarrow> bn_role c = role \<and> bn_by c = Some creator"
      by (intro ballI, erule updateWhere_all) auto
    moreover have "\<not> isBinding dev user c \<Longrightarrow>
        c \<in> set (updateWhere (isBinding dev user) ?f (t_bindings (w_db w))) \<longleftrightarrow> c \<in> set (t_bindings (w_db w))" for c
      by (rule updateWhere_others [where A = "isBinding dev user"]) (simp_all add: keep)
    ultimately show ?thesis
      using db by simp
  next
    case False
    then show ?thesis
      using assms
      by (auto simp: upsertBinding_def stmt_Inr boundTo_def isBinding_def list_ex_iff split: if_splits)
  qed
qed

lemma inviteRow_in:
  assumes "inviteRow h user t d = (v, st, ca, ab) # rest"
  shows "v \<in> set (t_invites d) \<and> inviteLive h t v \<and> ca = activeAdmin (iv_device v) (iv_by v) d \<and>
    ab = boundTo (iv_device v) user d \<and> (\<exists>dv \<in> set (t_devices d). dv_id dv = iv_device v \<and> dv_status dv = st)"
proof -
  have "(v, st, ca, ab) \<in> set (inviteRow h user t d)"
    by (simp add: assms)
  then show ?thesis
    by (auto simp: inviteRow_def split: if_splits)
qed

lemma redeemTx_effect:
  assumes "wf_db lib' (w_db w)" and "redeemTx lib user code w = (res, w')"
  shows "case res of
    Inl _ \<Rightarrow> w_db w' = w_db w
  | Inr (dev, role) \<Rightarrow>
      (\<exists>v \<in> set (t_invites (w_db w)). iv_hash v = hashToken lib code \<and> iv_used v = None \<and> iv_expires v > w_now w \<and>
         iv_device v = dev \<and> iv_role v = role \<and> activeAdmin dev (iv_by v) (w_db w) \<and>
         invite_spent (iv_id v) (t_invites (w_db w'))) \<and>
      (\<exists>dv \<in> set (t_devices (w_db w)). dv_id dv = dev \<and> dv_status dv = DevActive) \<and>
      \<not> boundTo dev user (w_db w) \<and> boundTo dev user (w_db w') \<and>
      (\<forall>b \<in> set (t_bindings (w_db w')). isBinding dev user b \<longrightarrow> bn_role b = role) \<and>
      (\<forall>b. \<not> isBinding dev user b \<longrightarrow> (b \<in> set (t_bindings (w_db w')) \<longleftrightarrow> b \<in> set (t_bindings (w_db w))))"
proof (cases res)
  case (Inl e)
  then show ?thesis
    using assms(2) inTx_Inl by (auto simp: redeemTx_def)
next
  case (Inr dr)
  obtain dev role where dr: "dr = (dev, role)"
    by (cases dr)
  obtain w1 w2 where w12: "w_db w1 = w_db w" "w_now w1 = w_now w" "w_db w' = w_db w2"
    and body: "andThen (query (\<lambda>t d. firstRow (inviteRow (hashToken lib code) user t d))) (\<lambda>(i, status, creatorAdmin, alreadyBound).
     if status \<noteq> DevActive then fail ErrInviteDevice
     else if \<not> creatorAdmin then fail ErrInviteCreator
     else if alreadyBound then fail ErrAlreadyBound
     else andThen (useInvite user (iv_id i)) (\<lambda>(deviceID, role).
     andThen (upsertBinding deviceID user role (iv_by i)) (\<lambda>_.
     andThen (appendAudit deviceID user ActionInviteRedeemed
        (AuditDetails\<lparr>ad_account := user, ad_role := role_text role\<rparr>)) (\<lambda>_.
     ret (deviceID, role))))) w1 = (Inr (dev, role), w2)"
    using assms(2) Inr dr unfolding redeemTx_def by (auto elim: inTx_Inr)
  then obtain v st ca ab wa where q0: "query (\<lambda>t d. firstRow (inviteRow (hashToken lib code) user t d)) w1 = (Inr (v, st, ca, ab), wa)"
    and rest0: "(if st \<noteq> DevActive then fail ErrInviteDevice
     else if \<not> ca then fail ErrInviteCreator
     else if ab then fail ErrAlreadyBound
     else andThen (useInvite user (iv_id v)) (\<lambda>(deviceID, role).
     andThen (upsertBinding deviceID user role (iv_by v)) (\<lambda>_.
     andThen (appendAudit deviceID user ActionInviteRedeemed
        (AuditDetails\<lparr>ad_account := user, ad_role := role_text role\<rparr>)) (\<lambda>_.
     ret (deviceID, role))))) wa = (Inr (dev, role), w2)"
    by (force simp: andThen_Inr [of "query _"])
  then obtain wb wc where st: "st = DevActive" "ca" "\<not> ab"
    and u: "useInvite user (iv_id v) wa = (Inr (dev, role), wb)"
    and b: "upsertBinding dev user role (iv_by v) wb = (Inr (), wc)"
    and a0: "appendAudit dev user ActionInviteRedeemed
        (AuditDetails\<lparr>ad_account := user, ad_role := role_text role\<rparr>) wc = (Inr (), w2)"
    by (auto simp: andThen_Inr split: if_splits)
  obtain row where a: "w_db w2 = (w_db wc)\<lparr>t_audit := t_audit (w_db wc) @ [row]\<rparr>"
    using appendAudit_adds [OF a0] by blast
  obtain rest where q: "inviteRow (hashToken lib code) user (w_now w) (w_db w) = (v, DevActive, True, False) # rest"
      "w_db wa = w_db w"
    using query_first_Inr [OF q0] w12 st by auto
  obtain t rows where s: "spendInvite user (iv_id v) t (t_invites (w_db w)) = Some ((dev, role), rows)"
      "w_db wb = (w_db w)\<lparr>t_invites := rows\<rparr>"
    using u q(2) by (auto simp: useInvite_def stmt_Inr split: option.splits if_splits)
  have v: "v \<in> set (t_invites (w_db w))" "inviteLive (hashToken lib code) (w_now w) v"
      "activeAdmin (iv_device v) (iv_by v) (w_db w)" "\<not> boundTo (iv_device v) user (w_db w)"
      "\<exists>dv \<in> set (t_devices (w_db w)). dv_id dv = iv_device v \<and> dv_status dv = DevActive"
    using inviteRow_in [OF q(1)] by auto
  have "dev = iv_device v" "role = iv_role v"
    using spendInvite_SomeD [OF s(1)] v(1) wf_dbD(20) [OF assms(1)] by (auto simp: distinct_map dest: inj_onD)
  moreover have "invite_spent (iv_id v) rows"
    using invite.use_spends [OF TrueI, of "iv_id v" "(user, t)"] s(1) by (simp add: spendInviteAt_def)
  moreover have "t_invites (w_db w') = rows"
    using arg_cong [OF conjunct1 [OF upsertBinding_Inr [OF b]], of t_invites] w12(3) a s(2) by simp
  moreover have "t_bindings (w_db w') = t_bindings (w_db wc)"
    using w12(3) a by simp
  moreover have "boundTo dev user (w_db w') = boundTo dev user (w_db wc)"
    using w12(3) a by (simp add: boundTo_def)
  moreover have "t_bindings (w_db wb) = t_bindings (w_db w)"
    using s(2) by simp
  ultimately show ?thesis
    using Inr dr v upsertBinding_Inr [OF b]
    by (auto simp: inviteLive_def)
qed

text \<open>
  What redeeming an invite does.  It succeeds only for a live invite of an active device
  whose maker is still an active admin there, and for somebody not bound already; then the
  invite is spent, the caller is bound with exactly the role the invite carries, and no other
  binding changed.  If it fails, no table changed.
\<close>

theorem redeem_effect:
  assumes "wf_db lib' (w_db w)" and "redeemTx lib user code w = (res, w')"
  shows "case res of
    Inl _ \<Rightarrow> w_db w' = w_db w
  | Inr (dev, role) \<Rightarrow>
      (\<exists>v \<in> set (t_invites (w_db w)). iv_hash v = hashToken lib code \<and> iv_used v = None \<and> iv_expires v > w_now w \<and>
         iv_device v = dev \<and> iv_role v = role \<and> activeAdmin dev (iv_by v) (w_db w) \<and>
         invite_spent (iv_id v) (t_invites (w_db w'))) \<and>
      (\<exists>dv \<in> set (t_devices (w_db w)). dv_id dv = dev \<and> dv_status dv = DevActive) \<and>
      \<not> boundTo dev user (w_db w) \<and> boundTo dev user (w_db w') \<and>
      (\<forall>b \<in> set (t_bindings (w_db w')). isBinding dev user b \<longrightarrow> bn_role b = role) \<and>
      (\<forall>b. \<not> isBinding dev user b \<longrightarrow> (b \<in> set (t_bindings (w_db w')) \<longleftrightarrow> b \<in> set (t_bindings (w_db w))))"
  using assms by (rule redeemTx_effect)

lemma redeem_run:
  "\<exists>w'. redeemTx toy_lib ''guest'' ''code'' pc_world = (Inr (demo_dev, Guest), w')"
proof -
  have "audit_args_ok demo_dev ''guest'' ActionInviteRedeemed
      (AuditDetails\<lparr>ad_account := ''guest'', ad_role := ''guest''\<rparr>)"
    by (rule audit_demo) (simp_all add: validActions_def no_path_def detail_fields_def AuditDetails_def)
  note ok = appendAudit_ok [OF _ this]
  show ?thesis
    by (simp add: redeemTx_def inTx_def andThen_def stmt_ok query_ok firstRow_def inviteRow_def inviteLive_def
        activeAdmin_def boundTo_def isBinding_def useInvite_def spendInvite_def upsertBinding_def
        device_ids_def account_ids_def ok pc_defs)
qed

theorem redeem_effect_witness:
  "\<exists>w'. redeemTx toy_lib ''guest'' ''code'' pc_world = (Inr (demo_dev, Guest), w') \<and>
     boundTo demo_dev ''guest'' (w_db w') \<and> \<not> boundTo demo_dev ''guest'' (w_db pc_world)"
proof -
  obtain w' where run: "redeemTx toy_lib ''guest'' ''code'' pc_world = (Inr (demo_dev, Guest), w')"
    using redeem_run by blast
  from redeem_effect [OF pc_wf run] run show ?thesis
    by auto
qed

section \<open>Removing\<close>

lemma requireAdmin_triple: "triple P (requireAdmin dev user) (\<lambda>_ d. P d \<and> activeAdmin dev user d)"
  unfolding triple_def requireAdmin_def isActiveAdmin_def
  by (auto simp: query_Inr split: prod.splits sum.splits bool.splits)

lemma lockDevice_triple: "triple P (lockDevice dev) (\<lambda>_. P)"
  unfolding lockDevice_def by (rule triple_query)

lemma removeTx_triple:
  "triple (\<lambda>d. d = d0) (removeTx dev user) (\<lambda>_ d. \<exists>t row. activeAdmin dev user d0 \<and>
     d = d0\<lparr>t_bindings := updateWhere (\<lambda>b. bn_device b = dev \<and> bn_revoked b = None)
           (\<lambda>b. b\<lparr>bn_revoked := Some t\<rparr>) (t_bindings d0), t_audit := t_audit d0 @ [row]\<rparr>)"
  unfolding removeTx_def
  by (intro triple_inTx triple_andThen [OF lockDevice_triple] triple_andThen [OF requireAdmin_triple]
      triple_andThen [OF triple_exec_sp] triple_appendAudit)
    (clarsimp, (rule exI)+, rule refl)

text \<open>
  Removing a device.  A removal that answers 200 was asked for by an active admin; afterwards
  nobody is bound to the device, the bindings of other devices are as before, and the
  connection that was live for the device is closed.
\<close>

theorem remove_unbinds_and_closes:
  assumes "removeDevice (Some (a, s)) dev reg rw w = ((rw', w'), reg')" and "rs_status rw = None"
    and "rs_status rw' = Some 200"
  shows "activeAdmin dev (ac_id a) (w_db w) \<and> (\<forall>user. \<not> boundTo dev user (w_db w')) \<and>
    (\<forall>b. bn_device b \<noteq> dev \<longrightarrow> (b \<in> set (t_bindings (w_db w')) \<longleftrightarrow> b \<in> set (t_bindings (w_db w)))) \<and>
    (\<forall>t. registry_get dev reg = Some t \<longrightarrow> tn_conn t \<in> set (rg_closed reg'))"
proof -
  have run: "removeTx dev (ac_id a) w = (Inr (), w')"
    and reg: "reg' = (case registry_get dev reg of None \<Rightarrow> reg | Some t \<Rightarrow> tunnel_close t reg)"
    using assms by (auto simp: removeDevice_def notFound_def tryAgain_def split: if_splits prod.splits sum.splits)
  obtain t row where adm: "activeAdmin dev (ac_id a) (w_db w)"
    and db: "w_db w' = (w_db w)\<lparr>t_bindings := updateWhere (\<lambda>b. bn_device b = dev \<and> bn_revoked b = None)
           (\<lambda>b. b\<lparr>bn_revoked := Some t\<rparr>) (t_bindings (w_db w)), t_audit := t_audit (w_db w) @ [row]\<rparr>"
    using tripleD [OF removeTx_triple _ run, of "w_db w"] by auto
  have tb: "t_bindings (w_db w') = updateWhere (\<lambda>b. bn_device b = dev \<and> bn_revoked b = None)
      (\<lambda>b. b\<lparr>bn_revoked := Some t\<rparr>) (t_bindings (w_db w))"
    by (simp add: db)
  have "\<forall>b \<in> set (t_bindings (w_db w')). bn_device b = dev \<longrightarrow> bn_revoked b \<noteq> None"
    unfolding tb by (intro ballI, erule updateWhere_all) auto
  moreover have "b \<in> set (t_bindings (w_db w')) \<longleftrightarrow> b \<in> set (t_bindings (w_db w))" if "bn_device b \<noteq> dev" for b
    unfolding tb by (rule updateWhere_others [where A = "\<lambda>b. bn_device b = dev"]) (use that in auto)
  ultimately show ?thesis
    using adm reg by (auto simp: boundTo_def list_ex_iff isBinding_def tunnel_close_def)
qed

lemma remove_run:
  "\<exists>w' reg'. removeDevice (Some (account_of demo_account, ''sess'')) demo_dev newTunnelRegistry fresh_response pc_world =
     ((writeJSON 200 ok_body fresh_response, w'), reg')"
proof -
  have "audit_args_ok demo_dev ''acct'' ActionDeviceRemoved (AuditDetails\<lparr>ad_account := ''acct''\<rparr>)"
    by (rule audit_demo) (simp_all add: validActions_def no_path_def detail_fields_def AuditDetails_def)
  note ok = appendAudit_ok [OF _ this]
  have "validateToken ''device_id'' demo_dev = None"
    using demo_dev_ok by (simp add: validateToken_None)
  then show ?thesis
    by (simp add: removeDevice_def removeTx_def inTx_def andThen_def lockDevice_def requireAdmin_def isActiveAdmin_def
        query_ok exec_ok stmt_ok activeAdmin_def isBinding_def device_ids_def account_of_def ok pc_defs)
qed

theorem remove_unbinds_and_closes_witness:
  "\<exists>w' reg'. removeDevice (Some (account_of demo_account, ''sess'')) demo_dev newTunnelRegistry fresh_response pc_world =
     ((writeJSON 200 ok_body fresh_response, w'), reg') \<and> \<not> boundTo demo_dev ''acct'' (w_db w')"
proof -
  obtain w' reg' where run: "removeDevice (Some (account_of demo_account, ''sess'')) demo_dev newTunnelRegistry
      fresh_response pc_world = ((writeJSON 200 ok_body fresh_response, w'), reg')"
    using remove_run by blast
  from remove_unbinds_and_closes [OF run] run show ?thesis
    by auto
qed

section \<open>Listings\<close>

lemma set_insertBy [simp]: "set (insertBy le x ys) = insert x (set ys)"
  by (induction ys) auto

lemma set_sortBy [simp]: "set (sortBy le xs) = set xs"
  unfolding sortBy_def by (induction xs) auto

lemma length_insertBy [simp]: "length (insertBy le x ys) = Suc (length ys)"
  by (induction ys) auto

lemma length_sortBy [simp]: "length (sortBy le xs) = length xs"
  unfolding sortBy_def by (induction xs) auto

text \<open>
  A listing shows the caller's own devices.  Every entry of \<^const>\<open>listDevices\<close> is a device the
  caller has a binding on, with that binding's role; the applications are named only when the binding is
  not revoked; and every device the caller is bound to is in the list.
\<close>

theorem listing_is_own_devices:
  assumes "w_faults w = []"
  shows "fst (listDevices reg (Some (a, s)) rw w) =
      writeJSON 200 (JObj [(''devices'', JArr (map (deviceJSON reg (w_db w)) (deviceRows (ac_id a) (w_db w))))]) rw \<and>
    (\<forall>v b. (v, b) \<in> set (deviceRows (ac_id a) (w_db w)) \<longleftrightarrow>
       b \<in> set (t_bindings (w_db w)) \<and> bn_user b = ac_id a \<and> v \<in> set (t_devices (w_db w)) \<and> dv_id v = bn_device b) \<and>
    (\<forall>v b. bn_revoked b \<noteq> None \<longrightarrow>
       (\<exists>fs. deviceJSON reg (w_db w) (v, b) = JObj (fs @ [(''apps'', JArr [])])))"
proof (intro conjI allI impI)
  show "fst (listDevices reg (Some (a, s)) rw w) =
      writeJSON 200 (JObj [(''devices'', JArr (map (deviceJSON reg (w_db w)) (deviceRows (ac_id a) (w_db w))))]) rw"
    using assms by (simp add: listDevices_def attempt_def query_ok)
  show "(v, b) \<in> set (deviceRows (ac_id a) (w_db w)) \<longleftrightarrow>
       b \<in> set (t_bindings (w_db w)) \<and> bn_user b = ac_id a \<and> v \<in> set (t_devices (w_db w)) \<and> dv_id v = bn_device b" for v b
    by (auto simp: deviceRows_def split: if_splits)
  show "\<exists>fs. deviceJSON reg (w_db w) (v, b) = JObj (fs @ [(''apps'', JArr [])])" if "bn_revoked b \<noteq> None" for v b
    using that by (auto simp: deviceJSON_def intro!: exI [of _ "butlast _"])
qed

theorem listing_is_own_devices_witness:
  "(\<lparr>dv_key = demo_key, dv_id = demo_dev, dv_name = ''pc'', dv_status = DevActive\<rparr>,
    \<lparr>bn_device = demo_dev, bn_user = ''acct'', bn_role = Admin, bn_by = Some ''acct'', bn_created = 0, bn_revoked = None\<rparr>)
   \<in> set (deviceRows (ac_id (account_of demo_account)) (w_db pc_world))"
proof -
  have "w_faults pc_world = []"
    by (simp add: pc_defs)
  note listing = listing_is_own_devices [OF this, of newTunnelRegistry "account_of demo_account" "''sess''" fresh_response]
  show ?thesis
    unfolding listing [THEN conjunct2, THEN conjunct1, rule_format]
    by (simp add: account_of_def pc_defs)
qed

end
