(* ===== verification/Directory.thy ===== *)
theory Directory
  imports BindingsFacts
begin

text \<open>
  The control plane's smaller directories: \<^verbatim>\<open>subscription.go\<close>, \<^verbatim>\<open>delete.go\<close>, \<^verbatim>\<open>apps.go\<close> and
  \<^verbatim>\<open>reports.go\<close> with the types of \<^verbatim>\<open>internal/otlplog\<close>.  What the OpenTelemetry collector answers
  is an argument of \<open>receiveReports\<close>, which returns the request it sent beside its response;
  \<open>setSubscription\<close> returns the transition it counted.
\<close>

section \<open>Subscriptions\<close>

definition operatorTokenEnv :: string where "operatorTokenEnv = ''RFM_OPERATOR_TOKEN''"
definition operatorHeader :: string where "operatorHeader = ''X-Operator-Token''"

definition subscriptionOf :: "string \<Rightarrow> db \<Rightarrow> sub_status list" where
  "subscriptionOf accountID d = map su_status (filter (\<lambda>s. su_account s = accountID) (t_subscriptions d))"

definition subscriptionActive :: "string \<Rightarrow> bool act" where
  "subscriptionActive accountID = attempt (query (\<lambda>t d. firstRow (subscriptionOf accountID d))) (\<lambda>res. case res of
      Inl e \<Rightarrow> if e = ErrNoRows then ret True else fail e
    | Inr status \<Rightarrow> ret (status = SubActive))"

definition operatorAuthorized :: "(string \<Rightarrow> string) \<Rightarrow> request \<Rightarrow> bool" where
  "operatorAuthorized getenv r =
     (let want = getenv operatorTokenEnv in
      if want = [] then False else header_get (rq_headers r) operatorHeader = want)"

fun parseStatus :: "string \<Rightarrow> sub_status option" where
  "parseStatus s = (if s = ''active'' then Some SubActive else if s = ''suspended'' then Some SubSuspended else None)"

definition currentStatus :: "(string \<Rightarrow> string option) \<Rightarrow> string \<Rightarrow> string act" where
  "currentStatus uuid_in accountID =
     attempt (query (\<lambda>t d. case uuid_in accountID of None \<Rightarrow> Inl ErrDb
       | Some u \<Rightarrow> firstRow (subscriptionOf u d))) (\<lambda>res. case res of
         Inr status \<Rightarrow> ret (sub_status_text status)
       | Inl e \<Rightarrow> if e = ErrNoRows
           then andThen (query (\<lambda>t d. case uuid_in accountID of None \<Rightarrow> Inl ErrDb
               | Some u \<Rightarrow> Inr (u \<in> set (account_ids d)))) (\<lambda>exists.
             if exists then ret ''active'' else fail ErrNoRows)
           else fail e)"

definition putSubscription :: "(string \<Rightarrow> string option) \<Rightarrow> string \<Rightarrow> sub_status \<Rightarrow> unit act" where
  "putSubscription uuid_in accountID status = stmt (\<lambda>t d. case uuid_in accountID of None \<Rightarrow> Inl ErrDb
   | Some u \<Rightarrow>
     if u \<notin> set (account_ids d) then Inl ErrDb
     else if u \<in> set (map su_account (t_subscriptions d)) then
       Inr ((), d\<lparr>t_subscriptions := updateWhere (\<lambda>s. su_account s = u) (\<lambda>s. s\<lparr>su_status := status\<rparr>) (t_subscriptions d)\<rparr>)
     else Inr ((), d\<lparr>t_subscriptions := t_subscriptions d @ [\<lparr>su_account = u, su_status = status\<rparr>]\<rparr>))"

definition setSubscriptionTx :: "(string \<Rightarrow> string option) \<Rightarrow> string \<Rightarrow> sub_status \<Rightarrow> string act" where
  "setSubscriptionTx uuid_in accountID status = inTx (
     andThen (currentStatus uuid_in accountID) (\<lambda>prior.
     andThen (putSubscription uuid_in accountID status) (\<lambda>_.
     andThen (appendAudit [] accountID ActionSubscriptionChanged
        (AuditDetails\<lparr>ad_account := accountID, ad_from := prior, ad_to := sub_status_text status\<rparr>)) (\<lambda>_.
     ret prior))))"

definition setSubscription ::
  "(string \<Rightarrow> string option) \<Rightarrow> (string \<Rightarrow> string) \<Rightarrow> request \<Rightarrow> string \<Rightarrow> string option \<Rightarrow>
     response \<Rightarrow> world \<Rightarrow> (response \<times> world) \<times> (string \<times> string) list" where
  "setSubscription uuid_in getenv r accountID inp rw w =
     (if \<not> operatorAuthorized getenv r then ((notFound rw, w), [])
      else case inp of None \<Rightarrow> ((badBody rw, w), [])
      | Some inStatus \<Rightarrow> (case parseStatus inStatus of
          None \<Rightarrow> ((writeAuthError 400 ''status must be active or suspended'' rw, w), [])
        | Some status \<Rightarrow> (case setSubscriptionTx uuid_in accountID status w of
            (Inl _, w') \<Rightarrow> ((notFound rw, w'), [])
          | (Inr prior, w') \<Rightarrow> ((writeJSON 200 (JObj [(''account_id'', JStr accountID), (''status'', JStr inStatus)]) rw, w'),
              [(prior, inStatus)]))))"

section \<open>Account deletion\<close>

definition runAccountDeletion :: "string \<Rightarrow> int act" where
  "runAccountDeletion accountID = inTx (
     andThen (query (\<lambda>t d. Inr (int (length (filter (\<lambda>b. bn_user b = accountID) (t_bindings d)))))) (\<lambda>bindings.
     andThen (appendAudit [] accountID ActionAccountDeleted (AuditDetails\<lparr>ad_account := accountID\<rparr>)) (\<lambda>_.
     andThen (exec (\<lambda>t d. deleteAccountRow accountID d)) (\<lambda>_. ret bindings))))"

definition passwordRequired :: "response \<Rightarrow> response" where
  "passwordRequired rw = writeAuthError 400 ''password required'' rw"

text \<open>A body that does not decode is answered twice, as in \<open>verifyEmail\<close>.\<close>

definition deleteAccount :: "golib \<Rightarrow> ctx \<Rightarrow> string option \<Rightarrow> handler" where
  "deleteAccount lib ctx inp rw = (case ctx of None \<Rightarrow> Pair (unauthorized rw)
   | Some (a, _) \<Rightarrow> (case inp of None \<Rightarrow> Pair (passwordRequired (badBody rw))
   | Some password \<Rightarrow>
     if password = [] then Pair (passwordRequired rw)
     else attempt (query (\<lambda>t d. firstRow (map ar_password (filter (\<lambda>r. ar_id r = ac_id a) (t_accounts d))))) (\<lambda>res. case res of
         Inl _ \<Rightarrow> Pair (unauthorized rw)
       | Inr stored \<Rightarrow>
         (case stored of None \<Rightarrow> Pair (writeAuthError 401 ''invalid password'' rw)
          | Some h \<Rightarrow>
            if \<not> checkPassword lib password h then Pair (writeAuthError 401 ''invalid password'' rw)
            else attempt (runAccountDeletion (ac_id a)) (\<lambda>res. case res of
                Inl _ \<Rightarrow> Pair (tryAgain rw)
              | Inr bindings \<Rightarrow> Pair (writeJSON 200
                  (JObj [(''ok'', JBool True), (''bindings_removed'', JNum bindings)]) rw))))))"

section \<open>Applications of a device\<close>

definition maxApps :: nat where "maxApps = 32"

definition isApp :: "string \<Rightarrow> string \<Rightarrow> app_row \<Rightarrow> bool" where
  "isApp dev name p \<longleftrightarrow> ap_device p = dev \<and> ap_name p = name"

definition deviceAppAllowed :: "string \<Rightarrow> string \<Rightarrow> bool act" where
  "deviceAppAllowed deviceID name = query (\<lambda>t d. Inr (list_ex (isApp deviceID name) (t_apps d)))"

definition nameRule :: string where
  "nameRule = ''application name and type must be lowercase letters, digits and hyphens''"

text \<open>The loop over the list; \<open>names\<close> is also the set of names seen.\<close>

fun checkApps :: "(string \<times> string) list \<Rightarrow> string list \<Rightarrow> string list \<Rightarrow> string + (string list \<times> string list)" where
  "checkApps [] names types = Inr (names, types)"
| "checkApps ((name, type) # apps) names types =
     (if \<not> appname_Valid name \<or> \<not> appname_Valid type then Inl nameRule
      else if name \<in> set names then Inl ''duplicate application name''
      else checkApps apps (names @ [name]) (types @ [type]))"

text \<open>\<^verbatim>\<open>INSERT ... SELECT FROM unnest ... ON CONFLICT DO UPDATE\<close>, one row at a time.\<close>

fun putApps :: "string \<Rightarrow> (string \<times> string) list \<Rightarrow> app_row list \<Rightarrow> app_row list" where
  "putApps dev [] rows = rows"
| "putApps dev ((n, t) # apps) rows = putApps dev apps
     (if list_ex (isApp dev n) rows then updateWhere (isApp dev n) (\<lambda>p. p\<lparr>ap_type := t\<rparr>) rows
      else rows @ [\<lparr>ap_device = dev, ap_name = n, ap_type = t\<rparr>])"

definition dropApps :: "string \<Rightarrow> string list \<Rightarrow> app_row list \<Rightarrow> app_row list" where
  "dropApps dev names rows = filter (\<lambda>p. \<not> (ap_device p = dev \<and> ap_name p \<notin> set names)) rows"

definition appsTx :: "string \<Rightarrow> string list \<Rightarrow> string list \<Rightarrow> string act" where
  "appsTx deviceKey names types = inTx (
     andThen (query (\<lambda>t d. firstRow (filter (\<lambda>v. dv_key v = deviceKey) (t_devices d)))) (\<lambda>dev.
     if dv_status dev \<noteq> DevActive then fail ErrDeviceDisabled
     else
     andThen (exec (\<lambda>t d. d\<lparr>t_apps := dropApps (dv_id dev) names (t_apps d)\<rparr>)) (\<lambda>_.
     andThen (stmt (\<lambda>t d. if \<not> distinct names \<or> dv_id dev \<notin> set (device_ids d) then Inl ErrDb
        else Inr ((), d\<lparr>t_apps := putApps (dv_id dev) (zip names types) (t_apps d)\<rparr>))) (\<lambda>_.
     andThen (appendAudit (dv_id dev) (dv_id dev) ActionDeviceAppsSynced (AuditDetails\<lparr>ad_key := deviceKey\<rparr>)) (\<lambda>_.
     ret (dv_id dev))))))"

definition syncApps ::
  "golib \<Rightarrow> int \<Rightarrow> request \<Rightarrow> (string \<Rightarrow> (string \<times> string) list option) \<Rightarrow> string option \<Rightarrow> handler" where
  "syncApps lib clk r dec inp = signedBody lib clk r inp (\<lambda>body deviceKey rw. (case dec body of
      None \<Rightarrow> Pair (badBody rw)
    | Some apps \<Rightarrow>
      if length apps > maxApps then Pair (writeAuthError 400 ''too many applications'' rw)
      else (case checkApps apps [] [] of
          Inl msg \<Rightarrow> Pair (writeAuthError 400 msg rw)
        | Inr (names, types) \<Rightarrow> attempt (appsTx deviceKey names types) (\<lambda>res. case res of
            Inl e \<Rightarrow> if e = ErrNoRows then Pair (writeAuthError 404 ''device not enrolled'' rw)
              else if e = ErrDeviceDisabled then Pair (writeAuthError 403 ''device disabled'' rw)
              else Pair (tryAgain rw)
          | Inr _ \<Rightarrow> Pair (writeJSON 200 (JObj [(''apps'', JArr (map JStr names))]) rw)))))"

section \<open>Error reports\<close>

record keyValue =
  kv_key :: string
  kv_value :: string

record logRecord =
  lr_time :: string
  lr_severityNumber :: int
  lr_severityText :: string
  lr_body :: string
  lr_trace :: string
  lr_attributes :: "keyValue list"

record scopeLogs =
  sl_scope :: string
  sl_records :: "logRecord list"

record resourceLogs =
  rl_attributes :: "keyValue list"
  rl_scopes :: "scopeLogs list"

type_synonym otlpRequest = "resourceLogs list"

definition otlpString :: "string \<Rightarrow> string \<Rightarrow> keyValue" where
  "otlpString key v = \<lparr>kv_key = key, kv_value = v\<rparr>"

definition stampedKeys :: "string list" where
  "stampedKeys = [''service.name'', ''device.id'', ''account.id'']"

definition unstamped :: "keyValue list \<Rightarrow> keyValue list" where
  "unstamped kvs = filter (\<lambda>kv. kv_key kv \<notin> set stampedKeys) kvs"

definition stampScope :: "scopeLogs \<Rightarrow> scopeLogs" where
  "stampScope s = s\<lparr>sl_records := map (\<lambda>lr. lr\<lparr>lr_attributes := unstamped (lr_attributes lr)\<rparr>) (sl_records s)\<rparr>"

definition stampReports :: "string \<Rightarrow> string \<Rightarrow> otlpRequest \<Rightarrow> otlpRequest" where
  "stampReports deviceID accountID req = map (\<lambda>rl. rl\<lparr>
     rl_attributes := unstamped (rl_attributes rl) @
       [otlpString ''service.name'' ''agent'', otlpString ''device.id'' deviceID, otlpString ''account.id'' accountID],
     rl_scopes := map stampScope (rl_scopes rl)\<rparr>) req"

text \<open>The earliest admin row that is not revoked, which names the account a PC reports for.\<close>

definition currentAdmin :: "string \<Rightarrow> db \<Rightarrow> string option" where
  "currentAdmin dev d =
     (case sortBy (\<lambda>x y. bn_created x \<le> bn_created y)
        (filter (\<lambda>b. bn_device b = dev \<and> bn_role b = Admin \<and> bn_revoked b = None) (t_bindings d)) of
        [] \<Rightarrow> None | b # _ \<Rightarrow> Some (bn_user b))"

text \<open>How sending to the collector ends: the address is no URL, nothing answers, or a status.\<close>

datatype collected = BadURL | NoAnswer | Status nat

definition receiveReports ::
  "golib \<Rightarrow> int \<Rightarrow> request \<Rightarrow> (string \<Rightarrow> otlpRequest option) \<Rightarrow> string \<Rightarrow> (otlpRequest \<Rightarrow> collected) \<Rightarrow>
     string option \<Rightarrow> response \<Rightarrow> world \<Rightarrow> (response \<times> otlpRequest option) \<times> world" where
  "receiveReports lib clk r dec collector send inp rw w = (case inp of
      None \<Rightarrow> ((badBody rw, None), w)
    | Some body \<Rightarrow> (case verifyAgentSignature lib clk r body w of
        (Inl _, w1) \<Rightarrow> ((writeAuthError 401
            (case Verify lib clk r body of Inl msg \<Rightarrow> msg | Inr _ \<Rightarrow> ''nonce already used'') rw, None), w1)
      | (Inr deviceKey, w1) \<Rightarrow> (case dec body of
          None \<Rightarrow> ((badBody rw, None), w1)
        | Some req \<Rightarrow>
          (case query (\<lambda>t d. firstRow [(dv_id v, dv_status v, currentAdmin (dv_id v) d).
                 v \<leftarrow> t_devices d, dv_key v = deviceKey]) w1 of
            (Inl e, w2) \<Rightarrow> ((if e = ErrNoRows then writeAuthError 404 ''device not enrolled'' rw else tryAgain rw, None), w2)
          | (Inr (deviceID, status, admin), w2) \<Rightarrow>
            if status \<noteq> DevActive then ((writeAuthError 403 ''device disabled'' rw, None), w2)
            else (case admin of
                None \<Rightarrow> ((writeAuthError 410 ''device removed from its account'' rw, None), w2)
              | Some accountID \<Rightarrow>
                let out = stampReports deviceID accountID req in
                if collector = [] then ((writeJSON 200 ok_body rw, None), w2)
                else (case send out of
                    BadURL \<Rightarrow> ((tryAgain rw, None), w2)
                  | NoAnswer \<Rightarrow> ((writeAuthError 503 ''try again later'' rw, Some out), w2)
                  | Status code \<Rightarrow>
                      if code \<ge> 300 then ((writeAuthError 503 ''try again later'' rw, Some out), w2)
                      else ((writeJSON 200 ok_body rw, Some out), w2)))))))"

end
