(* ===== verification/DirectoryFacts.thy ===== *)
theory DirectoryFacts
  imports Directory
begin

text \<open>
  What \<open>Directory\<close> guarantees: the invariant; a suspended subscription takes effect and needs
  the operator's secret; a deleted account leaves no row behind and nobody else loses one; a sync
  replaces exactly one device's applications; a PC cannot report as another.
\<close>

section \<open>The invariant\<close>

lemma subscriptionActive_keeps [keeps_intro]: "keeps P (subscriptionActive acct)"
  unfolding subscriptionActive_def by (intro keeps_intro)

lemma currentStatus_keeps [keeps_intro]: "keeps P (currentStatus f acct)"
  unfolding currentStatus_def by (intro keeps_intro)

lemma putSubscription_inv [keeps_intro]: "keeps (cp_inv lib a) (putSubscription f acct status)"
  unfolding putSubscription_def
proof (rule keeps_inv_stmt)
  fix t d x d'
  assume wf: "wf_db lib d" and "(case f acct of None \<Rightarrow> Inl ErrDb
   | Some u \<Rightarrow>
     if u \<notin> set (account_ids d) then Inl ErrDb
     else if u \<in> set (map su_account (t_subscriptions d)) then
       Inr ((), d\<lparr>t_subscriptions := updateWhere (\<lambda>s. su_account s = u) (\<lambda>s. s\<lparr>su_status := status\<rparr>) (t_subscriptions d)\<rparr>)
     else Inr ((), d\<lparr>t_subscriptions := t_subscriptions d @ [\<lparr>su_account = u, su_status = status\<rparr>]\<rparr>)) = Inr (x, d')"
  then show "wf_db lib d'"
    using wf_dbD(3,4) [OF wf]
    by (auto intro!: wf_set_subscriptions [OF wf] simp: updateWhere_map image_subset_iff
        simp del: set_map split: option.splits if_splits)
qed (auto split: option.splits if_splits)

lemma setSubscriptionTx_inv [keeps_intro]: "keeps (cp_inv lib a) (setSubscriptionTx f acct status)"
  unfolding setSubscriptionTx_def by (intro keeps_intro)

lemma setSubscription_keeps:
  assumes "\<And>st. keeps P (setSubscriptionTx f acct st)"
  shows "keeps P (\<lambda>w. fst (setSubscription f getenv r acct inp rw w))"
  using assms
  by (auto simp: keeps_def setSubscription_def split: option.splits prod.splits sum.splits if_splits) (metis snd_conv)+

lemma setSubscription_inv: "keeps (cp_inv lib a) (\<lambda>w. fst (setSubscription f getenv r acct inp rw w))"
  by (rule setSubscription_keeps) (rule setSubscriptionTx_inv)

lemma runAccountDeletion_inv [keeps_intro]: "keeps (cp_inv lib a) (runAccountDeletion acct)"
  unfolding runAccountDeletion_def
  by (intro keeps_intro keeps_inv_exec wf_deleteAccountRow) (simp_all add: deleteAccountRow_def)

lemma deleteAccount_inv: "keeps (cp_inv lib a) (deleteAccount lib' ctx inp rw)"
  unfolding deleteAccount_def by (intro keeps_intro)

lemma putApps_keys:
  "distinct (map (\<lambda>p. (ap_device p, ap_name p)) rows) \<Longrightarrow> set (map ap_device rows) \<subseteq> A \<Longrightarrow> dev \<in> A \<Longrightarrow>
   distinct (map (\<lambda>p. (ap_device p, ap_name p)) (putApps dev apps rows)) \<and> set (map ap_device (putApps dev apps rows)) \<subseteq> A"
proof (induction apps arbitrary: rows)
  case (Cons a apps)
  obtain n t where a: "a = (n, t)" by (cases a)
  show ?case
  proof (cases "list_ex (isApp dev n) rows")
    case True
    then show ?thesis
      using Cons by (simp add: a updateWhere_map del: set_map)
  next
    case False
    then have "(dev, n) \<notin> (\<lambda>p. (ap_device p, ap_name p)) ` set rows"
      by (auto simp: list_ex_iff isApp_def)
    then show ?thesis
      using Cons False by (simp add: a)
  qed
qed simp

lemma appsTx_inv [keeps_intro]: "keeps (cp_inv lib a) (appsTx key names types)"
  unfolding appsTx_def
proof (intro keeps_intro keeps_inv_exec keeps_inv_stmt)
  fix dev t d
  assume wf: "wf_db lib d"
  show "wf_db lib (d\<lparr>t_apps := dropApps dev names (t_apps d)\<rparr>)"
    using wf_dbD(18,19) [OF wf]
    by (auto intro!: wf_set_apps [OF wf] simp: dropApps_def distinct_map_filter image_subset_iff)
next
  fix dev t d x d'
  assume wf: "wf_db lib d" and "(if \<not> distinct names \<or> dv_id dev \<notin> set (device_ids d) then Inl ErrDb
    else Inr ((), d\<lparr>t_apps := putApps (dv_id dev) (zip names types) (t_apps d)\<rparr>)) = Inr (x, d')"
  then show "wf_db lib d'"
    using putApps_keys [OF wf_dbD(18,19) [OF wf], of "dv_id dev" "zip names types"]
    by (auto intro!: wf_set_apps [OF wf] split: if_splits)
qed (auto split: if_splits)

lemma syncApps_inv: "keeps (cp_inv lib a) (syncApps lib' clk r dec inp rw)"
  unfolding syncApps_def by (intro keeps_intro)

lemma receiveReports_keeps:
  assumes sig: "\<And>body. keeps P (verifyAgentSignature lib clk r body)"
  shows "keeps P (receiveReports lib clk r dec collector send inp rw)"
proof -
  have v: "P (w_db w')" if "P (w_db w)" "verifyAgentSignature lib clk r body w = (res, w')" for w w' res body
    using that keepsD [OF sig] by blast
  have q: "w_db w' = w_db w" if "query f w = (res, w')" for f w w' and res :: "err + string \<times> dev_status \<times> string option"
    using that by (rule query_db)
  show ?thesis
    unfolding keeps_def receiveReports_def Let_def
    by (auto split: option.splits prod.splits sum.splits if_splits collected.splits dest!: q dest: v)
qed

lemma receiveReports_inv: "keeps (cp_inv lib a) (receiveReports lib' clk r dec collector send inp rw)"
  by (rule receiveReports_keeps) (rule verifyAgentSignature_inv)

section \<open>Subscriptions\<close>

lemma currentStatus_triple:
  "triple (\<lambda>d. d = d0) (currentStatus f acct) (\<lambda>prior d. d = d0 \<and> (\<exists>u. f acct = Some u \<and>
     prior = (case subscriptionOf u d0 of [] \<Rightarrow> ''active'' | s # _ \<Rightarrow> sub_status_text s)))"
proof (cases "f acct")
  case None
  then show ?thesis
    by (auto simp: triple_def currentStatus_def attempt_def query_def stmt_def Let_def split: prod.splits if_splits)
next
  case (Some u)
  have q: "w_db w1 = w_db w \<and> (res = Inl ErrNoRows \<longrightarrow> subscriptionOf u (w_db w) = []) \<and>
      (\<forall>s. res = Inr s \<longrightarrow> (\<exists>ss. subscriptionOf u (w_db w) = s # ss))"
    if "query (\<lambda>t d. firstRow (subscriptionOf u d)) w = (res, w1)" for w res w1
    using that by (auto simp: query_def stmt_def Let_def firstRow_def split: if_splits list.splits)
  show ?thesis
    unfolding triple_def
  proof (intro allI impI)
    fix w x w'
    assume w: "w_db w = d0" and run: "currentStatus f acct w = (Inr x, w')"
    obtain res w1 where r: "query (\<lambda>t d. firstRow (subscriptionOf u d)) w = (res, w1)"
      by (cases "query (\<lambda>t d. firstRow (subscriptionOf u d)) w")
    show "w_db w' = d0 \<and> (\<exists>u. f acct = Some u \<and> x = (case subscriptionOf u d0 of [] \<Rightarrow> ''active'' | s # _ \<Rightarrow> sub_status_text s))"
      using run w q [OF r] Some r
      by (cases res) (auto simp: currentStatus_def attempt_def andThen_Inr query_Inr split: if_splits)
  qed
qed

definition putStatus :: "string \<Rightarrow> sub_status \<Rightarrow> subscription_row list \<Rightarrow> subscription_row list" where
  "putStatus u status rows = (if u \<in> set (map su_account rows)
     then updateWhere (\<lambda>s. su_account s = u) (\<lambda>s. s\<lparr>su_status := status\<rparr>) rows
     else rows @ [\<lparr>su_account = u, su_status = status\<rparr>])"

lemma putSubscription_triple:
  "triple (\<lambda>d. d = d0 \<and> Q) (putSubscription f acct status) (\<lambda>_ d. Q \<and> (\<exists>u. f acct = Some u \<and>
     u \<in> set (account_ids d0) \<and> d = d0\<lparr>t_subscriptions := putStatus u status (t_subscriptions d0)\<rparr>))"
  unfolding putSubscription_def
  by (rule triple_stmt) (auto simp: putStatus_def split: option.splits if_splits)

lemma setSubscriptionTx_triple:
  "triple (\<lambda>d. d = d0) (setSubscriptionTx f acct status) (\<lambda>prior d. \<exists>u row. f acct = Some u \<and>
     prior = (case subscriptionOf u d0 of [] \<Rightarrow> ''active'' | s # _ \<Rightarrow> sub_status_text s) \<and>
     u \<in> set (account_ids d0) \<and>
     d = d0\<lparr>t_subscriptions := putStatus u status (t_subscriptions d0), t_audit := t_audit d0 @ [row]\<rparr> \<and>
     au_details row = AuditDetails\<lparr>ad_account := acct, ad_from := prior, ad_to := sub_status_text status\<rparr>)"
  unfolding setSubscriptionTx_def
  by (intro triple_inTx triple_andThen [OF currentStatus_triple] triple_andThen [OF putSubscription_triple]
      triple_andThen [OF appendAudit_triple] triple_ret)
    (clarsimp, rule exI, rule conjI, rule refl, simp add: auditRow_def)

lemma status_update:
  "distinct (map su_account rows) \<Longrightarrow> u \<in> set (map su_account rows) \<Longrightarrow>
   map su_status (filter (\<lambda>s. su_account s = u) (updateWhere (\<lambda>s. su_account s = u) (\<lambda>s. s\<lparr>su_status := st\<rparr>) rows)) = [st]"
proof (induction rows)
  case (Cons r rows)
  have "filter (\<lambda>s. su_account s = u) rows = []" if "su_account r = u"
    using Cons.prems that by (auto simp: filter_empty_conv image_iff)
  moreover have "updateWhere (\<lambda>s. su_account s = u) (\<lambda>s. s\<lparr>su_status := st\<rparr>) rows = rows" if "su_account r = u"
    using Cons.prems that by (intro updateWhere_id) (auto simp: image_iff)
  ultimately show ?case
    using Cons by auto
qed simp

lemma status_update_other:
  "v \<noteq> u \<Longrightarrow> filter (\<lambda>s. su_account s = v) (updateWhere (\<lambda>s. su_account s = u) (\<lambda>s. s\<lparr>su_status := st\<rparr>) rows)
   = filter (\<lambda>s. su_account s = v) rows"
  by (induction rows) auto

text \<open>
  Setting a subscription changes one account's status and nothing else, and says so in the
  audit log with the status it replaced.
\<close>

theorem subscription_set:
  assumes "setSubscriptionTx f acct status w = (res, w')" and "wf_db lib (w_db w)"
  shows "case res of
    Inl _ \<Rightarrow> w_db w' = w_db w
  | Inr prior \<Rightarrow> \<exists>u row. f acct = Some u \<and> u \<in> set (account_ids (w_db w)) \<and>
      subscriptionOf u (w_db w') = [status] \<and>
      (\<forall>v. v \<noteq> u \<longrightarrow> subscriptionOf v (w_db w') = subscriptionOf v (w_db w)) \<and>
      prior = (case subscriptionOf u (w_db w) of [] \<Rightarrow> ''active'' | s # _ \<Rightarrow> sub_status_text s) \<and>
      w_db w' = (w_db w)\<lparr>t_subscriptions := t_subscriptions (w_db w'), t_audit := t_audit (w_db w) @ [row]\<rparr> \<and>
      ad_from (au_details row) = prior \<and> ad_to (au_details row) = sub_status_text status"
proof (cases res)
  case (Inl e)
  then show ?thesis
    using assms inTx_Inl by (auto simp: setSubscriptionTx_def)
next
  case (Inr prior)
  from tripleD [OF setSubscriptionTx_triple _ assms(1) [unfolded Inr], of "w_db w"]
  obtain u row where u: "f acct = Some u" "u \<in> set (account_ids (w_db w))"
      "prior = (case subscriptionOf u (w_db w) of [] \<Rightarrow> ''active'' | s # _ \<Rightarrow> sub_status_text s)"
    and db: "w_db w' = (w_db w)\<lparr>t_subscriptions := putStatus u status (t_subscriptions (w_db w)), t_audit := t_audit (w_db w) @ [row]\<rparr>"
    and row: "au_details row = AuditDetails\<lparr>ad_account := acct, ad_from := prior, ad_to := sub_status_text status\<rparr>"
    by auto
  have "subscriptionOf u (w_db w') = [status]"
    using wf_dbD(3) [OF assms(2)] status_update [of "t_subscriptions (w_db w)" u status]
    by (auto simp: subscriptionOf_def db putStatus_def filter_empty_conv)
  moreover have "subscriptionOf v (w_db w') = subscriptionOf v (w_db w)" if "v \<noteq> u" for v
    using that by (simp add: subscriptionOf_def db putStatus_def status_update_other)
  moreover have "w_db w' = (w_db w)\<lparr>t_subscriptions := t_subscriptions (w_db w'), t_audit := t_audit (w_db w) @ [row]\<rparr>"
    by (simp add: db)
  ultimately show ?thesis
    using u row Inr by auto
qed

section \<open>Deletion\<close>

definition account_gone :: "string \<Rightarrow> db \<Rightarrow> bool" where
  "account_gone i d \<longleftrightarrow> i \<notin> set (account_ids d) \<and> i \<notin> set (map su_account (t_subscriptions d)) \<and>
     i \<notin> set (map sr_account (t_sessions d)) \<and> i \<notin> set (map tk_account (t_verify d)) \<and>
     i \<notin> set (map tk_account (t_reset d)) \<and> i \<notin> set (map tk_account (t_enrol d)) \<and>
     i \<notin> set (map bn_user (t_bindings d)) \<and> Some i \<notin> set (map bn_by (t_bindings d)) \<and>
     i \<notin> set (map iv_by (t_invites d)) \<and> Some i \<notin> set (map iv_used_by (t_invites d)) \<and>
     Some i \<notin> set (map en_by (t_enrolments d))"

lemma deleteAccountRow_gone: "account_gone i (deleteAccountRow i d)"
proof -
  have "release i v \<noteq> Some i" for v
    by (simp add: release_def)
  then show ?thesis
    by (auto simp: account_gone_def deleteAccountRow_def account_ids_def) metis+
qed

lemma deleteAccountRow_others:
  "u \<noteq> i \<Longrightarrow> boundTo dev u (deleteAccountRow i d) = boundTo dev u d"
  "u \<noteq> i \<Longrightarrow> activeAdmin dev u (deleteAccountRow i d) = activeAdmin dev u d"
  by (auto simp: boundTo_def activeAdmin_def deleteAccountRow_def list_ex_iff isBinding_def)

lemma runAccountDeletion_triple:
  "triple (\<lambda>d. d = d0) (runAccountDeletion i) (\<lambda>n d. \<exists>row.
     n = int (length (filter (\<lambda>b. bn_user b = i) (t_bindings d0))) \<and>
     d = deleteAccountRow i (d0\<lparr>t_audit := t_audit d0 @ [row]\<rparr>) \<and>
     au_action row = ActionAccountDeleted \<and> au_actor row = i)"
  unfolding runAccountDeletion_def
  by (intro triple_inTx triple_andThen [OF triple_query_sp] triple_andThen [OF appendAudit_triple]
      triple_andThen [OF triple_exec_sp] triple_ret) (auto simp: auditRow_def)

text \<open>\<open>spared i d d'\<close>: table by table, in order, what an account \<open>i\<close> that goes leaves of everybody else's rows: all of them,
  where a binding it gave or an invite it used only forgets that it did.\<close>

definition spared :: "string \<Rightarrow> db \<Rightarrow> db \<Rightarrow> bool" where
  "spared i d d' \<longleftrightarrow>
     t_accounts d' = [r \<leftarrow> t_accounts d. ar_id r \<noteq> i] \<and>
     t_subscriptions d' = [r \<leftarrow> t_subscriptions d. su_account r \<noteq> i] \<and>
     t_sessions d' = [r \<leftarrow> t_sessions d. sr_account r \<noteq> i] \<and>
     t_verify d' = [r \<leftarrow> t_verify d. tk_account r \<noteq> i] \<and>
     t_reset d' = [r \<leftarrow> t_reset d. tk_account r \<noteq> i] \<and>
     t_enrol d' = [r \<leftarrow> t_enrol d. tk_account r \<noteq> i] \<and>
     t_devices d' = t_devices d \<and> t_apps d' = t_apps d \<and> t_nonces d' = t_nonces d \<and>
     t_bindings d' = map (\<lambda>b. if bn_by b = Some i then b\<lparr>bn_by := None\<rparr> else b) [b \<leftarrow> t_bindings d. bn_user b \<noteq> i] \<and>
     t_invites d' = map (\<lambda>v. if iv_used_by v = Some i then v\<lparr>iv_used_by := None\<rparr> else v) [v \<leftarrow> t_invites d. iv_by v \<noteq> i] \<and>
     t_enrolments d' = [e \<leftarrow> t_enrolments d. en_by e \<noteq> Some i]"

lemma deleteAccountRow_spared: "spared i d (deleteAccountRow i (d\<lparr>t_audit := a\<rparr>))"
  by (auto simp: spared_def deleteAccountRow_def release_def)

text \<open>
  C38.  Deleting an account is complete and takes nothing from anybody else.  After it no row of any table but
  the log names the account.  Every row that is not its own stays, unchanged and in order: the other accounts with their
  subscriptions, sessions and tokens, all devices, applications and nonces, the bindings of other users, the invites other users made
  and the enrolments they did; only the account's name is taken out of a binding it gave and of an invite it used.  So
  other people keep their access and their roles.  The log has gained the deletion and lost nothing.  If it fails, nothing changes.
\<close>

theorem deletion_complete:
  assumes "runAccountDeletion i w = (res, w')"
  shows "case res of
    Inl _ \<Rightarrow> w_db w' = w_db w
  | Inr n \<Rightarrow> account_gone i (w_db w') \<and> n = int (length (filter (\<lambda>b. bn_user b = i) (t_bindings (w_db w)))) \<and>
      spared i (w_db w) (w_db w') \<and>
      (\<forall>dev u. u \<noteq> i \<longrightarrow> boundTo dev u (w_db w') = boundTo dev u (w_db w) \<and>
         activeAdmin dev u (w_db w') = activeAdmin dev u (w_db w)) \<and>
      (\<exists>row. t_audit (w_db w') = t_audit (w_db w) @ [row] \<and> au_action row = ActionAccountDeleted \<and> au_actor row = i)"
proof (cases res)
  case (Inl e)
  then show ?thesis
    using assms inTx_Inl by (auto simp: runAccountDeletion_def)
next
  case (Inr n)
  from tripleD [OF runAccountDeletion_triple _ assms [unfolded Inr], of "w_db w"]
  obtain row where n: "n = int (length (filter (\<lambda>b. bn_user b = i) (t_bindings (w_db w))))"
    and db: "w_db w' = deleteAccountRow i ((w_db w)\<lparr>t_audit := t_audit (w_db w) @ [row]\<rparr>)"
    and row: "au_action row = ActionAccountDeleted" "au_actor row = i"
    by auto
  have same: "boundTo dev u ((w_db w)\<lparr>t_audit := x\<rparr>) = boundTo dev u (w_db w)"
    "activeAdmin dev u ((w_db w)\<lparr>t_audit := x\<rparr>) = activeAdmin dev u (w_db w)" for dev u x
    by (simp_all add: boundTo_def activeAdmin_def)
  have "account_gone i (w_db w')" "spared i (w_db w) (w_db w')"
    unfolding db by (rule deleteAccountRow_gone, rule deleteAccountRow_spared)
  moreover have "t_audit (w_db w') = t_audit (w_db w) @ [row]"
    by (simp add: db deleteAccountRow_def)
  ultimately show ?thesis
    using n row by (simp add: Inr) (simp add: db deleteAccountRow_others same)
qed

section \<open>Applications\<close>

lemma checkApps_Inr:
  "checkApps apps names types = Inr (ns, ts) \<Longrightarrow> ns = names @ map fst apps \<and> ts = types @ map snd apps"
  by (induction apps names types rule: checkApps.induct) (auto split: if_splits)

lemma checkApps_distinct: "checkApps apps names types = Inr (ns, ts) \<Longrightarrow> distinct names \<Longrightarrow> distinct ns"
  by (induction apps names types rule: checkApps.induct) (simp_all split: if_splits)

lemma checkApps_valid:
  "checkApps apps names types = Inr (ns, ts) \<Longrightarrow> (n, t) \<in> set apps \<Longrightarrow> appname_Valid n \<and> appname_Valid t"
  by (induction apps names types rule: checkApps.induct) (auto split: if_splits)

lemma putApps_others:
  "dev' \<noteq> dev \<Longrightarrow> filter (\<lambda>p. ap_device p = dev') (putApps dev apps rows) = filter (\<lambda>p. ap_device p = dev') rows"
proof (induction apps arbitrary: rows)
  case (Cons a apps)
  have "filter (\<lambda>p. ap_device p = dev') (updateWhere (isApp dev n) (\<lambda>p. p\<lparr>ap_type := t\<rparr>) rows)
      = filter (\<lambda>p. ap_device p = dev') rows" for n t
    using Cons.prems by (induction rows) (auto simp: isApp_def)
  then show ?case
    using Cons by (cases a) simp
qed simp

definition typeOf :: "string \<Rightarrow> string \<Rightarrow> app_row list \<Rightarrow> string list" where
  "typeOf dev n rows = map ap_type (filter (isApp dev n) rows)"

lemma typeOf_update:
  "typeOf dev m (updateWhere (isApp dev n) (\<lambda>p. p\<lparr>ap_type := t\<rparr>) rows) =
     (if m = n then map (\<lambda>_. t) (typeOf dev n rows) else typeOf dev m rows)"
  by (induction rows) (auto simp: typeOf_def isApp_def)

lemma typeOf_unique:
  "distinct (map (\<lambda>p. (ap_device p, ap_name p)) rows) \<Longrightarrow> list_ex (isApp dev n) rows \<Longrightarrow> \<exists>t. typeOf dev n rows = [t]"
proof (induction rows)
  case (Cons r rows)
  have "filter (isApp dev n) rows = []" if "isApp dev n r"
    using Cons.prems that by (auto simp: filter_empty_conv isApp_def image_iff)
  then show ?case
    using Cons by (auto simp: typeOf_def)
qed simp

lemma typeOf_none: "\<not> list_ex (isApp dev n) rows \<Longrightarrow> typeOf dev n rows = []"
  by (simp add: typeOf_def filter_empty_conv list_ex_iff)

lemma putApps_types:
  assumes "distinct (map fst apps)" and "distinct (map (\<lambda>p. (ap_device p, ap_name p)) rows)"
  shows "typeOf dev m (putApps dev apps rows) = (case map_of apps m of None \<Rightarrow> typeOf dev m rows | Some t \<Rightarrow> [t])"
  using assms
proof (induction apps arbitrary: rows)
  case (Cons a apps)
  obtain n t where a: "a = (n, t)" by (cases a)
  let ?rows = "if list_ex (isApp dev n) rows then updateWhere (isApp dev n) (\<lambda>p. p\<lparr>ap_type := t\<rparr>) rows
      else rows @ [\<lparr>ap_device = dev, ap_name = n, ap_type = t\<rparr>]"
  have now: "typeOf dev m ?rows = (if m = n then [t] else typeOf dev m rows)"
  proof (cases "list_ex (isApp dev n) rows")
    case True
    then obtain u where "typeOf dev n rows = [u]"
      using typeOf_unique [OF Cons.prems(2)] by blast
    with True show ?thesis
      by (simp add: typeOf_update)
  next
    case False
    with typeOf_none [OF this] show ?thesis
      by (auto simp: typeOf_def isApp_def)
  qed
  have "distinct (map (\<lambda>p. (ap_device p, ap_name p)) ?rows)"
    using putApps_keys [of rows UNIV dev "[(n, t)]"] Cons.prems(2) by simp
  moreover have "map_of apps n = None"
    using Cons.prems(1) by (simp add: a map_of_eq_None_iff)
  ultimately show ?case
    using Cons.IH [of ?rows] Cons.prems(1) now by (auto simp: a split: option.splits)
qed simp

lemma dropApps_types: "typeOf dev m (dropApps dev names rows) = (if m \<in> set names then typeOf dev m rows else [])"
  by (induction rows) (auto simp: typeOf_def dropApps_def isApp_def)

lemma dropApps_others: "dev' \<noteq> dev \<Longrightarrow> filter (\<lambda>p. ap_device p = dev') (dropApps dev names rows) = filter (\<lambda>p. ap_device p = dev') rows"
  by (induction rows) (auto simp: dropApps_def)

lemma dropApps_keys:
  "distinct (map (\<lambda>p. (ap_device p, ap_name p)) rows) \<Longrightarrow>
   distinct (map (\<lambda>p. (ap_device p, ap_name p)) (dropApps dev names rows))"
  by (simp add: dropApps_def distinct_map_filter)

text \<open>The rows of a device that already offers exactly this list do not change.\<close>

lemma ap_type_same: "ap_type p = t \<Longrightarrow> p\<lparr>ap_type := t\<rparr> = (p :: app_row)"
  by (cases p) simp

lemma putApps_same:
  "(\<And>n t. (n, t) \<in> set apps \<Longrightarrow> typeOf dev n rows = [t]) \<Longrightarrow> putApps dev apps rows = rows"
proof (induction apps)
  case (Cons a apps)
  obtain n t where a: "a = (n, t)" by (cases a)
  then have "typeOf dev n rows = [t]"
    using Cons.prems by simp
  then have "list_ex (isApp dev n) rows" and "ap_type ` set (filter (isApp dev n) rows) = {t}"
    using typeOf_none [of dev n rows] by (auto simp: typeOf_def simp del: set_filter dest: arg_cong [where f = set])
  moreover have "updateWhere (isApp dev n) (\<lambda>p. p\<lparr>ap_type := t\<rparr>) rows = rows"
    using calculation(2) unfolding updateWhere_def by (intro map_idI) (auto intro!: ap_type_same)
  ultimately show ?case
    using Cons by (simp add: a)
qed simp

lemma dropApps_same: "(\<And>p. p \<in> set rows \<Longrightarrow> ap_device p = dev \<Longrightarrow> ap_name p \<in> set names) \<Longrightarrow> dropApps dev names rows = rows"
  by (auto simp: dropApps_def filter_id_conv)

lemma appsTx_triple:
  "triple (\<lambda>d. d = d0) (appsTx key names types) (\<lambda>dev d. \<exists>v qs row.
     filter (\<lambda>v. dv_key v = key) (t_devices d0) = v # qs \<and> dv_id v = dev \<and> dv_status v = DevActive \<and>
     d = d0\<lparr>t_apps := putApps dev (zip names types) (dropApps dev names (t_apps d0)), t_audit := t_audit d0 @ [row]\<rparr>)"
  unfolding appsTx_def
  by (intro triple_inTx triple_andThen [OF triple_query_sp] triple_if triple_fail triple_andThen [OF triple_exec_sp]
      triple_andThen [OF triple_stmt_sp] triple_andThen [OF appendAudit_triple] triple_ret)
    (clarsimp simp: firstRow_Inr split: if_splits, rule exI, rule refl)

text \<open>
  A sync replaces the whole list of one device.  If a list passes the checks and the
  transaction succeeds, the device whose key signed is active and offers exactly the names and types
  of the list; the rows of every other device are as before; and a second sync of the same list
  leaves the table as the first one did.
\<close>

theorem sync_replaces_apps:
  assumes "checkApps apps [] [] = Inr (names, types)" and "appsTx key names types w = (Inr dev, w1)"
    and "wf_db lib (w_db w)"
  shows "(\<exists>v \<in> set (t_devices (w_db w)). dv_key v = key \<and> dv_id v = dev \<and> dv_status v = DevActive) \<and>
    (\<forall>n. typeOf dev n (t_apps (w_db w1)) = (case map_of apps n of None \<Rightarrow> [] | Some t \<Rightarrow> [t])) \<and>
    (\<forall>dev'. dev' \<noteq> dev \<longrightarrow> filter (\<lambda>p. ap_device p = dev') (t_apps (w_db w1))
       = filter (\<lambda>p. ap_device p = dev') (t_apps (w_db w))) \<and>
    (\<forall>w2 w3 dev'. w_db w2 = w_db w1 \<longrightarrow> appsTx key names types w2 = (Inr dev', w3) \<longrightarrow>
       t_apps (w_db w3) = t_apps (w_db w1))"
proof -
  have c: "names = map fst apps" "types = map snd apps" "distinct (map fst apps)"
    using checkApps_Inr [OF assms(1)] checkApps_distinct [OF assms(1)] by auto
  have z: "zip names types = apps"
    by (simp add: c zip_map_fst_snd)
  from tripleD [OF appsTx_triple _ assms(2), of "w_db w"]
  obtain v qs row where v: "filter (\<lambda>v. dv_key v = key) (t_devices (w_db w)) = v # qs" "dv_id v = dev" "dv_status v = DevActive"
    and db: "w_db w1 = (w_db w)\<lparr>t_apps := putApps dev apps (dropApps dev names (t_apps (w_db w))), t_audit := t_audit (w_db w) @ [row]\<rparr>"
    by (auto simp: z)
  have "v \<in> set (filter (\<lambda>v. dv_key v = key) (t_devices (w_db w)))"
    by (simp only: v(1) list.set_intros)
  then have dev: "\<exists>v \<in> set (t_devices (w_db w)). dv_key v = key \<and> dv_id v = dev \<and> dv_status v = DevActive"
    using v(2,3) by (intro bexI [of _ v]) simp_all
  have types: "typeOf dev n (t_apps (w_db w1)) = (case map_of apps n of None \<Rightarrow> [] | Some t \<Rightarrow> [t])" for n
  proof -
    have "n \<notin> set names" if "map_of apps n = None"
      using that by (simp add: c map_of_eq_None_iff)
    then show ?thesis
      using putApps_types [OF c(3) dropApps_keys [OF wf_dbD(18) [OF assms(3)], of dev names], of dev n]
      by (simp add: db dropApps_types split: option.splits)
  qed
  have same: "t_apps (w_db w3) = t_apps (w_db w1)"
    if "w_db w2 = w_db w1" "appsTx key names types w2 = (Inr dev', w3)" for w2 w3 dev'
  proof -
    have d3: "t_apps (w_db w3) = putApps dev apps (dropApps dev names (t_apps (w_db w1)))"
      using tripleD [OF appsTx_triple _ that(2), of "w_db w1"] that(1) v(1,2) by (auto simp: db z)
    have "ap_name p \<in> set names" if "p \<in> set (t_apps (w_db w1))" "ap_device p = dev" for p
    proof -
      have "typeOf dev (ap_name p) (t_apps (w_db w1)) \<noteq> []"
        using that by (auto simp: typeOf_def filter_empty_conv isApp_def)
      then show ?thesis
        using types [of "ap_name p"] by (auto simp: c image_iff dest: map_of_SomeD split: option.splits intro: rev_bexI)
    qed
    then have "dropApps dev names (t_apps (w_db w1)) = t_apps (w_db w1)"
      by (rule dropApps_same)
    moreover have "putApps dev apps (t_apps (w_db w1)) = t_apps (w_db w1)"
      by (rule putApps_same) (use types c(3) in auto)
    ultimately show ?thesis
      by (simp add: d3)
  qed
  have "filter (\<lambda>p. ap_device p = dev') (t_apps (w_db w1)) = filter (\<lambda>p. ap_device p = dev') (t_apps (w_db w))"
    if "dev' \<noteq> dev" for dev'
    using that by (simp add: db putApps_others dropApps_others)
  with dev types same show ?thesis
    by blast
qed

section \<open>Reports\<close>

text \<open>The values a resource gives for a key.\<close>

definition stampOf :: "string \<Rightarrow> resourceLogs \<Rightarrow> string list" where
  "stampOf k rl = map kv_value (filter (\<lambda>kv. kv_key kv = k) (rl_attributes rl))"

lemma unstamped_none: "k \<in> set stampedKeys \<Longrightarrow> filter (\<lambda>kv. kv_key kv = k) (unstamped kvs) = []"
  by (auto simp: unstamped_def filter_empty_conv)

lemma unstamped_unstamped [simp]: "unstamped (unstamped kvs) = unstamped kvs"
  by (simp add: unstamped_def)

lemma stampReports_facts:
  assumes "rl \<in> set (stampReports dev acct req)"
  shows "stampOf ''service.name'' rl = [''agent'']" and "stampOf ''device.id'' rl = [dev]" and "stampOf ''account.id'' rl = [acct]"
    and "s \<in> set (rl_scopes rl) \<Longrightarrow> lr \<in> set (sl_records s) \<Longrightarrow> kv \<in> set (lr_attributes lr) \<Longrightarrow> kv_key kv \<notin> set stampedKeys"
proof -
  obtain q :: resourceLogs where q: "rl_attributes rl = unstamped (rl_attributes q) @
       [otlpString ''service.name'' ''agent'', otlpString ''device.id'' dev, otlpString ''account.id'' acct]"
    and sc: "rl_scopes rl = map stampScope (rl_scopes q)"
  proof -
    obtain q :: resourceLogs where "rl = q\<lparr>rl_attributes := unstamped (rl_attributes q) @
         [otlpString ''service.name'' ''agent'', otlpString ''device.id'' dev, otlpString ''account.id'' acct],
       rl_scopes := map stampScope (rl_scopes q)\<rparr>"
      using assms unfolding stampReports_def set_map by (rule imageE)
    then show thesis
      by (intro that [of q]) simp_all
  qed
  have none: "filter (\<lambda>kv. kv_key kv = k) (unstamped (rl_attributes q)) = []" if "k \<in> set stampedKeys" for k
    using that by (rule unstamped_none)
  have in_keys: "''service.name'' \<in> set stampedKeys" "''device.id'' \<in> set stampedKeys" "''account.id'' \<in> set stampedKeys"
    by (simp_all add: stampedKeys_def)
  show "stampOf ''service.name'' rl = [''agent'']" "stampOf ''device.id'' rl = [dev]" "stampOf ''account.id'' rl = [acct]"
    by (simp_all add: stampOf_def q none in_keys otlpString_def)
  show "kv_key kv \<notin> set stampedKeys" if "s \<in> set (rl_scopes rl)" "lr \<in> set (sl_records s)" "kv \<in> set (lr_attributes lr)"
    using that by (auto simp: sc stampScope_def unstamped_def)
qed

lemma sortBy_set: "set (sortBy le xs) = set xs"
proof -
  have "set (insertBy le x ys) = insert x (set ys)" for x ys
    by (induction ys) auto
  then show ?thesis
    by (induction xs) (simp_all add: sortBy_def)
qed

lemma currentAdmin_Some: "currentAdmin dev d = Some u \<Longrightarrow> activeAdmin dev u d"
proof -
  assume "currentAdmin dev d = Some u"
  then obtain b bs where b: "sortBy (\<lambda>x y. bn_created x \<le> bn_created y)
        (filter (\<lambda>b. bn_device b = dev \<and> bn_role b = Admin \<and> bn_revoked b = None) (t_bindings d)) = b # bs" "bn_user b = u"
    by (auto simp: currentAdmin_def split: list.splits)
  have "b \<in> set (sortBy (\<lambda>x y. bn_created x \<le> bn_created y)
      (filter (\<lambda>b. bn_device b = dev \<and> bn_role b = Admin \<and> bn_revoked b = None) (t_bindings d)))"
    by (simp only: b(1) list.set_intros)
  then have "b \<in> set (filter (\<lambda>b. bn_device b = dev \<and> bn_role b = Admin \<and> bn_revoked b = None) (t_bindings d))"
    by (simp only: sortBy_set)
  then show ?thesis
    using b(2) by (auto simp: activeAdmin_def list_ex_iff isBinding_def)
qed

lemma receiveReports_sent:
  assumes "receiveReports lib clk r dec collector send inp rw w = ((rw', Some out), w')"
  shows "\<exists>body key nonce v acct req. inp = Some body \<and> Verify lib clk r body = Inr (key, nonce) \<and> dec body = Some req \<and>
    v \<in> set (t_devices (w_db w)) \<and> dv_key v = key \<and> dv_status v = DevActive \<and>
    currentAdmin (dv_id v) (w_db w) = Some acct \<and> out = stampReports (dv_id v) acct req"
proof -
  obtain body where inp: "inp = Some body"
    using assms by (cases inp) (simp_all add: receiveReports_def)
  obtain s w1 where v1: "verifyAgentSignature lib clk r body w = (s, w1)"
    by (cases "verifyAgentSignature lib clk r body w")
  obtain key where key: "s = Inr key"
    using assms inp v1 by (cases s) (simp_all add: receiveReports_def)
  obtain req where req: "dec body = Some req"
    using assms inp v1 key by (cases "dec body") (simp_all add: receiveReports_def)
  let ?rows = "\<lambda>t d. [(dv_id v, dv_status v, currentAdmin (dv_id v) d). v \<leftarrow> t_devices d, dv_key v = key]"
  obtain q w2 where q: "query (\<lambda>t d. firstRow (?rows t d)) w1 = (q, w2)"
    by (cases "query (\<lambda>t d. firstRow (?rows t d)) w1")
  obtain dev status admin where q1: "q = Inr (dev, status, admin)"
    using assms inp v1 key req q by (cases q) (auto simp: receiveReports_def)
  have st: "status = DevActive" "\<exists>acct. admin = Some acct \<and> out = stampReports dev acct req"
    using assms inp v1 key req q q1
    by (auto simp: receiveReports_def Let_def split: if_splits option.splits collected.splits)
  obtain rs where "?rows (w_now w1) (w_db w1) = (dev, status, admin) # rs"
    using query_first_Inr [of ?rows w1 "(dev, status, admin)" w2] q q1 by blast
  then have "(dev, status, admin) \<in> set (?rows (w_now w1) (w_db w1))"
    by (simp only: list.set_intros)
  then obtain v where v: "v \<in> set (t_devices (w_db w))" "dv_key v = key" "dev = dv_id v" "status = dv_status v"
      "admin = currentAdmin (dv_id v) (w_db w1)"
    using verify_tables(1) [OF v1] by auto
  have "currentAdmin (dv_id v) (w_db w1) = currentAdmin (dv_id v) (w_db w)"
    using verify_tables(2) [OF v1] by (simp add: currentAdmin_def)
  then show ?thesis
    using inp req st v verifyAgentSignature_Inr [OF v1 [unfolded key]] by auto
qed

text \<open>
  One PC cannot report as another.  Whatever is sent to the collector comes from a request
  signed with the key of an active device that some account administers, and every resource in it
  carries exactly that device's id, that account's id and the service name, once each; no record
  carries one of these keys.
\<close>

theorem reports_name_the_signer:
  assumes "receiveReports lib clk r dec collector send inp rw w = ((rw', Some out), w')"
  shows "\<exists>body key nonce v acct. inp = Some body \<and> Verify lib clk r body = Inr (key, nonce) \<and>
    v \<in> set (t_devices (w_db w)) \<and> dv_key v = key \<and> dv_status v = DevActive \<and> activeAdmin (dv_id v) acct (w_db w) \<and>
    (\<forall>rl \<in> set out. stampOf ''device.id'' rl = [dv_id v] \<and> stampOf ''account.id'' rl = [acct] \<and>
       stampOf ''service.name'' rl = [''agent''] \<and>
       (\<forall>s \<in> set (rl_scopes rl). \<forall>lr \<in> set (sl_records s). \<forall>kv \<in> set (lr_attributes lr). kv_key kv \<notin> set stampedKeys))"
proof -
  obtain body key nonce v acct req where *: "inp = Some body" "Verify lib clk r body = Inr (key, nonce)"
      "v \<in> set (t_devices (w_db w))" "dv_key v = key" "dv_status v = DevActive"
      "currentAdmin (dv_id v) (w_db w) = Some acct" "out = stampReports (dv_id v) acct req"
    using receiveReports_sent [OF assms] by blast
  show ?thesis
    using stampReports_facts [where dev = "dv_id v" and acct = acct and req = req] currentAdmin_Some [OF *(6)] *
    by (intro exI [of _ body] exI [of _ key] exI [of _ nonce] exI [of _ v] exI [of _ acct]) simp
qed

section \<open>Concrete runs\<close>

lemma demo_suspend_run:
  "\<exists>w'. setSubscriptionTx Some ''acct'' SubSuspended pc_world = (Inr ''active'', w')"
proof -
  have "audit_args_ok [] ''acct'' ActionSubscriptionChanged
      (AuditDetails\<lparr>ad_account := ''acct'', ad_from := ''active'', ad_to := ''suspended''\<rparr>)"
    by (simp add: audit_args_ok_def validActions_def no_path_def detail_fields_def AuditDetails_def)
  note ok = appendAudit_ok [OF _ this]
  show ?thesis
    by (simp add: setSubscriptionTx_def currentStatus_def putSubscription_def subscriptionOf_def inTx_def andThen_def
        attempt_def stmt_ok query_ok firstRow_def account_ids_def ok pc_defs)
qed

theorem subscription_set_witness:
  "subscriptionOf ''acct'' (w_db (snd (setSubscriptionTx Some ''acct'' SubSuspended pc_world))) = [SubSuspended]"
proof -
  obtain w' where run: "setSubscriptionTx Some ''acct'' SubSuspended pc_world = (Inr ''active'', w')"
    using demo_suspend_run by blast
  show ?thesis
    using subscription_set [OF run pc_wf] run by auto
qed

lemma demo_delete_run: "\<exists>w'. runAccountDeletion ''acct'' pc_world = (Inr 1, w')"
proof -
  have "audit_args_ok [] ''acct'' ActionAccountDeleted (AuditDetails\<lparr>ad_account := ''acct''\<rparr>)"
    by (simp add: audit_args_ok_def validActions_def no_path_def detail_fields_def AuditDetails_def)
  note ok = appendAudit_ok [OF _ this]
  show ?thesis
    by (simp add: runAccountDeletion_def inTx_def andThen_def stmt_ok query_ok exec_ok ok pc_defs)
qed

theorem deletion_complete_witness:
  "account_gone ''acct'' (w_db (snd (runAccountDeletion ''acct'' pc_world))) \<and> \<not> account_gone ''acct'' (w_db pc_world)"
proof -
  obtain w' where run: "runAccountDeletion ''acct'' pc_world = (Inr 1, w')"
    using demo_delete_run by blast
  have "\<not> account_gone ''acct'' (w_db pc_world)"
    by (simp add: account_gone_def account_ids_def pc_defs)
  then show ?thesis
    using deletion_complete [OF run] run by simp
qed

lemma demo_sync_run:
  "\<exists>w'. appsTx demo_key [''files'', ''tv''] [''filebrowser'', ''media''] pc_world = (Inr demo_dev, w')"
proof -
  have "audit_args_ok demo_dev demo_dev ActionDeviceAppsSynced (AuditDetails\<lparr>ad_key := demo_key\<rparr>)"
    by (rule audit_demo) (simp_all add: validActions_def no_path_def [of "[]"] detail_fields_def AuditDetails_def demo_dev_ok)
  note ok = appendAudit_ok [OF _ this]
  show ?thesis
    by (simp add: appsTx_def inTx_def andThen_def stmt_ok query_ok exec_ok firstRow_def device_ids_def ok pc_defs)
qed

lemma demo_apps_valid:
  "checkApps [(''files'', ''filebrowser''), (''tv'', ''media'')] [] [] = Inr ([''files'', ''tv''], [''filebrowser'', ''media''])"
  by (simp add: appname_Valid_def pattern_def name_start_def name_char_def is_lower_letter_def is_digit_def MaxLen_def byte_def)

theorem sync_replaces_apps_witness:
  "typeOf demo_dev ''tv'' (t_apps (w_db (snd (appsTx demo_key [''files'', ''tv''] [''filebrowser'', ''media''] pc_world)))) = [''media'']"
proof -
  obtain w' where run: "appsTx demo_key [''files'', ''tv''] [''filebrowser'', ''media''] pc_world = (Inr demo_dev, w')"
    using demo_sync_run by blast
  show ?thesis
    using conjunct1 [OF conjunct2 [OF sync_replaces_apps [OF demo_apps_valid run pc_wf]]] run by simp
qed

definition demo_report :: otlpRequest where
  "demo_report = [\<lparr>rl_attributes = [otlpString ''device.id'' ''somebody else''], rl_scopes = []\<rparr>]"

theorem reports_name_the_signer_witness:
  "\<exists>out w'. receiveReports toy_lib 0 (sample_request []) (\<lambda>_. Some demo_report) ''http://c'' (\<lambda>_. Status 200) (Some ''body'')
     fresh_response pc_world = ((writeJSON 200 ok_body fresh_response, Some out), w') \<and>
   (\<forall>rl \<in> set out. stampOf ''device.id'' rl = [demo_dev])"
proof -
  have rows: "[(dv_id v, dv_status v, currentAdmin (dv_id v) (w_db signed_world)). v \<leftarrow> t_devices (w_db signed_world), dv_key v = demo_key]
      = [(demo_dev, DevActive, Some ''acct'')]"
    by (simp add: currentAdmin_def sortBy_def signed_world_def pc_defs)
  have faults: "w_faults signed_world = []"
    by (simp add: signed_world_def pc_defs)
  have "\<exists>out w'. receiveReports toy_lib 0 (sample_request []) (\<lambda>_. Some demo_report) ''http://c'' (\<lambda>_. Status 200) (Some ''body'')
      fresh_response pc_world = ((writeJSON 200 ok_body fresh_response, Some out), w')"
    by (simp add: receiveReports_def demo_signed query_ok [OF faults] rows firstRow_def Let_def)
  then obtain out w' where run: "receiveReports toy_lib 0 (sample_request []) (\<lambda>_. Some demo_report) ''http://c'' (\<lambda>_. Status 200)
      (Some ''body'') fresh_response pc_world = ((writeJSON 200 ok_body fresh_response, Some out), w')"
    by blast
  have only: "dv_id v = demo_dev" if "v \<in> set (t_devices (w_db pc_world))" for v
    using that by (simp add: pc_defs)
  show ?thesis
    using reports_name_the_signer [OF run] run only by fastforce
qed

end
