(* ===== verification/Routing.thy ===== *)
theory Routing
  imports DirectoryFacts
begin

text \<open>
  \<^verbatim>\<open>hosted/control-plane/routing.go\<close>: the one place that decides who reaches which application on
  which PC.  The handler returns its response, the world, and what it leaves on the counters and
  sends down the tunnel.  Three things are arguments: the random bytes of the trace header, what
  \<^verbatim>\<open>httputil.ReverseProxy\<close> makes of the incoming headers before the rewrite (\<open>hop\<close>), and how the
  exchange with the agent ends (\<open>serve\<close>).
\<close>

definition denyNoSession :: string where "denyNoSession = ''no_session''"
definition denyBadTarget :: string where "denyBadTarget = ''bad_target''"
definition denyNoBinding :: string where "denyNoBinding = ''no_binding''"
definition denyNoApp :: string where "denyNoApp = ''no_app''"
definition denySubscription :: string where "denySubscription = ''subscription_inactive''"
definition denyOffline :: string where "denyOffline = ''device_offline''"

definition traceHeader :: string where "traceHeader = ''Traceparent''"

text \<open>The request that goes down the tunnel.\<close>

record forwarded =
  fw_method :: string
  fw_host :: string
  fw_path :: string
  fw_query :: "(string \<times> string) list"
  fw_headers :: headers
  fw_cookies :: "(string \<times> string) list"

text \<open>How the proxy ends: no answer came, the application answered, or its answer broke off while it
  was copied, which \<^verbatim>\<open>ReverseProxy\<close> reports by a panic.\<close>

datatype proxied = ProxyError | AppAnswered nat | CopyAborted

record routed =
  ro_samples :: "nat list"
  ro_denials :: "string list"
  ro_forward :: "forwarded option"

definition stripSessionCookie :: "(string \<times> string) list \<Rightarrow> (string \<times> string) list" where
  "stripSessionCookie cookies = filter (\<lambda>c. fst c \<noteq> sessionCookie) cookies"

text \<open>A refusal: counted by reason and by status, audited once the target is known.\<close>

definition deny ::
  "bool \<Rightarrow> string \<Rightarrow> string \<Rightarrow> nat \<Rightarrow> string \<Rightarrow> string \<Rightarrow> response \<Rightarrow> world \<Rightarrow> (response \<times> world) \<times> routed" where
  "deny auditable actor deviceID status reason message rw w =
     ((writeAuthError status message rw,
       if auditable
       then snd (appendAudit deviceID actor ActionRemoteDenied (AuditDetails\<lparr>ad_account := actor, ad_reason := reason\<rparr>) w)
       else w),
      \<lparr>ro_samples = [status], ro_denials = [reason], ro_forward = None\<rparr>)"

text \<open>The owner of a device: the first row that has the admin role, revoked or not.\<close>

definition deviceOwner :: "string \<Rightarrow> db \<Rightarrow> string option" where
  "deviceOwner dev d =
     (case sortBy (\<lambda>x y. bn_created x \<le> bn_created y)
        (filter (\<lambda>b. bn_device b = dev \<and> bn_role b = Admin) (t_bindings d)) of
        [] \<Rightarrow> None | b # _ \<Rightarrow> Some (bn_user b))"

definition accessRow :: "string \<Rightarrow> string \<Rightarrow> string \<Rightarrow> db \<Rightarrow> bool \<times> bool \<times> string option" where
  "accessRow deviceID user app d =
     (boundTo deviceID user d, list_ex (isApp deviceID app) (t_apps d), deviceOwner deviceID d)"

definition remotePath :: "string \<Rightarrow> string \<Rightarrow> string" where
  "remotePath app rest = ''/'' @ app @ (if rest \<noteq> [] then ''/'' @ rest else [])"

definition rewrite :: "(headers \<Rightarrow> headers) \<Rightarrow> string \<Rightarrow> string \<Rightarrow> string \<Rightarrow> request \<Rightarrow> forwarded" where
  "rewrite hop trace deviceID path r =
     \<lparr>fw_method = rq_method r, fw_host = deviceID, fw_path = path, fw_query = rq_query r,
      fw_headers = header_set (header_del (hop (rq_headers r)) ''Authorization'') traceHeader trace,
      fw_cookies = stripSessionCookie (rq_cookies r)\<rparr>"

definition forwardRequest ::
  "string \<Rightarrow> string \<Rightarrow> forwarded \<Rightarrow> (forwarded \<Rightarrow> proxied) \<Rightarrow> response \<Rightarrow> world \<Rightarrow> (response \<times> world) \<times> routed" where
  "forwardRequest actor deviceID out serve rw w = (case serve out of
      ProxyError \<Rightarrow> (case deny True actor deviceID 503 denyOffline ''device offline'' rw w of
        (rw', ro) \<Rightarrow> (rw', ro\<lparr>ro_forward := Some out\<rparr>))
    | AppAnswered code \<Rightarrow> ((writeHeader code rw, w), \<lparr>ro_samples = [code], ro_denials = [], ro_forward = Some out\<rparr>)
    | CopyAborted \<Rightarrow> ((rw, w), \<lparr>ro_samples = [], ro_denials = [], ro_forward = Some out\<rparr>))"

definition remoteRequest ::
  "golib \<Rightarrow> string \<Rightarrow> string \<Rightarrow> (headers \<Rightarrow> headers) \<Rightarrow> (forwarded \<Rightarrow> proxied) \<Rightarrow> request \<Rightarrow> string \<Rightarrow> string \<Rightarrow> string \<Rightarrow>
     tunnelRegistry \<Rightarrow> response \<Rightarrow> world \<Rightarrow> (response \<times> world) \<times> routed" where
  "remoteRequest lib r16 r8 hop serve r deviceID app rest reg rw w =
     (let trace = traceparent_Next r16 r8 (header_get (rq_headers r) traceHeader);
          raw = sessionTokenFromRequest r in
      if raw = [] then deny False [] deviceID 401 denyNoSession ''unauthorized'' rw w
      else case lookupSession lib raw w of
        (Inl _, w1) \<Rightarrow> deny False [] deviceID 401 denyNoSession ''unauthorized'' rw w1
      | (Inr (a, _), w1) \<Rightarrow>
        if validateToken ''device_id'' deviceID \<noteq> None \<or> \<not> appname_Valid app
        then deny False [] deviceID 404 denyBadTarget ''not found'' rw w1
        else (case query (\<lambda>t d. Inr (accessRow deviceID (ac_id a) app d)) w1 of
          (Inl _, w2) \<Rightarrow> deny True (ac_id a) deviceID 404 denyBadTarget ''not found'' rw w2
        | (Inr (bound, hasApp, owner), w2) \<Rightarrow>
          if \<not> bound then deny True (ac_id a) deviceID 404 denyNoBinding ''not found'' rw w2
          else if \<not> hasApp then deny True (ac_id a) deviceID 404 denyNoApp ''not found'' rw w2
          else (case owner of
            None \<Rightarrow> deny True (ac_id a) deviceID 402 denySubscription ''subscription inactive'' rw w2
          | Some o1 \<Rightarrow> (case subscriptionActive o1 w2 of
              (Inl _, w3) \<Rightarrow> deny True (ac_id a) deviceID 404 denyBadTarget ''not found'' rw w3
            | (Inr active, w3) \<Rightarrow>
              if \<not> active then deny True (ac_id a) deviceID 402 denySubscription ''subscription inactive'' rw w3
              else (case registry_get deviceID reg of
                  None \<Rightarrow> deny True (ac_id a) deviceID 503 denyOffline ''device offline'' rw w3
                | Some _ \<Rightarrow> forwardRequest (ac_id a) deviceID
                    (rewrite hop trace deviceID (remotePath app rest) r) serve rw w3)))))"

section \<open>Runs\<close>

lemma deny_simps [simp]:
  "snd (deny auditable actor dev status reason msg rw w) = \<lparr>ro_samples = [status], ro_denials = [reason], ro_forward = None\<rparr>"
  "fst (fst (deny auditable actor dev status reason msg rw w)) = writeAuthError status msg rw"
  by (simp_all add: deny_def)

lemma deny_db:
  "t_accounts (w_db (snd (fst (deny auditable actor dev status reason msg rw w)))) = t_accounts (w_db w)"
  "\<not> auditable \<Longrightarrow> snd (fst (deny auditable actor dev status reason msg rw w)) = w"
  by (auto simp: deny_def appendAudit_alt exec_def stmt_def Let_def)

lemma forward_forward: "ro_forward (snd (forwardRequest actor dev out serve rw w)) = Some out"
  by (auto simp: forwardRequest_def split: proxied.splits prod.splits)

lemma remoteRequest_forwarded:
  assumes "ro_forward (snd (remoteRequest lib r16 r8 hop serve r dev app rest reg rw w)) = Some f"
  shows "\<exists>a s w1 o1 w2 w3 t. sessionTokenFromRequest r \<noteq> [] \<and>
    lookupSession lib (sessionTokenFromRequest r) w = (Inr (a, s), w1) \<and>
    validateToken ''device_id'' dev = None \<and> appname_Valid app \<and>
    query (\<lambda>t d. Inr (accessRow dev (ac_id a) app d)) w1 = (Inr (True, True, Some o1), w2) \<and>
    subscriptionActive o1 w2 = (Inr True, w3) \<and> registry_get dev reg = Some t \<and>
    f = rewrite hop (traceparent_Next r16 r8 (header_get (rq_headers r) traceHeader)) dev (remotePath app rest) r"
  using assms unfolding remoteRequest_def Let_def
  by (auto simp: forward_forward split: if_splits prod.splits sum.splits option.splits)

lemma lookupSession_Inr:
  "lookupSession lib raw w = (Inr (a, s), w') \<Longrightarrow>
   (\<exists>rs. sessionRows lib raw (w_now w) (w_db w) = (a, s) # rs) \<and> w_db w' = w_db w \<and> w_now w' = w_now w"
  unfolding lookupSession_def by (drule query_first_Inr) auto

lemma subscriptionActive_Inr:
  assumes "subscriptionActive acct w = (Inr b, w')"
  shows "b \<longleftrightarrow> hd (subscriptionOf acct (w_db w) @ [SubActive]) = SubActive"
proof -
  obtain res w1 where "query (\<lambda>t d. firstRow (subscriptionOf acct d)) w = (res, w1)"
    by (cases "query (\<lambda>t d. firstRow (subscriptionOf acct d)) w")
  then show ?thesis
    using assms
    by (auto simp: subscriptionActive_def attempt_def query_def stmt_def Let_def firstRow_def split: if_splits list.splits)
qed

text \<open>
  C3.  Nobody reaches an application without every permission.  Whatever the state of the
  database and whatever calls to it fail, a request goes down a tunnel only if it carries a live
  session's token, names a well-formed target, the session's account has an unrevoked binding on
  that device, the device offers that application, the device has an owner whose subscription is
  not suspended, and a tunnel of that device is up.
\<close>

theorem remote_needs_every_permission:
  assumes "ro_forward (snd (remoteRequest lib r16 r8 hop serve r dev app rest reg rw w)) = Some f"
  shows "\<exists>a s. (a, s) \<in> set (sessionRows lib (sessionTokenFromRequest r) (w_now w) (w_db w)) \<and>
    sessionTokenFromRequest r \<noteq> [] \<and> dev \<noteq> [] \<and> no_path dev \<and> appname_Valid app \<and>
    boundTo dev (ac_id a) (w_db w) \<and> list_ex (isApp dev app) (t_apps (w_db w)) \<and>
    (\<exists>o1. deviceOwner dev (w_db w) = Some o1 \<and> hd (subscriptionOf o1 (w_db w) @ [SubActive]) = SubActive) \<and>
    registry_get dev reg \<noteq> None"
proof -
  obtain a s w1 o1 w2 w3 t where
    raw: "sessionTokenFromRequest r \<noteq> []" and look: "lookupSession lib (sessionTokenFromRequest r) w = (Inr (a, s), w1)"
    and tgt: "validateToken ''device_id'' dev = None" "appname_Valid app"
    and acc: "query (\<lambda>t d. Inr (accessRow dev (ac_id a) app d)) w1 = (Inr (True, True, Some o1), w2)"
    and sub: "subscriptionActive o1 w2 = (Inr True, w3)" and reg: "registry_get dev reg = Some t"
    using remoteRequest_forwarded [OF assms] by blast
  obtain rs where rows: "sessionRows lib (sessionTokenFromRequest r) (w_now w) (w_db w) = (a, s) # rs" and db1: "w_db w1 = w_db w"
    using lookupSession_Inr [OF look] by blast
  have "accessRow dev (ac_id a) app (w_db w) = (True, True, Some o1)" and db2: "w_db w2 = w_db w"
    using acc db1 by (auto simp: query_Inr)
  then show ?thesis
    using raw rows tgt reg subscriptionActive_Inr [OF sub]
    by (intro exI [of _ a] exI [of _ s]) (simp add: accessRow_def validateToken_None)
qed

text \<open>
  C5.  The control plane's credentials stay here.  A request that goes down the tunnel carries no
  \<^verbatim>\<open>Authorization\<close> header and no session cookie, all its other cookies in their order, the path
  below the application, and a trace header that continues the caller's trace.
\<close>

theorem credentials_are_stripped:
  assumes "ro_forward (snd (remoteRequest lib r16 r8 hop serve r dev app rest reg rw w)) = Some f"
  shows "header_get (fw_headers f) ''Authorization'' = [] \<and> sessionCookie \<notin> set (map fst (fw_cookies f)) \<and>
    filter (\<lambda>c. fst c \<noteq> sessionCookie) (rq_cookies r) = fw_cookies f \<and> fw_host f = dev \<and>
    fw_path f = ''/'' @ app @ (if rest = [] then [] else ''/'' @ rest) \<and>
    header_get (fw_headers f) traceHeader = traceparent_Next r16 r8 (header_get (rq_headers r) traceHeader)"
proof -
  have f: "f = rewrite hop (traceparent_Next r16 r8 (header_get (rq_headers r) traceHeader)) dev (remotePath app rest) r"
    using remoteRequest_forwarded [OF assms] by blast
  show ?thesis
    by (auto simp: f rewrite_def stripSessionCookie_def remotePath_def traceHeader_def)
qed

lemma lookupSession_run:
  "w_faults w = [] \<Longrightarrow> sessionRows lib raw (w_now w) (w_db w) = as # rs \<Longrightarrow> lookupSession lib raw w = (Inr as, w)"
  by (simp add: lookupSession_def query_ok firstRow_def)

lemma subscriptionActive_run:
  "w_faults w = [] \<Longrightarrow> subscriptionActive acct w = (Inr (hd (subscriptionOf acct (w_db w) @ [SubActive]) = SubActive), w)"
  by (simp add: subscriptionActive_def attempt_def query_ok firstRow_def split: list.splits)

lemma remoteRequest_permitted:
  assumes "w_faults w = []" and "sessionTokenFromRequest r \<noteq> []"
    and "sessionRows lib (sessionTokenFromRequest r) (w_now w) (w_db w) = (a, s) # rs"
    and "dev \<noteq> []" and "no_path dev" and "appname_Valid app"
    and "boundTo dev (ac_id a) (w_db w)" and "list_ex (isApp dev app) (t_apps (w_db w))"
    and "deviceOwner dev (w_db w) = Some o1" and "hd (subscriptionOf o1 (w_db w) @ [SubActive]) = SubActive"
    and "registry_get dev reg = Some t"
  shows "remoteRequest lib r16 r8 hop serve r dev app rest reg rw w = forwardRequest (ac_id a) dev
    (rewrite hop (traceparent_Next r16 r8 (header_get (rq_headers r) traceHeader)) dev (remotePath app rest) r) serve rw w"
proof -
  have tgt: "validateToken ''device_id'' dev = None"
    using assms(4,5) by (simp add: validateToken_None)
  have acc: "query (\<lambda>t d. Inr (accessRow dev (ac_id a) app d)) w = (Inr (True, True, Some o1), w)"
    using assms(1,7-9) by (simp add: query_ok accessRow_def)
  have sub: "subscriptionActive o1 w = (Inr True, w)"
    using subscriptionActive_run [OF assms(1)] assms(10) by simp
  show ?thesis
    using assms(2,6,11) lookupSession_run [OF assms(1,3)] tgt acc sub by (simp add: remoteRequest_def Let_def)
qed

text \<open>
  C4.  Whoever has every permission gets through.  Without database faults, a request with a live
  session, a well-formed target, a binding, an offered application, an owner in good standing and a
  tunnel that is up is sent down that tunnel, and with an answer from the application the caller
  gets the application's status and nothing is audited.
\<close>

theorem permitted_requests_get_through:
  assumes "w_faults w = []" and "sessionTokenFromRequest r \<noteq> []"
    and "sessionRows lib (sessionTokenFromRequest r) (w_now w) (w_db w) = (a, s) # rs"
    and "dev \<noteq> []" and "no_path dev" and "appname_Valid app"
    and "boundTo dev (ac_id a) (w_db w)" and "list_ex (isApp dev app) (t_apps (w_db w))"
    and "deviceOwner dev (w_db w) = Some o1" and "hd (subscriptionOf o1 (w_db w) @ [SubActive]) = SubActive"
    and "registry_get dev reg = Some t"
  shows "\<exists>f. ro_forward (snd (remoteRequest lib r16 r8 hop serve r dev app rest reg rw w)) = Some f \<and>
    (\<forall>code. serve f = AppAnswered code \<longrightarrow> remoteRequest lib r16 r8 hop serve r dev app rest reg rw w =
       ((writeHeader code rw, w), \<lparr>ro_samples = [code], ro_denials = [], ro_forward = Some f\<rparr>))"
  using remoteRequest_permitted [OF assms] by (simp add: forward_forward) (simp add: forwardRequest_def)

lemma query_world: "query f w = (res, w') \<Longrightarrow> w_db w' = w_db w \<and> w_now w' = w_now w"
  by (auto simp: query_def stmt_def Let_def split: if_splits sum.splits)

lemma lookupSession_world: "lookupSession lib raw w = (res, w') \<Longrightarrow> w_db w' = w_db w"
  by (simp add: lookupSession_def query_world)

lemma subscriptionActive_world: "subscriptionActive acct w = (res, w') \<Longrightarrow> w_db w' = w_db w"
  by (auto simp: subscriptionActive_def attempt_def dest!: query_world split: prod.splits sum.splits if_splits)

text \<open>
  Every path through the handler ends in a refusal before the session is known, a refusal of a live
  session's account, or the proxy, on the tables as they were.
\<close>

lemma remoteRequest_ends:
  assumes anon: "\<And>status reason msg w2. w_db w2 = w_db w \<Longrightarrow> Q (deny False [] dev status reason msg rw w2)"
    and refused: "\<And>a s status reason msg w2.
      (a, s) \<in> set (sessionRows lib (sessionTokenFromRequest r) (w_now w) (w_db w)) \<Longrightarrow> w_db w2 = w_db w \<Longrightarrow>
      Q (deny True (ac_id a) dev status reason msg rw w2)"
    and sent: "\<And>a s out w2.
      (a, s) \<in> set (sessionRows lib (sessionTokenFromRequest r) (w_now w) (w_db w)) \<Longrightarrow> w_db w2 = w_db w \<Longrightarrow>
      Q (forwardRequest (ac_id a) dev out serve rw w2)"
  shows "Q (remoteRequest lib r16 r8 hop serve r dev app rest reg rw w)"
proof (cases "sessionTokenFromRequest r = []")
  case True
  then show ?thesis
    by (simp add: remoteRequest_def anon)
next
  case False
  obtain res w1 where look: "lookupSession lib (sessionTokenFromRequest r) w = (res, w1)"
    by (cases "lookupSession lib (sessionTokenFromRequest r) w")
  note db1 = lookupSession_world [OF look]
  show ?thesis
  proof (cases res)
    case (Inl e)
    then show ?thesis
      using False look db1 by (simp add: remoteRequest_def anon)
  next
    case (Inr as)
    obtain a s where as: "as = (a, s)"
      by (cases as)
    have mem: "(a, s) \<in> set (sessionRows lib (sessionTokenFromRequest r) (w_now w) (w_db w))"
      using lookupSession_Inr [OF look [unfolded Inr as]] by auto
    show ?thesis
      using False look db1 unfolding Inr as remoteRequest_def Let_def
      by (auto intro!: anon refused [OF mem] sent [OF mem] dest!: query_world subscriptionActive_world
          split: prod.splits sum.splits option.splits)
  qed
qed

lemma forward_sample:
  "serve out \<noteq> CopyAborted \<Longrightarrow> rs_status rw = None \<Longrightarrow>
   \<exists>code. ro_samples (snd (forwardRequest actor dev out serve rw w)) = [code] \<and>
     rs_status (fst (fst (forwardRequest actor dev out serve rw w))) = Some code \<and>
     length (ro_denials (snd (forwardRequest actor dev out serve rw w))) \<le> 1"
  by (auto simp: forwardRequest_def deny_def writeHeader_def split: proxied.splits)

text \<open>
  Every request leaves one sample.  Unless the application's answer breaks off while it is
  copied, the request counter gains exactly one sample, with the status the caller got; a refusal is
  counted under exactly one reason, and a request without a denial was forwarded.
\<close>

theorem every_request_sampled:
  assumes "\<forall>f. serve f \<noteq> CopyAborted" and "rs_status rw = None"
  shows "\<exists>code. ro_samples (snd (remoteRequest lib r16 r8 hop serve r dev app rest reg rw w)) = [code] \<and>
    rs_status (fst (fst (remoteRequest lib r16 r8 hop serve r dev app rest reg rw w))) = Some code \<and>
    length (ro_denials (snd (remoteRequest lib r16 r8 hop serve r dev app rest reg rw w))) \<le> 1 \<and>
    (ro_denials (snd (remoteRequest lib r16 r8 hop serve r dev app rest reg rw w)) = [] \<longrightarrow>
       ro_forward (snd (remoteRequest lib r16 r8 hop serve r dev app rest reg rw w)) \<noteq> None)"
  by (rule remoteRequest_ends [where Q = "\<lambda>x. \<exists>code. ro_samples (snd x) = [code] \<and> rs_status (fst (fst x)) = Some code \<and>
        length (ro_denials (snd x)) \<le> 1 \<and> (ro_denials (snd x) = [] \<longrightarrow> ro_forward (snd x) \<noteq> None)"])
    (use assms(2) forward_sample [OF assms(1) [rule_format] assms(2)] in \<open>simp_all add: forward_forward\<close>)

text \<open>
  A download that breaks off is not counted.  When copying the application's answer fails
  after it began, the proxy panics past the line that records the sample, so a forwarded request
  leaves no sample at all.
\<close>

theorem aborted_copy_leaves_no_sample:
  assumes "ro_forward (snd (remoteRequest lib r16 r8 hop serve r dev app rest reg rw w)) = Some f"
    and "serve f = CopyAborted"
  shows "ro_samples (snd (remoteRequest lib r16 r8 hop serve r dev app rest reg rw w)) = []"
proof -
  have "ro_samples (snd (forwardRequest actor dev out serve rw w)) = []" if "serve out = CopyAborted" for actor out w
    using that by (simp add: forwardRequest_def)
  then show ?thesis
    using assms unfolding remoteRequest_def Let_def
    by (auto simp: forward_forward split: if_splits prod.splits sum.splits option.splits)
qed

section \<open>What a request changes\<close>

text \<open>What a refusal does to the tables: nothing, or one row about this account and device.\<close>

definition denial_logged :: "string \<Rightarrow> string \<Rightarrow> db \<Rightarrow> db \<Rightarrow> bool" where
  "denial_logged actor dev d d' \<longleftrightarrow> (\<exists>row. d' = d\<lparr>t_audit := t_audit d @ [row]\<rparr> \<and> audit_row_clean row \<and>
     au_action row = ActionRemoteDenied \<and> au_actor row = actor \<and> au_device row = nullIf dev)"

lemma deny_changes:
  "w_db (snd (fst (deny auditable actor dev status reason msg rw w))) = w_db w \<or>
   auditable \<and> denial_logged actor dev (w_db w) (w_db (snd (fst (deny auditable actor dev status reason msg rw w))))"
proof -
  let ?dt = "AuditDetails\<lparr>ad_account := actor, ad_reason := reason\<rparr>"
  have "w_db (snd (appendAudit dev actor ActionRemoteDenied ?dt w)) = w_db w \<or>
      denial_logged actor dev (w_db w) (w_db (snd (appendAudit dev actor ActionRemoteDenied ?dt w)))"
    using auditRow_clean [of dev actor ActionRemoteDenied ?dt]
    by (auto simp: appendAudit_alt exec_def stmt_def Let_def denial_logged_def auditRow_def)
  then show ?thesis
    by (simp add: deny_def)
qed

lemma forward_changes:
  "w_db (snd (fst (forwardRequest actor dev out serve rw w))) = w_db w \<or>
   denial_logged actor dev (w_db w) (w_db (snd (fst (forwardRequest actor dev out serve rw w))))"
  using deny_changes [of True actor dev 503 denyOffline "''device offline''" rw w]
  by (auto simp: forwardRequest_def split: proxied.splits prod.splits)

text \<open>
  Routing writes nothing but its own refusals.  Whatever happens, the tables are unchanged or
  the log has gained one clean row that names the account of a live session and the device asked
  for; a request without a live session writes nothing at all.
\<close>

theorem routing_writes_only_refusals:
  assumes "remoteRequest lib r16 r8 hop serve r dev app rest reg rw w = ((rw', w'), ro)"
  shows "w_db w' = w_db w \<or>
    (\<exists>(a, s) \<in> set (sessionRows lib (sessionTokenFromRequest r) (w_now w) (w_db w)).
       denial_logged (ac_id a) dev (w_db w) (w_db w'))"
proof -
  let ?Q = "\<lambda>x. w_db (snd (fst x)) = w_db w \<or>
    (\<exists>(a, s) \<in> set (sessionRows lib (sessionTokenFromRequest r) (w_now w) (w_db w)).
       denial_logged (ac_id a) dev (w_db w) (w_db (snd (fst x))))"
  have "?Q (remoteRequest lib r16 r8 hop serve r dev app rest reg rw w)"
  proof (rule remoteRequest_ends [where Q = ?Q])
    show "?Q (deny False [] dev status reason msg rw w2)" if "w_db w2 = w_db w" for status reason msg w2
      using that by (simp add: deny_def)
    show "?Q (deny True (ac_id a) dev status reason msg rw w2)"
      if "(a, s) \<in> set (sessionRows lib (sessionTokenFromRequest r) (w_now w) (w_db w))" "w_db w2 = w_db w"
      for a s status reason msg w2
      using that deny_changes [of True "ac_id a" dev status reason msg rw w2] by auto
    show "?Q (forwardRequest (ac_id a) dev out serve rw w2)"
      if "(a, s) \<in> set (sessionRows lib (sessionTokenFromRequest r) (w_now w) (w_db w))" "w_db w2 = w_db w"
      for a s out w2
      using that forward_changes [of "ac_id a" dev out serve rw w2] by auto
  qed
  then show ?thesis
    by (simp add: assms)
qed

lemma remoteRequest_keeps:
  assumes audit: "\<And>d1 ac dt. keeps P (appendAudit d1 ac ActionRemoteDenied dt)"
  shows "keeps P (\<lambda>w. fst (remoteRequest lib r16 r8 hop serve r dev app rest reg rw w))"
  unfolding keeps_def
proof (intro allI impI)
  fix w :: world
  assume inv: "P (w_db w)"
  have d: "P (w_db (snd (fst (deny auditable actor dev status reason msg rw w2))))" if "w_db w2 = w_db w"
    for auditable actor status reason msg w2
    using audit [of dev actor] inv that by (simp add: deny_def keeps_def)
  show "P (w_db (snd (fst (remoteRequest lib r16 r8 hop serve r dev app rest reg rw w))))"
    by (rule remoteRequest_ends [where Q = "\<lambda>x. P (w_db (snd (fst x)))"])
      (use d inv in \<open>auto simp: forwardRequest_def split: proxied.splits prod.splits\<close>, metis d fst_conv snd_conv)
qed

lemma remoteRequest_inv:
  "keeps (cp_inv lib' au) (\<lambda>w. fst (remoteRequest lib r16 r8 hop serve r dev app rest reg rw w))"
  by (rule remoteRequest_keeps) (rule appendAudit_inv)

section \<open>A disabled device\<close>

text \<open>A world whose device table was replaced.\<close>

definition with_devices :: "device_row list \<Rightarrow> world \<Rightarrow> world" where
  "with_devices rows w = w\<lparr>w_db := (w_db w)\<lparr>t_devices := rows\<rparr>\<rparr>"

lemma query_with_devices:
  "(\<And>t d. f t (d\<lparr>t_devices := rows\<rparr>) = f t d) \<Longrightarrow>
   query f (with_devices rows w) = (fst (query f w), with_devices rows (snd (query f w)))"
  by (auto simp: query_def stmt_def Let_def with_devices_def split: sum.splits)

lemma deny_with_devices:
  "deny auditable actor dev status reason msg rw (with_devices rows w) =
   (case deny auditable actor dev status reason msg rw w of ((rw', w'), ro) \<Rightarrow> ((rw', with_devices rows w'), ro))"
proof -
  have "appendAudit d1 a1 ac dt (with_devices rows w) =
      (fst (appendAudit d1 a1 ac dt w), with_devices rows (snd (appendAudit d1 a1 ac dt w)))" for d1 a1 ac dt
    by (simp add: appendAudit_alt exec_def stmt_def Let_def with_devices_def)
  then show ?thesis
    by (simp add: deny_def)
qed

lemma lookupSession_with_devices:
  "lookupSession lib raw (with_devices rows w) = (fst (lookupSession lib raw w), with_devices rows (snd (lookupSession lib raw w)))"
  unfolding lookupSession_def by (rule query_with_devices) (simp add: sessionRows_alt)

lemma access_with_devices:
  "query (\<lambda>t d. Inr (accessRow dev user app d)) (with_devices rows w) =
   (fst (query (\<lambda>t d. Inr (accessRow dev user app d)) w), with_devices rows (snd (query (\<lambda>t d. Inr (accessRow dev user app d)) w)))"
  by (rule query_with_devices) (simp add: accessRow_def boundTo_def deviceOwner_def)

lemma subscription_with_devices:
  "subscriptionActive acct (with_devices rows w) = (fst (subscriptionActive acct w), with_devices rows (snd (subscriptionActive acct w)))"
  by (simp add: subscriptionActive_def attempt_def subscriptionOf_def
      query_with_devices [of "\<lambda>t d. firstRow (map su_status (filter (\<lambda>s. su_account s = acct) (t_subscriptions d)))"]
      split: prod.splits sum.splits)

lemma forward_with_devices:
  "forwardRequest actor dev out serve rw (with_devices rows w) =
   (case forwardRequest actor dev out serve rw w of ((rw', w'), ro) \<Rightarrow> ((rw', with_devices rows w'), ro))"
  by (auto simp: forwardRequest_def deny_with_devices split: proxied.splits prod.splits)

text \<open>
  Routing never looks at the device table.  Replacing it, and so disabling any device, changes
  neither the answer to a remote request nor what goes down the tunnel: a disabled PC stays
  reachable for as long as its tunnel is up.
\<close>

theorem routing_ignores_device_status:
  "remoteRequest lib r16 r8 hop serve r dev app rest reg rw (with_devices rows w) =
   (case remoteRequest lib r16 r8 hop serve r dev app rest reg rw w of ((rw', w'), ro) \<Rightarrow> ((rw', with_devices rows w'), ro))"
  unfolding remoteRequest_def Let_def lookupSession_with_devices
  by (auto simp: deny_with_devices access_with_devices subscription_with_devices forward_with_devices
      split: prod.splits sum.splits option.splits)

section \<open>Concrete runs\<close>

definition app_world :: world where
  "app_world = pc_world\<lparr>w_db := pc_db\<lparr>t_apps := [\<lparr>ap_device = demo_dev, ap_name = ''files'', ap_type = ''files''\<rparr>]\<rparr>\<rparr>"

definition app_registry :: tunnelRegistry where
  "app_registry = \<lparr>rg_live = [(demo_dev, \<lparr>tn_device = demo_dev, tn_conn = 1\<rparr>)], rg_closed = []\<rparr>"

definition app_request :: request where
  "app_request = demo_request\<lparr>rq_headers := [(''Authorization'', ''Bearer tok'')],
     rq_cookies := [(''theme'', ''dark''), (sessionCookie, ''tok'')]\<rparr>"

lemma app_token: "sessionTokenFromRequest app_request = ''tok''"
  by (simp add: sessionTokenFromRequest_def app_request_def demo_request_def sessionCookie_def)

lemma app_session: "sessionRows toy_lib ''tok'' (w_now app_world) (w_db app_world) = [(account_of demo_account, ''sess'')]"
  by (simp add: app_world_def pc_defs sessionRows_alt session_live_def)

lemma app_valid: "appname_Valid ''files''"
  by (simp add: appname_Valid_def pattern_def name_start_def name_char_def is_lower_letter_def is_digit_def MaxLen_def byte_def)

lemma app_facts:
  "w_faults app_world = []" "boundTo demo_dev (ac_id (account_of demo_account)) (w_db app_world)"
  "list_ex (isApp demo_dev ''files'') (t_apps (w_db app_world))" "deviceOwner demo_dev (w_db app_world) = Some ''acct''"
  "hd (subscriptionOf ''acct'' (w_db app_world) @ [SubActive]) = SubActive"
  "registry_get demo_dev app_registry = Some \<lparr>tn_device = demo_dev, tn_conn = 1\<rparr>"
  by (simp_all add: app_world_def pc_defs boundTo_def isBinding_def isApp_def account_of_def deviceOwner_def sortBy_def
      subscriptionOf_def registry_get_def app_registry_def)

theorem permitted_requests_get_through_witness:
  "ro_samples (snd (remoteRequest toy_lib ''a'' ''b'' id (\<lambda>_. AppAnswered 206) app_request demo_dev ''files'' ''x'' app_registry
     fresh_response app_world)) = [206]"
  using permitted_requests_get_through [of app_world app_request toy_lib "account_of demo_account" "''sess''" "[]" demo_dev
      "''files''" "''acct''" app_registry "\<lparr>tn_device = demo_dev, tn_conn = 1\<rparr>" "''a''" "''b''" id "\<lambda>_. AppAnswered 206" "''x''" fresh_response]
    app_token app_session app_valid app_facts demo_dev_ok
  by auto

lemma app_forwarded:
  "\<exists>f. ro_forward (snd (remoteRequest toy_lib ''a'' ''b'' id serve app_request demo_dev ''files'' ''x'' app_registry
     fresh_response app_world)) = Some f"
  by (simp add: remoteRequest_def Let_def app_token lookupSession_run [OF app_facts(1) app_session] validateToken_None
      demo_dev_ok app_valid query_ok app_facts accessRow_def subscriptionActive_run forward_forward)

theorem remote_needs_every_permission_witness:
  "boundTo demo_dev ''acct'' (w_db app_world)"
proof -
  obtain f where "ro_forward (snd (remoteRequest toy_lib ''a'' ''b'' id (\<lambda>_. AppAnswered 200) app_request demo_dev ''files'' ''x''
      app_registry fresh_response app_world)) = Some f"
    using app_forwarded by blast
  from remote_needs_every_permission [OF this] show ?thesis
    by (auto simp: app_token app_session account_of_def demo_account_def)
qed

theorem credentials_are_stripped_witness:
  "\<exists>f. ro_forward (snd (remoteRequest toy_lib ''a'' ''b'' id (\<lambda>_. AppAnswered 200) app_request demo_dev ''files'' ''x''
     app_registry fresh_response app_world)) = Some f \<and> fw_cookies f = [(''theme'', ''dark'')] \<and> fw_path f = ''/files/x''"
proof -
  obtain f where f: "ro_forward (snd (remoteRequest toy_lib ''a'' ''b'' id (\<lambda>_. AppAnswered 200) app_request demo_dev ''files'' ''x''
      app_registry fresh_response app_world)) = Some f"
    using app_forwarded by blast
  from credentials_are_stripped [OF this] f show ?thesis
    by (auto simp: app_request_def sessionCookie_def)
qed

theorem every_request_sampled_witness:
  "\<exists>code. ro_samples (snd (remoteRequest toy_lib ''a'' ''b'' id (\<lambda>_. ProxyError) app_request demo_dev ''files'' ''x''
     app_registry fresh_response app_world)) = [code]"
  using every_request_sampled [of "\<lambda>_. ProxyError" fresh_response toy_lib "''a''" "''b''" id app_request demo_dev "''files''" "''x''"
      app_registry app_world] by auto

theorem aborted_copy_leaves_no_sample_witness:
  "ro_samples (snd (remoteRequest toy_lib ''a'' ''b'' id (\<lambda>_. CopyAborted) app_request demo_dev ''files'' ''x''
     app_registry fresh_response app_world)) = []"
proof -
  obtain f where "ro_forward (snd (remoteRequest toy_lib ''a'' ''b'' id (\<lambda>_. CopyAborted) app_request demo_dev ''files'' ''x''
      app_registry fresh_response app_world)) = Some f"
    using app_forwarded by blast
  from aborted_copy_leaves_no_sample [OF this] show ?thesis
    by simp
qed

theorem routing_writes_only_refusals_witness:
  "t_devices (w_db (snd (fst (remoteRequest toy_lib ''a'' ''b'' id (\<lambda>_. ProxyError) app_request demo_dev ''files'' ''x''
     app_registry fresh_response app_world)))) = t_devices (w_db app_world)"
proof -
  obtain rw' w' ro where "remoteRequest toy_lib ''a'' ''b'' id (\<lambda>_. ProxyError) app_request demo_dev ''files'' ''x''
     app_registry fresh_response app_world = ((rw', w'), ro)"
    by (metis prod.exhaust)
  from routing_writes_only_refusals [OF this] this show ?thesis
    by (auto simp: denial_logged_def)
qed

end
