(* ===== verification/Download.thy ===== *)
theory Download
  imports BindingsFacts
begin

text \<open>
  \<^verbatim>\<open>hosted/control-plane/download.go\<close>: the download page's data.  GitHub's answer, decoded, is an
  argument of \<open>fetch\<close>: its tag, its page and its assets, or nothing when it could not be had.
\<close>

definition releasesPage :: string where "releasesPage = ''https://github.com/achmadss/anywhere-file/releases''"
definition releaseCacheFor :: int where "releaseCacheFor = 10 * minute"

record download =
  dl_name :: string
  dl_url :: string
  dl_label :: string

record system =
  sy_name :: string
  sy_files :: "download list"
  sy_warning :: string
  sy_then :: string

record release =
  re_version :: string
  re_systems :: "system list"
  re_page :: string
  re_sums :: string

definition systems :: "system list" where
  "systems =
    [\<lparr>sy_name = ''macOS'', sy_files = [],
      sy_warning = ''The package is not signed yet, so macOS says it is from an unidentified '' @
        ''developer. Open it, let the warning appear, then go to System Settings, '' @
        ''Privacy and Security, scroll to Security and press Open Anyway. The same panel '' @
        ''is where the agent'' @ [CHR 0x27] @ ''s request to use the local network is granted, under Local Network.'',
      sy_then = ''The agent starts on its own and its settings page opens in your browser. '' @
        ''Later, open it again from the laptop icon in the menu bar.''\<rparr>,
     \<lparr>sy_name = ''Windows'', sy_files = [],
      sy_warning = ''The installer is not signed yet, so SmartScreen warns about an unknown '' @
        ''publisher. Press More info, then Run anyway.'',
      sy_then = ''The agent starts on its own and its settings page opens in your browser. '' @
        ''Later, open it again from the laptop icon next to the clock.''\<rparr>,
     \<lparr>sy_name = ''Linux'', sy_files = [],
      sy_warning = ''Nothing checks a signature on Linux, so nothing warns.'',
      sy_then = ''The deb starts the agent at logon and opens its settings page. The tarball installs under your home with '' @
        ''its install.sh. Either way, anywhere-file settings is in the applications menu '' @
        ''and opens the settings page, and anywhere-file-agent settings does the same from a terminal.''\<rparr>]"

definition systemOf :: "string \<Rightarrow> string" where
  "systemOf name =
     (if hasSuffix name ''.pkg'' then ''macOS''
      else if hasSuffix name ''.msi'' then ''Windows''
      else if hasSuffix name ''.deb'' \<or> stringContains name ''-linux-'' then ''Linux''
      else [])"

definition isARMInstaller :: "string \<Rightarrow> bool" where
  "isARMInstaller name = hasSuffix name ''-arm64.msi''"

definition labelOf :: "string \<Rightarrow> string" where
  "labelOf name =
     (if isARMInstaller name then ''Windows on ARM''
      else if hasSuffix name ''.msi'' then ''Windows (x64)''
      else [])"

definition systemFor :: "string \<Rightarrow> string" where
  "systemFor userAgent =
     (if stringContains userAgent ''Windows'' then ''Windows''
      else if stringContains userAgent ''Mac OS X'' \<or> stringContains userAgent ''Macintosh'' then ''macOS''
      else if stringContains userAgent ''Linux'' \<or> stringContains userAgent ''X11'' then ''Linux''
      else [])"

text \<open>What GitHub says: tag, page, and the assets' names and addresses.\<close>

record github =
  gh_tag :: string
  gh_url :: string
  gh_assets :: "(string \<times> string) list"

definition fileOf :: "string \<times> string \<Rightarrow> download" where
  "fileOf a = \<lparr>dl_name = fst a, dl_url = snd a, dl_label = labelOf (fst a)\<rparr>"

text \<open>The loop keeps the last \<^verbatim>\<open>SHA256SUMS\<close>.\<close>

definition sumsOf :: "(string \<times> string) list \<Rightarrow> string" where
  "sumsOf assets = foldl (\<lambda>sums a. if fst a = ''SHA256SUMS'' then snd a else sums) [] assets"

text \<open>\<^verbatim>\<open>sort.SliceStable\<close> with the less function of the source.\<close>

definition filesFor :: "string \<Rightarrow> (string \<times> string) list \<Rightarrow> download list" where
  "filesFor name assets =
     sortBy (\<lambda>x y. \<not> (\<not> isARMInstaller (dl_name y) \<and> isARMInstaller (dl_name x)))
       (map fileOf (filter (\<lambda>a. systemOf (fst a) = name) assets))"

definition fetch :: "github option \<Rightarrow> release option" where
  "fetch answer = (case answer of None \<Rightarrow> None
   | Some out \<Rightarrow> Some \<lparr>re_version = trimPrefix (gh_tag out) ''v'',
       re_systems = map (\<lambda>s. s\<lparr>sy_files := filesFor (sy_name s) (gh_assets out)\<rparr>) systems,
       re_page = gh_url out, re_sums = sumsOf (gh_assets out)\<rparr>)"

record releaseCache =
  rc_fetched :: int
  rc_last :: "release option"

text \<open>\<open>now\<close> is the clock at the test of the age, \<open>later\<close> the clock after the fetch.\<close>

definition cache_get :: "int \<Rightarrow> int \<Rightarrow> github option \<Rightarrow> releaseCache \<Rightarrow> release option \<times> releaseCache" where
  "cache_get now later answer c =
     (if rc_last c \<noteq> None \<and> now - rc_fetched c < releaseCacheFor then (rc_last c, c)
      else case fetch answer of
        None \<Rightarrow> (rc_last c, c)
      | Some rel \<Rightarrow> (Some rel, \<lparr>rc_fetched = later, rc_last = Some rel\<rparr>))"

fun orderSystems :: "string \<Rightarrow> system list \<Rightarrow> system list \<Rightarrow> system list" where
  "orderSystems mine [] ordered = ordered"
| "orderSystems mine (s # ss) ordered =
     (if sy_name s = mine then orderSystems mine ss (s # ordered) else orderSystems mine ss (ordered @ [s]))"

definition downloadData :: "string \<Rightarrow> release option \<Rightarrow> release" where
  "downloadData userAgent rel = (case rel of
      None \<Rightarrow> \<lparr>re_version = [], re_systems = [], re_page = releasesPage, re_sums = []\<rparr>
    | Some r \<Rightarrow> r\<lparr>re_systems := orderSystems (systemFor userAgent) (re_systems r) []\<rparr>)"

definition latestVersion :: "int \<Rightarrow> int \<Rightarrow> github option \<Rightarrow> releaseCache \<Rightarrow> response \<Rightarrow> response \<times> releaseCache" where
  "latestVersion now later answer c rw = (case cache_get now later answer c of
      (None, c') \<Rightarrow> (writeJSON 503 (JObj [(''error'', JStr ''the latest release is not known right now'')]) rw, c')
    | (Some rel, c') \<Rightarrow> (writeJSON 200 (JObj [(''version'', JStr (re_version rel))]) rw, c'))"

section \<open>Facts\<close>

text \<open>The stable sort is a partition: files that are not for ARM first, each part in its order.\<close>

lemma insertBy_front: "(\<And>y. y \<in> set ys \<Longrightarrow> le x y) \<Longrightarrow> insertBy le x ys = x # ys"
  by (cases ys) auto

lemma insertBy_back: "(\<And>y. y \<in> set xs \<Longrightarrow> \<not> le x y) \<Longrightarrow> insertBy le x (xs @ ys) = xs @ insertBy le x ys"
  by (induction xs) auto

lemma sortBy_partition:
  "sortBy (\<lambda>x y. \<not> (\<not> P y \<and> P x)) xs = filter (\<lambda>x. \<not> P x) xs @ filter P xs"
proof (induction xs)
  case (Cons x xs)
  let ?le = "\<lambda>x y. \<not> (\<not> P y \<and> P x)"
  have "sortBy ?le (x # xs) = insertBy ?le x (filter (\<lambda>x. \<not> P x) xs @ filter P xs)"
    using Cons by (simp add: sortBy_def)
  also have "\<dots> = filter (\<lambda>x. \<not> P x) (x # xs) @ filter P (x # xs)"
  proof (cases "P x")
    case True
    then have "insertBy ?le x (filter (\<lambda>x. \<not> P x) xs @ filter P xs) = filter (\<lambda>x. \<not> P x) xs @ insertBy ?le x (filter P xs)"
      by (intro insertBy_back) auto
    also have "insertBy ?le x (filter P xs) = x # filter P xs"
      by (rule insertBy_front) auto
    finally show ?thesis
      using True by simp
  next
    case False
    then show ?thesis
      by (simp add: insertBy_front)
  qed
  finally show ?case .
qed (simp add: sortBy_def)

lemma filesFor_partition:
  "filesFor name assets =
     map fileOf (filter (\<lambda>a. systemOf (fst a) = name \<and> \<not> isARMInstaller (fst a)) assets) @
     map fileOf (filter (\<lambda>a. systemOf (fst a) = name \<and> isARMInstaller (fst a)) assets)"
  unfolding filesFor_def sortBy_partition by (simp add: filter_map comp_def fileOf_def conj_commute)

lemma orderSystems_acc:
  "mine \<notin> set (map sy_name ss) \<Longrightarrow> orderSystems mine ss ordered = ordered @ ss"
  by (induction ss arbitrary: ordered) auto

lemma orderSystems_mine:
  "distinct (map sy_name ss) \<Longrightarrow> mine \<notin> set (map sy_name ordered) \<Longrightarrow>
   orderSystems mine ss ordered = filter (\<lambda>s. sy_name s = mine) ss @ ordered @ filter (\<lambda>s. sy_name s \<noteq> mine) ss"
proof (induction ss arbitrary: ordered)
  case (Cons s ss)
  show ?case
  proof (cases "sy_name s = mine")
    case True
    then have none: "mine \<notin> set (map sy_name ss)"
      using Cons.prems(1) by auto
    then have "filter (\<lambda>s. sy_name s = mine) ss = []" "filter (\<lambda>s. sy_name s \<noteq> mine) ss = ss"
      by (auto simp: filter_empty_conv filter_id_conv)
    with True none show ?thesis
      by (simp add: orderSystems_acc)
  next
    case False
    then show ?thesis
      using Cons by auto
  qed
qed simp

text \<open>
  The page shows every system once, the visitor's first.  Of a release read from GitHub the page
  lists the three systems in their fixed order except that the visitor's own comes first; under each
  the files are exactly the assets of that system, in GitHub's order, ARM installers last.
\<close>

theorem download_page_lists_all:
  assumes "fetch answer = Some rel"
  shows "\<exists>out. answer = Some out \<and>
    map sy_name (re_systems (downloadData ua (Some rel))) =
      filter (\<lambda>n. n = systemFor ua) [''macOS'', ''Windows'', ''Linux''] @
      filter (\<lambda>n. n \<noteq> systemFor ua) [''macOS'', ''Windows'', ''Linux''] \<and>
    (\<forall>s \<in> set (re_systems (downloadData ua (Some rel))). sy_files s =
       map fileOf (filter (\<lambda>a. systemOf (fst a) = sy_name s \<and> \<not> isARMInstaller (fst a)) (gh_assets out)) @
       map fileOf (filter (\<lambda>a. systemOf (fst a) = sy_name s \<and> isARMInstaller (fst a)) (gh_assets out)))"
proof -
  obtain out where out: "answer = Some out"
    using assms by (auto simp: fetch_def split: option.splits)
  let ?ss = "map (\<lambda>s. s\<lparr>sy_files := filesFor (sy_name s) (gh_assets out)\<rparr>) systems"
  have ss: "re_systems rel = ?ss"
    using assms out by (auto simp: fetch_def)
  have names: "map sy_name ?ss = [''macOS'', ''Windows'', ''Linux'']"
    by (simp add: systems_def)
  have ord: "re_systems (downloadData ua (Some rel)) =
      filter (\<lambda>s. sy_name s = systemFor ua) ?ss @ filter (\<lambda>s. sy_name s \<noteq> systemFor ua) ?ss"
    using orderSystems_mine [of ?ss "systemFor ua" "[]"] names by (simp add: downloadData_def ss)
  have flt: "map sy_name (filter (\<lambda>s. Q (sy_name s)) ?ss) = filter Q [''macOS'', ''Windows'', ''Linux'']" for Q
    by (simp only: names [symmetric] filter_map comp_def)
  have "map sy_name (re_systems (downloadData ua (Some rel))) =
      filter (\<lambda>n. n = systemFor ua) [''macOS'', ''Windows'', ''Linux''] @
      filter (\<lambda>n. n \<noteq> systemFor ua) [''macOS'', ''Windows'', ''Linux'']"
    by (simp only: ord map_append flt [of "\<lambda>n. n = systemFor ua"] flt [of "\<lambda>n. n \<noteq> systemFor ua"])
  moreover have "sy_files s = filesFor (sy_name s) (gh_assets out)" if "s \<in> set (re_systems (downloadData ua (Some rel)))" for s
    using that unfolding ord set_append set_filter set_map by fastforce
  ultimately show ?thesis
    using out unfolding filesFor_partition [symmetric] by blast
qed

text \<open>
  The cache spares GitHub and keeps what it knows.  A release younger than the limit is
  returned without asking; when GitHub cannot be asked a stale release is kept; nothing is forgotten.
\<close>

theorem cache_prefers_any_answer:
  "(rc_last c = Some rel \<and> now - rc_fetched c < releaseCacheFor \<longrightarrow> cache_get now later answer c = (Some rel, c)) \<and>
   (answer = None \<longrightarrow> cache_get now later answer c = (rc_last c, c)) \<and>
   (answer \<noteq> None \<longrightarrow> fst (cache_get now later answer c) \<noteq> None) \<and>
   rc_last (snd (cache_get now later answer c)) = fst (cache_get now later answer c)"
  by (auto simp: cache_get_def fetch_def split: option.splits)

theorem cache_prefers_any_answer_witness:
  "cache_get 0 1 None \<lparr>rc_fetched = 0, rc_last = fetch (Some \<lparr>gh_tag = ''v1'', gh_url = [], gh_assets = []\<rparr>)\<rparr>
   = (fetch (Some \<lparr>gh_tag = ''v1'', gh_url = [], gh_assets = []\<rparr>),
      \<lparr>rc_fetched = 0, rc_last = fetch (Some \<lparr>gh_tag = ''v1'', gh_url = [], gh_assets = []\<rparr>)\<rparr>)"
  using cache_prefers_any_answer [of "\<lparr>rc_fetched = 0, rc_last = fetch (Some \<lparr>gh_tag = ''v1'', gh_url = [], gh_assets = []\<rparr>)\<rparr>" _ 0 1 None]
  by simp

theorem download_page_lists_all_witness:
  "map sy_name (re_systems (downloadData ''X11'' (fetch (Some \<lparr>gh_tag = ''v1'', gh_url = [], gh_assets = [(''a.deb'', ''u'')]\<rparr>))))
   = [''Linux'', ''macOS'', ''Windows'']"
proof -
  obtain rel where rel: "fetch (Some \<lparr>gh_tag = ''v1'', gh_url = [], gh_assets = [(''a.deb'', ''u'')]\<rparr>) = Some rel"
    by (simp add: fetch_def)
  have "systemFor ''X11'' = ''Linux''"
    by code_simp
  then show ?thesis
    using download_page_lists_all [OF rel, of "''X11''"] rel by auto
qed

end
