(* ===== verification/Web.thy ===== *)
theory Web
  imports Download
begin

text \<open>
  \<^verbatim>\<open>hosted/control-plane/web.go\<close> and the page half of \<^verbatim>\<open>download.go\<close>: the account pages.  A handler
  returns its response and the template with the data it was executed on; how executing the
  template ends is an argument, \<open>tmpl\<close>.
\<close>

record field =
  fi_name :: string
  fi_label :: string
  fi_type :: string
  fi_auto :: string

record link =
  li_href :: string
  li_text :: string

record page =
  pg_title :: string
  pg_intro :: string
  pg_fields :: "field list"
  pg_action :: string
  pg_method :: string
  pg_submit :: string
  pg_danger :: bool
  pg_deny :: string
  pg_done :: string
  pg_links :: "link list"
  pg_onload :: bool
  pg_reload :: bool
  pg_back :: bool
  pg_backto :: string
  pg_backpc :: string

definition page0 :: page where
  "page0 = \<lparr>pg_title = [], pg_intro = [], pg_fields = [], pg_action = [], pg_method = [], pg_submit = [],
     pg_danger = False, pg_deny = [], pg_done = [], pg_links = [], pg_onload = False, pg_reload = False,
     pg_back = False, pg_backto = [], pg_backpc = []\<rparr>"

definition emailField :: field where
  "emailField = \<lparr>fi_name = ''email'', fi_label = ''Email'', fi_type = ''email'', fi_auto = ''username''\<rparr>"

definition passwordField :: "string \<Rightarrow> field" where
  "passwordField auto = \<lparr>fi_name = ''password'', fi_label = ''Password'', fi_type = ''password'', fi_auto = auto\<rparr>"

definition pages :: "(string \<times> page) list" where
  "pages =
    [(''/signup'', page0\<lparr>pg_title := ''Create an account'', pg_intro := ''One account reaches every PC you set up.'',
        pg_fields := [emailField, passwordField ''new-password''], pg_action := ''/v1/auth/signup'', pg_submit := ''Sign up'',
        pg_done := ''Check your email for a link that confirms the address, then sign in from the app.'',
        pg_links := [\<lparr>li_href = ''/signin'', li_text = ''Sign in''\<rparr>]\<rparr>),
     (''/signin'', page0\<lparr>pg_title := ''Sign in'', pg_intro := ''One account reaches every PC you set up.'',
        pg_fields := [emailField, passwordField ''current-password''], pg_action := ''/v1/auth/signin'', pg_submit := ''Sign in'',
        pg_done := ''You are signed in. Go back to the app to use your account.'',
        pg_links := [\<lparr>li_href = ''/signup'', li_text = ''Create an account''\<rparr>]\<rparr>),
     (''/verify'', page0\<lparr>pg_title := ''Confirm your address'', pg_action := ''/v1/auth/verify'', pg_onload := True,
        pg_done := ''The address is confirmed. Sign in from the app.'', pg_back := True\<rparr>),
     (''/reset'', page0\<lparr>pg_title := ''Reset your password'', pg_intro := ''A link goes to the address on the account.'',
        pg_fields := [emailField], pg_action := ''/v1/auth/password-reset/request'', pg_submit := ''Send the link'',
        pg_done := ''If there is an account for that address, a link is on its way to it.''\<rparr>),
     (''/reset/confirm'', page0\<lparr>pg_title := ''Choose a new password'', pg_intro := ''At least 12 characters.'',
        pg_fields := [\<lparr>fi_name = ''new_password'', fi_label = ''New password'', fi_type = ''password'', fi_auto = ''new-password''\<rparr>],
        pg_action := ''/v1/auth/password-reset/confirm'', pg_submit := ''Save it'',
        pg_done := ''The password is changed and every session that was open is signed out. Sign in from the app.'',
        pg_back := True\<rparr>)]"

datatype pageData = Landing | Legal string string | WebPage page | DownloadPage release

text \<open>The template ran to its end, failed before it wrote, or failed after it had written.\<close>

datatype executed = Rendered | FailedEarly | FailedLate

definition quoted :: "string \<Rightarrow> string" where
  "quoted s = [CHR 0x27] @ s @ [CHR 0x27]"

definition csp :: string where
  "csp = ''default-src '' @ quoted ''none'' @ ''; script-src '' @ quoted ''unsafe-inline'' @ ''; style-src '' @ quoted ''unsafe-inline'' @
     ''; connect-src '' @ quoted ''self'' @ ''; form-action '' @ quoted ''none'' @ ''; base-uri '' @ quoted ''none'' @
     ''; frame-ancestors '' @ quoted ''none''"

definition pageHeaders :: "response \<Rightarrow> response" where
  "pageHeaders rw = rw\<lparr>rs_headers := header_set (header_set (header_set (rs_headers rw)
     ''Content-Type'' ''text/html; charset=utf-8'') ''Referrer-Policy'' ''no-referrer'') ''Content-Security-Policy'' csp\<rparr>"

definition httpError :: "nat \<Rightarrow> response \<Rightarrow> response" where
  "httpError code rw = writeHeader code (rw\<lparr>rs_headers := header_set (header_set (rs_headers rw)
     ''Content-Type'' ''text/plain; charset=utf-8'') ''X-Content-Type-Options'' ''nosniff''\<rparr>)"

definition renderTemplate ::
  "(string \<Rightarrow> pageData \<Rightarrow> executed) \<Rightarrow> string \<Rightarrow> pageData \<Rightarrow> response \<Rightarrow> response \<times> (string \<times> pageData)" where
  "renderTemplate tmpl name data rw =
     (let rw1 = pageHeaders rw in
      (case tmpl name data of
         Rendered \<Rightarrow> writeHeader 200 rw1
       | FailedEarly \<Rightarrow> httpError 500 rw1
       | FailedLate \<Rightarrow> httpError 500 (writeHeader 200 rw1), (name, data)))"

type_synonym rendering = "response \<times> (string \<times> pageData)"

definition render :: "(string \<Rightarrow> pageData \<Rightarrow> executed) \<Rightarrow> page \<Rightarrow> response \<Rightarrow> rendering" where
  "render tmpl p rw = renderTemplate tmpl ''web.html'' (WebPage p) rw"

definition signInPage :: "string \<Rightarrow> string \<Rightarrow> page" where
  "signInPage title intro = page0\<lparr>pg_title := title, pg_intro := intro,
     pg_fields := [emailField, passwordField ''current-password''], pg_action := ''/v1/auth/signin'',
     pg_submit := ''Sign in'', pg_reload := True\<rparr>"

definition landingPage :: "(string \<Rightarrow> pageData \<Rightarrow> executed) \<Rightarrow> response \<Rightarrow> rendering" where
  "landingPage tmpl rw = renderTemplate tmpl ''landing'' Landing rw"

definition legalPage :: "(string \<Rightarrow> pageData \<Rightarrow> executed) \<Rightarrow> string \<Rightarrow> string \<Rightarrow> response \<Rightarrow> rendering" where
  "legalPage tmpl title body rw = renderTemplate tmpl ''legal'' (Legal title body) rw"

definition downloadPage ::
  "(string \<Rightarrow> pageData \<Rightarrow> executed) \<Rightarrow> int \<Rightarrow> int \<Rightarrow> github option \<Rightarrow> request \<Rightarrow> releaseCache \<Rightarrow> response \<Rightarrow> rendering \<times> releaseCache" where
  "downloadPage tmpl now later answer r c rw = (case cache_get now later answer c of (rel, c') \<Rightarrow>
     (renderTemplate tmpl ''download'' (DownloadPage (downloadData (header_get (rq_headers r) ''User-Agent'') rel)) rw, c'))"

definition queryGet :: "request \<Rightarrow> string \<Rightarrow> string" where
  "queryGet r k = (case map_of (rq_query r) k of None \<Rightarrow> [] | Some v \<Rightarrow> v)"

definition pendingRows :: "golib \<Rightarrow> string \<Rightarrow> int \<Rightarrow> db \<Rightarrow> enrolment_row list" where
  "pendingRows lib code t d = filter (\<lambda>e. en_hash e = hashToken lib (normalizeUserCode lib code) \<and>
     en_status e = Pending \<and> en_used e = None \<and> en_expires e > t) (t_enrolments d)"

definition pendingPCName :: "golib \<Rightarrow> string \<Rightarrow> world \<Rightarrow> string option \<times> world" where
  "pendingPCName lib code w = (case query (\<lambda>t d. firstRow (map en_name (pendingRows lib code t d))) w of
      (Inl _, w') \<Rightarrow> (None, w')
    | (Inr name, w') \<Rightarrow> (Some (if name = [] then ''A PC that gave no name'' else name), w'))"

definition approveSignIn :: "string \<Rightarrow> page" where
  "approveSignIn code =
     (let p = signInPage ''Sign in to approve'' ''A PC is asking to join an account. Sign in to the account it should join.'' in
      if code = [] then p
      else p\<lparr>pg_links := [\<lparr>li_href = ''/signup?code='' @ queryEscape code, li_text = ''Create an account''\<rparr>,
                          \<lparr>li_href = ''/reset?code='' @ queryEscape code, li_text = ''Forgot your password''\<rparr>]\<rparr>)"

definition approveForm :: "string \<Rightarrow> string \<Rightarrow> page" where
  "approveForm name email = page0\<lparr>pg_title := ''Approve this PC?'',
     pg_intro := name @ '' is asking to join '' @ email @ ''. Approving lets you reach it from '' @
       ''away. Only approve it if you just asked this PC to sign in.'',
     pg_action := ''/v1/devices/enrolment/answer'', pg_submit := ''Approve'', pg_deny := ''Refuse''\<rparr>"

definition nothingToApprove :: page where
  "nothingToApprove = page0\<lparr>pg_title := ''Nothing to approve'',
     pg_intro := ''That request expired or was already answered. Ask the PC to sign in again.''\<rparr>"

definition approvePage ::
  "golib \<Rightarrow> (string \<Rightarrow> pageData \<Rightarrow> executed) \<Rightarrow> request \<Rightarrow> response \<Rightarrow> world \<Rightarrow> rendering \<times> world" where
  "approvePage lib tmpl r rw w = (case lookupSession lib (sessionTokenFromRequest r) w of
      (Inl _, w1) \<Rightarrow> (render tmpl (approveSignIn (queryGet r ''code'')) rw, w1)
    | (Inr (a, _), w1) \<Rightarrow> (case pendingPCName lib (queryGet r ''code'') w1 of
        (None, w2) \<Rightarrow> (render tmpl nothingToApprove rw, w2)
      | (Some name, w2) \<Rightarrow> (render tmpl (approveForm name (ac_email a)) rw, w2)))"

definition deleteForm :: page where
  "deleteForm = page0\<lparr>pg_title := ''Delete your account'',
     pg_intro := ''You lose access to every PC on the account. The PCs keep sharing on their own '' @
       ''network, and other people keep their access. A PC where you were the only admin has '' @
       ''nobody left to manage it, so sign it out from its settings page first if it should '' @
       ''join another account.'',
     pg_fields := [passwordField ''current-password''], pg_action := ''/v1/account'', pg_method := ''DELETE'',
     pg_submit := ''Delete my account'', pg_danger := True, pg_done := ''Your account is deleted.''\<rparr>"

definition accountDeletePage ::
  "golib \<Rightarrow> (string \<Rightarrow> pageData \<Rightarrow> executed) \<Rightarrow> request \<Rightarrow> response \<Rightarrow> world \<Rightarrow> rendering \<times> world" where
  "accountDeletePage lib tmpl r rw w = (case lookupSession lib (sessionTokenFromRequest r) w of
      (Inl _, w1) \<Rightarrow> (render tmpl (signInPage ''Sign in to delete your account'' ''Sign in to the account you want to delete.'') rw, w1)
    | (Inr _, w1) \<Rightarrow> (render tmpl deleteForm rw, w1))"

definition servePage ::
  "golib \<Rightarrow> (string \<Rightarrow> pageData \<Rightarrow> executed) \<Rightarrow> page \<Rightarrow> request \<Rightarrow> response \<Rightarrow> world \<Rightarrow> rendering \<times> world" where
  "servePage lib tmpl p r rw w =
     (let code = queryGet r ''code'' in
      if pg_back p \<and> code \<noteq> [] then
        (case pendingPCName lib code w of
           (None, w1) \<Rightarrow> (render tmpl p rw, w1)
         | (Some name, w1) \<Rightarrow> (render tmpl (p\<lparr>pg_backto := ''/approve?code='' @ queryEscape code, pg_backpc := name\<rparr>) rw, w1))
      else (render tmpl p rw, w))"

section \<open>Facts\<close>

lemma render_headers:
  "tmpl name data = Rendered \<Longrightarrow> header_get (rs_headers (fst (renderTemplate tmpl name data rw))) ''Content-Type'' = ''text/html; charset=utf-8''"
  "header_get (rs_headers (fst (renderTemplate tmpl name data rw))) ''Referrer-Policy'' = ''no-referrer''"
  "header_get (rs_headers (fst (renderTemplate tmpl name data rw))) ''Content-Security-Policy'' = csp"
  by (auto simp: renderTemplate_def Let_def pageHeaders_def httpError_def writeHeader_def split: executed.splits option.splits)

lemma pendingPCName_db: "w_db (snd (pendingPCName lib code w)) = w_db w"
  by (auto simp: pendingPCName_def dest: query_db split: prod.splits sum.splits)

lemma lookupSession_keeps_db: "lookupSession lib raw w = (res, w') \<Longrightarrow> w_db w' = w_db w"
  unfolding lookupSession_def by (rule query_db)

lemma servePage_keeps: "keeps P (servePage lib tmpl p r rw)"
  by (auto simp: keeps_def servePage_def Let_def split: prod.splits option.splits) (metis pendingPCName_db snd_conv)+

lemma accountDeletePage_keeps: "keeps P (accountDeletePage lib tmpl r rw)"
  by (auto simp: keeps_def accountDeletePage_def dest!: lookupSession_keeps_db split: prod.splits sum.splits)

lemma approvePage_keeps: "keeps P (approvePage lib tmpl r rw)"
proof -
  have "w_db w' = w_db w" if "pendingPCName lib code w = (res, w')" for code w res w'
    using that pendingPCName_db [of lib code w] by simp
  then show ?thesis
    by (auto simp: keeps_def approvePage_def dest!: lookupSession_keeps_db split: prod.splits sum.splits option.splits)
qed

text \<open>The way back is offered only for a code that still waits, and then carries it escaped.\<close>

lemma servePage_way_back:
  assumes "servePage lib tmpl p r rw w = ((rw', name, WebPage q), w')" and "pg_backto p = []"
  shows "pg_backto q = [] \<or> (pg_back p \<and> pg_backto q = ''/approve?code='' @ queryEscape (queryGet r ''code'') \<and>
    pendingRows lib (queryGet r ''code'') (w_now w) (w_db w) \<noteq> [])"
proof (cases "pg_back p \<and> queryGet r ''code'' \<noteq> []")
  case True
  obtain res w1 where pc: "pendingPCName lib (queryGet r ''code'') w = (res, w1)"
    by fastforce
  have "pendingRows lib (queryGet r ''code'') (w_now w) (w_db w) \<noteq> []" if "res \<noteq> None"
    using pc that query_first_Inr [of "\<lambda>t d. map en_name (pendingRows lib (queryGet r ''code'') t d)" w]
    by (auto simp: pendingPCName_def split: prod.splits sum.splits)
  then show ?thesis
    using assms True pc
    by (cases res) (auto simp: servePage_def Let_def render_def renderTemplate_def)
next
  case False
  then show ?thesis
    using assms by (auto simp: servePage_def Let_def render_def renderTemplate_def)
qed

lemma pendingPCName_run:
  "w_faults w = [] \<Longrightarrow> pendingPCName lib code w =
   ((case pendingRows lib code (w_now w) (w_db w) of [] \<Rightarrow> None
     | e # _ \<Rightarrow> Some (if en_name e = [] then ''A PC that gave no name'' else en_name e)), w)"
  by (simp add: pendingPCName_def query_ok firstRow_def split: list.splits)

text \<open>
  The approval page.  A visitor without a live session gets the sign-in form, whatever the
  code and whether or not a PC waits for it; somebody signed in is asked about the PC whose request
  is pending under that code, by that PC's name and their own address, and about nothing else.
\<close>

theorem approve_page_answers:
  assumes "w_faults w = []"
  shows "fst (approvePage lib tmpl r rw w) = render tmpl
    (case sessionRows lib (sessionTokenFromRequest r) (w_now w) (w_db w) of
       [] \<Rightarrow> approveSignIn (queryGet r ''code'')
     | (a, _) # _ \<Rightarrow> (case pendingRows lib (queryGet r ''code'') (w_now w) (w_db w) of
         [] \<Rightarrow> nothingToApprove
       | e # _ \<Rightarrow> approveForm (if en_name e = [] then ''A PC that gave no name'' else en_name e) (ac_email a))) rw"
  using assms
  by (auto simp: approvePage_def lookupSession_def query_ok firstRow_def pendingPCName_run split: list.splits)

theorem approve_page_answers_witness:
  "fst (approvePage toy_lib (\<lambda>_ _. Rendered) demo_request fresh_response demo_world) = render (\<lambda>_ _. Rendered) nothingToApprove fresh_response"
proof -
  have "sessionRows toy_lib (sessionTokenFromRequest demo_request) (w_now demo_world) (w_db demo_world)
      = [(account_of demo_account, ''sess'')]"
    by (simp add: sessionRows_alt demo_defs session_live_def demo_request_def sessionTokenFromRequest_def)
  moreover have "pendingRows toy_lib (queryGet demo_request ''code'') (w_now demo_world) (w_db demo_world) = []"
    by (simp add: pendingRows_def demo_defs)
  ultimately show ?thesis
    using approve_page_answers [of demo_world toy_lib "\<lambda>_ _. Rendered" demo_request fresh_response] by (simp add: demo_defs)
qed

end
