(* ===== verification/Migrate.thy ===== *)
theory Migrate
  imports BindingsFacts
begin

text \<open>
  \<^verbatim>\<open>hosted/control-plane/migrate.go\<close>: the schema's migrations.  The embedded files are a list of
  names and contents.  What PostgreSQL makes of a script is an argument, \<open>exec1\<close>, which gives the
  schema after it or nothing when the script fails; \<open>mg_faults\<close> says which of the next database
  calls fail, as \<open>w_faults\<close> does.  \<open>mg_applied\<close> is the table \<^verbatim>\<open>schema_migrations\<close>, \<^const>\<open>None\<close> until
  it is created.
\<close>

record migration =
  mi_version :: string
  mi_up :: string
  mi_down :: string

type_synonym files = "(string \<times> string) list"

definition migrationsDir :: string where "migrationsDir = ''migrations/''"
definition upSuffix :: string where "upSuffix = ''.up.sql''"
definition downSuffix :: string where "downSuffix = ''.down.sql''"

text \<open>\<^verbatim>\<open>strings.TrimSuffix\<close>, and \<^verbatim>\<open>fs.Glob(migrationFS, "migrations/*.up.sql")\<close>: the star matches no slash.\<close>

definition trimSuffix :: "string \<Rightarrow> string \<Rightarrow> string" where
  "trimSuffix s suf = (if hasSuffix s suf then take (length s - length suf) s else s)"

definition globUp :: "files \<Rightarrow> string list" where
  "globUp fs = filter (\<lambda>n. hasPrefix n migrationsDir \<and> hasSuffix n upSuffix \<and>
     length n \<ge> length migrationsDir + length upSuffix \<and>
     CHR ''/'' \<notin> set (drop (length migrationsDir) n)) (map fst fs)"

definition migrationVersion :: "string \<Rightarrow> string" where
  "migrationVersion name = trimSuffix (trimPrefix name migrationsDir) upSuffix"

fun readMigrations :: "files \<Rightarrow> string list \<Rightarrow> migration list \<Rightarrow> string + migration list" where
  "readMigrations fs [] out = Inr out"
| "readMigrations fs (name # names) out =
     (let version = migrationVersion name in
      case map_of fs name of
        None \<Rightarrow> Inl ''file does not exist''
      | Some up \<Rightarrow> (case map_of fs (migrationsDir @ version @ downSuffix) of
          None \<Rightarrow> Inl (''migration '' @ version @ '' has no down file'')
        | Some down \<Rightarrow> readMigrations fs names (out @ [\<lparr>mi_version = version, mi_up = up, mi_down = down\<rparr>])))"

definition loadMigrations :: "files \<Rightarrow> string + migration list" where
  "loadMigrations fs = (case readMigrations fs (sortBy string_less_eq (globUp fs)) [] of
      Inl e \<Rightarrow> Inl e
    | Inr out \<Rightarrow> if out = [] then Inl ''no migrations embedded'' else Inr out)"

section \<open>Running\<close>

record 's migdb =
  mg_schema :: 's
  mg_applied :: "string list option"
  mg_locked :: bool
  mg_faults :: "bool list"

type_synonym 's sql = "string \<Rightarrow> 's \<Rightarrow> 's option"

text \<open>One database call: whether it fails is the next fault.\<close>

definition call :: "('s migdb \<Rightarrow> 's migdb option) \<Rightarrow> 's migdb \<Rightarrow> bool \<times> 's migdb" where
  "call f s = (let s' = s\<lparr>mg_faults := tl (mg_faults s)\<rparr> in
     if mg_faults s \<noteq> [] \<and> hd (mg_faults s) then (False, s')
     else case f s' of None \<Rightarrow> (False, s') | Some s2 \<Rightarrow> (True, s2))"

definition ensureMigrationTable :: "'s migdb \<Rightarrow> bool \<times> 's migdb" where
  "ensureMigrationTable = call (\<lambda>s. Some (case mg_applied s of None \<Rightarrow> s\<lparr>mg_applied := Some []\<rparr> | Some _ \<Rightarrow> s))"

definition appliedVersions :: "'s migdb \<Rightarrow> string list option \<times> 's migdb" where
  "appliedVersions s = (case call (\<lambda>s. if mg_applied s = None then None else Some s) s of
      (True, s') \<Rightarrow> (mg_applied s', s') | (False, s') \<Rightarrow> (None, s'))"

text \<open>A transaction of two statements; a failure restores schema and table.\<close>

definition migTx :: "('s migdb \<Rightarrow> 's migdb option) \<Rightarrow> ('s migdb \<Rightarrow> 's migdb option) \<Rightarrow> 's migdb \<Rightarrow> bool \<times> 's migdb" where
  "migTx f g s =
     (let back = (\<lambda>s'. s'\<lparr>mg_schema := mg_schema s, mg_applied := mg_applied s\<rparr>) in
      case call Some s of (False, s1) \<Rightarrow> (False, back s1)
      | (True, s1) \<Rightarrow> (case call f s1 of (False, s2) \<Rightarrow> (False, back s2)
        | (True, s2) \<Rightarrow> (case call g s2 of (False, s3) \<Rightarrow> (False, back s3)
          | (True, s3) \<Rightarrow> (case call Some s3 of (False, s4) \<Rightarrow> (False, back s4)
            | (True, s4) \<Rightarrow> (True, s4)))))"

definition runScript :: "'s sql \<Rightarrow> string \<Rightarrow> 's migdb \<Rightarrow> 's migdb option" where
  "runScript exec1 script s = (case exec1 script (mg_schema s) of None \<Rightarrow> None | Some x \<Rightarrow> Some (s\<lparr>mg_schema := x\<rparr>))"

definition recordVersion :: "string \<Rightarrow> 's migdb \<Rightarrow> 's migdb option" where
  "recordVersion v s = (case mg_applied s of None \<Rightarrow> None
     | Some vs \<Rightarrow> if v \<in> set vs then None else Some (s\<lparr>mg_applied := Some (vs @ [v])\<rparr>))"

definition forgetVersion :: "string \<Rightarrow> 's migdb \<Rightarrow> 's migdb option" where
  "forgetVersion v s = (case mg_applied s of None \<Rightarrow> None
     | Some vs \<Rightarrow> Some (s\<lparr>mg_applied := Some (filter (\<lambda>x. x \<noteq> v) vs)\<rparr>))"

fun upLoop :: "'s sql \<Rightarrow> migration list \<Rightarrow> string list \<Rightarrow> 's migdb \<Rightarrow> bool \<times> 's migdb" where
  "upLoop exec1 [] applied s = (True, s)"
| "upLoop exec1 (m # ms) applied s =
     (if mi_version m \<in> set applied then upLoop exec1 ms applied s
      else case migTx (runScript exec1 (mi_up m)) (recordVersion (mi_version m)) s of
        (False, s') \<Rightarrow> (False, s') | (True, s') \<Rightarrow> upLoop exec1 ms applied s')"

text \<open>The loop from the newest migration down; \<open>done\<close> counts the reversed ones.\<close>

fun downLoop :: "'s sql \<Rightarrow> int \<Rightarrow> migration list \<Rightarrow> string list \<Rightarrow> int \<Rightarrow> 's migdb \<Rightarrow> bool \<times> 's migdb" where
  "downLoop exec1 steps [] applied n s = (True, s)"
| "downLoop exec1 steps (m # ms) applied n s =
     (if mi_version m \<notin> set applied then downLoop exec1 steps ms applied n s
      else if steps > 0 \<and> n = steps then (True, s)
      else case migTx (runScript exec1 (mi_down m)) (forgetVersion (mi_version m)) s of
        (False, s') \<Rightarrow> (False, s') | (True, s') \<Rightarrow> downLoop exec1 steps ms applied (n + 1) s')"

text \<open>Acquiring the connection and the lock, the body, and the unlock, whose error is dropped.\<close>

definition withMigrationLock :: "('s migdb \<Rightarrow> bool \<times> 's migdb) \<Rightarrow> 's migdb \<Rightarrow> bool \<times> 's migdb" where
  "withMigrationLock fn s = (case call Some s of (False, s1) \<Rightarrow> (False, s1)
     | (True, s1) \<Rightarrow> (case call (\<lambda>s. Some (s\<lparr>mg_locked := True\<rparr>)) s1 of (False, s2) \<Rightarrow> (False, s2)
       | (True, s2) \<Rightarrow> (case fn s2 of (ok, s3) \<Rightarrow> (ok, snd (call (\<lambda>s. Some (s\<lparr>mg_locked := False\<rparr>)) s3)))))"

definition migrateUp :: "'s sql \<Rightarrow> files \<Rightarrow> 's migdb \<Rightarrow> bool \<times> 's migdb" where
  "migrateUp exec1 fs s = (case loadMigrations fs of Inl _ \<Rightarrow> (False, s)
     | Inr migrations \<Rightarrow> withMigrationLock (\<lambda>s. case ensureMigrationTable s of (False, s1) \<Rightarrow> (False, s1)
         | (True, s1) \<Rightarrow> (case appliedVersions s1 of (None, s2) \<Rightarrow> (False, s2)
           | (Some applied, s2) \<Rightarrow> upLoop exec1 migrations applied s2)) s)"

definition migrateDown :: "'s sql \<Rightarrow> files \<Rightarrow> int \<Rightarrow> 's migdb \<Rightarrow> bool \<times> 's migdb" where
  "migrateDown exec1 fs steps s = (case loadMigrations fs of Inl _ \<Rightarrow> (False, s)
     | Inr migrations \<Rightarrow> withMigrationLock (\<lambda>s. case ensureMigrationTable s of (False, s1) \<Rightarrow> (False, s1)
         | (True, s1) \<Rightarrow> (case appliedVersions s1 of (None, s2) \<Rightarrow> (False, s2)
           | (Some applied, s2) \<Rightarrow> downLoop exec1 steps (rev migrations) applied 0 s2)) s)"

section \<open>Facts about the steps\<close>

fun runUps :: "'s sql \<Rightarrow> migration list \<Rightarrow> 's \<Rightarrow> 's option" where
  "runUps exec1 [] x = Some x"
| "runUps exec1 (m # ms) x = (case exec1 (mi_up m) x of None \<Rightarrow> None | Some y \<Rightarrow> runUps exec1 ms y)"

lemma runUps_append:
  "runUps exec1 (ms @ ns) x = (case runUps exec1 ms x of None \<Rightarrow> None | Some y \<Rightarrow> runUps exec1 ns y)"
  by (induction ms arbitrary: x) (auto split: option.splits)

definition versions :: "migration list \<Rightarrow> string list" where
  "versions ms = map mi_version ms"

text \<open>The table and the schema agree: the recorded versions are the first migrations, in order, and the
  schema is what their scripts make of the empty one.\<close>

definition upTo :: "'s sql \<Rightarrow> 's \<Rightarrow> migration list \<Rightarrow> 's migdb \<Rightarrow> bool" where
  "upTo exec1 x0 ms s \<longleftrightarrow> mg_applied s = Some (versions ms) \<and> runUps exec1 ms x0 = Some (mg_schema s)"

definition consistent :: "'s sql \<Rightarrow> 's \<Rightarrow> migration list \<Rightarrow> 's migdb \<Rightarrow> bool" where
  "consistent exec1 x0 ms s \<longleftrightarrow>
     (mg_applied s = None \<and> mg_schema s = x0) \<or> (\<exists>k \<le> length ms. upTo exec1 x0 (take k ms) s)"

lemma call_True:
  "call f s = (True, s') \<longleftrightarrow> \<not> (mg_faults s \<noteq> [] \<and> hd (mg_faults s)) \<and> f (s\<lparr>mg_faults := tl (mg_faults s)\<rparr>) = Some s'"
  by (auto simp: call_def Let_def split: option.splits)

lemma call_False: "call f s = (False, s') \<Longrightarrow> mg_schema s' = mg_schema s \<and> mg_applied s' = mg_applied s"
  by (auto simp: call_def Let_def split: if_splits option.splits)

lemma call_ok: "mg_faults s = [] \<Longrightarrow> call f s = (case f s of None \<Rightarrow> (False, s) | Some s2 \<Rightarrow> (True, s2))"
  by (cases s) (auto simp: call_def Let_def split: option.splits)

lemma migTx_fails:
  "migTx f g s = (False, s') \<Longrightarrow> mg_schema s' = mg_schema s \<and> mg_applied s' = mg_applied s"
  by (auto simp: migTx_def Let_def split: prod.splits bool.splits)

lemma upStep_ok:
  "migTx (runScript exec1 sc) (recordVersion v) s = (True, s') \<Longrightarrow>
   exec1 sc (mg_schema s) = Some (mg_schema s') \<and> (\<exists>vs. mg_applied s = Some vs \<and> mg_applied s' = Some (vs @ [v]))"
  by (auto simp: migTx_def Let_def call_True runScript_def recordVersion_def
      split: prod.splits bool.splits option.splits if_splits)

lemma downStep_ok:
  "migTx (runScript exec1 sc) (forgetVersion v) s = (True, s') \<Longrightarrow>
   exec1 sc (mg_schema s) = Some (mg_schema s') \<and>
   (\<exists>vs. mg_applied s = Some vs \<and> mg_applied s' = Some (filter (\<lambda>x. x \<noteq> v) vs))"
  by (auto simp: migTx_def Let_def call_True runScript_def forgetVersion_def
      split: prod.splits bool.splits option.splits if_splits)

lemma upTo_step:
  "upTo exec1 x0 ms s \<Longrightarrow> migTx (runScript exec1 (mi_up m)) (recordVersion (mi_version m)) s = (True, s') \<Longrightarrow>
   upTo exec1 x0 (ms @ [m]) s'"
  using upStep_ok [of exec1 "mi_up m" "mi_version m" s s'] by (auto simp: upTo_def versions_def runUps_append)

lemma upTo_core: "upTo exec1 x0 ms s \<Longrightarrow> mg_schema s' = mg_schema s \<and> mg_applied s' = mg_applied s \<Longrightarrow> upTo exec1 x0 ms s'"
  by (simp add: upTo_def)

section \<open>The loops\<close>

lemma upLoop_skip: "set (versions ms) \<subseteq> set applied \<Longrightarrow> upLoop exec1 (ms @ ns) applied s = upLoop exec1 ns applied s"
  by (induction ms) (auto simp: versions_def)

lemma upLoop_upTo:
  "upTo exec1 x0 ms s \<Longrightarrow> set (versions ns) \<inter> set applied = {} \<Longrightarrow> upLoop exec1 ns applied s = (ok, s') \<Longrightarrow>
   \<exists>k \<le> length ns. upTo exec1 x0 (ms @ take k ns) s' \<and> (ok \<longrightarrow> k = length ns)"
proof (induction ns arbitrary: ms s)
  case (Cons n ns)
  have out: "mi_version n \<notin> set applied" "set (versions ns) \<inter> set applied = {}"
    using Cons.prems(2) by (auto simp: versions_def)
  obtain b s1 where tx: "migTx (runScript exec1 (mi_up n)) (recordVersion (mi_version n)) s = (b, s1)"
    by fastforce
  show ?case
  proof (cases b)
    case True
    have "upTo exec1 x0 (ms @ [n]) s1"
      using upTo_step [OF Cons.prems(1)] tx True by simp
    moreover have "upLoop exec1 ns applied s1 = (ok, s')"
      using Cons.prems(3) tx True out by simp
    ultimately obtain k where "k \<le> length ns" "upTo exec1 x0 ((ms @ [n]) @ take k ns) s'" "ok \<longrightarrow> k = length ns"
      using Cons.IH out(2) by blast
    then show ?thesis
      by (intro exI [of _ "Suc k"]) simp
  next
    case False
    then show ?thesis
      using Cons.prems tx out upTo_core [OF Cons.prems(1) migTx_fails] by (intro exI [of _ 0]) auto
  qed
qed auto

lemma downLoop_skip:
  "set (versions ms) \<inter> set applied = {} \<Longrightarrow> downLoop exec1 steps (ms @ ns) applied n s = downLoop exec1 steps ns applied n s"
  by (induction ms) (auto simp: versions_def)

definition reversible :: "'s sql \<Rightarrow> migration list \<Rightarrow> bool" where
  "reversible exec1 ms \<longleftrightarrow> (\<forall>m \<in> set ms. \<forall>x y. exec1 (mi_up m) x = Some y \<longrightarrow> exec1 (mi_down m) y = Some x)"

lemma upTo_back:
  assumes "upTo exec1 x0 (ms @ [m]) s" and "reversible exec1 (ms @ [m])" and "mi_version m \<notin> set (versions ms)"
    and "migTx (runScript exec1 (mi_down m)) (forgetVersion (mi_version m)) s = (True, s')"
  shows "upTo exec1 x0 ms s'"
proof -
  have "filter (\<lambda>x. x \<noteq> mi_version m) (versions ms) = versions ms"
    using assms(3) by (auto simp: filter_id_conv)
  then show ?thesis
    using assms(1,2) downStep_ok [OF assms(4)]
    by (auto simp: upTo_def runUps_append versions_def reversible_def split: option.splits)
qed

lemma downLoop_upTo:
  "upTo exec1 x0 ms s \<Longrightarrow> reversible exec1 ms \<Longrightarrow> distinct (versions ms) \<Longrightarrow> set (versions ms) \<subseteq> set applied \<Longrightarrow>
   0 \<le> n \<Longrightarrow> steps \<le> 0 \<or> n \<le> steps \<Longrightarrow> downLoop exec1 steps (rev ms) applied n s = (ok, s') \<Longrightarrow>
   \<exists>k \<le> length ms. upTo exec1 x0 (take k ms) s' \<and>
     (ok \<longrightarrow> k = (if steps \<le> 0 then 0 else length ms - nat (steps - n)))"
proof (induction ms arbitrary: s n rule: rev_induct)
  case (snoc m ms)
  obtain b s1 where tx: "migTx (runScript exec1 (mi_down m)) (forgetVersion (mi_version m)) s = (b, s1)"
    by fastforce
  have m: "mi_version m \<in> set applied" "mi_version m \<notin> set (versions ms)"
    using snoc.prems(3,4) by (auto simp: versions_def)
  consider "steps > 0 \<and> n = steps" | "\<not> (steps > 0 \<and> n = steps)" b | "\<not> (steps > 0 \<and> n = steps)" "\<not> b"
    by blast
  then show ?case
  proof cases
    case 1
    then show ?thesis
      using snoc.prems m by (intro exI [of _ "Suc (length ms)"]) auto
  next
    case 2
    have undone: "upTo exec1 x0 ms s1"
      using upTo_back [OF snoc.prems(1,2) m(2)] tx 2 by simp
    have "\<exists>k \<le> length ms. upTo exec1 x0 (take k ms) s' \<and>
        (ok \<longrightarrow> k = (if steps \<le> 0 then 0 else length ms - nat (steps - (n + 1))))"
    proof (rule snoc.IH [OF undone])
      show "reversible exec1 ms" "distinct (versions ms)" "set (versions ms) \<subseteq> set applied"
        using snoc.prems(2-4) by (auto simp: reversible_def versions_def)
      show "downLoop exec1 steps (rev ms) applied (n + 1) s1 = (ok, s')"
        using snoc.prems(7) 2 m tx by auto
    qed (use snoc.prems 2 in auto)
    then obtain k where k: "k \<le> length ms" "upTo exec1 x0 (take k ms) s'"
        "ok \<longrightarrow> k = (if steps \<le> 0 then 0 else length ms - nat (steps - (n + 1)))"
      by blast
    have "length ms - nat (steps - (n + 1)) = length (ms @ [m]) - nat (steps - n)" if "steps > 0"
      using 2 snoc.prems(6) that by auto
    then show ?thesis
      using k by (intro exI [of _ k]) auto
  next
    case 3
    then show ?thesis
      using snoc.prems m tx upTo_core [OF snoc.prems(1) migTx_fails] by (intro exI [of _ "Suc (length ms)"]) auto
  qed
qed auto

section \<open>Loading\<close>

lemma glob_name: "n \<in> set (globUp fs) \<Longrightarrow> n = migrationsDir @ migrationVersion n @ upSuffix"
proof -
  assume "n \<in> set (globUp fs)"
  then have n: "hasPrefix n migrationsDir" "hasSuffix n upSuffix" "length n \<ge> length migrationsDir + length upSuffix"
    by (auto simp: globUp_def)
  obtain p where p: "n = migrationsDir @ p"
    using n(1) by (auto simp: hasPrefix_def prefix_def)
  obtain q where q: "n = q @ upSuffix"
    using n(2) by (auto simp: hasSuffix_def suffix_def)
  have len: "length p \<ge> length upSuffix"
    using n(3) p by simp
  have "drop (length n - length upSuffix) n = upSuffix"
    using q by simp
  then have "drop (length p - length upSuffix) p = upSuffix"
    using p len by simp
  then have "p = take (length p - length upSuffix) p @ upSuffix"
    by (metis append_take_drop_id)
  then show ?thesis
    using p by (auto simp: migrationVersion_def trimPrefix_append trimSuffix_def hasSuffix_def suffix_def)
qed

lemma readMigrations_versions:
  "readMigrations fs names out = Inr ms \<Longrightarrow> versions ms = versions out @ map migrationVersion names"
  by (induction fs names out rule: readMigrations.induct) (auto simp: Let_def versions_def split: option.splits)

lemma distinct_insertBy: "distinct (insertBy le x xs) = distinct (x # xs)"
  by (induction xs) auto

lemma distinct_sortBy: "distinct (sortBy le xs) = distinct xs"
  by (induction xs) (auto simp: sortBy_def distinct_insertBy set_sortBy [unfolded sortBy_def])

lemma load_distinct:
  assumes "loadMigrations fs = Inr ms" and "distinct (map fst fs)"
  shows "distinct (versions ms)"
proof -
  have v: "versions ms = map migrationVersion (sortBy string_less_eq (globUp fs))"
    using assms(1) readMigrations_versions by (auto simp: loadMigrations_def versions_def split: sum.splits if_splits)
  have "distinct (globUp fs)"
    using assms(2) by (simp add: globUp_def)
  moreover have "inj_on migrationVersion (set (globUp fs))"
    by (rule inj_onI) (metis glob_name)
  ultimately show ?thesis
    by (simp add: v distinct_map distinct_sortBy)
qed

section \<open>Whole runs\<close>

abbreviation same_core :: "'s migdb \<Rightarrow> 's migdb \<Rightarrow> bool" where
  "same_core s s' \<equiv> mg_schema s' = mg_schema s \<and> mg_applied s' = mg_applied s"

lemma consistent_core: "consistent exec1 x0 ms s \<Longrightarrow> same_core s s' \<Longrightarrow> consistent exec1 x0 ms s'"
  by (simp add: consistent_def upTo_def)

lemma lock_core:
  assumes "withMigrationLock fn s = (ok, s')"
  shows "(\<not> ok \<and> same_core s s') \<or> (\<exists>s2 s3. same_core s s2 \<and> fn s2 = (ok, s3) \<and> same_core s3 s')"
proof -
  have c: "same_core s (snd (call f s))" if "\<And>s s2. f s = Some s2 \<Longrightarrow> same_core s s2" for f and s :: "'a migdb"
    using that by (fastforce simp: call_def Let_def split: option.splits)
  have c1: "call Some t = (b, t') \<Longrightarrow> same_core t t'" for t t' :: "'a migdb" and b
    using c [of Some t] by simp
  have c2: "call (\<lambda>s. Some (s\<lparr>mg_locked := l\<rparr>)) t = (b, t') \<Longrightarrow> same_core t t'" for l and t t' :: "'a migdb" and b
    using c [of "\<lambda>s. Some (s\<lparr>mg_locked := l\<rparr>)" t] by auto
  have c3: "same_core t (snd (call (\<lambda>s. Some (s\<lparr>mg_locked := l\<rparr>)) t))" for l and t :: "'a migdb"
    using c2 [of l t] by (metis prod.collapse)
  obtain b1 s1 where 1: "call Some s = (b1, s1)"
    by fastforce
  obtain b2 s2 where 2: "call (\<lambda>s. Some (s\<lparr>mg_locked := True\<rparr>)) s1 = (b2, s2)"
    by fastforce
  obtain b3 s3 where 3: "fn s2 = (b3, s3)"
    by fastforce
  note same = c1 [OF 1] c2 [OF 2] c3 [where t = s3 and l = False]
  show ?thesis
  proof (cases "b1 \<and> b2")
    case True
    then have "ok = b3 \<and> s' = snd (call (\<lambda>s. Some (s\<lparr>mg_locked := False\<rparr>)) s3)"
      using assms 1 2 3 by (simp add: withMigrationLock_def)
    then show ?thesis
      using same 3 by (intro disjI2 exI [of _ s2] exI [of _ s3]) simp
  next
    case False
    then show ?thesis
      using assms 1 2 same by (cases b1) (simp_all add: withMigrationLock_def)
  qed
qed

definition migBody :: "('s migdb \<Rightarrow> string list \<Rightarrow> bool \<times> 's migdb) \<Rightarrow> 's migdb \<Rightarrow> bool \<times> 's migdb" where
  "migBody loop s = (case ensureMigrationTable s of (False, s1) \<Rightarrow> (False, s1)
     | (True, s1) \<Rightarrow> (case appliedVersions s1 of (None, s2) \<Rightarrow> (False, s2)
       | (Some applied, s2) \<Rightarrow> loop s2 applied))"

lemma migBody_run:
  assumes "migBody loop s = (ok, s')" and "consistent exec1 x0 ms s"
  shows "(\<not> ok \<and> consistent exec1 x0 ms s') \<or>
    (\<exists>k s2. k \<le> length ms \<and> upTo exec1 x0 (take k ms) s2 \<and> loop s2 (versions (take k ms)) = (ok, s') \<and>
       (mg_applied s \<noteq> None \<longrightarrow> mg_applied s2 = mg_applied s))"
proof -
  obtain b s1 where e: "ensureMigrationTable s = (b, s1)"
    by fastforce
  have fails: "same_core s s1" if "\<not> b"
    using e that call_False by (auto simp: ensureMigrationTable_def)
  have keep: "mg_applied s \<noteq> None \<longrightarrow> mg_applied s1 = mg_applied s" if b
    using e that by (auto simp: ensureMigrationTable_def call_True)
  have k: "\<exists>k \<le> length ms. upTo exec1 x0 (take k ms) s1" if b
    using e that assms(2)
    by (auto simp: ensureMigrationTable_def call_True consistent_def upTo_def versions_def split: option.splits)
  show ?thesis
  proof (cases b)
    case True
    then obtain k where k: "k \<le> length ms" "upTo exec1 x0 (take k ms) s1"
      using k by blast
    obtain a s2 where a: "appliedVersions s1 = (a, s2)"
      by fastforce
    have core: "same_core s1 s2" "a = None \<or> a = Some (versions (take k ms))"
      using a k(2) call_False [of _ s1] by (auto simp: appliedVersions_def call_True upTo_def split: prod.splits bool.splits if_splits)
    have cons: "consistent exec1 x0 ms s2"
      using k core(1) by (auto simp: consistent_def upTo_def)
    show ?thesis
      using assms(1) e True a core cons upTo_core [OF k(2) core(1)] k(1) keep
      by (auto simp: migBody_def)
  next
    case False
    then show ?thesis
      using assms e consistent_core [OF assms(2) fails] by (auto simp: migBody_def)
  qed
qed

lemma migrateUp_alt:
  "loadMigrations fs = Inr ms \<Longrightarrow> migrateUp exec1 fs = withMigrationLock (migBody (\<lambda>s applied. upLoop exec1 ms applied s))"
  by (rule ext) (simp add: migrateUp_def migBody_def [abs_def])

lemma migrateDown_alt:
  "loadMigrations fs = Inr ms \<Longrightarrow>
   migrateDown exec1 fs steps = withMigrationLock (migBody (\<lambda>s applied. downLoop exec1 steps (rev ms) applied 0 s))"
  by (rule ext) (simp add: migrateDown_def migBody_def [abs_def])

lemma versions_split:
  assumes "distinct (versions ms)"
  shows "set (versions (drop k ms)) \<inter> set (versions (take k ms)) = {}"
  using assms by (metis append_take_drop_id distinct_append inf_commute map_append versions_def)

subsection \<open>Runs without faults\<close>

lemma migTx_run:
  "mg_faults s = [] \<Longrightarrow> f s = Some s2 \<Longrightarrow> mg_faults s2 = [] \<Longrightarrow> g s2 = Some s3 \<Longrightarrow> mg_faults s3 = [] \<Longrightarrow>
   migTx f g s = (True, s3)"
  by (simp add: migTx_def Let_def call_ok)

lemma upLoop_succeeds:
  "mg_faults s = [] \<Longrightarrow> upTo exec1 x0 ms s \<Longrightarrow> runUps exec1 (ms @ ns) x0 \<noteq> None \<Longrightarrow> distinct (versions (ms @ ns)) \<Longrightarrow>
   \<exists>s'. upLoop exec1 ns applied s = (True, s') \<or> set applied \<inter> set (versions ns) \<noteq> {}"
proof (induction ns arbitrary: ms s)
  case (Cons n ns)
  obtain x where x: "exec1 (mi_up n) (mg_schema s) = Some x"
    using Cons.prems(2,3) by (auto simp: upTo_def runUps_append split: option.splits)
  let ?s = "s\<lparr>mg_schema := x, mg_applied := Some (versions ms @ [mi_version n])\<rparr>"
  have tx: "migTx (runScript exec1 (mi_up n)) (recordVersion (mi_version n)) s = (True, ?s)"
    by (rule migTx_run [where ?s2.0 = "s\<lparr>mg_schema := x\<rparr>"]) (use Cons.prems x in \<open>auto simp: runScript_def recordVersion_def upTo_def versions_def\<close>)
  have next_: "\<exists>s'. upLoop exec1 ns applied ?s = (True, s') \<or> set applied \<inter> set (versions ns) \<noteq> {}"
    by (rule Cons.IH [of ?s "ms @ [n]"]) (use Cons.prems upTo_step [OF Cons.prems(2) tx] in \<open>auto simp: versions_def\<close>)
  show ?case
  proof (cases "mi_version n \<in> set applied")
    case True
    then show ?thesis
      by (auto simp: versions_def)
  next
    case False
    then show ?thesis
      using next_ tx by (auto simp: versions_def)
  qed
qed simp

lemma migrateUp_succeeds:
  assumes "loadMigrations fs = Inr ms" and "distinct (map fst fs)" and "consistent exec1 x0 ms s"
    and "mg_faults s = []" and "runUps exec1 ms x0 \<noteq> None"
  shows "fst (migrateUp exec1 fs s)"
proof -
  let ?l = "s\<lparr>mg_locked := True\<rparr>"
  let ?e = "case mg_applied s of None \<Rightarrow> ?l\<lparr>mg_applied := Some []\<rparr> | Some _ \<Rightarrow> ?l"
  have "\<exists>k \<le> length ms. upTo exec1 x0 (take k ms) ?e"
    using assms(3) by (auto simp: consistent_def upTo_def versions_def split: option.splits)
  then obtain k where k: "upTo exec1 x0 (take k ms) ?e"
    by blast
  have f: "mg_faults ?e = []"
    using assms(4) by (simp split: option.splits)
  have d: "distinct (versions (take k ms @ drop k ms))"
    using load_distinct [OF assms(1,2)] by simp
  obtain s' where "upLoop exec1 (drop k ms) (versions (take k ms)) ?e = (True, s')"
    using upLoop_succeeds [OF f k, of "drop k ms" "versions (take k ms)"] assms(5) d
      versions_split [OF load_distinct [OF assms(1,2)], of k] by auto
  then have "upLoop exec1 ms (versions (take k ms)) ?e = (True, s')"
    using upLoop_skip [of "take k ms" "versions (take k ms)" exec1 "drop k ms" ?e] by simp
  then show ?thesis
    using assms(4) k f
    by (auto simp: migrateUp_alt [OF assms(1)] withMigrationLock_def migBody_def ensureMigrationTable_def appliedVersions_def
        call_ok upTo_def split: option.splits prod.splits)
qed

text \<open>
  C31.  Migrating up is safe to interrupt.  Start from tables that agree with the recorded
  versions; whatever scripts and database calls fail, they still agree afterwards: the recorded
  versions are the first migrations in order, and the schema is exactly what those made.  A run
  that reports success has applied every migration, and a run without database faults, on scripts that
  work, does report success.
\<close>

theorem migrate_up_consistent:
  assumes "loadMigrations fs = Inr ms" and "distinct (map fst fs)" and "consistent exec1 x0 ms s"
    and "migrateUp exec1 fs s = (ok, s')"
  shows "consistent exec1 x0 ms s' \<and> (ok \<longrightarrow> upTo exec1 x0 ms s') \<and>
    (mg_faults s = [] \<and> runUps exec1 ms x0 \<noteq> None \<longrightarrow> ok)"
proof -
  have body: "consistent exec1 x0 ms t' \<and> (ok \<longrightarrow> upTo exec1 x0 ms t')"
    if run: "migBody (\<lambda>s applied. upLoop exec1 ms applied s) t = (ok, t')" and c: "consistent exec1 x0 ms t" for t t'
  proof (cases "\<not> ok \<and> consistent exec1 x0 ms t'")
    case False
    then obtain k s2 where k: "k \<le> length ms" "upTo exec1 x0 (take k ms) s2"
        "upLoop exec1 ms (versions (take k ms)) s2 = (ok, t')"
      using migBody_run [OF run c] by blast
    have loop: "upLoop exec1 (drop k ms) (versions (take k ms)) s2 = (ok, t')"
      using k(3) upLoop_skip [of "take k ms" "versions (take k ms)" exec1 "drop k ms" s2] by simp
    obtain j where j: "j \<le> length (drop k ms)" "upTo exec1 x0 (take k ms @ take j (drop k ms)) t'" "ok \<longrightarrow> j = length (drop k ms)"
      using upLoop_upTo [OF k(2) versions_split [OF load_distinct [OF assms(1,2)]] loop] by blast
    have "take k ms @ take j (drop k ms) = take (k + j) ms"
      by (simp add: take_add)
    then show ?thesis
      using j k(1) by (auto simp: consistent_def intro!: exI [of _ "k + j"])
  qed simp
  have "consistent exec1 x0 ms s' \<and> (ok \<longrightarrow> upTo exec1 x0 ms s')"
    using lock_core [OF assms(4) [unfolded migrateUp_alt [OF assms(1)]]]
  proof (elim disjE exE conjE)
    assume "\<not> ok" "mg_schema s' = mg_schema s" "mg_applied s' = mg_applied s"
    then show ?thesis
      using consistent_core [OF assms(3)] by simp
  next
    fix s2 s3
    assume *: "mg_schema s2 = mg_schema s" "mg_applied s2 = mg_applied s"
      "migBody (\<lambda>s applied. upLoop exec1 ms applied s) s2 = (ok, s3)"
      "mg_schema s' = mg_schema s3" "mg_applied s' = mg_applied s3"
    note r = body [OF *(3) consistent_core [OF assms(3) conjI [OF *(1,2)]]]
    then show ?thesis
      using consistent_core [of exec1 x0 ms s3 s'] upTo_core [of exec1 x0 _ s3 s'] *(4,5) by blast
  qed
  then show ?thesis
    using migrateUp_succeeds [OF assms(1-3)] assms(4) by auto
qed

text \<open>
  Migrating down reverses the newest migrations.  If every down script undoes its up script,
  then whatever fails, tables and versions still agree; a successful run with a positive number of
  steps has reversed that many, or all there were, and one without has brought the schema back to
  the empty one.
\<close>

theorem migrate_down_reverses:
  assumes "loadMigrations fs = Inr ms" and "distinct (map fst fs)" and "upTo exec1 x0 (take n ms) s" and "n \<le> length ms"
    and "reversible exec1 ms" and "migrateDown exec1 fs steps s = (ok, s')"
  shows "consistent exec1 x0 ms s' \<and>
    (ok \<longrightarrow> upTo exec1 x0 (take (if steps \<le> 0 then 0 else n - nat steps) ms) s')"
proof -
  have c: "consistent exec1 x0 ms s"
    using assms(3,4) by (auto simp: consistent_def)
  note d = load_distinct [OF assms(1,2)]
  have body: "consistent exec1 x0 ms t' \<and> (ok \<longrightarrow> upTo exec1 x0 (take (if steps \<le> 0 then 0 else n - nat steps) ms) t')"
    if run: "migBody (\<lambda>s applied. downLoop exec1 steps (rev ms) applied 0 s) t = (ok, t')" and t: "same_core s t" for t t'
  proof (cases "\<not> ok \<and> consistent exec1 x0 ms t'")
    case False
    have same: "mg_applied t = Some (versions (take n ms))"
      using assms(3) t by (simp add: upTo_def)
    obtain k s2 where k: "k \<le> length ms" "upTo exec1 x0 (take k ms) s2"
        "downLoop exec1 steps (rev ms) (versions (take k ms)) 0 s2 = (ok, t')"
      and keep: "mg_applied s2 = mg_applied t"
      using migBody_run [OF run consistent_core [OF c t]] False same by auto
    have "versions (take k ms) = versions (take n ms)"
      using k(2) same keep by (simp add: upTo_def)
    then have "k = n"
      using k(1) assms(4) by (metis length_map length_take min.absorb2 versions_def)
    let ?ms = "take n ms"
    have "rev ms = rev (drop n ms) @ rev ?ms"
      by (metis append_take_drop_id rev_append)
    moreover have "set (versions (rev (drop n ms))) \<inter> set (versions ?ms) = {}"
      using versions_split [OF d, of n] by (simp add: versions_def)
    ultimately have loop: "downLoop exec1 steps (rev ?ms) (versions ?ms) 0 s2 = (ok, t')"
      using k(3) \<open>k = n\<close> by (simp add: downLoop_skip)
    have rev: "reversible exec1 ?ms" "distinct (versions ?ms)"
      using assms(5) d by (auto simp: reversible_def versions_def take_map [symmetric] dest: in_set_takeD)
    have "steps \<le> 0 \<or> 0 \<le> steps"
      by linarith
    from downLoop_upTo [OF k(2) [unfolded \<open>k = n\<close>] rev subset_refl order_refl this loop]
    obtain j where j: "j \<le> length ?ms" "upTo exec1 x0 (take j ?ms) t'"
        "ok \<longrightarrow> j = (if steps \<le> 0 then 0 else length ?ms - nat (steps - 0))"
      by blast
    have len: "length ?ms = n"
      using assms(4) by simp
    moreover have "take j ?ms = take j ms"
      using j(1) len by (simp add: min.absorb1)
    ultimately show ?thesis
      using j assms(4) by (auto simp: consistent_def)
  qed simp
  from lock_core [OF assms(6) [unfolded migrateDown_alt [OF assms(1)]]]
  show ?thesis
  proof (elim disjE exE conjE)
    assume "\<not> ok" "mg_schema s' = mg_schema s" "mg_applied s' = mg_applied s"
    then show ?thesis
      using consistent_core [OF c] by simp
  next
    fix s2 s3
    assume *: "mg_schema s2 = mg_schema s" "mg_applied s2 = mg_applied s"
      "migBody (\<lambda>s applied. downLoop exec1 steps (rev ms) applied 0 s) s2 = (ok, s3)"
      "mg_schema s' = mg_schema s3" "mg_applied s' = mg_applied s3"
    note r = body [OF *(3) conjI [OF *(1,2)]]
    then show ?thesis
      using consistent_core [of exec1 x0 ms s3 s'] upTo_core [of exec1 x0 _ s3 s'] *(4,5) by blast
  qed
qed

section \<open>Concrete runs\<close>

text \<open>A small database: a script that starts with a plus sign adds a table, one with a minus sign drops
  the last one.\<close>

definition toy_sql :: "string list sql" where
  "toy_sql script tables = (case script of
      CHR ''+'' # t \<Rightarrow> Some (tables @ [t])
    | CHR ''-'' # t \<Rightarrow> if tables \<noteq> [] \<and> last tables = t then Some (butlast tables) else None
    | _ \<Rightarrow> None)"

definition toy_files :: files where
  "toy_files = [(''migrations/2.up.sql'', ''+b''), (''migrations/2.down.sql'', ''-b''),
     (''migrations/1.up.sql'', ''+a''), (''migrations/1.down.sql'', ''-a'')]"

definition toy_migrations :: "migration list" where
  "toy_migrations = [\<lparr>mi_version = ''1'', mi_up = ''+a'', mi_down = ''-a''\<rparr>, \<lparr>mi_version = ''2'', mi_up = ''+b'', mi_down = ''-b''\<rparr>]"

definition toy_start :: "string list migdb" where
  "toy_start = \<lparr>mg_schema = [], mg_applied = None, mg_locked = False, mg_faults = []\<rparr>"

lemma toy_load: "loadMigrations toy_files = Inr toy_migrations"
  by code_simp

lemma toy_distinct: "distinct (map fst toy_files)"
  by (simp add: toy_files_def)

lemma toy_consistent: "consistent toy_sql [] toy_migrations toy_start"
  by (simp add: consistent_def toy_start_def)

theorem migrate_up_consistent_witness:
  "fst (migrateUp toy_sql toy_files toy_start) \<and> upTo toy_sql [] toy_migrations (snd (migrateUp toy_sql toy_files toy_start))"
proof -
  have "runUps toy_sql toy_migrations [] \<noteq> None" "mg_faults toy_start = []"
    by (simp_all add: toy_migrations_def toy_sql_def toy_start_def)
  then show ?thesis
    using migrate_up_consistent [OF toy_load toy_distinct toy_consistent prod.collapse [symmetric]] by blast
qed

definition toy_full :: "string list migdb" where
  "toy_full = \<lparr>mg_schema = [''a'', ''b''], mg_applied = Some [''1'', ''2''], mg_locked = False, mg_faults = []\<rparr>"

lemma toy_reversible: "reversible toy_sql toy_migrations"
  by (auto simp: reversible_def toy_migrations_def toy_sql_def)

lemma toy_down_run: "fst (migrateDown toy_sql toy_files 1 toy_full)"
  by (simp add: migrateDown_alt [OF toy_load] withMigrationLock_def call_ok toy_full_def migBody_def ensureMigrationTable_def
      appliedVersions_def toy_migrations_def migTx_def runScript_def toy_sql_def forgetVersion_def Let_def)

theorem migrate_down_reverses_witness:
  "upTo toy_sql [] (take 1 toy_migrations) (snd (migrateDown toy_sql toy_files 1 toy_full))"
proof -
  have "upTo toy_sql [] (take 2 toy_migrations) toy_full"
    by (simp add: upTo_def toy_full_def toy_migrations_def versions_def toy_sql_def)
  from migrate_down_reverses [OF toy_load toy_distinct this _ toy_reversible prod.collapse [symmetric], of 1]
  show ?thesis
    using toy_down_run by (simp add: toy_migrations_def)
qed

end
