(* ===== verification/Server.thy ===== *)
theory Server
  imports Routing Web Migrate
begin

text \<open>
  \<^verbatim>\<open>hosted/control-plane/config.go\<close>, \<^verbatim>\<open>main.go\<close>, \<^verbatim>\<open>server.go\<close> and \<^verbatim>\<open>metrics.go\<close>: settings, the command line,
  the table of routes with their limits, the health check and the counters.  Reading a log level and
  a duration are arguments.  Listening, signals and the shutdown are input and output.
\<close>

section \<open>Settings\<close>

record config =
  cf_addr :: string
  cf_databaseURL :: string
  cf_tlsCert :: string
  cf_tlsKey :: string
  cf_logLevel :: int
  cf_shutdownTimeout :: int

definition loadConfig ::
  "(string \<Rightarrow> int option) \<Rightarrow> (string \<Rightarrow> int option) \<Rightarrow> (string \<Rightarrow> string) \<Rightarrow> string + config" where
  "loadConfig parseLevel parseDuration getenv =
     (let c = \<lparr>cf_addr = env getenv ''RFM_ADDR'' '':8443'', cf_databaseURL = getenv ''RFM_DATABASE_URL'',
               cf_tlsCert = getenv ''RFM_TLS_CERT'', cf_tlsKey = getenv ''RFM_TLS_KEY'', cf_logLevel = 0,
               cf_shutdownTimeout = 20 * second\<rparr> in
      if cf_databaseURL c = [] then Inl ''RFM_DATABASE_URL is not set''
      else if (cf_tlsCert c = []) \<noteq> (cf_tlsKey c = []) then Inl ''RFM_TLS_CERT and RFM_TLS_KEY must be set together''
      else case parseLevel (env getenv ''RFM_LOG_LEVEL'' ''info'') of
        None \<Rightarrow> Inl ''RFM_LOG_LEVEL''
      | Some l \<Rightarrow>
        (let c1 = c\<lparr>cf_logLevel := l\<rparr>; d = getenv ''RFM_SHUTDOWN_TIMEOUT'' in
         if d \<noteq> [] then (case parseDuration d of None \<Rightarrow> Inl ''RFM_SHUTDOWN_TIMEOUT''
           | Some p \<Rightarrow> Inr (c1\<lparr>cf_shutdownTimeout := p\<rparr>))
         else Inr c1))"

text \<open>What the process goes on to do.\<close>

datatype command = Serve config | Up config | Down config int

definition main_run ::
  "(string \<Rightarrow> int option) \<Rightarrow> (string \<Rightarrow> int option) \<Rightarrow> (string \<Rightarrow> string) \<Rightarrow> (string \<Rightarrow> bool) \<Rightarrow> string list \<Rightarrow> string + command" where
  "main_run parseLevel parseDuration getenv poolOk args =
     (case loadConfig parseLevel parseDuration getenv of
        Inl e \<Rightarrow> Inl e
      | Inr cfg \<Rightarrow>
        if \<not> poolOk (cf_databaseURL cfg) then Inl ''connect''
        else
          (let (cmd, rest) = (case args of [] \<Rightarrow> (''serve'', []) | a # as \<Rightarrow> (a, as)) in
           if cmd = ''serve'' then Inr (Serve cfg)
           else if cmd = ''migrate'' then
             (case rest of
                [] \<Rightarrow> Inl ''migrate needs a direction: up or down''
              | dir # args' \<Rightarrow>
                if dir = ''up'' then Inr (Up cfg)
                else if dir = ''down'' then
                  (case args' of [] \<Rightarrow> Inr (Down cfg 0)
                   | n # _ \<Rightarrow> (case parseInt n of None \<Rightarrow> Inl ''migrate down'' | Some steps \<Rightarrow> Inr (Down cfg steps)))
                else Inl (''migrate: unknown direction '' @ dir))
           else Inl (''unknown command '' @ cmd)))"

text \<open>TLS is used exactly when a certificate is configured.\<close>

definition usesTLS :: "config \<Rightarrow> bool" where
  "usesTLS cfg \<longleftrightarrow> cf_tlsCert cfg \<noteq> []"

section \<open>Health and the status recorder\<close>

definition health :: "bool \<Rightarrow> response \<Rightarrow> response" where
  "health dbUp rw =
     (if dbUp then writeJSON 200 (JObj [(''status'', JStr ''ok'')]) rw
      else writeJSON 503 (JObj [(''status'', JStr ''unavailable''), (''reason'', JStr ''database'')]) rw)"

text \<open>The recorder remembers the last status it was given; the writer below it keeps the first.\<close>

record statusRecorder =
  sr_writer :: response
  sr_status :: nat

definition newStatusRecorder :: "response \<Rightarrow> statusRecorder" where
  "newStatusRecorder rw = \<lparr>sr_writer = rw, sr_status = 200\<rparr>"

definition recorder_WriteHeader :: "nat \<Rightarrow> statusRecorder \<Rightarrow> statusRecorder" where
  "recorder_WriteHeader code r = \<lparr>sr_writer = writeHeader code (sr_writer r), sr_status = code\<rparr>"

section \<open>Routes\<close>

datatype endpoint =
    HealthEP | MetricsEP
  | SignupEP | SigninEP | SignoutEP | VerifyEP | ResetRequestEP | ResetConfirmEP | MeEP | DeleteAccountEP
  | PageEP string | LandingEP | PrivacyEP | TermsEP | ApproveEP | AccountDeleteEP | DownloadEP | VersionEP
  | EnrolTokenEP | EnrolEP | DisableEP | EnrolStartEP | EnrolPollEP | EnrolAnswerEP | UnenrolEP
  | ListDevicesEP | ListUsersEP | RevokeEP | LeaveEP | RemoveEP
  | AppsEP | ReportsEP | InviteEP | RedeemEP | SubscriptionEP | TunnelEP | RemoteEP

record route =
  rt_method :: string
  rt_pattern :: string
  rt_limit :: "nat option"
  rt_session :: bool
  rt_endpoint :: endpoint

definition wrap :: "string \<Rightarrow> string \<Rightarrow> nat \<Rightarrow> bool \<Rightarrow> endpoint \<Rightarrow> route" where
  "wrap m p limit session e = \<lparr>rt_method = m, rt_pattern = p, rt_limit = Some limit, rt_session = session, rt_endpoint = e\<rparr>"

definition bare :: "string \<Rightarrow> string \<Rightarrow> endpoint \<Rightarrow> route" where
  "bare m p e = \<lparr>rt_method = m, rt_pattern = p, rt_limit = None, rt_session = False, rt_endpoint = e\<rparr>"

definition registerAuthRoutes :: "route list" where
  "registerAuthRoutes =
    [wrap ''POST'' ''/v1/auth/signup'' 10 False SignupEP,
     wrap ''POST'' ''/v1/auth/signin'' 10 False SigninEP,
     wrap ''POST'' ''/v1/auth/signout'' 30 True SignoutEP,
     wrap ''POST'' ''/v1/auth/verify'' 20 False VerifyEP,
     wrap ''POST'' ''/v1/auth/password-reset/request'' 5 False ResetRequestEP,
     wrap ''POST'' ''/v1/auth/password-reset/confirm'' 10 False ResetConfirmEP,
     wrap ''GET'' ''/v1/me'' 60 True MeEP,
     wrap ''DELETE'' ''/v1/account'' 10 True DeleteAccountEP]"

definition registerWebRoutes :: "route list" where
  "registerWebRoutes =
     map (\<lambda>p. bare ''GET'' (fst p) (PageEP (fst p))) pages @
    [bare ''GET'' ''/{$}'' LandingEP, bare ''GET'' ''/privacy'' PrivacyEP, bare ''GET'' ''/terms'' TermsEP,
     wrap ''GET'' ''/approve'' 20 False ApproveEP, bare ''GET'' ''/account/delete'' AccountDeleteEP,
     bare ''GET'' ''/download'' DownloadEP, bare ''GET'' ''/v1/version'' VersionEP]"

definition registerDeviceRoutes :: "route list" where
  "registerDeviceRoutes =
    [wrap ''POST'' ''/v1/devices/enrolment-token'' 10 True EnrolTokenEP,
     wrap ''POST'' ''/v1/devices/enrol'' 20 False EnrolEP,
     wrap ''POST'' ''/v1/devices/{id}/disable'' 30 True DisableEP,
     wrap ''POST'' ''/v1/devices/enrolment/start'' 10 False EnrolStartEP,
     wrap ''POST'' ''/v1/devices/enrolment/poll'' 500 False EnrolPollEP,
     wrap ''POST'' ''/v1/devices/enrolment/answer'' 20 True EnrolAnswerEP,
     wrap ''POST'' ''/v1/devices/unenrol'' 20 False UnenrolEP]"

definition registerBindingRoutes :: "route list" where
  "registerBindingRoutes =
    [wrap ''GET'' ''/v1/devices'' 60 True ListDevicesEP,
     wrap ''GET'' ''/v1/devices/{id}/users'' 60 True ListUsersEP,
     wrap ''POST'' ''/v1/devices/{id}/users/{user}/revoke'' 30 True RevokeEP,
     wrap ''POST'' ''/v1/devices/{id}/leave'' 30 True LeaveEP,
     wrap ''POST'' ''/v1/devices/{id}/remove'' 30 True RemoveEP]"

definition registerAppRoutes :: "route list" where
  "registerAppRoutes = [wrap ''POST'' ''/v1/devices/apps'' 30 False AppsEP]"

definition registerReportRoutes :: "route list" where
  "registerReportRoutes = [wrap ''POST'' ''/v1/devices/reports'' 30 False ReportsEP]"

definition registerInviteRoutes :: "route list" where
  "registerInviteRoutes =
    [wrap ''POST'' ''/v1/devices/{id}/invites'' 20 True InviteEP,
     wrap ''POST'' ''/v1/invites/redeem'' 30 True RedeemEP]"

definition registerSubscriptionRoutes :: "route list" where
  "registerSubscriptionRoutes = [wrap ''POST'' ''/v1/admin/subscriptions/{account}'' 10 False SubscriptionEP]"

definition registerTunnelRoutes :: "route list" where
  "registerTunnelRoutes = [wrap ''POST'' ''/v1/tunnel'' 30 False TunnelEP]"

definition registerRoutingRoutes :: "route list" where
  "registerRoutingRoutes = [bare [] ''/d/{device}/{app}'' RemoteEP, bare [] ''/d/{device}/{app}/{rest...}'' RemoteEP]"

definition newHandlerWithTunnels :: "route list" where
  "newHandlerWithTunnels =
    [bare ''GET'' ''/healthz'' HealthEP, bare ''GET'' ''/metrics'' MetricsEP] @
     registerAuthRoutes @ registerWebRoutes @ registerDeviceRoutes @ registerBindingRoutes @ registerAppRoutes @
     registerReportRoutes @ registerInviteRoutes @ registerSubscriptionRoutes @ registerTunnelRoutes @ registerRoutingRoutes"

text \<open>Who may call what without a session: the endpoints that carry a secret or a signature of their own.\<close>

definition selfAuthenticating :: "endpoint \<Rightarrow> bool" where
  "selfAuthenticating e \<longleftrightarrow> e \<in> {SignupEP, SigninEP, VerifyEP, ResetRequestEP, ResetConfirmEP, VersionEP, EnrolEP,
     EnrolStartEP, EnrolPollEP, UnenrolEP, AppsEP, ReportsEP, SubscriptionEP, TunnelEP}"

section \<open>Counters\<close>

record metrics =
  mt_transitions :: "((string \<times> string) \<times> nat) list"
  mt_requests :: "(nat \<times> nat) list"
  mt_durations :: nat
  mt_denials :: "(string \<times> nat) list"
  mt_connects :: nat
  mt_disconnects :: "(string \<times> nat) list"
  mt_live :: nat
  mt_jobs :: "(string \<times> int) list"

definition newMetrics :: metrics where
  "newMetrics = \<lparr>mt_transitions = [], mt_requests = [], mt_durations = 0, mt_denials = [], mt_connects = 0,
     mt_disconnects = [], mt_live = 0, mt_jobs = []\<rparr>"

definition counted :: "('k \<times> nat) list \<Rightarrow> 'k \<Rightarrow> nat" where
  "counted xs k = (case map_of xs k of None \<Rightarrow> 0 | Some n \<Rightarrow> n)"

definition inc :: "'k \<Rightarrow> ('k \<times> nat) list \<Rightarrow> ('k \<times> nat) list" where
  "inc k xs = (k, Suc (counted xs k)) # filter (\<lambda>x. fst x \<noteq> k) xs"

definition RecordSubscriptionTransition :: "string \<Rightarrow> string \<Rightarrow> metrics \<Rightarrow> metrics" where
  "RecordSubscriptionTransition fromStatus toStatus m = m\<lparr>mt_transitions := inc (fromStatus, toStatus) (mt_transitions m)\<rparr>"

definition RecordRemoteRequest :: "nat \<Rightarrow> metrics \<Rightarrow> metrics" where
  "RecordRemoteRequest status m = m\<lparr>mt_requests := inc status (mt_requests m), mt_durations := Suc (mt_durations m)\<rparr>"

definition RecordTunnelConnect :: "metrics \<Rightarrow> metrics" where
  "RecordTunnelConnect m = m\<lparr>mt_connects := Suc (mt_connects m)\<rparr>"

definition RecordTunnelDisconnect :: "string \<Rightarrow> metrics \<Rightarrow> metrics" where
  "RecordTunnelDisconnect reason m = m\<lparr>mt_disconnects := inc reason (mt_disconnects m)\<rparr>"

definition SetLiveTunnels :: "nat \<Rightarrow> metrics \<Rightarrow> metrics" where
  "SetLiveTunnels n m = m\<lparr>mt_live := n\<rparr>"

definition RecordRemoteDenial :: "string \<Rightarrow> metrics \<Rightarrow> metrics" where
  "RecordRemoteDenial reason m = m\<lparr>mt_denials := inc reason (mt_denials m)\<rparr>"

definition unixTime :: "int \<Rightarrow> int" where
  "unixTime at = at div second"

definition RecordJobRun :: "string \<Rightarrow> int \<Rightarrow> metrics \<Rightarrow> metrics" where
  "RecordJobRun job at m = m\<lparr>mt_jobs := (job, unixTime at) # filter (\<lambda>x. fst x \<noteq> job) (mt_jobs m)\<rparr>"

text \<open>
  \<open>jobs\<close> is the table \<^verbatim>\<open>job_heartbeats\<close>; \<open>dbOk\<close> says whether the statement succeeds.  A \<^verbatim>\<open>timestamptz\<close>
  keeps microseconds, so a stored instant loses what lies below them.
\<close>

definition storedTime :: "int \<Rightarrow> int" where
  "storedTime at = at div 1000 * 1000"

definition RecordJobHeartbeat ::
  "bool \<Rightarrow> string \<Rightarrow> int \<Rightarrow> (string \<times> int) list \<Rightarrow> metrics \<Rightarrow> string option \<times> (string \<times> int) list \<times> metrics" where
  "RecordJobHeartbeat dbOk job at jobs m =
     (case validateToken ''job'' job of Some e \<Rightarrow> (Some e, jobs, m)
      | None \<Rightarrow> if \<not> dbOk then (Some ''metrics: heartbeat'', jobs, m)
          else (None, (job, storedTime at) # filter (\<lambda>x. fst x \<noteq> job) jobs, RecordJobRun job at m))"

definition RefreshJobGauges :: "bool \<Rightarrow> (string \<times> int) list \<Rightarrow> metrics \<Rightarrow> string option \<times> metrics" where
  "RefreshJobGauges dbOk jobs m =
     (if \<not> dbOk then (Some ''metrics: refresh jobs'', m)
      else (None, foldl (\<lambda>m (job, at). RecordJobRun job at m) m jobs))"

section \<open>Facts\<close>

text \<open>A heartbeat is one statement on the table followed by one gauge.\<close>

fun heartbeats :: "(string \<times> int \<times> bool) list \<Rightarrow> (string \<times> int) list \<Rightarrow> metrics \<Rightarrow> (string \<times> int) list \<times> metrics" where
  "heartbeats [] jobs m = (jobs, m)"
| "heartbeats ((job, at, dbOk) # hs) jobs m = (case RecordJobHeartbeat dbOk job at jobs m of (_, jobs', m') \<Rightarrow> heartbeats hs jobs' m')"

lemma map_of_drop_key [simp]:
  "map_of (filter (\<lambda>x. fst x \<noteq> k) xs) = (map_of xs)(k := None)"
  by (induction xs) (auto simp: fun_eq_iff)

lemma RecordJobRun_gauge: "map_of (mt_jobs (RecordJobRun job at m)) = (map_of (mt_jobs m))(job \<mapsto> unixTime at)"
  by (simp add: RecordJobRun_def)

lemma unix_of_stored [simp]: "unixTime (storedTime at) = unixTime at"
proof -
  have "at div 1000 * 1000 div 1000000000 = at div 1000000000"
    by (simp add: zdiv_zmult2_eq [of _ 1000 1000000, simplified])
  thus ?thesis by (simp add: unixTime_def storedTime_def)
qed

definition gauges_follow :: "(string \<times> int) list \<Rightarrow> metrics \<Rightarrow> bool" where
  "gauges_follow jobs m \<longleftrightarrow> distinct (map fst jobs) \<and> map_of (mt_jobs m) = map_option unixTime \<circ> map_of jobs"

lemma heartbeat_follows:
  assumes "gauges_follow jobs m" "RecordJobHeartbeat ok job at jobs m = (e, jobs', m')"
  shows "gauges_follow jobs' m'"
  using assms
  by (auto simp: RecordJobHeartbeat_def gauges_follow_def RecordJobRun_gauge distinct_map_filter fun_eq_iff
      split: option.splits if_splits)

lemma heartbeats_follow: "gauges_follow jobs m \<Longrightarrow> heartbeats hs jobs m = (jobs', m') \<Longrightarrow> gauges_follow jobs' m'"
  by (induction hs jobs m rule: heartbeats.induct) (auto intro: heartbeat_follows split: prod.splits)

lemma refresh_gauges:
  "distinct (map fst jobs) \<Longrightarrow>
   map_of (mt_jobs (foldl (\<lambda>m (job, at). RecordJobRun job at m) m jobs)) = map_of (mt_jobs m) ++ (map_option unixTime \<circ> map_of jobs)"
proof (induction jobs arbitrary: m)
  case (Cons p jobs)
  obtain job at where p: "p = (job, at)" by (cases p)
  have none: "map_of jobs job = None" using Cons.prems p by (simp add: map_of_eq_None_iff)
  have "map_of (mt_jobs (foldl (\<lambda>m (job, at). RecordJobRun job at m) m (p # jobs))) =
      (map_of (mt_jobs m))(job \<mapsto> unixTime at) ++ (map_option unixTime \<circ> map_of jobs)"
    using Cons.IH [of "RecordJobRun job at m"] Cons.prems p by (simp add: RecordJobRun_gauge fun_upd_def comp_def)
  thus ?case using none p by (auto simp: fun_eq_iff map_add_def split: option.splits)
qed (simp add: fun_eq_iff map_add_def)

text \<open>
  The last-run gauges survive a restart: after any heartbeats, failed ones included, the gauges a
  fresh process loads from the table are the gauges the old process had.
\<close>

theorem heartbeats_survive_restart:
  assumes "heartbeats hs [] newMetrics = (jobs, m)" "RefreshJobGauges True jobs newMetrics = (e, m')"
  shows "e = None \<and> map_of (mt_jobs m') = map_of (mt_jobs m)"
proof -
  have "gauges_follow jobs m" using heartbeats_follow [OF _ assms(1)] by (simp add: gauges_follow_def newMetrics_def fun_eq_iff)
  thus ?thesis
    using assms(2) by (auto simp: RefreshJobGauges_def refresh_gauges gauges_follow_def newMetrics_def fun_eq_iff map_add_def split: option.splits)
qed

theorem heartbeats_survive_restart_witness:
  "map_of (mt_jobs (snd (RefreshJobGauges True
      (fst (heartbeats [(''sweep'', 5000000001234, True), (''a/b'', 1, True), (''mail'', 7, False)] [] newMetrics)) newMetrics)))
   = [''sweep'' \<mapsto> 5000]"
  using heartbeats_survive_restart [of "[(''sweep'', 5000000001234, True), (''a/b'', 1, True), (''mail'', 7, False)]"
      "[(''sweep'', 5000000001000)]" "newMetrics\<lparr>mt_jobs := [(''sweep'', 5000)]\<rparr>" None
      "newMetrics\<lparr>mt_jobs := [(''sweep'', 5000)]\<rparr>"]
  by (simp add: RefreshJobGauges_def RecordJobHeartbeat_def RecordJobRun_def validateToken_def containsAny_def path_chars_def
      newMetrics_def unixTime_def storedTime_def)

section \<open>The table of routes\<close>

lemmas register_defs = registerAuthRoutes_def registerWebRoutes_def registerDeviceRoutes_def registerBindingRoutes_def
  registerAppRoutes_def registerReportRoutes_def registerInviteRoutes_def registerSubscriptionRoutes_def
  registerTunnelRoutes_def registerRoutingRoutes_def newHandlerWithTunnels_def

definition api :: "route \<Rightarrow> bool" where
  "api r \<longleftrightarrow> take 4 (rt_pattern r) = ''/v1/''"

text \<open>
  The one route under \<^verbatim>\<open>/v1\<close> with no rate limit is the version number, no route there lacks both a session
  and a proof of its own, none asks for both, and no two routes share a method and a pattern.
\<close>

theorem api_routes_guarded:
  "filter (\<lambda>r. api r \<and> rt_limit r = None) newHandlerWithTunnels = [bare ''GET'' ''/v1/version'' VersionEP] \<and>
   filter (\<lambda>r. api r \<and> rt_session r = selfAuthenticating (rt_endpoint r)) newHandlerWithTunnels = [] \<and>
   distinct (map (\<lambda>r. (rt_method r, rt_pattern r)) newHandlerWithTunnels)"
  by (simp add: register_defs wrap_def bare_def selfAuthenticating_def pages_def api_def)

end
