(* ===== verification/ControlPlane.thy ===== *)
theory ControlPlane
  imports Server DirectoryFacts
begin

text \<open>
  The control plane as one process: every endpoint of \<open>Server\<close>'s table of routes behind the rate limit and
  the session check it is registered with, over the database, the tunnel registry and the limiters.  A step
  is a request, the end of a tunnel, the passing of time or a restart.  Requests are served one after another;
  what two requests do to each other between their statements is the subject of the races in \<open>SingleUse\<close>,
  \<open>AuthFacts\<close> and \<open>Tunnel\<close>.
\<close>

section \<open>The process\<close>

record deployment =
  dp_lib :: golib
  dp_getenv :: "string \<Rightarrow> string"
  dp_mailer :: mailer
  dp_uuid_in :: "string \<Rightarrow> string option"
  dp_parseDuration :: "string \<Rightarrow> int option"
  dp_hop :: "headers \<Rightarrow> headers"
  dp_collector :: string

record process =
  ps_world :: world
  ps_tunnels :: tunnelRegistry
  ps_limiters :: "endpoint \<Rightarrow> rateLimiter"
  ps_perAccount :: rateLimiter

text \<open>A request that matched a route, with its decoded body or the decoder for a signed one.\<close>

datatype call =
    Signup "(string \<times> string \<times> string) option" | Signin "(string \<times> string) option" | Signout
  | VerifyEmail "string option" | ResetRequest "(string \<times> string) option" | ResetConfirm "(string \<times> string) option"
  | Me | DeleteAccount "string option"
  | MintToken | EnrolDevice int "string \<Rightarrow> (string \<times> string \<times> string) option" "string option" | DisableDevice string
  | StartEnrolment int "string \<Rightarrow> string option" "string option" | PollEnrolment int "string \<Rightarrow> string option" "string option"
  | AnswerEnrolment "(string \<times> bool) option" | UnenrolDevice int "string option"
  | ListDevices | ListUsers string | RevokeBinding string string | LeaveDevice string | RemoveDevice string
  | SyncApps int "string \<Rightarrow> (string \<times> string) list option" "string option"
  | Reports int "string \<Rightarrow> otlpRequest option" "otlpRequest \<Rightarrow> collected" "string option"
  | CreateInvite string "(string \<times> string) option" | RedeemInvite "string option"
  | SetSubscription string "string option" | OpenTunnel int "string option" hijack
  | Remote string string "forwarded \<Rightarrow> proxied" string string string

fun endpoint_of :: "call \<Rightarrow> endpoint" where
  "endpoint_of (Signup _) = SignupEP" | "endpoint_of (Signin _) = SigninEP" | "endpoint_of Signout = SignoutEP"
| "endpoint_of (VerifyEmail _) = VerifyEP" | "endpoint_of (ResetRequest _) = ResetRequestEP"
| "endpoint_of (ResetConfirm _) = ResetConfirmEP" | "endpoint_of Me = MeEP" | "endpoint_of (DeleteAccount _) = DeleteAccountEP"
| "endpoint_of MintToken = EnrolTokenEP" | "endpoint_of (EnrolDevice _ _ _) = EnrolEP" | "endpoint_of (DisableDevice _) = DisableEP"
| "endpoint_of (StartEnrolment _ _ _) = EnrolStartEP" | "endpoint_of (PollEnrolment _ _ _) = EnrolPollEP"
| "endpoint_of (AnswerEnrolment _) = EnrolAnswerEP" | "endpoint_of (UnenrolDevice _ _) = UnenrolEP"
| "endpoint_of ListDevices = ListDevicesEP" | "endpoint_of (ListUsers _) = ListUsersEP" | "endpoint_of (RevokeBinding _ _) = RevokeEP"
| "endpoint_of (LeaveDevice _) = LeaveEP" | "endpoint_of (RemoveDevice _) = RemoveEP" | "endpoint_of (SyncApps _ _ _) = AppsEP"
| "endpoint_of (Reports _ _ _ _) = ReportsEP" | "endpoint_of (CreateInvite _ _) = InviteEP" | "endpoint_of (RedeemInvite _) = RedeemEP"
| "endpoint_of (SetSubscription _ _) = SubscriptionEP" | "endpoint_of (OpenTunnel _ _ _) = TunnelEP"
| "endpoint_of (Remote _ _ _ _ _ _) = RemoteEP"

definition routeOf :: "endpoint \<Rightarrow> route option" where
  "routeOf e = find (\<lambda>r. rt_endpoint r = e) newHandlerWithTunnels"

definition limitOf :: "endpoint \<Rightarrow> nat option" where
  "limitOf e = (case routeOf e of None \<Rightarrow> None | Some r \<Rightarrow> rt_limit r)"

definition needsSession :: "endpoint \<Rightarrow> bool" where
  "needsSession e = (case routeOf e of None \<Rightarrow> False | Some r \<Rightarrow> rt_session r)"

definition newProcess :: "world \<Rightarrow> process" where
  "newProcess w = \<lparr>ps_world = w, ps_tunnels = newTunnelRegistry,
     ps_limiters = (\<lambda>e. newRateLimiter (case limitOf e of None \<Rightarrow> 0 | Some n \<Rightarrow> n) rateWindow),
     ps_perAccount = newRateLimiter redeemAccountLimit rateWindow\<rparr>"

text \<open>A handler that keeps nothing but the database runs on the process's world.\<close>

definition onWorld :: "handler \<Rightarrow> response \<Rightarrow> process \<Rightarrow> response \<times> process" where
  "onWorld h rw p = (case h rw (ps_world p) of (rw', w') \<Rightarrow> (rw', p\<lparr>ps_world := w'\<rparr>))"

fun handle :: "deployment \<Rightarrow> request \<Rightarrow> call \<Rightarrow> ctx \<Rightarrow> response \<Rightarrow> process \<Rightarrow> response \<times> process" where
  "handle dp r (Signup inp) ctx rw p = onWorld (signup (dp_lib dp) (dp_getenv dp) (dp_mailer dp) r inp) rw p"
| "handle dp r (Signin inp) ctx rw p = onWorld (signin (dp_lib dp) (dp_getenv dp) r inp) rw p"
| "handle dp r Signout ctx rw p = onWorld (signout (dp_getenv dp) ctx) rw p"
| "handle dp r (VerifyEmail inp) ctx rw p = onWorld (verifyEmail (dp_lib dp) inp) rw p"
| "handle dp r (ResetRequest inp) ctx rw p = onWorld (resetRequest (dp_lib dp) (dp_getenv dp) (dp_mailer dp) r inp) rw p"
| "handle dp r (ResetConfirm inp) ctx rw p = onWorld (resetConfirm (dp_lib dp) inp) rw p"
| "handle dp r Me ctx rw p = onWorld (me ctx) rw p"
| "handle dp r (DeleteAccount inp) ctx rw p = onWorld (deleteAccount (dp_lib dp) ctx inp) rw p"
| "handle dp r MintToken ctx rw p = onWorld (mintEnrolToken (dp_lib dp) ctx) rw p"
| "handle dp r (EnrolDevice clk dec inp) ctx rw p = onWorld (enrolDevice (dp_lib dp) clk r dec inp) rw p"
| "handle dp r (DisableDevice dev) ctx rw p = onWorld (disableDevice ctx dev) rw p"
| "handle dp r (StartEnrolment clk dec inp) ctx rw p = onWorld (startEnrolment (dp_lib dp) (dp_getenv dp) clk r dec inp) rw p"
| "handle dp r (PollEnrolment clk dec inp) ctx rw p = onWorld (pollEnrolment (dp_lib dp) clk r dec inp) rw p"
| "handle dp r (AnswerEnrolment inp) ctx rw p = onWorld (answerEnrolment (dp_lib dp) ctx inp) rw p"
| "handle dp r (UnenrolDevice clk inp) ctx rw p = onWorld (unenrolDevice (dp_lib dp) clk r inp) rw p"
| "handle dp r ListDevices ctx rw p = onWorld (listDevices (ps_tunnels p) ctx) rw p"
| "handle dp r (ListUsers dev) ctx rw p = onWorld (listDeviceUsers ctx dev) rw p"
| "handle dp r (RevokeBinding dev user) ctx rw p = onWorld (revokeBinding (dp_uuid_in dp) ctx dev user) rw p"
| "handle dp r (LeaveDevice dev) ctx rw p = onWorld (leaveDevice ctx dev) rw p"
| "handle dp r (RemoveDevice dev) ctx rw p =
     (case removeDevice ctx dev (ps_tunnels p) rw (ps_world p) of ((rw', w'), reg') \<Rightarrow> (rw', p\<lparr>ps_world := w', ps_tunnels := reg'\<rparr>))"
| "handle dp r (SyncApps clk dec inp) ctx rw p = onWorld (syncApps (dp_lib dp) clk r dec inp) rw p"
| "handle dp r (Reports clk dec send inp) ctx rw p =
     onWorld (\<lambda>rw w. case receiveReports (dp_lib dp) clk r dec (dp_collector dp) send inp rw w of ((rw', _), w') \<Rightarrow> (rw', w')) rw p"
| "handle dp r (CreateInvite dev inp) ctx rw p = onWorld (createInvite (dp_lib dp) (dp_parseDuration dp) ctx dev inp) rw p"
| "handle dp r (RedeemInvite inp) ctx rw p =
     (case redeemInviteHandler (dp_lib dp) ctx inp (ps_perAccount p) rw (ps_world p) of
        ((rw', w'), l') \<Rightarrow> (rw', p\<lparr>ps_world := w', ps_perAccount := l'\<rparr>))"
| "handle dp r (SetSubscription acct inp) ctx rw p =
     onWorld (\<lambda>rw w. fst (setSubscription (dp_uuid_in dp) (dp_getenv dp) r acct inp rw w)) rw p"
| "handle dp r (OpenTunnel clk inp hj) ctx rw p =
     (case openTunnel (dp_lib dp) clk r inp hj (ps_tunnels p) rw (ps_world p) of
        ((rw', w'), reg', _) \<Rightarrow> (rw', p\<lparr>ps_world := w', ps_tunnels := reg'\<rparr>))"
| "handle dp r (Remote r16 r8 serve dev app rest) ctx rw p =
     onWorld (\<lambda>rw w. fst (remoteRequest (dp_lib dp) r16 r8 (dp_hop dp) serve r dev app rest (ps_tunnels p) rw w)) rw p"

text \<open>
  The two wrappers of \<open>Auth\<close> and \<open>Ratelimit\<close> again, around a handler that may also change the registry or
  its own limiter; the lemmas after them say that they are the same wrappers.
\<close>

definition withSession :: "golib \<Rightarrow> request \<Rightarrow> (ctx \<Rightarrow> response \<Rightarrow> process \<Rightarrow> response \<times> process) \<Rightarrow> response \<Rightarrow> process \<Rightarrow> response \<times> process" where
  "withSession lib r nxt rw p =
     (let raw = sessionTokenFromRequest r in
      if raw = [] then (unauthorized rw, p)
      else (case lookupSession lib raw (ps_world p) of
          (Inl _, w') \<Rightarrow> (unauthorized rw, p\<lparr>ps_world := w'\<rparr>)
        | (Inr as, w') \<Rightarrow> nxt (Some as) rw (p\<lparr>ps_world := w'\<rparr>)))"

definition guarded :: "deployment \<Rightarrow> request \<Rightarrow> call \<Rightarrow> response \<Rightarrow> process \<Rightarrow> response \<times> process" where
  "guarded dp r c rw p = (if needsSession (endpoint_of c) then withSession (dp_lib dp) r (handle dp r c) rw p
      else handle dp r c None rw p)"

definition tooMany :: "int \<Rightarrow> response \<Rightarrow> response" where
  "tooMany window rw = writeJSON 429 (JObj [(''error'', JStr ''too many requests'')])
     (rw\<lparr>rs_headers := header_set (rs_headers rw) ''Retry-After'' (formatInt (window div second))\<rparr>)"

definition serveHTTP :: "deployment \<Rightarrow> request \<Rightarrow> call \<Rightarrow> response \<Rightarrow> process \<Rightarrow> response \<times> process" where
  "serveHTTP dp r c rw p =
     (let e = endpoint_of c in case limitOf e of
        None \<Rightarrow> guarded dp r c rw p
      | Some _ \<Rightarrow> (case allow (w_now (ps_world p)) (clientIP r) (ps_limiters p e) of (ok, l') \<Rightarrow>
          let p' = p\<lparr>ps_limiters := (ps_limiters p)(e := l')\<rparr> in
          if ok then guarded dp r c rw p' else (tooMany (rl_window (ps_limiters p e)) rw, p')))"

lemma withSession_is_requireSession:
  "withSession lib r (\<lambda>ctx. onWorld (h ctx)) rw p = onWorld (requireSession lib r h) rw p"
  by (auto simp: withSession_def requireSession_def onWorld_def Let_def attempt_def split: prod.splits sum.splits)

lemma serveHTTP_is_middleware:
  assumes "limitOf (endpoint_of c) = Some n" and "\<And>rw p. guarded dp r c rw p = onWorld h rw p"
  shows "serveHTTP dp r c rw p =
    (case rl_middleware r h (ps_limiters p (endpoint_of c)) rw (ps_world p) of ((rw', w'), l') \<Rightarrow>
       (rw', p\<lparr>ps_world := w', ps_limiters := (ps_limiters p)(endpoint_of c := l')\<rparr>))"
  by (simp add: serveHTTP_def rl_middleware_def assms onWorld_def tooMany_def Let_def split: prod.splits bool.splits)

section \<open>Steps\<close>

text \<open>
  Between requests the clock moves on, and which calls fail and what is drawn next is open.  A restart keeps
  the database and nothing else.
\<close>

inductive cp_step :: "deployment \<Rightarrow> process \<Rightarrow> process \<Rightarrow> bool" for dp where
  request: "serveHTTP dp r c rw p = (rw', p') \<Longrightarrow> cp_step dp p p'"
| ended: "tunnelEnd t reason (ps_tunnels p) (ps_world p) = (reg', w') \<Longrightarrow> cp_step dp p (p\<lparr>ps_tunnels := reg', ps_world := w'\<rparr>)"
| passing: "w_db w' = w_db (ps_world p) \<Longrightarrow> w_now (ps_world p) \<le> w_now w' \<Longrightarrow> cp_step dp p (p\<lparr>ps_world := w'\<rparr>)"
| restart: "cp_step dp p (newProcess (ps_world p))"

inductive_cases cp_stepE: "cp_step dp p p'"

abbreviation ps_db :: "process \<Rightarrow> db" where
  "ps_db p \<equiv> w_db (ps_world p)"

section \<open>Properties of the database that handlers keep\<close>

lemma onWorld_keeps: "keeps P (h rw) \<Longrightarrow> P (ps_db p) \<Longrightarrow> onWorld h rw p = (rw', p') \<Longrightarrow> P (ps_db p')"
  by (auto simp: onWorld_def keeps_def split: prod.splits)

text \<open>
  A property of the database that the handlers of some calls keep, and that the record of a tunnel's end
  keeps, is kept by the whole process as long as only such calls arrive.
\<close>

locale kept_by_handlers =
  fixes dp :: deployment and P :: "db \<Rightarrow> bool" and allowed :: "call \<Rightarrow> bool"
  assumes handle_keeps: "allowed c \<Longrightarrow> P (ps_db p) \<Longrightarrow> handle dp r c ctx rw p = (rw', p') \<Longrightarrow> P (ps_db p')"
    and record_keeps: "P (w_db w) \<Longrightarrow> P (w_db (registry_record t action reason w))"
begin

lemma guarded_keeps:
  assumes "allowed c" "P (ps_db p)" "guarded dp r c rw p = (rw', p')"
  shows "P (ps_db p')"
proof (cases "needsSession (endpoint_of c) \<and> sessionTokenFromRequest r \<noteq> []")
  case True
  obtain res w1 where look: "lookupSession (dp_lib dp) (sessionTokenFromRequest r) (ps_world p) = (res, w1)"
    by (cases "lookupSession (dp_lib dp) (sessionTokenFromRequest r) (ps_world p)")
  have "keeps P (lookupSession (dp_lib dp) (sessionTokenFromRequest r))"
    unfolding lookupSession_def by (rule keeps_query)
  from keepsD [OF this assms(2) look] have "P (w_db w1)" .
  then show ?thesis
    using True assms look handle_keeps [of c "p\<lparr>ps_world := w1\<rparr>"]
    by (auto simp: guarded_def withSession_def split: sum.splits)
next
  case False
  then show ?thesis
    using assms handle_keeps [OF assms(1,2)] by (auto simp: guarded_def withSession_def split: if_splits)
qed

lemma serve_keeps:
  assumes "allowed c" "P (ps_db p)" "serveHTTP dp r c rw p = (rw', p')"
  shows "P (ps_db p')"
proof -
  have "P (ps_db p')" if "guarded dp r c rw (p\<lparr>ps_limiters := l\<rparr>) = (rw', p')" for l
    using guarded_keeps [OF assms(1) _ that] assms(2) by simp
  then show ?thesis
    using assms guarded_keeps [OF assms(1,2)]
    by (auto simp: serveHTTP_def Let_def split: option.splits prod.splits if_splits)
qed

lemma end_keeps: "P (w_db w) \<Longrightarrow> tunnelEnd t reason reg w = (reg', w') \<Longrightarrow> P (w_db w')"
  by (auto simp: tunnelEnd_def record_keeps split: prod.splits bool.splits)

lemma step_keeps:
  assumes "cp_step dp p p'" "\<And>c. allowed c" "P (ps_db p)"
  shows "P (ps_db p')"
  using assms(1)
proof cases
  case (request r c rw rw')
  then show ?thesis using serve_keeps assms(2,3) by blast
next
  case (ended t reason reg' w')
  then show ?thesis using end_keeps assms(3) by auto
qed (use assms(3) in \<open>simp_all add: newProcess_def\<close>)

lemma run_keeps: "(cp_step dp)\<^sup>*\<^sup>* p p' \<Longrightarrow> (\<And>c. allowed c) \<Longrightarrow> P (ps_db p) \<Longrightarrow> P (ps_db p')"
  by (induction rule: rtranclp_induct) (auto intro: step_keeps)

end

section \<open>The invariant of the tables and the audit log\<close>

lemma listings_keep: "keeps P (listDevices reg ctx rw)" "keeps P (listDeviceUsers ctx dev rw)"
  unfolding listDevices_def listDeviceUsers_def isActiveAdmin_def by (intro keeps_intro)+

lemma registry_record_inv: "cp_inv lib a (w_db w) \<Longrightarrow> cp_inv lib a (w_db (registry_record t action reason w))"
  using appendAudit_inv [of lib a] by (simp add: registry_record_def keeps_def)

lemma openTunnel_keeps:
  assumes sig: "\<And>body. keeps P (verifyAgentSignature lib clk r body)"
    and rec: "\<And>t action reason w. P (w_db w) \<Longrightarrow> P (w_db (registry_record t action reason w))"
    and "P (w_db w)" "openTunnel lib clk r inp hj reg rw w = ((rw', w'), rest)"
  shows "P (w_db w')"
proof -
  have v: "P (w_db w1)" if "verifyAgentSignature lib clk r body w = (res, w1)" for w1 res body
    using assms(3) that keepsD [OF sig] by blast
  have q: "w_db w2 = w_db w1" if "query f w1 = (res, w2)" for f w1 w2 and res :: "err + 'q"
    using that by (auto simp: query_def stmt_def Let_def split: if_splits sum.splits)
  have c: "P (w_db w2)" if "tunnelConnect t reg w1 = (reg', w2)" "P (w_db w1)" for t reg' w1 w2
    using that rec by (auto simp: tunnelConnect_def split: prod.splits option.splits)
  show ?thesis
    using assms(3,4) unfolding openTunnel_def
    by (auto simp: Let_def dest!: v q c split: option.splits prod.splits sum.splits if_splits hijack.splits)
qed

lemma removeDevice_keeps:
  assumes "\<And>acct. keeps P (removeTx dev acct)" "P (w_db w)" "removeDevice ctx dev reg rw w = ((rw', w'), reg')"
  shows "P (w_db w')"
  using assms(2,3) keepsD [OF assms(1)]
  by (auto simp: removeDevice_def split: option.splits prod.splits sum.splits if_splits)

lemma redeemInviteHandler_inv:
  "cp_inv lib a (w_db w) \<Longrightarrow> redeemInviteHandler lib' ctx inp l rw w = ((rw', w'), l') \<Longrightarrow> cp_inv lib a (w_db w')"
  using keepsD [OF redeemInvite_inv, of lib a w]
  by (auto simp: redeemInviteHandler_def split: option.splits prod.splits bool.splits)

lemmas handler_inv = signup_inv signin_inv signout_inv verifyEmail_inv resetRequest_inv resetConfirm_inv me_inv
  deleteAccount_inv mintEnrolToken_inv enrolDevice_inv disableDevice_inv startEnrolment_inv pollEnrolment_inv
  answerEnrolment_inv unenrolDevice_inv listings_keep revokeBinding_inv leaveDevice_inv syncApps_inv createInvite_inv
  setSubscription_inv remoteRequest_inv

lemma reports_keep:
  "keeps P (receiveReports lib clk r dec col send inp rw) \<Longrightarrow>
   keeps P (\<lambda>w. case receiveReports lib clk r dec col send inp rw w of ((rw', _), w') \<Rightarrow> (rw', w'))"
  by (auto simp: keeps_def split: prod.splits)

lemma handle_inv:
  assumes "cp_inv (dp_lib dp) a (ps_db p)" "handle dp r c ctx rw p = (rw', p')"
  shows "cp_inv (dp_lib dp) a (ps_db p')"
proof (cases c)
    case (RemoveDevice dev)
    then show ?thesis using assms by (auto dest: removeDevice_keeps [OF removeTx_inv] split: prod.splits)
  next
    case (RedeemInvite inp)
    then show ?thesis using assms by (auto dest: redeemInviteHandler_inv split: prod.splits)
  next
    case (OpenTunnel clk inp hj)
    then show ?thesis using assms openTunnel_keeps [OF verifyAgentSignature_inv registry_record_inv assms(1)]
    by (auto split: prod.splits)
  next
    case (Reports clk dec send inp)
    then show ?thesis using assms onWorld_keeps [OF reports_keep [OF receiveReports_inv]] by simp
  qed (insert assms, simp_all,
    (erule onWorld_keeps [rotated 2, where P = "cp_inv (dp_lib dp) a"], rule handler_inv, assumption)+)

interpretation tables: kept_by_handlers dp "cp_inv (dp_lib dp) a" "\<lambda>_. True" for dp a
  by (unfold_locales, erule (1) handle_inv, rule registry_record_inv)

section \<open>Who gains access\<close>

definition unbound :: "string \<Rightarrow> string \<Rightarrow> db \<Rightarrow> bool" where
  "unbound dev user d \<longleftrightarrow> \<not> boundTo dev user d"

lemma unbound_same: "unbound dev user d \<Longrightarrow> t_bindings d' = t_bindings d \<Longrightarrow> unbound dev user d'"
  by (simp add: unbound_def boundTo_def)

lemma unbound_exec:
  "(\<And>t d. t_bindings (f t d) = t_bindings d) \<Longrightarrow> keeps (unbound dev user) (exec f)"
  by (rule keeps_exec) (erule unbound_same)

lemma unbound_stmt:
  "(\<And>t d a d'. f t d = Inr (a, d') \<Longrightarrow> t_bindings d' = t_bindings d) \<Longrightarrow> keeps (unbound dev user) (stmt f)"
  by (rule keeps_stmt) (erule unbound_same)

lemma unbound_revoke:
  assumes "unbound dev user d"
  shows "unbound dev user (d\<lparr>t_bindings := updateWhere Q (\<lambda>b. b\<lparr>bn_revoked := Some t\<rparr>) (t_bindings d)\<rparr>)"
proof -
  have "\<not> (isBinding dev user b' \<and> bn_revoked b' = None)"
    if b': "b' \<in> set (updateWhere Q (\<lambda>b. b\<lparr>bn_revoked := Some t\<rparr>) (t_bindings d))" for b'
  proof -
    obtain b where "b \<in> set (t_bindings d)" "b' = (if Q b then b\<lparr>bn_revoked := Some t\<rparr> else b)"
      using b' unfolding in_updateWhere by blast
    then show ?thesis using assms by (cases "Q b") (auto simp: unbound_def boundTo_def list_ex_iff)
  qed
  then show ?thesis by (auto simp: unbound_def boundTo_def list_ex_iff)
qed

lemma unbound_appendAudit [keeps_intro]: "keeps (unbound dev user) (appendAudit i a c dt)"
  unfolding appendAudit_alt by (intro keeps_intro unbound_exec) simp

lemma unbound_signature [keeps_intro]: "keeps (unbound dev user) (verifyAgentSignature lib t r body)"
  by (rule verifyAgentSignature_frame) (simp add: unbound_def boundTo_def)

lemma unbound_signedBody [keeps_intro]:
  "(\<And>body key rw. keeps (unbound dev user) (nxt body key rw)) \<Longrightarrow> keeps (unbound dev user) (signedBody lib clk r inp nxt rw)"
  unfolding signedBody_def by (intro keeps_intro)

text \<open>The statements that write other tables, and those that revoke or delete bindings.\<close>

lemma unbound_auth_stmts [keeps_intro]:
  "keeps (unbound dev user) (insertSession acct h ag ip)"
  "keeps (unbound dev user) (seedSubscription acct)"
  "keeps (unbound dev user) (insertAccount e h)"
  "keeps (unbound dev user) (insertVerify acct h)"
  "keeps (unbound dev user) (insertReset acct h)"
  "keeps (unbound dev user) (revokeSession i)"
  "keeps (unbound dev user) (verifyTx i acct)"
  "keeps (unbound dev user) (resetTx i acct h)"
  unfolding insertSession_def seedSubscription_def insertAccount_def insertVerify_def insertReset_def revokeSession_def
    verifyTx_def resetTx_def
  by (intro keeps_intro unbound_stmt unbound_exec; auto split: if_splits sum.splits)+

lemma unbound_enrol_stmts [keeps_intro]:
  "keeps (unbound dev user) (insertEnrolToken acct h)"
  "keeps (unbound dev user) (insertEnrolment h key name)"
  "keeps (unbound dev user) (collectEnrolment h key)"
  "keeps (unbound dev user) (answerRows h b acct)"
  "keeps (unbound dev user) (disableTx i acct)"
  unfolding insertEnrolToken_def insertEnrolment_def collectEnrolment_def answerRows_def disableTx_def
  by (intro keeps_intro unbound_stmt unbound_exec; auto simp: Let_def split: if_splits sum.splits list.splits option.splits)+

lemma unbound_revoking [keeps_intro]:
  "keeps (unbound dev user) (unenrolTx key)"
  "keeps (unbound dev user) (removeTx i acct)"
  "keeps (unbound dev user) (revokeRow f i target)"
  "keeps (unbound dev user) (leaveRow i acct)"
  unfolding unenrolTx_def removeTx_def revokeRow_def leaveRow_def lockDevice_def
  by (intro keeps_intro keeps_exec keeps_stmt; auto simp: Let_def unbound_revoke split: option.splits list.splits)+

lemma unbound_deletion: "unbound dev user d \<Longrightarrow> unbound dev user (deleteAccountRow i d)"
  by (auto simp: unbound_def boundTo_def list_ex_iff deleteAccountRow_def isBinding_def)

lemma unbound_other_stmts [keeps_intro]:
  "keeps (unbound dev user) (insertInvite i acct h role ttl)"
  "keeps (unbound dev user) (putSubscription f acct st)"
  "keeps (unbound dev user) (runAccountDeletion acct)"
  "keeps (unbound dev user) (appsTx key names types)"
  unfolding insertInvite_def putSubscription_def runAccountDeletion_def appsTx_def
  by (intro keeps_intro unbound_stmt unbound_exec keeps_exec [where f = "\<lambda>t d. deleteAccountRow acct d"];
      auto simp: Let_def unbound_deletion split: if_splits option.splits)+

lemma unbound_handlers:
  "keeps (unbound dev user) (signup lib getenv m r si rw)"
  "keeps (unbound dev user) (signin lib getenv r cr rw)"
  "keeps (unbound dev user) (signout getenv ctx rw)"
  "keeps (unbound dev user) (verifyEmail lib tok rw)"
  "keeps (unbound dev user) (resetRequest lib getenv m r cr rw)"
  "keeps (unbound dev user) (resetConfirm lib cr rw)"
  "keeps (unbound dev user) (me ctx rw)"
  "keeps (unbound dev user) (deleteAccount lib ctx tok rw)"
  unfolding signup_def signin_def signout_def verifyEmail_def resetRequest_def resetConfirm_def me_def deleteAccount_def
    createSession_def newRawToken_def hashPassword_def Let_def
  by (intro keeps_intro)+

lemma unbound_handlers2:
  "keeps (unbound dev user) (mintEnrolToken lib ctx rw)"
  "keeps (unbound dev user) (disableDevice ctx i rw)"
  "keeps (unbound dev user) (startEnrolment lib getenv clk r dec body rw)"
  "keeps (unbound dev user) (pollEnrolment lib clk r dec body rw)"
  "keeps (unbound dev user) (answerEnrolment lib ctx ans rw)"
  "keeps (unbound dev user) (unenrolDevice lib clk r body rw)"
  "keeps (unbound dev user) (revokeBinding f ctx i target rw)"
  "keeps (unbound dev user) (leaveDevice ctx i rw)"
  unfolding mintEnrolToken_def disableDevice_def startEnrolment_def pollEnrolment_def answerEnrolment_def unenrolDevice_def
    revokeBinding_def leaveDevice_def revokeTx_def leaveTx_def pollTx_def stillActive_def
    lockDevice_def isActiveAdmin_def
  by (intro keeps_intro)+

lemma unbound_handlers3:
  "keeps (unbound dev user) (createInvite lib pd ctx i ask rw)"
  "keeps (unbound dev user) (syncApps lib clk r dec' body rw)"
  unfolding createInvite_def createInviteTx_def syncApps_def newRawToken_def lockDevice_def Let_def
  by (intro keeps_intro)+

lemma unbound_handlers4:
  "keeps (unbound dev user) (\<lambda>w. fst (setSubscription f getenv r acct inp rw w))"
  "keeps (unbound dev user) (receiveReports lib clk r dec collector send body rw)"
  "keeps (unbound dev user) (\<lambda>w. fst (remoteRequest lib r16 r8 hop serve r i app rest reg rw w))"
proof -
  have "keeps (unbound dev user) (setSubscriptionTx f acct st)" for st
    unfolding setSubscriptionTx_def by (intro keeps_intro)
  then show "keeps (unbound dev user) (\<lambda>w. fst (setSubscription f getenv r acct inp rw w))"
    by (rule setSubscription_keeps)
qed (rule receiveReports_keeps unbound_signature remoteRequest_keeps unbound_appendAudit)+

lemma unbound_record: "unbound dev user (w_db w) \<Longrightarrow> unbound dev user (w_db (registry_record t action reason w))"
  using unbound_appendAudit [of dev user] by (simp add: registry_record_def keeps_def)

lemmas handler_unbound = unbound_handlers unbound_handlers2 unbound_handlers3 unbound_handlers4 listings_keep

fun grants :: "call \<Rightarrow> bool" where
  "grants (EnrolDevice _ _ _) = True"
| "grants (RedeemInvite _) = True"
| "grants _ = False"

lemma handle_unbound:
  assumes "\<not> grants c" "unbound dev user (ps_db p)" "handle dp r c ctx rw p = (rw', p')"
  shows "unbound dev user (ps_db p')"
proof (cases c)
  case (RemoveDevice i)
  then show ?thesis using assms by (auto dest: removeDevice_keeps [OF unbound_revoking(2)] split: prod.splits)
next
  case (OpenTunnel clk inp hj)
  then show ?thesis using assms openTunnel_keeps [OF unbound_signature unbound_record assms(2)]
    by (auto split: prod.splits)
next
  case (Reports clk dec send inp)
  then show ?thesis using assms onWorld_keeps [OF reports_keep [OF unbound_handlers4(2)]] by simp
qed (insert assms, simp_all,
    (erule onWorld_keeps [rotated 2, where P = "unbound dev user"], rule handler_unbound, assumption)+)

interpretation access: kept_by_handlers dp "unbound dev user" "\<lambda>c. \<not> grants c" for dp dev user
  by (unfold_locales, erule (2) handle_unbound, rule unbound_record)

text \<open>What stands behind an enrolment and behind an invite.\<close>

definition enrolled_by_token :: "golib \<Rightarrow> int \<Rightarrow> request \<Rightarrow> string \<Rightarrow> string \<Rightarrow> string \<Rightarrow> db \<Rightarrow> bool" where
  "enrolled_by_token lib clk r body dev user d \<longleftrightarrow>
     (\<exists>key nonce. Verify lib clk r body = Inr (key, nonce) \<and> dev = device_id_of lib key) \<and>
     (\<exists>k \<in> set (t_enrol d). tk_used k = None \<and> tk_account k = user)"

definition invited :: "golib \<Rightarrow> int \<Rightarrow> request \<Rightarrow> string \<Rightarrow> string \<Rightarrow> string \<Rightarrow> db \<Rightarrow> bool" where
  "invited lib now r code dev user d \<longleftrightarrow>
     (\<exists>(a, s) \<in> set (sessionRows lib (sessionTokenFromRequest r) now d). ac_id a = user) \<and>
     (\<exists>v \<in> set (t_invites d). iv_hash v = hashToken lib code \<and> iv_used v = None \<and> iv_expires v > now \<and>
        iv_device v = dev \<and> activeAdmin dev (iv_by v) d) \<and>
     (\<exists>dv \<in> set (t_devices d). dv_id dv = dev \<and> dv_status dv = DevActive)"

lemma new_binding:
  assumes others: "\<And>b. \<not> isBinding dev' acct b \<Longrightarrow> b \<in> set (t_bindings d') \<longleftrightarrow> b \<in> set (t_bindings d)"
    and "unbound dev user d" "\<not> unbound dev user d'"
  shows "dev = dev' \<and> user = acct"
proof -
  obtain b where b: "b \<in> set (t_bindings d')" "isBinding dev user b" "bn_revoked b = None"
    using assms(3) by (auto simp: unbound_def boundTo_def list_ex_iff)
  have "b \<notin> set (t_bindings d)"
    using b assms(2) by (auto simp: unbound_def boundTo_def list_ex_iff)
  then have "isBinding dev' acct b"
    using others [of b] b(1) by blast
  then show ?thesis using b(2) by (simp add: isBinding_def)
qed

lemma enrolTx_binds:
  assumes "wf_db lib (w_db w)" "enrolTx lib key name token w = (res, w')" "unbound dev user (w_db w)" "\<not> unbound dev user (w_db w')"
  shows "dev = device_id_of lib key \<and> (\<exists>k \<in> set (t_enrol (w_db w)). tk_used k = None \<and> tk_account k = user)"
proof -
  obtain dev' acct where res: "res = Inr (dev', acct)"
    using enrolTx_effect [OF assms(1,2)] assms(3,4) by (cases res) auto
  have eff: "dev' = device_id_of lib key" "\<exists>k \<in> set (t_enrol (w_db w)). tk_hash k = hashToken lib token \<and> tk_used k = None \<and> tk_account k = acct"
    and others: "\<And>b. \<not> isBinding dev' acct b \<Longrightarrow> b \<in> set (t_bindings (w_db w')) \<longleftrightarrow> b \<in> set (t_bindings (w_db w))"
    using enrolTx_effect [OF assms(1,2)] res by auto
  show ?thesis
    using new_binding [OF others assms(3,4)] eff by blast
qed

lemma enrolDevice_binds:
  assumes inv: "cp_inv lib a (w_db w)" and run: "enrolDevice lib clk r dec inp rw w = (rw', w')"
    and before: "unbound dev user (w_db w)" and after: "\<not> unbound dev user (w_db w')"
  shows "\<exists>body. inp = Some body \<and> enrolled_by_token lib clk r body dev user (w_db w)"
proof -
  obtain body where inp: "inp = Some body"
    using run before after by (cases inp) (auto simp: enrolDevice_def signedBody_def)
  obtain res w1 where v: "verifyAgentSignature lib clk r body w = (res, w1)"
    by (cases "verifyAgentSignature lib clk r body w")
  have "keeps (\<lambda>d. t_enrol d = t_enrol (w_db w)) (verifyAgentSignature lib clk r body)"
    by (rule verifyAgentSignature_frame) simp
  from keepsD [OF this _ v] have same: "t_enrol (w_db w1) = t_enrol (w_db w)" by simp
  have un: "unbound dev user (w_db w1)" using keepsD [OF unbound_signature before v] .
  have wf: "wf_db lib (w_db w1)" using keepsD [OF verifyAgentSignature_inv inv v] by (simp add: cp_inv_def)
  obtain key where key: "res = Inr key"
    using run after un v inp by (cases res) (auto simp: enrolDevice_def signedBody_def attempt_def)
  obtain name token res' w2 where tx: "enrolTx lib key name token w1 = (res', w2)" "w_db w' = w_db w2"
    using run after un v inp key
    by (auto simp: enrolDevice_def signedBody_def attempt_def split: option.splits prod.splits sum.splits if_splits)
  have "dev = device_id_of lib key \<and> (\<exists>k \<in> set (t_enrol (w_db w1)). tk_used k = None \<and> tk_account k = user)"
    using enrolTx_binds [OF wf tx(1) un] after tx(2) by simp
  then show ?thesis
    using verifyAgentSignature_Inr [OF v [unfolded key]] same inp by (auto simp: enrolled_by_token_def)
qed

lemma redeemTx_binds:
  assumes "wf_db lib' (w_db w)" "redeemTx lib acct code w = (res, w')" "unbound dev user (w_db w)" "\<not> unbound dev user (w_db w')"
  shows "acct = user \<and>
    (\<exists>v \<in> set (t_invites (w_db w)). iv_hash v = hashToken lib code \<and> iv_used v = None \<and> iv_expires v > w_now w \<and>
        iv_device v = dev \<and> activeAdmin dev (iv_by v) (w_db w)) \<and>
    (\<exists>dv \<in> set (t_devices (w_db w)). dv_id dv = dev \<and> dv_status dv = DevActive)"
proof -
  obtain dev' role where res: "res = Inr (dev', role)"
    using redeemTx_effect [OF assms(1,2)] assms(3,4) by (cases res) auto
  have eff: "\<exists>v \<in> set (t_invites (w_db w)). iv_hash v = hashToken lib code \<and> iv_used v = None \<and> iv_expires v > w_now w \<and>
        iv_device v = dev' \<and> activeAdmin dev' (iv_by v) (w_db w)"
      "\<exists>dv \<in> set (t_devices (w_db w)). dv_id dv = dev' \<and> dv_status dv = DevActive"
    and others: "\<And>b. \<not> isBinding dev' acct b \<Longrightarrow> b \<in> set (t_bindings (w_db w')) \<longleftrightarrow> b \<in> set (t_bindings (w_db w))"
    using redeemTx_effect [OF assms(1,2)] res by auto
  show ?thesis
    using new_binding [OF others assms(3,4)] eff by blast
qed

lemma redeemInviteHandler_binds:
  assumes "wf_db lib' (w_db w)" "redeemInviteHandler lib (Some (a, s)) inp l rw w = ((rw', w'), l')"
    "unbound dev user (w_db w)" "\<not> unbound dev user (w_db w')"
  shows "\<exists>code. inp = Some code \<and> ac_id a = user \<and>
    (\<exists>v \<in> set (t_invites (w_db w)). iv_hash v = hashToken lib code \<and> iv_used v = None \<and> iv_expires v > w_now w \<and>
        iv_device v = dev \<and> activeAdmin dev (iv_by v) (w_db w)) \<and>
    (\<exists>dv \<in> set (t_devices (w_db w)). dv_id dv = dev \<and> dv_status dv = DevActive)"
proof -
  obtain code res w2 where "inp = Some code" and tx: "redeemTx lib (ac_id a) code w = (res, w2)" "w_db w' = w_db w2"
    using assms(2-4)
    by (auto simp: redeemInviteHandler_def redeemInvite_def attempt_def Let_def
        split: option.splits prod.splits sum.splits if_splits bool.splits)
  then show ?thesis using redeemTx_binds [OF assms(1) tx(1) assms(3)] assms(4) by simp
qed

lemma session_endpoints: "\<not> needsSession EnrolEP" "needsSession RedeemEP"
  by (simp_all add: needsSession_def routeOf_def register_defs wrap_def bare_def pages_def)

definition granted :: "deployment \<Rightarrow> request \<Rightarrow> call \<Rightarrow> string \<Rightarrow> string \<Rightarrow> process \<Rightarrow> bool" where
  "granted dp r c dev user p \<longleftrightarrow> (case c of
     EnrolDevice clk dec (Some body) \<Rightarrow> enrolled_by_token (dp_lib dp) clk r body dev user (ps_db p)
   | RedeemInvite (Some code) \<Rightarrow> invited (dp_lib dp) (w_now (ps_world p)) r code dev user (ps_db p)
   | _ \<Rightarrow> False)"

lemma guarded_binds:
  assumes "cp_inv (dp_lib dp) a (ps_db p)" "guarded dp r c rw p = (rw', p')"
    and "unbound dev user (ps_db p)" "\<not> unbound dev user (ps_db p')"
  shows "granted dp r c dev user p"
proof -
  have "grants c"
    using access.guarded_keeps [OF _ assms(3,2)] assms(4) by blast
  then consider clk dec inp where "c = EnrolDevice clk dec inp" | inp where "c = RedeemInvite inp"
    by (cases c) auto
  then show ?thesis
  proof cases
    case 1
    then have run: "enrolDevice (dp_lib dp) clk r dec inp rw (ps_world p) = (rw', ps_world p')"
      using assms(2) session_endpoints by (auto simp: guarded_def onWorld_def split: prod.splits)
    show ?thesis
      using enrolDevice_binds [OF assms(1) run assms(3,4)] 1 by (auto simp: granted_def)
  next
    case 2
    obtain res w1 where look: "lookupSession (dp_lib dp) (sessionTokenFromRequest r) (ps_world p) = (res, w1)"
      by (cases "lookupSession (dp_lib dp) (sessionTokenFromRequest r) (ps_world p)")
    have db: "w_db w1 = ps_db p"
      using look unfolding lookupSession_def by (rule query_db)
    obtain ac s where res: "res = Inr (ac, s)" and tok: "sessionTokenFromRequest r \<noteq> []"
      using assms(2-4) 2 look db session_endpoints
      by (cases res) (auto simp: guarded_def withSession_def Let_def split: if_splits)
    obtain rs where rows: "sessionRows (dp_lib dp) (sessionTokenFromRequest r) (w_now (ps_world p)) (ps_db p) = (ac, s) # rs"
        and now: "w_now w1 = w_now (ps_world p)"
      using lookupSession_Inr [OF look [unfolded res]] by blast
    obtain l' where run: "redeemInviteHandler (dp_lib dp) (Some (ac, s)) inp (ps_perAccount p) rw w1 = ((rw', ps_world p'), l')"
      using assms(2) 2 look res tok session_endpoints
      by (auto simp: guarded_def withSession_def split: prod.splits)
    have "wf_db (dp_lib dp) (w_db w1)" using assms(1) db by (simp add: cp_inv_def)
    from redeemInviteHandler_binds [OF this run, of dev user] assms(3,4) db obtain code where "inp = Some code" "ac_id ac = user"
      "\<exists>v \<in> set (t_invites (ps_db p)). iv_hash v = hashToken (dp_lib dp) code \<and> iv_used v = None \<and>
         iv_expires v > w_now (ps_world p) \<and> iv_device v = dev \<and> activeAdmin dev (iv_by v) (ps_db p)"
      "\<exists>dv \<in> set (t_devices (ps_db p)). dv_id dv = dev \<and> dv_status dv = DevActive"
      unfolding now by auto
    then show ?thesis
      using 2 rows by (auto simp: granted_def invited_def)
  qed
qed

lemma serve_binds:
  assumes "cp_inv (dp_lib dp) a (ps_db p)" "serveHTTP dp r c rw p = (rw', p')"
    and "unbound dev user (ps_db p)" "\<not> unbound dev user (ps_db p')"
  shows "granted dp r c dev user p"
proof -
  have "granted dp r c dev user p" if "guarded dp r c rw (p\<lparr>ps_limiters := l\<rparr>) = (rw', p')" for l
    using guarded_binds [OF _ that, of a dev user] assms by (simp add: granted_def split: call.splits option.splits)
  then show ?thesis
    using assms guarded_binds [OF assms(1) _ assms(3,4)]
    by (auto simp: serveHTTP_def Let_def split: option.splits prod.splits if_splits)
qed

section \<open>Properties\<close>

text \<open>
  C2.  Whatever requests arrive, in whatever order, whatever database calls fail, through restarts and lost
  tunnels, the tables stay well formed: keys unique, references to rows that exist, ids derived from the keys.
  Every row of the audit log is clean, and the log only ever grows at its end.
\<close>

theorem reachable_tables:
  assumes "w_db w = empty_db" and "(cp_step dp)\<^sup>*\<^sup>* (newProcess w) p" and "(cp_step dp)\<^sup>*\<^sup>* p p'"
  shows "wf_db (dp_lib dp) (ps_db p) \<and> list_all audit_row_clean (t_audit (ps_db p)) \<and>
    prefix (t_audit (ps_db p)) (t_audit (ps_db p'))"
proof -
  have p: "cp_inv (dp_lib dp) [] (ps_db p)"
    using tables.run_keeps [OF assms(2), of "[]"] cp_inv_empty assms(1) by (simp add: newProcess_def)
  then have "cp_inv (dp_lib dp) (t_audit (ps_db p)) (ps_db p)"
    by (simp add: cp_inv_def audit_inv_def)
  then have "cp_inv (dp_lib dp) (t_audit (ps_db p)) (ps_db p')"
    using tables.run_keeps [OF assms(3)] by simp
  with p show ?thesis
    by (simp add: cp_inv_def audit_inv_def)
qed

text \<open>
  C1.  Access is only ever granted.  If a step of a reachable process gives an account access to a device it did not
  have, that step served one of two requests: an enrolment signed with that device's key, while an unspent token
  of that account existed, or the redemption, in a live session of that account, of a live invite to that device
  made by one of its current admins.
\<close>

theorem access_only_granted:
  assumes inv: "cp_inv (dp_lib dp) [] (ps_db p)" and "cp_step dp p p'"
    and "\<not> boundTo dev user (ps_db p)" and "boundTo dev user (ps_db p')"
  shows "\<exists>r c rw rw'. serveHTTP dp r c rw p = (rw', p') \<and> granted dp r c dev user p"
proof -
  have un: "unbound dev user (ps_db p)" "\<not> unbound dev user (ps_db p')"
    using assms(3,4) by (simp_all add: unbound_def)
  from assms(2) show ?thesis
  proof cases
    case (request r c rw rw')
    then show ?thesis using serve_binds [OF inv _ un] by blast
  next
    case (ended t reason reg' w')
    then show ?thesis using access.end_keeps [OF un(1)] un(2) by simp
  qed (use un in \<open>simp_all add: newProcess_def\<close>)
qed

section \<open>The rate limits of the whole process\<close>

text \<open>
  What a refused client sees, and that nothing but the limiters' memory changed: no row, no mail, no tunnel, no other limiter's answer.
  A run serves requests at given instants and says of each whether it was not turned away like that.
\<close>

definition turnedAway :: "deployment \<Rightarrow> request \<Rightarrow> call \<Rightarrow> process \<Rightarrow> bool" where
  "turnedAway dp r c p \<longleftrightarrow> (case serveHTTP dp r c fresh_response p of (rw', p') \<Rightarrow>
     rw' = tooMany rateWindow fresh_response \<and> p' = p\<lparr>ps_limiters := ps_limiters p'\<rparr>)"

fun serveAll :: "deployment \<Rightarrow> (int \<times> request \<times> call) list \<Rightarrow> process \<Rightarrow> bool list" where
  "serveAll dp [] p = []"
| "serveAll dp ((t, r, c) # evs) p =
     (let p1 = p\<lparr>ps_world := (ps_world p)\<lparr>w_now := t\<rparr>\<rparr> in
      (\<not> turnedAway dp r c p1) # serveAll dp evs (snd (serveHTTP dp r c fresh_response p1)))"

text \<open>Who was let through to an endpoint, and when.\<close>

definition admissions :: "endpoint \<Rightarrow> (int \<times> request \<times> call) list \<Rightarrow> bool list \<Rightarrow> (string \<times> int) list" where
  "admissions e evs bs = map (\<lambda>((t, r, c), b). (clientIP r, t))
     (filter (\<lambda>((t, r, c), b). b \<and> endpoint_of c = e) (zip evs bs))"

definition hitsAt :: "endpoint \<Rightarrow> (int \<times> request \<times> call) list \<Rightarrow> (int \<times> string) list" where
  "hitsAt e evs = map (\<lambda>(t, r, c). (t, clientIP r)) (filter (\<lambda>(t, r, c). endpoint_of c = e) evs)"

lemma handle_limiters: "ps_limiters (snd (handle dp r c ctx rw p)) = ps_limiters p"
  by (cases c) (simp_all add: onWorld_def split: prod.splits)

lemma guarded_limiters: "ps_limiters (snd (guarded dp r c rw p)) = ps_limiters p"
  by (simp add: guarded_def withSession_def Let_def handle_limiters split: prod.splits sum.splits)

lemma serve_limiters:
  "ps_limiters (snd (serveHTTP dp r c rw p)) e =
     (if e = endpoint_of c \<and> limitOf e \<noteq> None then snd (allow (w_now (ps_world p)) (clientIP r) (ps_limiters p e))
      else ps_limiters p e)"
  by (auto simp: serveHTTP_def Let_def guarded_limiters split: option.splits prod.splits)

lemma refused_turned_away:
  assumes "limitOf (endpoint_of c) = Some n" "rl_window (ps_limiters p (endpoint_of c)) = rateWindow"
    and "\<not> fst (allow (w_now (ps_world p)) (clientIP r) (ps_limiters p (endpoint_of c)))"
  shows "turnedAway dp r c p"
  using assms by (auto simp: turnedAway_def serveHTTP_def Let_def split: prod.splits)

lemma serve_window:
  "rl_window (ps_limiters (snd (serveHTTP dp r c rw p)) e) = rl_window (ps_limiters p e)"
  by (auto simp: serve_limiters allow_def Let_def split: prod.splits)

lemma serveAll_limiter:
  assumes "limitOf e = Some n" "rl_window (ps_limiters p e) = rateWindow"
  shows "subseq (admissions e evs (serveAll dp evs p)) (granted_of (hitsAt e evs) (fst (runWith allow (ps_limiters p e) (hitsAt e evs))))"
  using assms(2)
proof (induction evs arbitrary: p)
  case (Cons ev evs)
  obtain t r c where ev: "ev = (t, r, c)" by (cases ev) auto
  let ?p1 = "p\<lparr>ps_world := (ps_world p)\<lparr>w_now := t\<rparr>\<rparr>"
  have "rl_window (ps_limiters (snd (serveHTTP dp r c fresh_response ?p1)) e) = rateWindow"
    using Cons.prems by (simp add: serve_window)
  note IH = Cons.IH [OF this, unfolded serve_limiters]
  show ?case
  proof (cases "endpoint_of c = e")
    case True
    then have "\<not> fst (allow t (clientIP r) (ps_limiters p e)) \<Longrightarrow> turnedAway dp r c ?p1"
      using refused_turned_away [of c n ?p1 r] assms(1) Cons.prems by simp
    then show ?thesis
      using True IH assms(1) ev
      by (auto simp: admissions_def hitsAt_def granted_of_def Let_def split: prod.splits)
  next
    case False
    then show ?thesis
      using IH ev by (simp add: admissions_def hitsAt_def granted_of_def Let_def)
  qed
qed (simp add: admissions_def hitsAt_def granted_of_def)

lemma granted_in_subseq: "subseq g g' \<Longrightarrow> granted_in window key s g \<le> granted_in window key s g'"
proof -
  assume sub: "subseq g g'"
  have "subseq (filter (\<lambda>(k, u). k = key \<and> s - u < window \<and> u \<le> s) g) (filter (\<lambda>(k, u). k = key \<and> s - u < window \<and> u \<le> s) g')"
    using sub by simp
  then show ?thesis unfolding granted_in_def by (rule list_emb_length)
qed

lemma rising_filter: "rising t0 evs \<Longrightarrow> rising t0 (map (\<lambda>(t, r, c). (t, clientIP r)) (filter P evs))"
proof (induction t0 evs rule: rising.induct)
  case (2 t u x evs)
  have "rising t' ys" if "rising u' ys" "t' \<le> u'" for t' u' :: int and ys :: "(int \<times> string) list"
    using that by (cases ys) auto
  then show ?case using 2 by (cases x) auto
qed simp

text \<open>
  C30.  The limits hold for the whole server.  However requests to all endpoints mix, whatever their outcome, at an
  endpoint registered with a limit at most that many requests of one client address in any window of a minute get anything but a refusal: every other
  one is answered 429 with the time to wait, and leaves the database, the mail, the tunnels and the limits of accounts exactly as they were.
  The limiters are in memory, so this is about one life of the process.
\<close>

theorem endpoint_limit_holds:
  assumes "limitOf e = Some n" and "rising t0 evs"
  shows "granted_in rateWindow key s (admissions e evs (serveAll dp evs (newProcess w))) \<le> n"
proof -
  have new: "ps_limiters (newProcess w) e = newRateLimiter n rateWindow"
    by (simp add: newProcess_def assms(1))
  then have "subseq (admissions e evs (serveAll dp evs (newProcess w)))
      (granted_of (hitsAt e evs) (fst (runWith allow (newRateLimiter n rateWindow) (hitsAt e evs))))"
    using serveAll_limiter [OF assms(1), of "newProcess w" evs dp] by (simp add: newRateLimiter_def)
  then show ?thesis
    using lim.window_bound [where limit = n and window = rateWindow, OF new_related rising_filter [OF assms(2)], of key s]
      granted_in_subseq unfolding hitsAt_def by (meson order.trans)
qed

section \<open>Concrete runs\<close>

definition demo_dp :: deployment where
  "demo_dp = \<lparr>dp_lib = toy_lib, dp_getenv = (\<lambda>_. []), dp_mailer = newMailer (\<lambda>_. []), dp_uuid_in = Some,
     dp_parseDuration = (\<lambda>_. None), dp_hop = id, dp_collector = []\<rparr>"

definition guest_world :: world where
  "guest_world = pc_world\<lparr>w_db := pc_db\<lparr>t_sessions := [\<lparr>sr_id = ''gs'', sr_account = ''guest'',
     sr_hash = hashToken toy_lib ''tok'', sr_expires = hour, sr_revoked = None, sr_agent = [], sr_ip = []\<rparr>]\<rparr>\<rparr>"

lemma guest_inv: "cp_inv toy_lib [] (w_db guest_world)"
  by (simp add: cp_inv_def audit_inv_def guest_world_def pc_defs wf_defs demo_dev_def demo_key_check enrolment_ok_def)

lemma guest_session: "sessionRows toy_lib ''tok'' (w_now guest_world) (w_db guest_world) = [(account_of guest_account, ''gs'')]"
  by (simp add: guest_world_def pc_defs sessionRows_alt session_live_def)

lemma guest_redeem:
  "\<exists>w'. redeemTx toy_lib ''guest'' ''code'' guest_world = (Inr (demo_dev, Guest), w')"
proof -
  have "audit_args_ok demo_dev ''guest'' ActionInviteRedeemed
      (AuditDetails\<lparr>ad_account := ''guest'', ad_role := ''guest''\<rparr>)"
    by (rule audit_demo) (simp_all add: validActions_def no_path_def detail_fields_def AuditDetails_def)
  note ok = appendAudit_ok [OF _ this]
  show ?thesis
    by (simp add: redeemTx_def inTx_def andThen_def stmt_ok query_ok firstRow_def inviteRow_def inviteLive_def
        activeAdmin_def boundTo_def isBinding_def useInvite_def spendInvite_def upsertBinding_def
        device_ids_def account_ids_def ok guest_world_def pc_defs)
qed

lemma allow_fresh: "0 < n \<Longrightarrow> \<exists>l'. allow t key (newRateLimiter n win) = (True, l')"
  by (simp add: allow_def newRateLimiter_def sweepLocked_def live_def hits_of_def)

lemma redeem_limit: "limitOf RedeemEP = Some 30"
  by (simp add: limitOf_def routeOf_def register_defs wrap_def bare_def pages_def)

lemma guest_run:
  "\<exists>rw' p'. serveHTTP demo_dp app_request (RedeemInvite (Some ''code'')) fresh_response (newProcess guest_world) = (rw', p') \<and>
     boundTo demo_dev ''guest'' (ps_db p')"
proof -
  obtain w' where tx: "redeemTx toy_lib ''guest'' ''code'' guest_world = (Inr (demo_dev, Guest), w')"
    using guest_redeem by blast
  have wf: "wf_db toy_lib (w_db guest_world)" using guest_inv by (simp add: cp_inv_def)
  have bound: "boundTo demo_dev ''guest'' (w_db w')"
    using redeemTx_effect [OF wf tx] by simp
  obtain l1 where l1: "allow (w_now guest_world) (clientIP app_request) (newRateLimiter 30 rateWindow) = (True, l1)"
    using allow_fresh by fastforce
  obtain l2 where l2: "allow (w_now guest_world) ''guest'' (newRateLimiter redeemAccountLimit rateWindow) = (True, l2)"
    using allow_fresh [of redeemAccountLimit] by (fastforce simp: redeemAccountLimit_def)
  have look: "lookupSession toy_lib ''tok'' guest_world = (Inr (account_of guest_account, ''gs''), guest_world)"
    by (rule lookupSession_run [OF _ guest_session]) (simp add: guest_world_def pc_defs)
  have id: "ac_id (account_of guest_account) = ''guest''" by (simp add: account_of_def guest_account_def)
  show ?thesis
    by (simp add: serveHTTP_def redeem_limit newProcess_def l1 guarded_def session_endpoints withSession_def app_token look
        demo_dp_def redeemInviteHandler_def id l2 redeemInvite_def attempt_def tx bound)
qed

theorem access_only_granted_witness:
  "\<exists>p' r c rw rw'. serveHTTP demo_dp r c rw (newProcess guest_world) = (rw', p') \<and> boundTo demo_dev ''guest'' (ps_db p') \<and>
     granted demo_dp r c demo_dev ''guest'' (newProcess guest_world)"
proof -
  obtain rw' p' where run: "serveHTTP demo_dp app_request (RedeemInvite (Some ''code'')) fresh_response (newProcess guest_world) = (rw', p')"
      and bound: "boundTo demo_dev ''guest'' (ps_db p')"
    using guest_run by blast
  have "\<not> boundTo demo_dev ''guest'' (ps_db (newProcess guest_world))"
    by (simp add: boundTo_def isBinding_def newProcess_def guest_world_def pc_defs)
  moreover have "cp_inv (dp_lib demo_dp) [] (ps_db (newProcess guest_world))"
    using guest_inv by (simp add: demo_dp_def newProcess_def)
  ultimately show ?thesis
    using access_only_granted [OF _ cp_step.request [OF run]] bound by blast
qed

theorem reachable_tables_witness:
  "\<exists>p'. (cp_step demo_dp)\<^sup>*\<^sup>* (newProcess sample_world) p' \<and> wf_db toy_lib (ps_db p') \<and> prefix [] (t_audit (ps_db p'))"
proof -
  obtain rw' p' where run: "serveHTTP demo_dp app_request (Signup (Some (''a@b.c'', ''correct horse'', []))) fresh_response (newProcess sample_world) = (rw', p')"
    by fastforce
  then have "(cp_step demo_dp)\<^sup>*\<^sup>* (newProcess sample_world) p'"
    by (blast intro: cp_step.request)
  with reachable_tables [OF _ this, of p'] show ?thesis
    by (auto simp: sample_world_def demo_dp_def)
qed

theorem endpoint_limit_holds_witness:
  "limitOf RedeemEP = Some 30 \<and> granted_in rateWindow (clientIP app_request) 9
     (admissions RedeemEP [(1, app_request, RedeemInvite None), (2, app_request, Me), (2, app_request, RedeemInvite None)]
       (serveAll demo_dp [(1, app_request, RedeemInvite None), (2, app_request, Me), (2, app_request, RedeemInvite None)]
         (newProcess sample_world))) \<le> 30"
  using endpoint_limit_holds [OF redeem_limit, of 0 "[(1, app_request, RedeemInvite None), (2, app_request, Me), (2, app_request, RedeemInvite None)]"
      "clientIP app_request" 9 demo_dp sample_world] redeem_limit
  by simp

end
