(* ===== verification/Net.thy ===== *)
theory Net
  imports Ratelimit Internal
begin

text \<open>
  What the agent uses of Go's \<^verbatim>\<open>net\<close> and \<^verbatim>\<open>unicode/utf8\<close>: IP literals (\<^verbatim>\<open>net.ParseIP\<close>, \<^verbatim>\<open>IP.IsLoopback\<close>),
  \<^verbatim>\<open>net.JoinHostPort\<close> beside \<open>splitHostPort\<close> of \<open>Ratelimit\<close>, and the runes of a byte string.  An address is
  its eight 16-bit groups, an IPv4 one in the mapped form \<^verbatim>\<open>::ffff:a.b.c.d\<close>, as \<^verbatim>\<open>net.IP\<close> keeps it.
\<close>

section \<open>IP literals\<close>

definition decField :: "string \<Rightarrow> nat option" where
  "decField s =
     (if s = [] \<or> length s > 3 \<or> \<not> list_all is_digit s \<or> (length s > 1 \<and> hd s = CHR ''0'') then None
      else let n = foldl (\<lambda>n c. 10 * n + (byte c - 48)) 0 s in if n > 255 then None else Some n)"

definition parseIPv4Fields :: "string \<Rightarrow> nat list option" where
  "parseIPv4Fields s =
     (case map decField (splitOn (CHR ''.'') s) of
        [Some a, Some b, Some c, Some d] \<Rightarrow> Some [a, b, c, d] | _ \<Rightarrow> None)"

definition groups4 :: "nat list \<Rightarrow> nat list" where
  "groups4 f = [256 * f ! 0 + f ! 1, 256 * f ! 2 + f ! 3]"

definition hexVal :: "char \<Rightarrow> nat option" where
  "hexVal c = (let b = byte c in
     if 48 \<le> b \<and> b \<le> 57 then Some (b - 48)
     else if 97 \<le> b \<and> b \<le> 102 then Some (b - 87)
     else if 65 \<le> b \<and> b \<le> 70 then Some (b - 55) else None)"

text \<open>The hexadecimal digits a field starts with, and what follows them.\<close>

definition hexField :: "string \<Rightarrow> (nat \<times> string) option" where
  "hexField s =
     (let ds = takeWhile (\<lambda>c. hexVal c \<noteq> None) s in
      if ds = [] \<or> length ds > 4 then None
      else Some (foldl (\<lambda>n c. 16 * n + the (hexVal c)) 0 ds, drop (length ds) s))"

text \<open>
  The loop of \<^verbatim>\<open>netip.parseIPv6\<close>: the groups read so far, the position of the ellipsis and the rest of the
  literal.  The first argument counts the groups that still fit.
\<close>

fun fields6 :: "nat \<Rightarrow> nat list \<Rightarrow> nat option \<Rightarrow> string \<Rightarrow> (nat list \<times> nat option) option" where
  "fields6 0 acc ell s = (if s = [] then Some (acc, ell) else None)"
| "fields6 (Suc n) acc ell s = (case hexField s of
      None \<Rightarrow> None
    | Some (g, rest) \<Rightarrow>
        if rest \<noteq> [] \<and> hd rest = CHR ''.'' then
          (if (ell = None \<and> length acc \<noteq> 6) \<or> length acc > 6 then None
           else case parseIPv4Fields s of None \<Rightarrow> None | Some f \<Rightarrow> Some (acc @ groups4 f, ell))
        else (case rest of
            [] \<Rightarrow> Some (acc @ [g], ell)
          | c # more1 \<Rightarrow>
              if c \<noteq> CHR '':'' \<or> more1 = [] then None
              else if hd more1 = CHR '':'' then
                (if ell \<noteq> None then None
                 else if tl more1 = [] then Some (acc @ [g], Some (Suc (length acc)))
                 else fields6 n (acc @ [g]) (Some (Suc (length acc))) (tl more1))
              else fields6 n (acc @ [g]) ell more1))"

definition expand6 :: "nat list \<times> nat option \<Rightarrow> nat list option" where
  "expand6 r = (case r of (gs, ell) \<Rightarrow>
     if length gs < 8 then (case ell of None \<Rightarrow> None
        | Some k \<Rightarrow> Some (take k gs @ replicate (8 - length gs) 0 @ drop k gs))
     else if ell \<noteq> None then None else Some gs)"

definition parseIPv6 :: "string \<Rightarrow> nat list option" where
  "parseIPv6 s =
     (if hasPrefix s ''::'' then
        (if drop 2 s = [] then Some (replicate 8 0)
         else case fields6 8 [] (Some 0) (drop 2 s) of None \<Rightarrow> None | Some r \<Rightarrow> expand6 r)
      else case fields6 8 [] None s of None \<Rightarrow> None | Some r \<Rightarrow> expand6 r)"

definition parseIP :: "string \<Rightarrow> nat list option" where
  "parseIP s =
     (case find (\<lambda>c. c \<in> {CHR ''.'', CHR '':'', CHR ''%''}) s of
        None \<Rightarrow> None
      | Some c \<Rightarrow>
          if c = CHR ''.'' then (case parseIPv4Fields s of None \<Rightarrow> None | Some f \<Rightarrow> Some ([0, 0, 0, 0, 0, 65535] @ groups4 f))
          else if c = CHR '':'' \<and> CHR ''%'' \<notin> set s then parseIPv6 s
          else None)"

text \<open>\<^verbatim>\<open>127.0.0.0/8\<close> in the mapped form, and \<^verbatim>\<open>::1\<close>.\<close>

definition isLoopback :: "nat list \<Rightarrow> bool" where
  "isLoopback gs \<longleftrightarrow> (take 6 gs = [0, 0, 0, 0, 0, 65535] \<and> gs ! 6 div 256 = 127) \<or> gs = [0, 0, 0, 0, 0, 0, 0, 1]"

definition loopbackLiteral :: "string \<Rightarrow> bool" where
  "loopbackLiteral s = (case parseIP s of None \<Rightarrow> False | Some gs \<Rightarrow> isLoopback gs)"

definition joinHostPort :: "string \<Rightarrow> string \<Rightarrow> string" where
  "joinHostPort host port = (if CHR '':'' \<in> set host then ''['' @ host @ '']:'' @ port else host @ '':'' @ port)"

section \<open>Runes\<close>

definition cont :: "nat \<Rightarrow> nat \<Rightarrow> nat \<Rightarrow> string \<Rightarrow> bool" where
  "cont k lo hi s \<longleftrightarrow> k < length s \<and> lo \<le> byte (s ! k) \<and> byte (s ! k) \<le> hi"

text \<open>\<^verbatim>\<open>utf8.DecodeRune\<close>: how many bytes the first rune takes, one for a byte that starts none.\<close>

definition runeLen :: "string \<Rightarrow> nat" where
  "runeLen s =
     (let b = byte (hd s) in
      if 194 \<le> b \<and> b \<le> 223 \<and> cont 1 128 191 s then 2
      else if (b = 224 \<and> cont 1 160 191 s \<or> b = 237 \<and> cont 1 128 159 s \<or>
               225 \<le> b \<and> b \<le> 239 \<and> b \<noteq> 237 \<and> cont 1 128 191 s) \<and> cont 2 128 191 s then 3
      else if (b = 240 \<and> cont 1 144 191 s \<or> 241 \<le> b \<and> b \<le> 243 \<and> cont 1 128 191 s \<or> b = 244 \<and> cont 1 128 143 s)
              \<and> cont 2 128 191 s \<and> cont 3 128 191 s then 4
      else 1)"

lemma runeLen_pos: "0 < runeLen s"
  by (simp add: runeLen_def Let_def)

function runes :: "string \<Rightarrow> string list" where
  "runes [] = []"
| "runes (c # s) = take (runeLen (c # s)) (c # s) # runes (drop (runeLen (c # s)) (c # s))"
  by pat_completeness auto

termination runes
  by (relation "measure length") (use runeLen_pos in \<open>auto simp: Suc_diff_le diff_less_Suc\<close>)

section \<open>Facts\<close>

lemma splitHostPort_join:
  assumes "CHR '':'' \<notin> set host" "CHR ''['' \<notin> set host" "CHR '']'' \<notin> set host"
    and "CHR '':'' \<notin> set port" "CHR ''['' \<notin> set port" "CHR '']'' \<notin> set port"
  shows "splitHostPort (joinHostPort host port) = Some (host, port)"
proof -
  have "cutAt (CHR '':'') (rev port @ CHR '':'' # rev host) = (rev port, rev host, True)"
    by (rule cutAt_append) (use assms(4) in simp)
  moreover have "rev (joinHostPort host port) = rev port @ CHR '':'' # rev host"
    using assms(1) by (simp add: joinHostPort_def)
  moreover have "hd host \<noteq> CHR ''['' \<or> host = []"
    using assms(2) by (cases host) auto
  ultimately have "splitHostPort (joinHostPort host port) =
      (if host \<noteq> [] \<and> hd host = CHR ''['' then None else if CHR ''['' \<in> set (joinHostPort host port) \<or> CHR '']'' \<in> set (joinHostPort host port)
       then None else Some (host, port))"
    using assms(1) unfolding splitHostPort_def by auto
  moreover have "CHR ''['' \<notin> set (joinHostPort host port)" "CHR '']'' \<notin> set (joinHostPort host port)"
    using assms by (simp_all add: joinHostPort_def)
  ultimately show ?thesis
    using \<open>hd host \<noteq> CHR ''['' \<or> host = []\<close> by auto
qed

lemma runes_concat: "concat (runes s) = s"
  by (induction s rule: runes.induct) (simp, metis append_take_drop_id concat.simps(2) runes.simps(2))

lemma loopback_literals: "loopbackLiteral ''127.0.0.1''" "\<not> loopbackLiteral ''192.168.1.4''"
    "\<not> loopbackLiteral ''127.0.0.01''" "\<not> loopbackLiteral ''localhost''"
  by (simp_all add: loopbackLiteral_def parseIP_def parseIPv4Fields_def decField_def is_digit_def byte_def groups4_def
      isLoopback_def)

lemma loopback_v6: "loopbackLiteral ''::1''"
proof -
  have "fields6 8 [] (Some 0) ''1'' = Some ([1], Some 0)"
    using fields6.simps(2) [of 7 "[]" "Some 0" "''1''"] by (simp add: hexField_def hexVal_def byte_def)
  moreover have "replicate 7 (0 :: nat) = [0, 0, 0, 0, 0, 0, 0]"
    by (simp add: numeral_eq_Suc)
  ultimately show ?thesis
    by (simp add: loopbackLiteral_def parseIP_def parseIPv6_def hasPrefix_def expand6_def isLoopback_def)
qed

end
