(* ===== verification/AgentState.thy ===== *)
theory AgentState
  imports Net
begin

text \<open>
  \<^verbatim>\<open>device/agent/state.go\<close> and \<^verbatim>\<open>cleanServerURL\<close> of \<^verbatim>\<open>enrol.go\<close>: the application registry a PC keeps in
  \<^verbatim>\<open>agent.json\<close>, what makes it valid, and reading and writing it.  \<^verbatim>\<open>url.Parse\<close> and the JSON codec are
  arguments; an error is a constructor, whose text only a person reads.  A call on the file may fail, and a failed
  write may leave the beginning of what was to be written, because \<^verbatim>\<open>os.WriteFile\<close> truncates first.
\<close>

section \<open>The registry\<close>

record app =
  app_name :: string
  app_type :: string
  app_address :: string
  app_command :: "string list"

record state =
  st_name :: string
  st_server :: string
  st_deviceID :: string
  st_apps :: "app list"
  st_reportsOff :: bool

definition enrolled :: "state \<Rightarrow> bool" where
  "enrolled s \<longleftrightarrow> st_server s \<noteq> [] \<and> st_deviceID s \<noteq> []"

definition appNames :: "app list \<Rightarrow> string list" where
  "appNames apps = map app_name apps"

definition stateMaxApps :: nat where "stateMaxApps = 32"
definition maxInstanceName :: nat where "maxInstanceName = 63"
definition instanceIDLen :: nat where "instanceIDLen = 8"
definition maxDeviceName :: nat where "maxDeviceName = maxInstanceName - instanceIDLen - 1"

definition deviceIDPattern :: "string \<Rightarrow> bool" where
  "deviceIDPattern s \<longleftrightarrow> length s = 64 \<and> list_all is_lower_hex s"

datatype aerr =
    NoServer | BadURL | WrongScheme | NoHost | HasPath
  | NameEmpty | NameLong nat | TooManyApps nat | BadDeviceID
  | BadAppName string | BadAppType string | AppTwice string | NoAddress string | BadAddress string
  | NoProgram string | NotLoopback string
  | NoDirectory | BadPath | NotDirectory | NameTaken string | NoPort | NotShared string
  | ReadFailed | WriteFailed | BadFile
  | NoToken | WrongDevice | NoAnswer | ServerError nat string | BadAnswer | NoCode | AlreadyEnrolled | TimedOut

record url =
  u_scheme :: string
  u_host :: string
  u_path :: string
  u_query :: string
  u_fragment :: string

definition cleanServerURL :: "(string \<Rightarrow> url option) \<Rightarrow> string \<Rightarrow> aerr + string" where
  "cleanServerURL urlParse raw0 =
     (let raw = trimSpace raw0 in
      if raw = [] then Inl NoServer
      else case urlParse (trimRight (CHR ''/'') raw) of
        None \<Rightarrow> Inl BadURL
      | Some u \<Rightarrow>
          if u_scheme u \<noteq> ''http'' \<and> u_scheme u \<noteq> ''https'' then Inl WrongScheme
          else if u_host u = [] then Inl NoHost
          else if u_path u \<noteq> [] \<or> u_query u \<noteq> [] \<or> u_fragment u \<noteq> [] then Inl HasPath
          else Inr (u_scheme u @ ''://'' @ u_host u))"

text \<open>The loop over the applications; \<open>seen\<close> holds the names so far.\<close>

fun validateApps :: "string list \<Rightarrow> app list \<Rightarrow> aerr option" where
  "validateApps seen [] = None"
| "validateApps seen (a # apps) =
     (if \<not> appname_Valid (app_name a) then Some (BadAppName (app_name a))
      else if \<not> appname_Valid (app_type a) then Some (BadAppType (app_name a))
      else if app_name a \<in> set seen then Some (AppTwice (app_name a))
      else if app_address a = [] then Some (NoAddress (app_name a))
      else case splitHostPort (app_address a) of
        None \<Rightarrow> Some (BadAddress (app_name a))
      | Some (host, _) \<Rightarrow>
          if app_command a \<noteq> [] \<and> hd (app_command a) = [] then Some (NoProgram (app_name a))
          else if app_command a \<noteq> [] \<and> \<not> loopbackLiteral host then Some (NotLoopback (app_name a))
          else validateApps (app_name a # seen) apps)"

definition validate :: "(string \<Rightarrow> url option) \<Rightarrow> state \<Rightarrow> aerr option" where
  "validate urlParse s =
     (if st_name s = [] then Some NameEmpty
      else if length (st_name s) > maxDeviceName then Some (NameLong (length (st_name s)))
      else if length (st_apps s) > stateMaxApps then Some (TooManyApps (length (st_apps s)))
      else case (if st_server s \<noteq> [] then cleanServerURL urlParse (st_server s) else Inr []) of
        Inl e \<Rightarrow> Some e
      | Inr _ \<Rightarrow>
          if st_deviceID s \<noteq> [] \<and> \<not> deviceIDPattern (st_deviceID s) then Some BadDeviceID
          else validateApps [] (st_apps s))"

definition defaultDeviceName :: "string option \<Rightarrow> string" where
  "defaultDeviceName hostname = (case hostname of
      None \<Rightarrow> ''pc''
    | Some name \<Rightarrow> if name = [] then ''pc'' else if length name > maxDeviceName then take maxDeviceName name else name)"

section \<open>The file\<close>

text \<open>How a call on the file ends: it works, it fails before touching the file, or it leaves a prefix.\<close>

datatype fileOp = Works | Fails | Truncates nat

record disk =
  dk_file :: "string option"
  dk_ops :: "fileOp list"

definition nextOp :: "disk \<Rightarrow> fileOp \<times> disk" where
  "nextOp d = (case dk_ops d of [] \<Rightarrow> (Works, d) | x # xs \<Rightarrow> (x, d\<lparr>dk_ops := xs\<rparr>))"

record codec =
  cd_encode :: "state \<Rightarrow> string"
  cd_decode :: "string \<Rightarrow> state option"

definition saveState :: "codec \<Rightarrow> state \<Rightarrow> disk \<Rightarrow> aerr option \<times> disk" where
  "saveState cd s d = (case nextOp d of
      (Works, d') \<Rightarrow> (None, d'\<lparr>dk_file := Some (cd_encode cd s @ [newline])\<rparr>)
    | (Fails, d') \<Rightarrow> (Some WriteFailed, d')
    | (Truncates n, d') \<Rightarrow> (Some WriteFailed, d'\<lparr>dk_file := Some (take n (cd_encode cd s @ [newline]))\<rparr>))"

definition loadState ::
  "(string \<Rightarrow> url option) \<Rightarrow> codec \<Rightarrow> string option \<Rightarrow> disk \<Rightarrow> (aerr + state) \<times> disk" where
  "loadState urlParse cd hostname d0 = (case nextOp d0 of
      (Works, d) \<Rightarrow> (case dk_file d of
          None \<Rightarrow>
            let s = \<lparr>st_name = defaultDeviceName hostname, st_server = [], st_deviceID = [], st_apps = [], st_reportsOff = False\<rparr> in
            (case saveState cd s d of (None, d') \<Rightarrow> (Inr s, d') | (Some e, d') \<Rightarrow> (Inl e, d'))
        | Some raw \<Rightarrow> (case cd_decode cd raw of
            None \<Rightarrow> (Inl BadFile, d)
          | Some s \<Rightarrow> (case validate urlParse s of Some e \<Rightarrow> (Inl e, d) | None \<Rightarrow> (Inr s, d))))
    | (_, d) \<Rightarrow> (Inl ReadFailed, d))"

section \<open>What a valid registry is\<close>

definition app_ok :: "app \<Rightarrow> bool" where
  "app_ok a \<longleftrightarrow> appname_Valid (app_name a) \<and> appname_Valid (app_type a) \<and>
     (\<exists>host port. splitHostPort (app_address a) = Some (host, port) \<and>
        (app_command a \<noteq> [] \<longrightarrow> hd (app_command a) \<noteq> [] \<and> loopbackLiteral host))"

definition state_ok :: "(string \<Rightarrow> url option) \<Rightarrow> state \<Rightarrow> bool" where
  "state_ok urlParse s \<longleftrightarrow> st_name s \<noteq> [] \<and> length (st_name s) \<le> maxDeviceName \<and>
     length (st_apps s) \<le> stateMaxApps \<and>
     (st_server s \<noteq> [] \<longrightarrow> (\<exists>o1. cleanServerURL urlParse (st_server s) = Inr o1)) \<and>
     (st_deviceID s \<noteq> [] \<longrightarrow> deviceIDPattern (st_deviceID s)) \<and>
     distinct (appNames (st_apps s)) \<and> list_all app_ok (st_apps s)"

lemma splitHostPort_Nil [simp]: "splitHostPort [] = None"
  by (simp add: splitHostPort_def cutAt_def)

lemma validateApps_iff:
  "validateApps seen apps = None \<longleftrightarrow>
     list_all app_ok apps \<and> distinct (appNames apps) \<and> set (appNames apps) \<inter> set seen = {}"
proof (induction apps arbitrary: seen)
  case (Cons a apps)
  have "validateApps seen (a # apps) = None \<longleftrightarrow>
      app_ok a \<and> app_name a \<notin> set seen \<and> validateApps (app_name a # seen) apps = None"
    by (auto simp: app_ok_def split: option.splits if_splits)
  then show ?case
    using Cons.IH [of "app_name a # seen"] by (auto simp: appNames_def)
qed (simp add: appNames_def)

lemma validate_iff: "validate urlParse s = None \<longleftrightarrow> state_ok urlParse s"
  by (auto simp: validate_def state_ok_def validateApps_iff split: sum.splits)

lemma defaultDeviceName_ok: "defaultDeviceName h \<noteq> [] \<and> length (defaultDeviceName h) \<le> maxDeviceName"
  by (auto simp: defaultDeviceName_def maxDeviceName_def maxInstanceName_def instanceIDLen_def split: option.splits)

lemma loadState_valid: "loadState urlParse cd hostname d = (Inr s, d') \<Longrightarrow> state_ok urlParse s"
  using defaultDeviceName_ok [of hostname]
  by (auto simp: loadState_def nextOp_def saveState_def Let_def state_ok_def appNames_def stateMaxApps_def
      validate_iff split: list.splits fileOp.splits option.splits prod.splits)

text \<open>
  Only a valid registry is ever loaded.  Whatever is in the file, a state that \<^const>\<open>loadState\<close> returns has a
  name that fits the LAN, at most 32 applications with distinct legal names, a legal server and device id, and every
  application the agent starts itself listens on loopback; a PC with no file gets such a state and the file.
\<close>

theorem loaded_state_valid:
  assumes "loadState urlParse cd hostname d = (Inr s, d')"
  shows "state_ok urlParse s \<and>
    (dk_file d = None \<longrightarrow> st_apps s = [] \<and> \<not> enrolled s \<and> dk_file d' = Some (cd_encode cd s @ [newline])) \<and>
    (dk_file d \<noteq> None \<longrightarrow> dk_file d' = dk_file d)"
  using assms defaultDeviceName_ok [of hostname]
  by (auto simp: loadState_def nextOp_def saveState_def Let_def enrolled_def state_ok_def appNames_def stateMaxApps_def
      validate_iff split: list.splits fileOp.splits option.splits prod.splits)

text \<open>
  What is saved is what is loaded: a codec that reads back what it writes gives back every valid state, and a
  state that was not valid is refused on the next start.
\<close>

theorem save_then_load:
  assumes codec: "\<And>s. cd_decode cd (cd_encode cd s @ [newline]) = Some s"
    and save: "saveState cd s d = (None, d')" and "dk_ops d' = []"
  shows "loadState urlParse cd hostname d' = (case validate urlParse s of None \<Rightarrow> (Inr s, d') | Some e \<Rightarrow> (Inl e, d'))"
proof -
  have saved: "dk_file d' = Some (cd_encode cd s @ [newline])"
    using save by (auto simp: saveState_def split: prod.splits fileOp.splits)
  then show ?thesis
    using assms(3) codec [of s] by (simp add: loadState_def nextOp_def split: option.splits)
qed

end
