(* ===== verification/AgentShares.thy ===== *)
theory AgentShares
  imports AgentState
begin

text \<open>
  What a person does to the list of shared folders: \<^verbatim>\<open>newShare\<close>, \<^verbatim>\<open>shareName\<close>, \<^verbatim>\<open>sharedPath\<close> and \<^verbatim>\<open>newer\<close> of
  \<^verbatim>\<open>settings.go\<close>, \<^verbatim>\<open>withFreePort\<close> of \<^verbatim>\<open>ports.go\<close>, and the offline half of \<^verbatim>\<open>share.go\<close>.  The file system and the free
  port the OS hands out are arguments.
\<close>

section \<open>Shares\<close>

record share =
  sh_name :: string
  sh_address :: string
  sh_path :: string

record osenv =
  os_abs :: "string \<Rightarrow> string option"
  os_isDir :: "string \<Rightarrow> bool option"
  os_base :: "string \<Rightarrow> string"

definition dufsProgram :: string where "dufsProgram = ''dufs''"

definition sharedPath :: "osenv \<Rightarrow> app \<Rightarrow> string" where
  "sharedPath os a =
     (if length (app_command a) \<ge> 2 \<and> os_base os (app_command a ! 0) = dufsProgram then app_command a ! 1 else [])"

definition shareOf :: "osenv \<Rightarrow> app \<Rightarrow> share" where
  "shareOf os a = \<lparr>sh_name = app_name a, sh_address = app_address a, sh_path = sharedPath os a\<rparr>"

definition shares :: "osenv \<Rightarrow> app list \<Rightarrow> share list" where
  "shares os apps = map (shareOf os) apps"

text \<open>The builder loop of \<^verbatim>\<open>shareName\<close>, rune by rune.\<close>

fun slug :: "string list \<Rightarrow> string \<Rightarrow> string" where
  "slug [] b = b"
| "slug (r # rs) b =
     (if length r = 1 \<and> name_start (hd r) then slug rs (b @ r)
      else if b \<noteq> [] then slug rs (b @ ''-'')
      else slug rs b)"

text \<open>The loop that counts up to a free name; the first argument bounds the rounds.\<close>

fun nameLoop :: "nat \<Rightarrow> nat \<Rightarrow> string \<Rightarrow> string \<Rightarrow> string list \<Rightarrow> string option" where
  "nameLoop 0 i name base used = None"
| "nameLoop (Suc n) i name base used =
     (if name \<in> set used then nameLoop n (i + 1) (base @ ''-'' @ itoa i) base used else Some name)"

definition shareBase :: "golib \<Rightarrow> string \<Rightarrow> string" where
  "shareBase lib dirBase =
     (let base = trimCut {CHR ''-''} (slug (runes (toLower lib dirBase)) []);
          short = (if length base > MaxLen - 3 then take (MaxLen - 3) base else base)
      in if short = [] then ''share'' else short)"

definition shareName :: "golib \<Rightarrow> string \<Rightarrow> app list \<Rightarrow> string option" where
  "shareName lib dirBase taken =
     (let base = shareBase lib dirBase in nameLoop (Suc (length taken)) 2 base base (appNames taken))"

definition newShare :: "golib \<Rightarrow> osenv \<Rightarrow> nat option \<Rightarrow> string \<Rightarrow> string \<Rightarrow> app list \<Rightarrow> aerr + app" where
  "newShare lib os freePort dir0 name0 taken =
     (if trimSpace dir0 = [] then Inl NoDirectory
      else case os_abs os dir0 of None \<Rightarrow> Inl BadPath
      | Some dir \<Rightarrow> (case os_isDir os dir of
          None \<Rightarrow> Inl BadPath
        | Some False \<Rightarrow> Inl NotDirectory
        | Some True \<Rightarrow>
            let name = (if name0 = [] then (case shareName lib (os_base os dir) taken of Some n \<Rightarrow> n | None \<Rightarrow> []) else name0) in
            if \<not> appname_Valid name then Inl (BadAppName name)
            else if list_ex (\<lambda>a. app_name a = name) taken then Inl (NameTaken name)
            else (case freePort of None \<Rightarrow> Inl NoPort
              | Some p \<Rightarrow> Inr \<lparr>app_name = name, app_type = ''http'', app_address = joinHostPort ''127.0.0.1'' (itoa p),
                  app_command = [dufsProgram, dir, ''--bind'', ''127.0.0.1'', ''--port'', itoa p,
                    ''--path-prefix'', ''/'' @ name, ''--allow-all'']\<rparr>)))"

text \<open>How listening on an address ends, for \<^verbatim>\<open>withFreePort\<close>.\<close>

datatype listening = Listens | InUse | CannotListen

fun indexOf :: "'a \<Rightarrow> 'a list \<Rightarrow> nat option" where
  "indexOf x [] = None"
| "indexOf x (y # ys) = (if x = y then Some 0 else map_option Suc (indexOf x ys))"

definition withFreePort :: "(string \<Rightarrow> listening) \<Rightarrow> nat option \<Rightarrow> app \<Rightarrow> app \<times> bool" where
  "withFreePort listen freePort a = (case indexOf ''--port'' (app_command a) of
      None \<Rightarrow> (a, False)
    | Some i \<Rightarrow>
        if i + 1 \<ge> length (app_command a) then (a, False)
        else if listen (app_address a) \<noteq> InUse then (a, False)
        else (case splitHostPort (app_address a) of
            None \<Rightarrow> (a, False)
          | Some (host, _) \<Rightarrow> (case freePort of
              None \<Rightarrow> (a, False)
            | Some p \<Rightarrow> (a\<lparr>app_command := (app_command a)[i + 1 := itoa p], app_address := joinHostPort host (itoa p)\<rparr>, True))))"

section \<open>The command line\<close>

fun flagsFirst_loop :: "string list \<Rightarrow> string list \<Rightarrow> string list \<Rightarrow> string list" where
  "flagsFirst_loop [] flags rest = flags @ rest"
| "flagsFirst_loop (a # args) flags rest =
     (if \<not> hasPrefix a ''-'' then flagsFirst_loop args flags (rest @ [a])
      else if CHR ''='' \<notin> set a then (case args of
          [] \<Rightarrow> flagsFirst_loop [] (flags @ [a]) rest
        | v # args' \<Rightarrow> flagsFirst_loop args' (flags @ [a, v]) rest)
      else flagsFirst_loop args (flags @ [a]) rest)"

definition flagsFirst :: "string list \<Rightarrow> string list" where
  "flagsFirst args = flagsFirst_loop args [] []"

definition addShareOffline ::
  "(string \<Rightarrow> url option) \<Rightarrow> codec \<Rightarrow> string option \<Rightarrow> golib \<Rightarrow> osenv \<Rightarrow> nat option \<Rightarrow> string \<Rightarrow> string \<Rightarrow> disk \<Rightarrow> (aerr + share) \<times> disk" where
  "addShareOffline urlParse cd hostname lib os freePort dir name d = (case loadState urlParse cd hostname d of
      (Inl e, d1) \<Rightarrow> (Inl e, d1)
    | (Inr st, d1) \<Rightarrow> (case newShare lib os freePort dir name (st_apps st) of
        Inl e \<Rightarrow> (Inl e, d1)
      | Inr a \<Rightarrow>
          let st' = st\<lparr>st_apps := st_apps st @ [a]\<rparr> in
          (case validate urlParse st' of Some e \<Rightarrow> (Inl e, d1)
           | None \<Rightarrow> (case saveState cd st' d1 of (Some e, d2) \<Rightarrow> (Inl e, d2) | (None, d2) \<Rightarrow> (Inr (shareOf os a), d2)))))"

definition removeShareOffline ::
  "(string \<Rightarrow> url option) \<Rightarrow> codec \<Rightarrow> string option \<Rightarrow> string \<Rightarrow> disk \<Rightarrow> aerr option \<times> disk" where
  "removeShareOffline urlParse cd hostname name d = (case loadState urlParse cd hostname d of
      (Inl e, d1) \<Rightarrow> (Some e, d1)
    | (Inr st, d1) \<Rightarrow>
        let kept = filter (\<lambda>a. app_name a \<noteq> name) (st_apps st) in
        if length kept = length (st_apps st) then (Some (NotShared name), d1)
        else saveState cd (st\<lparr>st_apps := kept\<rparr>) d1)"

section \<open>Release numbers\<close>

definition parseVersion :: "string \<Rightarrow> int list option" where
  "parseVersion v =
     (let parts = splitOn (CHR ''.'') v in
      if length parts \<noteq> 3 then None
      else let ns = map parseInt parts in
        if list_ex (\<lambda>n. n = None \<or> the n < 0) ns then None else Some (map the ns))"

fun compareInts :: "int list \<Rightarrow> int list \<Rightarrow> int" where
  "compareInts [] [] = 0"
| "compareInts [] (y # ys) = -1"
| "compareInts (x # xs) [] = 1"
| "compareInts (x # xs) (y # ys) = (if x < y then -1 else if x > y then 1 else compareInts xs ys)"

definition newer :: "string \<Rightarrow> string \<Rightarrow> bool" where
  "newer a b = (case (parseVersion a, parseVersion b) of (Some x, Some y) \<Rightarrow> compareInts x y > 0 | _ \<Rightarrow> False)"

section \<open>A name for a folder\<close>

lemma nameLoop_None:
  "nameLoop n i name base used = None \<Longrightarrow> 0 < n \<Longrightarrow>
   name \<in> set used \<and> (\<forall>k. i \<le> k \<and> k + 1 < i + n \<longrightarrow> base @ ''-'' @ itoa k \<in> set used)"
proof (induction n i name base used rule: nameLoop.induct)
  case (2 n i name base used)
  then have name: "name \<in> set used" and rest: "nameLoop n (i + 1) (base @ ''-'' @ itoa i) base used = None"
    by (auto split: if_splits)
  have "base @ ''-'' @ itoa k \<in> set used" if k: "i \<le> k" "k + 1 < i + Suc n" for k
  proof (cases "k = i")
    case True
    then show ?thesis using "2.IH" [OF name rest] k by auto
  next
    case False
    then show ?thesis using "2.IH" [OF name rest] k by auto
  qed
  then show ?case using name by blast
qed simp

lemma nameLoop_Some:
  "nameLoop n i name base used = Some m \<Longrightarrow>
   m \<notin> set used \<and> (m = name \<or> (\<exists>k. i \<le> k \<and> k + 1 < i + n \<and> m = base @ ''-'' @ itoa k))"
proof (induction n i name base used rule: nameLoop.induct)
  case (2 n i name base used)
  show ?case
  proof (cases "name \<in> set used")
    case True
    then have "m \<notin> set used \<and> (m = base @ ''-'' @ itoa i \<or> (\<exists>k. i + 1 \<le> k \<and> k + 1 < i + 1 + n \<and> m = base @ ''-'' @ itoa k))" and "0 < n"
      using 2 by (auto intro: gr0I)
    then show ?thesis
      by (metis add.commute add_Suc_right add_leD1 le_refl less_add_same_cancel1 not_less_eq plus_1_eq_Suc Suc_less_eq)
  qed (use 2 in simp)
qed simp

lemma nameLoop_total:
  assumes "length used < n"
  shows "nameLoop n i base base used \<noteq> None"
proof
  assume none: "nameLoop n i base base used = None"
  let ?f = "\<lambda>k. base @ ''-'' @ itoa k"
  have sub: "insert base (?f ` {i..<i + n - 1}) \<subseteq> set used"
    using nameLoop_None [OF none] assms by auto
  have "base \<notin> ?f ` {i..<i + n - 1}" by auto
  moreover have "inj_on ?f {i..<i + n - 1}" by (auto simp: inj_on_def)
  ultimately have "card (insert base (?f ` {i..<i + n - 1})) = n"
    using assms by (simp add: card_image)
  then have "n \<le> card (set used)" using card_mono [OF _ sub] by simp
  also have "\<dots> \<le> length used" by (rule card_length)
  finally show False using assms by simp
qed

lemma itoa_short: "k < 100 \<Longrightarrow> length (itoa k) \<le> 2"
  by (subst itoa.simps) (subst itoa.simps, simp add: less_mult_imp_div_less)

lemma slug_pattern: "b = [] \<or> pattern b \<Longrightarrow> slug rs b = [] \<or> pattern (slug rs b)"
proof (induction rs b rule: slug.induct)
  case (2 r rs b)
  have one: "r = [hd r]" if "length r = 1" using that by (cases r) auto
  have "pattern (b @ r)" if "length r = 1" "name_start (hd r)"
    using 2(4) that one by (cases "b = []") (auto simp: pattern_iff name_char_def, (metis list.set_intros(1) set_ConsD list.set(1) empty_iff)+)
  moreover have "pattern (b @ ''-'')" if "b \<noteq> []"
    using 2(4) that by (auto simp: pattern_iff name_char_def)
  ultimately show ?case using 2 by auto
qed simp

lemma pattern_prefix: "pattern s \<Longrightarrow> prefix t s \<Longrightarrow> t \<noteq> [] \<Longrightarrow> pattern t"
  by (auto simp: pattern_iff prefix_def)

lemma trimCut_prefix:
  assumes "s = [] \<or> hd s \<notin> cs"
  shows "prefix (trimCut cs s) s"
proof -
  have "dropWhile (\<lambda>c. c \<in> cs) s = s" using assms by (cases s) auto
  then show ?thesis
    by (simp add: trimCut_def) (metis rev_rev_ident suffix_dropWhile suffix_to_prefix)
qed

lemma shareBase_ok: "pattern (shareBase lib d) \<and> length (shareBase lib d) \<le> MaxLen - 3"
proof -
  let ?s = "slug (runes (toLower lib d)) []"
  let ?b = "trimCut {CHR ''-''} ?s"
  have p: "?s = [] \<or> pattern ?s" by (rule slug_pattern) simp
  have dash: "\<not> name_start (CHR ''-'')" by (simp add: name_start_def is_lower_letter_def is_digit_def byte_def)
  have "?s = [] \<or> hd ?s \<notin> {CHR ''-''}"
    using p dash by (auto simp: pattern_iff)
  from trimCut_prefix [OF this] have pre: "prefix ?b ?s" .
  have "take (MaxLen - 3) ?b = [] \<or> pattern (take (MaxLen - 3) ?b)" "?b = [] \<or> pattern ?b"
    using p pre pattern_prefix prefix_order.trans [OF take_is_prefix pre] by (metis prefix_bot.extremum_uniqueI)+
  moreover have "pattern ''share''"
    by (simp add: pattern_def name_char_def name_start_def is_lower_letter_def byte_def)
  ultimately show ?thesis
    by (auto simp: shareBase_def Let_def MaxLen_def)
qed

lemma shareName_usable:
  assumes "length taken < 98"
  shows "\<exists>n. shareName lib d taken = Some n \<and> appname_Valid n \<and> n \<notin> set (appNames taken)"
proof -
  let ?b = "shareBase lib d"
  have "nameLoop (Suc (length taken)) 2 ?b ?b (appNames taken) \<noteq> None"
    by (rule nameLoop_total) (simp add: appNames_def)
  then obtain n where n: "nameLoop (Suc (length taken)) 2 ?b ?b (appNames taken) = Some n" by blast
  from nameLoop_Some [OF n] have free: "n \<notin> set (appNames taken)"
    and shape: "n = ?b \<or> (\<exists>k. k < 100 \<and> n = ?b @ ''-'' @ itoa k)"
    using assms by auto
  have "pattern (?b @ ''-'' @ itoa k)" for k
    using shareBase_ok [of lib d] itoa_digits [of _ k] by (auto simp: pattern_iff name_char_def name_start_def)
  then have "appname_Valid n"
    using shape shareBase_ok [of lib d] itoa_short by (fastforce simp: appname_Valid_def MaxLen_def)
  then show ?thesis using n free by (auto simp: shareName_def Let_def)
qed

section \<open>What a share is\<close>

lemma digits_no_special: "is_digit c \<Longrightarrow> c \<noteq> CHR '':'' \<and> c \<noteq> CHR ''['' \<and> c \<noteq> CHR '']''"
  by (auto simp: is_digit_def byte_def)

lemma itoa_no_special: "CHR '':'' \<notin> set (itoa p)" "CHR ''['' \<notin> set (itoa p)" "CHR '']'' \<notin> set (itoa p)"
  using itoa_digits [of _ p] digits_no_special by blast+

lemma newShare_ok:
  assumes "newShare lib os fp dir name taken = Inr a"
  shows "app_ok a \<and> app_name a \<notin> set (appNames taken) \<and> app_command a \<noteq> []"
proof -
  obtain p where p: "fp = Some p"
    using assms by (cases fp) (auto simp: newShare_def Let_def split: if_splits option.splits bool.splits)
  have a: "app_address a = joinHostPort ''127.0.0.1'' (itoa p)" "app_type a = ''http''"
      "app_command a \<noteq> []" "hd (app_command a) = dufsProgram"
      "appname_Valid (app_name a)" "app_name a \<notin> set (appNames taken)"
    using assms p unfolding newShare_def Let_def
    by (auto simp: appNames_def list_ex_iff split: if_splits option.splits bool.splits)
  have "splitHostPort (app_address a) = Some (''127.0.0.1'', itoa p)"
    unfolding a(1) by (rule splitHostPort_join) (simp_all add: itoa_no_special)
  moreover have "appname_Valid ''http''"
    by (simp add: appname_Valid_def pattern_def MaxLen_def name_char_def name_start_def is_lower_letter_def byte_def)
  ultimately show ?thesis
    using a loopback_literals(1) by (simp add: app_ok_def dufsProgram_def)
qed

lemma sharing_a_folder:
  assumes ok: "state_ok urlParse st" and room: "length (st_apps st) < stateMaxApps"
    and dir: "trimSpace dir \<noteq> []" "os_abs os dir = Some path" "os_isDir os path = Some True"
  shows "\<exists>a. newShare lib os (Some p) dir [] (st_apps st) = Inr a \<and> app_ok a \<and>
    app_name a \<notin> set (appNames (st_apps st)) \<and> state_ok urlParse (st\<lparr>st_apps := st_apps st @ [a]\<rparr>) \<and>
    app_address a = ''127.0.0.1:'' @ itoa p \<and> app_command a ! 1 = path \<and> app_command a ! 5 = itoa p \<and>
    app_command a ! 7 = ''/'' @ app_name a"
proof -
  obtain n where n: "shareName lib (os_base os path) (st_apps st) = Some n" "appname_Valid n" "n \<notin> set (appNames (st_apps st))"
    using shareName_usable [of "st_apps st"] room by (auto simp: stateMaxApps_def)
  have "\<not> list_ex (\<lambda>a. app_name a = n) (st_apps st)"
    using n(3) by (auto simp: list_ex_iff appNames_def)
  then obtain a where new: "newShare lib os (Some p) dir [] (st_apps st) = Inr a"
      and a: "app_address a = joinHostPort ''127.0.0.1'' (itoa p)" "app_name a = n"
        "app_command a = [dufsProgram, path, ''--bind'', ''127.0.0.1'', ''--port'', itoa p, ''--path-prefix'', ''/'' @ n, ''--allow-all'']"
    using dir n(1,2) by (simp add: newShare_def)
  have "state_ok urlParse (st\<lparr>st_apps := st_apps st @ [a]\<rparr>)"
    using ok room newShare_ok [OF new] by (auto simp: state_ok_def appNames_def)
  then show ?thesis
    using new newShare_ok [OF new] a by (simp add: joinHostPort_def)
qed

text \<open>
  Sharing a folder cannot go wrong by its name.  For every existing folder, whatever it is called, in whatever
  script, a share of it with no name given is an entry with a legal name nothing else has, an address on loopback, and
  a command that is told that same port and that same name; and a valid registry with room for it stays valid.
\<close>

theorem sharing_a_folder_works:
  assumes ok: "state_ok urlParse st" and room: "length (st_apps st) < stateMaxApps"
    and dir: "trimSpace dir \<noteq> []" "os_abs os dir = Some path" "os_isDir os path = Some True"
  shows "\<exists>a. newShare lib os (Some p) dir [] (st_apps st) = Inr a \<and> app_ok a \<and>
    app_name a \<notin> set (appNames (st_apps st)) \<and> state_ok urlParse (st\<lparr>st_apps := st_apps st @ [a]\<rparr>) \<and>
    app_address a = ''127.0.0.1:'' @ itoa p \<and> app_command a ! 1 = path \<and> app_command a ! 5 = itoa p \<and>
    app_command a ! 7 = ''/'' @ app_name a"
  using assms by (rule sharing_a_folder)

section \<open>A port somebody else has\<close>

lemma splitHostPort_bracket:
  assumes "CHR ''['' \<notin> set host" "CHR '']'' \<notin> set host"
    and "CHR '':'' \<notin> set port" "CHR ''['' \<notin> set port" "CHR '']'' \<notin> set port"
  shows "splitHostPort (''['' @ host @ '']:'' @ port) = Some (host, port)"
proof -
  let ?h = "''['' @ host @ '']''"
  have "rev (''['' @ host @ '']:'' @ port) = rev port @ CHR '':'' # rev ?h" by simp
  then have "cutAt (CHR '':'') (rev (''['' @ host @ '']:'' @ port)) = (rev port, rev ?h, True)"
    using cutAt_append [of "CHR '':''" "rev port" "rev ?h"] assms(3) by simp
  then show ?thesis
    unfolding splitHostPort_def using assms by (simp add: butlast_append)
qed

lemma splitHostPort_host:
  assumes "splitHostPort hp = Some (host, port)"
  shows "CHR ''['' \<notin> set host \<and> CHR '']'' \<notin> set host"
proof -
  obtain a b f where cut: "cutAt (CHR '':'') (rev hp) = (a, b, f)"
    by (cases "cutAt (CHR '':'') (rev hp)") auto
  have f: "f" using assms cut by (cases f) (simp_all add: splitHostPort_def)
  have hp: "rev hp = a @ CHR '':'' # b"
    using cutAt_True [of "CHR '':''" "rev hp" a b] cut f by simp
  show ?thesis
  proof (cases "rev b \<noteq> [] \<and> hd (rev b) = CHR ''[''")
    case True
    then show ?thesis
      using assms cut f by (auto simp: splitHostPort_def Let_def split: if_splits dest: in_set_butlastD)
  next
    case False
    then have "host = rev b" "CHR ''['' \<notin> set hp" "CHR '']'' \<notin> set hp"
      using assms cut f by (auto simp: splitHostPort_def Let_def split: if_splits)
    moreover have "set b \<subseteq> set hp" using hp by (metis set_append set_rev set_subset_Cons subset_trans sup_ge2)
    ultimately show ?thesis by auto
  qed
qed

lemma splitHostPort_rejoin:
  assumes "splitHostPort hp = Some (host, port)"
  shows "splitHostPort (joinHostPort host (itoa p)) = Some (host, itoa p)"
proof (cases "CHR '':'' \<in> set host")
  case True
  then show ?thesis
    using splitHostPort_bracket [of host "itoa p"] splitHostPort_host [OF assms] itoa_no_special
    by (simp add: joinHostPort_def)
next
  case False
  then show ?thesis
    using splitHostPort_join [of host "itoa p"] splitHostPort_host [OF assms] itoa_no_special by blast
qed

lemma indexOf_Some: "indexOf x xs = Some i \<Longrightarrow> i < length xs \<and> xs ! i = x"
  by (induction xs arbitrary: i) (auto split: if_splits)

text \<open>
  A share that loses its port moves, and stays a share.  Moving happens only when another program has the
  address; it keeps the name, the type and the host, changes the one argument after \<^verbatim>\<open>--port\<close> to the port in the new
  address, and a legal entry stays legal.
\<close>

theorem moving_keeps_the_share:
  assumes "app_ok a" and "withFreePort listen fp a = (a', moved)"
  shows "app_ok a' \<and> app_name a' = app_name a \<and> app_type a' = app_type a \<and>
    (\<not> moved \<longrightarrow> a' = a) \<and>
    (moved \<longrightarrow> listen (app_address a) = InUse \<and>
      (\<exists>i p host port. indexOf ''--port'' (app_command a) = Some i \<and> app_command a' = (app_command a)[i + 1 := itoa p] \<and>
         splitHostPort (app_address a) = Some (host, port) \<and> splitHostPort (app_address a') = Some (host, itoa p)))"
proof (cases moved)
  case False
  then show ?thesis
    using assms by (auto simp: withFreePort_def split: option.splits if_splits prod.splits)
next
  case True
  then obtain i host port p where m: "indexOf ''--port'' (app_command a) = Some i" "i + 1 < length (app_command a)"
      "listen (app_address a) = InUse" "splitHostPort (app_address a) = Some (host, port)"
      "a' = a\<lparr>app_command := (app_command a)[i + 1 := itoa p], app_address := joinHostPort host (itoa p)\<rparr>"
    using assms(2) by (auto simp: withFreePort_def not_le split: option.splits if_splits prod.splits)
  have split': "splitHostPort (app_address a') = Some (host, itoa p)"
    using splitHostPort_rejoin [OF m(4)] m(5) by simp
  have "hd (app_command a') = hd (app_command a)" "app_command a \<noteq> []"
    using m(2,5) by (cases "app_command a"; simp)+
  then have "app_ok a'"
    using assms(1) split' m(4,5) by (auto simp: app_ok_def)
  then show ?thesis
    using True m split' by auto
qed

section \<open>The command line and release numbers\<close>

lemma flagsFirst_loop_mset: "mset (flagsFirst_loop args flags rest) = mset args + mset flags + mset rest"
  by (induction args flags rest rule: flagsFirst_loop.induct) (auto split: list.splits)

lemma flagsFirst_mset: "mset (flagsFirst args) = mset args"
  by (simp add: flagsFirst_def flagsFirst_loop_mset)

lemma compareInts_pos: "0 < compareInts (x # xs) (y # ys) \<longleftrightarrow> y < x \<or> x = y \<and> 0 < compareInts xs ys"
  by simp

lemma compareInts_trans: "0 < compareInts x y \<Longrightarrow> 0 < compareInts y z \<Longrightarrow> 0 < compareInts x z"
proof (induction x arbitrary: y z)
  case Nil
  then show ?case by (cases y) simp_all
next
  case (Cons x xs)
  show ?case
  proof (cases y; cases z)
    fix u us v vs assume yz: "y = u # us" "z = v # vs"
    then have "v < x \<or> x = v \<and> 0 < compareInts xs us \<and> 0 < compareInts us vs"
      using Cons.prems unfolding yz compareInts_pos by auto
    then show ?thesis using Cons.IH unfolding yz compareInts_pos by blast
  qed (use Cons.prems in simp_all)
qed

text \<open>A newer release is newer for good: \<^const>\<open>newer\<close> is a strict order.\<close>

lemma newer_iff: "newer a b \<longleftrightarrow> (\<exists>x y. parseVersion a = Some x \<and> parseVersion b = Some y \<and> 0 < compareInts x y)"
  by (simp add: newer_def split: option.splits)

lemma newer_strict_order: "\<not> newer a a" "newer a b \<Longrightarrow> \<not> newer b a" "newer a b \<Longrightarrow> newer b c \<Longrightarrow> newer a c"
proof -
  have refl: "compareInts x x = 0" for x
    by (induction x) simp_all
  show irrefl: "\<not> newer a a" for a
    by (simp add: newer_iff refl)
  show trans: "newer a b \<Longrightarrow> newer b c \<Longrightarrow> newer a c" for a b c
    unfolding newer_iff by clarsimp (erule (1) compareInts_trans)
  show "newer a b \<Longrightarrow> \<not> newer b a"
    using irrefl trans by blast
qed

section \<open>The list with the agent stopped\<close>

definition codec_ok :: "codec \<Rightarrow> bool" where
  "codec_ok cd \<longleftrightarrow> (\<forall>s. cd_decode cd (cd_encode cd s @ [newline]) = Some s)"

definition holds :: "codec \<Rightarrow> state \<Rightarrow> disk \<Rightarrow> bool" where
  "holds cd st d \<longleftrightarrow> dk_file d = Some (cd_encode cd st @ [newline])"

lemma loadState_holds:
  "codec_ok cd \<Longrightarrow> holds cd st d \<Longrightarrow> state_ok urlParse st \<Longrightarrow> dk_ops d = [] \<Longrightarrow>
   loadState urlParse cd hostname d = (Inr st, d)"
  by (simp add: loadState_def nextOp_def holds_def codec_ok_def flip: validate_iff)

lemma saveState_holds: "dk_ops d = [] \<Longrightarrow> \<exists>d'. saveState cd st d = (None, d') \<and> holds cd st d' \<and> dk_ops d' = []"
  by (simp add: saveState_def nextOp_def holds_def)

text \<open>
  Adding a folder on the command line and removing it again, with the agent stopped, leaves the file as it was:
  the added share is the last entry, the rest is untouched, and the registry stays valid in between.
\<close>

theorem offline_add_then_remove:
  assumes "codec_ok cd" and held: "holds cd st d" and ok: "state_ok urlParse st" and "dk_ops d = []"
    and add: "addShareOffline urlParse cd hostname lib os fp dir name d = (Inr sh, d1)"
    and rm: "removeShareOffline urlParse cd hostname (sh_name sh) d1 = (e, d2)"
  shows "e = None \<and> dk_file d2 = dk_file d \<and>
    (\<exists>a. sh = shareOf os a \<and> holds cd (st\<lparr>st_apps := st_apps st @ [a]\<rparr>) d1 \<and>
       state_ok urlParse (st\<lparr>st_apps := st_apps st @ [a]\<rparr>))"
proof -
  have load: "loadState urlParse cd hostname d = (Inr st, d)"
    by (rule loadState_holds) (use assms in auto)
  obtain a where new: "newShare lib os fp dir name (st_apps st) = Inr a"
    using add load by (cases "newShare lib os fp dir name (st_apps st)") (simp_all add: addShareOffline_def)
  let ?st = "st\<lparr>st_apps := st_apps st @ [a]\<rparr>"
  obtain d' where save: "saveState cd ?st d = (None, d')" "holds cd ?st d'" "dk_ops d' = []"
    using saveState_holds assms(4) by blast
  have ok': "state_ok urlParse ?st" and sh: "sh = shareOf os a" and d1: "d1 = d'"
    using add load new save(1)
    by (auto simp: addShareOffline_def Let_def validate_iff [symmetric] split: option.splits)
  have load1: "loadState urlParse cd hostname d1 = (Inr ?st, d1)"
    by (rule loadState_holds) (use assms(1) save ok' d1 in auto)
  have "filter (\<lambda>b. app_name b \<noteq> app_name a) (st_apps ?st) = st_apps st"
    using newShare_ok [OF new] by (auto simp: appNames_def filter_id_conv image_iff)
  then have "(e, d2) = saveState cd st d1"
    using rm load1 sh by (simp add: removeShareOffline_def shareOf_def)
  then have "e = None" "holds cd st d2"
    using save(3) d1 by (auto simp: saveState_def nextOp_def holds_def)
  then show ?thesis
    using held sh ok' save(2) d1 by (auto simp: holds_def)
qed

section \<open>Concrete runs\<close>

definition demo_os :: osenv where
  "demo_os = \<lparr>os_abs = Some, os_isDir = (\<lambda>d. Some True), os_base = (\<lambda>d. if d = ''dufs'' then d else ''My Files'')\<rparr>"

definition demo_state :: state where
  "demo_state = \<lparr>st_name = ''pc'', st_server = [], st_deviceID = [], st_apps = [], st_reportsOff = False\<rparr>"

definition demo_app :: app where
  "demo_app = \<lparr>app_name = ''files'', app_type = ''http'', app_address = joinHostPort ''127.0.0.1'' (itoa 80),
     app_command = [''dufs'', ''/srv'', ''--port'', ''80'']\<rparr>"

text \<open>A codec that reads back what it writes: every string is preceded by its length.\<close>

definition net :: "string \<Rightarrow> string" where
  "net s = itoa (length s) @ CHR '':'' # s"

definition unnet :: "string \<Rightarrow> string \<times> string" where
  "unnet r = (case cutAt (CHR '':'') r of (n, rest, _) \<Rightarrow> (take (digits_value n) rest, drop (digits_value n) rest))"

lemma unnet_net [simp]: "unnet (net s @ r) = (s, r)"
  using itoa_no_special(1) [of "length s"] by (simp add: unnet_def net_def cutAt_append)

fun unnets :: "(string \<Rightarrow> 'a \<times> string) \<Rightarrow> nat \<Rightarrow> string \<Rightarrow> 'a list \<times> string" where
  "unnets f 0 r = ([], r)"
| "unnets f (Suc n) r = (case f r of (x, r1) \<Rightarrow> case unnets f n r1 of (xs, r2) \<Rightarrow> (x # xs, r2))"

lemma unnets_concat: "(\<And>x r. f (g x @ r) = (x, r)) \<Longrightarrow> unnets f (length xs) (concat (map g xs) @ r) = (xs, r)"
  by (induction xs) simp_all

definition netList :: "('a \<Rightarrow> string) \<Rightarrow> 'a list \<Rightarrow> string" where
  "netList g xs = net (itoa (length xs)) @ concat (map g xs)"

definition unnetList :: "(string \<Rightarrow> 'a \<times> string) \<Rightarrow> string \<Rightarrow> 'a list \<times> string" where
  "unnetList f r = (case unnet r of (n, r1) \<Rightarrow> unnets f (digits_value n) r1)"

lemma unnetList_netList: "(\<And>x r. f (g x @ r) = (x, r)) \<Longrightarrow> unnetList f (netList g xs @ r) = (xs, r)"
  by (simp add: unnetList_def netList_def unnets_concat)

definition netApp :: "app \<Rightarrow> string" where
  "netApp a = net (app_name a) @ net (app_type a) @ net (app_address a) @ netList net (app_command a)"

definition unnetApp :: "string \<Rightarrow> app \<times> string" where
  "unnetApp r = (case unnet r of (n, r1) \<Rightarrow> case unnet r1 of (t, r2) \<Rightarrow> case unnet r2 of (ad, r3) \<Rightarrow>
     case unnetList unnet r3 of (c, r4) \<Rightarrow> (\<lparr>app_name = n, app_type = t, app_address = ad, app_command = c\<rparr>, r4))"

lemma unnetApp_netApp: "unnetApp (netApp a @ r) = (a, r)"
  by (simp add: unnetApp_def netApp_def unnetList_netList)

definition demo_codec :: codec where
  "demo_codec = \<lparr>
     cd_encode = (\<lambda>s. net (st_name s) @ net (st_server s) @ net (st_deviceID s) @ netList netApp (st_apps s) @
       (if st_reportsOff s then ''1'' else ''0'')),
     cd_decode = (\<lambda>r. case unnet r of (n, r1) \<Rightarrow> case unnet r1 of (sv, r2) \<Rightarrow> case unnet r2 of (i, r3) \<Rightarrow>
       case unnetList unnetApp r3 of (as, r4) \<Rightarrow>
         Some \<lparr>st_name = n, st_server = sv, st_deviceID = i, st_apps = as, st_reportsOff = (r4 \<noteq> [] \<and> hd r4 = CHR ''1'')\<rparr>)\<rparr>"

lemma demo_codec_ok: "codec_ok demo_codec"
  by (simp add: codec_ok_def demo_codec_def unnetList_netList [of unnetApp netApp, OF unnetApp_netApp])

definition demo_disk :: disk where
  "demo_disk = \<lparr>dk_file = Some (cd_encode demo_codec demo_state @ [newline]), dk_ops = []\<rparr>"

lemma demo_state_ok: "state_ok urlParse demo_state"
  by (simp add: state_ok_def demo_state_def maxDeviceName_def maxInstanceName_def instanceIDLen_def stateMaxApps_def appNames_def)

lemma demo_dir: "trimSpace ''/srv'' \<noteq> []"
proof -
  have "trimSpace ''/srv'' = ''/srv''"
    by (rule trimSpace_clean) (auto simp: byte_def)
  then show ?thesis by simp
qed

theorem sharing_a_folder_works_witness:
  "\<exists>a. newShare toy_lib demo_os (Some 8080) ''/srv'' [] [] = Inr a \<and> app_ok a \<and> app_address a = ''127.0.0.1:'' @ itoa 8080"
  using sharing_a_folder_works [OF demo_state_ok [of "\<lambda>_. None"] _ demo_dir, of demo_os "''/srv''" toy_lib 8080]
  by (auto simp: demo_state_def demo_os_def stateMaxApps_def)

lemma demo_add:
  "\<exists>sh d1. addShareOffline (\<lambda>_. None) demo_codec None toy_lib demo_os (Some 8080) ''/srv'' [] demo_disk = (Inr sh, d1)"
proof -
  obtain a where new: "newShare toy_lib demo_os (Some 8080) ''/srv'' [] (st_apps demo_state) = Inr a"
      and ok: "state_ok (\<lambda>_. None) (demo_state\<lparr>st_apps := st_apps demo_state @ [a]\<rparr>)"
    using sharing_a_folder [OF demo_state_ok [of "\<lambda>_. None"] _ demo_dir, of demo_os "''/srv''" toy_lib 8080]
    by (auto simp: demo_state_def demo_os_def stateMaxApps_def)
  have load: "loadState (\<lambda>_. None) demo_codec None demo_disk = (Inr demo_state, demo_disk)"
    by (rule loadState_holds [OF demo_codec_ok _ demo_state_ok]) (simp_all add: holds_def demo_disk_def)
  show ?thesis
    using new ok load by (simp add: addShareOffline_def Let_def validate_iff [symmetric] saveState_def nextOp_def demo_disk_def)
qed

theorem offline_add_then_remove_witness:
  "\<exists>sh d1 d2. addShareOffline (\<lambda>_. None) demo_codec None toy_lib demo_os (Some 8080) ''/srv'' [] demo_disk = (Inr sh, d1) \<and>
     removeShareOffline (\<lambda>_. None) demo_codec None (sh_name sh) d1 = (None, d2) \<and> dk_file d2 = dk_file demo_disk"
proof -
  obtain sh d1 where add: "addShareOffline (\<lambda>_. None) demo_codec None toy_lib demo_os (Some 8080) ''/srv'' [] demo_disk = (Inr sh, d1)"
    using demo_add by blast
  obtain e d2 where rm: "removeShareOffline (\<lambda>_. None) demo_codec None (sh_name sh) d1 = (e, d2)"
    by (cases "removeShareOffline (\<lambda>_. None) demo_codec None (sh_name sh) d1")
  have "e = None \<and> dk_file d2 = dk_file demo_disk"
    using offline_add_then_remove [OF demo_codec_ok _ demo_state_ok _ add rm] by (simp add: holds_def demo_disk_def)
  then show ?thesis using add rm by blast
qed

lemma demo_app_ok: "app_ok demo_app"
proof -
  have "splitHostPort (joinHostPort ''127.0.0.1'' (itoa 80)) = Some (''127.0.0.1'', itoa 80)"
    by (rule splitHostPort_join) (simp_all add: itoa_no_special)
  then show ?thesis
    using loopback_literals(1)
    by (simp add: app_ok_def demo_app_def appname_Valid_def pattern_def MaxLen_def name_char_def name_start_def
        is_lower_letter_def byte_def)
qed

theorem moving_keeps_the_share_witness:
  "app_ok (fst (withFreePort (\<lambda>_. InUse) (Some 99) demo_app)) \<and> snd (withFreePort (\<lambda>_. InUse) (Some 99) demo_app)"
proof -
  obtain a' m where run: "withFreePort (\<lambda>_. InUse) (Some 99) demo_app = (a', m)" by fastforce
  obtain host port where "splitHostPort (app_address demo_app) = Some (host, port)"
    using demo_app_ok by (auto simp: app_ok_def)
  then have "m" using run by (simp add: withFreePort_def demo_app_def)
  then show ?thesis using moving_keeps_the_share [OF demo_app_ok run] run by simp
qed

end
