(* ===== verification/Supervisor.thy ===== *)
theory Supervisor
  imports AgentShares
begin

text \<open>
  \<^verbatim>\<open>device/agent/supervisor.go\<close>: which applications run after the registry changed, in what order they are stopped and
  started, how long the agent waits before a restart, and how a child's output becomes log lines.  The waits between
  attempts share one contract, a locale, with the tunnel (\<^verbatim>\<open>tunnel.go\<close>).
\<close>

section \<open>Following the registry\<close>

type_synonym children = "(string \<times> app) list"

definition putChild :: "string \<Rightarrow> app \<Rightarrow> children \<Rightarrow> children" where
  "putChild n a cs = filter (\<lambda>c. fst c \<noteq> n) cs @ [(n, a)]"

text \<open>The map \<open>want\<close>: the last entry of each name that has a command.\<close>

fun wanted :: "app list \<Rightarrow> children \<Rightarrow> children" where
  "wanted [] want = want"
| "wanted (a # apps) want = wanted apps (if app_command a \<noteq> [] then putChild (app_name a) a want else want)"

definition sameRun :: "children \<Rightarrow> string \<times> app \<Rightarrow> bool" where
  "sameRun want c = (case map_of want (fst c) of None \<Rightarrow> False
     | Some a \<Rightarrow> app_address a = app_address (snd c) \<and> app_command a = app_command (snd c))"

datatype appEvent = Stop string | Start string app

text \<open>
  \<open>set\<close> returns what it does, in order, and what runs after it.  Which of two children is stopped or started first
  is up to a Go map; that every stop comes before every start is not.
\<close>

definition supervisor_set :: "app list \<Rightarrow> children \<Rightarrow> appEvent list \<times> children" where
  "supervisor_set apps running =
     (let want = wanted apps [];
          kept = filter (sameRun want) running;
          stopping = filter (\<lambda>c. \<not> sameRun want c) running;
          starting = filter (\<lambda>c. fst c \<notin> set (map fst kept)) want
      in (map (\<lambda>c. Stop (fst c)) stopping @ map (\<lambda>c. Start (fst c) (snd c)) starting, kept @ starting))"

section \<open>Waiting before another attempt\<close>

definition jittered :: "int \<Rightarrow> int \<Rightarrow> int" where
  "jittered d r = d div 2 + r mod (d div 2 + 1)"

definition nextWait :: "int \<Rightarrow> int \<Rightarrow> bool \<Rightarrow> int \<Rightarrow> int" where
  "nextWait lo hi good wait = min ((if good then lo else wait) * 2) hi"

definition appBackoffMin :: int where "appBackoffMin = second"
definition appBackoffMax :: int where "appBackoffMax = minute"
definition appSettled :: int where "appSettled = minute"

text \<open>
  One round of \<^verbatim>\<open>superviseApp\<close>: the entry it runs, whether it moved, the pause before the next round and the wait
  after that.  \<open>uptime\<close> is how long the child stayed up, \<open>r\<close> the random draw.
\<close>

definition superviseRound ::
  "(string \<Rightarrow> listening) \<Rightarrow> nat option \<Rightarrow> int \<Rightarrow> int \<Rightarrow> app \<Rightarrow> int \<Rightarrow> (app \<times> bool) \<times> int \<times> int" where
  "superviseRound listen freePort uptime r a wait =
     (let settled = (uptime \<ge> appSettled);
          w = (if settled then appBackoffMin else wait)
      in (withFreePort listen freePort a, jittered w r, nextWait appBackoffMin appBackoffMax settled wait))"

section \<open>A child's output\<close>

definition maxAppLogLine :: nat where "maxAppLogLine = 8 * 1024"

text \<open>The loop of \<^verbatim>\<open>appLog.Write\<close>: whole lines out, the rest kept, and an endless line cut.\<close>

fun takeLines :: "string \<Rightarrow> string \<Rightarrow> string list \<times> string" where
  "takeLines acc [] = ([], acc)"
| "takeLines acc (c # s) =
     (if c = newline then (case takeLines [] s of (ls, r) \<Rightarrow> (acc # ls, r)) else takeLines (acc @ [c]) s)"

definition appLog_Write :: "string \<Rightarrow> string \<Rightarrow> string list \<times> string" where
  "appLog_Write rest p = (case takeLines [] (rest @ p) of (ls, r) \<Rightarrow>
     if length r > maxAppLogLine then (ls @ [r], []) else (ls, r))"

text \<open>\<^verbatim>\<open>strings.Replacer\<close>: at each position the first pair that matches there.\<close>

function replaceAll :: "(string \<times> string) list \<Rightarrow> string \<Rightarrow> string" where
  "replaceAll ps [] = []"
| "replaceAll ps (c # s) = (case find (\<lambda>p. fst p \<noteq> [] \<and> prefix (fst p) (c # s)) ps of
      None \<Rightarrow> c # replaceAll ps s
    | Some (old, new) \<Rightarrow> new @ replaceAll ps (drop (length old) (c # s)))"
  by pat_completeness auto

termination replaceAll
proof (relation "measure (\<lambda>(ps, s). length s)", goal_cases)
  case (3 ps c s x old new)
  then have "old \<noteq> []" by (metis (mono_tags, lifting) find_Some_iff fst_conv)
  then show ?case by (cases old) auto
qed simp_all

definition appLog_line :: "(string \<times> string) list \<Rightarrow> string \<Rightarrow> string option" where
  "appLog_line hide b = (let line = replaceAll hide (trimRight (CHR 0x0D) b) in if line = [] then None else Some line)"

definition hidden :: "osenv \<Rightarrow> app \<Rightarrow> (string \<times> string) list" where
  "hidden os a = (if sharedPath os a = [] then []
     else [(sharedPath os a, ''<shared folder>''), (''/'' @ app_name a, ''/<share>'')])"

text \<open>\<^verbatim>\<open>program\<close>: on \<^verbatim>\<open>PATH\<close> first, then beside the agent's own binary.\<close>

definition program :: "(string \<Rightarrow> string option) \<Rightarrow> osenv \<Rightarrow> (string \<Rightarrow> string) option \<Rightarrow> string \<Rightarrow> string" where
  "program lookPath os beside name =
     (if os_base os name \<noteq> name then name
      else if lookPath name \<noteq> None then name
      else case beside of None \<Rightarrow> name
        | Some b \<Rightarrow> (case lookPath (b name) of Some found \<Rightarrow> found | None \<Rightarrow> name))"

section \<open>The contract of a retry\<close>

locale retry =
  fixes lo hi :: int and step :: "bool \<Rightarrow> int \<Rightarrow> int"
  assumes lo_pos: "0 < lo" and lo_hi: "lo \<le> hi"
    and step_good: "step True w = min (lo * 2) hi"
    and step_bad: "step False w = min (w * 2) hi"
begin

lemma step_bounds: "lo \<le> w \<Longrightarrow> lo \<le> step b w \<and> step b w \<le> hi"
  using lo_pos lo_hi by (cases b) (auto simp: step_good step_bad)

lemma run_bounds: "lo \<le> w \<Longrightarrow> w \<le> hi \<Longrightarrow> lo \<le> foldl (\<lambda>w b. step b w) w bs \<and> foldl (\<lambda>w b. step b w) w bs \<le> hi"
  by (induction bs arbitrary: w) (auto simp: step_bounds)

lemma failures: "lo \<le> w \<Longrightarrow> w \<le> hi \<Longrightarrow> foldl (\<lambda>w b. step b w) w (replicate n False) = min (w * 2 ^ n) hi"
proof (induction n arbitrary: w)
  case (Suc n)
  have "lo \<le> step False w" "step False w \<le> hi" using step_bounds Suc.prems by auto
  from Suc.IH [OF this] have run: "foldl (\<lambda>w b. step b w) w (replicate (Suc n) False) = min (min (w * 2) hi * 2 ^ n) hi"
    by (simp add: step_bad)
  show ?case
  proof (cases "w * 2 \<le> hi")
    case True
    then show ?thesis using run by (simp add: mult.assoc)
  next
    case False
    have up: "hi * 1 \<le> hi * 2 ^ n" using lo_pos lo_hi by (intro mult_left_mono) simp_all
    also have "hi * 2 ^ n \<le> (w * 2) * 2 ^ n" using False by (intro mult_right_mono) simp_all
    also have "(w * 2) * 2 ^ n = w * 2 ^ Suc n" by (simp only: power_Suc mult.assoc)
    finally show ?thesis using run False up by (simp add: min_absorb2)
  qed
qed (simp add: min_def)

end

lemma jittered_bounds: "0 \<le> d \<Longrightarrow> d div 2 \<le> jittered d r \<and> jittered d r \<le> d"
proof -
  assume "0 \<le> d"
  then have "0 \<le> r mod (d div 2 + 1)" "r mod (d div 2 + 1) \<le> d div 2"
    using pos_mod_bound [of "d div 2 + 1" r] by simp_all
  then show ?thesis by (simp add: jittered_def)
qed

interpretation app_retry: retry appBackoffMin appBackoffMax "nextWait appBackoffMin appBackoffMax"
  by unfold_locales (simp_all add: appBackoffMin_def appBackoffMax_def nextWait_def)

section \<open>What runs\<close>

lemma map_of_putChild: "map_of (putChild n a cs) = (map_of cs)(n \<mapsto> a)"
  by (auto simp: putChild_def fun_eq_iff map_of_append map_add_def map_of_filter_neq split: option.splits)

lemma set_putChild: "c \<in> set (putChild n a cs) \<longleftrightarrow> c = (n, a) \<or> c \<in> set cs \<and> fst c \<noteq> n"
  by (auto simp: putChild_def)

lemma distinct_putChild: "distinct (map fst cs) \<Longrightarrow> distinct (map fst (putChild n a cs))"
  by (induction cs) (auto simp: putChild_def)

lemma wanted_map:
  assumes "distinct (appNames apps)" "\<forall>a \<in> set apps. app_name a \<notin> set (map fst want)" "distinct (map fst want)"
  shows "distinct (map fst (wanted apps want)) \<and>
    map_of (wanted apps want) = map_of want ++ map_of (map (\<lambda>a. (app_name a, a)) (filter (\<lambda>a. app_command a \<noteq> []) apps))"
  using assms
proof (induction apps arbitrary: want)
  case (Cons a apps)
  let ?w = "if app_command a \<noteq> [] then putChild (app_name a) a want else want"
  have out: "\<forall>b \<in> set apps. app_name b \<notin> set (map fst ?w)"
  proof (intro ballI notI)
    fix b assume b: "b \<in> set apps" and "app_name b \<in> set (map fst ?w)"
    then obtain c where "c \<in> set ?w" "app_name b = fst c" by auto
    then have "app_name b = app_name a \<or> c \<in> set want" by (auto simp: set_putChild split: if_splits)
    then show False
      using Cons.prems(1,2) b \<open>app_name b = fst c\<close> imageI [OF b, of app_name] imageI [of c "set want" fst] by (auto simp: appNames_def)
  qed
  have IH: "distinct (map fst (wanted apps ?w))"
      "map_of (wanted apps ?w) = map_of ?w ++ map_of (map (\<lambda>a. (app_name a, a)) (filter (\<lambda>a. app_command a \<noteq> []) apps))"
    using Cons.IH [OF _ out] Cons.prems by (auto simp: appNames_def distinct_putChild)
  have "map_of (map (\<lambda>a. (app_name a, a)) (filter (\<lambda>a. app_command a \<noteq> []) apps)) (app_name a) = None"
    using Cons.prems(1) by (auto simp: map_of_eq_None_iff appNames_def)
  then show ?case
    using IH by (auto simp: map_of_putChild fun_eq_iff map_add_def split: option.splits)
qed simp

text \<open>Carrying the events out, one child at a time; a second child of one name is an error.\<close>

fun carryOut :: "appEvent list \<Rightarrow> children \<Rightarrow> children option" where
  "carryOut [] cs = Some cs"
| "carryOut (Stop n # es) cs = (if n \<in> set (map fst cs) then carryOut es (filter (\<lambda>c. fst c \<noteq> n) cs) else None)"
| "carryOut (Start n a # es) cs = (if n \<in> set (map fst cs) then None else carryOut es (cs @ [(n, a)]))"

lemma carryOut_append: "carryOut (xs @ ys) cs = (case carryOut xs cs of None \<Rightarrow> None | Some cs' \<Rightarrow> carryOut ys cs')"
  by (induction xs cs rule: carryOut.induct) auto

lemma carryOut_stops:
  "distinct (map fst cs) \<Longrightarrow> distinct ns \<Longrightarrow> set ns \<subseteq> set (map fst cs) \<Longrightarrow>
   carryOut (map Stop ns) cs = Some (filter (\<lambda>c. fst c \<notin> set ns) cs)"
proof (induction ns arbitrary: cs)
  case (Cons n ns)
  let ?cs = "filter (\<lambda>c. fst c \<noteq> n) cs"
  have "set ns \<subseteq> set (map fst ?cs)" using Cons.prems by fastforce
  moreover have "distinct (map fst ?cs)" using Cons.prems(1) by (rule distinct_map_filter)
  ultimately show ?case
    using Cons.IH [of ?cs] Cons.prems by (simp add: conj_commute)
qed simp

lemma carryOut_starts:
  "distinct (map fst (cs @ new)) \<Longrightarrow> carryOut (map (\<lambda>c. Start (fst c) (snd c)) new) cs = Some (cs @ new)"
  by (induction new arbitrary: cs) auto

lemma wanted_facts:
  assumes names: "distinct (appNames apps)"
  shows "distinct (map fst (wanted apps []))"
    and "map_of (wanted apps []) n = Some a \<longleftrightarrow> a \<in> set apps \<and> app_command a \<noteq> [] \<and> app_name a = n"
    and "(n, a) \<in> set (wanted apps []) \<longleftrightarrow> a \<in> set apps \<and> app_command a \<noteq> [] \<and> app_name a = n"
proof -
  let ?own = "map (\<lambda>a. (app_name a, a)) (filter (\<lambda>a. app_command a \<noteq> []) apps)"
  have m: "distinct (map fst (wanted apps []))" "map_of (wanted apps []) = map_of ?own"
    using wanted_map [OF names, of "[]"] by auto
  have "distinct (map fst ?own)"
    using names distinct_map_filter [of app_name apps] by (simp add: appNames_def comp_def)
  then show get: "map_of (wanted apps []) n = Some a \<longleftrightarrow> a \<in> set apps \<and> app_command a \<noteq> [] \<and> app_name a = n"
    unfolding m(2) by (auto simp: map_of_eq_Some_iff)
  show "(n, a) \<in> set (wanted apps []) \<longleftrightarrow> a \<in> set apps \<and> app_command a \<noteq> [] \<and> app_name a = n"
    using get m(1) by (simp add: map_of_eq_Some_iff)
qed (use wanted_map [OF names, of "[]"] in simp)

definition runs_as :: "app list \<Rightarrow> string \<Rightarrow> app \<Rightarrow> bool" where
  "runs_as apps n c \<longleftrightarrow> (\<exists>a \<in> set apps. app_name a = n \<and> app_command a \<noteq> [] \<and>
     app_address a = app_address c \<and> app_command a = app_command c)"

lemma sameRun_iff:
  assumes names: "distinct (appNames apps)"
  shows "sameRun (wanted apps []) (n, c) \<longleftrightarrow> runs_as apps n c"
proof (cases "map_of (wanted apps []) n")
  case None
  then have "\<not> (\<exists>a \<in> set apps. app_name a = n \<and> app_command a \<noteq> [])"
    using wanted_facts(2) [OF names] by (metis option.distinct(1))
  then show ?thesis using None by (auto simp: sameRun_def runs_as_def)
next
  case (Some a)
  then have a: "a \<in> set apps" "app_command a \<noteq> []" "app_name a = n" using wanted_facts(2) [OF names] by blast+
  have "b = a" if "b \<in> set apps" "app_name b = n" for b
    using names that a(1,3) by (auto simp: appNames_def distinct_map dest: inj_onD)
  then have "runs_as apps n c \<longleftrightarrow> app_address a = app_address c \<and> app_command a = app_command c"
    unfolding runs_as_def using a by blast
  then show ?thesis using Some by (simp add: sameRun_def)
qed

lemma filter_by_key:
  assumes "distinct (map fst xs)"
  shows "filter (\<lambda>c. fst c \<notin> fst ` set (filter (\<lambda>c. \<not> P c) xs)) xs = filter P xs"
proof (rule filter_cong [OF refl])
  fix c assume c: "c \<in> set xs"
  have "(fst c, b) = c" if "(fst c, b) \<in> set xs" for b
    using assms that c by (metis map_of_is_SomeI option.inject prod.collapse)
  then show "fst c \<notin> fst ` set (filter (\<lambda>c. \<not> P c) xs) \<longleftrightarrow> P c"
    using c by (auto simp: image_iff) (metis prod.collapse)+
qed

lemma supervisor_set_carried_out:
  assumes names: "distinct (appNames apps)" and run: "distinct (map fst running)"
    and set: "supervisor_set apps running = (events, running')"
  shows "carryOut events running = Some running' \<and> distinct (map fst running')"
proof -
  let ?want = "wanted apps []"
  let ?kept = "filter (sameRun ?want) running"
  let ?stop = "filter (\<lambda>c. \<not> sameRun ?want c) running"
  let ?start = "filter (\<lambda>c. fst c \<notin> set (map fst ?kept)) ?want"
  have ev: "events = map Stop (map fst ?stop) @ map (\<lambda>c. Start (fst c) (snd c)) ?start" and r': "running' = ?kept @ ?start"
    using set by (auto simp: supervisor_set_def Let_def comp_def)
  have "set (map fst ?kept) \<inter> set (map fst ?start) = {}" by (simp add: disjoint_iff) blast
  then have d': "distinct (map fst (?kept @ ?start))"
    using run wanted_facts(1) [OF names] by (simp add: distinct_map_filter)
  have "carryOut (map Stop (map fst ?stop)) running = Some ?kept"
    using carryOut_stops [OF run, of "map fst ?stop"] run filter_by_key [OF run, of "sameRun ?want"]
    by (auto simp: distinct_map_filter)
  then have "carryOut events running = Some running'"
    using carryOut_starts [OF d'] unfolding ev r' carryOut_append by simp
  then show ?thesis using d' r' by simp
qed

lemma supervisor_set_members:
  assumes names: "distinct (appNames apps)" and set: "supervisor_set apps running = (events, running')"
  shows "(n, c) \<in> set running' \<longleftrightarrow>
      (n, c) \<in> set running \<and> runs_as apps n c \<or>
      c \<in> set apps \<and> app_command c \<noteq> [] \<and> app_name c = n \<and> (\<forall>b. (n, b) \<in> set running \<longrightarrow> \<not> runs_as apps n b)"
    and "Stop n \<in> set events \<longleftrightarrow> (\<exists>b. (n, b) \<in> set running \<and> \<not> runs_as apps n b)"
    and "Start n c \<in> set events \<longleftrightarrow>
      c \<in> set apps \<and> app_command c \<noteq> [] \<and> app_name c = n \<and> (\<forall>b. (n, b) \<in> set running \<longrightarrow> \<not> runs_as apps n b)"
proof -
  have key: "n \<in> fst ` {x \<in> set running. sameRun (wanted apps []) x} \<longleftrightarrow> (\<exists>b. (n, b) \<in> set running \<and> runs_as apps n b)" for n
    by (force simp: sameRun_iff [OF names])
  have ev: "events = map (\<lambda>c. Stop (fst c)) (filter (\<lambda>c. \<not> sameRun (wanted apps []) c) running) @
      map (\<lambda>c. Start (fst c) (snd c)) (filter (\<lambda>c. fst c \<notin> fst ` {x \<in> set running. sameRun (wanted apps []) x}) (wanted apps []))"
    and r': "running' = filter (sameRun (wanted apps [])) running @
      filter (\<lambda>c. fst c \<notin> fst ` {x \<in> set running. sameRun (wanted apps []) x}) (wanted apps [])"
    using set by (auto simp: supervisor_set_def Let_def)
  show "(n, c) \<in> set running' \<longleftrightarrow>
      (n, c) \<in> set running \<and> runs_as apps n c \<or>
      c \<in> set apps \<and> app_command c \<noteq> [] \<and> app_name c = n \<and> (\<forall>b. (n, b) \<in> set running \<longrightarrow> \<not> runs_as apps n b)"
    unfolding r' set_append set_filter Un_iff mem_Collect_eq fst_conv key wanted_facts(3) [OF names] sameRun_iff [OF names] by blast
  show "Stop n \<in> set events \<longleftrightarrow> (\<exists>b. (n, b) \<in> set running \<and> \<not> runs_as apps n b)"
    unfolding ev by (force simp: sameRun_iff [OF names])
  show "Start n c \<in> set events \<longleftrightarrow>
      c \<in> set apps \<and> app_command c \<noteq> [] \<and> app_name c = n \<and> (\<forall>b. (n, b) \<in> set running \<longrightarrow> \<not> runs_as apps n b)"
    unfolding ev using key [of n] wanted_facts(3) [OF names, of n c] by (auto simp: image_iff)
qed

lemma supervisor_set_names:
  assumes names: "distinct (appNames apps)" and set: "supervisor_set apps running = (events, running')"
  shows "fst ` set running' = app_name ` {a \<in> set apps. app_command a \<noteq> []}"
proof (intro set_eqI iffI)
  fix n assume "n \<in> fst ` set running'"
  then obtain c where "(n, c) \<in> set running'" by auto
  then show "n \<in> app_name ` {a \<in> set apps. app_command a \<noteq> []}"
    unfolding supervisor_set_members(1) [OF names set] runs_as_def by blast
next
  fix n assume "n \<in> app_name ` {a \<in> set apps. app_command a \<noteq> []}"
  then obtain a where "a \<in> set apps" "app_command a \<noteq> []" "app_name a = n" by blast
  then obtain c where "(n, c) \<in> set running'"
    using supervisor_set_members(1) [OF names set] by blast
  then show "n \<in> fst ` set running'" by (rule image_eqI [rotated]) simp
qed

text \<open>
  What runs follows the registry.  After any change of a registry with distinct names, exactly the entries with a
  command run, each at the address and with the command it now has; an entry whose address and command did not change
  is neither stopped nor started; and carrying the change out never has two children of one name.
\<close>

theorem supervisor_follows_registry:
  assumes names: "distinct (appNames apps)" and run: "distinct (map fst running)"
    and set: "supervisor_set apps running = (events, running')"
  shows "carryOut events running = Some running' \<and> distinct (map fst running') \<and>
    fst ` set running' = app_name ` {a \<in> set apps. app_command a \<noteq> []} \<and>
    (\<forall>n c. (n, c) \<in> set running' \<longrightarrow> runs_as apps n c) \<and>
    (\<forall>n c. (n, c) \<in> set running \<and> runs_as apps n c \<longrightarrow>
       Stop n \<notin> set events \<and> (\<forall>b. Start n b \<notin> set events) \<and> (n, c) \<in> set running')"
proof -
  have one: "b = c" if "(n, b) \<in> set running" "(n, c) \<in> set running" for n b c
    using run that by (metis map_of_is_SomeI option.inject)
  have "runs_as apps n c" if "(n, c) \<in> set running'" for n c
    using that unfolding supervisor_set_members(1) [OF names set] by (auto simp: runs_as_def)
  moreover have "Stop n \<notin> set events \<and> (\<forall>b. Start n b \<notin> set events) \<and> (n, c) \<in> set running'"
    if "(n, c) \<in> set running \<and> runs_as apps n c" for n c
    using that one unfolding supervisor_set_members [OF names set] by blast
  ultimately show ?thesis
    using supervisor_set_carried_out [OF names run set] supervisor_set_names [OF names set] by blast
qed

theorem supervisor_follows_registry_witness:
  "carryOut (fst (supervisor_set [demo_app] [(''files'', demo_app\<lparr>app_address := ''x''\<rparr>), (''old'', demo_app)]))
       [(''files'', demo_app\<lparr>app_address := ''x''\<rparr>), (''old'', demo_app)]
     = Some (snd (supervisor_set [demo_app] [(''files'', demo_app\<lparr>app_address := ''x''\<rparr>), (''old'', demo_app)]))"
proof -
  let ?run = "[(''files'', demo_app\<lparr>app_address := ''x''\<rparr>), (''old'', demo_app)]"
  obtain ev r' where set: "supervisor_set [demo_app] ?run = (ev, r')" by fastforce
  have "carryOut ev ?run = Some r'"
    using supervisor_follows_registry [OF _ _ set] by (simp add: appNames_def)
  then show ?thesis using set by simp
qed

section \<open>How long a restart waits\<close>

text \<open>The loop of \<^verbatim>\<open>superviseApp\<close>: each round is how long the child stayed up and a random draw; the pauses come out.\<close>

fun superviseApp :: "(string \<Rightarrow> listening) \<Rightarrow> nat option \<Rightarrow> (int \<times> int) list \<Rightarrow> app \<Rightarrow> int \<Rightarrow> int list" where
  "superviseApp listen freePort [] a wait = []"
| "superviseApp listen freePort ((uptime, r) # rounds) a wait =
     (case superviseRound listen freePort uptime r a wait of
        ((a', _), pause, wait') \<Rightarrow> pause # superviseApp listen freePort rounds a' wait')"

lemma superviseApp_bounded:
  "appBackoffMin \<le> wait \<Longrightarrow> wait \<le> appBackoffMax \<Longrightarrow> p \<in> set (superviseApp listen freePort rounds a wait) \<Longrightarrow>
   second div 2 \<le> p \<and> p \<le> minute"
proof (induction rounds arbitrary: a wait)
  case (Cons x rounds)
  obtain uptime r where x: "x = (uptime, r)" by (cases x)
  obtain a' m where move: "withFreePort listen freePort a = (a', m)" by fastforce
  let ?w = "if uptime \<ge> appSettled then appBackoffMin else wait"
  let ?n = "nextWait appBackoffMin appBackoffMax (uptime \<ge> appSettled) wait"
  have "second \<le> ?w" "?w \<le> minute" using Cons.prems(1,2) by (auto simp: appBackoffMin_def appBackoffMax_def)
  then have j: "second div 2 \<le> jittered ?w r \<and> jittered ?w r \<le> minute"
    using jittered_bounds [of ?w r] by linarith
  have "appBackoffMin \<le> ?n" "?n \<le> appBackoffMax"
    using app_retry.step_bounds [OF Cons.prems(1)] by auto
  from Cons.IH [OF this, of a'] show ?case
    using Cons.prems(3) j x move by (auto simp: superviseRound_def Let_def)
qed simp

text \<open>
  A crashing application is restarted neither in a spin nor never: whatever it does, every pause before a restart
  is between half a second and a minute.
\<close>

theorem restart_pauses_bounded:
  "\<forall>p \<in> set (superviseApp listen freePort rounds a appBackoffMin). second div 2 \<le> p \<and> p \<le> minute"
  using superviseApp_bounded [of appBackoffMin] by (auto simp: appBackoffMin_def appBackoffMax_def)

theorem restart_pauses_bounded_witness:
  "\<exists>p. superviseApp (\<lambda>_. Listens) None [(5, 7)] demo_app appBackoffMin = [p] \<and> second div 2 \<le> p \<and> p \<le> minute"
  using restart_pauses_bounded [of "\<lambda>_. Listens" None "[(5, 7)]" demo_app]
  by (simp add: superviseRound_def Let_def split: prod.splits)

section \<open>Log lines\<close>

lemma takeLines_append:
  "takeLines acc (s @ t) = (case takeLines acc s of (ls, r) \<Rightarrow> case takeLines r t of (ms, r') \<Rightarrow> (ls @ ms, r'))"
  by (induction acc s rule: takeLines.induct) (auto split: prod.splits)

lemma takeLines_acc: "newline \<notin> set p \<Longrightarrow> takeLines acc (p @ s) = takeLines (acc @ p) s"
  by (induction p arbitrary: acc) auto

lemma takeLines_rest: "newline \<notin> set acc \<Longrightarrow> takeLines acc s = (ls, r) \<Longrightarrow> newline \<notin> set r"
  by (induction acc s arbitrary: ls rule: takeLines.induct) (auto split: if_splits prod.splits)

fun writeAll :: "string list \<Rightarrow> string \<Rightarrow> string list \<times> string" where
  "writeAll [] rest = ([], rest)"
| "writeAll (p # ps) rest = (case appLog_Write rest p of (ls, r) \<Rightarrow> case writeAll ps r of (ms, r') \<Rightarrow> (ls @ ms, r'))"

text \<open>
  The lines of a child's output do not depend on how the pipe cut it into pieces: as long as what waits for its
  newline stays within the cap, writing the pieces gives the lines of the whole.
\<close>

theorem log_lines_any_chunking:
  assumes "newline \<notin> set rest"
    and "\<And>k. length (snd (takeLines rest (concat (take k ps)))) \<le> maxAppLogLine"
  shows "writeAll ps rest = takeLines rest (concat ps)"
  using assms
proof (induction ps arbitrary: rest)
  case (Cons p ps)
  obtain ls r where l: "takeLines rest p = (ls, r)" by (cases "takeLines rest p")
  have whole: "takeLines [] (rest @ p) = (ls, r)" using takeLines_acc [OF Cons.prems(1), of "[]" p] l by simp
  have short: "length r \<le> maxAppLogLine" using Cons.prems(2) [of 1] l by simp
  have r: "newline \<notin> set r" using takeLines_rest [OF Cons.prems(1) l] .
  have "length (snd (takeLines r (concat (take k ps)))) \<le> maxAppLogLine" for k
    using Cons.prems(2) [of "Suc k"] l by (simp add: takeLines_append split: prod.splits)
  from Cons.IH [OF r this] show ?case
    using short whole l by (simp add: appLog_Write_def takeLines_append split: prod.splits)
qed simp

theorem log_lines_any_chunking_witness:
  "writeAll [''ab'', ''c'' @ [newline], ''d''] [] = ([''abc''], ''d'')"
proof -
  have short: "length (snd (takeLines [] (concat (take k [''ab'', ''c'' @ [newline], ''d''])))) \<le> maxAppLogLine" for k
    by (cases k; cases "k - 1"; cases "k - 2") (auto simp: maxAppLogLine_def newline_def take_Cons' split: if_splits)
  show ?thesis
    using log_lines_any_chunking [OF _ short] by (simp add: newline_def)
qed

end
