(* ===== verification/AgentCore.thy ===== *)
theory AgentCore
  imports Supervisor "HOL-Library.Word"
begin

text \<open>
  The agent's own state and what changes it: \<^verbatim>\<open>device/agent/enrol.go\<close>, \<^verbatim>\<open>login.go\<close>, the tunnel client's decisions in
  \<^verbatim>\<open>tunnel.go\<close>, and the handlers of \<^verbatim>\<open>settings.go\<close> that change shares.  The server's answers are a list the agent
  draws from, one per request; what was sent is kept beside it.  What \<^verbatim>\<open>setApps\<close> starts in the background, telling
  the server, is the separate operation \<open>pushApps\<close>.
\<close>

section \<open>The agent\<close>

definition deviceID :: "golib \<Rightarrow> string \<Rightarrow> string" where
  "deviceID lib seed = hex_encode (lib_sha256 lib (lib_public lib seed))"

definition publicHex :: "golib \<Rightarrow> string \<Rightarrow> string" where
  "publicHex lib seed = hex_encode (lib_public lib seed)"

record login =
  lg_code :: string
  lg_url :: string
  lg_waiting :: bool
  lg_error :: "aerr option"

definition noLogin :: login where
  "noLogin = \<lparr>lg_code = [], lg_url = [], lg_waiting = False, lg_error = None\<rparr>"

text \<open>The bodies the agent signs and posts, and what comes back: the fields of a 200, or a refusal with its message.\<close>

datatype payload =
    EnrolBody string string string
  | AppsBody "(string \<times> string) list"
  | StartBody string
  | PollBody string
  | UnenrolBody

record answer =
  an_deviceID :: string
  an_userCode :: string
  an_approveURL :: string
  an_interval :: int
  an_status :: string
  an_token :: string

datatype reply = Unreachable | Refused nat string | Garbled | Answered answer

record agent =
  ag_seed :: string
  ag_st :: state
  ag_login :: login
  ag_disk :: disk
  ag_routes :: "app list"
  ag_running :: children
  ag_net :: "reply list"
  ag_sent :: "(string \<times> string \<times> payload) list"

text \<open>What the agent takes from outside: the crypto, \<^verbatim>\<open>url.Parse\<close>, the JSON codec and the text of a status.\<close>

record agentenv =
  ae_lib :: golib
  ae_url :: "string \<Rightarrow> url option"
  ae_codec :: codec
  ae_statusText :: "nat \<Rightarrow> string"

definition newAgent :: "string \<Rightarrow> state \<Rightarrow> disk \<Rightarrow> agent" where
  "newAgent seed st d = \<lparr>ag_seed = seed, ag_st = st, ag_login = noLogin, ag_disk = d, ag_routes = [], ag_running = [],
     ag_net = [], ag_sent = []\<rparr>"

definition save :: "agentenv \<Rightarrow> state \<Rightarrow> agent \<Rightarrow> aerr option \<times> agent" where
  "save env st ag = (case saveState (ae_codec env) st (ag_disk ag) of (e, d) \<Rightarrow> (e, ag\<lparr>ag_disk := d\<rparr>))"

section \<open>Shares\<close>

text \<open>What \<^verbatim>\<open>serve\<close> hangs on a change: the applications first, then the gateway's routes.\<close>

definition onApps :: "app list \<Rightarrow> agent \<Rightarrow> agent" where
  "onApps apps ag = ag\<lparr>ag_running := snd (supervisor_set apps (ag_running ag)), ag_routes := apps\<rparr>"

definition setApps :: "agentenv \<Rightarrow> app list \<Rightarrow> agent \<Rightarrow> aerr option \<times> agent" where
  "setApps env apps ag =
     (let nxt = (ag_st ag)\<lparr>st_apps := apps\<rparr> in
      case validate (ae_url env) nxt of
        Some e \<Rightarrow> (Some e, ag)
      | None \<Rightarrow> (case save env nxt ag of
          (Some e, ag') \<Rightarrow> (Some e, ag')
        | (None, ag') \<Rightarrow> (None, onApps apps (ag'\<lparr>ag_st := nxt\<rparr>))))"

definition moveApp :: "agentenv \<Rightarrow> app \<Rightarrow> agent \<Rightarrow> agent" where
  "moveApp env moved ag =
     snd (setApps env (map (\<lambda>a. if app_name a = app_name moved then moved else a) (st_apps (ag_st ag))) ag)"

definition addShare ::
  "agentenv \<Rightarrow> osenv \<Rightarrow> nat option \<Rightarrow> (string \<times> string) option \<Rightarrow> agent \<Rightarrow> (nat + share) \<times> agent" where
  "addShare env os freePort inp ag = (case inp of None \<Rightarrow> (Inl 400, ag)
   | Some (path, name) \<Rightarrow>
     let apps = st_apps (ag_st ag) in
     (case newShare (ae_lib env) os freePort path name apps of
        Inl _ \<Rightarrow> (Inl 400, ag)
      | Inr a \<Rightarrow> (case setApps env (apps @ [a]) ag of
          (Some _, ag') \<Rightarrow> (Inl 400, ag') | (None, ag') \<Rightarrow> (Inr (shareOf os a), ag'))))"

fun dropFirst :: "string \<Rightarrow> app list \<Rightarrow> app list option" where
  "dropFirst name [] = None"
| "dropFirst name (a # apps) = (if app_name a = name then Some apps else map_option ((#) a) (dropFirst name apps))"

definition removeShare :: "agentenv \<Rightarrow> osenv \<Rightarrow> string \<Rightarrow> agent \<Rightarrow> (nat + share list) \<times> agent" where
  "removeShare env os name ag = (case dropFirst name (st_apps (ag_st ag)) of
      None \<Rightarrow> (Inl 404, ag)
    | Some kept \<Rightarrow> (case setApps env kept ag of
        (Some _, ag') \<Rightarrow> (Inl 400, ag') | (None, ag') \<Rightarrow> (Inr (shares os kept), ag')))"

definition setErrorReports :: "agentenv \<Rightarrow> bool \<Rightarrow> agent \<Rightarrow> aerr option \<times> agent" where
  "setErrorReports env on ag =
     (let nxt = (ag_st ag)\<lparr>st_reportsOff := \<not> on\<rparr> in
      case save env nxt ag of (Some e, ag') \<Rightarrow> (Some e, ag') | (None, ag') \<Rightarrow> (None, ag'\<lparr>ag_st := nxt\<rparr>))"

text \<open>\<^verbatim>\<open>loadAgent\<close> with the device key at hand, and the part of \<^verbatim>\<open>serve\<close> that brings the shares up.\<close>

definition loadAgent :: "agentenv \<Rightarrow> string option \<Rightarrow> string \<Rightarrow> disk \<Rightarrow> aerr + agent" where
  "loadAgent env hostname seed d = (case loadState (ae_url env) (ae_codec env) hostname d of
      (Inl e, _) \<Rightarrow> Inl e | (Inr st, d') \<Rightarrow> Inr (newAgent seed st d'))"

definition serveAgent :: "agentenv \<Rightarrow> string option \<Rightarrow> string \<Rightarrow> disk \<Rightarrow> aerr + agent" where
  "serveAgent env hostname seed d = (case loadAgent env hostname seed d of
      Inl e \<Rightarrow> Inl e | Inr ag \<Rightarrow> Inr (onApps (st_apps (ag_st ag)) ag))"

section \<open>Talking to the server\<close>

definition serverAnswerError :: "(nat \<Rightarrow> string) \<Rightarrow> nat \<Rightarrow> string \<Rightarrow> aerr" where
  "serverAnswerError statusText status msg = ServerError status (if msg = [] then statusText status else msg)"

text \<open>\<open>out\<close> says whether the caller reads the answer: the body of a 200 nobody reads need not parse.\<close>

definition noAnswer :: answer where
  "noAnswer = \<lparr>an_deviceID = [], an_userCode = [], an_approveURL = [], an_interval = 0, an_status = [], an_token = []\<rparr>"

definition post :: "agentenv \<Rightarrow> bool \<Rightarrow> string \<Rightarrow> string \<Rightarrow> payload \<Rightarrow> agent \<Rightarrow> (aerr + answer) \<times> agent" where
  "post env out server path body ag =
     (let ag' = ag\<lparr>ag_sent := ag_sent ag @ [(server, path, body)], ag_net := tl (ag_net ag)\<rparr> in
      ((case (if ag_net ag = [] then Unreachable else hd (ag_net ag)) of
          Unreachable \<Rightarrow> Inl NoAnswer
        | Refused status msg \<Rightarrow> Inl (serverAnswerError (ae_statusText env) status msg)
        | Garbled \<Rightarrow> if out then Inl BadAnswer else Inr noAnswer
        | Answered a \<Rightarrow> Inr a), ag'))"

definition agent_syncApps :: "agentenv \<Rightarrow> string \<Rightarrow> state \<Rightarrow> agent \<Rightarrow> aerr option \<times> agent" where
  "agent_syncApps env server st ag =
     (case post env False server ''/v1/devices/apps'' (AppsBody (map (\<lambda>a. (app_name a, app_type a)) (st_apps st))) ag of
        (Inl e, ag') \<Rightarrow> (Some e, ag') | (Inr _, ag') \<Rightarrow> (None, ag'))"

definition pushApps :: "agentenv \<Rightarrow> agent \<Rightarrow> agent" where
  "pushApps env ag =
     (if enrolled (ag_st ag) then snd (agent_syncApps env (st_server (ag_st ag)) (ag_st ag) ag) else ag)"

definition enrol :: "agentenv \<Rightarrow> string \<Rightarrow> string \<Rightarrow> agent \<Rightarrow> aerr option \<times> agent" where
  "enrol env server0 token ag = (case cleanServerURL (ae_url env) server0 of
      Inl e \<Rightarrow> (Some e, ag)
    | Inr server \<Rightarrow>
      if trimSpace token = [] then (Some NoToken, ag)
      else (case post env True server ''/v1/devices/enrol''
              (EnrolBody (publicHex (ae_lib env) (ag_seed ag)) (st_name (ag_st ag)) (trimSpace token)) ag of
          (Inl e, ag1) \<Rightarrow> (Some e, ag1)
        | (Inr out, ag1) \<Rightarrow>
          if an_deviceID out \<noteq> deviceID (ae_lib env) (ag_seed ag) then (Some WrongDevice, ag1)
          else (case agent_syncApps env server (ag_st ag) ag1 of
              (Some e, ag2) \<Rightarrow> (Some e, ag2)
            | (None, ag2) \<Rightarrow>
              let st' = (ag_st ag2)\<lparr>st_server := server, st_deviceID := an_deviceID out\<rparr> in
              save env st' (ag2\<lparr>ag_st := st'\<rparr>))))"

definition forgetAccount :: "agentenv \<Rightarrow> string \<Rightarrow> agent \<Rightarrow> aerr option \<times> agent" where
  "forgetAccount env server ag =
     (let ag' = (if st_server (ag_st ag) = server
                 then ag\<lparr>ag_st := (ag_st ag)\<lparr>st_server := [], st_deviceID := []\<rparr>, ag_login := noLogin\<rparr> else ag)
      in save env (ag_st ag') ag')"

definition logout :: "agentenv \<Rightarrow> agent \<Rightarrow> aerr option \<times> agent" where
  "logout env ag =
     (if \<not> enrolled (ag_st ag) then (None, ag)
      else case post env False (st_server (ag_st ag)) ''/v1/devices/unenrol'' UnenrolBody ag of
        (Inl e, ag') \<Rightarrow> (Some e, ag')
      | (Inr _, ag') \<Rightarrow> forgetAccount env (st_server (ag_st ag)) ag')"

section \<open>Signing in\<close>

definition loginPollEvery :: int where "loginPollEvery = 5 * second"
definition loginMaxWait :: int where "loginMaxWait = 15 * minute"

text \<open>A number of seconds as a \<^verbatim>\<open>time.Duration\<close>, whose product wraps at 64 bits.\<close>

definition inSeconds :: "int \<Rightarrow> int" where
  "inSeconds n = sint (word_of_int (n * second) :: 64 word)"

definition answered :: "nat \<Rightarrow> bool" where
  "answered status \<longleftrightarrow> 400 \<le> status \<and> status < 500 \<and> status \<noteq> 429"

text \<open>
  The loop of \<^verbatim>\<open>pollUntilAnswered\<close>.  \<open>left\<close> is what is left of the time the waiting may take; the interval only
  grows, so the number of rounds is bounded by the first one.  Only \<^verbatim>\<open>startLogin\<close> starts it, with a positive
  interval, so the guard on an interval that is not positive is never taken.  A request takes no time here: the pauses alone
  count against \<open>left\<close>, so a slow server makes the code stop earlier than the model, never later.  An answer that
  cannot be decoded is a failed poll; its interval is dropped, where Go's decoder stores one that stands beside a field of the wrong type.
\<close>

function pollUntilAnswered :: "agentenv \<Rightarrow> string \<Rightarrow> string \<Rightarrow> int \<Rightarrow> int \<Rightarrow> agent \<Rightarrow> aerr option \<times> agent" where
  "pollUntilAnswered env server code every left ag =
     (case post env True server ''/v1/devices/enrolment/poll'' (PollBody code) ag of (res, ag1) \<Rightarrow>
        let wait = (\<lambda>interval. let e = (if inSeconds interval > every then inSeconds interval else every) in
              if e \<le> 0 \<or> left \<le> e then (Some TimedOut, ag1) else pollUntilAnswered env server code e (left - e) ag1) in
        (case res of
           Inl e \<Rightarrow> (case e of
               ServerError status msg \<Rightarrow> if answered status then (Some (ServerError status msg), ag1) else wait 0
             | _ \<Rightarrow> wait 0)
         | Inr out \<Rightarrow> if an_status out \<noteq> ''pending'' then enrol env server (an_token out) ag1 else wait (an_interval out)))"
  by pat_completeness auto

termination pollUntilAnswered
  by (relation "measure (\<lambda>(env, server, code, every, left, ag). nat left)") auto

declare pollUntilAnswered.simps [simp del]

definition awaitApproval :: "agentenv \<Rightarrow> string \<Rightarrow> string \<Rightarrow> int \<Rightarrow> agent \<Rightarrow> agent" where
  "awaitApproval env server code every ag =
     (case pollUntilAnswered env server code every loginMaxWait ag of
        (None, ag') \<Rightarrow> ag'\<lparr>ag_login := noLogin\<rparr>
      | (Some e, ag') \<Rightarrow> ag'\<lparr>ag_login := (ag_login ag')\<lparr>lg_waiting := False, lg_error := Some e\<rparr>\<rparr>)"

text \<open>\<^verbatim>\<open>startLogin\<close>, and what it leaves running: the server, the code and the interval to poll with.\<close>

definition startLogin ::
  "agentenv \<Rightarrow> string \<Rightarrow> agent \<Rightarrow> (aerr + (string \<times> string \<times> int) option) \<times> agent" where
  "startLogin env server0 ag = (case cleanServerURL (ae_url env) server0 of
      Inl e \<Rightarrow> (Inl e, ag)
    | Inr server \<Rightarrow>
      if enrolled (ag_st ag) then (Inl AlreadyEnrolled, ag)
      else if lg_waiting (ag_login ag) then (Inr None, ag)
      else (case post env True server ''/v1/devices/enrolment/start'' (StartBody (st_name (ag_st ag))) ag of
          (Inl e, ag1) \<Rightarrow> (Inl e, ag1)
        | (Inr out, ag1) \<Rightarrow>
          if an_userCode out = [] then (Inl NoCode, ag1)
          else (let every = (if inSeconds (an_interval out) \<le> 0 then loginPollEvery else inSeconds (an_interval out)) in
            (Inr (Some (server, an_userCode out, every)),
             ag1\<lparr>ag_login := \<lparr>lg_code = an_userCode out, lg_url = an_approveURL out, lg_waiting = True, lg_error = None\<rparr>\<rparr>))))"

section \<open>The tunnel\<close>

datatype handshake = DialFails | HandshakeFails | HandshakeStatus nat

definition tunnelBackoffMin :: int where "tunnelBackoffMin = second"
definition tunnelBackoffMax :: int where "tunnelBackoffMax = minute"

text \<open>Whether the tunnel came up, and the agent after it; a 410 says an admin removed this PC.\<close>

definition tunnelOnce :: "agentenv \<Rightarrow> handshake \<Rightarrow> agent \<Rightarrow> bool \<times> agent" where
  "tunnelOnce env hs ag =
     (if \<not> enrolled (ag_st ag) then (False, ag)
      else case hs of
        DialFails \<Rightarrow> (False, ag)
      | HandshakeFails \<Rightarrow> (False, ag)
      | HandshakeStatus status \<Rightarrow>
          if status = 101 then (True, pushApps env ag)
          else if status = 410 then (False, snd (forgetAccount env (st_server (ag_st ag)) ag))
          else (False, ag))"

text \<open>The waits of \<^verbatim>\<open>runTunnel\<close>, one per attempt.\<close>

fun runTunnel :: "agentenv \<Rightarrow> (handshake \<times> int) list \<Rightarrow> int \<Rightarrow> agent \<Rightarrow> int list \<times> agent" where
  "runTunnel env [] wait ag = ([], ag)"
| "runTunnel env ((hs, r) # rest) wait ag =
     (case tunnelOnce env hs ag of (connected, ag') \<Rightarrow>
        let w = (if connected then tunnelBackoffMin else wait) in
        case runTunnel env rest (nextWait tunnelBackoffMin tunnelBackoffMax connected wait) ag' of
          (ws, ag'') \<Rightarrow> (jittered w r # ws, ag''))"

interpretation tunnel_retry: retry tunnelBackoffMin tunnelBackoffMax "nextWait tunnelBackoffMin tunnelBackoffMax"
  by unfold_locales (simp_all add: tunnelBackoffMin_def tunnelBackoffMax_def nextWait_def)

end
