(* ===== verification/AgentFacts.thy ===== *)
theory AgentFacts
  imports AgentCore
begin

text \<open>
  The agent as a machine: every operation that changes it, in any order, with the server answering anything and the
  disk failing at any time.  Two invariants are instances of one contract: the registry stays valid and keeps this PC's
  own id, and, while writes work, the file, the registry, the routes and the running applications never disagree.
\<close>

section \<open>Operations\<close>

datatype agentOp =
    AddShare osenv "nat option" "(string \<times> string) option"
  | RemoveShare osenv string
  | MoveApp app
  | SetErrorReports bool
  | PushApps
  | Enrol string string
  | StartLogin string
  | AwaitApproval string string int
  | Logout
  | TunnelOnce handshake
  | ServerAnswers "reply list"
  | FileOps "fileOp list"

fun agentDo :: "agentenv \<Rightarrow> agentOp \<Rightarrow> agent \<Rightarrow> agent" where
  "agentDo env (AddShare os fp inp) ag = snd (addShare env os fp inp ag)"
| "agentDo env (RemoveShare os name) ag = snd (removeShare env os name ag)"
| "agentDo env (MoveApp a) ag = moveApp env a ag"
| "agentDo env (SetErrorReports on) ag = snd (setErrorReports env on ag)"
| "agentDo env PushApps ag = pushApps env ag"
| "agentDo env (Enrol server token) ag = snd (enrol env server token ag)"
| "agentDo env (StartLogin server) ag = snd (startLogin env server ag)"
| "agentDo env (AwaitApproval server code every) ag = awaitApproval env server code every ag"
| "agentDo env Logout ag = snd (logout env ag)"
| "agentDo env (TunnelOnce hs) ag = snd (tunnelOnce env hs ag)"
| "agentDo env (ServerAnswers rs) ag = ag\<lparr>ag_net := rs\<rparr>"
| "agentDo env (FileOps ops) ag = ag\<lparr>ag_disk := (ag_disk ag)\<lparr>dk_ops := ops\<rparr>\<rparr>"

definition agentRun :: "agentenv \<Rightarrow> agentOp list \<Rightarrow> agent \<Rightarrow> agent" where
  "agentRun env ops ag = fold (agentDo env) ops ag"

text \<open>
  An address reads back when the origin it is cut down to is an address with that same origin.  Every ordinary address
  does; one whose host is an escaped space does not.
\<close>

definition readsBack :: "(string \<Rightarrow> url option) \<Rightarrow> string \<Rightarrow> bool" where
  "readsBack urlParse raw = (case cleanServerURL urlParse raw of Inl _ \<Rightarrow> True | Inr origin \<Rightarrow> cleanServerURL urlParse origin = Inr origin)"

fun opServer :: "agentOp \<Rightarrow> string" where
  "opServer (Enrol server token) = server"
| "opServer (AwaitApproval server code every) = server"
| "opServer _ = []"

fun opFaults :: "agentOp \<Rightarrow> fileOp set" where
  "opFaults (FileOps ops) = set ops"
| "opFaults _ = {}"

definition allowedOp :: "agentenv \<Rightarrow> fileOp set \<Rightarrow> agentOp \<Rightarrow> bool" where
  "allowedOp env faults op \<longleftrightarrow> readsBack (ae_url env) (opServer op) \<and> opFaults op \<subseteq> faults"

section \<open>What one request to the server does to the agent\<close>

lemma post_agent: "post env out server path body ag = (res, ag') \<Longrightarrow>
    ag' = ag\<lparr>ag_net := tl (ag_net ag), ag_sent := ag_sent ag @ [(server, path, body)]\<rparr>"
  by (auto simp: post_def Let_def)

lemma cleanServerURL_ne: "cleanServerURL urlParse raw = Inr s \<Longrightarrow> s \<noteq> []"
  by (auto simp: cleanServerURL_def Let_def split: if_splits option.splits)

definition joins :: "agentenv \<Rightarrow> string \<Rightarrow> agent \<Rightarrow> agent" where
  "joins env server ag = (let st = (ag_st ag)\<lparr>st_server := server, st_deviceID := deviceID (ae_lib env) (ag_seed ag)\<rparr>
     in snd (save env st (ag\<lparr>ag_st := st\<rparr>)))"

definition leaves :: "agentenv \<Rightarrow> agent \<Rightarrow> agent" where
  "leaves env ag = (let st = (ag_st ag)\<lparr>st_server := [], st_deviceID := []\<rparr>
     in snd (save env st (ag\<lparr>ag_st := st, ag_login := noLogin\<rparr>)))"

lemma joins_result: "save env st ag = (e, ag') \<Longrightarrow> e = None \<or> e = Some WriteFailed"
  by (auto simp: save_def saveState_def split: prod.splits fileOp.splits)

definition enrolRequests :: "agentenv \<Rightarrow> string \<Rightarrow> string \<Rightarrow> agent \<Rightarrow> (string \<times> string \<times> payload) list" where
  "enrolRequests env server token ag =
     [(server, ''/v1/devices/enrol'', EnrolBody (publicHex (ae_lib env) (ag_seed ag)) (st_name (ag_st ag)) (trimSpace token)),
      (server, ''/v1/devices/apps'', AppsBody (map (\<lambda>a. (app_name a, app_type a)) (st_apps (ag_st ag))))]"

lemma syncApps_agent:
  "agent_syncApps env server st ag = (e, ag') \<Longrightarrow>
   ag' = ag\<lparr>ag_net := tl (ag_net ag),
     ag_sent := ag_sent ag @ [(server, ''/v1/devices/apps'', AppsBody (map (\<lambda>a. (app_name a, app_type a)) (st_apps st)))]\<rparr>"
  by (auto simp: agent_syncApps_def split: prod.splits sum.splits dest: post_agent)

lemma enrol_cases:
  assumes "enrol env raw token ag = (e, ag')"
  obtains (refused) answers sent where "ag' = ag\<lparr>ag_net := answers, ag_sent := sent\<rparr>" "e \<noteq> None"
      "length sent \<le> length (ag_sent ag) + 2"
  | (joined) answers sent server where "cleanServerURL (ae_url env) raw = Inr server"
      "ag' = joins env server (ag\<lparr>ag_net := answers, ag_sent := sent\<rparr>)" "e = None \<or> e = Some WriteFailed"
      "sent = ag_sent ag @ enrolRequests env server token ag"
proof (cases "cleanServerURL (ae_url env) raw")
  case (Inl x)
  then have "ag' = ag\<lparr>ag_net := ag_net ag, ag_sent := ag_sent ag\<rparr>" "e \<noteq> None" using assms by (auto simp: enrol_def)
  then show thesis by (rule refused) simp
next
  case (Inr server)
  let ?body = "EnrolBody (publicHex (ae_lib env) (ag_seed ag)) (st_name (ag_st ag)) (trimSpace token)"
  obtain r ag1 where p: "post env True server ''/v1/devices/enrol'' ?body ag = (r, ag1)" by fastforce
  note ag1 = post_agent [OF p]
  obtain e2 ag2 where s: "agent_syncApps env server (ag_st ag) ag1 = (e2, ag2)" by fastforce
  note ag2 = syncApps_agent [OF s]
  show thesis
  proof (cases "trimSpace token = []")
    case True
    then have "ag' = ag\<lparr>ag_net := ag_net ag, ag_sent := ag_sent ag\<rparr>" "e \<noteq> None" using assms Inr by (auto simp: enrol_def)
    then show thesis by (rule refused) simp
  next
    case token: False
    show thesis
    proof (cases "\<exists>out. r = Inr out \<and> an_deviceID out = deviceID (ae_lib env) (ag_seed ag) \<and> e2 = None")
      case True
      then obtain out where out: "r = Inr out" "an_deviceID out = deviceID (ae_lib env) (ag_seed ag)" "e2 = None" by blast
      have run: "save env ((ag_st ag2)\<lparr>st_server := server, st_deviceID := an_deviceID out\<rparr>)
          (ag2\<lparr>ag_st := (ag_st ag2)\<lparr>st_server := server, st_deviceID := an_deviceID out\<rparr>\<rparr>) = (e, ag')"
        using assms Inr token p s out by (simp add: enrol_def Let_def)
      have ag2': "ag2 = ag\<lparr>ag_net := tl (tl (ag_net ag)), ag_sent := ag_sent ag @ enrolRequests env server token ag\<rparr>"
        by (simp add: ag2 ag1 enrolRequests_def)
      have "ag' = joins env server (ag\<lparr>ag_net := tl (tl (ag_net ag)), ag_sent := ag_sent ag @ enrolRequests env server token ag\<rparr>)"
        using run out(2) by (simp add: joins_def Let_def ag2')
      then show thesis using joined Inr joins_result [OF run] by blast
    next
      case False
      then have "e \<noteq> None" "ag' = ag1 \<or> ag' = ag2"
        using assms Inr token p s by (auto simp: enrol_def split: sum.splits if_splits option.splits)
      moreover have "ag1 = ag\<lparr>ag_net := tl (ag_net ag), ag_sent := ag_sent ag1\<rparr>"
        "ag2 = ag\<lparr>ag_net := tl (tl (ag_net ag)), ag_sent := ag_sent ag2\<rparr>"
        "length (ag_sent ag1) \<le> length (ag_sent ag) + 2" "length (ag_sent ag2) \<le> length (ag_sent ag) + 2"
        by (simp_all add: ag2 ag1)
      ultimately show thesis using refused by metis
    qed
  qed
qed

lemma forgetAccount_cases:
  assumes "forgetAccount env server ag = (e, ag')"
  shows "ag' = (if st_server (ag_st ag) = server then leaves env ag else snd (save env (ag_st ag) ag))"
  using assms by (auto simp: forgetAccount_def leaves_def Let_def)

text \<open>One round of the polling: it ends with an answer, with the enrolment, or by waiting.\<close>

lemma pollUntilAnswered_round:
  assumes p: "post env True server ''/v1/devices/enrolment/poll'' (PollBody code) ag = (r, ag1)"
  obtains (ended) err where "pollUntilAnswered env server code every left ag = (Some err, ag1)"
  | (approved) out where "r = Inr out" "an_status out \<noteq> ''pending''"
      "pollUntilAnswered env server code every left ag = enrol env server (an_token out) ag1"
  | (waits) every' where "every \<le> every'" "0 < every'" "every' < left"
      "pollUntilAnswered env server code every left ag = pollUntilAnswered env server code every' (left - every') ag1"
proof -
  note unf = pollUntilAnswered.simps [of env server code every left ag, unfolded p prod.case Let_def]
  show thesis
  proof (cases r)
    case (Inl e)
    consider (ans) st msg where "e = ServerError st msg" "answered st" | (wait) "\<nexists>st msg. e = ServerError st msg \<and> answered st"
      by blast
    then show thesis
    proof cases
      case ans
      then show thesis using unf Inl by (intro ended) simp
    next
      case wait
      let ?e = "if inSeconds 0 > every then inSeconds 0 else every"
      have "pollUntilAnswered env server code every left ag = (if ?e \<le> 0 \<or> left \<le> ?e then (Some TimedOut, ag1)
          else pollUntilAnswered env server code ?e (left - ?e) ag1)"
        using unf Inl wait by (cases e) simp_all
      then show thesis using ended waits [of ?e] by (cases "?e \<le> 0 \<or> left \<le> ?e") auto
    qed
  next
    case (Inr out)
    let ?e = "if inSeconds (an_interval out) > every then inSeconds (an_interval out) else every"
    show thesis
    proof (cases "an_status out = ''pending''")
      case True
      then have "pollUntilAnswered env server code every left ag = (if ?e \<le> 0 \<or> left \<le> ?e then (Some TimedOut, ag1)
          else pollUntilAnswered env server code ?e (left - ?e) ag1)"
        using unf Inr by simp
      then show thesis using ended waits [of ?e] by (cases "?e \<le> 0 \<or> left \<le> ?e") auto
    next
      case False
      then show thesis using unf Inr by (intro approved) simp_all
    qed
  qed
qed

lemma pollUntilAnswered_cases:
  assumes "pollUntilAnswered env server code every left ag = (e, ag')"
  obtains (gaveUp) answers sent where "ag' = ag\<lparr>ag_net := answers, ag_sent := sent\<rparr>" "e \<noteq> None"
  | (approved) answers sent token where "enrol env server token (ag\<lparr>ag_net := answers, ag_sent := sent\<rparr>) = (e, ag')"
proof -
  have "(\<exists>answers sent. ag' = ag\<lparr>ag_net := answers, ag_sent := sent\<rparr> \<and> e \<noteq> None) \<or>
      (\<exists>answers sent token. enrol env server token (ag\<lparr>ag_net := answers, ag_sent := sent\<rparr>) = (e, ag'))"
    using assms
  proof (induction "nat left" arbitrary: every left ag rule: less_induct)
    case less
    obtain r ag1 where p: "post env True server ''/v1/devices/enrolment/poll'' (PollBody code) ag = (r, ag1)" by fastforce
    have frame: "ag1\<lparr>ag_net := n, ag_sent := s\<rparr> = ag\<lparr>ag_net := n, ag_sent := s\<rparr>" for n s by (simp add: post_agent [OF p])
    have same: "ag1 = ag\<lparr>ag_net := ag_net ag1, ag_sent := ag_sent ag1\<rparr>" by (simp add: post_agent [OF p])
    from p show ?case
    proof (cases rule: pollUntilAnswered_round [of _ _ _ _ _ _ every left])
      case (ended err)
      then have "e = Some err" "ag' = ag1" using less.prems by simp_all
      then show ?thesis using same by blast
    next
      case (approved out)
      then have "enrol env server (an_token out) ag1 = (e, ag')" using less.prems by simp
      then show ?thesis using same by metis
    next
      case (waits every')
      then have run: "pollUntilAnswered env server code every' (left - every') ag1 = (e, ag')" using less.prems by simp
      have "nat (left - every') < nat left" using waits by simp
      from less.hyps [OF this run] show ?thesis unfolding frame .
    qed
  qed
  then show thesis using that by blast
qed

section \<open>The contract of an invariant\<close>

locale agent_invariant =
  fixes env :: agentenv and faults :: "fileOp set" and I :: "agent \<Rightarrow> bool"
  assumes talks: "I ag \<Longrightarrow> I (ag\<lparr>ag_net := answers, ag_sent := sent\<rparr>)"
    and signsIn: "I ag \<Longrightarrow> I (ag\<lparr>ag_login := l\<rparr>)"
    and fails: "I ag \<Longrightarrow> set ops \<subseteq> faults \<Longrightarrow> I (ag\<lparr>ag_disk := (ag_disk ag)\<lparr>dk_ops := ops\<rparr>\<rparr>)"
    and shares: "I ag \<Longrightarrow> I (snd (setApps env apps ag))"
    and reports: "I ag \<Longrightarrow> I (snd (setErrorReports env on ag))"
    and resaves: "I ag \<Longrightarrow> I (snd (save env (ag_st ag) ag))"
    and joining: "I ag \<Longrightarrow> cleanServerURL (ae_url env) server = Inr server \<Longrightarrow> I (joins env server ag)"
    and leaving: "I ag \<Longrightarrow> I (leaves env ag)"
begin

lemma keeps_net: "I ag \<Longrightarrow> I (ag\<lparr>ag_net := answers\<rparr>)"
  using talks [where ag = ag and answers = answers and sent = "ag_sent ag"] by simp

lemma keeps_post: "post env out server path body ag = (r, ag') \<Longrightarrow> I ag \<Longrightarrow> I ag'"
  by (drule post_agent) (simp only: talks)

lemma keeps_setApps: "setApps env apps ag = (e, ag') \<Longrightarrow> I ag \<Longrightarrow> I ag'"
  using shares [of ag apps] by simp

lemma keeps_addShare: "I ag \<Longrightarrow> I (snd (addShare env os fp inp ag))"
  by (auto simp: addShare_def Let_def split: option.splits sum.splits prod.splits dest: keeps_setApps)

lemma keeps_removeShare: "I ag \<Longrightarrow> I (snd (removeShare env os name ag))"
  by (auto simp: removeShare_def split: option.splits prod.splits dest: keeps_setApps)

lemma keeps_pushApps: "I ag \<Longrightarrow> I (pushApps env ag)"
  by (cases "agent_syncApps env (st_server (ag_st ag)) (ag_st ag) ag")
    (auto simp: pushApps_def dest!: syncApps_agent intro: talks)

lemma keeps_enrol: "enrol env raw token ag = (e, ag') \<Longrightarrow> readsBack (ae_url env) raw \<Longrightarrow> I ag \<Longrightarrow> I ag'"
  by (erule enrol_cases) (auto simp: readsBack_def intro: talks joining)

lemma keeps_forgetAccount: "I ag \<Longrightarrow> I (snd (forgetAccount env server ag))"
  using forgetAccount_cases [of env server ag] leaving resaves by (cases "forgetAccount env server ag") auto

lemma keeps_logout: "I ag \<Longrightarrow> I (snd (logout env ag))"
  using keeps_forgetAccount keeps_post by (auto simp: logout_def split: prod.splits sum.splits)

lemma keeps_awaitApproval: "readsBack (ae_url env) server \<Longrightarrow> I ag \<Longrightarrow> I (awaitApproval env server code every ag)"
proof -
  assume rb: "readsBack (ae_url env) server" and I: "I ag"
  obtain e ag' where run: "pollUntilAnswered env server code every loginMaxWait ag = (e, ag')" by fastforce
  from run have "I ag'"
    by (cases rule: pollUntilAnswered_cases) (use talks [OF I] keeps_enrol [OF _ rb] in blast)+
  then show ?thesis using run signsIn by (auto simp: awaitApproval_def split: option.splits)
qed

lemma keeps_startLogin: "I ag \<Longrightarrow> I (snd (startLogin env server ag))"
  using keeps_post signsIn by (auto simp: startLogin_def Let_def split: prod.splits sum.splits)

lemma keeps_tunnelOnce: "I ag \<Longrightarrow> I (snd (tunnelOnce env hs ag))"
  using keeps_pushApps keeps_forgetAccount by (cases hs) (auto simp: tunnelOnce_def)

lemma keeps_agentDo: "allowedOp env faults op \<Longrightarrow> I ag \<Longrightarrow> I (agentDo env op ag)"
proof (cases op)
  case (Enrol server token)
  then show "allowedOp env faults op \<Longrightarrow> I ag \<Longrightarrow> I (agentDo env op ag)"
    using keeps_enrol [of server token ag] by (cases "enrol env server token ag") (simp add: allowedOp_def)
qed (auto simp: allowedOp_def moveApp_def intro: keeps_addShare keeps_removeShare shares reports keeps_pushApps
    keeps_startLogin keeps_awaitApproval keeps_logout keeps_tunnelOnce keeps_net fails)

lemma keeps_agentRun: "list_all (allowedOp env faults) ops \<Longrightarrow> I ag \<Longrightarrow> I (agentRun env ops ag)"
  by (induction ops arbitrary: ag) (simp_all add: agentRun_def keeps_agentDo)

end

section \<open>The registry stays valid\<close>

text \<open>Guarded by what SHA-256 promises, so that it is an instance of the contract for every environment.\<close>

definition ownRegistry :: "agentenv \<Rightarrow> agent \<Rightarrow> bool" where
  "ownRegistry env ag \<longleftrightarrow> (length (lib_sha256 (ae_lib env) (lib_public (ae_lib env) (ag_seed ag))) = 32 \<longrightarrow>
     state_ok (ae_url env) (ag_st ag) \<and>
     (st_deviceID (ag_st ag) = [] \<or> st_deviceID (ag_st ag) = deviceID (ae_lib env) (ag_seed ag)))"

lemma deviceID_ok: "length (lib_sha256 lib (lib_public lib seed)) = 32 \<Longrightarrow> deviceIDPattern (deviceID lib seed)"
  by (auto simp: deviceIDPattern_def deviceID_def list_all_iff dest: hex_encode_lower)

lemma save_agent [simp]:
  "ag_seed (snd (save env st ag)) = ag_seed ag" "ag_st (snd (save env st ag)) = ag_st ag"
  "ag_routes (snd (save env st ag)) = ag_routes ag" "ag_running (snd (save env st ag)) = ag_running ag"
  by (simp_all add: save_def split: prod.splits)

lemma save_disk: "save env st ag = (e, ag') \<Longrightarrow> ag' = ag\<lparr>ag_disk := snd (saveState (ae_codec env) st (ag_disk ag))\<rparr>"
  by (auto simp: save_def split: prod.splits)

lemma setApps_cases:
  assumes "setApps env apps ag = (e, ag')"
  obtains (invalid) "e \<noteq> None" "ag' = ag" "\<not> state_ok (ae_url env) ((ag_st ag)\<lparr>st_apps := apps\<rparr>)"
  | (unwritten) d where "e = Some WriteFailed" "ag' = ag\<lparr>ag_disk := d\<rparr>"
      "saveState (ae_codec env) ((ag_st ag)\<lparr>st_apps := apps\<rparr>) (ag_disk ag) = (Some WriteFailed, d)"
  | (changed) d where "e = None" "state_ok (ae_url env) ((ag_st ag)\<lparr>st_apps := apps\<rparr>)"
      "saveState (ae_codec env) ((ag_st ag)\<lparr>st_apps := apps\<rparr>) (ag_disk ag) = (None, d)"
      "ag' = onApps apps (ag\<lparr>ag_disk := d, ag_st := (ag_st ag)\<lparr>st_apps := apps\<rparr>\<rparr>)"
proof -
  let ?st = "(ag_st ag)\<lparr>st_apps := apps\<rparr>"
  obtain e1 d where s: "saveState (ae_codec env) ?st (ag_disk ag) = (e1, d)" by fastforce
  then have e1: "e1 = None \<or> e1 = Some WriteFailed" by (auto simp: saveState_def split: prod.splits fileOp.splits)
  show thesis
  proof (cases "validate (ae_url env) ?st")
    case None
    then have ok: "state_ok (ae_url env) ?st" by (simp add: validate_iff)
    from e1 show thesis
    proof
      assume "e1 = None"
      then show thesis using changed ok s None assms by (auto simp: setApps_def Let_def save_def)
    next
      assume "e1 = Some WriteFailed"
      then show thesis using unwritten s None assms by (auto simp: setApps_def Let_def save_def)
    qed
  next
    case (Some x)
    then have "\<not> state_ok (ae_url env) ?st" by (simp flip: validate_iff)
    moreover have "e = Some x" "ag' = ag" using Some assms by (auto simp: setApps_def Let_def)
    ultimately show thesis by (intro invalid) simp_all
  qed
qed

lemma ownRegistry_cong: "ag_seed ag' = ag_seed ag \<Longrightarrow> ag_st ag' = ag_st ag \<Longrightarrow> ownRegistry env ag \<Longrightarrow> ownRegistry env ag'"
  by (simp add: ownRegistry_def)

interpretation valid: agent_invariant env UNIV "ownRegistry env" for env
proof unfold_locales
  fix ag apps assume I: "ownRegistry env ag"
  obtain e ag' where run: "setApps env apps ag = (e, ag')" by fastforce
  then show "ownRegistry env (snd (setApps env apps ag))"
    by (cases rule: setApps_cases) (use I in \<open>simp_all add: run ownRegistry_def onApps_def\<close>)
next
  fix ag server assume I: "ownRegistry env ag" and s: "cleanServerURL (ae_url env) server = Inr server"
  then show "ownRegistry env (joins env server ag)"
    by (auto simp: ownRegistry_def joins_def Let_def state_ok_def deviceID_ok)
next
  fix ag assume "ownRegistry env ag"
  then show "ownRegistry env (leaves env ag)"
    by (auto simp: ownRegistry_def leaves_def Let_def state_ok_def)
next
  fix ag on assume "ownRegistry env ag"
  then show "ownRegistry env (snd (setErrorReports env on ag))"
    by (auto simp: ownRegistry_def setErrorReports_def Let_def state_ok_def split: prod.splits option.splits dest: save_disk)
qed (auto intro: ownRegistry_cong)

lemma serveAgent_start:
  assumes "serveAgent env hostname seed d = Inr ag"
  shows "ag_seed ag = seed \<and> state_ok (ae_url env) (ag_st ag) \<and> ag_routes ag = st_apps (ag_st ag) \<and>
    ag_running ag = snd (supervisor_set (st_apps (ag_st ag)) []) \<and>
    loadState (ae_url env) (ae_codec env) hostname d = (Inr (ag_st ag), ag_disk ag)"
proof -
  obtain st d' where load: "loadState (ae_url env) (ae_codec env) hostname d = (Inr st, d')"
      and ag: "ag = onApps (st_apps st) (newAgent seed st d')"
    using assms by (auto simp: serveAgent_def loadAgent_def newAgent_def split: sum.splits prod.splits)
  show ?thesis
    using loadState_valid [OF load] load by (simp add: ag onApps_def newAgent_def)
qed

interpretation same_key: agent_invariant env UNIV "\<lambda>ag. ag_seed ag = seed" for env seed
proof unfold_locales
  fix ag :: agent and apps assume "ag_seed ag = seed"
  moreover obtain e ag' where run: "setApps env apps ag = (e, ag')" by fastforce
  ultimately show "ag_seed (snd (setApps env apps ag)) = seed"
    by (cases rule: setApps_cases [OF run]) (simp_all add: run onApps_def)
qed (auto simp: setErrorReports_def joins_def leaves_def Let_def split: prod.splits option.splits dest: save_disk)

text \<open>
  C8.  The registry of a PC is always valid and its own.  Whatever the server answers, whatever is shared, moved, signed in
  or out, and however the disk fails, an agent started from its own file keeps a registry that
  \<^const>\<open>state_ok\<close> accepts, so it can start again; and the device id it records is the one derived from its own key.
\<close>

theorem agent_registry_stays_valid:
  assumes start: "serveAgent env hostname seed d = Inr ag"
    and own: "st_deviceID (ag_st ag) = [] \<or> st_deviceID (ag_st ag) = deviceID (ae_lib env) seed"
    and sha256: "length (lib_sha256 (ae_lib env) (lib_public (ae_lib env) seed)) = 32"
    and ops: "list_all (allowedOp env UNIV) ops"
  shows "state_ok (ae_url env) (ag_st (agentRun env ops ag)) \<and>
    (enrolled (ag_st (agentRun env ops ag)) \<longrightarrow> st_deviceID (ag_st (agentRun env ops ag)) = deviceID (ae_lib env) seed)"
proof -
  have seed: "ag_seed ag = seed" and ok: "state_ok (ae_url env) (ag_st ag)"
    using serveAgent_start [OF start] by blast+
  have "ownRegistry env (agentRun env ops ag)"
    by (rule valid.keeps_agentRun [OF ops]) (use own ok seed in \<open>simp add: ownRegistry_def\<close>)
  then show ?thesis
    using sha256 same_key.keeps_agentRun [OF ops seed] by (auto simp: ownRegistry_def enrolled_def)
qed

section \<open>Nothing disagrees\<close>

definition runsLike :: "app list \<Rightarrow> children \<Rightarrow> bool" where
  "runsLike apps running \<longleftrightarrow> distinct (map fst running) \<and>
     fst ` set running = app_name ` {a \<in> set apps. app_command a \<noteq> []} \<and> (\<forall>n c. (n, c) \<in> set running \<longrightarrow> runs_as apps n c)"

definition readsAs :: "codec \<Rightarrow> state \<Rightarrow> disk \<Rightarrow> bool" where
  "readsAs cd st d = (case dk_file d of None \<Rightarrow> False | Some raw \<Rightarrow> cd_decode cd raw = Some st)"

definition inStep :: "agentenv \<Rightarrow> agent \<Rightarrow> bool" where
  "inStep env ag \<longleftrightarrow> (codec_ok (ae_codec env) \<longrightarrow>
     set (dk_ops (ag_disk ag)) \<subseteq> {Works} \<and> readsAs (ae_codec env) (ag_st ag) (ag_disk ag) \<and>
     ag_routes ag = st_apps (ag_st ag) \<and> runsLike (st_apps (ag_st ag)) (ag_running ag))"

lemma holds_readsAs: "codec_ok cd \<Longrightarrow> holds cd st d \<Longrightarrow> readsAs cd st d"
  by (simp add: holds_def readsAs_def codec_ok_def)

lemma supervisor_runsLike:
  assumes "distinct (appNames apps)" "distinct (map fst running)"
  shows "runsLike apps (snd (supervisor_set apps running))"
proof -
  obtain ev r' where set: "supervisor_set apps running = (ev, r')" by fastforce
  have "runs_as apps n c" if "(n, c) \<in> set r'" for n c
    using that unfolding supervisor_set_members(1) [OF assms(1) set] by (auto simp: runs_as_def)
  then show ?thesis
    using supervisor_set_carried_out [OF assms set] supervisor_set_names [OF assms(1) set] by (simp add: runsLike_def set)
qed

lemma saveState_works:
  "set (dk_ops d) \<subseteq> {Works} \<Longrightarrow> saveState cd st d = (e, d') \<Longrightarrow> e = None \<and> holds cd st d' \<and> set (dk_ops d') \<subseteq> {Works}"
  by (auto simp: saveState_def nextOp_def holds_def split: list.splits fileOp.splits prod.splits)

lemma inStep_save:
  assumes I: "inStep env ag" and s: "saveState (ae_codec env) st (ag_disk ag) = (e, d)"
    and same: "st_apps st = st_apps (ag_st ag)"
    and ag': "ag_st ag' = st" "ag_disk ag' = d" "ag_routes ag' = ag_routes ag" "ag_running ag' = ag_running ag"
  shows "inStep env ag'"
  unfolding inStep_def
proof
  assume codec: "codec_ok (ae_codec env)"
  then have "holds (ae_codec env) st d \<and> set (dk_ops d) \<subseteq> {Works}"
    using I saveState_works [OF _ s] by (simp add: inStep_def)
  then show "set (dk_ops (ag_disk ag')) \<subseteq> {Works} \<and> readsAs (ae_codec env) (ag_st ag') (ag_disk ag') \<and>
      ag_routes ag' = st_apps (ag_st ag') \<and> runsLike (st_apps (ag_st ag')) (ag_running ag')"
    using I codec same holds_readsAs [OF codec] by (simp add: ag' inStep_def)
qed

lemma save_eq: "snd (save env st ag) = ag\<lparr>ag_disk := snd (saveState (ae_codec env) st (ag_disk ag))\<rparr>"
  by (simp add: save_def split: prod.splits)

interpretation synced: agent_invariant env "{Works}" "inStep env" for env
proof unfold_locales
  fix ag apps assume I: "inStep env ag"
  obtain e ag' where run: "setApps env apps ag = (e, ag')" by fastforce
  then show "inStep env (snd (setApps env apps ag))"
  proof (cases rule: setApps_cases)
    case (unwritten d)
    then show ?thesis using I saveState_works by (fastforce simp: inStep_def)
  next
    case (changed d)
    have "codec_ok (ae_codec env) \<Longrightarrow> readsAs (ae_codec env) ((ag_st ag)\<lparr>st_apps := apps\<rparr>) d \<and> set (dk_ops d) \<subseteq> {Works}"
      using saveState_works [OF _ changed(3)] I holds_readsAs by (auto simp: inStep_def)
    moreover have "codec_ok (ae_codec env) \<Longrightarrow> runsLike apps (snd (supervisor_set apps (ag_running ag)))"
      using I changed(2) by (intro supervisor_runsLike) (auto simp: inStep_def runsLike_def state_ok_def)
    ultimately show ?thesis using changed(4) by (simp add: run inStep_def onApps_def)
  qed (use I run in simp)
next
  fix ag server assume I: "inStep env ag"
  show "inStep env (joins env server ag)"
    by (rule inStep_save [OF I prod.collapse [symmetric]]) (simp_all add: joins_def Let_def save_eq)
next
  fix ag assume I: "inStep env ag"
  show "inStep env (leaves env ag)"
    by (rule inStep_save [OF I prod.collapse [symmetric]]) (simp_all add: leaves_def Let_def save_eq)
next
  fix ag on assume I: "inStep env ag"
  let ?st = "(ag_st ag)\<lparr>st_reportsOff := \<not> on\<rparr>"
  obtain e d where s: "saveState (ae_codec env) ?st (ag_disk ag) = (e, d)" by fastforce
  show "inStep env (snd (setErrorReports env on ag))"
  proof (cases e)
    case None
    then show ?thesis
      by (intro inStep_save [OF I s]) (simp_all add: setErrorReports_def Let_def save_def s)
  next
    case (Some x)
    then have "\<not> codec_ok (ae_codec env)" using saveState_works [OF _ s] I by (auto simp: inStep_def)
    then show ?thesis by (simp add: inStep_def)
  qed
next
  fix ag assume I: "inStep env ag"
  show "inStep env (snd (save env (ag_st ag) ag))"
    by (rule inStep_save [OF I prod.collapse [symmetric]]) (simp_all add: save_eq)
qed (auto simp: inStep_def readsAs_def)

lemma loadState_readsAs:
  assumes "loadState urlParse cd hostname d = (Inr st, d')" "codec_ok cd" "set (dk_ops d) \<subseteq> {Works}"
  shows "readsAs cd st d' \<and> set (dk_ops d') \<subseteq> {Works}"
  using assms by (auto simp: loadState_def nextOp_def saveState_def Let_def readsAs_def codec_ok_def
      split: list.splits fileOp.splits option.splits prod.splits)

lemma readsAs_loads:
  assumes "readsAs cd st d" "set (dk_ops d) \<subseteq> {Works}" "state_ok urlParse st"
  shows "\<exists>d'. loadState urlParse cd hostname d = (Inr st, d')"
  using assms by (auto simp: loadState_def nextOp_def readsAs_def simp flip: validate_iff
      split: list.splits fileOp.splits option.splits prod.splits)


section \<open>Joining and leaving an account\<close>

lemma enrol_written:
  assumes "enrol env raw token ag = (None, ag')"
  shows "holds (ae_codec env) (ag_st ag') (ag_disk ag')"
proof -
  obtain st ag2 where "save env st (ag2\<lparr>ag_st := st\<rparr>) = (None, ag')"
    using assms by (auto simp: enrol_def Let_def split: sum.splits if_splits prod.splits option.splits)
  then show ?thesis
    by (auto simp: save_def saveState_def holds_def split: prod.splits fileOp.splits)
qed

lemma joins_enrolled:
  "cleanServerURL urlParse raw = Inr server \<Longrightarrow> lib_sha256 (ae_lib env) (lib_public (ae_lib env) (ag_seed ag)) \<noteq> [] \<Longrightarrow>
   enrolled (ag_st (joins env server ag))"
  by (auto simp: joins_def Let_def save_eq enrolled_def deviceID_def dest: cleanServerURL_ne)

lemma setApps_enrolled: "setApps env apps ag = (e, ag') \<Longrightarrow> enrolled (ag_st ag') = enrolled (ag_st ag)"
  by (erule setApps_cases) (simp_all add: onApps_def enrolled_def)

lemma enrol_enrolled:
  assumes "enrol env raw token ag = (e, ag')" "enrolled (ag_st ag)"
    and sha256: "lib_sha256 (ae_lib env) (lib_public (ae_lib env) (ag_seed ag)) \<noteq> []"
  shows "enrolled (ag_st ag')"
  using assms(1)
proof (cases rule: enrol_cases)
  case (joined answers sent server)
  then show ?thesis using joins_enrolled [OF joined(1)] sha256 by simp
qed (use assms in simp)

lemma keeps_account:
  assumes "enrolled (ag_st ag)"
  shows "enrolled (ag_st (snd (addShare env os fp inp ag)))" "enrolled (ag_st (snd (removeShare env os name ag)))"
    "enrolled (ag_st (snd (setApps env apps ag)))" "enrolled (ag_st (pushApps env ag))"
    "enrolled (ag_st (snd (setErrorReports env on ag)))" "enrolled (ag_st (snd (startLogin env server ag)))"
    "lib_sha256 (ae_lib env) (lib_public (ae_lib env) (ag_seed ag)) \<noteq> [] \<Longrightarrow> enrolled (ag_st (snd (enrol env server token ag)))"
    "lib_sha256 (ae_lib env) (lib_public (ae_lib env) (ag_seed ag)) \<noteq> [] \<Longrightarrow> enrolled (ag_st (awaitApproval env server code every ag))"
proof -
  show "enrolled (ag_st (snd (setApps env apps ag)))"
    using setApps_enrolled assms by (metis prod.collapse)
  show "enrolled (ag_st (snd (addShare env os fp inp ag)))"
    using assms by (auto simp: addShare_def Let_def split: option.splits sum.splits prod.splits dest: setApps_enrolled)
  show "enrolled (ag_st (snd (removeShare env os name ag)))"
    using assms by (auto simp: removeShare_def split: option.splits prod.splits dest: setApps_enrolled)
  show "enrolled (ag_st (pushApps env ag))"
    using assms syncApps_agent [OF prod.collapse [symmetric]] by (simp add: pushApps_def)
  show "enrolled (ag_st (snd (setErrorReports env on ag)))"
    using assms by (auto simp: setErrorReports_def Let_def enrolled_def split: prod.splits option.splits dest: save_disk)
  show "enrolled (ag_st (snd (startLogin env server ag)))"
    using assms by (simp add: startLogin_def split: sum.splits)
  assume sha256: "lib_sha256 (ae_lib env) (lib_public (ae_lib env) (ag_seed ag)) \<noteq> []"
  show "enrolled (ag_st (snd (enrol env server token ag)))"
    using enrol_enrolled [OF prod.collapse [symmetric] assms sha256] by blast
  obtain e ag' where run: "pollUntilAnswered env server code every loginMaxWait ag = (e, ag')" by fastforce
  from run have "enrolled (ag_st ag')"
  proof (cases rule: pollUntilAnswered_cases)
    case (approved answers sent token)
    from enrol_enrolled [OF this] show ?thesis using assms sha256 by simp
  qed (use assms in simp)
  then show "enrolled (ag_st (awaitApproval env server code every ag))"
    using run by (auto simp: awaitApproval_def split: option.splits)
qed

text \<open>
  Nothing changes until the server has accepted.  An enrolment that fails before that leaves the PC exactly as it was;
  one that succeeds records the origin of the address and the id derived from this PC's key, in memory and in the file,
  and has sent exactly the enrolment and the list of applications, which carries names and types and no addresses.
\<close>

theorem enrol_all_or_nothing:
  assumes "enrol env raw token ag = (e, ag')"
  shows "(e = None \<longrightarrow> (\<exists>server. cleanServerURL (ae_url env) raw = Inr server \<and>
      ag_st ag' = (ag_st ag)\<lparr>st_server := server, st_deviceID := deviceID (ae_lib env) (ag_seed ag)\<rparr> \<and>
      holds (ae_codec env) (ag_st ag') (ag_disk ag') \<and>
      ag_sent ag' = ag_sent ag @ enrolRequests env server token ag)) \<and>
    (e \<noteq> None \<and> e \<noteq> Some WriteFailed \<longrightarrow> (\<exists>answers sent. ag' = ag\<lparr>ag_net := answers, ag_sent := sent\<rparr>))"
  using assms
proof (cases rule: enrol_cases)
  case (joined answers sent server)
  let ?ag = "ag\<lparr>ag_net := answers, ag_sent := sent\<rparr>"
  let ?st = "(ag_st ag)\<lparr>st_server := server, st_deviceID := deviceID (ae_lib env) (ag_seed ag)\<rparr>"
  have "ag_sent ag' = sent" "ag_st ag' = ?st"
    using joined(2) by (simp_all add: joins_def Let_def save_eq)
  moreover have "holds (ae_codec env) ?st (ag_disk ag')" if "e = None"
    using enrol_written [of env raw token ag ag'] assms that calculation(2) by simp
  ultimately show ?thesis using joined by auto
qed auto

text \<open>
  C11.  Only the server takes a PC off its account.  An operation that leaves a signed-in PC signed out is a sign out its
  server answered with 200, or a tunnel whose handshake its server answered with 410; no failure, no other answer and no
  change of shares does it.
\<close>

theorem account_lost_only_by_server:
  assumes "enrolled (ag_st ag)" and "\<not> enrolled (ag_st (agentDo env op ag))"
    and sha256: "lib_sha256 (ae_lib env) (lib_public (ae_lib env) (ag_seed ag)) \<noteq> []"
  shows "op = Logout \<and> ag_net ag \<noteq> [] \<and> (hd (ag_net ag) = Garbled \<or> (\<exists>a. hd (ag_net ag) = Answered a)) \<or>
    op = TunnelOnce (HandshakeStatus 410)"
proof (cases op)
  case Logout
  obtain r ag1 where p: "post env False (st_server (ag_st ag)) ''/v1/devices/unenrol'' UnenrolBody ag = (r, ag1)" by fastforce
  have "r \<noteq> Inl e" for e
    using assms(1,2) p Logout by (auto simp: logout_def post_agent [OF p])
  then show ?thesis using Logout p by (cases "ag_net ag") (auto simp: post_def Let_def split: reply.splits)
next
  case (TunnelOnce hs)
  then show ?thesis
    using assms keeps_account(4) [of ag env] by (cases hs) (auto simp: tunnelOnce_def split: if_splits)
qed (use assms keeps_account in \<open>auto simp: moveApp_def\<close>)

section \<open>Waiting for an approval\<close>

lemma post_count: "post env out server path body ag = (r, ag') \<Longrightarrow> length (ag_sent ag') = Suc (length (ag_sent ag))"
  by (drule post_agent) simp

lemma enrol_count: "enrol env server token ag = (e, ag') \<Longrightarrow> length (ag_sent ag') \<le> length (ag_sent ag) + 2"
  by (erule enrol_cases) (auto simp: joins_def Let_def save_eq enrolRequests_def)

lemma polling_count:
  assumes "0 < every" "0 \<le> left" "pollUntilAnswered env server code every left ag = (e, ag')"
  shows "int (length (ag_sent ag')) \<le> int (length (ag_sent ag)) + left div every + 3"
  using assms
proof (induction "nat left" arbitrary: every left ag rule: less_induct)
  case less
  obtain r ag1 where p: "post env True server ''/v1/devices/enrolment/poll'' (PollBody code) ag = (r, ag1)" by fastforce
  note one = post_count [OF p]
  have div: "0 \<le> left div every" using less.prems by (simp add: pos_imp_zdiv_nonneg_iff)
  from p show ?case
  proof (cases rule: pollUntilAnswered_round [of _ _ _ _ _ _ every left])
    case (ended err)
    then show ?thesis using less.prems one div by simp
  next
    case (approved out)
    then have "enrol env server (an_token out) ag1 = (e, ag')" using less.prems by simp
    from enrol_count [OF this] show ?thesis using one div by linarith
  next
    case (waits every')
    have "int (length (ag_sent ag')) \<le> int (length (ag_sent ag1)) + (left - every') div every' + 3"
      by (rule less.hyps) (use waits less.prems in simp_all)
    moreover have "(left - every') div every' = left div every' - 1"
      using waits(2) by (simp add: diff_divide_distrib div_add_self2 [of every' "left - every'", simplified])
    moreover have "left div every' \<le> left div every"
      using waits(1,2) less.prems(1,2) by (simp add: zdiv_mono2)
    ultimately show ?thesis using one by linarith
  qed
qed

text \<open>
  C13.  The agent never waits for an approval for ever.  Started with a positive interval, the polling returns, whatever the
  server answers and for however long it says to wait, and it has asked at most once per interval of its fifteen
  minutes, plus the first question and the two requests of an enrolment.
\<close>

theorem polling_is_bounded:
  assumes "0 < every"
  shows "int (length (ag_sent (awaitApproval env server code every ag))) \<le> int (length (ag_sent ag)) + loginMaxWait div every + 3 \<and>
    \<not> lg_waiting (ag_login (awaitApproval env server code every ag))"
proof -
  obtain e ag' where run: "pollUntilAnswered env server code every loginMaxWait ag = (e, ag')" by fastforce
  have "0 \<le> loginMaxWait" by (simp add: loginMaxWait_def)
  from polling_count [OF assms this run] show ?thesis
    using run by (auto simp: awaitApproval_def noLogin_def split: option.splits)
qed

definition notYet :: "int \<Rightarrow> reply \<Rightarrow> bool" where
  "notYet every r = (case r of Unreachable \<Rightarrow> True | Garbled \<Rightarrow> True | Refused status _ \<Rightarrow> \<not> answered status
     | Answered a \<Rightarrow> an_status a = ''pending'' \<and> inSeconds (an_interval a) \<le> every)"

lemma inSeconds_0 [simp]: "inSeconds 0 = 0"
  by (simp add: inSeconds_def)

lemma poll_notYet:
  assumes "ag_net ag = r # rs" "notYet every r" "0 < every" "every < left"
  shows "\<exists>sent. pollUntilAnswered env server code every left ag =
    pollUntilAnswered env server code every (left - every) (ag\<lparr>ag_net := rs, ag_sent := sent\<rparr>)"
proof -
  obtain x ag1 where p: "post env True server ''/v1/devices/enrolment/poll'' (PollBody code) ag = (x, ag1)" by fastforce
  have x: "(\<exists>e. x = Inl e \<and> (\<forall>st msg. e = ServerError st msg \<longrightarrow> \<not> answered st)) \<or>
      (\<exists>a. x = Inr a \<and> an_status a = ''pending'' \<and> inSeconds (an_interval a) \<le> every)"
    using p assms(1,2) by (auto simp: post_def Let_def notYet_def serverAnswerError_def split: reply.splits)
  have ag1: "ag1 = ag\<lparr>ag_net := rs, ag_sent := ag_sent ag1\<rparr>" using post_agent [OF p] assms(1) by simp
  have "pollUntilAnswered env server code every left ag = pollUntilAnswered env server code every (left - every) ag1"
    using x assms(3,4) by (subst pollUntilAnswered.simps) (auto simp: p split: aerr.splits)
  then show ?thesis using ag1 by metis
qed

lemma poll_waits:
  "ag_net ag = rs @ rest \<Longrightarrow> list_all (notYet every) rs \<Longrightarrow> 0 < every \<Longrightarrow> int (length rs) * every < left \<Longrightarrow>
   \<exists>sent left'. pollUntilAnswered env server code every left ag =
     pollUntilAnswered env server code every left' (ag\<lparr>ag_net := rest, ag_sent := sent\<rparr>)"
proof (induction rs arbitrary: left ag)
  case (Cons r rs)
  have "every + every * int (length rs) < left" "0 \<le> every * int (length rs)"
    using Cons.prems(3,4) by (simp_all add: algebra_simps)
  then have "every < left" by linarith
  then obtain sent where step: "pollUntilAnswered env server code every left ag =
      pollUntilAnswered env server code every (left - every) (ag\<lparr>ag_net := rs @ rest, ag_sent := sent\<rparr>)"
    using poll_notYet [of ag r "rs @ rest" every left env server code] Cons.prems by auto
  have "int (length rs) * every < left - every" using Cons.prems(4) by (simp add: algebra_simps)
  from Cons.IH [of "ag\<lparr>ag_net := rs @ rest, ag_sent := sent\<rparr>", OF _ _ Cons.prems(3) this] show ?case
    using step Cons.prems(2) by auto
qed (metis append_Nil agent.surjective agent.update_convs(7,8))

lemma enrol_succeeds:
  assumes "cleanServerURL (ae_url env) server = Inr server" "trimSpace token \<noteq> []"
    and "ag_net ag = Answered out # r # rest" "an_deviceID out = deviceID (ae_lib env) (ag_seed ag)"
    and "r = Garbled \<or> (\<exists>a. r = Answered a)" "dk_ops (ag_disk ag) = []"
  shows "\<exists>ag'. enrol env server token ag = (None, ag') \<and>
    ag_st ag' = (ag_st ag)\<lparr>st_server := server, st_deviceID := deviceID (ae_lib env) (ag_seed ag)\<rparr>"
  using assms by (auto simp: enrol_def post_def agent_syncApps_def save_def saveState_def nextOp_def Let_def)

text \<open>
  C12.  An approval within the time signs the PC in.  However often the server was unreachable, rate limited the agent,
  answered nonsense or said the approval is pending, as long as those rounds fit into the fifteen minutes: when it then
  hands out a token and accepts the enrolment and the list, the PC belongs to that server, under its own id, and the
  sign in leaves nothing behind.
\<close>

theorem approval_signs_in:
  assumes server: "cleanServerURL (ae_url env) server = Inr server" and every: "0 < every"
    and answers: "ag_net ag = rs @ Answered ok # Answered out # r # rest"
    and rs: "list_all (notYet every) rs" and fits: "int (length rs) * every < loginMaxWait"
    and ok: "an_status ok \<noteq> ''pending''" "trimSpace (an_token ok) \<noteq> []"
    and id: "an_deviceID out = deviceID (ae_lib env) (ag_seed ag)"
    and r: "r = Garbled \<or> (\<exists>a. r = Answered a)" and disk: "dk_ops (ag_disk ag) = []"
  shows "ag_st (awaitApproval env server code every ag) =
      (ag_st ag)\<lparr>st_server := server, st_deviceID := deviceID (ae_lib env) (ag_seed ag)\<rparr> \<and>
    ag_login (awaitApproval env server code every ag) = noLogin"
proof -
  let ?rest = "Answered ok # Answered out # r # rest"
  obtain sent left' where run: "pollUntilAnswered env server code every loginMaxWait ag =
      pollUntilAnswered env server code every left' (ag\<lparr>ag_net := ?rest, ag_sent := sent\<rparr>)"
    using poll_waits [OF answers rs every fits] by blast
  let ?ag = "ag\<lparr>ag_sent := sent @ [(server, ''/v1/devices/enrolment/poll'', PollBody code)], ag_net := Answered out # r # rest\<rparr>"
  have "pollUntilAnswered env server code every left' (ag\<lparr>ag_net := ?rest, ag_sent := sent\<rparr>) = enrol env server (an_token ok) ?ag"
    using ok(1) by (subst pollUntilAnswered.simps) (simp add: post_def Let_def)
  moreover obtain ag' where "enrol env server (an_token ok) ?ag = (None, ag')"
      "ag_st ag' = (ag_st ag)\<lparr>st_server := server, st_deviceID := deviceID (ae_lib env) (ag_seed ag)\<rparr>"
    using enrol_succeeds [OF server ok(2), of ?ag out r rest] id r disk by auto
  ultimately show ?thesis using run by (simp add: awaitApproval_def)
qed

section \<open>Concrete runs\<close>

definition demo_url :: "string \<Rightarrow> url option" where
  "demo_url s = (if s = ''http://pc'' then Some \<lparr>u_scheme = ''http'', u_host = ''pc'', u_path = [], u_query = [], u_fragment = []\<rparr> else None)"

definition demo_env :: agentenv where
  "demo_env = \<lparr>ae_lib = toy_lib, ae_url = demo_url, ae_codec = demo_codec, ae_statusText = (\<lambda>_. ''error'')\<rparr>"

definition demo_agent :: agent where
  "demo_agent = onApps [] (newAgent ''seed'' demo_state demo_disk)"

definition demo_ops :: "agentOp list" where
  "demo_ops = [AddShare demo_os (Some 8080) (Some (''/srv'', [])), SetErrorReports False, Logout]"

lemma demo_start: "serveAgent demo_env None ''seed'' demo_disk = Inr demo_agent"
proof -
  have "loadState demo_url demo_codec None demo_disk = (Inr demo_state, demo_disk)"
    by (rule loadState_holds [OF demo_codec_ok _ demo_state_ok]) (simp_all add: holds_def demo_disk_def)
  then show ?thesis
    by (simp add: serveAgent_def loadAgent_def demo_env_def demo_agent_def newAgent_def demo_state_def)
qed

lemma trimSpace_Nil [simp]: "trimSpace [] = []"
  by (rule trimSpace_clean) simp

lemma demo_allowed: "list_all (allowedOp demo_env {Works}) demo_ops" "list_all (allowedOp demo_env UNIV) demo_ops"
  by (simp_all add: demo_ops_def allowedOp_def readsBack_def cleanServerURL_def)

lemma demo_sha256: "length (lib_sha256 (ae_lib demo_env) (lib_public (ae_lib demo_env) seed)) = 32"
  by (simp add: demo_env_def toy_lib_def)

lemma demo_fresh: "st_deviceID (ag_st demo_agent) = []" "dk_ops demo_disk = []"
  by (simp_all add: demo_agent_def onApps_def newAgent_def demo_state_def demo_disk_def)

theorem agent_registry_stays_valid_witness:
  "state_ok demo_url (ag_st (agentRun demo_env demo_ops demo_agent))"
  using agent_registry_stays_valid [OF demo_start _ demo_sha256 demo_allowed(2)] demo_fresh
  by (simp add: demo_env_def)


lemma demo_trims: "trimSpace ''http://pc'' = ''http://pc''" "trimSpace ''tok'' = ''tok''"
  by (rule trimSpace_clean, auto simp: byte_def)+

lemma demo_server: "cleanServerURL (ae_url demo_env) ''http://pc'' = Inr ''http://pc''"
  by (simp add: cleanServerURL_def demo_trims demo_env_def demo_url_def trimRight_def)

definition demo_ok :: answer where
  "demo_ok = noAnswer\<lparr>an_token := ''tok'', an_deviceID := deviceID toy_lib ''seed''\<rparr>"

definition demo_joined :: "agent" where
  "demo_joined = snd (enrol demo_env ''http://pc'' ''tok'' (demo_agent\<lparr>ag_net := [Answered demo_ok, Garbled]\<rparr>))"

lemma demo_enrols:
  "enrol demo_env ''http://pc'' ''tok'' (demo_agent\<lparr>ag_net := [Answered demo_ok, Garbled]\<rparr>) = (None, demo_joined) \<and>
   enrolled (ag_st demo_joined) \<and> ag_seed demo_joined = ''seed''"
proof -
  let ?ag = "demo_agent\<lparr>ag_net := [Answered demo_ok, Garbled]\<rparr>"
  obtain ag' where run: "enrol demo_env ''http://pc'' ''tok'' ?ag = (None, ag')"
      and st: "ag_st ag' = (ag_st ?ag)\<lparr>st_server := ''http://pc'', st_deviceID := deviceID (ae_lib demo_env) (ag_seed ?ag)\<rparr>"
    using enrol_succeeds [OF demo_server, of "''tok''" ?ag demo_ok Garbled "[]"] demo_trims
    by (auto simp: demo_ok_def demo_env_def demo_agent_def onApps_def newAgent_def demo_disk_def)
  have "ag_seed ag' = ''seed''"
    using run by (rule same_key.keeps_enrol) (simp_all add: readsBack_def demo_server, simp add: demo_agent_def onApps_def newAgent_def)
  then show ?thesis using run st by (simp add: demo_joined_def enrolled_def deviceID_def demo_env_def toy_lib_def)
qed

theorem enrol_all_or_nothing_witness: "st_server (ag_st demo_joined) = ''http://pc''"
proof -
  have "enrol demo_env ''http://pc'' ''tok'' (demo_agent\<lparr>ag_net := [Answered demo_ok, Garbled]\<rparr>) = (None, demo_joined)"
    using demo_enrols by blast
  from enrol_all_or_nothing [OF this] show ?thesis by (auto simp: demo_server)
qed

theorem account_lost_only_by_server_witness:
  "\<not> enrolled (ag_st (agentDo demo_env (TunnelOnce (HandshakeStatus 410)) demo_joined)) \<and>
   enrolled (ag_st (agentDo demo_env (TunnelOnce (HandshakeStatus 500)) demo_joined))"
proof
  show "\<not> enrolled (ag_st (agentDo demo_env (TunnelOnce (HandshakeStatus 410)) demo_joined))"
    using demo_enrols by (simp add: tunnelOnce_def forgetAccount_def Let_def enrolled_def)
  show "enrolled (ag_st (agentDo demo_env (TunnelOnce (HandshakeStatus 500)) demo_joined))"
    using account_lost_only_by_server [of demo_joined demo_env "TunnelOnce (HandshakeStatus 500)"] demo_enrols demo_sha256 [of "''seed''"]
    by fastforce
qed

theorem polling_is_bounded_witness:
  "\<not> lg_waiting (ag_login (awaitApproval demo_env ''http://pc'' ''ABCD'' loginPollEvery demo_agent))"
  using polling_is_bounded [of loginPollEvery] by (simp add: loginPollEvery_def)

theorem approval_signs_in_witness:
  "st_server (ag_st (awaitApproval demo_env ''http://pc'' ''ABCD'' loginPollEvery
     (demo_agent\<lparr>ag_net := [Unreachable, Refused 429 [], Answered demo_ok, Answered demo_ok, Garbled]\<rparr>))) = ''http://pc''"
  using approval_signs_in [OF demo_server, of loginPollEvery
      "demo_agent\<lparr>ag_net := [Unreachable, Refused 429 [], Answered demo_ok, Answered demo_ok, Garbled]\<rparr>"
      "[Unreachable, Refused 429 []]" demo_ok demo_ok Garbled "[]" "''ABCD''"]
  by (simp add: loginPollEvery_def notYet_def answered_def loginMaxWait_def demo_ok_def noAnswer_def demo_trims demo_env_def
      demo_agent_def onApps_def newAgent_def demo_disk_def)

end
