(* ===== verification/LanTls.thy ===== *)
theory LanTls
  imports AgentCore
begin

text \<open>
  \<^verbatim>\<open>device/agent/tls.go\<close>: the key of the LAN certificate, the device key's word for it, what a client checks, and
  when the certificate is made again.  HKDF, the P-256 range check, the encoding of a public key and the making of a
  certificate are arguments.
\<close>

section \<open>The certificate's key and the proof of it\<close>

record lanlib =
  ll_hkdf :: "string \<Rightarrow> nat \<Rightarrow> string option"
  ll_p256 :: "string \<Rightarrow> string option"
  ll_spki :: "string \<Rightarrow> string option"

datatype tlsErr = HkdfError | NoUsableKey | SpkiError | CertError | NoPublicKey | WrongDeviceID | NotHex | NotSigned

text \<open>The loop of \<^verbatim>\<open>certKey\<close> over the counter bytes.\<close>

fun certKeyLoop :: "lanlib \<Rightarrow> string \<Rightarrow> nat list \<Rightarrow> tlsErr + string" where
  "certKeyLoop ll seed [] = Inl NoUsableKey"
| "certKeyLoop ll seed (c # cs) = (case ll_hkdf ll seed c of
      None \<Rightarrow> Inl HkdfError
    | Some b \<Rightarrow> (case ll_p256 ll b of None \<Rightarrow> certKeyLoop ll seed cs | Some key \<Rightarrow> Inr key))"

definition certKey :: "lanlib \<Rightarrow> string \<Rightarrow> tlsErr + string" where
  "certKey ll seed = certKeyLoop ll seed [0..<256]"

definition proofContext :: string where "proofContext = ''anywhere-file lan-tls v1'' @ [newline]"

definition proofMessage :: "golib \<Rightarrow> string \<Rightarrow> string" where
  "proofMessage lib spki = proofContext @ lib_sha256 lib spki"

definition deviceProof :: "golib \<Rightarrow> lanlib \<Rightarrow> string \<Rightarrow> tlsErr + string" where
  "deviceProof lib ll seed = (case certKey ll seed of
      Inl e \<Rightarrow> Inl e
    | Inr key \<Rightarrow> (case ll_spki ll key of
        None \<Rightarrow> Inl SpkiError
      | Some spki \<Rightarrow> Inr (hex_encode (lib_sign lib seed (proofMessage lib spki)))))"

definition verifyDeviceProof :: "golib \<Rightarrow> string \<Rightarrow> string \<Rightarrow> string \<Rightarrow> string \<Rightarrow> tlsErr option" where
  "verifyDeviceProof lib dev publicKey proof leafSpki = (case hex_decode publicKey of
      None \<Rightarrow> Some NoPublicKey
    | Some public \<Rightarrow>
        if length public \<noteq> PublicKeySize then Some NoPublicKey
        else if hex_encode (lib_sha256 lib public) \<noteq> dev then Some WrongDeviceID
        else (case hex_decode proof of
            None \<Rightarrow> Some NotHex
          | Some sig \<Rightarrow> if \<not> lib_verify lib public (proofMessage lib leafSpki) sig then Some NotSigned else None))"

section \<open>The certificate\<close>

definition certDomain :: string where "certDomain = ''.anywhere-file''"
definition certLifetime :: int where "certLifetime = 397 * 24 * hour"
definition certRenewBefore :: int where "certRenewBefore = 30 * 24 * hour"

record certificate =
  ct_name :: string
  ct_key :: string
  ct_addresses :: "nat list list"
  ct_notBefore :: int
  ct_notAfter :: int
  ct_isCA :: bool

text \<open>An IP address is its eight groups, IPv4 in the mapped form; an interface may also have something that is no IP network.\<close>

definition ipv4 :: "nat \<Rightarrow> nat \<Rightarrow> nat \<Rightarrow> nat \<Rightarrow> nat list" where
  "ipv4 a b c d = [0, 0, 0, 0, 0, 65535, a * 256 + b, c * 256 + d]"

definition localAddresses :: "nat list option list option \<Rightarrow> nat list list" where
  "localAddresses addrs =
     [ipv4 127 0 0 1, [0, 0, 0, 0, 0, 0, 0, 1]] @
     (case addrs of None \<Rightarrow> []
      | Some as \<Rightarrow> List.map_filter (\<lambda>a. case a of None \<Rightarrow> None | Some ip \<Rightarrow> if isLoopback ip then None else Some ip) as)"

text \<open>\<open>made\<close> is whether drawing the serial number and making and reading back the certificate worked.\<close>

definition deviceCertificate ::
  "golib \<Rightarrow> lanlib \<Rightarrow> string \<Rightarrow> nat list option list option \<Rightarrow> bool \<Rightarrow> int \<Rightarrow> tlsErr + certificate" where
  "deviceCertificate lib ll seed addrs made t = (case certKey ll seed of
      Inl e \<Rightarrow> Inl e
    | Inr key \<Rightarrow> if \<not> made then Inl CertError
        else Inr \<lparr>ct_name = deviceID lib seed @ certDomain, ct_key = key, ct_addresses = localAddresses addrs,
          ct_notBefore = t - hour, ct_notAfter = t + certLifetime, ct_isCA = False\<rparr>)"

definition lanCert_get ::
  "golib \<Rightarrow> lanlib \<Rightarrow> string \<Rightarrow> nat list option list option \<Rightarrow> bool \<Rightarrow> int \<Rightarrow> certificate option \<Rightarrow> (tlsErr + certificate) \<times> certificate option" where
  "lanCert_get lib ll seed addrs made t cert =
     (case cert of
        Some c \<Rightarrow> if t > ct_notAfter c - certRenewBefore
          then (case deviceCertificate lib ll seed addrs made t of Inl e \<Rightarrow> (Inl e, cert) | Inr c' \<Rightarrow> (Inr c', Some c'))
          else (Inr c, cert)
      | None \<Rightarrow> (case deviceCertificate lib ll seed addrs made t of Inl e \<Rightarrow> (Inl e, cert) | Inr c' \<Rightarrow> (Inr c', Some c')))"

definition lanCert_renew :: "certificate option \<Rightarrow> certificate option" where
  "lanCert_renew cert = None"

text \<open>What happens to the certificate of a running gateway: handshakes, and renewals when the network changed.\<close>

datatype certOp = Handshake int "nat list option list option" bool | Renew

fun certRun :: "golib \<Rightarrow> lanlib \<Rightarrow> string \<Rightarrow> certOp list \<Rightarrow> certificate option \<Rightarrow> (int \<times> certificate) list" where
  "certRun lib ll seed [] cert = []"
| "certRun lib ll seed (Renew # ops) cert = certRun lib ll seed ops (lanCert_renew cert)"
| "certRun lib ll seed (Handshake t addrs made # ops) cert =
     (case lanCert_get lib ll seed addrs made t cert of
        (Inl e, cert') \<Rightarrow> certRun lib ll seed ops cert'
      | (Inr c, cert') \<Rightarrow> (t, c) # certRun lib ll seed ops cert')"

fun opTimes :: "certOp list \<Rightarrow> int list" where
  "opTimes [] = []"
| "opTimes (Renew # ops) = opTimes ops"
| "opTimes (Handshake t _ _ # ops) = t # opTimes ops"

section \<open>A client believes the PC that holds the key\<close>

text \<open>
  The proof in the discovery document convinces a client of exactly this PC: it is accepted for the certificate the
  gateway serves under the device id the client looked for, and a document whose id is not the digest of its public key
  is refused whatever it says.
\<close>

theorem device_proof_verifies:
  assumes "ed25519_ok lib" and "deviceProof lib ll seed = Inr proof"
    and "certKey ll seed = Inr key" "ll_spki ll key = Some spki"
  shows "verifyDeviceProof lib (deviceID lib seed) (publicHex lib seed) proof spki = None \<and>
    (\<forall>other pub p leaf. verifyDeviceProof lib other pub p leaf = None \<longrightarrow>
       (\<exists>raw sig. hex_decode pub = Some raw \<and> other = hex_encode (lib_sha256 lib raw) \<and> hex_decode p = Some sig \<and>
          lib_verify lib raw (proofMessage lib leaf) sig))"
  using assms
  by (auto simp: deviceProof_def verifyDeviceProof_def deviceID_def publicHex_def ed25519_ok_def split: option.splits if_splits)

text \<open>
  The word for a certificate is never the signature of a request.  The agent signs its requests to the server with the
  same key; the bytes signed for a certificate differ from the bytes signed for any such request.
\<close>

theorem proof_is_no_request:
  "proofMessage lib spki \<noteq> payload lib ''POST'' path key nonce stamp body"
  by (simp add: proofMessage_def proofContext_def payload_def)

section \<open>The certificate never runs out\<close>

definition servesWell :: "golib \<Rightarrow> lanlib \<Rightarrow> string \<Rightarrow> int \<Rightarrow> certificate \<Rightarrow> bool" where
  "servesWell lib ll seed t c \<longleftrightarrow> ct_notBefore c \<le> t - hour \<and> t + certRenewBefore \<le> ct_notAfter c \<and>
     ct_notAfter c - ct_notBefore c < 398 * 24 * hour \<and> certKey ll seed = Inr (ct_key c) \<and>
     ct_name c = deviceID lib seed @ certDomain \<and> ipv4 127 0 0 1 \<in> set (ct_addresses c) \<and> \<not> ct_isCA c"

definition certOk :: "golib \<Rightarrow> lanlib \<Rightarrow> string \<Rightarrow> int \<Rightarrow> certificate \<Rightarrow> bool" where
  "certOk lib ll seed t c \<longleftrightarrow> ct_notBefore c \<le> t - hour \<and> ct_notAfter c - ct_notBefore c = certLifetime + hour \<and>
     certKey ll seed = Inr (ct_key c) \<and>
     ct_name c = deviceID lib seed @ certDomain \<and> ipv4 127 0 0 1 \<in> set (ct_addresses c) \<and> \<not> ct_isCA c"

lemma deviceCertificate_ok: "deviceCertificate lib ll seed addrs made t = Inr c \<Longrightarrow> certOk lib ll seed t c \<and> ct_notBefore c = t - hour"
  by (auto simp: deviceCertificate_def certOk_def localAddresses_def certLifetime_def split: sum.splits if_splits)

lemma certOk_serves: "certOk lib ll seed t c \<Longrightarrow> t + certRenewBefore \<le> ct_notAfter c \<Longrightarrow> servesWell lib ll seed t c"
  by (auto simp: certOk_def servesWell_def certLifetime_def)

lemma lanCert_get_ok:
  assumes "\<forall>c. cert = Some c \<longrightarrow> certOk lib ll seed t c" and "lanCert_get lib ll seed addrs made t cert = (r, cert')"
  shows "(\<forall>c. cert' = Some c \<longrightarrow> certOk lib ll seed t c) \<and> (\<forall>c. r = Inr c \<longrightarrow> servesWell lib ll seed t c)"
proof -
  have fresh: "servesWell lib ll seed t c" if "deviceCertificate lib ll seed addrs made t = Inr c" for c
    using deviceCertificate_ok [OF that]
    by (intro certOk_serves) (auto simp: certOk_def certLifetime_def certRenewBefore_def)
  show ?thesis
    using assms fresh certOk_serves [of lib ll seed t] deviceCertificate_ok [of lib ll seed addrs made t]
    by (auto simp: lanCert_get_def not_less split: option.splits if_splits sum.splits)
qed

lemma certRun_ok:
  "sorted (opTimes ops) \<Longrightarrow> \<forall>c t. cert = Some c \<and> t \<in> set (opTimes ops) \<longrightarrow> certOk lib ll seed t c \<Longrightarrow>
   (t, c) \<in> set (certRun lib ll seed ops cert) \<Longrightarrow> servesWell lib ll seed t c"
proof (induction lib ll seed ops cert rule: certRun.induct)
  case (3 lib ll seed u addrs made ops cert)
  obtain r cert' where g: "lanCert_get lib ll seed addrs made u cert = (r, cert')" by fastforce
  have now: "\<forall>c. cert = Some c \<longrightarrow> certOk lib ll seed u c" using "3.prems"(2) by simp
  note ok = lanCert_get_ok [OF now g]
  have later: "certOk lib ll seed v c" if "certOk lib ll seed u c" "v \<in> set (opTimes ops)" for v c
    using that "3.prems"(1) by (auto simp: certOk_def)
  have "servesWell lib ll seed t c" if "(t, c) \<in> set (certRun lib ll seed ops cert')"
  proof (cases r)
    case (Inl e)
    then show ?thesis using "3.IH"(1) [OF g [symmetric] Inl] "3.prems"(1) ok later that by auto
  next
    case (Inr x)
    then show ?thesis using "3.IH"(2) [OF g [symmetric] Inr] "3.prems"(1) ok later that by auto
  qed
  then show ?case using "3.prems"(3) g ok by (auto split: sum.splits)
qed (auto simp: lanCert_renew_def)

text \<open>
  C28.  A client never meets an expired certificate.  However long the agent runs and however often the network changes, at
  every handshake the certificate it serves is an hour old at least, runs for another thirty days, lives less than the
  398 days browsers allow, carries this PC's key and name, and is no authority.
\<close>

theorem certificate_never_runs_out:
  assumes "sorted (opTimes ops)" and "(t, c) \<in> set (certRun lib ll seed ops None)"
  shows "servesWell lib ll seed t c"
  using certRun_ok [OF assms(1) _ assms(2)] by simp

section \<open>Concrete runs\<close>

definition toy_lan :: lanlib where
  "toy_lan = \<lparr>ll_hkdf = (\<lambda>seed n. Some (itoa n)), ll_p256 = (\<lambda>b. if b = itoa 0 then None else Some b), ll_spki = Some\<rparr>"

lemma toy_certKey: "certKey toy_lan seed = Inr (itoa 1)"
proof -
  have "[0..<256] = (0::nat) # [Suc 0..<256]" by (rule upt_conv_Cons) simp
  moreover have "[Suc 0..<256] = 1 # [Suc (Suc 0)..<256]" unfolding One_nat_def by (rule upt_conv_Cons) simp
  ultimately show ?thesis by (simp only: certKey_def certKeyLoop.simps) (simp add: toy_lan_def)
qed

theorem device_proof_verifies_witness:
  "\<exists>proof. deviceProof toy_lib toy_lan ''seed'' = Inr proof \<and>
     verifyDeviceProof toy_lib (deviceID toy_lib ''seed'') (publicHex toy_lib ''seed'') proof (itoa 1) = None"
proof -
  have p: "deviceProof toy_lib toy_lan ''seed'' = Inr (hex_encode (lib_sign toy_lib ''seed'' (proofMessage toy_lib (itoa 1))))"
    by (simp add: deviceProof_def toy_certKey) (simp add: toy_lan_def)
  show ?thesis
    using device_proof_verifies [OF toy_lib_ok p toy_certKey, of "itoa 1"] p by (simp add: toy_lan_def)
qed

theorem certificate_never_runs_out_witness:
  "\<exists>c. certRun toy_lib toy_lan ''seed'' [Handshake 0 None True] None = [(0, c)] \<and> servesWell toy_lib toy_lan ''seed'' 0 c"
proof -
  obtain c where run: "certRun toy_lib toy_lan ''seed'' [Handshake 0 None True] None = [(0, c)]"
    by (simp add: lanCert_get_def deviceCertificate_def toy_certKey)
  show ?thesis
    using certificate_never_runs_out [of "[Handshake 0 None True]" 0 c toy_lib toy_lan "''seed''", unfolded run] run by simp
qed

end
