(* ===== verification/Gateway.thy ===== *)
theory Gateway
  imports LanTls
begin

text \<open>
  \<^verbatim>\<open>device/agent/gateway.go\<close> and \<^verbatim>\<open>compress.go\<close>: which application a request reaches and where it is forwarded, the discovery
  document, and making a zip in a shared folder.  \<^verbatim>\<open>http.ServeMux\<close> is modelled for the patterns the code registers; what
  \<^verbatim>\<open>httputil.ReverseProxy\<close> does to headers, the zip encoder and the answer of the file server are arguments.
\<close>

section \<open>Paths and patterns\<close>

text \<open>\<^verbatim>\<open>path.Clean\<close> on a rooted path, segment by segment, and \<^verbatim>\<open>cleanPath\<close> of \<^verbatim>\<open>net/http\<close>.\<close>

fun cleanSegs :: "string list \<Rightarrow> string list \<Rightarrow> string list" where
  "cleanSegs [] out = rev out"
| "cleanSegs (s # ss) out =
     (if s = [] \<or> s = ''.'' then cleanSegs ss out
      else if s = ''..'' then cleanSegs ss (tl out)
      else cleanSegs ss (s # out))"

definition cleanPath :: "string \<Rightarrow> string" where
  "cleanPath p =
     (if p = [] then ''/''
      else let np = ''/'' @ joinWith ''/'' (cleanSegs (splitOn (CHR ''/'') p) []) in
        if last p = CHR ''/'' \<and> np \<noteq> ''/'' then np @ ''/'' else np)"

text \<open>\<^verbatim>\<open>url.PathUnescape\<close> of one segment; a bad escape leaves the segment as it is.\<close>

fun unescape :: "string \<Rightarrow> string option" where
  "unescape [] = Some []"
| "unescape (c # s) =
     (if c = CHR ''%'' then (case s of
         x # y # s' \<Rightarrow> (case (hexVal x, hexVal y) of
             (Some a, Some b) \<Rightarrow> map_option ((#) (chr (16 * a + b))) (unescape s')
           | _ \<Rightarrow> None)
       | _ \<Rightarrow> None)
      else map_option ((#) c) (unescape s))"

definition segment :: "string \<Rightarrow> string" where
  "segment s = (case unescape s of Some t \<Rightarrow> t | None \<Rightarrow> s)"

definition segments :: "string \<Rightarrow> string list" where
  "segments p = map segment (splitOn (CHR ''/'') (tl p))"

section \<open>Routes\<close>

record gwRequest =
  gw_method :: string
  gw_scheme :: string
  gw_urlHost :: string
  gw_escaped :: string
  gw_path :: string
  gw_rawQuery :: string
  gw_queryKeys :: "string list"
  gw_headers :: headers

definition discoveryPath :: string where "discoveryPath = ''/.well-known/anywhere-file''"

text \<open>Registering the same pattern twice, or one that is no pattern, panics.\<close>

fun register :: "string list \<Rightarrow> app list \<Rightarrow> (string \<times> app) list \<Rightarrow> (string \<times> app) list option" where
  "register taken [] routes = Some routes"
| "register taken (a # apps) routes =
     (if (''/'' @ app_name a) \<in> set taken \<or> app_name a = [] \<or> containsAny (app_name a) ''/{} '' then None
      else register ((''/'' @ app_name a) # taken) apps (routes @ [(app_name a, a)]))"

definition buildGateway :: "app list \<Rightarrow> (string \<times> app) list option" where
  "buildGateway apps = register [discoveryPath] apps []"

datatype gwRoute = BadRequest | NotFound | MethodNotAllowed | RedirectTo string | DiscoveryDoc | AppRoute app

definition muxRoute :: "(string \<times> app) list \<Rightarrow> string \<Rightarrow> string \<Rightarrow> gwRoute" where
  "muxRoute routes meth escaped =
     (if escaped = ''*'' then BadRequest
      else let path = cleanPath escaped; segs = segments path in
        if path \<noteq> escaped then RedirectTo path
        else if segs = [''.well-known'', ''anywhere-file'']
        then (if meth = ''GET'' \<or> meth = ''HEAD'' then DiscoveryDoc else MethodNotAllowed)
        else case map_of routes (hd segs) of Some a \<Rightarrow> AppRoute a | None \<Rightarrow> NotFound)"

definition gatewayGuard :: "(string \<times> app) list \<Rightarrow> gwRequest \<Rightarrow> gwRoute" where
  "gatewayGuard routes r =
     (if gw_scheme r \<noteq> [] \<or> gw_urlHost r \<noteq> [] \<or> gw_method r = ''CONNECT'' then NotFound
      else muxRoute routes (gw_method r) (gw_escaped r))"

text \<open>What is forwarded: the scheme and the address are the registry's, the path and the query the caller's.\<close>

record outbound =
  ob_scheme :: string
  ob_host :: string
  ob_path :: string
  ob_escaped :: string
  ob_rawQuery :: string

datatype appAction = CompressIn app | Forward outbound

definition compressQuery :: string where "compressQuery = ''compress''"

definition appProxy :: "app \<Rightarrow> gwRequest \<Rightarrow> appAction" where
  "appProxy a r =
     (if gw_method r = ''POST'' \<and> compressQuery \<in> set (gw_queryKeys r) then CompressIn a
      else let root = (gw_path r = ''/'' @ app_name a) in
        Forward \<lparr>ob_scheme = ''http'', ob_host = app_address a,
          ob_path = (if root then ''/'' @ app_name a @ ''/'' else gw_path r),
          ob_escaped = (if root then ''/'' @ app_name a @ ''/'' else gw_escaped r),
          ob_rawQuery = gw_rawQuery r\<rparr>)"

record document =
  doc_v :: nat
  doc_deviceID :: string
  doc_name :: string
  doc_apps :: "string list"
  doc_enrolled :: bool
  doc_proof :: "(string \<times> string) option"

definition discoveryDocument :: "golib \<Rightarrow> lanlib \<Rightarrow> agent \<Rightarrow> document" where
  "discoveryDocument lib ll ag =
     \<lparr>doc_v = 2, doc_deviceID = deviceID lib (ag_seed ag), doc_name = st_name (ag_st ag), doc_apps = appNames (st_apps (ag_st ag)),
      doc_enrolled = enrolled (ag_st ag),
      doc_proof = (case deviceProof lib ll (ag_seed ag) of Inl _ \<Rightarrow> None | Inr p \<Rightarrow> Some (publicHex lib (ag_seed ag), p))\<rparr>"

datatype gwAnswer = Refuses nat | Redirects string | Shows document | Does appAction

definition gateway_ServeHTTP :: "golib \<Rightarrow> lanlib \<Rightarrow> (string \<times> app) list \<Rightarrow> agent \<Rightarrow> gwRequest \<Rightarrow> gwAnswer" where
  "gateway_ServeHTTP lib ll routes ag r = (case gatewayGuard routes r of
      BadRequest \<Rightarrow> Refuses 400 | NotFound \<Rightarrow> Refuses 404 | MethodNotAllowed \<Rightarrow> Refuses 405
    | RedirectTo p \<Rightarrow> Redirects p | DiscoveryDoc \<Rightarrow> Shows (discoveryDocument lib ll ag) | AppRoute a \<Rightarrow> Does (appProxy a r))"

section \<open>Compress\<close>

text \<open>A name in one folder: no separator of either kind, and no way up.\<close>

definition plainName :: "string \<Rightarrow> bool" where
  "plainName s \<longleftrightarrow> s \<noteq> [] \<and> s \<noteq> ''.'' \<and> s \<noteq> ''..'' \<and> CHR ''/'' \<notin> set s \<and> CHR 0x5C \<notin> set s"

type_synonym folder = "string \<rightharpoonup> string"

datatype fsErr = ErrExist | ErrNotExist | ErrOther

text \<open>
  Other programs, the file server among them, write to the same folder: what they create, change and remove, in order.
\<close>

type_synonym edits = "(string \<times> string option) list"

definition applyEdits :: "edits \<Rightarrow> folder \<Rightarrow> folder" where
  "applyEdits es d = fold (\<lambda>(n, v) d. d(n := v)) es d"

text \<open>
  How the steps on the folder end: creating the file, what was written and whether that was all, linking, renaming, removing.
  And what others do meanwhile: from the first look until the link, from a failed link until the last look, and from there until the rename.
\<close>

record zipOps =
  zo_create :: "fsErr option"
  zo_written :: string
  zo_zipped :: "fsErr option"
  zo_links :: bool
  zo_rename :: "fsErr option"
  zo_removes :: bool
  zo_zipping :: edits
  zo_linked :: edits
  zo_looked :: edits

definition writeZip :: "zipOps \<Rightarrow> string \<Rightarrow> folder \<Rightarrow> fsErr option \<times> folder" where
  "writeZip zo name d =
     (if d name \<noteq> None then (Some ErrExist, d)
      else case zo_create zo of
        Some e \<Rightarrow> (Some e, d)
      | None \<Rightarrow> (zo_zipped zo, d(name \<mapsto> zo_written zo)))"

definition place :: "zipOps \<Rightarrow> string \<Rightarrow> string \<Rightarrow> folder \<Rightarrow> fsErr option \<times> folder" where
  "place zo tmp name d =
     (if d name \<noteq> None then (Some ErrExist, d)
      else if zo_links zo then (None, d(name := d tmp))
      else
        let d1 = applyEdits (zo_linked zo) d in
        if d1 name \<noteq> None then (Some ErrExist, d1)
        else
          let d2 = applyEdits (zo_looked zo) d1 in
          (case zo_rename zo of
             None \<Rightarrow> (None, d2(name := d2 tmp, tmp := None))
           | Some e \<Rightarrow> (Some e, d2)))"

text \<open>What the file server answers when asked whether this caller may upload; the question carries the caller's credentials.\<close>

definition uploadQuestion :: "app \<Rightarrow> string \<Rightarrow> gwRequest \<Rightarrow> outbound \<times> headers" where
  "uploadQuestion a dir r =
     (let path = ''/'' @ app_name a @ ''/'' @ dir @ (if dir \<noteq> [] then ''/'' else []) in
      (\<lparr>ob_scheme = ''http'', ob_host = app_address a, ob_path = path, ob_escaped = path, ob_rawQuery = ''json''\<rparr>,
       filter (\<lambda>h. snd h \<noteq> []) (map (\<lambda>h. (h, header_get (gw_headers r) h)) [''Authorization'', ''Cookie''])))"

definition uploadAllowed :: "(nat \<times> bool option) option \<Rightarrow> nat" where
  "uploadAllowed answer = (case answer of
      None \<Rightarrow> 502
    | Some (status, index) \<Rightarrow>
        if status = 404 then 404
        else if status \<noteq> 200 \<or> index \<noteq> Some True then 403
        else 200)"

definition compressDir :: "app \<Rightarrow> string \<Rightarrow> string" where
  "compressDir a path = trimCut {CHR ''/''} (trimPrefix path (''/'' @ app_name a))"

definition compress ::
  "golib \<Rightarrow> osenv \<Rightarrow> app \<Rightarrow> (string \<times> string list) option \<Rightarrow> (nat \<times> bool option) option \<Rightarrow> bool \<Rightarrow> bool \<Rightarrow> string \<Rightarrow> zipOps \<Rightarrow> folder \<Rightarrow> nat \<times> folder" where
  "compress lib os a body upload rootOpens dirOpens rnd zo d = (case body of
      None \<Rightarrow> (400, d)
    | Some (name, entries) \<Rightarrow>
        if \<not> plainName name \<or> \<not> hasSuffix (toLower lib name) ''.zip'' \<or> entries = [] \<or> list_ex (\<lambda>e. \<not> plainName e) entries then (400, d)
        else if sharedPath os a = [] then (404, d)
        else if uploadAllowed upload \<noteq> 200 then (uploadAllowed upload, d)
        else if \<not> rootOpens \<or> \<not> dirOpens then (404, d)
        else if d name \<noteq> None then (409, d)
        else let tmp = ''.'' @ name @ ''.'' @ hex_encode rnd @ ''.tmp'' in
          (case writeZip zo tmp (applyEdits (zo_zipping zo) d) of (e1, d1) \<Rightarrow>
            (case (if e1 = None then place zo tmp name d1 else (e1, d1)) of (e2, d2) \<Rightarrow>
              let d3 = (if zo_removes zo then d2(tmp := None) else d2) in
              (case e2 of Some ErrExist \<Rightarrow> (409, d3) | Some ErrNotExist \<Rightarrow> (404, d3) | Some ErrOther \<Rightarrow> (403, d3) | None \<Rightarrow> (201, d3)))))"

section \<open>The gateway is no open proxy\<close>

lemma register_routes:
  "register taken apps routes = Some routes' \<Longrightarrow> routes' = routes @ map (\<lambda>a. (app_name a, a)) apps"
  by (induction taken apps routes rule: register.induct) (auto split: if_splits)

lemma buildGateway_routes: "buildGateway apps = Some routes \<Longrightarrow> routes = map (\<lambda>a. (app_name a, a)) apps"
  using register_routes by (fastforce simp: buildGateway_def)

lemma valid_name_chars: "appname_Valid n \<Longrightarrow> c \<in> set n \<Longrightarrow> c \<noteq> CHR ''/'' \<and> c \<noteq> CHR ''%'' \<and> c \<noteq> CHR ''{'' \<and> c \<noteq> CHR ''}'' \<and> c \<noteq> CHR '' '' \<and> c \<noteq> CHR ''.''"
  by (drule (1) appname_Valid_chars) (auto simp: name_char_def name_start_def is_lower_letter_def is_digit_def byte_def)

lemma register_valid:
  "list_all (\<lambda>a. appname_Valid (app_name a)) apps \<Longrightarrow> distinct (appNames apps) \<Longrightarrow>
   \<forall>a \<in> set apps. (''/'' @ app_name a) \<notin> set taken \<Longrightarrow> register taken apps routes \<noteq> None"
proof (induction apps arbitrary: taken routes)
  case (Cons a apps)
  have "app_name a \<noteq> []" using Cons.prems(1) by (auto simp: appname_Valid_def pattern_iff)
  moreover have "\<not> containsAny (app_name a) ''/{} ''"
    using Cons.prems(1) valid_name_chars [of "app_name a"] by (auto simp: containsAny_def list_ex_iff)
  moreover have "register ((''/'' @ app_name a) # taken) apps (routes @ [(app_name a, a)]) \<noteq> None"
  proof (rule Cons.IH)
    show "\<forall>b \<in> set apps. (''/'' @ app_name b) \<notin> set ((''/'' @ app_name a) # taken)"
      using Cons.prems(2,3) by (auto simp: appNames_def image_iff)
  qed (use Cons.prems in \<open>simp_all add: appNames_def\<close>)
  ultimately show ?case using Cons.prems(3) by simp
qed simp

lemma state_ok_apps: "state_ok urlParse s \<Longrightarrow> list_all (\<lambda>a. appname_Valid (app_name a)) (st_apps s) \<and> distinct (appNames (st_apps s))"
  by (auto simp: state_ok_def list_all_iff app_ok_def)

lemma buildGateway_valid:
  assumes "list_all (\<lambda>a. appname_Valid (app_name a)) apps" "distinct (appNames apps)"
  shows "buildGateway apps = Some (map (\<lambda>a. (app_name a, a)) apps)"
proof -
  have "\<forall>a \<in> set apps. (''/'' @ app_name a) \<notin> set [discoveryPath]"
    using assms(1) valid_name_chars by (fastforce simp: list_all_iff discoveryPath_def)
  then have "buildGateway apps \<noteq> None" using register_valid [OF assms] by (simp add: buildGateway_def)
  then show ?thesis using buildGateway_routes by blast
qed

text \<open>
  C14.  The gateway forwards to the applications it knows and to nothing else.  Whatever a request names, a host, a scheme, a
  port or an escaped path, what is forwarded goes over plain HTTP to the address the registry has for the application
  that is the first segment of the path; an absolute request and a CONNECT are refused.
\<close>

theorem gateway_reaches_only_registered:
  assumes "buildGateway apps = Some routes" and "gateway_ServeHTTP lib ll routes ag r = Does act"
  shows "gw_scheme r = [] \<and> gw_urlHost r = [] \<and> gw_method r \<noteq> ''CONNECT'' \<and>
    (\<exists>a \<in> set apps. hd (segments (gw_escaped r)) = app_name a \<and>
       (act = CompressIn a \<or> (\<exists>ob. act = Forward ob \<and> ob_scheme ob = ''http'' \<and> ob_host ob = app_address a \<and> ob_rawQuery ob = gw_rawQuery r)))"
proof -
  obtain a where a: "gatewayGuard routes r = AppRoute a" "act = appProxy a r"
    using assms(2) by (auto simp: gateway_ServeHTTP_def split: gwRoute.splits)
  then have g: "gw_scheme r = [] \<and> gw_urlHost r = [] \<and> gw_method r \<noteq> ''CONNECT''"
      "map_of routes (hd (segments (cleanPath (gw_escaped r)))) = Some a" "cleanPath (gw_escaped r) = gw_escaped r"
    by (auto simp: gatewayGuard_def muxRoute_def Let_def split: if_splits option.splits)
  have "(hd (segments (gw_escaped r)), a) \<in> set routes" using g(2,3) map_of_SomeD by fastforce
  then have "a \<in> set apps \<and> hd (segments (gw_escaped r)) = app_name a"
    using buildGateway_routes [OF assms(1)] by auto
  then show ?thesis using g(1) a(2) by (auto simp: appProxy_def Let_def)
qed

lemma unescape_plain: "CHR ''%'' \<notin> set s \<Longrightarrow> unescape s = Some s"
  by (induction s) auto

lemma clean_name:
  assumes "appname_Valid n"
  shows "cleanPath (''/'' @ n) = ''/'' @ n" "segments (''/'' @ n) = [n]"
proof -
  have n: "CHR ''/'' \<notin> set n" "CHR ''%'' \<notin> set n" "CHR ''.'' \<notin> set n" "n \<noteq> []"
    using valid_name_chars [OF assms] assms by (auto simp: appname_Valid_def pattern_iff)
  then have "n \<noteq> ''.''" "n \<noteq> ''..''" "last n \<noteq> CHR ''/''" using last_in_set [of n] by (auto simp del: last_in_set)
  then show "cleanPath (''/'' @ n) = ''/'' @ n"
    using n by (simp add: cleanPath_def splitOn_no_sep)
  show "segments (''/'' @ n) = [n]"
    using n by (simp add: segments_def splitOn_no_sep segment_def unescape_plain)
qed

lemma registered_reached:
  assumes ok: "list_all (\<lambda>a. appname_Valid (app_name a)) apps" "distinct (appNames apps)" and a: "a \<in> set apps"
    and r: "gw_scheme r = []" "gw_urlHost r = []" "gw_method r \<noteq> ''CONNECT''"
    and path: "gw_escaped r = ''/'' @ app_name a \<or> (\<exists>rest. gw_escaped r = ''/'' @ app_name a @ ''/'' @ rest \<and> cleanPath (gw_escaped r) = gw_escaped r)"
  shows "\<exists>routes. buildGateway apps = Some routes \<and> gateway_ServeHTTP lib ll routes ag r = Does (appProxy a r)"
proof -
  let ?routes = "map (\<lambda>a. (app_name a, a)) apps"
  have valid: "appname_Valid (app_name a)" using ok(1) a by (auto simp: list_all_iff)
  have get: "map_of ?routes (app_name a) = Some a"
    using ok(2) a by (intro map_of_is_SomeI) (auto simp: appNames_def comp_def)
  have n: "CHR ''/'' \<notin> set (app_name a)" "CHR ''%'' \<notin> set (app_name a)" "CHR ''.'' \<notin> set (app_name a)"
    using valid_name_chars [OF valid] by auto
  have clean: "cleanPath (gw_escaped r) = gw_escaped r" and seg: "hd (segments (gw_escaped r)) = app_name a"
  proof -
    show "cleanPath (gw_escaped r) = gw_escaped r" using path clean_name(1) [OF valid] by auto
    show "hd (segments (gw_escaped r)) = app_name a"
      using path clean_name(2) [OF valid] n splitOn_append [of "CHR ''/''" "app_name a"]
      by (auto simp: segments_def segment_def unescape_plain)
  qed
  have "app_name a \<noteq> ''.well-known''" using n(3) by auto
  then have "segments (gw_escaped r) \<noteq> [''.well-known'', ''anywhere-file'']" using seg by (metis list.sel(1))
  moreover have "gw_escaped r \<noteq> ''*''" using path by auto
  ultimately have "gatewayGuard ?routes r = AppRoute a"
    using r clean seg get by (simp add: gatewayGuard_def muxRoute_def Let_def)
  then show ?thesis using buildGateway_valid [OF ok] by (simp add: gateway_ServeHTTP_def)
qed

text \<open>
  Every share is reached.  With a valid registry the gateway comes up, and a request for a registered application, for
  its root or for anything under it, is forwarded to that application's address with its path as it is.
\<close>

theorem every_share_is_reached:
  assumes ok: "state_ok urlParse st" and a: "a \<in> set (st_apps st)"
    and r: "gw_scheme r = []" "gw_urlHost r = []" "gw_method r \<noteq> ''CONNECT''" "gw_queryKeys r = []"
    and path: "gw_escaped r = ''/'' @ app_name a \<or> (\<exists>rest. gw_escaped r = ''/'' @ app_name a @ ''/'' @ rest \<and> cleanPath (gw_escaped r) = gw_escaped r)"
  shows "\<exists>routes ob. buildGateway (st_apps st) = Some routes \<and> gateway_ServeHTTP lib ll routes ag r = Does (Forward ob) \<and>
    ob_host ob = app_address a \<and> ob_rawQuery ob = gw_rawQuery r"
  using registered_reached [OF _ _ a r(1-3) path, of lib ll ag] state_ok_apps [OF ok] r(4)
  by (auto simp: appProxy_def Let_def)

section \<open>Compress replaces nothing\<close>

lemma applyEdits_append: "applyEdits (es @ es') d = applyEdits es' (applyEdits es d)"
  by (simp add: applyEdits_def)

lemma applyEdits_upd: "n \<notin> fst ` set es \<Longrightarrow> applyEdits es (d(n := v)) = (applyEdits es d)(n := v)"
proof (induction es arbitrary: d)
  case (Cons e es)
  obtain m w where e: "e = (m, w)" by (cases e)
  have "d(n := v, m := w) = d(m := w, n := v)" using Cons.prems e by (auto intro: fun_upd_twist)
  then have "applyEdits (e # es) (d(n := v)) = applyEdits es (d(m := w, n := v))" by (simp add: applyEdits_def e del: fun_upd_apply)
  also have "\<dots> = (applyEdits es (d(m := w)))(n := v)" by (rule Cons.IH) (use Cons.prems in simp)
  finally show ?case by (simp add: applyEdits_def e del: fun_upd_apply)
qed (simp add: applyEdits_def)

lemma applyEdits_other: "n \<notin> fst ` set es \<Longrightarrow> applyEdits es d n = d n"
  using applyEdits_upd [of n es d "d n"] by (metis fun_upd_same fun_upd_triv)

text \<open>What \<open>place\<close> can end with, the temporary file aside: \<open>es\<close> is what others did on the way.\<close>

lemma place_outcome:
  assumes "place zo tmp name (d(tmp \<mapsto> x)) = (e, d')" and "tmp \<noteq> name"
    and "tmp \<notin> fst ` set (zo_linked zo @ zo_looked zo)"
  shows "\<exists>es \<in> {[], zo_linked zo, zo_linked zo @ zo_looked zo}.
    (e \<noteq> None \<longrightarrow> d'(tmp := None) = (applyEdits es d)(tmp := None)) \<and>
    (e = None \<longrightarrow> d'(tmp := None) = (applyEdits es d)(name \<mapsto> x, tmp := None) \<and>
       (es = [] \<and> d name = None \<or>
        \<not> zo_links zo \<and> es = zo_linked zo @ zo_looked zo \<and> applyEdits (zo_linked zo) d name = None))"
proof -
  have free: "tmp \<notin> fst ` set (zo_linked zo)" "tmp \<notin> fst ` set (zo_looked zo)" using assms(3) by auto
  have d1: "applyEdits (zo_linked zo) (d(tmp \<mapsto> x)) = (applyEdits (zo_linked zo) d)(tmp \<mapsto> x)"
    by (rule applyEdits_upd [OF free(1)])
  have d2: "applyEdits (zo_looked zo) ((applyEdits (zo_linked zo) d)(tmp \<mapsto> x)) = (applyEdits (zo_linked zo @ zo_looked zo) d)(tmp \<mapsto> x)"
    by (simp add: applyEdits_append applyEdits_upd [OF free(2)])
  show ?thesis
  proof (cases "d name \<noteq> None \<or> zo_links zo")
    case True
    then show ?thesis using assms(1,2)
      by (intro bexI [of _ "[]"]) (auto simp: place_def applyEdits_def fun_upd_twist split: if_splits)
  next
    case False
    show ?thesis
    proof (cases "applyEdits (zo_linked zo) d name = None")
      case True
      then show ?thesis using assms(1,2) False
        by (intro bexI [of _ "zo_linked zo @ zo_looked zo"]) (auto simp: place_def Let_def d1 d2 fun_upd_twist split: option.splits)
    next
      case taken: False
      then show ?thesis using assms(1,2) False
        by (intro bexI [of _ "zo_linked zo"]) (auto simp: place_def Let_def d1)
    qed
  qed
qed


section \<open>Concrete runs\<close>

definition demo_shared :: state where
  "demo_shared = demo_state\<lparr>st_apps := [demo_app]\<rparr>"

definition demo_get :: gwRequest where
  "demo_get = \<lparr>gw_method = ''GET'', gw_scheme = [], gw_urlHost = [], gw_escaped = ''/files'', gw_path = ''/files'', gw_rawQuery = [],
     gw_queryKeys = [], gw_headers = []\<rparr>"

lemma demo_shared_ok: "state_ok (\<lambda>_. None) demo_shared"
  using demo_state_ok [of "\<lambda>_. None"] demo_app_ok by (auto simp: demo_shared_def demo_state_def state_ok_def appNames_def stateMaxApps_def)

lemma demo_served: "\<exists>routes ob. buildGateway [demo_app] = Some routes \<and>
    gateway_ServeHTTP toy_lib toy_lan routes (newAgent ''seed'' demo_shared demo_disk) demo_get = Does (Forward ob)"
  using registered_reached [of "[demo_app]" demo_app demo_get toy_lib toy_lan "newAgent ''seed'' demo_shared demo_disk"] state_ok_apps [OF demo_shared_ok]
  by (auto simp: demo_shared_def demo_get_def demo_app_def appProxy_def compressQuery_def Let_def)

theorem every_share_is_reached_witness:
  "\<exists>routes ob. buildGateway [demo_app] = Some routes \<and>
     gateway_ServeHTTP toy_lib toy_lan routes (newAgent ''seed'' demo_shared demo_disk) demo_get = Does (Forward ob) \<and> ob_host ob = app_address demo_app"
  using every_share_is_reached [OF demo_shared_ok, of demo_app demo_get toy_lib toy_lan "newAgent ''seed'' demo_shared demo_disk"]
  by (auto simp: demo_shared_def demo_get_def demo_app_def)

theorem gateway_reaches_only_registered_witness:
  "\<exists>routes ob. gateway_ServeHTTP toy_lib toy_lan routes (newAgent ''seed'' demo_shared demo_disk) demo_get = Does (Forward ob) \<and>
     ob_host ob = app_address demo_app"
proof -
  obtain routes ob where run: "buildGateway [demo_app] = Some routes"
      "gateway_ServeHTTP toy_lib toy_lan routes (newAgent ''seed'' demo_shared demo_disk) demo_get = Does (Forward ob)"
    using demo_served by blast
  then show ?thesis using gateway_reaches_only_registered [OF run] by auto
qed

definition demo_zip :: zipOps where
  "demo_zip = \<lparr>zo_create = None, zo_written = ''PK'', zo_zipped = None, zo_links = True, zo_rename = None, zo_removes = True,
     zo_zipping = [(''b'', Some ''new'')], zo_linked = [], zo_looked = []\<rparr>"


end
