(* ===== verification/Identity.thy ===== *)
theory Identity
  imports AgentState "HOL-Library.Word"
begin

unbundle bit_operations_syntax

text \<open>
  \<^verbatim>\<open>device/agent/identity.go\<close> and \<^verbatim>\<open>seedstore.go\<close>: where the seed of the device key lives and when a new one is made.
  The two stores implement one interface, a locale with what a store promises; the client, \<^verbatim>\<open>loadOrCreateKey\<close>, is
  proved against it.  The keyring and the file system answer each call from a list of outcomes.
\<close>

section \<open>The interface and its client\<close>

datatype seedErr = NoSeed | StoreError

record 'w seedStore =
  ss_load :: "'w \<Rightarrow> (seedErr + string) \<times> 'w"
  ss_save :: "string \<Rightarrow> 'w \<Rightarrow> bool \<times> 'w"

datatype keyErr = WrongSize nat | StoreLocked | NoRandom | SaveFailed | NoReadBack | NotReadBack

definition SeedSize :: nat where "SeedSize = 32"

definition loadOrCreateKey :: "'w seedStore \<Rightarrow> string option \<Rightarrow> 'w \<Rightarrow> (keyErr + string) \<times> 'w" where
  "loadOrCreateKey store rand w0 = (case ss_load store w0 of
      (Inr seed, w) \<Rightarrow> if length seed \<noteq> SeedSize then (Inl (WrongSize (length seed)), w) else (Inr seed, w)
    | (Inl StoreError, w) \<Rightarrow> (Inl StoreLocked, w)
    | (Inl NoSeed, w) \<Rightarrow> (case rand of
        None \<Rightarrow> (Inl NoRandom, w)
      | Some seed \<Rightarrow> (case ss_save store seed w of
          (False, w') \<Rightarrow> (Inl SaveFailed, w')
        | (True, w') \<Rightarrow> (case ss_load store w' of
            (Inl _, w'') \<Rightarrow> (Inl NoReadBack, w'')
          | (Inr stored, w'') \<Rightarrow> if stored \<noteq> seed then (Inl NotReadBack, w'') else (Inr seed, w'')))))"

text \<open>One draw of random bytes per attempt; when the list runs out the context ends, and the last error is returned.\<close>

fun waitForDeviceKey :: "'w seedStore \<Rightarrow> string option \<Rightarrow> string option list \<Rightarrow> 'w \<Rightarrow> (keyErr + string) \<times> 'w" where
  "waitForDeviceKey store rand rands w = (case loadOrCreateKey store rand w of
      (Inr seed, w') \<Rightarrow> (Inr seed, w')
    | (Inl e, w') \<Rightarrow>
        if e \<noteq> StoreLocked then (Inl e, w')
        else (case rands of [] \<Rightarrow> (Inl e, w') | r # rs \<Rightarrow> waitForDeviceKey store r rs w'))"

section \<open>The stores\<close>

text \<open>
  The operating system's keystore holds text.  A call on it works, or nothing answers for the service on the bus, or it fails
  in another way, locked say; a failing write changes nothing.
\<close>

datatype krOp = KrWorks | KrMissing | KrFails

record keyring =
  kr_value :: "string option"
  kr_ops :: "krOp list"

definition nextKr :: "keyring \<Rightarrow> krOp \<times> keyring" where
  "nextKr k = (case kr_ops k of [] \<Rightarrow> (KrWorks, k) | x # xs \<Rightarrow> (x, k\<lparr>kr_ops := xs\<rparr>))"

definition keyringLoad :: "keyring \<Rightarrow> (seedErr + string) \<times> keyring" where
  "keyringLoad k = (case nextKr k of
      (KrWorks, k') \<Rightarrow> ((case kr_value k' of None \<Rightarrow> Inl NoSeed
        | Some v \<Rightarrow> (case hex_decode (trimSpace v) of None \<Rightarrow> Inl StoreError | Some s \<Rightarrow> Inr s)), k')
    | (_, k') \<Rightarrow> (Inl StoreError, k'))"

definition keyringSave :: "string \<Rightarrow> keyring \<Rightarrow> bool \<times> keyring" where
  "keyringSave seed k = (case nextKr k of
      (KrWorks, k') \<Rightarrow> (True, k'\<lparr>kr_value := Some (hex_encode seed)\<rparr>) | (_, k') \<Rightarrow> (False, k'))"

definition keyringStore :: "keyring seedStore" where
  "keyringStore = \<lparr>ss_load = keyringLoad, ss_save = keyringSave\<rparr>"

text \<open>The file store: the file, its mode, its directory's mode, and how each system call ends.\<close>

record seedFile =
  sf_seed :: "string option"
  sf_mode :: "32 word"
  sf_dirMode :: "32 word option"
  sf_ops :: "fileOp list"

definition nextSf :: "seedFile \<Rightarrow> fileOp \<times> seedFile" where
  "nextSf f = (case sf_ops f of [] \<Rightarrow> (Works, f) | x # xs \<Rightarrow> (x, f\<lparr>sf_ops := xs\<rparr>))"

text \<open>\<^verbatim>\<open>checkMode\<close>; the mode is what \<^verbatim>\<open>os.Stat\<close> reports, and Windows has nothing to check.\<close>

definition checkMode :: "bool \<Rightarrow> 32 word option \<Rightarrow> 32 word \<Rightarrow> seedFile \<Rightarrow> bool \<times> seedFile" where
  "checkMode windows mode want f =
     (if windows then (True, f)
      else case nextSf f of
        (Works, f') \<Rightarrow> ((case mode of None \<Rightarrow> False | Some m \<Rightarrow> m AND NOT want = 0), f')
      | (_, f') \<Rightarrow> (False, f'))"

definition fileLoad :: "bool \<Rightarrow> seedFile \<Rightarrow> (seedErr + string) \<times> seedFile" where
  "fileLoad windows f0 = (case nextSf f0 of
      (Works, f) \<Rightarrow> (case sf_seed f of
          None \<Rightarrow> (Inl NoSeed, f)
        | Some seed \<Rightarrow> (case checkMode windows (sf_dirMode f) 0x1C0 f of
            (False, f1) \<Rightarrow> (Inl StoreError, f1)
          | (True, f1) \<Rightarrow> (case checkMode windows (Some (sf_mode f)) 0x180 f1 of
              (False, f2) \<Rightarrow> (Inl StoreError, f2) | (True, f2) \<Rightarrow> (Inr seed, f2))))
    | (_, f) \<Rightarrow> (Inl StoreError, f))"

text \<open>
  \<^verbatim>\<open>MkdirAll\<close>, \<^verbatim>\<open>checkMode\<close>, \<^verbatim>\<open>WriteFile\<close>, which truncates first, and \<^verbatim>\<open>Chmod\<close>.  A directory that exists
  keeps its mode, and so does a file.
\<close>

definition fileSave :: "bool \<Rightarrow> string \<Rightarrow> seedFile \<Rightarrow> bool \<times> seedFile" where
  "fileSave windows seed f0 = (case nextSf f0 of
      (Works, f1) \<Rightarrow>
        let f = (if sf_dirMode f1 = None then f1\<lparr>sf_dirMode := Some 0x1C0\<rparr> else f1) in
        (case checkMode windows (sf_dirMode f) 0x1C0 f of
          (False, f2) \<Rightarrow> (False, f2)
        | (True, f2) \<Rightarrow> (case nextSf f2 of
            (Fails, f3) \<Rightarrow> (False, f3)
          | (Truncates n, f3) \<Rightarrow> (False, f3\<lparr>sf_mode := (if sf_seed f3 = None then 0x180 else sf_mode f3), sf_seed := Some (take n seed)\<rparr>)
          | (Works, f3) \<Rightarrow>
              let f4 = f3\<lparr>sf_mode := (if sf_seed f3 = None then 0x180 else sf_mode f3), sf_seed := Some seed\<rparr> in
              (case nextSf f4 of (Works, f5) \<Rightarrow> (True, f5\<lparr>sf_mode := 0x180\<rparr>) | (_, f5) \<Rightarrow> (False, f5))))
    | (_, f1) \<Rightarrow> (False, f1))"

definition fileStore :: "bool \<Rightarrow> seedFile seedStore" where
  "fileStore windows = \<lparr>ss_load = fileLoad windows, ss_save = fileSave windows\<rparr>"

datatype storeKind = KeyringStore | FileStore

text \<open>\<^verbatim>\<open>secretServiceMissing\<close> of the error of one load: the bus has no such service.\<close>

definition secretServiceMissing :: "keyring \<Rightarrow> bool" where
  "secretServiceMissing k = (fst (nextKr k) = KrMissing)"

definition hasKeystore :: "string \<Rightarrow> bool \<Rightarrow> keyring \<Rightarrow> bool \<times> keyring" where
  "hasKeystore dbusAddress busExists k =
     (if dbusAddress = [] \<and> \<not> busExists then (False, k)
      else (\<not> secretServiceMissing k, snd (keyringLoad k)))"

text \<open>The answer says which store; an unknown setting is an error.\<close>

definition openSeedStore :: "string \<Rightarrow> string \<Rightarrow> bool \<Rightarrow> string \<Rightarrow> keyring \<Rightarrow> storeKind option \<times> keyring" where
  "openSeedStore goos dbusAddress busExists keystore k =
     (if keystore = ''keyring'' then (Some KeyringStore, k)
      else if keystore = ''file'' then (Some FileStore, k)
      else if keystore \<noteq> ''auto'' then (None, k)
      else if goos = ''linux'' then
        (case hasKeystore dbusAddress busExists k of (has, k') \<Rightarrow> (Some (if has then KeyringStore else FileStore), k'))
      else (Some KeyringStore, k))"

text \<open>What a person compares: the digest of the public key in the shape OpenSSH prints.\<close>

definition fingerprint :: "golib \<Rightarrow> string \<Rightarrow> string" where
  "fingerprint lib seed = ''SHA256:'' @ trimRight (CHR ''='') (b64_encode (lib_sha256 lib (lib_public lib seed)))"

section \<open>The agent starting again and again\<close>

text \<open>
  What a start meets: the system, the setting, the session bus, how each call on the stores ends, and the random bytes of each
  attempt.  Both stores live on; each start, of the service or of a command that needs the key, chooses its store afresh.
\<close>

record startup =
  su_goos :: string
  su_keystore :: string
  su_dbusAddress :: string
  su_busExists :: bool
  su_keyring :: "krOp list"
  su_file :: "fileOp list"
  su_rand :: "string option"
  su_rands :: "string option list"

record seedPlaces =
  pl_keyring :: keyring
  pl_file :: seedFile

text \<open>\<^verbatim>\<open>openSeedStore\<close> and \<^verbatim>\<open>waitForDeviceKey\<close>, as \<^verbatim>\<open>serve\<close>, \<^verbatim>\<open>openAgent\<close> and \<^verbatim>\<open>printKey\<close> call them.\<close>

definition startKey :: "startup \<Rightarrow> seedPlaces \<Rightarrow> (storeKind \<times> (keyErr + string)) option \<times> seedPlaces" where
  "startKey x w =
     (let k = (pl_keyring w)\<lparr>kr_ops := su_keyring x\<rparr>; f = (pl_file w)\<lparr>sf_ops := su_file x\<rparr> in
      (case openSeedStore (su_goos x) (su_dbusAddress x) (su_busExists x) (su_keystore x) k of
         (None, k1) \<Rightarrow> (None, \<lparr>pl_keyring = k1, pl_file = f\<rparr>)
       | (Some KeyringStore, k1) \<Rightarrow> (case waitForDeviceKey keyringStore (su_rand x) (su_rands x) k1 of
           (r, k2) \<Rightarrow> (Some (KeyringStore, r), \<lparr>pl_keyring = k2, pl_file = f\<rparr>))
       | (Some FileStore, k1) \<Rightarrow> (case waitForDeviceKey (fileStore (su_goos x = ''windows'')) (su_rand x) (su_rands x) f of
           (r, f2) \<Rightarrow> (Some (FileStore, r), \<lparr>pl_keyring = k1, pl_file = f2\<rparr>))))"

fun starts :: "startup list \<Rightarrow> seedPlaces \<Rightarrow> (storeKind \<times> (keyErr + string)) option list \<times> seedPlaces" where
  "starts [] w = ([], w)"
| "starts (x # xs) w = (case startKey x w of (r, w1) \<Rightarrow> (case starts xs w1 of (rs, w2) \<Rightarrow> (r # rs, w2)))"

section \<open>What a store promises\<close>

locale seed_store =
  fixes store :: "'w seedStore" and content :: "'w \<Rightarrow> string option" and reads :: "string \<Rightarrow> string option"
  assumes load_keeps: "ss_load store w = (r, w') \<Longrightarrow> content w' = content w"
    and load_held: "ss_load store w = (Inr s, w') \<Longrightarrow> \<exists>c. content w = Some c \<and> reads c = Some s"
    and load_empty: "ss_load store w = (Inl NoSeed, w') \<Longrightarrow> content w = None"
begin

lemma key_is_held:
  assumes "loadOrCreateKey store rand w = (Inr seed, w')"
  shows "\<exists>c. content w' = Some c \<and> reads c = Some seed"
proof -
  obtain r w1 where l: "ss_load store w = (r, w1)" by fastforce
  show ?thesis
  proof (cases r)
    case (Inr s)
    then show ?thesis using assms l load_held load_keeps by (auto simp: loadOrCreateKey_def split: if_splits)
  next
    case (Inl e)
    then obtain s w2 w3 where "ss_load store w2 = (Inr s, w3)" "s = seed" "w' = w3"
      using assms l by (auto simp: loadOrCreateKey_def split: seedErr.splits option.splits prod.splits bool.splits sum.splits if_splits)
    then show ?thesis using load_held load_keeps by metis
  qed
qed

lemma key_kept:
  assumes "content w \<noteq> None" and "loadOrCreateKey store rand w = (r, w')"
  shows "content w' = content w"
proof -
  obtain x w1 where l: "ss_load store w = (x, w1)" by fastforce
  have "x \<noteq> Inl NoSeed" using load_empty [of w w1] l assms(1) by auto
  then have "w' = w1" using l assms(2)
    by (auto simp: loadOrCreateKey_def split: sum.splits seedErr.splits if_splits)
  then show ?thesis using load_keeps [OF l] by simp
qed

lemma waiting_cases:
  "waitForDeviceKey store rand rands w = (r, w') \<Longrightarrow>
   (content w \<noteq> None \<longrightarrow> content w' = content w) \<and> (\<forall>seed. r = Inr seed \<longrightarrow> (\<exists>c. content w' = Some c \<and> reads c = Some seed))"
proof (induction rands arbitrary: rand w)
  case Nil
  then show ?case using key_kept key_is_held by (auto split: prod.splits sum.splits if_splits)
next
  case (Cons a rands)
  obtain x w1 where l: "loadOrCreateKey store rand w = (x, w1)" by fastforce
  note kept = key_kept [OF _ l]
  show ?case
  proof (cases "x = Inl StoreLocked")
    case True
    then have "waitForDeviceKey store a rands w1 = (r, w')" using Cons.prems l by simp
    then show ?thesis using Cons.IH [of a w1] kept by fastforce
  next
    case False
    then have "r = x" "w' = w1" using Cons.prems l by (auto split: sum.splits if_splits)
    then show ?thesis using kept key_is_held l by blast
  qed
qed

end

lemma nextKr_value [simp]: "nextKr k = (b, k') \<Longrightarrow> kr_value k' = kr_value k"
  by (auto simp: nextKr_def split: list.splits)

interpretation keyring: seed_store keyringStore kr_value "\<lambda>v. hex_decode (trimSpace v)"
  by unfold_locales (auto simp: keyringStore_def keyringLoad_def split: prod.splits krOp.splits option.splits)

lemma nextSf_seed: "nextSf f = (op, f') \<Longrightarrow> sf_seed f' = sf_seed f \<and> sf_mode f' = sf_mode f \<and> sf_dirMode f' = sf_dirMode f"
  by (auto simp: nextSf_def split: list.splits)

lemma checkMode_seed: "checkMode windows m want f = (b, f') \<Longrightarrow> sf_seed f' = sf_seed f \<and> sf_mode f' = sf_mode f \<and> sf_dirMode f' = sf_dirMode f"
  by (auto simp: checkMode_def split: prod.splits fileOp.splits if_splits dest: nextSf_seed)

lemma fileLoad_cases:
  assumes "fileLoad windows f = (r, f')"
  shows "sf_seed f' = sf_seed f \<and> (\<forall>s. r = Inr s \<longrightarrow> sf_seed f = Some s) \<and> (r = Inl NoSeed \<longrightarrow> sf_seed f = None)"
  using assms by (auto simp: fileLoad_def split: prod.splits fileOp.splits option.splits bool.splits
      dest!: nextSf_seed checkMode_seed)

interpretation file_store: seed_store "fileStore windows" sf_seed Some for windows
  by unfold_locales (auto simp: fileStore_def dest!: fileLoad_cases)

section \<open>The PC keeps its identity\<close>

text \<open>What a place holds, and the key a text in it is.\<close>

definition placeHolds :: "storeKind \<Rightarrow> seedPlaces \<Rightarrow> string option" where
  "placeHolds kind w = (case kind of KeyringStore \<Rightarrow> kr_value (pl_keyring w) | FileStore \<Rightarrow> sf_seed (pl_file w))"

definition readsAs :: "storeKind \<Rightarrow> string \<Rightarrow> string option" where
  "readsAs kind v = (case kind of KeyringStore \<Rightarrow> hex_decode (trimSpace v) | FileStore \<Rightarrow> Some v)"

lemma openSeedStore_keeps: "openSeedStore goos addr bus setting k = (s, k') \<Longrightarrow> kr_value k' = kr_value k"
proof -
  have "kr_value (snd (keyringLoad k)) = kr_value k"
    using keyring.load_keeps [of k] by (cases "keyringLoad k") (simp add: keyringStore_def)
  then show "openSeedStore goos addr bus setting k = (s, k') \<Longrightarrow> kr_value k' = kr_value k"
    by (auto simp: openSeedStore_def hasKeystore_def split: if_splits prod.splits)
qed

lemma startKey_cases:
  assumes "startKey x w = (r, w')"
  shows "(placeHolds kind w \<noteq> None \<longrightarrow> placeHolds kind w' = placeHolds kind w) \<and>
    (\<forall>s. r = Some (kind, Inr s) \<longrightarrow> (\<exists>c. placeHolds kind w' = Some c \<and> readsAs kind c = Some s))"
proof -
  let ?k = "(pl_keyring w)\<lparr>kr_ops := su_keyring x\<rparr>" and ?f = "(pl_file w)\<lparr>sf_ops := su_file x\<rparr>"
  obtain c k1 where o: "openSeedStore (su_goos x) (su_dbusAddress x) (su_busExists x) (su_keystore x) ?k = (c, k1)" by fastforce
  have k1: "kr_value k1 = kr_value (pl_keyring w)" using openSeedStore_keeps [OF o] by simp
  show ?thesis
  proof (cases c)
    case None
    then show ?thesis using assms o k1 by (cases kind) (auto simp: startKey_def placeHolds_def)
  next
    case (Some cc)
    show ?thesis
    proof (cases cc)
      case KeyringStore
      obtain q k2 where run: "waitForDeviceKey keyringStore (su_rand x) (su_rands x) k1 = (q, k2)" by fastforce
      have "r = Some (KeyringStore, q)" "w' = \<lparr>pl_keyring = k2, pl_file = ?f\<rparr>"
        using assms o Some KeyringStore run by (simp_all add: startKey_def)
      then show ?thesis using keyring.waiting_cases [OF run] k1 by (cases kind) (auto simp: placeHolds_def readsAs_def)
    next
      case FileStore
      obtain q f2 where run: "waitForDeviceKey (fileStore (su_goos x = ''windows'')) (su_rand x) (su_rands x) ?f = (q, f2)" by fastforce
      have "r = Some (FileStore, q)" "w' = \<lparr>pl_keyring = k1, pl_file = f2\<rparr>"
        using assms o Some FileStore run by (simp_all add: startKey_def)
      then show ?thesis using file_store.waiting_cases [OF run] k1 by (cases kind) (auto simp: placeHolds_def readsAs_def)
    qed
  qed
qed

lemma starts_keep:
  "starts xs w = (rs, w') \<Longrightarrow> placeHolds kind w = Some c \<Longrightarrow>
   placeHolds kind w' = Some c \<and> (\<forall>s. Some (kind, Inr s) \<in> set rs \<longrightarrow> readsAs kind c = Some s)"
proof (induction xs arbitrary: w rs)
  case (Cons x xs)
  obtain r w1 rs' where run: "startKey x w = (r, w1)" "starts xs w1 = (rs', w')" "rs = r # rs'"
    using Cons.prems(1) by (auto split: prod.splits)
  have "placeHolds kind w1 = Some c" "r = Some (kind, Inr s) \<Longrightarrow> readsAs kind c = Some s" for s
    using startKey_cases [OF run(1), of kind] Cons.prems(2) by auto
  then show ?case using Cons.IH [OF run(2)] run(3) by auto
qed simp

lemma starts_one_key:
  "starts xs w = (rs, w') \<Longrightarrow> Some (kind, Inr s) \<in> set rs \<Longrightarrow> Some (kind, Inr t) \<in> set rs \<Longrightarrow> s = t"
proof (induction xs arbitrary: w rs)
  case (Cons x xs)
  obtain r w1 rs' where run: "startKey x w = (r, w1)" "starts xs w1 = (rs', w')" "rs = r # rs'"
    using Cons.prems(1) by (auto split: prod.splits)
  have later: "u = v" if "r = Some (kind, Inr u)" "Some (kind, Inr v) \<in> set rs'" for u v
  proof -
    obtain c where "placeHolds kind w1 = Some c" "readsAs kind c = Some u"
      using startKey_cases [OF run(1), of kind] \<open>r = Some (kind, Inr u)\<close> by blast
    then show ?thesis using starts_keep [OF run(2)] \<open>Some (kind, Inr v) \<in> set rs'\<close> by fastforce
  qed
  show ?case using Cons.IH [OF run(2)] Cons.prems(2,3) later run(3) by (metis Inr_inject option.inject prod.inject set_ConsD)
qed simp

lemma openSeedStore_fixed:
  "openSeedStore goos addr bus setting k = (Some kind, k') \<Longrightarrow> goos \<noteq> ''linux'' \<or> setting \<noteq> ''auto'' \<Longrightarrow>
   kind = (if setting = ''file'' then FileStore else KeyringStore)"
  by (auto simp: openSeedStore_def split: if_splits)

lemma startKey_kind:
  "startKey x w = (Some (kind, r), w') \<Longrightarrow>
   \<exists>k k'. openSeedStore (su_goos x) (su_dbusAddress x) (su_busExists x) (su_keystore x) k = (Some kind, k')"
  by (auto simp: startKey_def Let_def simp del: waitForDeviceKey.simps split: prod.splits option.splits storeKind.splits)

lemma starts_kind:
  "starts xs w = (rs, w') \<Longrightarrow> \<forall>x \<in> set xs. su_goos x = goos \<and> su_keystore x = setting \<Longrightarrow> goos \<noteq> ''linux'' \<or> setting \<noteq> ''auto'' \<Longrightarrow>
   Some (kind, r) \<in> set rs \<Longrightarrow> kind = (if setting = ''file'' then FileStore else KeyringStore)"
proof (induction xs arbitrary: w rs)
  case (Cons x xs)
  obtain q w1 rs' where run: "startKey x w = (q, w1)" "starts xs w1 = (rs', w')" "rs = q # rs'"
    using Cons.prems(1) by (auto split: prod.splits)
  have x: "su_goos x = goos" "su_keystore x = setting" using Cons.prems(2) by simp_all
  have new: "q = Some (kind, r) \<Longrightarrow> kind = (if setting = ''file'' then FileStore else KeyringStore)"
    using run(1) startKey_kind [of x w kind r w1] openSeedStore_fixed [OF _ Cons.prems(3)] unfolding x by blast
  have "\<forall>x \<in> set xs. su_goos x = goos \<and> su_keystore x = setting" using Cons.prems(2) by simp
  note later = Cons.IH [OF run(2) this Cons.prems(3)]
  have "q = Some (kind, r) \<or> Some (kind, r) \<in> set rs'" using Cons.prems(4) run(3) by auto
  then show ?case using new later by blast
qed simp


text \<open>
  Under the automatic choice on Linux a PC can get a second key.  A start that finds nothing answering for the Secret Service, or
  no session bus, looks into the seed file only; it makes a key there although the keystore holds one.  And a PC that began with the file makes another key
  once the service answers.  The server takes each for a device of its own.
\<close>

theorem second_key_when_the_service_is_missing:
  assumes linux: "su_goos x = ''linux''" "su_keystore x = ''auto''" "su_goos y = ''linux''" "su_keystore y = ''auto''"
    and has: "su_dbusAddress x \<noteq> []" "su_keyring x = []" and missing: "su_keyring y = [KrMissing]" "su_file y = []"
    and rand: "su_rand x = Some s" "su_rand y = Some t" "length s = SeedSize" "length t = SeedSize"
    and empty: "kr_value (pl_keyring w) = None" "sf_seed (pl_file w) = None" "sf_dirMode (pl_file w) = None"
  shows "fst (starts [x, y] w) = [Some (KeyringStore, Inr s), Some (FileStore, Inr t)] \<and>
    fst (starts [y, x] w) = [Some (FileStore, Inr t), Some (KeyringStore, Inr s)]"
proof -
  have narrow: "(0x1C0::32 word) AND NOT 0x1C0 = 0" "(0x180::32 word) AND NOT 0x180 = 0" by simp_all
  have wait: "waitForDeviceKey store r rs v = (Inr q, v')" if "loadOrCreateKey store r v = (Inr q, v')" for store :: "'v seedStore" and r rs v q v'
    using that by (cases rs) simp_all
  have kr: "loadOrCreateKey keyringStore (Some s) k = (Inr s, k\<lparr>kr_value := Some (hex_encode s)\<rparr>)"
    if "kr_value k = None" "kr_ops k = []" for k
    using that rand(3) by (simp add: loadOrCreateKey_def keyringStore_def keyringLoad_def keyringSave_def nextKr_def)
  have fl: "\<exists>f'. loadOrCreateKey (fileStore False) (Some t) f = (Inr t, f') \<and> sf_seed f' = Some t"
    if "sf_seed f = None" "sf_ops f = []" "sf_dirMode f = None" for f
    using that rand(4) narrow by (auto simp: loadOrCreateKey_def fileStore_def fileLoad_def fileSave_def nextSf_def checkMode_def Let_def)
  have x: "\<exists>v'. startKey x v = (Some (KeyringStore, Inr s), v') \<and> pl_file v' = (pl_file v)\<lparr>sf_ops := su_file x\<rparr>"
    if "kr_value (pl_keyring v) = None" for v
    using wait [OF kr, of "(pl_keyring v)\<lparr>kr_ops := []\<rparr>" "su_rands x"] that linux has rand
    by (simp add: startKey_def openSeedStore_def hasKeystore_def secretServiceMissing_def keyringLoad_def nextKr_def Let_def)
  have y: "\<exists>v'. startKey y v = (Some (FileStore, Inr t), v') \<and> kr_value (pl_keyring v') = kr_value (pl_keyring v)"
    if e: "sf_seed (pl_file v) = None" "sf_dirMode (pl_file v) = None" for v
  proof -
    obtain f' where "loadOrCreateKey (fileStore False) (Some t) ((pl_file v)\<lparr>sf_ops := []\<rparr>) = (Inr t, f')"
      using fl [of "(pl_file v)\<lparr>sf_ops := []\<rparr>"] e by auto
    from wait [OF this, of "su_rands y"] show ?thesis
      using linux missing rand
      by (simp add: startKey_def openSeedStore_def hasKeystore_def secretServiceMissing_def keyringLoad_def nextKr_def Let_def)
  qed
  obtain v1 where v1: "startKey x w = (Some (KeyringStore, Inr s), v1)" "pl_file v1 = (pl_file w)\<lparr>sf_ops := su_file x\<rparr>"
    using x [OF empty(1)] by blast
  obtain v2 where v2: "startKey y v1 = (Some (FileStore, Inr t), v2)"
    using y [of v1] v1(2) empty by auto
  obtain u1 where u1: "startKey y w = (Some (FileStore, Inr t), u1)" "kr_value (pl_keyring u1) = None"
    using y [OF empty(2,3)] empty(1) by auto
  obtain u2 where "startKey x u1 = (Some (KeyringStore, Inr s), u2)"
    using x [OF u1(2)] by blast
  then show ?thesis using v1 v2 u1 by simp
qed

text \<open>
  The first start makes the key and the next one finds it.  On an empty keystore or an empty directory whose calls all
  work, the new key is the random draw, it is in the store, private to the user, and a later start returns it whatever
  it draws.
\<close>

theorem new_key_reads_back:
  assumes "length seed = SeedSize" and "kr_value k = None" "kr_ops k = []"
    and "sf_seed f = None" "sf_ops f = []" "sf_dirMode f = None \<or> sf_dirMode f = Some 0x1C0"
  shows "\<exists>k' f'. loadOrCreateKey keyringStore (Some seed) k = (Inr seed, k') \<and> loadOrCreateKey keyringStore r k' = (Inr seed, k') \<and>
    loadOrCreateKey (fileStore windows) (Some seed) f = (Inr seed, f') \<and> loadOrCreateKey (fileStore windows) r f' = (Inr seed, f') \<and>
    sf_mode f' = 0x180 \<and> sf_dirMode f' = Some 0x1C0"
proof -
  have narrow: "(0x1C0::32 word) AND NOT 0x1C0 = 0" "(0x180::32 word) AND NOT 0x180 = 0" by simp_all
  let ?k = "k\<lparr>kr_value := Some (hex_encode seed)\<rparr>"
  let ?f = "f\<lparr>sf_dirMode := Some 0x1C0, sf_seed := Some seed, sf_mode := 0x180\<rparr>"
  have "loadOrCreateKey keyringStore (Some seed) k = (Inr seed, ?k)" "loadOrCreateKey keyringStore r ?k = (Inr seed, ?k)"
    using assms(1-3) by (simp_all add: loadOrCreateKey_def keyringStore_def keyringLoad_def keyringSave_def nextKr_def)
  moreover have "loadOrCreateKey (fileStore windows) (Some seed) f = (Inr seed, ?f)" "loadOrCreateKey (fileStore windows) r ?f = (Inr seed, ?f)"
    using assms(1,4-6) narrow
    by (auto simp: loadOrCreateKey_def fileStore_def fileLoad_def fileSave_def nextSf_def checkMode_def Let_def)
  ultimately show ?thesis by fastforce
qed

section \<open>Concrete runs\<close>

definition demo_keyring :: keyring where "demo_keyring = \<lparr>kr_value = None, kr_ops = []\<rparr>"
definition demo_seedFile :: seedFile where "demo_seedFile = \<lparr>sf_seed = None, sf_mode = 0, sf_dirMode = None, sf_ops = []\<rparr>"
definition demo_places :: seedPlaces where "demo_places = \<lparr>pl_keyring = demo_keyring, pl_file = demo_seedFile\<rparr>"
definition demo_seed :: string where "demo_seed = replicate 32 (CHR ''a'')"

text \<open>A start on Linux with the keystore chosen, that meets what it is given.\<close>

definition demo_start :: "string \<Rightarrow> krOp list \<Rightarrow> string option \<Rightarrow> string option list \<Rightarrow> startup" where
  "demo_start setting ops rand rands = \<lparr>su_goos = ''linux'', su_keystore = setting, su_dbusAddress = ''unix'', su_busExists = True,
     su_keyring = ops, su_file = [], su_rand = rand, su_rands = rands\<rparr>"

text \<open>Two starts: the keystore is locked once and then empty, and at the second start it is locked once more.\<close>

definition demo_starts :: "startup list" where
  "demo_starts = [demo_start ''keyring'' [KrFails] None [Some demo_seed], demo_start ''keyring'' [KrFails] None [None]]"

lemma demo_starts_run:
  "\<exists>w'. starts demo_starts demo_places = ([Some (KeyringStore, Inr demo_seed), Some (KeyringStore, Inr demo_seed)], w')"
  by (simp add: demo_starts_def demo_start_def demo_places_def demo_keyring_def startKey_def openSeedStore_def loadOrCreateKey_def keyringStore_def
      keyringLoad_def keyringSave_def nextKr_def demo_seed_def SeedSize_def)


theorem second_key_when_the_service_is_missing_witness:
  "fst (starts [demo_start ''auto'' [] (Some demo_seed) [], demo_start ''auto'' [KrMissing] (Some (rev (tl demo_seed) @ ''b'')) []] demo_places) =
   [Some (KeyringStore, Inr demo_seed), Some (FileStore, Inr (rev (tl demo_seed) @ ''b''))]"
  by (rule conjunct1 [OF second_key_when_the_service_is_missing])
    (simp_all add: demo_start_def demo_places_def demo_keyring_def demo_seedFile_def demo_seed_def SeedSize_def)

theorem new_key_reads_back_witness:
  "\<exists>k'. loadOrCreateKey keyringStore (Some demo_seed) demo_keyring = (Inr demo_seed, k') \<and> loadOrCreateKey keyringStore None k' = (Inr demo_seed, k')"
  using new_key_reads_back [of demo_seed demo_keyring demo_seedFile None False]
  by (auto simp: demo_seed_def SeedSize_def demo_keyring_def demo_seedFile_def)

end
