(* ===== verification/Settings.thy ===== *)
theory Settings
  imports AgentFacts Gateway Identity
begin

text \<open>
  \<^verbatim>\<open>device/agent/settings.go\<close>, \<^verbatim>\<open>lancheck.go\<close>, and the loopback check of \<^verbatim>\<open>config.go\<close>: the endpoint a person uses to change what the
  PC shares, the token that guards it, and its handlers over the agent of \<open>AgentCore\<close>.  A decoded body is an option.
\<close>

section \<open>The token\<close>

record tokenFile =
  tf_raw :: "string option"
  tf_ops :: "fileOp list"

definition nextTf :: "tokenFile \<Rightarrow> fileOp \<times> tokenFile" where
  "nextTf f = (case tf_ops f of [] \<Rightarrow> (Works, f) | x # xs \<Rightarrow> (x, f\<lparr>tf_ops := xs\<rparr>))"

text \<open>\<^verbatim>\<open>settingsToken\<close>: the token in the file, or a new one written to it.  \<open>rnd\<close> are the thirty-two random bytes.\<close>

definition settingsToken :: "string option \<Rightarrow> tokenFile \<Rightarrow> string option \<times> tokenFile" where
  "settingsToken rnd f0 = (case nextTf f0 of
      (Works, f) \<Rightarrow>
        if tf_raw f \<noteq> None \<and> trimSpace (the (tf_raw f)) \<noteq> [] then (Some (trimSpace (the (tf_raw f))), f)
        else (case rnd of None \<Rightarrow> (None, f)
          | Some b \<Rightarrow> (case nextTf f of
              (Works, f1) \<Rightarrow> (case nextTf f1 of
                  (Works, f2) \<Rightarrow> (Some (hex_encode b), f2\<lparr>tf_raw := Some (hex_encode b @ [newline])\<rparr>)
                | (Fails, f2) \<Rightarrow> (None, f2)
                | (Truncates n, f2) \<Rightarrow> (None, f2\<lparr>tf_raw := Some (take n (hex_encode b @ [newline]))\<rparr>))
            | (_, f1) \<Rightarrow> (None, f1)))
    | (_, f) \<Rightarrow> (None, f))"

section \<open>The guard\<close>

record settingsRequest =
  sq_method :: string
  sq_host :: string
  sq_path :: string
  sq_escaped :: string
  sq_headers :: headers
  sq_query :: "(string \<times> string) list"

definition bearerToken :: "settingsRequest \<Rightarrow> string" where
  "bearerToken r =
     (let h = header_get (sq_headers r) ''Authorization'' in
      if hasPrefix h ''Bearer '' then trimSpace (trimPrefix h ''Bearer '')
      else (case map_of (sq_query r) ''t'' of Some v \<Rightarrow> v | None \<Rightarrow> []))"

definition loopbackHost :: "string \<Rightarrow> bool" where
  "loopbackHost host0 =
     (let host = (case splitHostPort host0 of Some (h, _) \<Rightarrow> h | None \<Rightarrow> host0) in
      host = ''localhost'' \<or> loopbackLiteral (trimCut {CHR ''['', CHR '']''} host))"

definition settingsGuard :: "string \<Rightarrow> settingsRequest \<Rightarrow> nat option" where
  "settingsGuard token r =
     (if \<not> loopbackHost (sq_host r) then Some 404
      else if bearerToken r = [] \<or> bearerToken r \<noteq> token then Some 401
      else None)"

text \<open>\<^verbatim>\<open>checkLoopback\<close> of \<^verbatim>\<open>config.go\<close>, on the address the endpoint is to listen on.\<close>

definition checkLoopback :: "string \<Rightarrow> bool" where
  "checkLoopback addr = (case splitHostPort addr of None \<Rightarrow> False | Some (host, _) \<Rightarrow> host = ''localhost'' \<or> loopbackLiteral host)"

section \<open>The handlers\<close>

record account =
  acc_server :: string
  acc_deviceID :: string
  acc_enrolled :: bool
  acc_login :: login
  acc_errorReports :: bool

definition accountOf :: "agent \<Rightarrow> account" where
  "accountOf ag = \<lparr>acc_server = st_server (ag_st ag), acc_deviceID = st_deviceID (ag_st ag), acc_enrolled = enrolled (ag_st ag),
     acc_login = ag_login ag, acc_errorReports = \<not> st_reportsOff (ag_st ag)\<rparr>"

text \<open>The body of a request that has one, decoded.\<close>

datatype settingsBody = NoBody | ShareBody string string | LoginBody string | ReportsBody bool

datatype settingsAnswer =
    ErrorStatus nat | Moved string | Page string string | KeystoreState "(string \<times> string) option" | Shares "share list" | AShare share
  | Account account | Dirs string string "string list" | Version string "(string \<times> string) option" | Network string

definition signIn :: "agentenv \<Rightarrow> settingsBody \<Rightarrow> agent \<Rightarrow> settingsAnswer \<times> agent" where
  "signIn env body ag = (case body of
      LoginBody server0 \<Rightarrow>
        let server = (if trimSpace server0 = [] then st_server (ag_st ag) else server0) in
        (case startLogin env server ag of (Inl _, ag') \<Rightarrow> (ErrorStatus 400, ag') | (Inr _, ag') \<Rightarrow> (Account (accountOf ag'), ag'))
    | _ \<Rightarrow> (ErrorStatus 400, ag))"

definition signOut :: "agentenv \<Rightarrow> agent \<Rightarrow> settingsAnswer \<times> agent" where
  "signOut env ag = (case logout env ag of (Some _, ag') \<Rightarrow> (ErrorStatus 502, ag') | (None, ag') \<Rightarrow> (Account (accountOf ag'), ag'))"

definition errorReports :: "agentenv \<Rightarrow> settingsBody \<Rightarrow> agent \<Rightarrow> settingsAnswer \<times> agent" where
  "errorReports env body ag = (case body of
      ReportsBody on \<Rightarrow> (case setErrorReports env on ag of (Some _, ag') \<Rightarrow> (ErrorStatus 500, ag') | (None, ag') \<Rightarrow> (Account (accountOf ag'), ag'))
    | _ \<Rightarrow> (ErrorStatus 400, ag))"

text \<open>
  \<^verbatim>\<open>browse\<close>: the home directory, the entries of a directory in order and whether each is one, and the parent come from
  the file system.
\<close>

definition maxBrowseEntries :: nat where "maxBrowseEntries = 500"

record files =
  fl_home :: "string option"
  fl_readDir :: "string \<Rightarrow> (string \<times> bool) list option"
  fl_parent :: "string \<Rightarrow> string"

fun insertSorted :: "('a \<Rightarrow> 'a \<Rightarrow> bool) \<Rightarrow> 'a \<Rightarrow> 'a list \<Rightarrow> 'a list" where
  "insertSorted le x [] = [x]"
| "insertSorted le x (y # ys) = (if le x y then x # y # ys else y # insertSorted le x ys)"

fun bytesLe :: "string \<Rightarrow> string \<Rightarrow> bool" where
  "bytesLe [] ys = True"
| "bytesLe (x # xs) [] = False"
| "bytesLe (x # xs) (y # ys) = (byte x < byte y \<or> byte x = byte y \<and> bytesLe xs ys)"

definition sortStrings :: "string list \<Rightarrow> string list" where
  "sortStrings xs = foldr (insertSorted bytesLe) xs []"

definition browse :: "osenv \<Rightarrow> files \<Rightarrow> string \<Rightarrow> settingsAnswer" where
  "browse os fl path0 = (case (if path0 = [] then fl_home fl else Some path0) of
      None \<Rightarrow> ErrorStatus 500
    | Some p \<Rightarrow> (case os_abs os p of
        None \<Rightarrow> ErrorStatus 400
      | Some path \<Rightarrow> (case fl_readDir fl path of
          None \<Rightarrow> ErrorStatus 400
        | Some entries \<Rightarrow>
            let dirs = take maxBrowseEntries (map fst (filter snd entries)) in
            Dirs path (if fl_parent fl path = path then [] else fl_parent fl path) (sortStrings dirs))))"

text \<open>\<^verbatim>\<open>versionStatus\<close>; \<open>latest\<close> is the version the server answered with, empty when it did not.\<close>

definition versionStatus :: "string \<Rightarrow> string \<Rightarrow> agent \<Rightarrow> settingsAnswer" where
  "versionStatus version latest ag =
     (if st_server (ag_st ag) = [] then Version version None
      else if newer latest version then Version version (Some (latest, st_server (ag_st ag) @ ''/download''))
      else Version version None)"

datatype lanProblem = LanFine | LanPublic | LanDenied

fun lanName :: "lanProblem \<Rightarrow> string" where
  "lanName LanFine = []" | "lanName LanPublic = ''public''" | "lanName LanDenied = ''local-network''"

definition networkStatus :: "lanProblem \<Rightarrow> settingsAnswer" where
  "networkStatus p = Network (lanName p)"

section \<open>The endpoint\<close>

text \<open>What a request brings from outside: its decoded body, a free port, the release the server names, the LAN check.\<close>

record settingsInput =
  si_body :: settingsBody
  si_freePort :: "nat option"
  si_latest :: string
  si_lan :: lanProblem

record settingsEnv =
  se_env :: agentenv
  se_os :: osenv
  se_files :: files
  se_version :: string
  se_token :: string
  se_fingerprint :: string

definition newSettings :: "settingsEnv \<Rightarrow> settingsInput \<Rightarrow> settingsRequest \<Rightarrow> agent \<Rightarrow> settingsAnswer \<times> agent" where
  "newSettings se i r ag =
     (let m = sq_method r; path = cleanPath (sq_escaped r); segs = segments path; get = (m = ''GET'' \<or> m = ''HEAD'') in
      if path \<noteq> sq_escaped r then (Moved path, ag)
      else if m = ''POST'' \<and> segs = [''v1'', ''apps''] then
        (case addShare (se_env se) (se_os se) (si_freePort i) (case si_body i of ShareBody p n \<Rightarrow> Some (p, n) | _ \<Rightarrow> None) ag of
           (Inl status, ag') \<Rightarrow> (ErrorStatus status, ag') | (Inr s, ag') \<Rightarrow> (AShare s, ag'))
      else if m = ''DELETE'' \<and> length segs = 3 \<and> take 2 segs = [''v1'', ''apps''] \<and> segs ! 2 \<noteq> [] then
        (case removeShare (se_env se) (se_os se) (segs ! 2) ag of
           (Inl status, ag') \<Rightarrow> (ErrorStatus status, ag') | (Inr ss, ag') \<Rightarrow> (Shares ss, ag'))
      else if m = ''POST'' \<and> segs = [''v1'', ''account'', ''login''] then signIn (se_env se) (si_body i) ag
      else if m = ''POST'' \<and> segs = [''v1'', ''account'', ''logout''] then signOut (se_env se) ag
      else if m = ''POST'' \<and> segs = [''v1'', ''error-reports''] then errorReports (se_env se) (si_body i) ag
      else if \<not> get then (ErrorStatus 405, ag)
      else if segs = [''v1'', ''keystore''] then (KeystoreState None, ag)
      else if segs = [''v1'', ''apps''] then (Shares (shares (se_os se) (st_apps (ag_st ag))), ag)
      else if segs = [''v1'', ''browse''] then
        (browse (se_os se) (se_files se) (case map_of (sq_query r) ''path'' of Some v \<Rightarrow> v | None \<Rightarrow> []), ag)
      else if segs = [''v1'', ''network''] then (networkStatus (si_lan i), ag)
      else if segs = [''v1'', ''version''] then (versionStatus (se_version se) (si_latest i) ag, ag)
      else if segs = [''v1'', ''account''] then (Account (accountOf ag), ag)
      else if sq_path r \<noteq> ''/'' then (ErrorStatus 404, ag)
      else (Page (st_name (ag_st ag)) (se_fingerprint se), ag))"

definition settings_ServeHTTP :: "settingsEnv \<Rightarrow> settingsInput \<Rightarrow> settingsRequest \<Rightarrow> agent \<Rightarrow> settingsAnswer \<times> agent" where
  "settings_ServeHTTP se i r ag = (case settingsGuard (se_token se) r of
      Some status \<Rightarrow> (ErrorStatus status, ag) | None \<Rightarrow> newSettings se i r ag)"

text \<open>\<^verbatim>\<open>keystoreHelp\<close>, and the endpoint before the device key has loaded.\<close>

definition keystoreHelp :: "string \<Rightarrow> string option \<Rightarrow> string \<times> string" where
  "keystoreHelp goos seedPath = (case seedPath of
      Some path \<Rightarrow> (''the file '' @ path, ''Check that the agent's own account can read it, with mode 0600 in a folder with mode 0700.'')
    | None \<Rightarrow>
        if goos = ''darwin'' then (''the macOS login keychain'', ''Unlock the login keychain in Keychain Access, or log out and in again.'')
        else if goos = ''windows'' then (''Windows Credential Manager'', ''Sign in to Windows as the person this agent runs for.'')
        else (''the Secret Service keyring'', ''Unlock the login keyring in your desktop's passwords app, or log out and in again.''))"

definition settingsLocked :: "settingsEnv \<Rightarrow> string \<times> string \<Rightarrow> string \<Rightarrow> settingsRequest \<Rightarrow> settingsAnswer" where
  "settingsLocked se help device r = (case settingsGuard (se_token se) r of
      Some status \<Rightarrow> ErrorStatus status
    | None \<Rightarrow>
      let m = sq_method r; path = cleanPath (sq_escaped r); segs = segments path; get = (m = ''GET'' \<or> m = ''HEAD'') in
      if path = ''/v1'' then Moved ''/v1/''
      else if path \<noteq> sq_escaped r then Moved path
      else if segs = [''v1'', ''keystore''] \<and> get then KeystoreState (Some help)
      else if hd segs = ''v1'' \<and> length segs > 1 then ErrorStatus 503
      else if segs \<noteq> [[]] then ErrorStatus 404
      else if \<not> get then ErrorStatus 405
      else Page device [])"

section \<open>Only who holds the token changes anything\<close>

text \<open>
  C17.  The settings endpoint does nothing without its token.  A request that changes the agent, or learns anything from the
  endpoint, was asked for under a loopback name and carried the token; everything else is answered 401 or 404 and leaves
  the agent exactly as it was.
\<close>

theorem settings_need_token:
  assumes "settings_ServeHTTP se i r ag = (answer, ag')"
  shows "(ag' = ag \<and> (answer = ErrorStatus 401 \<or> answer = ErrorStatus 404)) \<or>
    (loopbackHost (sq_host r) \<and> bearerToken r = se_token se \<and> se_token se \<noteq> [])"
  using assms by (auto simp: settings_ServeHTTP_def settingsGuard_def split: if_splits)

lemma allowed_simple: "opServer op = [] \<Longrightarrow> opFaults op = {} \<Longrightarrow> allowedOp env faults op"
  by (simp add: allowedOp_def readsBack_def cleanServerURL_def)

definition byAgent :: "agentenv \<Rightarrow> agent \<Rightarrow> agent \<Rightarrow> bool" where
  "byAgent env ag ag' \<longleftrightarrow> (\<exists>ops. list_all (allowedOp env {}) ops \<and> ag' = agentRun env ops ag)"

lemma byAgent_refl: "byAgent env ag ag"
  unfolding byAgent_def by (rule exI [of _ "[]"]) (simp add: agentRun_def)

lemma byAgent_op: "opServer op = [] \<Longrightarrow> opFaults op = {} \<Longrightarrow> agentDo env op ag = ag' \<Longrightarrow> byAgent env ag ag'"
  unfolding byAgent_def by (rule exI [of _ "[op]"]) (auto simp: agentRun_def allowed_simple)

lemma byAgent_trans: "byAgent env ag ag1 \<Longrightarrow> byAgent env ag1 ag2 \<Longrightarrow> byAgent env ag ag2"
proof -
  assume "byAgent env ag ag1" "byAgent env ag1 ag2"
  then obtain xs ys where "list_all (allowedOp env {}) (xs @ ys)" "ag2 = agentRun env (xs @ ys) ag"
    by (auto simp: byAgent_def agentRun_def)
  then show ?thesis unfolding byAgent_def by blast
qed

lemma ops_byAgent:
  "addShare env os fp inp ag = (x1, ag') \<Longrightarrow> byAgent env ag ag'" "removeShare env os name ag = (x2, ag') \<Longrightarrow> byAgent env ag ag'"
  "startLogin env server ag = (x3, ag') \<Longrightarrow> byAgent env ag ag'" "logout env ag = (x4, ag') \<Longrightarrow> byAgent env ag ag'"
  "setErrorReports env on ag = (x4, ag') \<Longrightarrow> byAgent env ag ag'"
  using byAgent_op [of "AddShare os fp inp" env ag ag'] byAgent_op [of "RemoveShare os name" env ag ag']
    byAgent_op [of "StartLogin server" env ag ag'] byAgent_op [of Logout env ag ag'] byAgent_op [of "SetErrorReports on" env ag ag']
  by simp_all

lemma handlers_byAgent:
  "signIn env body ag = (a, ag') \<Longrightarrow> byAgent env ag ag'" "signOut env ag = (a, ag') \<Longrightarrow> byAgent env ag ag'"
  "errorReports env body ag = (a, ag') \<Longrightarrow> byAgent env ag ag'"
  by (auto simp: signIn_def signOut_def errorReports_def Let_def byAgent_refl
      split: settingsBody.splits prod.splits sum.splits option.splits if_splits dest: ops_byAgent)

lemma newSettings_byAgent:
  assumes "newSettings se i r ag = (answer, ag')"
  shows "byAgent (se_env se) ag ag'"
proof -
  show ?thesis
    using assms unfolding newSettings_def Let_def
    by (auto split: if_splits prod.splits sum.splits intro: byAgent_refl ops_byAgent handlers_byAgent)
qed

text \<open>
  C16.  The endpoint adds no way round the agent.  Whatever is asked of it, the agent after the answer is the agent after
  operations of its own, so every invariant of the agent holds through the settings page as well: the registry stays
  valid, and it names this PC.
\<close>

theorem settings_refine_agent:
  assumes start: "serveAgent (se_env se) hostname seed d = Inr ag0" "st_deviceID (ag_st ag0) = []"
    and sha256: "length (lib_sha256 (ae_lib (se_env se)) (lib_public (ae_lib (se_env se)) seed)) = 32"
    and run: "ag = fold (\<lambda>(i, r) ag. snd (settings_ServeHTTP se i r ag)) calls ag0"
  shows "(\<exists>ops. list_all (allowedOp (se_env se) {}) ops \<and> ag = agentRun (se_env se) ops ag0) \<and>
    state_ok (ae_url (se_env se)) (ag_st ag)"
proof -
  have one: "byAgent (se_env se) ag (snd (settings_ServeHTTP se i r ag))" for i r ag
    using newSettings_byAgent [of se i r ag] byAgent_refl
    by (cases "newSettings se i r ag") (auto simp: settings_ServeHTTP_def split: option.splits)
  have "byAgent (se_env se) ag1 (fold (\<lambda>(i, r) ag. snd (settings_ServeHTTP se i r ag)) calls ag1)" for ag1
  proof (induction calls arbitrary: ag1)
    case (Cons c calls)
    obtain i r where c: "c = (i, r)" by (cases c)
    show ?case
      using byAgent_trans [OF one [of ag1 i r] Cons.IH [of "snd (settings_ServeHTTP se i r ag1)"]] by (simp add: c)
  qed (simp add: byAgent_refl)
  then obtain ops where ops: "list_all (allowedOp (se_env se) {}) ops" "ag = agentRun (se_env se) ops ag0"
    using run by (auto simp: byAgent_def)
  have all: "list_all (allowedOp (se_env se) UNIV) ops" using ops(1) by (simp add: list_all_iff allowedOp_def)
  have "ownRegistry (se_env se) ag"
    unfolding ops(2) by (rule valid.keeps_agentRun [OF all])
      (use serveAgent_start [OF start(1)] start(2) in \<open>simp add: ownRegistry_def\<close>)
  moreover have "ag_seed ag = seed"
    unfolding ops(2) using same_key.keeps_agentRun [OF all] serveAgent_start [OF start(1)] by simp
  ultimately show ?thesis using ops sha256 by (auto simp: ownRegistry_def)
qed

section \<open>The token is made once\<close>

lemma no_space_prefix:
  assumes "\<forall>w \<in> set ws. w \<noteq> [] \<and> \<not> (32 < byte (hd w) \<and> byte (hd w) < 128)" "s \<noteq> []" "32 < byte (hd s) \<and> byte (hd s) < 128"
  shows "strip_runes ws s = s"
  using assms by (intro strip_runes_id) (force simp: find_None_iff prefix_def neq_Nil_conv)

lemma trimSpace_line:
  assumes "s \<noteq> []" "\<forall>c \<in> set s. 32 < byte c \<and> byte c < 128"
  shows "trimSpace (s @ [newline]) = s"
proof -
  have "strip_runes space_runes (s @ [newline]) = s @ [newline]"
    using assms by (intro no_space_prefix space_runes_hd) simp_all
  moreover have "find (\<lambda>w. w \<noteq> [] \<and> prefix w (newline # rev s)) (map rev space_runes) = Some [newline]"
    by (simp add: space_runes_def newline_def)
  then have "strip_runes (map rev space_runes) (newline # rev s) = strip_runes (map rev space_runes) (rev s)"
    by (subst strip_runes.simps) simp
  moreover have "strip_runes (map rev space_runes) (rev s) = rev s"
    using assms by (intro no_space_prefix space_runes_hd) (simp_all add: hd_rev)
  ultimately show ?thesis by (simp add: trimSpace_def)
qed

lemma trimSpace_token: "length b = 32 \<Longrightarrow> trimSpace (hex_encode b @ [newline]) = hex_encode b \<and> hex_encode b \<noteq> []"
  by (intro conjI trimSpace_line ballI hex_clean hex_encode_lower) auto

text \<open>
  The token is made once and read ever after.  A token that \<^const>\<open>settingsToken\<close> hands out is not empty; the next start
  that can read the file hands out the same one, so the page a person has open keeps working.
\<close>

theorem settings_token_stable:
  assumes "settingsToken rnd f = (Some token, f')" and "\<And>b. rnd = Some b \<Longrightarrow> length b = 32" and "tf_ops f' = []"
  shows "token \<noteq> [] \<and> settingsToken rnd' f' = (Some token, f')"
proof -
  have raw: "\<exists>raw. tf_raw f' = Some raw \<and> trimSpace raw = token \<and> token \<noteq> []"
    using assms(1,2) trimSpace_token
    by (auto simp: settingsToken_def nextTf_def split: list.splits fileOp.splits if_splits option.splits)
  then show ?thesis using assms(3) by (auto simp: settingsToken_def nextTf_def)
qed

section \<open>Concrete runs\<close>

definition demo_settings :: settingsEnv where
  "demo_settings = \<lparr>se_env = demo_env, se_os = demo_os, se_files = \<lparr>fl_home = None, fl_readDir = (\<lambda>_. None), fl_parent = id\<rparr>,
     se_version = ''1.0.0'', se_token = ''token'', se_fingerprint = []\<rparr>"

definition demo_call :: settingsRequest where
  "demo_call = \<lparr>sq_method = ''POST'', sq_host = ''evil.example'', sq_path = ''/v1/error-reports'', sq_escaped = ''/v1/error-reports'',
     sq_headers = [], sq_query = [(''t'', ''token'')]\<rparr>"

definition demo_settingsInput :: settingsInput where
  "demo_settingsInput = \<lparr>si_body = ReportsBody False, si_freePort = None, si_latest = [], si_lan = LanFine\<rparr>"

lemma demo_call_refused: "\<not> loopbackHost (sq_host demo_call)"
proof -
  have "splitHostPort ''evil.example'' = None"
    by (simp add: splitHostPort_def cutAt_def)
  moreover have "decField ''evil'' = None"
    by (simp add: decField_def is_digit_def byte_def)
  ultimately show ?thesis
    by (simp add: demo_call_def loopbackHost_def loopbackLiteral_def trimCut_def parseIP_def parseIPv4Fields_def splitOn.simps)
qed

theorem settings_need_token_witness:
  "snd (settings_ServeHTTP demo_settings demo_settingsInput demo_call demo_agent) = demo_agent"
  using settings_need_token [OF prod.collapse [symmetric], of demo_settings demo_settingsInput demo_call demo_agent] demo_call_refused
  by auto

theorem settings_refine_agent_witness:
  "state_ok demo_url (ag_st (fold (\<lambda>(i, r) ag. snd (settings_ServeHTTP demo_settings i r ag)) [(demo_settingsInput, demo_call)] demo_agent))"
proof -
  have env: "se_env demo_settings = demo_env" "ae_url demo_env = demo_url"
    by (simp_all add: demo_settings_def demo_env_def)
  show ?thesis
    using settings_refine_agent [where se = demo_settings and calls = "[(demo_settingsInput, demo_call)]",
        OF _ _ _ refl, unfolded env, OF demo_start demo_fresh(1) demo_sha256]
    by blast
qed

theorem settings_token_stable_witness:
  "\<exists>token f'. settingsToken (Some (replicate 32 (CHR ''a''))) \<lparr>tf_raw = None, tf_ops = []\<rparr> = (Some token, f') \<and> token \<noteq> [] \<and>
     settingsToken None f' = (Some token, f')"
proof -
  let ?f = "\<lparr>tf_raw = None, tf_ops = []\<rparr>" and ?b = "replicate 32 (CHR ''a'')"
  have run: "settingsToken (Some ?b) ?f = (Some (hex_encode ?b), \<lparr>tf_raw = Some (hex_encode ?b @ [newline]), tf_ops = []\<rparr>)"
    by (simp add: settingsToken_def nextTf_def)
  from settings_token_stable [OF run] show ?thesis using run by auto
qed

end
