(* ===== verification/Paths.thy ===== *)
theory Paths
  imports Gateway
begin

text \<open>
  \<^verbatim>\<open>net/url\<close> as both programs use it: escaping a path, taking a path and a query apart, and that escaping keeps the segments
  and commutes with cleaning.
\<close>

section \<open>Escaping\<close>

text \<open>\<^verbatim>\<open>shouldEscape\<close> and \<^verbatim>\<open>escape\<close> of \<^verbatim>\<open>net/url\<close> for a path.\<close>

definition shouldEscape :: "char \<Rightarrow> bool" where
  "shouldEscape c \<longleftrightarrow> \<not> (is_lower_letter c \<or> is_digit c \<or> 65 \<le> byte c \<and> byte c \<le> 90 \<or> c \<in> set ''-_.~$&+,/:;=@'')"

definition upperHex :: "nat \<Rightarrow> char" where
  "upperHex n = ''0123456789ABCDEF'' ! n"

fun escape :: "string \<Rightarrow> string" where
  "escape [] = []"
| "escape (c # s) = (if shouldEscape c then [CHR ''%'', upperHex (byte c div 16), upperHex (byte c mod 16)] else [c]) @ escape s"

text \<open>\<^verbatim>\<open>validEncoded\<close>: what a path may hold to be kept as it was written.\<close>

definition validEncoded :: "string \<Rightarrow> bool" where
  "validEncoded s \<longleftrightarrow> list_all (\<lambda>c. c \<in> set ''!$&'()*+,;=:@[]%'' \<or> \<not> shouldEscape c) s"

text \<open>\<^verbatim>\<open>url.Parse\<close> of a path after a host: the decoded path, \<^verbatim>\<open>EscapedPath\<close> and the query.\<close>

definition parsePath :: "string \<Rightarrow> (string \<times> string \<times> string) option" where
  "parsePath s =
     (if list_ex (\<lambda>c. byte c < 32 \<or> byte c = 127) s then None
      else case cutAt (CHR ''#'') s of (u, _, _) \<Rightarrow>
        (case cutAt (CHR ''?'') u of (p, q, _) \<Rightarrow>
          map_option (\<lambda>d. (d, if validEncoded p then p else escape d, q)) (unescape p)))"

section \<open>Escaping keeps the segments\<close>

lemma escape_append: "escape (s @ t) = escape s @ escape t"
  by (induction s) auto

lemma shouldEscape_plain: "\<not> shouldEscape (CHR ''/'')" "\<not> shouldEscape (CHR ''.'')" "shouldEscape (CHR ''%'')" "shouldEscape (CHR ''*'')"
  by (simp_all add: shouldEscape_def is_lower_letter_def is_digit_def byte_def)

lemma upperHex_cases: "n < 16 \<Longrightarrow> upperHex n \<in> set ''0123456789ABCDEF''"
  unfolding upperHex_def by (rule nth_mem) simp

lemma upperHex_slash: "n < 16 \<Longrightarrow> upperHex n \<noteq> CHR ''/''"
  using upperHex_cases by fastforce

lemma byte_halves: "byte c div 16 < 16" "byte c mod 16 < 16"
  using byte_less [of c] by auto

lemma escape_slash: "CHR ''/'' \<in> set (escape s) \<longleftrightarrow> CHR ''/'' \<in> set s"
proof (induction s)
  case (Cons c s)
  then show ?case
    using upperHex_slash [OF byte_halves(1), of c] upperHex_slash [OF byte_halves(2), of c] shouldEscape_plain(1)
    by auto
qed simp

lemma escape_dots: "escape s = [] \<longleftrightarrow> s = []" "escape s = ''.'' \<longleftrightarrow> s = ''.''" "escape s = ''..'' \<longleftrightarrow> s = ''..''"
proof -
  show nil: "escape s = [] \<longleftrightarrow> s = []" for s by (cases s) auto
  have head: "escape (c # t) = CHR ''.'' # u \<longleftrightarrow> c = CHR ''.'' \<and> escape t = u" for c t u
    using shouldEscape_plain(2) by auto
  show dot: "escape s = ''.'' \<longleftrightarrow> s = ''.''" for s
    using head [of _ _ "[]"] nil by (cases s) auto
  show "escape s = ''..'' \<longleftrightarrow> s = ''..''"
    using head [of _ _ "''.''"] dot by (cases s) auto
qed

lemma splitOn_escape: "splitOn (CHR ''/'') (escape s) = map escape (splitOn (CHR ''/'') s)"
proof (induction "splitOn (CHR ''/'') s" arbitrary: s)
  case (Cons w ws)
  show ?case
  proof (cases "CHR ''/'' \<in> set s")
    case True
    then obtain u v where s: "s = u @ CHR ''/'' # v" "CHR ''/'' \<notin> set u" by (meson split_list_first)
    have "splitOn (CHR ''/'') (escape s) = escape u # splitOn (CHR ''/'') (escape v)"
      using splitOn_append [of "CHR ''/''" "escape u"] s escape_slash [of u] by (simp add: escape_append shouldEscape_plain)
    moreover have "ws = splitOn (CHR ''/'') v" "w = u" using Cons.hyps(2) s splitOn_append [of "CHR ''/''" u v] by auto
    ultimately show ?thesis using Cons.hyps(1) [of v] s splitOn_append [of "CHR ''/''" u v] by simp
  next
    case False
    then show ?thesis using escape_slash [of s] by (simp add: splitOn_no_sep)
  qed
qed (metis splitOn_nonempty)

lemma joinWith_escape: "joinWith ''/'' (map escape ws) = escape (joinWith ''/'' ws)"
  by (induction "''/''" ws rule: joinWith.induct) (simp_all add: escape_append shouldEscape_plain)

lemma cleanSegs_escape: "cleanSegs (map escape ss) (map escape out) = map escape (cleanSegs ss out)"
proof (induction ss arbitrary: out)
  case (Cons s ss)
  show ?case
    using Cons.IH [of "tl out"] Cons.IH [of "s # out"] Cons.IH [of out] escape_dots [of s] by (auto simp: map_tl)
qed (simp add: rev_map)

lemma last_escape: "s \<noteq> [] \<Longrightarrow> last (escape s) = CHR ''/'' \<longleftrightarrow> last s = CHR ''/''"
proof (induction s)
  case (Cons c s)
  then show ?case
    using upperHex_slash [OF byte_halves(2), of c] shouldEscape_plain(1) escape_dots(1) [of s] by (cases s) auto
qed simp

lemma cleanPath_escape: "cleanPath (escape p) = escape (cleanPath p)"
proof (cases "p = []")
  case False
  let ?np = "''/'' @ joinWith ''/'' (cleanSegs (splitOn (CHR ''/'') p) [])"
  have np: "''/'' @ joinWith ''/'' (cleanSegs (splitOn (CHR ''/'') (escape p)) []) = escape ?np"
    using cleanSegs_escape [of "splitOn (CHR ''/'') p" "[]"] by (simp add: splitOn_escape joinWith_escape shouldEscape_plain)
  have "escape ?np = ''/'' \<longleftrightarrow> ?np = ''/''"
    using escape_dots(1) [of "joinWith ''/'' (cleanSegs (splitOn (CHR ''/'') p) [])"] by (simp add: shouldEscape_plain)
  then show ?thesis
    using np last_escape [OF False] False escape_dots(1) [of p]
    by (simp only: cleanPath_def Let_def if_False if_True escape_append split: if_split) (simp add: escape_append shouldEscape_plain)
qed (simp add: cleanPath_def shouldEscape_plain)

lemma escape_name: "appname_Valid n \<Longrightarrow> escape n = n"
proof -
  assume v: "appname_Valid n"
  have "\<not> shouldEscape c" if "c \<in> set n" for c
    using appname_Valid_chars [OF v that] by (auto simp: shouldEscape_def name_char_def name_start_def)
  then have "\<forall>c \<in> set s. \<not> shouldEscape c \<Longrightarrow> escape s = s" for s by (induction s) auto
  then show ?thesis using \<open>\<And>c. c \<in> set n \<Longrightarrow> \<not> shouldEscape c\<close> by blast
qed

end
