(* ===== verification/EndToEnd.thy ===== *)
theory EndToEnd
  imports Routing Settings Paths
begin

text \<open>
  The two programs together.  What the agent sends is what the control plane accepts, what it answers is what the agent
  waits for, and a remote request goes from the control plane's routing down the tunnel into the agent's gateway.  The
  server hands the tunnel a \<^verbatim>\<open>url.URL\<close> with a decoded path and no \<^verbatim>\<open>RawPath\<close>, so the path on the wire is the escaped one.
\<close>

section \<open>The agent at the end of the tunnel\<close>

text \<open>What the agent's gateway is asked, and what comes back to the server; \<open>moved\<close> is the status of a redirect.\<close>

definition tunnelRequest :: "((string \<times> string) list \<Rightarrow> string) \<Rightarrow> forwarded \<Rightarrow> gwRequest" where
  "tunnelRequest encode f =
     \<lparr>gw_method = fw_method f, gw_scheme = [], gw_urlHost = [], gw_escaped = escape (fw_path f), gw_path = fw_path f,
      gw_rawQuery = encode (fw_query f), gw_queryKeys = map fst (fw_query f), gw_headers = fw_headers f\<rparr>"

definition agentServes ::
  "golib \<Rightarrow> lanlib \<Rightarrow> ((string \<times> string) list \<Rightarrow> string) \<Rightarrow> (appAction \<Rightarrow> nat) \<Rightarrow> nat \<Rightarrow> (string \<times> app) list \<Rightarrow> agent \<Rightarrow> forwarded \<Rightarrow> proxied" where
  "agentServes lib ll encode run moved routes ag f = AppAnswered (case gateway_ServeHTTP lib ll routes ag (tunnelRequest encode f) of
      Refuses n \<Rightarrow> n | Redirects p \<Rightarrow> moved | Shows d \<Rightarrow> 200 | Does act \<Rightarrow> run act)"

section \<open>Sync, route, forward\<close>

definition syncedApps :: "state \<Rightarrow> (string \<times> string) list" where
  "syncedApps st = map (\<lambda>a. (app_name a, app_type a)) (st_apps st)"

lemma agent_sends_synced: "ag_sent (snd (agent_syncApps ae server st ag)) = ag_sent ag @ [(server, ''/v1/devices/apps'', AppsBody (syncedApps st))]"
  by (auto simp: agent_syncApps_def post_def syncedApps_def Let_def split: prod.splits sum.splits)

lemma checkApps_accepts:
  "\<forall>(n, t) \<in> set apps. appname_Valid n \<and> appname_Valid t \<Longrightarrow> distinct (names @ map fst apps) \<Longrightarrow>
   checkApps apps names types = Inr (names @ map fst apps, types @ map snd apps)"
  by (induction apps names types rule: checkApps.induct) auto

lemma valid_registry_accepted:
  assumes "state_ok urlParse st"
  shows "length (syncedApps st) \<le> maxApps \<and> checkApps (syncedApps st) [] [] = Inr (appNames (st_apps st), map app_type (st_apps st))"
  using assms checkApps_accepts [of "syncedApps st" "[]" "[]"]
  by (auto simp: state_ok_def syncedApps_def appNames_def app_ok_def list_all_iff comp_def maxApps_def stateMaxApps_def)

lemma synced_apps_allowed:
  assumes "state_ok urlParse st" "appsTx key (appNames (st_apps st)) (map app_type (st_apps st)) w0 = (Inr dev, w1)" "wf_db lib (w_db w0)"
  shows "list_ex (isApp dev n) (t_apps (w_db w1)) \<longleftrightarrow> n \<in> set (appNames (st_apps st))"
proof -
  have "typeOf dev n (t_apps (w_db w1)) = (case map_of (syncedApps st) n of None \<Rightarrow> [] | Some t \<Rightarrow> [t])"
    using sync_replaces_apps [OF conjunct2 [OF valid_registry_accepted [OF assms(1)]] assms(2,3)] by blast
  moreover have "map_of (syncedApps st) n = None \<longleftrightarrow> n \<notin> set (appNames (st_apps st))"
    by (simp add: map_of_eq_None_iff syncedApps_def appNames_def image_image)
  moreover have "list_ex (isApp dev n) (t_apps (w_db w1)) \<longleftrightarrow> typeOf dev n (t_apps (w_db w1)) \<noteq> []"
    by (auto simp: typeOf_def filter_empty_conv list_ex_iff)
  ultimately show ?thesis by (auto split: option.splits)
qed

lemma tunnel_reaches_app:
  assumes "state_ok urlParse st" "a \<in> set (st_apps st)" "fw_method f \<noteq> ''CONNECT''"
    and "fw_path f = remotePath (app_name a) rest" "cleanPath (remotePath (app_name a) rest) = remotePath (app_name a) rest"
  shows "\<exists>routes. buildGateway (st_apps st) = Some routes \<and>
    gateway_ServeHTTP lib ll routes ag (tunnelRequest encode f) = Does (appProxy a (tunnelRequest encode f))"
proof (rule registered_reached)
  have ok: "list_all (\<lambda>a. appname_Valid (app_name a)) (st_apps st) \<and> distinct (appNames (st_apps st))" by (rule state_ok_apps [OF assms(1)])
  then show "list_all (\<lambda>a. appname_Valid (app_name a)) (st_apps st)" "distinct (appNames (st_apps st))" by simp_all
  have name: "escape (app_name a) = app_name a" using ok assms(2) escape_name by (auto simp: list_all_iff)
  have "cleanPath (escape (fw_path f)) = escape (fw_path f)" using assms(4,5) by (simp add: cleanPath_escape)
  then show "gw_escaped (tunnelRequest encode f) = ''/'' @ app_name a \<or> (\<exists>rest. gw_escaped (tunnelRequest encode f) = ''/'' @ app_name a @ ''/'' @ rest \<and>
      cleanPath (gw_escaped (tunnelRequest encode f)) = gw_escaped (tunnelRequest encode f))"
    using name by (auto simp: tunnelRequest_def assms(4) remotePath_def escape_append shouldEscape_plain)
qed (use assms in \<open>simp_all add: tunnelRequest_def\<close>)

lemma remoteRequest_needs_app:
  assumes "ro_forward (snd (remoteRequest lib r16 r8 hop serve r dev app rest reg rw w)) = Some f"
  shows "list_ex (isApp dev app) (t_apps (w_db w))"
proof -
  obtain a s w1 o1 w2 where look: "lookupSession lib (sessionTokenFromRequest r) w = (Inr (a, s), w1)"
    and acc: "query (\<lambda>t d. Inr (accessRow dev (ac_id a) app d)) w1 = (Inr (True, True, Some o1), w2)"
    using remoteRequest_forwarded [OF assms] by blast
  have "w_db w1 = w_db w" using lookupSession_Inr [OF look] by blast
  then show ?thesis using acc by (auto simp: query_Inr accessRow_def)
qed

text \<open>
  C6.  From a shared folder to the application's answer.  The list a PC with a valid registry sends passes every check of
  the control plane; once its sync has gone through, a request of anyone with permission for one of those applications,
  whatever characters are below it, goes down the tunnel, is routed by the PC's gateway to that very application, and the
  caller gets the application's status; a request for anything the PC does not list is never forwarded.
\<close>

theorem shared_folder_answers_remotely:
  assumes ok: "state_ok urlParse (ag_st ag)" and gw: "buildGateway (st_apps (ag_st ag)) = Some routes"
    and sync: "appsTx key (appNames (st_apps (ag_st ag))) (map app_type (st_apps (ag_st ag))) w0 = (Inr dev, w1)" and db: "wf_db lib (w_db w0)"
    and later: "t_apps (w_db w) = t_apps (w_db w1)"
    and perm: "w_faults w = []" "sessionTokenFromRequest r \<noteq> []"
      "sessionRows lib (sessionTokenFromRequest r) (w_now w) (w_db w) = (acct, s) # rs" "dev \<noteq> []" "no_path dev"
      "boundTo dev (ac_id acct) (w_db w)" "deviceOwner dev (w_db w) = Some o1" "hd (subscriptionOf o1 (w_db w) @ [SubActive]) = SubActive"
      "registry_get dev reg = Some t"
    and req: "rq_method r \<noteq> ''CONNECT''" "cleanPath (remotePath app rest) = remotePath app rest"
  shows "length (syncedApps (ag_st ag)) \<le> maxApps \<and>
    checkApps (syncedApps (ag_st ag)) [] [] = Inr (appNames (st_apps (ag_st ag)), map app_type (st_apps (ag_st ag))) \<and>
    (if app \<in> set (appNames (st_apps (ag_st ag)))
    then \<exists>a f. a \<in> set (st_apps (ag_st ag)) \<and> app_name a = app \<and> fw_path f = remotePath app rest \<and>
      remoteRequest lib r16 r8 hop (agentServes lib ll encode run moved routes ag) r dev app rest reg rw w =
        ((writeHeader (run (appProxy a (tunnelRequest encode f))) rw, w),
         \<lparr>ro_samples = [run (appProxy a (tunnelRequest encode f))], ro_denials = [], ro_forward = Some f\<rparr>)
    else ro_forward (snd (remoteRequest lib r16 r8 hop (agentServes lib ll encode run moved routes ag) r dev app rest reg rw w)) = None)"
proof (cases "app \<in> set (appNames (st_apps (ag_st ag)))")
  case True
  then obtain a where a: "a \<in> set (st_apps (ag_st ag))" "app_name a = app" by (auto simp: appNames_def)
  define f where "f = rewrite hop (traceparent_Next r16 r8 (header_get (rq_headers r) traceHeader)) dev (remotePath app rest) r"
  have valid: "appname_Valid app" using state_ok_apps [OF ok] a by (auto simp: list_all_iff)
  have listed: "list_ex (isApp dev app) (t_apps (w_db w))"
    using synced_apps_allowed [OF ok sync db] True by (simp add: later)
  have fwd: "remoteRequest lib r16 r8 hop serve r dev app rest reg rw w = forwardRequest (ac_id acct) dev f serve rw w" for serve
    unfolding f_def by (rule remoteRequest_permitted [OF perm(1-5) valid perm(6) listed perm(7-9)])
  have "gateway_ServeHTTP lib ll routes ag (tunnelRequest encode f) = Does (appProxy a (tunnelRequest encode f))"
    using tunnel_reaches_app [OF ok a(1), of f rest lib ll ag encode] gw req a(2) by (simp add: f_def rewrite_def)
  then have "agentServes lib ll encode run moved routes ag f = AppAnswered (run (appProxy a (tunnelRequest encode f)))"
    by (simp add: agentServes_def)
  then show ?thesis
    using True a valid_registry_accepted [OF ok] fwd
    by (auto simp: forwardRequest_def f_def rewrite_def intro!: exI [of _ a] exI [of _ f])
next
  case False
  have "\<not> list_ex (isApp dev app) (t_apps (w_db w))"
    using synced_apps_allowed [OF ok sync db] False by (simp add: later)
  then have "ro_forward (snd (remoteRequest lib r16 r8 hop serve r dev app rest reg rw w)) = None" for serve
    using remoteRequest_needs_app by (metis option.exhaust)
  then show ?thesis using False valid_registry_accepted [OF ok] by simp
qed

section \<open>Enrolment from both ends\<close>

lemma device_ids_agree: "device_id_of lib (publicHex lib seed) = deviceID lib seed"
  by (simp add: device_id_of_def publicHex_def deviceID_def)

text \<open>
  C7.  Both ends of an enrolment agree.  The name and the key a PC with a valid registry sends are ones the control plane
  takes, and when its transaction went through, the id it answers with is the id the PC derives from its own key, so the
  PC accepts the answer and records exactly the device the control plane now has as active under that key, bound to the
  token's account.
\<close>

theorem enrolment_agrees:
  assumes ok: "state_ok (ae_url ae) (ag_st ag)" and server: "cleanServerURL (ae_url ae) server = Inr server" and token: "trimSpace token \<noteq> []"
    and db: "wf_db (ae_lib ae) (w_db w)"
    and tx: "enrolTx (ae_lib ae) (publicHex (ae_lib ae) (ag_seed ag)) (st_name (ag_st ag)) (trimSpace token) w = (Inr (dev, acct), w1)"
    and answers: "ag_net ag = Answered out # Answered out' # rest" "an_deviceID out = dev" and disk: "dk_ops (ag_disk ag) = []"
  shows "length (st_name (ag_st ag)) \<le> 64 \<and>
    (\<exists>ag'. enrol ae server token ag = (None, ag') \<and> st_server (ag_st ag') = server \<and> st_deviceID (ag_st ag') = dev \<and>
      (\<exists>v \<in> set (t_devices (w_db w1)). dv_id v = st_deviceID (ag_st ag') \<and> dv_key v = publicHex (ae_lib ae) (ag_seed ag) \<and>
         dv_name v = st_name (ag_st ag') \<and> dv_status v = DevActive) \<and>
      boundTo (st_deviceID (ag_st ag')) acct (w_db w1))"
proof -
  have effect: "dev = deviceID (ae_lib ae) (ag_seed ag)" "boundTo dev acct (w_db w1)"
    "\<exists>v \<in> set (t_devices (w_db w1)). dv_key v = publicHex (ae_lib ae) (ag_seed ag) \<and> dv_id v = dev \<and> dv_name v = st_name (ag_st ag) \<and> dv_status v = DevActive"
    using enrolTx_effect [OF db tx, unfolded sum.case prod.case device_ids_agree] by blast+
  obtain ag' where "enrol ae server token ag = (None, ag')"
    "ag_st ag' = (ag_st ag)\<lparr>st_server := server, st_deviceID := deviceID (ae_lib ae) (ag_seed ag)\<rparr>"
    using enrol_succeeds [OF server token answers(1) _ _ disk] answers(2) effect(1) by auto
  moreover have "length (st_name (ag_st ag)) \<le> 64"
    using ok by (auto simp: state_ok_def maxDeviceName_def maxInstanceName_def instanceIDLen_def)
  ultimately show ?thesis using effect by auto
qed

section \<open>Witnesses\<close>

definition shared_agent :: agent where
  "shared_agent = demo_agent\<lparr>ag_st := demo_state\<lparr>st_apps := [demo_app]\<rparr>\<rparr>"

lemma shared_ok: "state_ok urlParse (ag_st shared_agent)"
  using demo_state_ok [of urlParse] demo_app_ok by (simp add: shared_agent_def state_ok_def appNames_def demo_state_def stateMaxApps_def)

lemma shared_apps: "st_apps (ag_st shared_agent) = [demo_app]" "appNames [demo_app] = [''files'']" "map app_type [demo_app] = [''http'']"
  by (simp_all add: shared_agent_def appNames_def demo_app_def)

lemma shared_sync: "\<exists>w1. appsTx demo_key [''files''] [''http''] app_world = (Inr demo_dev, w1)"
proof -
  have "audit_args_ok demo_dev demo_dev ActionDeviceAppsSynced (AuditDetails\<lparr>ad_key := demo_key\<rparr>)"
    by (rule audit_demo) (simp_all add: validActions_def no_path_def [of "[]"] detail_fields_def AuditDetails_def demo_dev_ok)
  note ok = appendAudit_ok [OF _ this]
  show ?thesis
    by (simp add: appsTx_def inTx_def andThen_def stmt_ok query_ok exec_ok firstRow_def device_ids_def ok pc_defs app_world_def)
qed

theorem shared_folder_answers_remotely_witness:
  "\<exists>w. ro_samples (snd (remoteRequest toy_lib ''a'' ''b'' id (agentServes toy_lib toy_lan (\<lambda>_. []) (\<lambda>_. 206) 307 [(''files'', demo_app)] shared_agent)
     app_request demo_dev ''files'' ''a b'' app_registry fresh_response w)) = [206]"
proof -
  obtain w1 where sync: "appsTx demo_key [''files''] [''http''] app_world = (Inr demo_dev, w1)" using shared_sync by blast
  define w where "w = app_world\<lparr>w_db := (w_db app_world)\<lparr>t_apps := t_apps (w_db w1)\<rparr>\<rparr>"
  have w: "w_faults w = []" "boundTo demo_dev (ac_id (account_of demo_account)) (w_db w)" "deviceOwner demo_dev (w_db w) = Some ''acct''"
    "hd (subscriptionOf ''acct'' (w_db w) @ [SubActive]) = SubActive" "t_apps (w_db w) = t_apps (w_db w1)"
    using app_facts by (simp_all add: w_def boundTo_def deviceOwner_def subscriptionOf_def)
  have rows: "sessionRows toy_lib ''tok'' (w_now w) (w_db w) = [(account_of demo_account, ''sess'')]"
    by (simp add: w_def app_world_def pc_defs sessionRows_alt session_live_def)
  have gw: "buildGateway [demo_app] = Some [(''files'', demo_app)]"
    using buildGateway_valid [of "[demo_app]"] app_valid by (simp add: demo_app_def appNames_def)
  have clean: "cleanPath (remotePath ''files'' ''a b'') = remotePath ''files'' ''a b''" by (simp add: remotePath_def cleanPath_def)
  have meth: "rq_method app_request \<noteq> ''CONNECT''" by (simp add: app_request_def demo_request_def)
  have wf: "wf_db toy_lib (w_db app_world)"
    by (simp add: app_world_def pc_defs wf_defs demo_dev_def demo_key_check enrolment_ok_def)
  note run = shared_folder_answers_remotely [of "\<lambda>_. None" shared_agent, unfolded shared_apps, OF shared_ok gw sync wf w(5,1) _ _ _ _ w(2-4) app_facts(6) meth clean]
  show ?thesis
    using run [where ?r16.0 = "''a''" and ?r8.0 = "''b''" and hop = id and ll = toy_lan and encode = "\<lambda>_. []" and run = "\<lambda>_. 206" and moved = 307
        and rw = fresh_response] rows app_token demo_dev_ok
    by (intro exI [of _ w]) auto
qed

theorem enrolment_agrees_witness:
  "\<exists>ag'. enrol demo_env ''http://pc'' ''once'' (demo_agent\<lparr>ag_net := [Answered demo_ok, Answered noAnswer]\<rparr>) = (None, ag') \<and>
     st_deviceID (ag_st ag') = demo_dev"
proof -
  let ?ag = "demo_agent\<lparr>ag_net := [Answered demo_ok, Answered noAnswer]\<rparr>"
  have lib: "ae_lib demo_env = toy_lib" by (simp add: demo_env_def)
  have key: "publicHex (ae_lib demo_env) (ag_seed ?ag) = demo_key"
    by (simp add: publicHex_def demo_key_def demo_agent_def onApps_def newAgent_def demo_env_def)
  have tok: "trimSpace ''once'' = ''once''" by (rule trimSpace_clean) (auto simp: byte_def)
  have st: "ag_st ?ag = demo_state" "st_name (ag_st ?ag) = ''pc''" by (simp_all add: demo_agent_def onApps_def newAgent_def demo_state_def)
  obtain w1 where tx: "enrolTx toy_lib demo_key ''pc'' ''once'' enrol_world = (Inr (demo_dev, ''acct''), w1)"
    using enrol_world_run by (auto simp: demo_dev_def)
  have dev: "an_deviceID demo_ok = demo_dev"
    by (simp add: demo_ok_def demo_dev_def demo_key_def device_ids_agree [symmetric] publicHex_def)
  have wf: "wf_db (ae_lib demo_env) (w_db enrol_world)" by (rule enrol_world_wf)
  have tx': "enrolTx (ae_lib demo_env) (publicHex (ae_lib demo_env) (ag_seed ?ag)) (st_name (ag_st ?ag)) (trimSpace ''once'') enrol_world =
      (Inr (demo_dev, ''acct''), w1)"
    unfolding key unfolding lib st(2) tok by (rule tx)
  have ok: "state_ok (ae_url demo_env) (ag_st ?ag)" unfolding st(1) by (rule demo_state_ok)
  have net: "ag_net ?ag = [Answered demo_ok, Answered noAnswer]" "dk_ops (ag_disk ?ag) = []"
    using demo_fresh(2) by (simp_all add: demo_agent_def onApps_def newAgent_def)
  show ?thesis
    using enrolment_agrees [OF ok demo_server _ wf tx' net(1) dev net(2)] tok by fastforce
qed

end
