(* ===== verification/AgentLog.thy ===== *)
theory AgentLog
  imports AgentState
begin

text \<open>
  \<^verbatim>\<open>device/agent/logfile.go\<close>: the agent's own log file, which moves itself aside once it is full.  File 0 is the log,
  file \<open>i\<close> the one with the suffix \<^verbatim>\<open>.i\<close>.  Every rename, open and write may fail.
\<close>

section \<open>The file\<close>

record logFile =
  lf_max :: int
  lf_keep :: nat
  lf_open :: bool
  lf_size :: int
  lf_files :: "nat \<Rightarrow> string option"
  lf_ops :: "fileOp list"

definition logFileMax :: int where "logFileMax = 5 * 1024 * 1024"
definition logFileKeep :: nat where "logFileKeep = 3"

definition nextLf :: "logFile \<Rightarrow> fileOp \<times> logFile" where
  "nextLf l = (case lf_ops l of [] \<Rightarrow> (Works, l) | x # xs \<Rightarrow> (x, l\<lparr>lf_ops := xs\<rparr>))"

definition textOf :: "string option \<Rightarrow> string" where
  "textOf f = (case f of None \<Rightarrow> [] | Some s \<Rightarrow> s)"

text \<open>\<^verbatim>\<open>os.Rename\<close>, whose error is ignored: nothing happens when it fails or there is nothing to move.\<close>

definition rename :: "nat \<Rightarrow> nat \<Rightarrow> logFile \<Rightarrow> logFile" where
  "rename i j l = (case nextLf l of
      (Works, l') \<Rightarrow> (if lf_files l' i = None then l' else l'\<lparr>lf_files := (lf_files l')(j := lf_files l' i, i := None)\<rparr>)
    | (_, l') \<Rightarrow> l')"

fun rotateFiles :: "nat \<Rightarrow> logFile \<Rightarrow> logFile" where
  "rotateFiles i l = (if i > 1 then rotateFiles (i - 1) (rename (i - 1) i l) else rename 0 1 l)"

declare rotateFiles.simps [simp del]

definition openFile :: "logFile \<Rightarrow> bool \<times> logFile" where
  "openFile l = (case nextLf l of
      (Works, l') \<Rightarrow> (True, l'\<lparr>lf_files := (lf_files l')(0 := Some (textOf (lf_files l' 0))), lf_open := True,
         lf_size := int (length (textOf (lf_files l' 0)))\<rparr>)
    | (_, l') \<Rightarrow> (False, l'))"

definition openLogFile :: "int \<Rightarrow> nat \<Rightarrow> (nat \<Rightarrow> string option) \<Rightarrow> fileOp list \<Rightarrow> bool \<times> logFile" where
  "openLogFile mx keep files ops =
     openFile \<lparr>lf_max = mx, lf_keep = keep, lf_open = False, lf_size = 0, lf_files = files, lf_ops = ops\<rparr>"

definition appendLog :: "string \<Rightarrow> logFile \<Rightarrow> nat \<times> bool \<times> logFile" where
  "appendLog p l = (case nextLf l of (op, l') \<Rightarrow>
     let n = (case op of Works \<Rightarrow> length p | Fails \<Rightarrow> 0 | Truncates k \<Rightarrow> min k (length p)) in
     (n, op = Works, l'\<lparr>lf_files := (lf_files l')(0 := Some (textOf (lf_files l' 0) @ take n p)), lf_size := lf_size l' + int n\<rparr>))"

definition logFile_Write :: "string \<Rightarrow> logFile \<Rightarrow> nat \<times> bool \<times> logFile" where
  "logFile_Write p l0 =
     (let l = (if lf_open l0 \<and> lf_size l0 > 0 \<and> lf_size l0 + int (length p) > lf_max l0
               then rotateFiles (lf_keep l0) (l0\<lparr>lf_open := False\<rparr>) else l0) in
      if lf_open l then appendLog p l
      else (case openFile l of (False, l') \<Rightarrow> (0, False, l') | (True, l') \<Rightarrow> appendLog p l'))"

fun writeAll :: "string list \<Rightarrow> logFile \<Rightarrow> logFile" where
  "writeAll [] l = l"
| "writeAll (p # ps) l = writeAll ps (snd (snd (logFile_Write p l)))"

section \<open>What a rotation keeps\<close>

definition gapless :: "nat \<Rightarrow> (nat \<Rightarrow> string option) \<Rightarrow> bool" where
  "gapless k f \<longleftrightarrow> (\<forall>i. 0 < i \<and> i < k \<and> f i = None \<longrightarrow> f (Suc i) = None)"

definition shifted :: "nat \<Rightarrow> (nat \<Rightarrow> string option) \<Rightarrow> nat \<Rightarrow> string option" where
  "shifted k f i = (if i = 0 then None else if i \<le> k then f (i - 1) else f i)"

lemma shifted_gapless: "gapless k f \<Longrightarrow> f 0 \<noteq> None \<Longrightarrow> gapless k (shifted k f)"
  unfolding gapless_def
proof (intro allI impI)
  fix i assume g: "\<forall>i. 0 < i \<and> i < k \<and> f i = None \<longrightarrow> f (Suc i) = None" and z: "f 0 \<noteq> None"
    and i: "0 < i \<and> i < k \<and> shifted k f i = None"
  then have "f (i - 1) = None" "i - 1 \<noteq> 0" by (auto simp: shifted_def split: if_splits)
  then show "shifted k f (Suc i) = None" using g i by (auto simp: shifted_def dest: spec [of _ "i - 1"])
qed

lemma rename_works:
  "lf_ops l = [] \<Longrightarrow> (lf_files l i = None \<Longrightarrow> lf_files l j = None) \<Longrightarrow> i \<noteq> j \<Longrightarrow>
   rename i j l = l\<lparr>lf_files := (lf_files l)(j := lf_files l i, i := None)\<rparr>"
  by (auto simp: rename_def nextLf_def fun_upd_idem)

lemma rotateFiles_works:
  assumes "lf_ops l = []" "gapless k (lf_files l)" "lf_files l 0 \<noteq> None" "0 < k"
  shows "rotateFiles k l = l\<lparr>lf_files := shifted k (lf_files l)\<rparr>"
  using assms
proof (induction k arbitrary: l)
  case (Suc k)
  let ?f = "lf_files l"
  have r: "rename k (Suc k) l = l\<lparr>lf_files := ?f(Suc k := ?f k, k := None)\<rparr>"
    using Suc.prems(1-3) by (intro rename_works) (cases "k = 0"; auto simp: gapless_def)+
  show ?case
  proof (cases "k = 0")
    case True
    then show ?thesis using r by (subst rotateFiles.simps) (auto simp: shifted_def fun_eq_iff)
  next
    case False
    let ?l = "l\<lparr>lf_files := ?f(Suc k := ?f k, k := None)\<rparr>"
    have "lf_ops ?l = []" "gapless k (lf_files ?l)" "lf_files ?l 0 \<noteq> None" "0 < k" using Suc.prems False by (auto simp: gapless_def)
    note Suc.IH [OF this]
    moreover have "shifted k (?f(Suc k := ?f k, k := None)) = shifted (Suc k) ?f"
      using False by (auto simp: shifted_def fun_eq_iff)
    ultimately show ?thesis using r False by (subst rotateFiles.simps) (simp del: fun_upd_apply)
  qed
qed simp

definition logOk :: "logFile \<Rightarrow> bool" where
  "logOk l \<longleftrightarrow> lf_ops l = [] \<and> 0 < lf_keep l \<and> gapless (lf_keep l) (lf_files l) \<and>
     (lf_open l \<longrightarrow> lf_files l 0 \<noteq> None \<and> lf_size l = int (length (textOf (lf_files l 0))))"

lemma openFile_works:
  assumes "logOk l"
  shows "openFile l = (True, l\<lparr>lf_files := (lf_files l)(0 := Some (textOf (lf_files l 0))), lf_open := True,
    lf_size := int (length (textOf (lf_files l 0)))\<rparr>)"
  using assms by (simp add: openFile_def nextLf_def logOk_def)

lemma appendLog_works:
  assumes "lf_ops l = []"
  shows "appendLog p l = (length p, True,
    l\<lparr>lf_files := (lf_files l)(0 := Some (textOf (lf_files l 0) @ p)), lf_size := lf_size l + int (length p)\<rparr>)"
  using assms by (simp add: appendLog_def nextLf_def Let_def)

section \<open>The log as a list of segments\<close>

text \<open>
  What the files are meant to hold, without renames: segments, newest first.  A write goes to the newest segment, or starts
  a new one when that would take a segment that holds something over the limit.  Nothing is ever dropped from this list.
\<close>

fun packOne :: "int \<Rightarrow> string list \<Rightarrow> string \<Rightarrow> string list" where
  "packOne mx (s # ss) p = (if s \<noteq> [] \<and> int (length s) + int (length p) > mx then p # s # ss else (s @ p) # ss)"
| "packOne mx [] p = [p]"

definition packAll :: "int \<Rightarrow> string list \<Rightarrow> string list \<Rightarrow> string list" where
  "packAll mx = foldl (packOne mx)"

definition nthFile :: "string list \<Rightarrow> nat \<Rightarrow> string option" where
  "nthFile segs i = (if i < length segs then Some (segs ! i) else None)"

definition openedSegs :: "string list \<Rightarrow> string list" where
  "openedSegs old = (if old = [] then [[]] else old)"

definition logHolds :: "string list \<Rightarrow> logFile \<Rightarrow> bool" where
  "logHolds segs l \<longleftrightarrow> lf_ops l = [] \<and> lf_open l \<and> 0 < lf_keep l \<and> segs \<noteq> [] \<and> lf_size l = int (length (hd segs)) \<and>
     (\<forall>i \<le> lf_keep l. lf_files l i = nthFile segs i)"

lemma nthFile_simps [simp]:
  "nthFile (s # ss) 0 = Some s" "nthFile (s # ss) (Suc i) = nthFile ss i" "nthFile [] i = None"
  by (simp_all add: nthFile_def)

lemma logHolds_ok: "logHolds segs l \<Longrightarrow> logOk l"
  unfolding logHolds_def logOk_def gapless_def by (cases segs) (auto simp: textOf_def nthFile_def split: if_splits)

lemma write_appends:
  assumes h: "logHolds (s # ss) l" and fits: "\<not> (s \<noteq> [] \<and> int (length s) + int (length p) > lf_max l)"
  shows "\<exists>l'. logFile_Write p l = (length p, True, l') \<and> logHolds ((s @ p) # ss) l' \<and> lf_keep l' = lf_keep l \<and>
    lf_max l' = lf_max l \<and> (\<forall>i > lf_keep l. lf_files l' i = lf_files l i)"
proof -
  let ?l = "l\<lparr>lf_files := (lf_files l)(0 := Some (s @ p)), lf_size := lf_size l + int (length p)\<rparr>"
  have l: "lf_ops l = []" "lf_open l" "lf_size l = int (length s)" "lf_files l 0 = Some s" using h by (auto simp: logHolds_def)
  then have "logFile_Write p l = (length p, True, ?l)"
    using fits by (auto simp: logFile_Write_def Let_def appendLog_works textOf_def)
  moreover have "logHolds ((s @ p) # ss) ?l"
    using h l unfolding logHolds_def by (auto simp: nthFile_def nth_Cons')
  ultimately show ?thesis using h by (auto simp: logHolds_def)
qed

lemma write_rotates:
  assumes h: "logHolds (s # ss) l" and full: "s \<noteq> []" "int (length s) + int (length p) > lf_max l"
  shows "\<exists>l'. logFile_Write p l = (length p, True, l') \<and> logHolds (p # s # ss) l' \<and> lf_keep l' = lf_keep l \<and>
    lf_max l' = lf_max l \<and> (\<forall>i > lf_keep l. lf_files l' i = lf_files l i)"
proof -
  let ?k = "lf_keep l" and ?f = "lf_files l"
  let ?l1 = "l\<lparr>lf_open := False, lf_files := shifted ?k ?f\<rparr>"
  let ?l2 = "?l1\<lparr>lf_files := (shifted ?k ?f)(0 := Some []), lf_open := True, lf_size := 0\<rparr>"
  let ?l3 = "?l2\<lparr>lf_files := (shifted ?k ?f)(0 := Some p), lf_size := int (length p)\<rparr>"
  have ok: "logOk l" by (rule logHolds_ok [OF h])
  have l: "lf_open l" "lf_size l = int (length s)" "?f 0 = Some s" "lf_ops l = []" "0 < ?k" "gapless ?k ?f"
    using h ok by (auto simp: logHolds_def logOk_def)
  then have rot: "rotateFiles ?k (l\<lparr>lf_open := False\<rparr>) = ?l1" by (subst rotateFiles_works) simp_all
  have "logOk ?l1" unfolding logOk_def using l shifted_gapless [OF l(6)] by simp
  then have op: "openFile ?l1 = (True, ?l2)" by (simp add: openFile_works shifted_def textOf_def)
  have ap: "appendLog p ?l2 = (length p, True, ?l3)" using l(4) by (simp add: appendLog_works textOf_def)
  have "logFile_Write p l = (length p, True, ?l3)" using l full rot op ap by (simp add: logFile_Write_def Let_def)
  moreover have "logHolds (p # s # ss) ?l3"
    using h unfolding logHolds_def by (auto simp: shifted_def nthFile_def nth_Cons')
  ultimately show ?thesis by (auto simp: shifted_def)
qed

lemma write_refines:
  assumes "logHolds segs l"
  shows "\<exists>l'. logFile_Write p l = (length p, True, l') \<and> logHolds (packOne (lf_max l) segs p) l' \<and> lf_keep l' = lf_keep l \<and>
    lf_max l' = lf_max l \<and> (\<forall>i > lf_keep l. lf_files l' i = lf_files l i)"
proof (cases segs)
  case Nil
  then show ?thesis using assms by (simp add: logHolds_def)
next
  case (Cons s ss)
  then show ?thesis using write_appends [of s ss l p] write_rotates [of s ss l p] assms by auto
qed

lemma writeAll_refines:
  "logHolds segs l \<Longrightarrow> logHolds (packAll (lf_max l) segs ps) (writeAll ps l) \<and> lf_keep (writeAll ps l) = lf_keep l \<and>
     (\<forall>i > lf_keep l. lf_files (writeAll ps l) i = lf_files l i)"
proof (induction ps arbitrary: segs l)
  case (Cons p ps)
  from write_refines [OF Cons.prems, of p] Cons.IH show ?case by (fastforce simp: packAll_def)
qed (simp add: packAll_def)

section \<open>What the segments are\<close>

lemma packOne_concat: "concat (rev (packOne mx segs p)) = concat (rev segs) @ p"
  by (cases segs) auto

lemma packAll_concat: "concat (rev (packAll mx segs ps)) = concat (rev segs) @ concat ps"
  by (induction ps arbitrary: segs) (simp_all add: packAll_def packOne_concat)

lemma packOne_bounded:
  assumes "\<forall>s \<in> set segs. int (length s) \<le> mx \<or> s \<in> A" "0 \<le> mx" "p \<in> A"
  shows "\<forall>s \<in> set (packOne mx segs p). int (length s) \<le> mx \<or> s \<in> A"
  using assms by (cases segs) auto

lemma packAll_bounded:
  "\<forall>s \<in> set segs. int (length s) \<le> mx \<or> s \<in> A \<Longrightarrow> 0 \<le> mx \<Longrightarrow> set ps \<subseteq> A \<Longrightarrow>
   \<forall>s \<in> set (packAll mx segs ps). int (length s) \<le> mx \<or> s \<in> A"
proof (induction ps arbitrary: segs)
  case (Cons p ps)
  from Cons.IH [OF packOne_bounded [OF Cons.prems(1,2), of p] Cons.prems(2)] Cons.prems(3) show ?case by (simp add: packAll_def)
qed (simp add: packAll_def)

definition crowded :: "int \<Rightarrow> nat \<Rightarrow> string list \<Rightarrow> bool" where
  "crowded mx n segs \<longleftrightarrow> n \<le> length segs \<and>
     (\<forall>i. i + n < length segs \<longrightarrow> int (length (segs ! i)) + int (length (segs ! Suc i)) > mx)"

lemma packOne_crowded:
  assumes "crowded mx n segs" "segs \<noteq> []" "0 < n"
  shows "crowded mx n (packOne mx segs p) \<and> packOne mx segs p \<noteq> []"
proof (cases segs)
  case (Cons s ss)
  have new: "crowded mx n (p # s # ss)" if full: "int (length s) + int (length p) > mx"
    unfolding crowded_def
  proof (intro conjI allI impI)
    fix i assume "i + n < length (p # s # ss)"
    then show "int (length ((p # s # ss) ! i)) + int (length ((p # s # ss) ! Suc i)) > mx"
      using assms(1) full Cons unfolding crowded_def by (cases i) auto
  qed (use assms(1) Cons in \<open>simp add: crowded_def\<close>)
  have "crowded mx n ((s @ p) # ss)"
    unfolding crowded_def
  proof (intro conjI allI impI)
    fix i assume i: "i + n < length ((s @ p) # ss)"
    then have "int (length (segs ! i)) + int (length (segs ! Suc i)) > mx" using assms(1) Cons unfolding crowded_def by simp
    then show "int (length (((s @ p) # ss) ! i)) + int (length (((s @ p) # ss) ! Suc i)) > mx" using Cons by (cases i) auto
  qed (use assms(1) Cons in \<open>simp add: crowded_def\<close>)
  then show ?thesis using new Cons by auto
qed (use assms in simp)

lemma packAll_crowded:
  "crowded mx n segs \<Longrightarrow> segs \<noteq> [] \<Longrightarrow> 0 < n \<Longrightarrow> crowded mx n (packAll mx segs ps)"
proof (induction ps arbitrary: segs)
  case (Cons p ps)
  then show ?case using packOne_crowded [OF Cons.prems, of p] by (simp add: packAll_def)
qed (simp add: packAll_def)

lemma openLogFile_holds:
  assumes "\<forall>i \<le> keep. files i = nthFile old i" "0 < keep"
  shows "\<exists>l. openLogFile mx keep files [] = (True, l) \<and> logHolds (openedSegs old) l \<and> lf_max l = mx \<and> lf_keep l = keep \<and>
    (\<forall>i > keep. lf_files l i = files i)"
  using assms unfolding openLogFile_def openFile_def
  by (cases old) (auto simp: nextLf_def logHolds_def openedSegs_def textOf_def nthFile_def nth_Cons')

text \<open>
  C27.  The log file is bounded, and only the oldest lines fall off.  Take the files as the agent finds them, the log and its
  old copies without a hole between them.  The agent opens the log with the limits it is built with, and as long as the file
  calls work, after any sequence of writes the log and its three copies are the four newest segments of \<^const>\<open>packAll\<close>: no copy
  is missing, out of order or changed.  The segments are, oldest first, everything that was logged; none is over five
  megabytes unless it is one write, or was found that long; and two neighbours that were written by this
  agent are together over the limit, so what falls off does so only behind more than twice the limit of newer lines.  No other file is touched.
\<close>

theorem log_keeps_the_newest:
  assumes found: "\<forall>i \<le> logFileKeep. files i = nthFile old i"
  shows "\<exists>l. openLogFile logFileMax logFileKeep files [] = (True, l) \<and>
    (let segs = packAll logFileMax (openedSegs old) ps in
       (\<forall>i \<le> 3. lf_files (writeAll ps l) i = nthFile segs i) \<and>
       (\<forall>i > 3. lf_files (writeAll ps l) i = files i) \<and>
       concat (rev segs) = concat (rev old) @ concat ps \<and>
       (\<forall>s \<in> set segs. length s \<le> 5242880 \<or> s \<in> set old \<or> s \<in> set ps) \<and>
       (\<forall>i. i + max 1 (length old) < length segs \<longrightarrow> length (segs ! i) + length (segs ! Suc i) > 5242880))"
proof -
  obtain l where l: "openLogFile logFileMax logFileKeep files [] = (True, l)" "logHolds (openedSegs old) l"
      "lf_max l = logFileMax" "lf_keep l = 3" "\<forall>i > 3. lf_files l i = files i"
    using openLogFile_holds [OF found, of logFileMax] by (auto simp: logFileKeep_def)
  let ?segs = "packAll logFileMax (openedSegs old) ps"
  have files: "\<forall>i \<le> 3. lf_files (writeAll ps l) i = nthFile ?segs i" "\<forall>i > 3. lf_files (writeAll ps l) i = files i"
    using writeAll_refines [OF l(2), of ps] l(3-5) by (simp_all add: logHolds_def)
  have all: "concat (rev ?segs) = concat (rev old) @ concat ps" by (simp add: packAll_concat openedSegs_def)
  have mx: "0 \<le> logFileMax" "logFileMax = 5242880" by (simp_all add: logFileMax_def)
  have "\<forall>s \<in> set ?segs. int (length s) \<le> logFileMax \<or> s \<in> set old \<union> set ps"
    by (rule packAll_bounded) (auto simp: openedSegs_def mx)
  then have bound: "\<forall>s \<in> set ?segs. length s \<le> 5242880 \<or> s \<in> set old \<or> s \<in> set ps" using mx(2) by fastforce
  have "crowded logFileMax (max 1 (length old)) (openedSegs old)" by (auto simp: crowded_def openedSegs_def Suc_le_eq)
  then have "crowded logFileMax (max 1 (length old)) ?segs" by (rule packAll_crowded) (auto simp: openedSegs_def)
  then have "\<forall>i. i + max 1 (length old) < length ?segs \<longrightarrow> length (?segs ! i) + length (?segs ! Suc i) > 5242880"
    using mx(2) unfolding crowded_def by fastforce
  with l(1) files all bound show ?thesis by (simp add: Let_def)
qed

theorem log_keeps_the_newest_witness:
  "\<exists>l. openLogFile logFileMax logFileKeep ((\<lambda>i. None)(0 := Some ''new '', 1 := Some ''old '')) [] = (True, l) \<and>
     lf_files (writeAll [''one '', ''two ''] l) 0 = Some ''new one two '' \<and> lf_files (writeAll [''one '', ''two ''] l) 1 = Some ''old ''"
proof -
  let ?f = "(\<lambda>i. None)(0 := Some ''new '', 1 := Some ''old '')"
  have "\<forall>i \<le> logFileKeep. ?f i = nthFile [''new '', ''old ''] i" by (auto simp: nthFile_def nth_Cons')
  from log_keeps_the_newest [OF this, of "[''one '', ''two '']"] obtain l where l:
    "openLogFile logFileMax logFileKeep ?f [] = (True, l)"
    "\<forall>i \<le> 3. lf_files (writeAll [''one '', ''two ''] l) i = nthFile (packAll logFileMax (openedSegs [''new '', ''old '']) [''one '', ''two '']) i"
    by (auto simp only: Let_def)
  have "packAll logFileMax (openedSegs [''new '', ''old '']) [''one '', ''two ''] = [''new one two '', ''old '']"
    by (simp add: packAll_def openedSegs_def logFileMax_def)
  with l show ?thesis by (intro exI [of _ l] conjI) simp_all
qed

end
