(* ===== verification/Archive.thy ===== *)
theory Archive
  imports Gateway
begin

text \<open>
  What goes into a zip: \<^verbatim>\<open>addEntry\<close> and the loop of \<^verbatim>\<open>writeZip\<close> in \<^verbatim>\<open>device/agent/compress.go\<close>.  A folder is a tree; a symbolic
  link carries what it resolves to inside the shared folder, or nothing when it is broken or points out.  Whether
  \<^verbatim>\<open>fs.WalkDir\<close> looks through a link at its root is an argument.
\<close>

datatype node = File string | Folder "(string \<times> node) list" | Symlink "node option" | Special

type_synonym zipEntry = "string \<times> string option"

text \<open>\<^verbatim>\<open>fs.Stat\<close> follows links.\<close>

fun stat :: "node \<Rightarrow> node option" where
  "stat (Symlink None) = None"
| "stat (Symlink (Some n)) = stat n"
| "stat n = Some n"

text \<open>The function that is called for each path: an entry with or without content, or nothing, or an error.\<close>

definition visit :: "string \<Rightarrow> node \<Rightarrow> zipEntry list option" where
  "visit p n = (case stat n of
      None \<Rightarrow> None
    | Some (Folder kids) \<Rightarrow> Some [(p @ ''/'', None)]
    | Some (File content) \<Rightarrow> Some [(p, Some content)]
    | Some other \<Rightarrow> Some [])"

fun walk :: "string \<Rightarrow> node \<Rightarrow> zipEntry list option" and walks :: "string \<Rightarrow> (string \<times> node) list \<Rightarrow> zipEntry list option" where
  "walk p (Folder kids) = (case (visit p (Folder kids), walks p kids) of (Some es, Some fs) \<Rightarrow> Some (es @ fs) | _ \<Rightarrow> None)"
| "walk p n = visit p n"
| "walks p [] = Some []"
| "walks p ((name, n) # kids) = (case walk (p @ ''/'' @ name) n of
      None \<Rightarrow> None | Some es \<Rightarrow> map_option (\<lambda>fs. es @ fs) (walks p kids))"

definition addEntry :: "bool \<Rightarrow> (string \<rightharpoonup> node) \<Rightarrow> string \<Rightarrow> zipEntry list option" where
  "addEntry throughRoot d entry = (case d entry of None \<Rightarrow> None
   | Some n \<Rightarrow> if throughRoot then (case stat n of None \<Rightarrow> None | Some n' \<Rightarrow> walk entry n') else walk entry n)"

fun addEntries :: "bool \<Rightarrow> (string \<rightharpoonup> node) \<Rightarrow> string list \<Rightarrow> zipEntry list option" where
  "addEntries throughRoot d [] = Some []"
| "addEntries throughRoot d (e # es) = (case addEntry throughRoot d e of
      None \<Rightarrow> None | Some xs \<Rightarrow> map_option (\<lambda>ys. xs @ ys) (addEntries throughRoot d es))"

section \<open>A zip holds every file\<close>

text \<open>The files of a tree by their path, and the trees a zip can hold whole.\<close>

fun filesOf :: "string \<Rightarrow> node \<Rightarrow> (string \<times> string) list" and filesOfAll :: "string \<Rightarrow> (string \<times> node) list \<Rightarrow> (string \<times> string) list" where
  "filesOf p (File c) = [(p, c)]"
| "filesOf p (Folder kids) = filesOfAll p kids"
| "filesOf p n = []"
| "filesOfAll p [] = []"
| "filesOfAll p ((name, n) # kids) = filesOf (p @ ''/'' @ name) n @ filesOfAll p kids"

fun linkfree :: "node \<Rightarrow> bool" and linkfreeAll :: "(string \<times> node) list \<Rightarrow> bool" where
  "linkfree (Folder kids) = linkfreeAll kids"
| "linkfree (Symlink n) = False"
| "linkfree n = True"
| "linkfreeAll [] = True"
| "linkfreeAll ((name, n) # kids) = (linkfree n \<and> linkfreeAll kids)"

definition contents :: "zipEntry list \<Rightarrow> (string \<times> string) list" where
  "contents es = List.map_filter (\<lambda>(p, c). map_option (\<lambda>x. (p, x)) c) es"

lemma contents_simps [simp]: "contents [] = []" "contents ((p, None) # es) = contents es" "contents ((p, Some c) # es) = (p, c) # contents es"
  "contents (es @ fs) = contents es @ contents fs"
  by (simp_all add: contents_def List.map_filter_def)

lemma linkfree_stat: "linkfree n \<Longrightarrow> stat n = Some n"
  by (cases n) auto

lemma walk_files:
  "linkfree n \<Longrightarrow> \<exists>es. walk p n = Some es \<and> contents es = filesOf p n"
  "linkfreeAll kids \<Longrightarrow> \<exists>es. walks p kids = Some es \<and> contents es = filesOfAll p kids"
proof (induction p n and p kids rule: walk_walks.induct)
  case (1 p kids)
  then show ?case by (auto simp: visit_def)
next
  case (4 p name n kids)
  then obtain es fs where "walk (p @ ''/'' @ name) n = Some es" "contents es = filesOf (p @ ''/'' @ name) n"
    "walks p kids = Some fs" "contents fs = filesOfAll p kids" by fastforce
  then show ?case by simp
qed (auto simp: visit_def)

text \<open>
  C21.  A zip of folders without links is complete: making it works, and its files are exactly the files below the entries
  asked for, each once, under its own path and with its own content.
\<close>

theorem zip_holds_every_file:
  assumes "\<And>e. e \<in> set entries \<Longrightarrow> \<exists>n. d e = Some n \<and> linkfree n"
  shows "\<exists>es. addEntries throughRoot d entries = Some es \<and> contents es = concat (map (\<lambda>e. filesOf e (the (d e))) entries)"
  using assms
proof (induction entries)
  case (Cons e entries)
  obtain n where n: "d e = Some n" "linkfree n" using Cons.prems by auto
  then obtain es where "addEntry throughRoot d e = Some es" "contents es = filesOf e n"
    using walk_files(1) [OF n(2), of e] by (auto simp: addEntry_def linkfree_stat)
  moreover obtain fs where "addEntries throughRoot d entries = Some fs" "contents fs = concat (map (\<lambda>e. filesOf e (the (d e))) entries)"
    using Cons.IH Cons.prems by auto
  ultimately show ?case using n(1) by simp
qed simp

text \<open>
  A linked folder comes out empty.  Below a folder that is zipped, a link to another shared folder becomes a folder entry
  and none of the files behind it: the walk follows links to files and not to folders, and says nothing.
\<close>

theorem linked_folder_comes_empty:
  assumes "stat target = Some (Folder kids)"
  shows "walk p (Folder [(name, Symlink (Some target))]) = Some [(p @ ''/'', None), (p @ ''/'' @ name @ ''/'', None)]"
  using assms by (simp add: visit_def)

theorem zip_holds_every_file_witness:
  "\<exists>es. addEntries True [''a'' \<mapsto> Folder [(''b'', File ''x''), (''c'', Folder [(''d'', File ''y'')])]] [''a''] = Some es \<and>
     contents es = [(''a/b'', ''x''), (''a/c/d'', ''y'')]"
  using zip_holds_every_file [of "[''a'']" "[''a'' \<mapsto> Folder [(''b'', File ''x''), (''c'', Folder [(''d'', File ''y'')])]]" True] by simp

theorem linked_folder_comes_empty_witness:
  "walk ''a'' (Folder [(''b'', Symlink (Some (Folder [(''lost'', File ''x'')])))]) = Some [(''a/'', None), (''a/b/'', None)]"
  using linked_folder_comes_empty [of "Folder [(''lost'', File ''x'')]" "[(''lost'', File ''x'')]" "''a''" "''b''"] by simp

end
