(* ===== verification/Service.thy ===== *)
theory Service
  imports Settings
begin

text \<open>
  \<^verbatim>\<open>device/agent/service.go\<close>, \<^verbatim>\<open>config.go\<close> and the argument handling of \<^verbatim>\<open>main.go\<close>: the agent's settings, how they reach an installed
  service, and what installing and removing it does on each system.  A manifest is the data its template is filled with;
  joining paths, resolving symbolic links and running a command are arguments.
\<close>

section \<open>Settings\<close>

definition agentEnv :: "(string \<Rightarrow> string) \<Rightarrow> string \<Rightarrow> string \<Rightarrow> string" where
  "agentEnv getenv key fallback = (if getenv key \<noteq> [] then getenv key else fallback)"

record agentConfig =
  ac_dir :: string
  ac_addr :: string
  ac_settings :: string
  ac_keystore :: string
  ac_mdns :: bool
  ac_tunnel :: bool
  ac_logLevel :: int
  ac_logFile :: string

datatype configErr = NoConfigDir | SettingsNotLoopback | BadLogLevel

definition defaultDir :: "string \<Rightarrow> (string \<Rightarrow> string) \<Rightarrow> (string list \<Rightarrow> string) \<Rightarrow> string option \<Rightarrow> string option" where
  "defaultDir goos getenv joinPath userConfigDir =
     (if goos = ''windows'' \<and> getenv ''LocalAppData'' \<noteq> [] then Some (joinPath [getenv ''LocalAppData'', ''anywhere-file''])
      else map_option (\<lambda>d. joinPath [d, ''anywhere-file'']) userConfigDir)"

definition agent_loadConfig ::
  "string \<Rightarrow> (string \<Rightarrow> string) \<Rightarrow> (string list \<Rightarrow> string) \<Rightarrow> string option \<Rightarrow> (string \<Rightarrow> int option) \<Rightarrow> configErr + agentConfig" where
  "agent_loadConfig goos getenv joinPath userConfigDir parseLevel =
     (let settings0 = agentEnv getenv ''RFM_AGENT_SETTINGS_ADDR'' ''127.0.0.1:7434'';
          dir0 = getenv ''RFM_AGENT_DIR'' in
      case (if dir0 = [] then defaultDir goos getenv joinPath userConfigDir else Some dir0) of
        None \<Rightarrow> Inl NoConfigDir
      | Some dir \<Rightarrow>
          if settings0 \<noteq> ''off'' \<and> \<not> checkLoopback settings0 then Inl SettingsNotLoopback
          else (case parseLevel (agentEnv getenv ''RFM_AGENT_LOG_LEVEL'' ''info'') of
            None \<Rightarrow> Inl BadLogLevel
          | Some l \<Rightarrow> Inr \<lparr>ac_dir = dir, ac_addr = agentEnv getenv ''RFM_AGENT_ADDR'' '':7433'',
              ac_settings = (if settings0 = ''off'' then [] else settings0),
              ac_keystore = agentEnv getenv ''RFM_AGENT_KEYSTORE'' ''auto'',
              ac_mdns = (agentEnv getenv ''RFM_AGENT_MDNS'' ''on'' \<noteq> ''off''),
              ac_tunnel = (agentEnv getenv ''RFM_AGENT_TUNNEL'' ''on'' \<noteq> ''off''),
              ac_logLevel = l, ac_logFile = getenv ''RFM_AGENT_LOG_FILE''\<rparr>))"

section \<open>Settings on a command line\<close>

definition envPrefix :: string where "envPrefix = ''RFM_AGENT_''"

text \<open>The variables set, in order, and the arguments left.\<close>

fun applyEnvArgs :: "string list \<Rightarrow> (string \<times> string) list \<times> string list" where
  "applyEnvArgs [] = ([], [])"
| "applyEnvArgs (a # args) =
     (case applyEnvArgs args of (vars, rest) \<Rightarrow>
        case cutAt (CHR ''='') a of (key, v, ok) \<Rightarrow>
          if ok \<and> hasPrefix key envPrefix then ((key, v) # vars, rest) else (vars, a # rest))"

text \<open>\<^verbatim>\<open>sort.Slice\<close> by key; settings with equal keys keep their order.\<close>

definition sortPairs :: "(string \<times> string) list \<Rightarrow> (string \<times> string) list" where
  "sortPairs xs = foldr (insertSorted (\<lambda>x y. bytesLe (fst x) (fst y))) xs []"

definition serviceEnv :: "string list \<Rightarrow> (string \<times> string) list" where
  "serviceEnv environ = sortPairs (List.map_filter (\<lambda>e. case cutAt (CHR ''='') e of (key, v, ok) \<Rightarrow>
     if ok \<and> hasPrefix key envPrefix then Some (key, v) else None) environ)"

definition hasKey :: "(string \<times> string) list \<Rightarrow> string \<Rightarrow> bool" where
  "hasKey env key = list_ex (\<lambda>kv. fst kv = key) env"

definition withLogFile :: "(string list \<Rightarrow> string) \<Rightarrow> (string \<times> string) list \<Rightarrow> string \<Rightarrow> string \<Rightarrow> (string \<times> string) list" where
  "withLogFile joinPath env dir command =
     (if hasKey env ''RFM_AGENT_LOG_FILE'' then env
      else sortPairs (env @ [(''RFM_AGENT_LOG_FILE'', joinPath [dir, if command = ''menubar'' then ''menubar.log'' else ''agent.log''])]))"

definition envArgs :: "(string \<times> string) list \<Rightarrow> string list" where
  "envArgs env = map (\<lambda>kv. fst kv @ ''='' @ snd kv) env"

definition quoted :: "string list \<Rightarrow> string list" where
  "quoted args = map (\<lambda>a. if containsAny a [CHR '' '', CHR 0x09] then [CHR 0x22] @ a @ [CHR 0x22] else a) args"

section \<open>The plan\<close>

datatype planBody =
    LaunchdJob string string string string string "string list"
  | SystemdUnit string "string list"
  | DesktopEntry string
  | ScheduledTask string string string bool

record planFile =
  pf_path :: string
  pf_body :: planBody
  pf_utf16 :: bool

record planCmd =
  pc_argv :: "string list"
  pc_optional :: bool

record servicePlan =
  sp_files :: "planFile list"
  sp_install :: "planCmd list"
  sp_uninstall :: "planCmd list"
  sp_quit :: "planCmd list"
  sp_reopen :: "planCmd list"

record planInput =
  pi_goos :: string
  pi_exe :: string
  pi_dir :: string
  pi_home :: string
  pi_user :: string
  pi_env :: "(string \<times> string) list"

definition serviceLabel :: string where "serviceLabel = ''io.anywhere-file.agent''"
definition menubarLabel :: string where "menubarLabel = ''io.anywhere-file.menubar''"
definition serviceName :: string where "serviceName = ''anywhere-file-agent''"
definition trayName :: string where "trayName = ''anywhere-file-tray''"

definition cmd :: "bool \<Rightarrow> string list \<Rightarrow> planCmd" where
  "cmd optional argv = \<lparr>pc_argv = argv, pc_optional = optional\<rparr>"

definition darwinPlan :: "(string list \<Rightarrow> string) \<Rightarrow> planInput \<Rightarrow> servicePlan" where
  "darwinPlan joinPath inp =
     (let agents = joinPath [pi_home inp, ''Library'', ''LaunchAgents''];
          path = joinPath [agents, serviceLabel @ ''.plist''];
          menu = joinPath [agents, menubarLabel @ ''.plist''];
          plist = (\<lambda>label command. LaunchdJob label (joinPath [agents, label @ ''.plist'']) command (pi_exe inp)
            (joinPath [pi_dir inp, ''stderr.log'']) (envArgs (withLogFile joinPath (pi_env inp) (pi_dir inp) command)));
          load = (\<lambda>optional p. cmd optional [''launchctl'', ''load'', ''-w'', p]);
          unload = (\<lambda>p. cmd True [''launchctl'', ''unload'', ''-w'', p])
      in \<lparr>sp_files = [\<lparr>pf_path = path, pf_body = plist serviceLabel ''run'', pf_utf16 = False\<rparr>,
                      \<lparr>pf_path = menu, pf_body = plist menubarLabel ''menubar'', pf_utf16 = False\<rparr>],
          sp_install = [unload path, load False path, unload menu, load True menu],
          sp_uninstall = [unload path, unload menu],
          sp_quit = [unload path, unload menu],
          sp_reopen = [load True path, load True menu]\<rparr>)"

definition linuxPlan :: "(string list \<Rightarrow> string) \<Rightarrow> planInput \<Rightarrow> servicePlan" where
  "linuxPlan joinPath inp =
     (let unit = serviceName @ ''.service'';
          path = joinPath [pi_home inp, ''.config'', ''systemd'', ''user'', unit];
          desktop = joinPath [pi_home inp, ''.local'', ''share'', ''applications'', serviceName @ ''-settings.desktop'']
      in \<lparr>sp_files = [\<lparr>pf_path = path, pf_body = SystemdUnit (pi_exe inp) (quoted (envArgs (pi_env inp))), pf_utf16 = False\<rparr>,
                      \<lparr>pf_path = desktop, pf_body = DesktopEntry (pi_exe inp), pf_utf16 = False\<rparr>],
          sp_install = [cmd True [''loginctl'', ''enable-linger''], cmd False [''systemctl'', ''--user'', ''daemon-reload''],
                        cmd False [''systemctl'', ''--user'', ''enable'', ''--now'', unit]],
          sp_uninstall = [cmd True [''systemctl'', ''--user'', ''disable'', ''--now'', unit],
                          cmd True [''systemctl'', ''--user'', ''daemon-reload'']],
          sp_quit = [], sp_reopen = []\<rparr>)"

text \<open>The part of the user after the last backslash, or all of it.\<close>

definition afterBackslash :: "string \<Rightarrow> string" where
  "afterBackslash u = rev (takeWhile (\<lambda>c. c \<noteq> CHR 0x5C) (rev u))"

definition windowsPlan :: "(string list \<Rightarrow> string) \<Rightarrow> planInput \<Rightarrow> servicePlan" where
  "windowsPlan joinPath inp =
     (let task = joinPath [pi_dir inp, ''service'', serviceName @ ''.xml''];
          tray = joinPath [pi_dir inp, ''service'', trayName @ ''.xml''];
          manifest = (\<lambda>path command. \<lparr>pf_path = path, pf_body = ScheduledTask (pi_user inp) (pi_exe inp)
            (joinWith '' '' (command # quoted (envArgs (withLogFile joinPath (pi_env inp) (pi_dir inp) command)))) (command = ''run''),
            pf_utf16 = True\<rparr>);
          suffix = (if pi_user inp \<noteq> [] then ''-'' @ afterBackslash (pi_user inp) else []);
          agentTask = serviceName @ suffix; trayTask = trayName @ suffix;
          schtasks = (\<lambda>optional args. cmd optional (''schtasks'' # args))
      in \<lparr>sp_files = [manifest task ''run'', manifest tray ''menubar''],
          sp_install = [schtasks False [''/Create'', ''/TN'', agentTask, ''/XML'', task, ''/F''],
                        schtasks False [''/Create'', ''/TN'', trayTask, ''/XML'', tray, ''/F''],
                        schtasks False [''/Run'', ''/TN'', agentTask], schtasks True [''/Run'', ''/TN'', trayTask]],
          sp_uninstall = [schtasks True [''/End'', ''/TN'', agentTask], schtasks True [''/Delete'', ''/TN'', agentTask, ''/F''],
                          schtasks True [''/End'', ''/TN'', trayTask], schtasks True [''/Delete'', ''/TN'', trayTask, ''/F'']],
          sp_quit = [schtasks True [''/End'', ''/TN'', agentTask], schtasks True [''/Change'', ''/TN'', agentTask, ''/DISABLE''],
                     schtasks True [''/Change'', ''/TN'', trayTask, ''/DISABLE'']],
          sp_reopen = [schtasks False [''/Change'', ''/TN'', agentTask, ''/ENABLE''], schtasks True [''/Change'', ''/TN'', trayTask, ''/ENABLE''],
                       schtasks False [''/Run'', ''/TN'', agentTask], schtasks True [''/Run'', ''/TN'', trayTask]]\<rparr>)"

definition servicePlanFor :: "(string list \<Rightarrow> string) \<Rightarrow> planInput \<Rightarrow> servicePlan option" where
  "servicePlanFor joinPath inp =
     (if pi_goos inp = ''darwin'' then Some (darwinPlan joinPath inp)
      else if pi_goos inp = ''linux'' then Some (linuxPlan joinPath inp)
      else if pi_goos inp = ''windows'' then Some (windowsPlan joinPath inp)
      else None)"

text \<open>\<open>rel\<close> is \<^verbatim>\<open>filepath.Rel\<close> of the binary below the resolved temporary directory.\<close>

definition temporaryBuild :: "string \<Rightarrow> string option \<Rightarrow> bool" where
  "temporaryBuild tmp rel \<longleftrightarrow> tmp \<noteq> [] \<and> (case rel of None \<Rightarrow> False | Some r \<Rightarrow> \<not> hasPrefix r ''..'')"

definition currentUser :: "(string \<Rightarrow> string) \<Rightarrow> string" where
  "currentUser getenv = (case find (\<lambda>k. getenv k \<noteq> []) [''USER'', ''LOGNAME'', ''USERNAME''] of None \<Rightarrow> [] | Some k \<Rightarrow> getenv k)"

definition planUser :: "string \<Rightarrow> (string \<Rightarrow> string) \<Rightarrow> string" where
  "planUser goos getenv =
     (if goos = ''windows'' \<and> getenv ''USERNAME'' \<noteq> []
      then (if getenv ''USERDOMAIN'' \<noteq> [] then getenv ''USERDOMAIN'' @ [CHR 0x5C] @ getenv ''USERNAME'' else getenv ''USERNAME'')
      else [])"

text \<open>\<^verbatim>\<open>currentPlan\<close>; the binary's path is resolved already, and \<open>tempRel\<close> is as above.\<close>

definition currentPlan ::
  "(string list \<Rightarrow> string) \<Rightarrow> string \<Rightarrow> (string \<Rightarrow> string) \<Rightarrow> string list \<Rightarrow> string option \<Rightarrow> string \<Rightarrow> string option \<Rightarrow> string option \<Rightarrow> string \<Rightarrow> servicePlan option" where
  "currentPlan joinPath goos getenv environ exe tmp tempRel home dir = (case exe of None \<Rightarrow> None
   | Some e \<Rightarrow> if temporaryBuild tmp tempRel then None
     else (case home of None \<Rightarrow> None
       | Some h \<Rightarrow> servicePlanFor joinPath \<lparr>pi_goos = goos, pi_exe = e, pi_dir = dir, pi_home = h, pi_user = planUser goos getenv, pi_env = serviceEnv environ\<rparr>))"

section \<open>Carrying it out\<close>

type_synonym manifests = "string \<rightharpoonup> planBody"

text \<open>The commands that were run, and whether all that had to work did; \<open>works\<close> says how each ends.\<close>

fun runPlan :: "string \<Rightarrow> (string list \<Rightarrow> bool) \<Rightarrow> planCmd list \<Rightarrow> string list list \<times> bool" where
  "runPlan user works [] = ([], True)"
| "runPlan user works (c # cs) =
     (let argv = (if hd (pc_argv c) = ''loginctl'' \<and> length (pc_argv c) = 2 then pc_argv c @ [user] else pc_argv c) in
      if works argv \<or> pc_optional c then (case runPlan user works cs of (log, ok) \<Rightarrow> (argv # log, ok))
      else ([argv], False))"

text \<open>Writing the files stops at the first that cannot be written.\<close>

fun writePlanFiles :: "(string \<Rightarrow> bool) \<Rightarrow> planFile list \<Rightarrow> manifests \<Rightarrow> bool \<times> manifests" where
  "writePlanFiles writes [] fs = (True, fs)"
| "writePlanFiles writes (f # files) fs =
     (if writes (pf_path f) then writePlanFiles writes files (fs(pf_path f \<mapsto> pf_body f)) else (False, fs))"

definition installService ::
  "servicePlan option \<Rightarrow> bool \<Rightarrow> (string \<Rightarrow> bool) \<Rightarrow> string \<Rightarrow> (string list \<Rightarrow> bool) \<Rightarrow> manifests \<Rightarrow> bool \<times> manifests \<times> string list list" where
  "installService plan dirOk writes user works fs = (case plan of None \<Rightarrow> (False, fs, [])
   | Some p \<Rightarrow> if \<not> dirOk then (False, fs, [])
     else (case writePlanFiles writes (sp_files p) fs of
         (False, fs') \<Rightarrow> (False, fs', [])
       | (True, fs') \<Rightarrow> (case runPlan user works (sp_install p) of (log, ok) \<Rightarrow> (ok, fs', log))))"

text \<open>A file that is not there is no error; another failure to remove one stops.\<close>

fun removePlanFiles :: "(string \<Rightarrow> bool) \<Rightarrow> planFile list \<Rightarrow> manifests \<Rightarrow> bool \<times> manifests" where
  "removePlanFiles removes [] fs = (True, fs)"
| "removePlanFiles removes (f # files) fs =
     (if fs (pf_path f) = None then removePlanFiles removes files fs
      else if removes (pf_path f) then removePlanFiles removes files (fs(pf_path f := None))
      else (False, fs))"

definition uninstallService ::
  "servicePlan option \<Rightarrow> (string \<Rightarrow> bool) \<Rightarrow> string \<Rightarrow> (string list \<Rightarrow> bool) \<Rightarrow> manifests \<Rightarrow> bool \<times> manifests \<times> string list list" where
  "uninstallService plan removes user works fs = (case plan of None \<Rightarrow> (False, fs, [])
   | Some p \<Rightarrow> (case runPlan user works (sp_uninstall p) of
       (log, False) \<Rightarrow> (False, fs, log)
     | (log, True) \<Rightarrow> (case removePlanFiles removes (sp_files p) fs of (ok, fs') \<Rightarrow> (ok, fs', log))))"

section \<open>An installed service runs with the settings it was installed with\<close>

text \<open>\<^verbatim>\<open>os.Getenv\<close> in a process started with \<open>environ\<close>, and \<^verbatim>\<open>os.Setenv\<close>.\<close>

definition environPairs :: "string list \<Rightarrow> (string \<times> string) list" where
  "environPairs environ = List.map_filter (\<lambda>e. case cutAt (CHR ''='') e of (key, v, ok) \<Rightarrow> if ok then Some (key, v) else None) environ"

definition os_Getenv :: "string list \<Rightarrow> string \<Rightarrow> string" where
  "os_Getenv environ k = (case map_of (environPairs environ) k of None \<Rightarrow> [] | Some v \<Rightarrow> v)"

definition os_Setenv :: "string \<times> string \<Rightarrow> (string \<Rightarrow> string) \<Rightarrow> (string \<Rightarrow> string)" where
  "os_Setenv kv getenv = getenv(fst kv := snd kv)"

definition ours :: "string \<times> string \<Rightarrow> bool" where
  "ours kv \<longleftrightarrow> hasPrefix (fst kv) envPrefix \<and> CHR ''='' \<notin> set (fst kv)"

lemma mset_insertSorted: "mset (insertSorted le x xs) = add_mset x (mset xs)"
  by (induction xs) auto

lemma mset_sortPairs: "mset (sortPairs xs) = mset xs"
  unfolding sortPairs_def by (induction xs) (auto simp: mset_insertSorted)

lemma set_sortPairs [simp]: "set (sortPairs xs) = set xs"
  by (metis mset_sortPairs set_mset_mset)

lemma distinct_sortPairs: "distinct (map fst (sortPairs xs)) \<longleftrightarrow> distinct (map fst xs)"
  by (metis mset_sortPairs mset_map mset_eq_imp_distinct_iff)

lemma environPairs_key: "kv \<in> set (environPairs environ) \<Longrightarrow> CHR ''='' \<notin> set (fst kv)"
  unfolding environPairs_def
  by (induction environ) (auto simp: List.map_filter_simps dest: cutAt_True split: option.splits prod.splits if_splits)

lemma serviceEnv_pairs: "serviceEnv environ = sortPairs (filter (\<lambda>kv. hasPrefix (fst kv) envPrefix) (environPairs environ))"
  unfolding serviceEnv_def environPairs_def
  by (rule arg_cong [of _ _ sortPairs], induction environ) (auto simp: List.map_filter_simps split: option.splits prod.splits)

lemma serviceEnv_ours: "list_all ours (serviceEnv environ)"
  using environPairs_key by (fastforce simp: list_all_iff ours_def serviceEnv_pairs)

lemma withLogFile_ours: "list_all ours env \<Longrightarrow> list_all ours (withLogFile joinPath env dir command)"
  by (auto simp: withLogFile_def list_all_iff ours_def hasPrefix_def envPrefix_def)

lemma applyEnvArgs_envArgs: "list_all ours env \<Longrightarrow> applyEnvArgs (envArgs env) = (env, [])"
  by (induction env) (auto simp: envArgs_def ours_def cutAt_append)

lemma setenv_all: "distinct (map fst env) \<Longrightarrow> fold os_Setenv env g k = (case map_of env k of None \<Rightarrow> g k | Some v \<Rightarrow> v)"
proof (induction env arbitrary: g)
  case (Cons kv env)
  have "map_of env (fst kv) = None" using Cons.prems by (simp add: map_of_eq_None_iff)
  then show ?case using Cons by (auto simp: os_Setenv_def split: option.splits)
qed simp

lemma map_of_serviceEnv:
  assumes "distinct (map fst (environPairs environ))"
  shows "map_of (serviceEnv environ) k = (if hasPrefix k envPrefix then map_of (environPairs environ) k else None)"
proof -
  have "map_of (serviceEnv environ) = map_of (filter (\<lambda>kv. hasPrefix (fst kv) envPrefix) (environPairs environ))"
    unfolding serviceEnv_pairs using distinct_map_filter [OF assms] by (intro map_of_inject_set [THEN iffD2]) (simp_all add: distinct_sortPairs)
  moreover have "map_of (filter (\<lambda>kv. hasPrefix (fst kv) envPrefix) xs) k = (if hasPrefix k envPrefix then map_of xs k else None)" for xs :: "(string \<times> string) list"
    by (induction xs) auto
  ultimately show ?thesis by simp
qed

lemma map_of_withLogFile:
  assumes "distinct (map fst env)"
  shows "map_of (withLogFile joinPath env dir ''run'') =
      (if hasKey env ''RFM_AGENT_LOG_FILE'' then map_of env else (map_of env)(''RFM_AGENT_LOG_FILE'' \<mapsto> joinPath [dir, ''agent.log'']))"
    and "distinct (map fst (withLogFile joinPath env dir ''run''))"
proof -
  let ?log = "(''RFM_AGENT_LOG_FILE'', joinPath [dir, ''agent.log''])"
  have new: "distinct (map fst (?log # env))" if "\<not> hasKey env ''RFM_AGENT_LOG_FILE''"
    using assms that by (auto simp: hasKey_def list_ex_iff)
  then have "map_of (sortPairs (env @ [?log])) = map_of (?log # env)" if "\<not> hasKey env ''RFM_AGENT_LOG_FILE''"
    using that by (intro map_of_inject_set [THEN iffD2]) (auto simp: distinct_sortPairs)
  then show "map_of (withLogFile joinPath env dir ''run'') =
      (if hasKey env ''RFM_AGENT_LOG_FILE'' then map_of env else (map_of env)(''RFM_AGENT_LOG_FILE'' \<mapsto> joinPath [dir, ''agent.log'']))"
    by (simp add: withLogFile_def)
  show "distinct (map fst (withLogFile joinPath env dir ''run''))"
    using new assms by (auto simp: withLogFile_def distinct_sortPairs)
qed

text \<open>What loading the settings reads of the environment.\<close>

lemma agent_loadConfig_cong:
  assumes "\<And>k. k \<noteq> ''RFM_AGENT_LOG_FILE'' \<Longrightarrow> getenv' k = getenv k"
    and "agent_loadConfig goos getenv joinPath userConfigDir parseLevel = Inr cfg"
  shows "agent_loadConfig goos getenv' joinPath userConfigDir parseLevel = Inr (cfg\<lparr>ac_logFile := getenv' ''RFM_AGENT_LOG_FILE''\<rparr>)"
proof -
  have env: "agentEnv getenv' k d = agentEnv getenv k d" if "k \<noteq> ''RFM_AGENT_LOG_FILE''" for k d
    using assms(1) [OF that] by (simp add: agentEnv_def)
  have same: "agentEnv getenv' ''RFM_AGENT_SETTINGS_ADDR'' d = agentEnv getenv ''RFM_AGENT_SETTINGS_ADDR'' d"
    "agentEnv getenv' ''RFM_AGENT_LOG_LEVEL'' d = agentEnv getenv ''RFM_AGENT_LOG_LEVEL'' d"
    "agentEnv getenv' ''RFM_AGENT_ADDR'' d = agentEnv getenv ''RFM_AGENT_ADDR'' d"
    "agentEnv getenv' ''RFM_AGENT_KEYSTORE'' d = agentEnv getenv ''RFM_AGENT_KEYSTORE'' d"
    "agentEnv getenv' ''RFM_AGENT_MDNS'' d = agentEnv getenv ''RFM_AGENT_MDNS'' d"
    "agentEnv getenv' ''RFM_AGENT_TUNNEL'' d = agentEnv getenv ''RFM_AGENT_TUNNEL'' d" for d
    by (rule env, simp)+
  have dir: "getenv' ''RFM_AGENT_DIR'' = getenv ''RFM_AGENT_DIR''" "getenv' ''LocalAppData'' = getenv ''LocalAppData''"
    by (rule assms(1), simp)+
  define dir0 where "dir0 = (if getenv ''RFM_AGENT_DIR'' = [] then defaultDir goos getenv joinPath userConfigDir else Some (getenv ''RFM_AGENT_DIR''))"
  have dd: "defaultDir goos getenv' joinPath userConfigDir = defaultDir goos getenv joinPath userConfigDir"
    unfolding defaultDir_def dir ..
  have fallback: "(if getenv ''RFM_AGENT_DIR'' = [] then defaultDir goos getenv joinPath userConfigDir else Some (getenv ''RFM_AGENT_DIR'')) = dir0"
    unfolding dir0_def ..
  show ?thesis
    using assms(2) unfolding agent_loadConfig_def same dir dd Let_def fallback
    by (clarsimp split: option.split_asm if_split_asm)
qed

text \<open>
  A launchd service installed from a working configuration starts with exactly that configuration: launchd gives it
  none of the agent's own variables, the arguments in its manifest put every one of them back, none is taken for an
  argument of the command, and all that changes is that a log file is chosen where none was.
\<close>

theorem installed_service_keeps_settings:
  assumes plan: "currentPlan joinPath ''darwin'' (os_Getenv environ) environ exe tmp tempRel home dir = Some p"
    and job: "pf_body (hd (sp_files p)) = LaunchdJob label path command bin stderr args"
    and environ: "distinct (map fst (environPairs environ))"
    and base: "\<And>k. base k = (if hasPrefix k envPrefix then [] else os_Getenv environ k)"
    and cfg: "agent_loadConfig ''darwin'' (os_Getenv environ) joinPath userConfigDir parseLevel = Inr cfg"
  shows "command = ''run'' \<and> snd (applyEnvArgs args) = [] \<and>
    agent_loadConfig ''darwin'' (fold os_Setenv (fst (applyEnvArgs args)) base) joinPath userConfigDir parseLevel =
      Inr (if hasKey (serviceEnv environ) ''RFM_AGENT_LOG_FILE'' then cfg else cfg\<lparr>ac_logFile := joinPath [dir, ''agent.log'']\<rparr>)"
proof -
  let ?env = "withLogFile joinPath (serviceEnv environ) dir ''run''"
  have args: "args = envArgs ?env" "command = ''run''"
    using plan job by (auto simp: currentPlan_def servicePlanFor_def darwinPlan_def Let_def split: option.splits if_splits)
  have applied: "applyEnvArgs args = (?env, [])"
    unfolding args by (intro applyEnvArgs_envArgs withLogFile_ours serviceEnv_ours)
  have dist: "distinct (map fst (serviceEnv environ))"
    using distinct_map_filter [OF environ] by (simp add: serviceEnv_pairs distinct_sortPairs)
  have getenv: "fold os_Setenv ?env base k = (case map_of ?env k of None \<Rightarrow> base k | Some v \<Rightarrow> v)" for k
    by (rule setenv_all [OF map_of_withLogFile(2) [OF dist]])
  have log: "hasPrefix ''RFM_AGENT_LOG_FILE'' envPrefix" by (simp add: hasPrefix_def envPrefix_def)
  have key: "hasKey (serviceEnv environ) k \<longleftrightarrow> map_of (serviceEnv environ) k \<noteq> None" for k
    by (auto simp: hasKey_def list_ex_iff map_of_eq_None_iff)
  have others: "fold os_Setenv ?env base k = os_Getenv environ k" if "k \<noteq> ''RFM_AGENT_LOG_FILE''" for k
    using that unfolding getenv base map_of_withLogFile(1) [OF dist] by (auto simp: map_of_serviceEnv [OF environ] os_Getenv_def split: option.splits)
  have logFile: "fold os_Setenv ?env base ''RFM_AGENT_LOG_FILE'' =
      (if hasKey (serviceEnv environ) ''RFM_AGENT_LOG_FILE'' then os_Getenv environ ''RFM_AGENT_LOG_FILE'' else joinPath [dir, ''agent.log''])"
    unfolding getenv map_of_withLogFile(1) [OF dist] key using log by (auto simp: map_of_serviceEnv [OF environ] os_Getenv_def)
  have same: "cfg\<lparr>ac_logFile := os_Getenv environ ''RFM_AGENT_LOG_FILE''\<rparr> = cfg"
    using agent_loadConfig_cong [OF refl cfg] cfg by simp
  show ?thesis
    using agent_loadConfig_cong [OF others cfg] applied args(2) same by (simp add: logFile)
qed

section \<open>Installing and removing\<close>

definition argvOf :: "string \<Rightarrow> planCmd \<Rightarrow> string list" where
  "argvOf user c = (if hd (pc_argv c) = ''loginctl'' \<and> length (pc_argv c) = 2 then pc_argv c @ [user] else pc_argv c)"

definition planPaths :: "servicePlan \<Rightarrow> string list" where
  "planPaths p = map pf_path (sp_files p)"

lemma runPlan_outcome:
  "runPlan user works cs = (log, ok) \<Longrightarrow>
    prefix log (map (argvOf user) cs) \<and> (ok \<longleftrightarrow> (\<forall>c \<in> set cs. pc_optional c \<or> works (argvOf user c))) \<and>
    (ok \<longrightarrow> log = map (argvOf user) cs)"
proof (induction cs arbitrary: log ok)
  case (Cons c cs)
  obtain log' ok' where run: "runPlan user works cs = (log', ok')" by (cases "runPlan user works cs")
  from Cons.IH [OF run] Cons.prems run show ?case by (auto simp: argvOf_def [symmetric] Let_def split: if_splits)
qed simp

lemma writePlanFiles_effect:
  assumes "writePlanFiles writes files fs = (ok, fs')"
  shows "fs' |` (- set (map pf_path files)) = fs |` (- set (map pf_path files))"
    and "ok \<Longrightarrow> distinct (map pf_path files) \<Longrightarrow> f \<in> set files \<Longrightarrow> fs' (pf_path f) = Some (pf_body f)"
proof -
  have frame: "fs' x = fs x" if "x \<notin> pf_path ` set files" "writePlanFiles writes files fs = (ok, fs')" for x files fs ok
    using that by (induction files arbitrary: fs) (auto split: if_splits)
  show "fs' |` (- set (map pf_path files)) = fs |` (- set (map pf_path files))"
    using frame [OF _ assms] by (auto simp: restrict_map_def)
  show "fs' (pf_path f) = Some (pf_body f)" if "ok" "distinct (map pf_path files)" "f \<in> set files"
    using assms that
  proof (induction files arbitrary: fs)
    case (Cons g files)
    then show ?case using frame [of "pf_path g" files "fs(pf_path g \<mapsto> pf_body g)" ok] by (auto split: if_splits)
  qed simp
qed

lemma removePlanFiles_all:
  "removePlanFiles (\<lambda>_. True) files fs = (True, fs |` (- set (map pf_path files)))"
  by (induction files arbitrary: fs) (auto simp: restrict_map_def fun_eq_iff)

text \<open>What the plan owes to the machine: the settings and the binary do not move its files, and removing never insists.\<close>

lemma plan_paths_fixed:
  assumes "servicePlanFor joinPath i = Some p" "servicePlanFor joinPath i' = Some p'"
    and "pi_goos i = pi_goos i'" "pi_home i = pi_home i'" "pi_dir i = pi_dir i'"
  shows "planPaths p = planPaths p'"
  using assms by (auto simp: planPaths_def servicePlanFor_def darwinPlan_def linuxPlan_def windowsPlan_def Let_def split: if_splits)

lemma plan_uninstall_optional:
  "servicePlanFor joinPath i = Some p \<Longrightarrow> c \<in> set (sp_uninstall p) \<Longrightarrow> pc_optional c"
  by (auto simp: servicePlanFor_def darwinPlan_def linuxPlan_def windowsPlan_def Let_def cmd_def split: if_splits)

text \<open>
  Uninstalling works whatever became of the service: after an install that may have stopped anywhere, with whatever
  settings and from whatever binary, and whichever scheduler commands fail, it succeeds, removes every manifest of the
  plan and leaves every other path as it was before the install.
\<close>

theorem uninstall_undoes_install:
  assumes plan: "servicePlanFor joinPath i = Some p" and plan': "servicePlanFor joinPath i' = Some p'"
    and same: "pi_goos i = pi_goos i'" "pi_home i = pi_home i'" "pi_dir i = pi_dir i'"
    and install: "installService (Some p) dirOk writes user works fs = (ok, fs1, log)"
  shows "\<exists>log'. uninstallService (Some p') (\<lambda>_. True) user' works' fs1 = (True, fs |` (- set (planPaths p)), log')"
proof -
  let ?rest = "- set (planPaths p)"
  have kept: "fs1 |` ?rest = fs |` ?rest"
  proof (cases "writePlanFiles writes (sp_files p) fs")
    case (Pair ok' fs')
    then show ?thesis using writePlanFiles_effect(1) [OF Pair] install
      by (auto simp: installService_def planPaths_def split: if_splits bool.splits prod.splits)
  qed
  obtain log' ok' where run: "runPlan user' works' (sp_uninstall p') = (log', ok')" by (cases "runPlan user' works' (sp_uninstall p')")
  have "ok'" using runPlan_outcome [OF run] plan_uninstall_optional [OF plan'] by blast
  moreover have "set (map pf_path (sp_files p')) = set (planPaths p)"
    using plan_paths_fixed [OF plan plan' same] by (simp add: planPaths_def)
  ultimately show ?thesis
    using run kept by (simp add: uninstallService_def removePlanFiles_all del: set_map)
qed

text \<open>
  An install that reports success did all of it: every manifest of the plan is on disk, every command of the plan was
  run in order, and each that had to work did.
\<close>

theorem install_success_is_complete:
  assumes "servicePlanFor joinPath i = Some p" and paths: "distinct (planPaths p)"
    and install: "installService (Some p) dirOk writes user works fs = (True, fs', log)"
  shows "(\<forall>f \<in> set (sp_files p). fs' (pf_path f) = Some (pf_body f)) \<and> log = map (argvOf user) (sp_install p) \<and>
    (\<forall>c \<in> set (sp_install p). pc_optional c \<or> works (argvOf user c))"
proof -
  obtain ok1 fs1 where wrote: "writePlanFiles writes (sp_files p) fs = (ok1, fs1)" by (cases "writePlanFiles writes (sp_files p) fs")
  obtain log1 ok2 where run: "runPlan user works (sp_install p) = (log1, ok2)" by (cases "runPlan user works (sp_install p)")
  have "ok1" "ok2" "fs' = fs1" "log = log1"
    using install wrote run by (auto simp: installService_def split: if_splits bool.splits)
  then show ?thesis
    using writePlanFiles_effect(2) [OF wrote] paths runPlan_outcome [OF run] by (simp add: planPaths_def)
qed

section \<open>Task definitions in UTF-16\<close>

text \<open>\<^verbatim>\<open>utf16.Encode\<close> of code points: a surrogate or a value out of range becomes U+FFFD.\<close>

fun utf16_encode :: "nat list \<Rightarrow> nat list" where
  "utf16_encode [] = []"
| "utf16_encode (r # rs) =
     (if r < 0xD800 \<or> 0xE000 \<le> r \<and> r < 0x10000 then [r]
      else if 0x10000 \<le> r \<and> r \<le> 0x10FFFF then [0xD800 + (r - 0x10000) div 0x400, 0xDC00 + (r - 0x10000) mod 0x400]
      else [0xFFFD]) @ utf16_encode rs"

definition toUTF16LE :: "nat list \<Rightarrow> nat list" where
  "toUTF16LE rs = concat (map (\<lambda>u. [u mod 256, u div 256]) (0xFEFF # utf16_encode rs))"

text \<open>How the task scheduler reads such a file: the byte order mark, then units and surrogate pairs.\<close>

fun unitsLE :: "nat list \<Rightarrow> nat list option" where
  "unitsLE [] = Some []"
| "unitsLE [b] = None"
| "unitsLE (lo # hi # bs) = map_option (\<lambda>us. (lo + 256 * hi) # us) (unitsLE bs)"

fun utf16_decode :: "nat list \<Rightarrow> nat list option" where
  "utf16_decode [] = Some []"
| "utf16_decode (u # us) =
     (if u < 0xD800 \<or> 0xE000 \<le> u then map_option (\<lambda>rs. u # rs) (utf16_decode us)
      else (case us of
          v # vs \<Rightarrow> if u < 0xDC00 \<and> 0xDC00 \<le> v \<and> v < 0xE000
            then map_option (\<lambda>rs. (0x10000 + (u - 0xD800) * 0x400 + (v - 0xDC00)) # rs) (utf16_decode vs) else None
        | [] \<Rightarrow> None))"

definition readUTF16LE :: "nat list \<Rightarrow> nat list option" where
  "readUTF16LE bs = (case unitsLE bs of Some (u # us) \<Rightarrow> if u = 0xFEFF then utf16_decode us else None | _ \<Rightarrow> None)"

definition validRune :: "nat \<Rightarrow> bool" where
  "validRune r \<longleftrightarrow> r < 0xD800 \<or> 0xE000 \<le> r \<and> r \<le> 0x10FFFF"

lemma utf16_encode_units: "u \<in> set (utf16_encode rs) \<Longrightarrow> u < 65536"
proof (induction rs)
  case (Cons r rs)
  have "(r - 0x10000) div 0x400 < 0x400" if "r \<le> 0x10FFFF" using that by auto
  moreover have "(r - 0x10000) mod 0x400 < 0x400" by simp
  ultimately show ?case using Cons by (auto split: if_splits)
qed simp

lemma unitsLE_bytes: "unitsLE (concat (map (\<lambda>u. [u mod 256, u div 256]) us)) = Some us"
  by (induction us) auto

lemma utf16_decode_encode: "list_all validRune rs \<Longrightarrow> utf16_decode (utf16_encode rs) = Some rs"
proof (induction rs)
  case (Cons r rs)
  have small: "(r - 0x10000) div 0x400 < 0x400" "(r - 0x10000) mod 0x400 < 0x400" if "r \<le> 0x10FFFF" using that by auto
  have whole: "(r - 0x10000) div 0x400 * 0x400 + (r - 0x10000) mod 0x400 + 0x10000 = r" if "0x10000 \<le> r" using that by simp
  have "validRune r" using Cons.prems by simp
  then consider (unit) "r < 0xD800 \<or> 0xE000 \<le> r \<and> r < 0x10000" | (pair) "0x10000 \<le> r" "r \<le> 0x10FFFF"
    unfolding validRune_def by linarith
  then show ?case
  proof cases
    case unit
    then show ?thesis using Cons by auto
  next
    case pair
    then show ?thesis using Cons small [OF pair(2)] whole [OF pair(1)]
      by (simp add: add.commute add.left_commute)
  qed
qed simp

text \<open>
  A task definition written for Windows reads back as the text it was made from: every code point comes back, those
  beyond the basic plane as surrogate pairs, and every element written is a byte.
\<close>

theorem task_file_reads_back:
  assumes "list_all validRune rs"
  shows "readUTF16LE (toUTF16LE rs) = Some rs \<and> list_all (\<lambda>b. b < 256) (toUTF16LE rs)"
proof -
  have "unitsLE (toUTF16LE rs) = Some (0xFEFF # utf16_encode rs)"
    unfolding toUTF16LE_def by (rule unitsLE_bytes)
  moreover have "u div 256 < 256" if "u \<in> set (0xFEFF # utf16_encode rs)" for u
    using utf16_encode_units [of u rs] that by auto
  ultimately show ?thesis
    using utf16_decode_encode [OF assms] by (auto simp: readUTF16LE_def toUTF16LE_def list_all_iff)
qed

theorem task_file_reads_back_witness: "readUTF16LE (toUTF16LE [0x3C, 0x1F600]) = Some [0x3C, 0x1F600]"
  using task_file_reads_back [of "[0x3C, 0x1F600]"] by (simp add: validRune_def)

section \<open>Witnesses\<close>

definition demo_join :: "string list \<Rightarrow> string" where "demo_join ps = joinWith ''/'' ps"

definition demo_environ :: "string list" where
  "demo_environ = [''RFM_AGENT_DIR=/a b'', ''HOME=/h'', ''RFM_AGENT_SETTINGS_ADDR=off'', ''RFM_AGENT_ADDR=:9000'']"

definition demo_input :: "string \<Rightarrow> planInput" where
  "demo_input exe = \<lparr>pi_goos = ''linux'', pi_exe = exe, pi_dir = ''/a'', pi_home = ''/h'', pi_user = [], pi_env = []\<rparr>"

lemma demo_pairs: "environPairs demo_environ = [(''RFM_AGENT_DIR'', ''/a b''), (''HOME'', ''/h''),
    (''RFM_AGENT_SETTINGS_ADDR'', ''off''), (''RFM_AGENT_ADDR'', '':9000'')]"
  by (simp add: environPairs_def demo_environ_def List.map_filter_simps cutAt_def)

lemma demo_serviceEnv: "serviceEnv demo_environ = [(''RFM_AGENT_ADDR'', '':9000''), (''RFM_AGENT_DIR'', ''/a b''), (''RFM_AGENT_SETTINGS_ADDR'', ''off'')]"
  by (simp add: serviceEnv_pairs demo_pairs hasPrefix_def envPrefix_def sortPairs_def byte_def)

theorem installed_service_keeps_settings_witness:
  "agent_loadConfig ''darwin''
     (fold os_Setenv (fst (applyEnvArgs (envArgs (withLogFile demo_join (serviceEnv demo_environ) ''/a b'' ''run''))))
        (\<lambda>k. if hasPrefix k envPrefix then [] else os_Getenv demo_environ k)) demo_join None (\<lambda>_. Some 0) =
   Inr \<lparr>ac_dir = ''/a b'', ac_addr = '':9000'', ac_settings = [], ac_keystore = ''auto'', ac_mdns = True, ac_tunnel = True,
     ac_logLevel = 0, ac_logFile = ''/a b/agent.log''\<rparr>"
proof -
  define cfg where "cfg = \<lparr>ac_dir = ''/a b'', ac_addr = '':9000'', ac_settings = [], ac_keystore = ''auto'',
    ac_mdns = True, ac_tunnel = True, ac_logLevel = 0, ac_logFile = []\<rparr>"
  have cfg: "agent_loadConfig ''darwin'' (os_Getenv demo_environ) demo_join None (\<lambda>_. Some 0) = Inr cfg"
    by (simp add: agent_loadConfig_def agentEnv_def os_Getenv_def demo_pairs cfg_def)
  have dist: "distinct (map fst (environPairs demo_environ))" by (simp add: demo_pairs)
  have plan: "\<exists>p. currentPlan demo_join ''darwin'' (os_Getenv demo_environ) demo_environ (Some ''/bin/agent'') [] None (Some ''/h'') ''/a b'' = Some p \<and>
      (\<exists>label path bin stderr. pf_body (hd (sp_files p)) =
         LaunchdJob label path ''run'' bin stderr (envArgs (withLogFile demo_join (serviceEnv demo_environ) ''/a b'' ''run'')))"
    by (simp add: currentPlan_def temporaryBuild_def servicePlanFor_def darwinPlan_def Let_def)
  then have "agent_loadConfig ''darwin''
     (fold os_Setenv (fst (applyEnvArgs (envArgs (withLogFile demo_join (serviceEnv demo_environ) ''/a b'' ''run''))))
        (\<lambda>k. if hasPrefix k envPrefix then [] else os_Getenv demo_environ k)) demo_join None (\<lambda>_. Some 0) =
     Inr (if hasKey (serviceEnv demo_environ) ''RFM_AGENT_LOG_FILE'' then cfg else cfg\<lparr>ac_logFile := demo_join [''/a b'', ''agent.log'']\<rparr>)"
    using installed_service_keeps_settings [OF _ _ dist refl cfg] by blast
  then show ?thesis by (simp add: demo_serviceEnv hasKey_def cfg_def demo_join_def)
qed

theorem uninstall_undoes_install_witness:
  "\<exists>fs1 log log'. installService (servicePlanFor demo_join (demo_input ''/old'')) True (\<lambda>_. True) ''u'' (\<lambda>_. False) (Map.empty) = (False, fs1, log) \<and>
     fs1 \<noteq> Map.empty \<and>
     uninstallService (servicePlanFor demo_join (demo_input ''/new'')) (\<lambda>_. True) ''u'' (\<lambda>_. False) fs1 = (True, Map.empty, log')"
proof -
  obtain p where p: "servicePlanFor demo_join (demo_input ''/old'') = Some p" "p = linuxPlan demo_join (demo_input ''/old'')"
    by (simp add: servicePlanFor_def demo_input_def)
  obtain p' where p': "servicePlanFor demo_join (demo_input ''/new'') = Some p'"
    by (simp add: servicePlanFor_def demo_input_def)
  obtain fs1 log where run: "installService (Some p) True (\<lambda>_. True) ''u'' (\<lambda>_. False) Map.empty = (False, fs1, log)" "fs1 \<noteq> Map.empty"
  proof (cases "installService (Some p) True (\<lambda>_. True) ''u'' (\<lambda>_. False) Map.empty")
    case (fields ok fs1 log)
    then have "\<not> ok" by (simp add: installService_def p(2) linuxPlan_def Let_def cmd_def)
    moreover have "fs1 \<noteq> Map.empty"
      using fields [symmetric] by (simp add: installService_def p(2) linuxPlan_def Let_def cmd_def)
    ultimately show ?thesis using that fields by simp
  qed
  have same: "pi_goos (demo_input ''/old'') = pi_goos (demo_input ''/new'')" "pi_home (demo_input ''/old'') = pi_home (demo_input ''/new'')"
    "pi_dir (demo_input ''/old'') = pi_dir (demo_input ''/new'')" by (simp_all add: demo_input_def)
  have none: "Map.empty |` (- set (planPaths p)) = Map.empty" by simp
  show ?thesis
    using uninstall_undoes_install [OF p(1) p' same run(1), unfolded none] run p(1) p' by metis
qed

theorem install_success_is_complete_witness:
  "\<exists>fs' log. installService (servicePlanFor demo_join (demo_input ''/old'')) True (\<lambda>_. True) ''u'' (\<lambda>_. True) Map.empty = (True, fs', log) \<and>
     log = map (argvOf ''u'') (sp_install (linuxPlan demo_join (demo_input ''/old'')))"
proof -
  let ?p = "linuxPlan demo_join (demo_input ''/old'')"
  have p: "servicePlanFor demo_join (demo_input ''/old'') = Some ?p" by (simp add: servicePlanFor_def demo_input_def)
  have paths: "distinct (planPaths ?p)" by (simp add: planPaths_def linuxPlan_def Let_def demo_input_def demo_join_def serviceName_def)
  obtain fs' log where run: "installService (Some ?p) True (\<lambda>_. True) ''u'' (\<lambda>_. True) Map.empty = (True, fs', log)"
    by (auto simp: installService_def linuxPlan_def Let_def cmd_def)
  then show ?thesis using install_success_is_complete [OF p paths run] p by auto
qed

end
