(* ===== verification/Tray.thy ===== *)
theory Tray
  imports Service
begin

text \<open>
  The tray icon of \<^verbatim>\<open>device/agent/menubar_windows.go\<close>: the picture it draws and what the icon does with the messages of its
  window.  A sample point of the drawing is a fraction with denominator \<open>sz\<close>; compared with whole numbers it gives what
  the floating-point code gives, so it is written over the integers.
\<close>

section \<open>The picture\<close>

definition le16 :: "nat \<Rightarrow> nat list" where "le16 n = [n mod 256, n div 256 mod 256]"

definition le32 :: "nat \<Rightarrow> nat list" where
  "le32 n = [n mod 256, n div 256 mod 256, n div 65536 mod 256, n div 16777216 mod 256]"

text \<open>Whether the point \<open>u / sz\<close>, \<open>v / sz\<close> of the 24 unit square is on the laptop.\<close>

definition onLaptop :: "int \<Rightarrow> int \<Rightarrow> int \<Rightarrow> bool" where
  "onLaptop sz u v \<longleftrightarrow>
     (2 * sz \<le> u \<and> u \<le> 22 * sz \<and> 4 * sz \<le> v \<and> v \<le> 18 * sz \<and>
        \<not> (4 * sz < u \<and> u < 20 * sz \<and> 6 * sz < v \<and> v < 16 * sz)) \<or>
     (18 * sz \<le> v \<and> v \<le> 20 * sz)"

definition samplePoint :: "nat \<Rightarrow> nat \<Rightarrow> int" where
  "samplePoint x i = 3 * (8 * int x + 2 * int i + 1)"

definition laptopCoverage :: "nat \<Rightarrow> nat \<Rightarrow> nat \<Rightarrow> nat" where
  "laptopCoverage x y sz =
     (let hits = length (filter (\<lambda>(i, j). onLaptop (int sz) (samplePoint x i) (samplePoint y j)) (List.product [0..<4] [0..<4]))
      in hits * 255 div 16)"

definition maskRow :: "nat \<Rightarrow> nat" where "maskRow sz = (sz + 31) div 32 * 4"

definition iconPixels :: "nat \<Rightarrow> nat \<times> nat \<times> nat \<Rightarrow> nat list list" where
  "iconPixels sz rgb = (case rgb of (r, g, b) \<Rightarrow>
     concat (map (\<lambda>y. map (\<lambda>x. [b, g, r, laptopCoverage x y sz]) [0..<sz]) (rev [0..<sz])))"

definition iconResource :: "nat \<Rightarrow> nat \<times> nat \<times> nat \<Rightarrow> nat list" where
  "iconResource sz rgb = le32 40 @ le32 sz @ le32 (sz * 2) @ le16 1 @ le16 32 @ replicate 24 0 @
     concat (iconPixels sz rgb) @ replicate (maskRow sz * sz) 0"

text \<open>\<^verbatim>\<open>laptopIcon\<close>: the size the system asks for, sixteen when it says none, and the colour for the taskbar.\<close>

definition laptopIcon :: "nat \<Rightarrow> bool \<Rightarrow> nat \<times> nat list" where
  "laptopIcon metric light =
     (let sz = (if metric = 0 then 16 else metric) in
      (sz, iconResource sz (if light then (0x1D, 0x1B, 0x20) else (0xFF, 0xFF, 0xFF))))"

section \<open>The icon's window\<close>

definition wmSettingChange :: nat where "wmSettingChange = 0x1A"
definition wmLButtonUp :: nat where "wmLButtonUp = 0x202"
definition wmRButtonUp :: nat where "wmRButtonUp = 0x205"
definition wmTray :: nat where "wmTray = 0x8000 + 1"
definition idOpen :: nat where "idOpen = 1"
definition idQuit :: nat where "idQuit = 2"

text \<open>
  The icon in the notification area, by the taskbar's colour it was drawn for; how often the page was opened; whether the
  program has ended.  A call on the shell works or does not.
\<close>

record tray =
  ty_created :: nat
  ty_icon :: "bool option"
  ty_opened :: nat
  ty_ended :: bool

definition addIcon :: "bool \<Rightarrow> bool \<Rightarrow> tray \<Rightarrow> tray" where
  "addIcon shell light t = (if shell \<and> ty_icon t = None then t\<lparr>ty_icon := Some light\<rparr> else t)"

definition redrawIcon :: "bool \<Rightarrow> bool \<Rightarrow> tray \<Rightarrow> tray" where
  "redrawIcon shell light t = (if shell \<and> ty_icon t \<noteq> None then t\<lparr>ty_icon := Some light\<rparr> else t)"

definition removeIcon :: "tray \<Rightarrow> tray" where "removeIcon t = t\<lparr>ty_icon := None\<rparr>"

definition chooseFrom :: "nat \<Rightarrow> tray \<Rightarrow> tray" where
  "chooseFrom chosen t =
     (if chosen = idOpen then t\<lparr>ty_opened := ty_opened t + 1\<rparr>
      else if chosen = idQuit then (removeIcon t)\<lparr>ty_ended := True\<rparr> else t)"

text \<open>\<^verbatim>\<open>proc\<close>; \<open>chosen\<close> is what the menu gave.\<close>

definition tray_proc :: "bool \<Rightarrow> bool \<Rightarrow> nat \<Rightarrow> nat \<Rightarrow> nat \<Rightarrow> tray \<Rightarrow> tray" where
  "tray_proc shell light chosen message lparam t =
     (if message = wmTray \<and> (lparam = wmLButtonUp \<or> lparam = wmRButtonUp) then chooseFrom chosen t
      else if message = ty_created t \<and> ty_created t \<noteq> 0 then addIcon shell light t
      else if message = wmSettingChange then redrawIcon shell light t
      else t)"

section \<open>What is drawn\<close>

lemma le_lengths [simp]: "length (le16 n) = 2" "length (le32 n) = 4"
  by (simp_all add: le16_def le32_def)

lemma coverage_byte: "laptopCoverage x y sz \<le> 255"
proof -
  have "length (filter (\<lambda>(i, j). onLaptop (int sz) (samplePoint x i) (samplePoint y j)) (List.product [0..<4] [0..<4])) \<le> 16"
    by (rule order_trans [OF length_filter_le]) (simp add: length_product)
  then show ?thesis by (simp add: laptopCoverage_def Let_def)
qed

text \<open>The drawing is the same from the right: the sample points of a pixel and of its mirror image are mirrored.\<close>

lemma sample_mirror: "x < sz \<Longrightarrow> i < 4 \<Longrightarrow> samplePoint (sz - 1 - x) (3 - i) = 24 * int sz - samplePoint x i"
  by (simp add: samplePoint_def of_nat_diff algebra_simps)

lemma onLaptop_mirror: "onLaptop sz (24 * sz - u) v = onLaptop sz u v"
  by (auto simp: onLaptop_def)

lemma count_samples:
  "length (filter (\<lambda>(i, j). P i j) (List.product [0..<4] [0..<4])) =
    (\<Sum>j \<leftarrow> [0..<4]. of_bool (P 0 j) + of_bool (P 1 j) + of_bool (P 2 j) + of_bool (P (3 :: nat) j :: bool))"
proof -
  have count: "length (filter Q xs) = (\<Sum>x \<leftarrow> xs. of_bool (Q x))" for Q :: "nat \<times> nat \<Rightarrow> bool" and xs
    by (induction xs) auto
  have "[0..<4] = [0, 1, 2, 3 :: nat]" by (simp add: upt_rec)
  then show ?thesis unfolding count by simp
qed

lemma coverage_mirror:
  assumes "x < sz"
  shows "laptopCoverage (sz - 1 - x) y sz = laptopCoverage x y sz"
proof -
  have mirror: "onLaptop (int sz) (samplePoint (sz - 1 - x) (3 - i)) v = onLaptop (int sz) (samplePoint x i) v" if "i < 4" for i v
    using sample_mirror [OF assms that] onLaptop_mirror by simp
  have "onLaptop (int sz) (samplePoint (sz - 1 - x) 0) v = onLaptop (int sz) (samplePoint x 3) v"
    "onLaptop (int sz) (samplePoint (sz - 1 - x) 1) v = onLaptop (int sz) (samplePoint x 2) v"
    "onLaptop (int sz) (samplePoint (sz - 1 - x) 2) v = onLaptop (int sz) (samplePoint x 1) v"
    "onLaptop (int sz) (samplePoint (sz - 1 - x) 3) v = onLaptop (int sz) (samplePoint x 0) v" for v
    using mirror [of 3 v] mirror [of 2 v] mirror [of 1 v] mirror [of 0 v] by simp_all
  then show ?thesis
    unfolding laptopCoverage_def Let_def count_samples by (simp only: add.commute add.left_commute)
qed

lemma concat_blocks:
  "(\<And>x. x \<in> set xs \<Longrightarrow> length x = k) \<Longrightarrow> length (concat xs) = k * length xs"
  "(\<And>x. x \<in> set xs \<Longrightarrow> length x = k) \<Longrightarrow> i < length xs \<Longrightarrow> take k (drop (k * i) (concat xs)) = xs ! i"
proof -
  show "(\<And>x. x \<in> set xs \<Longrightarrow> length x = k) \<Longrightarrow> length (concat xs) = k * length xs" by (induction xs) auto
  show "(\<And>x. x \<in> set xs \<Longrightarrow> length x = k) \<Longrightarrow> i < length xs \<Longrightarrow> take k (drop (k * i) (concat xs)) = xs ! i"
  proof (induction xs arbitrary: i)
    case (Cons x xs)
    then show ?case by (cases i) auto
  qed simp
qed

lemma iconPixels_shape:
  "length (iconPixels sz rgb) = sz * sz" "px \<in> set (iconPixels sz rgb) \<Longrightarrow> length px = 4"
  by (auto simp: iconPixels_def length_concat comp_def sum_list_triv split: prod.splits)

lemma iconPixels_nth:
  assumes "x < sz" "y < sz"
  shows "iconPixels sz (r, g, b) ! ((sz - 1 - y) * sz + x) = [b, g, r, laptopCoverage x y sz]"
proof -
  let ?rows = "map (\<lambda>y. map (\<lambda>x. [b, g, r, laptopCoverage x y sz]) [0..<sz]) (rev [0..<sz])"
  have len: "row \<in> set ?rows \<Longrightarrow> length row = sz" for row by auto
  have i: "sz - 1 - y < length ?rows" using assms by simp
  have "take sz (drop (sz * (sz - 1 - y)) (concat ?rows)) = ?rows ! (sz - 1 - y)" by (rule concat_blocks(2) [OF len i])
  also have "?rows ! (sz - 1 - y) = map (\<lambda>x. [b, g, r, laptopCoverage x y sz]) [0..<sz]"
    using assms by (simp add: rev_nth)
  finally have row: "take sz (drop (sz * (sz - 1 - y)) (concat ?rows)) ! x = [b, g, r, laptopCoverage x y sz]"
    using assms(1) by simp
  have "length (concat ?rows) = sz * length ?rows" by (rule concat_blocks(1)) (rule len)
  then have "length (concat ?rows) = sz * sz" by (simp only: length_map length_rev length_upt diff_zero)
  moreover have "sz * (sz - 1 - y) \<le> sz * sz" by simp
  ultimately show ?thesis
    using row assms(1) by (simp add: iconPixels_def mult.commute)
qed

text \<open>
  The icon is a well-formed resource.  For every size the bytes are a forty byte header, four bytes for each pixel and
  a mask of whole 32 bit rows, every one of them a byte; pixel \<open>(x, y)\<close> stands in the row from the bottom and carries the
  colour and its coverage; and the picture is its own mirror image.
\<close>

theorem icon_well_formed:
  assumes "x < sz" "y < sz" "r < 256" "g < 256" "b < 256"
  shows "length (iconResource sz (r, g, b)) = 40 + 4 * (sz * sz) + maskRow sz * sz \<and> 8 * maskRow sz \<ge> sz \<and>
    take 4 (drop (40 + 4 * ((sz - 1 - y) * sz + x)) (iconResource sz (r, g, b))) = [b, g, r, laptopCoverage x y sz] \<and>
    list_all (\<lambda>v. v < 256) (iconResource sz (r, g, b)) \<and> laptopCoverage (sz - 1 - x) y sz = laptopCoverage x y sz"
proof -
  let ?px = "iconPixels sz (r, g, b)" and ?i = "(sz - 1 - y) * sz + x"
  let ?head = "le32 40 @ le32 sz @ le32 (sz * 2) @ le16 1 @ le16 32 @ replicate 24 0"
  have res: "iconResource sz (r, g, b) = ?head @ concat ?px @ replicate (maskRow sz * sz) 0" by (simp add: iconResource_def)
  have head: "length ?head = 40" by simp
  have body: "length (concat ?px) = 4 * (sz * sz)"
    using concat_blocks(1) [of ?px 4] iconPixels_shape [where rgb = "(r, g, b)"] by simp
  have "?i < sz * sz"
  proof -
    have "?i < (sz - 1 - y) * sz + sz" using assms(1) by simp
    also have "\<dots> = Suc (sz - 1 - y) * sz" by simp
    also have "Suc (sz - 1 - y) = sz - y" using assms(2) by simp
    also have "(sz - y) * sz \<le> sz * sz" by simp
    finally show ?thesis .
  qed
  then have i: "?i < length ?px" by (simp add: iconPixels_shape)
  have "take 4 (drop (4 * ?i) (concat ?px)) = [b, g, r, laptopCoverage x y sz]"
    using concat_blocks(2) [OF iconPixels_shape(2) i] iconPixels_nth [OF assms(1,2)] by simp
  moreover have "4 * ?i + 4 \<le> length (concat ?px)" using i by (simp add: body iconPixels_shape)
  ultimately have pixel: "take 4 (drop (40 + 4 * ?i) (iconResource sz (r, g, b))) = [b, g, r, laptopCoverage x y sz]"
    unfolding res using head by (simp del: length_concat)
  have bytes: "list_all (\<lambda>v. v < 256) (concat ?px)"
    using assms(3-5) coverage_byte by (auto simp: list_all_iff iconPixels_def le_less_trans [of _ 255])
  have "list_all (\<lambda>v. v < 256) (iconResource sz (r, g, b))"
    unfolding res using bytes by (auto simp: list_all_iff le32_def le16_def)
  moreover have "8 * maskRow sz \<ge> sz" unfolding maskRow_def by linarith
  ultimately show ?thesis
    using pixel coverage_mirror [OF assms(1)] head body by (simp add: res del: length_concat)
qed

theorem icon_well_formed_witness: "length (iconResource 16 (255, 255, 255)) = 1128 \<and> laptopCoverage 15 8 16 = laptopCoverage 0 8 16"
  using icon_well_formed [of 0 16 8 255 255 255] by (simp add: maskRow_def)

section \<open>The icon's program\<close>

text \<open>\<^verbatim>\<open>lightTaskbar\<close>: whether the key opens, and the value in it.\<close>

definition lightTaskbar :: "bool \<Rightarrow> nat option \<Rightarrow> bool" where
  "lightTaskbar opens v \<longleftrightarrow> opens \<and> v = Some 1"

text \<open>
  \<^verbatim>\<open>create\<close> and the first \<^verbatim>\<open>show\<close>: without a window there is no program; without a taskbar the icon waits for one.
  \<open>created\<close> is the number the system gives the message of a new taskbar, zero when it gives none.
\<close>

definition tray_create :: "bool \<Rightarrow> bool \<Rightarrow> nat \<Rightarrow> bool \<Rightarrow> bool \<Rightarrow> tray option" where
  "tray_create class window created shell light =
     (if \<not> class \<or> \<not> window then None
      else Some (addIcon shell light \<lparr>ty_created = created, ty_icon = None, ty_opened = 0, ty_ended = False\<rparr>))"

text \<open>
  What happens to the program: a message of its window, explorer restarting, which takes all icons away, a stop signal, and
  a message loop that ends.
\<close>

datatype trayEvent = Message bool bool nat nat nat | ExplorerRestarts | StopSignal | LoopEnds

fun trayStep :: "trayEvent \<Rightarrow> tray \<Rightarrow> tray" where
  "trayStep (Message shell light chosen message lparam) t = (if ty_ended t then t else tray_proc shell light chosen message lparam t)"
| "trayStep ExplorerRestarts t = t\<lparr>ty_icon := None\<rparr>"
| "trayStep StopSignal t = (if ty_ended t then t else (removeIcon t)\<lparr>ty_ended := True\<rparr>)"
| "trayStep LoopEnds t = t\<lparr>ty_ended := True\<rparr>"

lemma tray_proc_keeps: "ty_created (tray_proc shell light chosen message lparam t) = ty_created t"
  by (simp add: tray_proc_def chooseFrom_def addIcon_def redrawIcon_def removeIcon_def)

lemma trayStep_ok:
  "e \<noteq> LoopEnds \<Longrightarrow> (ty_ended t \<longrightarrow> ty_icon t = None) \<Longrightarrow>
   (ty_ended (trayStep e t) \<longrightarrow> ty_icon (trayStep e t) = None) \<and> ty_created (trayStep e t) = ty_created t"
  by (cases e) (auto simp: tray_proc_def chooseFrom_def addIcon_def redrawIcon_def removeIcon_def)

lemma trayRun_ok:
  "LoopEnds \<notin> set es \<Longrightarrow> (ty_ended t \<longrightarrow> ty_icon t = None) \<Longrightarrow>
   (ty_ended (fold trayStep es t) \<longrightarrow> ty_icon (fold trayStep es t) = None) \<and> ty_created (fold trayStep es t) = ty_created t"
proof (induction es arbitrary: t)
  case (Cons e es)
  then have "e \<noteq> LoopEnds" "LoopEnds \<notin> set es" by auto
  then show ?case using trayStep_ok [of e t] Cons.IH [of "trayStep e t"] Cons.prems(2) by simp
qed simp

text \<open>
  The icon is there while the program runs and not after.  Whatever happens, once the program has ended by its menu or by a
  stop its icon is gone; and while it runs, explorer coming back or a change between light and dark leaves an icon in the
  taskbar's present colour.
\<close>

theorem icon_follows_the_taskbar:
  assumes start: "tray_create class window created shell0 light0 = Some t0" and run: "LoopEnds \<notin> set es" "t = fold trayStep es t0"
    and number: "created \<noteq> 0" "created \<noteq> wmTray" "created \<noteq> wmSettingChange"
  shows "(ty_ended t \<longrightarrow> ty_icon t = None) \<and>
    (\<not> ty_ended t \<longrightarrow> (\<forall>light. ty_icon (fold trayStep [ExplorerRestarts, Message True light 0 created 0] t) = Some light \<and>
       (ty_icon t \<noteq> None \<longrightarrow> ty_icon (trayStep (Message True light 0 wmSettingChange 0) t) = Some light)))"
proof -
  have "\<not> ty_ended t0 \<and> ty_created t0 = created" using start by (auto simp: tray_create_def addIcon_def split: if_splits)
  then have "(ty_ended t \<longrightarrow> ty_icon t = None) \<and> ty_created t = created" using trayRun_ok [of es t0] run by simp
  then show ?thesis
    using number by (auto simp: tray_proc_def addIcon_def redrawIcon_def wmTray_def wmSettingChange_def)
qed

theorem icon_follows_the_taskbar_witness:
  "ty_icon (fold trayStep [ExplorerRestarts, Message True True 0 0xC123 0]
     \<lparr>ty_created = 0xC123, ty_icon = Some False, ty_opened = 0, ty_ended = False\<rparr>) = Some True"
proof -
  let ?t = "\<lparr>ty_created = 0xC123, ty_icon = Some False, ty_opened = 0, ty_ended = False\<rparr>"
  have "tray_create True True 0xC123 True False = Some ?t" by (simp add: tray_create_def addIcon_def)
  from icon_follows_the_taskbar [OF this, of "[]" ?t] show ?thesis by (simp add: wmTray_def wmSettingChange_def del: fold_simps)
qed

section \<open>Quit\<close>

text \<open>\<^verbatim>\<open>quitFromMenu\<close>: the commands of the plan, and then the program ends whatever they gave.\<close>

definition quitFromMenu :: "servicePlan option \<Rightarrow> string \<Rightarrow> (string list \<Rightarrow> bool) \<Rightarrow> tray \<Rightarrow> string list list \<times> tray" where
  "quitFromMenu plan user works t =
     ((case plan of None \<Rightarrow> [] | Some p \<Rightarrow> fst (runPlan user works (sp_quit p))), t\<lparr>ty_ended := True\<rparr>)"

text \<open>
  Quitting never stops half way.  On every system each command that switches the service off is run, in order, whichever of
  them fail, and the icon's program ends.
\<close>

theorem quit_runs_every_command:
  assumes "servicePlanFor joinPath i = Some p"
  shows "fst (quitFromMenu (Some p) user works t) = map (argvOf user) (sp_quit p) \<and> ty_ended (snd (quitFromMenu (Some p) user works t))"
proof -
  obtain log ok where run: "runPlan user works (sp_quit p) = (log, ok)" by (cases "runPlan user works (sp_quit p)")
  have "\<forall>c \<in> set (sp_quit p). pc_optional c"
    using assms by (auto simp: servicePlanFor_def darwinPlan_def linuxPlan_def windowsPlan_def Let_def cmd_def split: if_splits)
  then show ?thesis using runPlan_outcome [OF run] run by (simp add: quitFromMenu_def)
qed

theorem quit_runs_every_command_witness:
  "length (fst (quitFromMenu (Some (darwinPlan demo_join (demo_input ''/a''))) ''u'' (\<lambda>_. False) \<lparr>ty_created = 0, ty_icon = None, ty_opened = 0, ty_ended = False\<rparr>)) = 2"
proof -
  have "servicePlanFor demo_join ((demo_input ''/a'')\<lparr>pi_goos := ''darwin''\<rparr>) = Some (darwinPlan demo_join ((demo_input ''/a'')\<lparr>pi_goos := ''darwin''\<rparr>))"
    by (simp add: servicePlanFor_def)
  then show ?thesis
    using quit_runs_every_command [of demo_join _ _ "''u''" "\<lambda>_. False" "\<lparr>ty_created = 0, ty_icon = None, ty_opened = 0, ty_ended = False\<rparr>"]
    by (fastforce simp: darwinPlan_def Let_def demo_input_def)
qed

end
