(* ===== verification/Commands.thy ===== *)
theory Commands
  imports Paths Service
begin

text \<open>
  The command line: \<^verbatim>\<open>device/agent/share.go\<close> and the commands of \<^verbatim>\<open>login.go\<close> and \<^verbatim>\<open>main.go\<close>.  A command finds out whether an agent
  serves this PC and goes through its settings endpoint, or works on the registry itself.  The machine is what both
  find: the agent that runs, whether its endpoint listens, the token and the file.
\<close>

section \<open>A command and the machine it runs on\<close>

record machine =
  mc_agent :: "(settingsEnv \<times> agent) option"
  mc_listens :: bool
  mc_disk :: disk
  mc_token :: tokenFile

definition diskOf :: "machine \<Rightarrow> disk" where
  "diskOf m = (case mc_agent m of None \<Rightarrow> mc_disk m | Some (_, ag) \<Rightarrow> ag_disk ag)"

definition setDisk :: "disk \<Rightarrow> machine \<Rightarrow> machine" where
  "setDisk d m = (case mc_agent m of None \<Rightarrow> m\<lparr>mc_disk := d\<rparr> | Some (se, ag) \<Rightarrow> m\<lparr>mc_agent := Some (se, ag\<lparr>ag_disk := d\<rparr>)\<rparr>)"

text \<open>
  What the command's own process has: its settings, its working directory and file system, a free port, random bytes,
  and of the HTTP library the method a redirected request is sent with and how a query is taken apart.
\<close>

record cmdenv =
  cm_settings :: string
  cm_env :: agentenv
  cm_os :: osenv
  cm_hostname :: "string option"
  cm_freePort :: "nat option"
  cm_rnd :: "string option"
  cm_redirected :: "string \<Rightarrow> string"
  cm_query :: "string \<Rightarrow> (string \<times> string) list"

datatype cliErr = NoSettingsToken | BadRequestURL | RefusedBy nat | UnreadableAnswer | AgentErr aerr | Usage | UnknownCommand string
  | NoPage | NoKey | SignInFailed aerr

section \<open>The settings client\<close>

record settingsClient =
  cl_host :: string
  cl_token :: string

definition dialSettings :: "cmdenv \<Rightarrow> machine \<Rightarrow> (cliErr + settingsClient option) \<times> machine" where
  "dialSettings cm m =
     (if cm_settings cm = [] then (Inr None, m)
      else if mc_agent m = None \<or> \<not> mc_listens m then (Inr None, m)
      else (case settingsToken (cm_rnd cm) (mc_token m) of
          (None, f) \<Rightarrow> (Inl NoSettingsToken, m\<lparr>mc_token := f\<rparr>)
        | (Some t, f) \<Rightarrow> (Inr (Some \<lparr>cl_host = cm_settings cm, cl_token = t\<rparr>), m\<lparr>mc_token := f\<rparr>)))"

definition clientRequest :: "cmdenv \<Rightarrow> settingsClient \<Rightarrow> string \<Rightarrow> string \<times> string \<times> string \<Rightarrow> settingsRequest" where
  "clientRequest cm c meth u = (case u of (path, escaped, q) \<Rightarrow>
     \<lparr>sq_method = meth, sq_host = cl_host c, sq_path = path, sq_escaped = escaped,
      sq_headers = [(''Authorization'', ''Bearer '' @ cl_token c), (''Content-Type'', ''application/json'')], sq_query = cm_query cm q\<rparr>)"

definition client_do :: "cmdenv \<Rightarrow> settingsClient \<Rightarrow> string \<Rightarrow> string \<Rightarrow> settingsInput \<Rightarrow> machine \<Rightarrow> (cliErr + settingsAnswer) \<times> machine" where
  "client_do cm c meth path i m = (case (parsePath path, mc_agent m) of
      (Some u, Some (se, ag)) \<Rightarrow>
        (case settings_ServeHTTP se i (clientRequest cm c meth u) ag of
          (Moved p, ag1) \<Rightarrow>
            (case parsePath p of None \<Rightarrow> (Inl BadRequestURL, m)
             | Some u' \<Rightarrow> (case settings_ServeHTTP se i (clientRequest cm c (cm_redirected cm meth) u') ag1 of
                 (ErrorStatus n, ag2) \<Rightarrow> (Inl (RefusedBy n), m\<lparr>mc_agent := Some (se, ag2)\<rparr>)
               | (a, ag2) \<Rightarrow> (Inr a, m\<lparr>mc_agent := Some (se, ag2)\<rparr>)))
        | (ErrorStatus n, ag1) \<Rightarrow> (Inl (RefusedBy n), m\<lparr>mc_agent := Some (se, ag1)\<rparr>)
        | (a, ag1) \<Rightarrow> (Inr a, m\<lparr>mc_agent := Some (se, ag1)\<rparr>))
    | _ \<Rightarrow> (Inl BadRequestURL, m))"

definition bodyInput :: "cmdenv \<Rightarrow> nat option \<Rightarrow> settingsBody \<Rightarrow> settingsInput" where
  "bodyInput cm port body = \<lparr>si_body = body, si_freePort = port, si_latest = [], si_lan = LanFine\<rparr>"

section \<open>share\<close>

text \<open>The free port is whichever process asks for it, so it is one argument.\<close>

definition currentShares :: "cmdenv \<Rightarrow> machine \<Rightarrow> (cliErr + share list) \<times> machine" where
  "currentShares cm m = (case dialSettings cm m of
      (Inl e, m1) \<Rightarrow> (Inl e, m1)
    | (Inr None, m1) \<Rightarrow>
        (case loadState (ae_url (cm_env cm)) (ae_codec (cm_env cm)) (cm_hostname cm) (diskOf m1) of
           (Inl e, d) \<Rightarrow> (Inl (AgentErr e), setDisk d m1)
         | (Inr st, d) \<Rightarrow> (Inr (shares (cm_os cm) (st_apps st)), setDisk d m1))
    | (Inr (Some c), m1) \<Rightarrow>
        (case client_do cm c ''GET'' ''/v1/apps'' (bodyInput cm None NoBody) m1 of
           (Inl e, m2) \<Rightarrow> (Inl e, m2)
         | (Inr (Shares ss), m2) \<Rightarrow> (Inr ss, m2)
         | (Inr _, m2) \<Rightarrow> (Inl UnreadableAnswer, m2)))"

definition addShareTo :: "cmdenv \<Rightarrow> string \<Rightarrow> string \<Rightarrow> machine \<Rightarrow> (cliErr + share) \<times> machine" where
  "addShareTo cm dir name m = (case dialSettings cm m of
      (Inl e, m1) \<Rightarrow> (Inl e, m1)
    | (Inr None, m1) \<Rightarrow>
        (case addShareOffline (ae_url (cm_env cm)) (ae_codec (cm_env cm)) (cm_hostname cm) (ae_lib (cm_env cm)) (cm_os cm) (cm_freePort cm)
             dir name (diskOf m1) of
           (Inl e, d) \<Rightarrow> (Inl (AgentErr e), setDisk d m1)
         | (Inr s, d) \<Rightarrow> (Inr s, setDisk d m1))
    | (Inr (Some c), m1) \<Rightarrow>
        (case client_do cm c ''POST'' ''/v1/apps'' (bodyInput cm (cm_freePort cm) (ShareBody dir name)) m1 of
           (Inl e, m2) \<Rightarrow> (Inl e, m2)
         | (Inr (AShare s), m2) \<Rightarrow> (Inr s, m2)
         | (Inr _, m2) \<Rightarrow> (Inl UnreadableAnswer, m2)))"

definition removeShareFrom :: "cmdenv \<Rightarrow> string \<Rightarrow> machine \<Rightarrow> cliErr option \<times> machine" where
  "removeShareFrom cm name m = (case dialSettings cm m of
      (Inl e, m1) \<Rightarrow> (Some e, m1)
    | (Inr None, m1) \<Rightarrow>
        (case removeShareOffline (ae_url (cm_env cm)) (ae_codec (cm_env cm)) (cm_hostname cm) name (diskOf m1) of
           (Some e, d) \<Rightarrow> (Some (AgentErr e), setDisk d m1) | (None, d) \<Rightarrow> (None, setDisk d m1))
    | (Inr (Some c), m1) \<Rightarrow>
        (case client_do cm c ''DELETE'' (''/v1/apps/'' @ name) (bodyInput cm None NoBody) m1 of
           (Inl e, m2) \<Rightarrow> (Some e, m2) | (Inr _, m2) \<Rightarrow> (None, m2)))"

text \<open>The \<^verbatim>\<open>flag\<close> package with the one option \<open>name\<close>, which takes a value: the value and the arguments left.\<close>

function parseFlags :: "string list \<Rightarrow> string \<Rightarrow> (string \<times> string list) option" where
  "parseFlags [] v = Some (v, [])"
| "parseFlags (s # args) v =
     (if length s < 2 \<or> hd s \<noteq> CHR ''-'' then Some (v, s # args)
      else if s = ''--'' then Some (v, args)
      else let n = (if s ! 1 = CHR ''-'' then drop 2 s else drop 1 s) in
        if n = [] \<or> hd n = CHR ''-'' \<or> hd n = CHR ''='' then None
        else (case cutAt (CHR ''='') n of (k, x, hasValue) \<Rightarrow>
          if k \<noteq> ''name'' then None
          else if hasValue then parseFlags args x
          else (case args of [] \<Rightarrow> None | x # args' \<Rightarrow> parseFlags args' x)))"
  by pat_completeness auto

termination parseFlags
  by (relation "measure (\<lambda>(args, v). length args)") auto

datatype shareOutput = Listed "share list" | Sharing share | Stopped string

definition shareCommand :: "cmdenv \<Rightarrow> string list \<Rightarrow> machine \<Rightarrow> (cliErr + shareOutput) \<times> machine" where
  "shareCommand cm args m = (case args of
      [] \<Rightarrow> (Inl Usage, m)
    | sub # args \<Rightarrow>
        if sub = ''list'' then (case currentShares cm m of (Inl e, m1) \<Rightarrow> (Inl e, m1) | (Inr ss, m1) \<Rightarrow> (Inr (Listed ss), m1))
        else if sub = ''add'' then (case parseFlags (flagsFirst args) [] of
            Some (name, [dir]) \<Rightarrow> (case addShareTo cm dir name m of (Inl e, m1) \<Rightarrow> (Inl e, m1) | (Inr s, m1) \<Rightarrow> (Inr (Sharing s), m1))
          | _ \<Rightarrow> (Inl Usage, m))
        else if sub = ''rm'' then (case args of
            [name] \<Rightarrow> (case removeShareFrom cm name m of (Some e, m1) \<Rightarrow> (Inl e, m1) | (None, m1) \<Rightarrow> (Inr (Stopped name), m1))
          | _ \<Rightarrow> (Inl Usage, m))
        else (Inl (UnknownCommand sub), m))"

section \<open>What the endpoint answers the command\<close>

lemma bearer_client: "trimSpace t = t \<Longrightarrow> bearerToken (clientRequest cm \<lparr>cl_host = h, cl_token = t\<rparr> meth u) = t"
  by (simp add: bearerToken_def clientRequest_def header_get_def hasPrefix_def trimPrefix_def split: prod.splits)

text \<open>A character that stands for itself in a URL.\<close>

definition plainChar :: "char \<Rightarrow> bool" where
  "plainChar c \<longleftrightarrow> 32 \<le> byte c \<and> byte c \<noteq> 127 \<and> c \<noteq> CHR ''?'' \<and> c \<noteq> CHR ''#'' \<and> c \<noteq> CHR ''%'' \<and> \<not> shouldEscape c"

lemma name_plain: "appname_Valid n \<Longrightarrow> list_all plainChar n"
  unfolding list_all_iff
proof
  fix c assume "appname_Valid n" "c \<in> set n"
  then have "name_char c" by (rule appname_Valid_chars)
  have "byte (CHR ''?'') = 63" "byte (CHR ''#'') = 35" "byte (CHR ''%'') = 37" "byte (CHR ''-'') = 45" by (simp_all add: byte_def)
  with \<open>name_char c\<close> show "plainChar c"
    by (auto simp: name_char_def name_start_def plainChar_def shouldEscape_def is_lower_letter_def is_digit_def)
qed

lemma parsePath_plain:
  assumes "list_all plainChar s"
  shows "parsePath s = Some (s, s, [])"
proof -
  have c: "32 \<le> byte c" "byte c \<noteq> 127" "c \<noteq> CHR ''?''" "c \<noteq> CHR ''#''" "c \<noteq> CHR ''%''" "\<not> shouldEscape c" if "c \<in> set s" for c
    using assms that by (auto simp: list_all_iff plainChar_def)
  have "\<not> list_ex (\<lambda>c. byte c < 32 \<or> byte c = 127) s" using c(1,2) by (fastforce simp: list_ex_iff)
  moreover have "cutAt (CHR ''#'') s = (s, [], False)" "cutAt (CHR ''?'') s = (s, [], False)"
    using c(3,4) by (blast intro: cutAt_none)+
  moreover have "unescape s = Some s" using c(5) by (blast intro: unescape_plain)
  moreover have "validEncoded s" using c(6) by (simp add: validEncoded_def list_all_iff)
  ultimately show ?thesis by (simp add: parsePath_def)
qed

lemma apps_plain: "list_all plainChar ''/v1/apps''" "list_all plainChar ''/v1/apps/''"
  by (simp_all add: plainChar_def shouldEscape_def is_lower_letter_def is_digit_def byte_def)

lemma parse_apps: "parsePath ''/v1/apps'' = Some (''/v1/apps'', ''/v1/apps'', [])"
  by (rule parsePath_plain [OF apps_plain(1)])

lemma parse_app: "appname_Valid n \<Longrightarrow> parsePath (''/v1/apps/'' @ n) = Some (''/v1/apps/'' @ n, ''/v1/apps/'' @ n, [])"
  using apps_plain(2) name_plain [of n] by (intro parsePath_plain) (simp only: list_all_append simp_thms)

lemma app_path:
  assumes "appname_Valid n"
  shows "cleanPath (''/v1/apps/'' @ n) = ''/v1/apps/'' @ n" "segments (''/v1/apps/'' @ n) = [''v1'', ''apps'', n]"
proof -
  have n: "CHR ''/'' \<notin> set n" "CHR ''%'' \<notin> set n" "CHR ''.'' \<notin> set n" "n \<noteq> []"
    using valid_name_chars [OF assms] assms by (auto simp: appname_Valid_def pattern_iff)
  then have "n \<noteq> ''.''" "n \<noteq> ''..''" "last n \<noteq> CHR ''/''" using last_in_set [of n] by (auto simp del: last_in_set)
  then show "cleanPath (''/v1/apps/'' @ n) = ''/v1/apps/'' @ n"
    using n by (simp add: cleanPath_def splitOn_no_sep)
  show "segments (''/v1/apps/'' @ n) = [''v1'', ''apps'', n]"
    using n by (simp add: segments_def splitOn_no_sep segment_def unescape_plain)
qed

definition reaches :: "cmdenv \<Rightarrow> settingsEnv \<Rightarrow> bool" where
  "reaches cm se \<longleftrightarrow> loopbackHost (cm_settings cm) \<and> trimSpace (se_token se) = se_token se \<and> se_token se \<noteq> []"

lemma client_answer:
  assumes "reaches cm se" "parsePath path = Some u"
    and "newSettings se i (clientRequest cm \<lparr>cl_host = cm_settings cm, cl_token = se_token se\<rparr> meth u) ag = (a, ag')"
    and "\<forall>p. a \<noteq> Moved p" and "mc_agent m = Some (se, ag)"
  shows "client_do cm \<lparr>cl_host = cm_settings cm, cl_token = se_token se\<rparr> meth path i m =
    ((case a of ErrorStatus n \<Rightarrow> Inl (RefusedBy n) | _ \<Rightarrow> Inr a), m\<lparr>mc_agent := Some (se, ag')\<rparr>)"
proof -
  let ?r = "clientRequest cm \<lparr>cl_host = cm_settings cm, cl_token = se_token se\<rparr> meth u"
  have "sq_host ?r = cm_settings cm" by (simp add: clientRequest_def split: prod.splits)
  then have "settingsGuard (se_token se) ?r = None"
    using assms(1) bearer_client by (simp add: settingsGuard_def reaches_def)
  then show ?thesis
    using assms(2-5) by (cases a) (simp_all add: client_do_def settings_ServeHTTP_def)
qed

lemma ask_list:
  assumes "reaches cm se" "mc_agent m = Some (se, ag)"
  shows "client_do cm \<lparr>cl_host = cm_settings cm, cl_token = se_token se\<rparr> ''GET'' ''/v1/apps'' i m =
    (Inr (Shares (shares (se_os se) (st_apps (ag_st ag)))), m)"
proof -
  have "newSettings se i (clientRequest cm \<lparr>cl_host = cm_settings cm, cl_token = se_token se\<rparr> ''GET'' (''/v1/apps'', ''/v1/apps'', [])) ag =
      (Shares (shares (se_os se) (st_apps (ag_st ag))), ag)"
    by (simp add: newSettings_def clientRequest_def cleanPath_def segments_def segment_def Let_def)
  from client_answer [OF assms(1) parse_apps this _ assms(2)] assms(2) show ?thesis by simp
qed

lemma ask_add:
  assumes "reaches cm se" "mc_agent m = Some (se, ag)" "si_body i = ShareBody dir name"
    and "addShare (se_env se) (se_os se) (si_freePort i) (Some (dir, name)) ag = (r, ag')"
  shows "client_do cm \<lparr>cl_host = cm_settings cm, cl_token = se_token se\<rparr> ''POST'' ''/v1/apps'' i m =
    ((case r of Inl n \<Rightarrow> Inl (RefusedBy n) | Inr s \<Rightarrow> Inr (AShare s)), m\<lparr>mc_agent := Some (se, ag')\<rparr>)"
proof -
  have "newSettings se i (clientRequest cm \<lparr>cl_host = cm_settings cm, cl_token = se_token se\<rparr> ''POST'' (''/v1/apps'', ''/v1/apps'', [])) ag =
      ((case r of Inl n \<Rightarrow> ErrorStatus n | Inr s \<Rightarrow> AShare s), ag')"
    using assms(3,4) by (simp add: newSettings_def clientRequest_def cleanPath_def segments_def segment_def Let_def split: sum.splits)
  from client_answer [OF assms(1) parse_apps this _ assms(2)] show ?thesis by (cases r) simp_all
qed

lemma ask_remove_url:
  assumes "reaches cm se" "mc_agent m = Some (se, ag)" "appname_Valid name"
    and "removeShare (se_env se) (se_os se) name ag = (r, ag')" and "parsePath url = Some (''/v1/apps/'' @ name, ''/v1/apps/'' @ name, q)"
  shows "client_do cm \<lparr>cl_host = cm_settings cm, cl_token = se_token se\<rparr> ''DELETE'' url i m =
    ((case r of Inl n \<Rightarrow> Inl (RefusedBy n) | Inr ss \<Rightarrow> Inr (Shares ss)), m\<lparr>mc_agent := Some (se, ag')\<rparr>)"
proof -
  have "name \<noteq> []" using assms(3) by (auto simp: appname_Valid_def pattern_iff)
  then have "newSettings se i (clientRequest cm \<lparr>cl_host = cm_settings cm, cl_token = se_token se\<rparr> ''DELETE'' (''/v1/apps/'' @ name, ''/v1/apps/'' @ name, q)) ag =
      ((case r of Inl n \<Rightarrow> ErrorStatus n | Inr ss \<Rightarrow> Shares ss), ag')"
    using assms(4) unfolding newSettings_def clientRequest_def prod.case settingsRequest.simps Let_def app_path [OF assms(3)]
    by (simp split: sum.splits)
  from client_answer [OF assms(1,5) this _ assms(2)] show ?thesis by (cases r) simp_all
qed

lemma ask_remove:
  assumes "reaches cm se" "mc_agent m = Some (se, ag)" "appname_Valid name"
    and "removeShare (se_env se) (se_os se) name ag = (r, ag')"
  shows "client_do cm \<lparr>cl_host = cm_settings cm, cl_token = se_token se\<rparr> ''DELETE'' (''/v1/apps/'' @ name) i m =
    ((case r of Inl n \<Rightarrow> Inl (RefusedBy n) | Inr ss \<Rightarrow> Inr (Shares ss)), m\<lparr>mc_agent := Some (se, ag')\<rparr>)"
  by (rule ask_remove_url [OF assms parse_app [OF assms(3)]])

lemma parsePath_query:
  assumes "list_all plainChar p" "list_all plainChar q"
  shows "parsePath (p @ CHR ''?'' # q) = Some (p, p, q)"
proof -
  have c: "32 \<le> byte c" "byte c \<noteq> 127" "c \<noteq> CHR ''?''" "c \<noteq> CHR ''#''" "c \<noteq> CHR ''%''" "\<not> shouldEscape c" if "c \<in> set p \<or> c \<in> set q" for c
    using assms that by (auto simp: list_all_iff plainChar_def)
  have "32 \<le> byte (CHR ''?'')" "byte (CHR ''?'') \<noteq> 127" by (simp_all add: byte_def)
  then have "\<not> list_ex (\<lambda>c. byte c < 32 \<or> byte c = 127) (p @ CHR ''?'' # q)"
    using c(1,2) by (fastforce simp: list_ex_iff)
  moreover have "cutAt (CHR ''#'') (p @ CHR ''?'' # q) = (p @ CHR ''?'' # q, [], False)"
    by (rule cutAt_none) (use c(4) in auto)
  moreover have "cutAt (CHR ''?'') (p @ CHR ''?'' # q) = (p, q, True)"
    by (rule cutAt_append) (use c(3) in blast)
  moreover have "unescape p = Some p" using c(5) by (blast intro: unescape_plain)
  moreover have "validEncoded p" using c(6) by (simp add: validEncoded_def list_all_iff)
  ultimately show ?thesis by (simp add: parsePath_def)
qed

section \<open>With and without a running agent\<close>

text \<open>
  Two machines with one registry: on the first an agent serves it and listens, on the second none runs.  The command and
  the agent are started in the same directory, and the token is in its file.
\<close>

definition twins :: "cmdenv \<Rightarrow> state \<Rightarrow> machine \<Rightarrow> machine \<Rightarrow> bool" where
  "twins cm st m0 m1 \<longleftrightarrow> (\<exists>se ag. mc_agent m1 = Some (se, ag) \<and> mc_listens m1 \<and> cm_settings cm \<noteq> [] \<and> reaches cm se \<and>
     settingsToken (cm_rnd cm) (mc_token m1) = (Some (se_token se), mc_token m1) \<and>
     se_env se = cm_env cm \<and> se_os se = cm_os cm \<and> ag_st ag = st \<and> ag_disk ag = mc_disk m0) \<and>
   mc_agent m0 = None \<and> holds (ae_codec (cm_env cm)) st (mc_disk m0) \<and> dk_ops (mc_disk m0) = [] \<and>
   codec_ok (ae_codec (cm_env cm)) \<and> state_ok (ae_url (cm_env cm)) st"

lemma twins_offline:
  assumes "twins cm st m0 m1"
  shows "dialSettings cm m0 = (Inr None, m0)" "diskOf m0 = mc_disk m0"
    "loadState (ae_url (cm_env cm)) (ae_codec (cm_env cm)) hostname (mc_disk m0) = (Inr st, mc_disk m0)"
    "diskOf (setDisk d m0) = d"
  using assms loadState_holds by (auto simp: twins_def dialSettings_def diskOf_def setDisk_def)

lemma twins_online:
  assumes "twins cm st m0 m1"
  obtains se ag where "mc_agent m1 = Some (se, ag)" "reaches cm se" "se_env se = cm_env cm" "se_os se = cm_os cm" "ag_st ag = st"
    "ag_disk ag = mc_disk m0" "dialSettings cm m1 = (Inr (Some \<lparr>cl_host = cm_settings cm, cl_token = se_token se\<rparr>), m1)"
  using assms that by (auto simp: twins_def dialSettings_def)

lemma setApps_written:
  "dk_ops (ag_disk ag) = [] \<Longrightarrow> setApps env apps ag = (case validate (ae_url env) ((ag_st ag)\<lparr>st_apps := apps\<rparr>) of
      Some e \<Rightarrow> (Some e, ag)
    | None \<Rightarrow> (None, onApps apps (ag\<lparr>ag_disk := snd (saveState (ae_codec env) ((ag_st ag)\<lparr>st_apps := apps\<rparr>) (ag_disk ag)),
        ag_st := (ag_st ag)\<lparr>st_apps := apps\<rparr>\<rparr>)))"
  by (auto simp: setApps_def save_def saveState_def nextOp_def Let_def split: option.splits)

lemma dropFirst_filter:
  "distinct (appNames apps) \<Longrightarrow> dropFirst name apps =
    (if name \<in> set (appNames apps) then Some (filter (\<lambda>a. app_name a \<noteq> name) apps) else None)"
proof (induction apps)
  case (Cons a apps)
  have "filter (\<lambda>b. app_name b \<noteq> app_name a) apps = apps" if "app_name a \<notin> app_name ` set apps"
    using that by (intro filter_True) (metis imageI)
  then show ?case using Cons by (auto simp: appNames_def)
qed (simp add: appNames_def)

lemma fewer_apps_ok:
  assumes "state_ok urlParse st"
  shows "state_ok urlParse (st\<lparr>st_apps := filter P (st_apps st)\<rparr>)"
  using assms le_trans [OF length_filter_le [of P "st_apps st"]] distinct_map_filter [of app_name "st_apps st" P]
  by (auto simp: state_ok_def appNames_def list_all_iff)

lemma served_disk: "diskOf (m\<lparr>mc_agent := Some (se, ag)\<rparr>) = ag_disk ag"
  by (simp add: diskOf_def)

lemma all_kept: "length (filter P xs) = length xs \<longleftrightarrow> list_all P xs"
proof (induction xs)
  case (Cons x xs)
  have "length (filter P xs) \<noteq> Suc (length xs)" using length_filter_le [of P xs] by linarith
  then show ?case using Cons by simp
qed simp

lemma same_add:
  assumes "twins cm st m0 m1"
  shows "(case fst (addShareTo cm dir name m1) of Inr s \<Rightarrow> fst (addShareTo cm dir name m0) = Inr s
      | Inl _ \<Rightarrow> \<exists>e. fst (addShareTo cm dir name m0) = Inl e) \<and>
    dk_file (diskOf (snd (addShareTo cm dir name m1))) = dk_file (diskOf (snd (addShareTo cm dir name m0)))"
proof -
  obtain se ag where on: "mc_agent m1 = Some (se, ag)" "reaches cm se" "se_env se = cm_env cm" "se_os se = cm_os cm" "ag_st ag = st"
    "ag_disk ag = mc_disk m0" "dialSettings cm m1 = (Inr (Some \<lparr>cl_host = cm_settings cm, cl_token = se_token se\<rparr>), m1)"
    using twins_online [OF assms] by blast
  have ops: "dk_ops (mc_disk m0) = []" using assms by (simp add: twins_def)
  obtain r ag' where r: "addShare (cm_env cm) (cm_os cm) (cm_freePort cm) (Some (dir, name)) ag = (r, ag')"
    by (cases "addShare (cm_env cm) (cm_os cm) (cm_freePort cm) (Some (dir, name)) ag")
  have served: "addShareTo cm dir name m1 = ((case r of Inl n \<Rightarrow> Inl (RefusedBy n) | Inr s \<Rightarrow> Inr s), m1\<lparr>mc_agent := Some (se, ag')\<rparr>)"
    using ask_add [OF on(2,1), of "bodyInput cm (cm_freePort cm) (ShareBody dir name)" dir name] r
    by (simp add: addShareTo_def on(3,4,7) bodyInput_def split: sum.splits)
  have off: "addShareTo cm dir name m0 = (case addShareOffline (ae_url (cm_env cm)) (ae_codec (cm_env cm)) (cm_hostname cm) (ae_lib (cm_env cm)) (cm_os cm)
      (cm_freePort cm) dir name (mc_disk m0) of (Inl e, d) \<Rightarrow> (Inl (AgentErr e), setDisk d m0) | (Inr s, d) \<Rightarrow> (Inr s, setDisk d m0))"
    by (simp add: addShareTo_def twins_offline(1,2) [OF assms])
  show ?thesis
  proof (cases "newShare (ae_lib (cm_env cm)) (cm_os cm) (cm_freePort cm) dir name (st_apps st)")
    case (Inl e)
    then have "r = Inl 400" "ag' = ag" using r by (auto simp: addShare_def on(5) Let_def)
    then show ?thesis
      using Inl by (simp add: served off addShareOffline_def twins_offline(3,4) [OF assms] served_disk on(6))
  next
    case (Inr a)
    define st' where "st' = st\<lparr>st_apps := st_apps st @ [a]\<rparr>"
    have set: "setApps (cm_env cm) (st_apps st @ [a]) ag = (case validate (ae_url (cm_env cm)) st' of Some e \<Rightarrow> (Some e, ag)
      | None \<Rightarrow> (None, onApps (st_apps st @ [a]) (ag\<lparr>ag_disk := snd (saveState (ae_codec (cm_env cm)) st' (mc_disk m0)), ag_st := st'\<rparr>)))"
    proof -
      have "dk_ops (ag_disk ag) = []" by (simp add: on(6) ops)
      from setApps_written [OF this] show ?thesis unfolding st'_def on(5,6) .
    qed
    show ?thesis
    proof (cases "validate (ae_url (cm_env cm)) st'")
      case None
      then have "r = Inr (shareOf (cm_os cm) a)" "ag_disk ag' = snd (saveState (ae_codec (cm_env cm)) st' (mc_disk m0))"
        using r set Inr by (auto simp: addShare_def on(5) Let_def onApps_def)
      then show ?thesis
        using None Inr ops by (simp add: served off addShareOffline_def twins_offline(3,4) [OF assms] served_disk st'_def [symmetric] Let_def saveState_def nextOp_def)
    next
      case (Some e)
      then have "r = Inl 400" "ag' = ag" using r set Inr by (auto simp: addShare_def on(5) Let_def)
      then show ?thesis
        using Some Inr by (simp add: served off addShareOffline_def twins_offline(3,4) [OF assms] served_disk on(6) st'_def [symmetric] Let_def)
    qed
  qed
qed

lemma same_remove:
  assumes "twins cm st m0 m1" "appname_Valid name"
  shows "(fst (removeShareFrom cm name m1) = None \<longleftrightarrow> fst (removeShareFrom cm name m0) = None) \<and>
    dk_file (diskOf (snd (removeShareFrom cm name m1))) = dk_file (diskOf (snd (removeShareFrom cm name m0)))"
proof -
  obtain se ag where on: "mc_agent m1 = Some (se, ag)" "reaches cm se" "se_env se = cm_env cm" "se_os se = cm_os cm" "ag_st ag = st"
    "ag_disk ag = mc_disk m0" "dialSettings cm m1 = (Inr (Some \<lparr>cl_host = cm_settings cm, cl_token = se_token se\<rparr>), m1)"
    using twins_online [OF assms(1)] by blast
  have ops: "dk_ops (mc_disk m0) = []" and ok: "state_ok (ae_url (cm_env cm)) st" using assms(1) by (simp_all add: twins_def)
  obtain r ag' where r: "removeShare (cm_env cm) (cm_os cm) name ag = (r, ag')" by (cases "removeShare (cm_env cm) (cm_os cm) name ag")
  have served: "removeShareFrom cm name m1 = ((case r of Inl n \<Rightarrow> Some (RefusedBy n) | Inr ss \<Rightarrow> None), m1\<lparr>mc_agent := Some (se, ag')\<rparr>)"
    using ask_remove [OF on(2,1) assms(2), of r ag'] r by (simp add: removeShareFrom_def on(3,4,7) split: sum.splits)
  have off: "removeShareFrom cm name m0 = (case removeShareOffline (ae_url (cm_env cm)) (ae_codec (cm_env cm)) (cm_hostname cm) name (mc_disk m0) of
      (Some e, d) \<Rightarrow> (Some (AgentErr e), setDisk d m0) | (None, d) \<Rightarrow> (None, setDisk d m0))"
    by (simp add: removeShareFrom_def twins_offline(1,2) [OF assms(1)])
  define kept where "kept = filter (\<lambda>a. app_name a \<noteq> name) (st_apps st)"
  have drop: "dropFirst name (st_apps st) = (if name \<in> set (appNames (st_apps st)) then Some kept else None)"
    unfolding kept_def by (rule dropFirst_filter) (use ok in \<open>simp add: state_ok_def\<close>)
  have none: "length kept = length (st_apps st) \<longleftrightarrow> name \<notin> set (appNames (st_apps st))"
    unfolding kept_def all_kept by (auto simp: list_all_iff appNames_def)
  have valid: "validate (ae_url (cm_env cm)) (st\<lparr>st_apps := kept\<rparr>) = None"
    using fewer_apps_ok [OF ok] by (simp add: validate_iff kept_def)
  show ?thesis
  proof (cases "name \<in> set (appNames (st_apps st))")
    case True
    then have "r = Inr (shares (cm_os cm) kept)" "ag_disk ag' = snd (saveState (ae_codec (cm_env cm)) (st\<lparr>st_apps := kept\<rparr>) (mc_disk m0))"
      using r drop valid ops on(5,6) by (auto simp: removeShare_def setApps_written onApps_def)
    then show ?thesis
      using True none ops by (simp add: served off removeShareOffline_def twins_offline(3,4) [OF assms(1)] served_disk kept_def [symmetric] Let_def saveState_def nextOp_def)
  next
    case False
    then have "r = Inl 404" "ag' = ag" using r drop on(5) by (auto simp: removeShare_def)
    then show ?thesis
      using False none by (simp add: served off removeShareOffline_def twins_offline(3,4) [OF assms(1)] served_disk kept_def [symmetric] Let_def on(6))
  qed
qed

lemma same_list:
  assumes "twins cm st m0 m1"
  shows "currentShares cm m1 = (Inr (shares (cm_os cm) (st_apps st)), m1) \<and>
    fst (currentShares cm m0) = Inr (shares (cm_os cm) (st_apps st)) \<and> diskOf (snd (currentShares cm m0)) = mc_disk m0"
proof -
  obtain se ag where on: "mc_agent m1 = Some (se, ag)" "reaches cm se" "se_os se = cm_os cm" "ag_st ag = st"
    "dialSettings cm m1 = (Inr (Some \<lparr>cl_host = cm_settings cm, cl_token = se_token se\<rparr>), m1)"
    using twins_online [OF assms] by blast
  show ?thesis
    using ask_list [OF on(2,1)] on(3-5) twins_offline [OF assms] by (simp add: currentShares_def)
qed

text \<open>What the arguments of a \<^verbatim>\<open>share\<close> command can be.\<close>

lemma shareCommand_cases:
  obtains (add) dir name rest where "args = ''add'' # rest" "parseFlags (flagsFirst rest) [] = Some (name, [dir])"
    | (list) rest where "args = ''list'' # rest" | (rm) name where "args = [''rm'', name]"
    | (refused) e where "\<And>m. shareCommand cm args m = (Inl e, m)"
proof (cases args)
  case Nil
  then show thesis by (intro refused [of Usage]) (simp add: shareCommand_def)
next
  case (Cons sub rest)
  consider "sub = ''list''" | "sub = ''add''" | "sub = ''rm''" | "sub \<noteq> ''list''" "sub \<noteq> ''add''" "sub \<noteq> ''rm''" by blast
  then show thesis
  proof cases
    case 1
    then show thesis using Cons list by simp
  next
    case 2
    show thesis
    proof (cases "\<exists>name dir. parseFlags (flagsFirst rest) [] = Some (name, [dir])")
      case True
      then show thesis using 2 Cons add by blast
    next
      case False
      then have "shareCommand cm args m = (Inl Usage, m)" for m
        unfolding Cons 2 shareCommand_def by (auto split: option.splits list.splits)
      then show thesis by (rule refused)
    qed
  next
    case 3
    show thesis
    proof (cases "\<exists>name. rest = [name]")
      case True
      then show thesis using 3 Cons rm by blast
    next
      case False
      then have "shareCommand cm args m = (Inl Usage, m)" for m
        unfolding Cons 3 shareCommand_def by (auto split: list.splits)
      then show thesis by (rule refused)
    qed
  next
    case 4
    then have "shareCommand cm args m = (Inl (UnknownCommand sub), m)" for m by (simp add: Cons shareCommand_def)
    then show thesis by (rule refused)
  qed
qed


text \<open>
  The name to remove goes into the URL unescaped.  With an agent running, \<^verbatim>\<open>share rm\<close> of a name with a question mark removes
  the share named by what stands before it and says it stopped the other; without one it is refused.
\<close>

theorem removal_cuts_the_name:
  assumes twins: "twins cm st m0 m1" and name: "appname_Valid name" "list_all plainChar q"
  shows "removeShareFrom cm (name @ CHR ''?'' # q) m1 = removeShareFrom cm name m1 \<and>
    fst (removeShareFrom cm (name @ CHR ''?'' # q) m0) \<noteq> None"
proof -
  let ?n = "name @ CHR ''?'' # q"
  obtain se ag where on: "mc_agent m1 = Some (se, ag)" "reaches cm se" "se_env se = cm_env cm" "se_os se = cm_os cm" "ag_st ag = st"
    "ag_disk ag = mc_disk m0" "dialSettings cm m1 = (Inr (Some \<lparr>cl_host = cm_settings cm, cl_token = se_token se\<rparr>), m1)"
    using twins_online [OF twins] by blast
  have ok: "state_ok (ae_url (cm_env cm)) st" using twins by (simp add: twins_def)
  obtain r ag' where r: "removeShare (se_env se) (se_os se) name ag = (r, ag')" by (cases "removeShare (se_env se) (se_os se) name ag")
  have "list_all plainChar (''/v1/apps/'' @ name)" using apps_plain(2) name_plain [OF name(1)] by (simp only: list_all_append simp_thms)
  from parsePath_query [OF this name(2)] have "parsePath (''/v1/apps/'' @ ?n) = Some (''/v1/apps/'' @ name, ''/v1/apps/'' @ name, q)"
    unfolding append_assoc .
  note url = ask_remove_url [OF on(2,1) name(1) r this, of "bodyInput cm None NoBody"]
  have "removeShareFrom cm ?n m1 = removeShareFrom cm name m1"
    unfolding removeShareFrom_def on(7) prod.case sum.case option.case url ask_remove [OF on(2,1) name(1) r] ..
  moreover have "\<not> appname_Valid ?n"
    using name_plain [of ?n] by (auto simp: plainChar_def)
  then have "?n \<notin> set (appNames (st_apps st))"
    using ok by (auto simp: state_ok_def appNames_def list_all_iff app_ok_def)
  then have "filter (\<lambda>a. app_name a \<noteq> ?n) (st_apps st) = st_apps st"
    by (intro filter_True ballI notI) (metis appNames_def image_eqI set_map)
  then have "fst (removeShareOffline (ae_url (cm_env cm)) (ae_codec (cm_env cm)) (cm_hostname cm) ?n (mc_disk m0)) \<noteq> None"
    by (simp add: removeShareOffline_def twins_offline(3) [OF twins] Let_def)
  then have "fst (removeShareFrom cm ?n m0) \<noteq> None"
    by (auto simp: removeShareFrom_def twins_offline(1,2) [OF twins] split: prod.splits option.splits)
  ultimately show ?thesis by blast
qed

text \<open>
  A folder is taken from the agent's directory, not the shell's.  The command passes the directory on as it was
  typed, so with an agent running the path that is shared is the agent's reading of it, whatever the command's own
  working directory makes of the same words.
\<close>

theorem folder_read_by_the_agent:
  assumes agent: "mc_agent m = Some (se, ag)" "mc_listens m" "cm_settings cm \<noteq> []" "reaches cm se"
    and token: "settingsToken (cm_rnd cm) (mc_token m) = (Some (se_token se), f)"
    and base: "os_base (se_os se) dufsProgram = dufsProgram" and add: "addShareTo cm dir name m = (Inr s, m')"
  shows "os_abs (se_os se) dir = Some (sh_path s)"
proof -
  obtain r ag' where r: "addShare (se_env se) (se_os se) (cm_freePort cm) (Some (dir, name)) ag = (r, ag')"
    by (cases "addShare (se_env se) (se_os se) (cm_freePort cm) (Some (dir, name)) ag")
  have "mc_agent (m\<lparr>mc_token := f\<rparr>) = Some (se, ag)" using agent(1) by simp
  from ask_add [OF agent(4) this, of "bodyInput cm (cm_freePort cm) (ShareBody dir name)" dir name] r
  have "r = Inr s" using add agent token by (auto simp: addShareTo_def dialSettings_def bodyInput_def split: sum.splits)
  then obtain a where "newShare (ae_lib (se_env se)) (se_os se) (cm_freePort cm) dir name (st_apps (ag_st ag)) = Inr a" "s = shareOf (se_os se) a"
    using r by (auto simp: addShare_def Let_def split: sum.splits prod.splits option.splits)
  then show ?thesis using base by (auto simp: newShare_def shareOf_def sharedPath_def Let_def split: option.splits bool.splits if_splits)
qed

text \<open>
  With the settings endpoint off, a share added from the command line is lost.  The command then writes the file
  although an agent serves it, and the next change the agent writes puts its own list back.
\<close>

theorem share_lost_without_endpoint:
  assumes off: "cm_settings cm = []" and agent: "mc_agent m = Some (se, ag)" "se_env se = cm_env cm"
    and add: "addShareTo cm dir name m = (Inr s, m1)" "mc_agent m1 = Some (se, ag1)"
    and change: "setErrorReports (cm_env cm) on ag1 = (None, ag2)"
  shows "ag_st ag1 = ag_st ag \<and> holds (ae_codec (cm_env cm)) ((ag_st ag)\<lparr>st_reportsOff := \<not> on\<rparr>) (ag_disk ag2)"
proof -
  have "ag_st ag1 = ag_st ag"
    using add agent by (auto simp: addShareTo_def dialSettings_def off setDisk_def split: prod.splits sum.splits)
  then show ?thesis
    using change by (auto simp: setErrorReports_def save_def saveState_def holds_def Let_def split: prod.splits fileOp.splits option.splits)
qed

section \<open>Witnesses\<close>

definition demo_cm :: cmdenv where
  "demo_cm = \<lparr>cm_settings = ''localhost:7434'', cm_env = demo_env, cm_os = demo_os, cm_hostname = None, cm_freePort = Some 8080, cm_rnd = None,
     cm_redirected = id, cm_query = (\<lambda>_. [])\<rparr>"

definition demo_token :: tokenFile where "demo_token = \<lparr>tf_raw = Some (''token'' @ [newline]), tf_ops = []\<rparr>"

definition demo_stopped :: machine where
  "demo_stopped = \<lparr>mc_agent = None, mc_listens = False, mc_disk = demo_disk, mc_token = demo_token\<rparr>"

definition demo_served :: machine where
  "demo_served = \<lparr>mc_agent = Some (demo_settings, demo_agent), mc_listens = True, mc_disk = demo_disk, mc_token = demo_token\<rparr>"

lemma demo_token_read: "settingsToken rnd demo_token = (Some ''token'', demo_token)"
proof -
  have "trimSpace (''token'' @ [newline]) = ''token''" by code_simp
  then show ?thesis by (simp add: settingsToken_def demo_token_def nextTf_def)
qed

lemma demo_reaches: "reaches demo_cm demo_settings"
proof -
  have "splitHostPort ''localhost:7434'' = Some (''localhost'', ''7434'')" by code_simp
  moreover have "trimSpace ''token'' = ''token''" by (rule trimSpace_clean) (auto simp: byte_def)
  ultimately show ?thesis by (simp add: reaches_def demo_cm_def demo_settings_def loopbackHost_def)
qed

lemma demo_twins: "twins demo_cm demo_state demo_stopped demo_served"
  using demo_reaches demo_token_read demo_codec_ok demo_state_ok demo_fresh(2)
  by (auto simp: twins_def demo_served_def demo_stopped_def demo_cm_def demo_settings_def demo_agent_def onApps_def newAgent_def demo_env_def
      demo_disk_def holds_def)


theorem removal_cuts_the_name_witness:
  "fst (removeShareFrom demo_cm ''files?x'' demo_stopped) \<noteq> None"
proof -
  have "appname_Valid ''files''" by code_simp
  moreover have "list_all plainChar ''x''" by code_simp
  ultimately show ?thesis using removal_cuts_the_name [OF demo_twins] by fastforce
qed

lemma demo_new:
  assumes "trimSpace dir \<noteq> []" "os_abs os dir = Some path" "os_isDir os path = Some True"
  shows "\<exists>a. newShare toy_lib os (Some 8080) dir [] [] = Inr a \<and> validate demo_url (demo_state\<lparr>st_apps := [a]\<rparr>) = None"
  using sharing_a_folder [OF demo_state_ok [of demo_url] _ assms, where lib = toy_lib and p = 8080]
  by (auto simp: demo_state_def stateMaxApps_def validate_iff)

lemma demo_env_simps: "ae_lib demo_env = toy_lib" "ae_url demo_env = demo_url" "ae_codec demo_env = demo_codec"
  "ag_st demo_agent = demo_state" "ag_disk demo_agent = demo_disk" "st_apps demo_state = []"
  by (simp_all add: demo_env_def demo_agent_def onApps_def newAgent_def demo_state_def)

lemma demo_addShare:
  assumes "trimSpace dir \<noteq> []" "os_abs os dir = Some path" "os_isDir os path = Some True"
  shows "\<exists>s ag'. addShare demo_env os (Some 8080) (Some (dir, [])) demo_agent = (Inr s, ag')"
proof -
  obtain a where a: "newShare toy_lib os (Some 8080) dir [] [] = Inr a" "validate demo_url (demo_state\<lparr>st_apps := [a]\<rparr>) = None"
    using demo_new [OF assms] by blast
  have "dk_ops (ag_disk demo_agent) = []" by (simp add: demo_env_simps demo_fresh)
  note set = setApps_written [OF this, of demo_env "[a]", unfolded demo_env_simps, unfolded a(2) option.case]
  show ?thesis using a(1) set by (simp add: addShare_def demo_env_simps Let_def)
qed

lemma demo_addOffline:
  "\<exists>s d. addShareOffline demo_url demo_codec None toy_lib demo_os (Some 8080) ''/srv'' [] demo_disk = (Inr s, d) \<and> dk_ops d = []"
proof -
  obtain a where a: "newShare toy_lib demo_os (Some 8080) ''/srv'' [] [] = Inr a" "validate demo_url (demo_state\<lparr>st_apps := [a]\<rparr>) = None"
    using demo_new [OF demo_dir, of demo_os "''/srv''"] by (auto simp: demo_os_def)
  have load: "loadState demo_url demo_codec None demo_disk = (Inr demo_state, demo_disk)"
    by (rule loadState_holds [OF demo_codec_ok _ demo_state_ok]) (simp_all add: holds_def demo_disk_def)
  show ?thesis
    using a load demo_env_simps(6) demo_fresh(2) by (simp add: addShareOffline_def Let_def saveState_def nextOp_def)
qed

theorem folder_read_by_the_agent_witness:
  "\<exists>cm m s m'. addShareTo cm ''photos'' [] m = (Inr s, m') \<and> sh_path s = ''/photos'' \<and> os_abs (cm_os cm) ''photos'' = Some ''/home/photos''"
proof -
  let ?os = "demo_os\<lparr>os_abs := \<lambda>d. Some (''/'' @ d)\<rparr>" and ?cm = "demo_cm\<lparr>cm_os := demo_os\<lparr>os_abs := \<lambda>d. Some (''/home/'' @ d)\<rparr>\<rparr>"
  let ?se = "demo_settings\<lparr>se_os := ?os\<rparr>"
  let ?m = "demo_served\<lparr>mc_agent := Some (?se, demo_agent)\<rparr>"
  have dir: "trimSpace ''photos'' = ''photos''" by (rule trimSpace_clean) (auto simp: byte_def)
  obtain s ag' where add: "addShare demo_env ?os (Some 8080) (Some (''photos'', [])) demo_agent = (Inr s, ag')"
    using demo_addShare [of "''photos''" ?os "''/photos''"] dir by (auto simp: demo_os_def)
  have m: "mc_agent ?m = Some (?se, demo_agent)" "mc_listens ?m" "cm_settings ?cm \<noteq> []" "reaches ?cm ?se"
    "settingsToken (cm_rnd ?cm) (mc_token ?m) = (Some (se_token ?se), demo_token)" "os_base (se_os ?se) dufsProgram = dufsProgram"
    using demo_reaches demo_token_read
    by (simp_all add: demo_served_def demo_cm_def reaches_def demo_settings_def demo_os_def dufsProgram_def)
  have m': "mc_agent (?m\<lparr>mc_token := demo_token\<rparr>) = Some (?se, demo_agent)" by simp
  have "se_env ?se = demo_env" "cm_freePort ?cm = Some 8080" by (simp_all add: demo_settings_def demo_cm_def)
  with ask_add [OF m(4) m', of "bodyInput ?cm (Some 8080) (ShareBody ''photos'' [])" "''photos''" "[]" "Inr s" ag'] add m
  have run: "\<exists>m'. addShareTo ?cm ''photos'' [] ?m = (Inr s, m')"
    by (simp add: addShareTo_def dialSettings_def bodyInput_def)
  then obtain m' where run: "addShareTo ?cm ''photos'' [] ?m = (Inr s, m')" by blast
  have "sh_path s = ''/photos''" using folder_read_by_the_agent [OF m run] by simp
  moreover have "os_abs (cm_os ?cm) ''photos'' = Some ''/home/photos''" by simp
  ultimately show ?thesis using run by blast
qed

theorem share_lost_without_endpoint_witness:
  "\<exists>s m1 ag1 ag2. addShareTo (demo_cm\<lparr>cm_settings := []\<rparr>) ''/srv'' [] demo_served = (Inr s, m1) \<and> mc_agent m1 = Some (demo_settings, ag1) \<and>
     setErrorReports demo_env False ag1 = (None, ag2) \<and> holds demo_codec (demo_state\<lparr>st_reportsOff := True\<rparr>) (ag_disk ag2)"
proof -
  let ?cm = "demo_cm\<lparr>cm_settings := []\<rparr>"
  obtain s d where off: "addShareOffline demo_url demo_codec None toy_lib demo_os (Some 8080) ''/srv'' [] demo_disk = (Inr s, d)" "dk_ops d = []"
    using demo_addOffline by blast
  have cm: "cm_settings ?cm = []" "cm_env ?cm = demo_env" "cm_os ?cm = demo_os" "cm_hostname ?cm = None" "cm_freePort ?cm = Some 8080"
    by (simp_all add: demo_cm_def)
  have m: "mc_agent demo_served = Some (demo_settings, demo_agent)" by (simp add: demo_served_def)
  let ?m1 = "demo_served\<lparr>mc_agent := Some (demo_settings, demo_agent\<lparr>ag_disk := d\<rparr>)\<rparr>"
  have add: "addShareTo ?cm ''/srv'' [] demo_served = (Inr s, ?m1)"
    using off m by (simp add: addShareTo_def dialSettings_def cm demo_env_simps diskOf_def setDisk_def)
  obtain ag2 where change: "setErrorReports (cm_env ?cm) False (demo_agent\<lparr>ag_disk := d\<rparr>) = (None, ag2)"
    using off(2) by (simp add: setErrorReports_def save_def saveState_def nextOp_def Let_def)
  have env: "se_env demo_settings = cm_env ?cm" by (simp add: demo_settings_def demo_cm_def)
  have m1: "mc_agent ?m1 = Some (demo_settings, demo_agent\<lparr>ag_disk := d\<rparr>)" by simp
  show ?thesis
    using share_lost_without_endpoint [OF cm(1) m env add m1 change] add m1 change demo_env_simps by (auto simp: cm(2))
qed

end
