(* ===== verification/CommandLine.thy ===== *)
theory CommandLine
  imports Commands Identity
begin

text \<open>
  The commands that sign a PC in and out (\<^verbatim>\<open>login.go\<close>, \<^verbatim>\<open>main.go\<close>), the settings page (\<^verbatim>\<open>share.go\<close>), opening the app
  (\<^verbatim>\<open>menubar.go\<close>), waiting for a port (\<^verbatim>\<open>ports.go\<close>), the lock of an instance (\<^verbatim>\<open>instance.go\<close>) and the dispatch on the first
  argument (\<^verbatim>\<open>main.go\<close>).  The agent's key is an argument of the commands that open it.
\<close>

section \<open>Signing in and out from a terminal\<close>

text \<open>\<^verbatim>\<open>openAgent\<close>: the key as the store gave it, and the registry.\<close>

definition openAgent :: "cmdenv \<Rightarrow> string option \<Rightarrow> machine \<Rightarrow> cliErr + agent" where
  "openAgent cm seed m = (case seed of None \<Rightarrow> Inl NoKey
   | Some s \<Rightarrow> (case loadAgent (cm_env cm) (cm_hostname cm) s (diskOf m) of Inl e \<Rightarrow> Inl (AgentErr e) | Inr ag \<Rightarrow> Inr ag))"

text \<open>
  What \<^verbatim>\<open>loginCommand\<close> shows, the code and the address.  \<open>answers\<close> are the server's answers to an agent the command opened
  itself; a running one has its own.
\<close>

definition loginCommand :: "cmdenv \<Rightarrow> string option \<Rightarrow> reply list \<Rightarrow> string \<Rightarrow> machine \<Rightarrow> (cliErr + string \<times> string) \<times> machine" where
  "loginCommand cm seed answers server m = (case dialSettings cm m of
      (Inl e, m1) \<Rightarrow> (Inl e, m1)
    | (Inr (Some c), m1) \<Rightarrow>
        (case client_do cm c ''POST'' ''/v1/account/login'' (bodyInput cm None (LoginBody server)) m1 of
           (Inl e, m2) \<Rightarrow> (Inl e, m2)
         | (Inr (Account a), m2) \<Rightarrow> (Inr (lg_code (acc_login a), lg_url (acc_login a)), m2)
         | (Inr _, m2) \<Rightarrow> (Inl UnreadableAnswer, m2))
    | (Inr None, m1) \<Rightarrow> (case openAgent cm seed m1 of
        Inl e \<Rightarrow> (Inl e, m1)
      | Inr ag \<Rightarrow> (case startLogin (cm_env cm) server (ag\<lparr>ag_net := answers\<rparr>) of
          (Inl e, ag1) \<Rightarrow> (Inl (AgentErr e), setDisk (ag_disk ag1) m1)
        | (Inr _, ag1) \<Rightarrow> (Inr (lg_code (ag_login ag1), lg_url (ag_login ag1)), setDisk (ag_disk ag1) m1))))"

text \<open>The loop that asks how the approval went; when the list ends, the person stopped the command.\<close>

fun awaitLogin :: "(cliErr + account) list \<Rightarrow> (cliErr + account) option" where
  "awaitLogin [] = None"
| "awaitLogin (Inl e # rest) = Some (Inl e)"
| "awaitLogin (Inr a # rest) =
     (if lg_waiting (acc_login a) then awaitLogin rest
      else case lg_error (acc_login a) of Some e \<Rightarrow> Some (Inl (SignInFailed e)) | None \<Rightarrow> Some (Inr a))"

definition logoutCommand :: "cmdenv \<Rightarrow> string option \<Rightarrow> reply list \<Rightarrow> machine \<Rightarrow> cliErr option \<times> machine" where
  "logoutCommand cm seed answers m = (case dialSettings cm m of
      (Inl e, m1) \<Rightarrow> (Some e, m1)
    | (Inr (Some c), m1) \<Rightarrow>
        (case client_do cm c ''POST'' ''/v1/account/logout'' (bodyInput cm None NoBody) m1 of (Inl e, m2) \<Rightarrow> (Some e, m2) | (Inr _, m2) \<Rightarrow> (None, m2))
    | (Inr None, m1) \<Rightarrow> (case openAgent cm seed m1 of
        Inl e \<Rightarrow> (Some e, m1)
      | Inr ag \<Rightarrow> (case logout (cm_env cm) (ag\<lparr>ag_net := answers\<rparr>) of
          (Some e, ag1) \<Rightarrow> (Some (AgentErr e), setDisk (ag_disk ag1) m1) | (None, ag1) \<Rightarrow> (None, setDisk (ag_disk ag1) m1))))"

text \<open>\<^verbatim>\<open>enrolCommand\<close> opens the agent itself, whether or not one runs.\<close>

definition enrolCommand :: "cmdenv \<Rightarrow> string option \<Rightarrow> reply list \<Rightarrow> string \<Rightarrow> string \<Rightarrow> machine \<Rightarrow> (cliErr + state) \<times> machine" where
  "enrolCommand cm seed answers server token m = (case openAgent cm seed m of
      Inl e \<Rightarrow> (Inl e, m)
    | Inr ag \<Rightarrow> (case enrol (cm_env cm) server token (ag\<lparr>ag_net := answers\<rparr>) of
        (Some e, ag1) \<Rightarrow> (Inl (AgentErr e), setDisk (ag_disk ag1) m)
      | (None, ag1) \<Rightarrow> (Inr (ag_st ag1), setDisk (ag_disk ag1) m)))"

definition printKey :: "golib \<Rightarrow> string option \<Rightarrow> (string \<times> string \<times> string) option" where
  "printKey lib seed = map_option (\<lambda>s. (publicHex lib s, deviceID lib s, fingerprint lib s)) seed"

section \<open>The settings page\<close>

text \<open>The machine as each try found it; the last try is the one after the deadline.\<close>

fun dialUntil :: "cmdenv \<Rightarrow> machine list \<Rightarrow> cliErr + settingsClient option" where
  "dialUntil cm [] = Inr None"
| "dialUntil cm (m # ms) = (case fst (dialSettings cm m) of
      Inr None \<Rightarrow> if cm_settings cm = [] then Inr None else dialUntil cm ms
    | r \<Rightarrow> r)"

definition settingsCommand :: "cmdenv \<Rightarrow> machine list \<Rightarrow> cliErr + string" where
  "settingsCommand cm ms = (case dialUntil cm ms of
      Inl e \<Rightarrow> Inl e
    | Inr None \<Rightarrow> Inl NoPage
    | Inr (Some c) \<Rightarrow> Inr (''http://'' @ cl_host c @ ''/?t='' @ cl_token c))"

section \<open>One agent per PC\<close>

text \<open>The locks that are held, by directory and name; the system releases one when its process ends.\<close>

definition lockInstance :: "bool \<Rightarrow> bool \<Rightarrow> string \<Rightarrow> string \<Rightarrow> (string \<times> string) set \<Rightarrow> (string \<times> string) set option" where
  "lockInstance dirOk opens dir name held =
     (if \<not> dirOk \<or> \<not> opens \<or> (dir, name) \<in> held then None else Some (insert (dir, name) held))"

text \<open>Where to ask for another user's gateway, and whether its answer is one.\<close>

definition agentAddr :: "string \<Rightarrow> string option" where
  "agentAddr addr = (case splitHostPort addr of None \<Rightarrow> None
   | Some (host, port) \<Rightarrow>
       let h = (if host = [] \<or> (case parseIP host of None \<Rightarrow> False | Some ip \<Rightarrow> list_all (\<lambda>g. g = 0) ip \<or> ip = [0, 0, 0, 0, 0, 65535, 0, 0])
                then ''127.0.0.1'' else host) in
       Some (''https://'' @ joinHostPort h port @ discoveryPath))"

definition agentAnswers :: "(string \<Rightarrow> (nat \<times> string option) option) \<Rightarrow> string \<Rightarrow> bool" where
  "agentAnswers http_get addr = (case agentAddr addr of None \<Rightarrow> False
   | Some u \<Rightarrow> (case http_get u of Some (status, Some dev) \<Rightarrow> status = 200 \<and> dev \<noteq> [] | _ \<Rightarrow> False))"

datatype notice = OtherUser | PortTaken string string

text \<open>
  One round of \<^verbatim>\<open>listenWhenFree\<close> for a wait that has or has not told the person yet: what listening gave, whether another
  user's agent answers, and who holds the port.  \<open>other\<close> is \<^verbatim>\<open>toldOtherUser\<close>, which both waits share.
\<close>

datatype waitOutcome = Listening | Failed | Waiting

definition listenRound :: "string \<Rightarrow> listening \<times> bool \<times> string \<Rightarrow> bool \<Rightarrow> bool \<Rightarrow> waitOutcome \<times> notice list \<times> bool \<times> bool" where
  "listenRound port r told other = (case r of (l, answers, holder) \<Rightarrow> (case l of
      Listens \<Rightarrow> (Listening, [], told, other)
    | CannotListen \<Rightarrow> (Failed, [], told, other)
    | InUse \<Rightarrow>
        if told then (Waiting, [], told, other)
        else if answers then (Waiting, (if other then [] else [OtherUser]), True, True)
        else (Waiting, [PortTaken holder port], True, other)))"

text \<open>The rounds of the gateway's and the settings page's wait as they fall; \<open>True\<close> is the gateway's.\<close>

fun waitBoth :: "string \<Rightarrow> string \<Rightarrow> (bool \<times> listening \<times> bool \<times> string) list \<Rightarrow> bool \<times> bool \<Rightarrow> bool \<Rightarrow> notice list" where
  "waitBoth p q [] told other = []"
| "waitBoth p q ((gateway, r) # rs) (t1, t2) other =
     (if gateway then (case listenRound p r t1 other of (_, ns, t, o') \<Rightarrow> ns @ waitBoth p q rs (t, t2) o')
      else (case listenRound q r t2 other of (_, ns, t, o') \<Rightarrow> ns @ waitBoth p q rs (t1, t) o'))"

fun listenWhenFree :: "string \<Rightarrow> (listening \<times> bool \<times> string) list \<Rightarrow> bool \<Rightarrow> bool \<Rightarrow> waitOutcome \<times> notice list" where
  "listenWhenFree port [] told other = (Waiting, [])"
| "listenWhenFree port (r # rs) told other = (case listenRound port r told other of
      (Waiting, ns, t, o') \<Rightarrow> (case listenWhenFree port rs t o' of (w, ns') \<Rightarrow> (w, ns @ ns'))
    | (w, ns, t, o') \<Rightarrow> (w, ns))"

section \<open>Opening the app\<close>

datatype opened = AnotherUser | NoPlan | InstallFailed | ReopenFailed | Page "cliErr + string"

definition openCommand ::
  "cmdenv \<Rightarrow> bool \<Rightarrow> bool \<Rightarrow> servicePlan option \<Rightarrow> bool \<Rightarrow> (string \<Rightarrow> bool) \<Rightarrow> string \<Rightarrow> (string list \<Rightarrow> bool) \<Rightarrow> manifests \<Rightarrow> machine list
     \<Rightarrow> opened \<times> manifests \<times> string list list" where
  "openCommand cm locked answers plan dirOk writes user works fs ms =
     (if locked \<and> answers then (AnotherUser, fs, [])
      else case plan of None \<Rightarrow> (NoPlan, fs, [])
      | Some p \<Rightarrow>
          if fs (pf_path (hd (sp_files p))) = None then
            (case installService plan dirOk writes user works fs of
               (False, fs', log) \<Rightarrow> (InstallFailed, fs', log) | (True, fs', log) \<Rightarrow> (Page (settingsCommand cm ms), fs', log))
          else (case runPlan user works (sp_reopen p) of
               (log, False) \<Rightarrow> (ReopenFailed, fs, log) | (log, True) \<Rightarrow> (Page (settingsCommand cm ms), fs, log)))"

section \<open>The first argument\<close>

datatype action = Serve | PrintKey | PrintDiscovered | OpenSettings | Menubar | OpenApp | ShareWith "string list" | SignInAt string | SignOutHere
  | EnrolWith string string | InstallService | UninstallService

datatype runErr = BadConfig configErr | NoLogFile | AlreadyRunning | LoginUsage | EnrolUsage | NoSuchCommand string

definition dispatch :: "string \<Rightarrow> string list \<Rightarrow> runErr + action" where
  "dispatch command args =
     (if command = ''run'' then Inr Serve else if command = ''key'' then Inr PrintKey
      else if command = ''discover'' then Inr PrintDiscovered else if command = ''settings'' then Inr OpenSettings
      else if command = ''menubar'' then Inr Menubar else if command = ''open'' then Inr OpenApp
      else if command = ''share'' then Inr (ShareWith args)
      else if command = ''login'' then (case args of [server] \<Rightarrow> Inr (SignInAt server) | _ \<Rightarrow> Inl LoginUsage)
      else if command = ''logout'' then Inr SignOutHere
      else if command = ''enrol'' then (case args of [server, token] \<Rightarrow> Inr (EnrolWith server token) | _ \<Rightarrow> Inl EnrolUsage)
      else if command = ''install'' then Inr InstallService else if command = ''uninstall'' then Inr UninstallService
      else Inl (NoSuchCommand command))"

text \<open>\<open>load\<close> is \<^verbatim>\<open>loadConfig\<close> in the environment the arguments made; the locks are as in \<^const>\<open>lockInstance\<close>.\<close>

definition agent_run ::
  "((string \<times> string) list \<Rightarrow> configErr + agentConfig) \<Rightarrow> (string \<Rightarrow> bool) \<Rightarrow> bool \<Rightarrow> (string \<times> string) set \<Rightarrow> string list \<Rightarrow> (runErr + action) \<times> (string \<times> string) set" where
  "agent_run load logOpens lockOk held args0 =
     (case (case args0 of [] \<Rightarrow> (''run'', []) | c # args \<Rightarrow> (c, args)) of (command, args1) \<Rightarrow>
      (case applyEnvArgs args1 of (vars, args) \<Rightarrow>
      (case load vars of Inl e \<Rightarrow> (Inl (BadConfig e), held)
       | Inr cfg \<Rightarrow>
          if ac_logFile cfg \<noteq> [] \<and> \<not> logOpens (ac_logFile cfg) then (Inl NoLogFile, held)
          else if command = ''run'' \<or> command = ''menubar'' then (case lockInstance lockOk lockOk (ac_dir cfg) command held of
              None \<Rightarrow> (Inl AlreadyRunning, held) | Some held' \<Rightarrow> (dispatch command args, held'))
          else (dispatch command args, held))))"

section \<open>The person is told once\<close>

lemma listenRound_told:
  assumes "listenRound port r told other = (w, ns, told', other')"
  shows "length ns + (if told then 1 else 0) \<le> (if told' then 1 else (0::nat)) \<and> (told \<longrightarrow> told') \<and>
    count_list ns OtherUser + (if other then 1 else 0) \<le> (if other' then 1 else (0::nat))"
  using assms by (auto simp: listenRound_def split: prod.splits listening.splits if_splits)

lemma waitBoth_told:
  "length (waitBoth p q rs (t1, t2) other) + (if t1 then 1 else 0) + (if t2 then 1 else 0) \<le> 2 \<and>
   count_list (waitBoth p q rs (t1, t2) other) OtherUser + (if other then 1 else 0) \<le> 1"
proof (induction rs arbitrary: t1 t2 other)
  case (Cons x rs)
  obtain gateway r where x: "x = (gateway, r)" by (cases x)
  show ?case
  proof (cases gateway)
    case True
    obtain w ns t o' where round: "listenRound p r t1 other = (w, ns, t, o')" by (metis prod_cases4)
    then show ?thesis
      using Cons.IH [of t t2 o'] listenRound_told [OF round] True by (auto simp: x split: if_splits)
  next
    case False
    obtain w ns t o' where round: "listenRound q r t2 other = (w, ns, t, o')" by (metis prod_cases4)
    then show ?thesis
      using Cons.IH [of t1 t o'] listenRound_told [OF round] False by (auto simp: x split: if_splits)
  qed
qed simp

text \<open>
  A taken port is said once.  However long the gateway and the settings page both wait, in whatever order their tries
  fall and whatever they find, each of the two puts at most one message on the screen, and that another user's agent
  runs is said at most once by both together.
\<close>

theorem taken_port_told_once:
  "length (waitBoth p q rs (False, False) False) \<le> 2 \<and> count_list (waitBoth p q rs (False, False) False) OtherUser \<le> 1"
  using waitBoth_told [of p q rs False False False] by simp

text \<open>
  A port that becomes free is taken: after any number of tries that found it in use, the first that finds it free listens.
\<close>

lemma listens_when_free:
  assumes "list_all (\<lambda>r. fst r = InUse) rs" "fst r = Listens"
  shows "fst (listenWhenFree port (rs @ r # rest) told other) = Listening"
  using assms
proof (induction rs arbitrary: told other)
  case (Cons x rs)
  obtain answers holder where "x = (InUse, answers, holder)" using Cons.prems(1) by (cases x) auto
  then have "fst (listenRound port x told other) = Waiting" by (simp add: listenRound_def)
  then obtain ns t o' where "listenRound port x told other = (Waiting, ns, t, o')" by (cases "listenRound port x told other") auto
  moreover have "fst (listenWhenFree port (rs @ r # rest) t o') = Listening" using Cons by simp
  ultimately show ?case by (cases "listenWhenFree port (rs @ r # rest) t o'") simp
qed (auto simp: listenRound_def split: prod.splits)

section \<open>Enrolling behind a running agent\<close>

text \<open>
  C39. An enrolment from the command line is lost while an agent runs.  The command writes the account into the file behind
  the running agent, which goes on signed out, and the next change that agent writes takes the account out again.
\<close>

theorem enrolment_lost_under_running_agent:
  assumes agent: "mc_agent m = Some (se, ag)"
    and enrol: "enrolCommand cm seed answers server token m = (Inr st, m1)" "mc_agent m1 = Some (se, ag1)"
    and change: "setErrorReports (cm_env cm) on ag1 = (None, ag2)"
  shows "holds (ae_codec (cm_env cm)) st (ag_disk ag1) \<and> ag_st ag1 = ag_st ag \<and>
    holds (ae_codec (cm_env cm)) ((ag_st ag)\<lparr>st_reportsOff := \<not> on\<rparr>) (ag_disk ag2)"
proof -
  obtain ag0 ag' where run: "CommandLine.openAgent cm seed m = Inr ag0"
      "AgentCore.enrol (cm_env cm) server token (ag0\<lparr>ag_net := answers\<rparr>) = (None, ag')" "st = ag_st ag'" "m1 = setDisk (ag_disk ag') m"
    using enrol(1) by (auto simp: enrolCommand_def split: sum.splits prod.splits option.splits)
  then have ag1: "ag1 = ag\<lparr>ag_disk := ag_disk ag'\<rparr>" using agent enrol(2) by (simp add: setDisk_def)
  have "holds (ae_codec (cm_env cm)) st (ag_disk ag')"
    using enrol_written [OF run(2)] run(3) by simp
  then show ?thesis
    using change ag1 by (auto simp: setErrorReports_def save_def saveState_def holds_def Let_def split: prod.splits fileOp.splits option.splits)
qed

theorem enrolment_lost_under_running_agent_witness:
  "\<exists>st m1 ag1 ag2. enrolCommand demo_cm (Some ''seed'') [Answered demo_ok, Answered noAnswer] ''http://pc'' ''tok'' demo_served = (Inr st, m1) \<and>
     enrolled st \<and> mc_agent m1 = Some (demo_settings, ag1) \<and> setErrorReports demo_env False ag1 = (None, ag2) \<and>
     holds demo_codec (demo_state\<lparr>st_reportsOff := True\<rparr>) (ag_disk ag2)"
proof -
  let ?ag = "(newAgent ''seed'' demo_state demo_disk)\<lparr>ag_net := [Answered demo_ok, Answered noAnswer]\<rparr>"
  have env: "cm_env demo_cm = demo_env" "cm_hostname demo_cm = None" by (simp_all add: demo_cm_def)
  have served: "mc_agent demo_served = Some (demo_settings, demo_agent)" by (simp add: demo_served_def)
  have load: "loadState demo_url demo_codec None demo_disk = (Inr demo_state, demo_disk)"
    by (rule loadState_holds [OF demo_codec_ok _ demo_state_ok]) (simp_all add: holds_def demo_disk_def)
  have run: "\<exists>ag'. AgentCore.enrol demo_env ''http://pc'' ''tok'' ?ag = (None, ag') \<and> dk_ops (ag_disk ag') = [] \<and>
      enrolled (ag_st ag')"
    using demo_server demo_trims demo_fresh(2)
    by (auto simp: AgentCore.enrol_def post_def agent_syncApps_def save_def saveState_def nextOp_def Let_def newAgent_def demo_ok_def demo_env_simps
        enrolled_def deviceID_def toy_lib_def demo_state_def)
  then obtain ag' where ag': "AgentCore.enrol demo_env ''http://pc'' ''tok'' ?ag = (None, ag')" "dk_ops (ag_disk ag') = []" "enrolled (ag_st ag')"
    by blast
  let ?m1 = "setDisk (ag_disk ag') demo_served" and ?ag1 = "demo_agent\<lparr>ag_disk := ag_disk ag'\<rparr>"
  have cmd: "enrolCommand demo_cm (Some ''seed'') [Answered demo_ok, Answered noAnswer] ''http://pc'' ''tok'' demo_served = (Inr (ag_st ag'), ?m1)"
    using ag'(1) load by (simp add: enrolCommand_def openAgent_def loadAgent_def env served diskOf_def demo_env_simps)
  have m1: "mc_agent ?m1 = Some (demo_settings, ?ag1)" by (simp add: setDisk_def served)
  obtain ag2 where change: "setErrorReports (cm_env demo_cm) False ?ag1 = (None, ag2)"
    using ag'(2) by (simp add: setErrorReports_def save_def saveState_def nextOp_def Let_def)
  show ?thesis
    using enrolment_lost_under_running_agent [OF served cmd m1 change] cmd m1 change ag'(3) by (auto simp: env demo_env_simps)
qed

end
