(* ===== verification/Discovery.thy ===== *)
theory Discovery
  imports LanTls
begin

text \<open>
  \<^verbatim>\<open>device/agent/mdns.go\<close> and the answering half of \<^verbatim>\<open>responder.go\<close>: the record a PC announces on the LAN and what a client
  reads out of it, which addresses it names, when it is announced again, and how a query is answered.  Sockets, the
  interfaces and the zone's records are arguments.
\<close>

section \<open>The record\<close>

definition maxAppsTXT :: nat where "maxAppsTXT = 200"
definition protocolVersion :: nat where "protocolVersion = 2"

datatype mdnsErr = InstanceTooLong nat | ServiceError | ResponderError

definition instanceName :: "golib \<Rightarrow> state \<Rightarrow> string \<Rightarrow> mdnsErr + string" where
  "instanceName lib s seed =
     (let name = st_name s @ '' '' @ take instanceIDLen (deviceID lib seed) in
      if length name > maxInstanceName then Inl (InstanceTooLong (length name)) else Inr name)"

text \<open>The builder loop of \<^verbatim>\<open>appsTXT\<close>.\<close>

fun appsTXTLoop :: "string \<Rightarrow> string list \<Rightarrow> string" where
  "appsTXTLoop b [] = b"
| "appsTXTLoop b (name # names) =
     (if length b + length name + 1 > maxAppsTXT then b
      else appsTXTLoop (b @ (if b \<noteq> [] then '','' else []) @ name) names)"

definition appsTXT :: "string list \<Rightarrow> string" where
  "appsTXT names = appsTXTLoop [] names"

definition txtRecords :: "golib \<Rightarrow> state \<Rightarrow> string \<Rightarrow> string list" where
  "txtRecords lib s seed =
     [''v='' @ itoa protocolVersion, ''id='' @ deviceID lib seed, ''name='' @ st_name s, ''apps='' @ appsTXT (appNames (st_apps s))]"

record serviceEntry =
  se_name :: string
  se_host :: string
  se_port :: nat
  se_addrV4 :: "string option"
  se_fields :: "string list"

record found =
  fd_instance :: string
  fd_deviceID :: string
  fd_name :: string
  fd_apps :: "string list"
  fd_version :: string
  fd_address :: string

definition fromField :: "string \<Rightarrow> found \<Rightarrow> found" where
  "fromField fld f = (case cutAt (CHR ''='') fld of
      (_, _, False) \<Rightarrow> f
    | (key, v, True) \<Rightarrow>
        if key = ''id'' then f\<lparr>fd_deviceID := v\<rparr>
        else if key = ''name'' then f\<lparr>fd_name := v\<rparr>
        else if key = ''v'' then f\<lparr>fd_version := v\<rparr>
        else if key = ''apps'' then (if v \<noteq> [] then f\<lparr>fd_apps := splitOn (CHR '','') v\<rparr> else f)
        else f)"

definition fromEntry :: "serviceEntry \<Rightarrow> found" where
  "fromEntry e = fold fromField (se_fields e)
     \<lparr>fd_instance = se_name e, fd_deviceID = [], fd_name = [], fd_apps = [], fd_version = [],
      fd_address = joinHostPort (case se_addrV4 e of Some ip \<Rightarrow> ip | None \<Rightarrow> se_host e) (itoa (se_port e))\<rparr>"

section \<open>The addresses\<close>

record interface =
  if_name :: string
  if_up :: bool
  if_loopback :: bool
  if_multicast :: bool
  if_addrs :: "nat list option list option"

definition to4 :: "nat list \<Rightarrow> bool" where
  "to4 ip \<longleftrightarrow> take 6 ip = [0, 0, 0, 0, 0, 65535]"

definition isPrivate :: "nat list \<Rightarrow> bool" where
  "isPrivate ip \<longleftrightarrow> ip ! 6 div 256 = 10 \<or> (ip ! 6 div 256 = 172 \<and> ip ! 6 mod 256 div 16 = 1) \<or> ip ! 6 = 192 * 256 + 168"

definition multicastInterface :: "interface list option \<Rightarrow> interface option" where
  "multicastInterface ifaces = (case ifaces of None \<Rightarrow> None
   | Some is \<Rightarrow> find (\<lambda>i. if_up i \<and> \<not> if_loopback i \<and> if_multicast i \<and>
       (case if_addrs i of None \<Rightarrow> False | Some as \<Rightarrow> list_ex (\<lambda>a. case a of None \<Rightarrow> False | Some ip \<Rightarrow> to4 ip) as)) is)"

definition localAddrs :: "interface option \<Rightarrow> nat list list" where
  "localAddrs iface =
     (let ips = (case iface of None \<Rightarrow> [] | Some i \<Rightarrow> (case if_addrs i of None \<Rightarrow> []
        | Some as \<Rightarrow> List.map_filter (\<lambda>a. case a of None \<Rightarrow> None | Some ip \<Rightarrow> if to4 ip \<and> isPrivate ip then Some ip else None) as))
      in if ips = [] then [ipv4 127 0 0 1] else ips)"

text \<open>Everything the record and the certificate are made from on this network.\<close>

type_synonym network = "string \<times> nat list list \<times> nat list list"

definition networkState :: "interface list option \<Rightarrow> nat list option list option \<Rightarrow> network" where
  "networkState ifaces all =
     (let i = multicastInterface ifaces in (case i of None \<Rightarrow> [] | Some x \<Rightarrow> if_name x, localAddrs i, localAddresses all))"

section \<open>Keeping it current\<close>

text \<open>
  What \<^verbatim>\<open>advertise\<close> registers; \<open>ok\<close> is whether the service and its sockets came up.  A registration replaces the
  one before it, and a failed one leaves it.
\<close>

record advertised =
  ad_instance :: string
  ad_host :: string
  ad_addrs :: "nat list list"
  ad_text :: "string list"

definition advertise ::
  "golib \<Rightarrow> state \<Rightarrow> string \<Rightarrow> interface list option \<Rightarrow> bool \<Rightarrow> advertised option \<Rightarrow> mdnsErr option \<times> advertised option" where
  "advertise lib s seed ifaces ok old = (case instanceName lib s seed of
      Inl e \<Rightarrow> (Some e, old)
    | Inr inst \<Rightarrow>
        if \<not> ok then (Some ResponderError, old)
        else (None, Some \<lparr>ad_instance = inst, ad_host = ''af-'' @ take instanceIDLen (deviceID lib seed) @ ''.local.'',
          ad_addrs = localAddrs (multicastInterface ifaces), ad_text = txtRecords lib s seed\<rparr>))"

record keeper =
  kp_network :: network
  kp_advertised :: "(network \<times> string list) option"
  kp_wait :: int
  kp_retryAt :: int
  kp_cert :: "certificate option"
  kp_srv :: "advertised option"

text \<open>
  One round of \<^verbatim>\<open>keepAdvertised\<close>.  \<open>ad\<close> says whether mDNS is on, \<open>ok\<close> how registering ends, \<open>r\<close> the random draw.
  The text the code compares is the network and the record, which here is the pair of them.
\<close>

definition keepRound ::
  "golib \<Rightarrow> string \<Rightarrow> bool \<Rightarrow> int \<Rightarrow> interface list option \<Rightarrow> nat list option list option \<Rightarrow> state \<Rightarrow> bool \<Rightarrow> int \<Rightarrow> keeper \<Rightarrow> keeper" where
  "keepRound lib seed ad t ifaces all st ok r k0 =
     (let k = (if networkState ifaces all \<noteq> kp_network k0
               then k0\<lparr>kp_network := networkState ifaces all, kp_cert := lanCert_renew (kp_cert k0)\<rparr> else k0);
          want = (kp_network k, txtRecords lib st seed) in
      if ad \<and> kp_advertised k \<noteq> Some want \<and> \<not> t < kp_retryAt k
      then (case advertise lib st seed ifaces ok (kp_srv k) of
          (Some e, srv) \<Rightarrow> let w = min (max (2 * kp_wait k) second) minute in
             k\<lparr>kp_wait := w, kp_retryAt := t + jittered w r, kp_srv := srv\<rparr>
        | (None, srv) \<Rightarrow> k\<lparr>kp_advertised := Some want, kp_wait := 0, kp_srv := srv\<rparr>)
      else k)"

section \<open>Answering\<close>

record dnsQuestion =
  dq_name :: string
  dq_type :: nat
  dq_class :: nat

record dnsMsg =
  dm_id :: nat
  dm_response :: bool
  dm_opcode :: nat
  dm_rcode :: nat
  dm_authoritative :: bool
  dm_question :: "dnsQuestion list"
  dm_answer :: "string list"

definition mdnsPort :: nat where "mdnsPort = 5353"

definition reply :: "nat \<Rightarrow> string list \<Rightarrow> dnsMsg option" where
  "reply ident rrs = (if rrs = [] then None
     else Some \<lparr>dm_id = ident, dm_response = True, dm_opcode = 0, dm_rcode = 0, dm_authoritative = True, dm_question = [], dm_answer = rrs\<rparr>)"

definition wantsUnicast :: "dnsQuestion \<Rightarrow> bool" where
  "wantsUnicast q \<longleftrightarrow> odd (dq_class q div 2 ^ 15)"

definition answer_query :: "(dnsQuestion \<Rightarrow> string list) \<Rightarrow> dnsMsg \<Rightarrow> nat \<Rightarrow> dnsMsg option \<times> dnsMsg option" where
  "answer_query zone msg fromPort =
     (if dm_response msg \<or> dm_opcode msg \<noteq> 0 \<or> dm_rcode msg \<noteq> 0 then (None, None)
      else let legacy = (fromPort \<noteq> mdnsPort);
               uni = concat (map zone (filter (\<lambda>q. legacy \<or> wantsUnicast q) (dm_question msg)));
               multi = concat (map zone (filter (\<lambda>q. \<not> (legacy \<or> wantsUnicast q)) (dm_question msg)))
        in (reply 0 multi,
            map_option (\<lambda>m. if legacy then m\<lparr>dm_question := dm_question msg\<rparr> else m) (reply (dm_id msg) uni)))"

section \<open>What a client reads is what the PC is\<close>

lemma joinWith_snoc: "joinWith sep (ws @ [w]) = (if ws = [] then w else joinWith sep ws @ sep @ w)"
proof (induction ws)
  case (Cons v ws)
  then show ?case by (cases ws) auto
qed simp

lemma joinWith_Nil: "\<forall>w \<in> set ws. w \<noteq> [] \<Longrightarrow> joinWith sep ws = [] \<longleftrightarrow> ws = []"
  by (induction sep ws rule: joinWith.induct) auto

lemma appsTXTLoop_prefix:
  "b = joinWith '','' ds \<Longrightarrow> length b \<le> maxAppsTXT \<Longrightarrow> \<forall>n \<in> set (ds @ names). n \<noteq> [] \<Longrightarrow>
   \<exists>k \<le> length names. appsTXTLoop b names = joinWith '','' (ds @ take k names) \<and> length (appsTXTLoop b names) \<le> maxAppsTXT \<and>
     (k < length names \<longrightarrow> length (appsTXTLoop b names) + length (names ! k) + 1 > maxAppsTXT)"
proof (induction names arbitrary: b ds)
  case (Cons name names)
  show ?case
  proof (cases "length b + length name + 1 > maxAppsTXT")
    case True
    then show ?thesis using Cons.prems by (intro exI [of _ 0]) simp
  next
    case False
    let ?b = "b @ (if b \<noteq> [] then '','' else []) @ name"
    have ne: "b = [] \<longleftrightarrow> ds = []"
      using Cons.prems(1,3) joinWith_Nil [of ds] by auto
    then have "?b = joinWith '','' (ds @ [name])"
      using Cons.prems(1) joinWith_snoc [of "'',''" ds name] by auto
    moreover have "length ?b \<le> maxAppsTXT" using False by simp
    moreover have "\<forall>n \<in> set ((ds @ [name]) @ names). n \<noteq> []" using Cons.prems(3) by simp
    ultimately obtain k where "k \<le> length names" "appsTXTLoop ?b names = joinWith '','' ((ds @ [name]) @ take k names)"
        "length (appsTXTLoop ?b names) \<le> maxAppsTXT"
        "k < length names \<longrightarrow> length (appsTXTLoop ?b names) + length (names ! k) + 1 > maxAppsTXT"
      using Cons.IH [of ?b "ds @ [name]"] by blast
    then show ?thesis using False by (intro exI [of _ "Suc k"]) simp
  qed
qed auto

lemma appsTXT_prefix:
  assumes "\<forall>n \<in> set names. n \<noteq> []"
  obtains k where "k \<le> length names" "appsTXT names = joinWith '','' (take k names)" "length (appsTXT names) \<le> maxAppsTXT"
    "k < length names \<Longrightarrow> length (appsTXT names) + length (names ! k) + 1 > maxAppsTXT"
proof -
  have "[] = joinWith '','' []" "length ([] :: string) \<le> maxAppsTXT" "\<forall>n \<in> set ([] @ names). n \<noteq> []" using assms by simp_all
  from appsTXTLoop_prefix [OF this] show ?thesis using that unfolding appsTXT_def append_Nil by blast
qed

lemma deviceID_length: "length (lib_sha256 lib (lib_public lib seed)) = 32 \<Longrightarrow> length (deviceID lib seed) = 64"
  by (simp add: deviceID_def)

lemma fields_read_back:
  "fold fromField [''v='' @ v, ''id='' @ i, ''name='' @ n, ''apps='' @ a] f =
    (let g = f\<lparr>fd_version := v, fd_deviceID := i, fd_name := n\<rparr> in if a = [] then g else g\<lparr>fd_apps := splitOn (CHR '','') a\<rparr>)"
proof -
  have "cutAt (CHR ''='') (''v='' @ v) = (''v'', v, True)" "cutAt (CHR ''='') (''id='' @ i) = (''id'', i, True)"
    "cutAt (CHR ''='') (''name='' @ n) = (''name'', n, True)" "cutAt (CHR ''='') (''apps='' @ a) = (''apps'', a, True)"
    using cutAt_append [of "CHR ''=''" "''v''" v] cutAt_append [of "CHR ''=''" "''id''" i]
      cutAt_append [of "CHR ''=''" "''name''" n] cutAt_append [of "CHR ''=''" "''apps''" a] by simp_all
  then show ?thesis by (simp add: fromField_def del: append.simps)
qed

lemma fromEntry_record:
  assumes "se_fields e = txtRecords lib s seed"
  shows "fd_version (fromEntry e) = itoa protocolVersion" "fd_deviceID (fromEntry e) = deviceID lib seed"
    "fd_name (fromEntry e) = st_name s"
    "fd_apps (fromEntry e) = (if appsTXT (appNames (st_apps s)) = [] then [] else splitOn (CHR '','') (appsTXT (appNames (st_apps s))))"
  unfolding fromEntry_def assms txtRecords_def fields_read_back Let_def by simp_all

lemma valid_name_plain: "appname_Valid n \<Longrightarrow> n \<noteq> [] \<and> CHR '','' \<notin> set n"
  by (auto simp: appname_Valid_def pattern_iff name_char_def name_start_def is_lower_letter_def is_digit_def byte_def)


section \<open>Only private addresses are named\<close>

lemma in_map_filter: "y \<in> set (List.map_filter f xs) \<longleftrightarrow> (\<exists>x \<in> set xs. f x = Some y)"
  by (induction xs) (auto simp: List.map_filter_simps split: option.splits)

text \<open>
  The record names no public address.  Whatever the interfaces hold, every address announced on the LAN is a private IPv4
  address of the interface the answer leaves on, or loopback when there is none, and there is always at least one.
\<close>

theorem only_private_addresses_announced:
  "localAddrs iface \<noteq> [] \<and>
   (\<forall>ip \<in> set (localAddrs iface). ip = ipv4 127 0 0 1 \<or>
      to4 ip \<and> isPrivate ip \<and> (\<exists>i as. iface = Some i \<and> if_addrs i = Some as \<and> Some ip \<in> set as))"
proof -
  have "ip = ipv4 127 0 0 1 \<or> to4 ip \<and> isPrivate ip \<and> (\<exists>i as. iface = Some i \<and> if_addrs i = Some as \<and> Some ip \<in> set as)"
    if "ip \<in> set (localAddrs iface)" for ip
    using that by (auto simp: localAddrs_def Let_def in_map_filter split: option.splits if_splits)
  then show ?thesis by (simp add: localAddrs_def Let_def)
qed

section \<open>Queries are answered once\<close>

lemma reply_Some: "reply n rrs = Some m \<Longrightarrow> dm_response m \<and> dm_answer m = rrs \<and> dm_id m = n \<and> rrs \<noteq> []"
  by (auto simp: reply_def split: if_splits)

lemma answers_of: "(case reply n rrs of None \<Rightarrow> [] | Some m \<Rightarrow> dm_answer m) = rrs"
  by (simp add: reply_def)

text \<open>
  An answer is never answered, and no record is lost or sent twice.  What comes back to the PC through loopback, a message
  that is a response, gets nothing; every record the zone has for a query goes out once, on the group or to the sender;
  a sender that is not listening on the group gets all of it, under its own id and with its questions.
\<close>

theorem queries_answered_once:
  assumes "answer_query zone msg p = (multi, uni)"
  shows "(\<forall>m. (multi = Some m \<or> uni = Some m) \<longrightarrow> answer_query zone m p' = (None, None)) \<and>
    (\<not> dm_response msg \<and> dm_opcode msg = 0 \<and> dm_rcode msg = 0 \<longrightarrow>
       mset ((case multi of None \<Rightarrow> [] | Some m \<Rightarrow> dm_answer m) @ (case uni of None \<Rightarrow> [] | Some m \<Rightarrow> dm_answer m)) =
         mset (concat (map zone (dm_question msg)))) \<and>
    (p \<noteq> mdnsPort \<longrightarrow> multi = None \<and> (\<forall>m. uni = Some m \<longrightarrow> dm_id m = dm_id msg \<and> dm_question m = dm_question msg))"
proof -
  have part: "mset (concat (map zone (filter (\<lambda>q. \<not> P q) qs))) + mset (concat (map zone (filter P qs))) = mset (concat (map zone qs))" for P qs
    by (induction qs) simp_all
  show ?thesis
  proof (cases "dm_response msg \<or> dm_opcode msg \<noteq> 0 \<or> dm_rcode msg \<noteq> 0")
    case True
    then show ?thesis using assms by (auto simp: answer_query_def)
  next
    case False
    let ?u = "\<lambda>q. p \<noteq> mdnsPort \<or> wantsUnicast q"
    let ?uni = "concat (map zone (filter ?u (dm_question msg)))" and ?multi = "concat (map zone (filter (\<lambda>q. \<not> ?u q) (dm_question msg)))"
    have m: "multi = reply 0 ?multi"
        "uni = map_option (\<lambda>m. if p \<noteq> mdnsPort then m\<lparr>dm_question := dm_question msg\<rparr> else m) (reply (dm_id msg) ?uni)"
      using assms False by (simp_all add: answer_query_def Let_def)
    have "(case uni of None \<Rightarrow> [] | Some m \<Rightarrow> dm_answer m) = ?uni" by (simp add: m reply_def)
    moreover have "(case multi of None \<Rightarrow> [] | Some m \<Rightarrow> dm_answer m) = ?multi" by (simp add: m answers_of)
    moreover have "multi = None" if "p \<noteq> mdnsPort" using that by (simp add: m reply_def)
    ultimately show ?thesis
      using part [of ?u "dm_question msg"] m by (auto simp: answer_query_def dest!: reply_Some)
  qed
qed

section \<open>The record stays current\<close>

definition announces :: "golib \<Rightarrow> string \<Rightarrow> keeper \<Rightarrow> bool" where
  "announces lib seed k \<longleftrightarrow> (kp_wait k = 0 \<or> second \<le> kp_wait k \<and> kp_wait k \<le> minute) \<and>
     (\<forall>n text. kp_advertised k = Some (n, text) \<longrightarrow> (\<exists>a. kp_srv k = Some a \<and> ad_text a = text \<and> ad_addrs a = fst (snd n)))"

record keepInput =
  ki_time :: int
  ki_ifaces :: "interface list option"
  ki_all :: "nat list option list option"
  ki_state :: state
  ki_ok :: bool
  ki_draw :: int

definition keepStep :: "golib \<Rightarrow> string \<Rightarrow> keepInput \<Rightarrow> keeper \<Rightarrow> keeper" where
  "keepStep lib seed i = keepRound lib seed True (ki_time i) (ki_ifaces i) (ki_all i) (ki_state i) (ki_ok i) (ki_draw i)"

lemma keepStep_announces:
  assumes "announces lib seed k"
  shows "announces lib seed (keepStep lib seed i k)"
proof -
  define k1 where "k1 = (if networkState (ki_ifaces i) (ki_all i) \<noteq> kp_network k
      then k\<lparr>kp_network := networkState (ki_ifaces i) (ki_all i), kp_cert := lanCert_renew (kp_cert k)\<rparr> else k)"
  have k1: "announces lib seed k1" "kp_network k1 = networkState (ki_ifaces i) (ki_all i)"
    using assms by (auto simp: k1_def announces_def)
  let ?want = "(kp_network k1, txtRecords lib (ki_state i) seed)"
  obtain e srv where ad: "advertise lib (ki_state i) seed (ki_ifaces i) (ki_ok i) (kp_srv k1) = (e, srv)" by fastforce
  have step: "keepStep lib seed i k = (if kp_advertised k1 \<noteq> Some ?want \<and> \<not> ki_time i < kp_retryAt k1
      then (case e of Some _ \<Rightarrow> let w = min (max (2 * kp_wait k1) second) minute in
             k1\<lparr>kp_wait := w, kp_retryAt := ki_time i + jittered w (ki_draw i), kp_srv := srv\<rparr>
          | None \<Rightarrow> k1\<lparr>kp_advertised := Some ?want, kp_wait := 0, kp_srv := srv\<rparr>) else k1)"
    by (simp add: keepStep_def keepRound_def Let_def ad k1_def [symmetric] split: option.splits)
  have failed: "srv = kp_srv k1" if "e = Some x" for x
    using ad that by (auto simp: advertise_def split: sum.splits if_splits)
  have good: "\<exists>a. srv = Some a \<and> ad_text a = txtRecords lib (ki_state i) seed \<and> ad_addrs a = fst (snd (kp_network k1))" if "e = None"
    using ad that by (auto simp: advertise_def k1(2) networkState_def Let_def split: sum.splits if_splits)
  show ?thesis
    using k1(1) failed good unfolding step by (auto simp: announces_def Let_def split: option.splits)
qed

text \<open>
  The record stays current.  Through any sequence of network changes, changes of the shares and failures to register,
  what is registered is what the agent believes it announced, failed attempts are a second to a minute apart, and as
  soon as a round may register and can, the LAN hears this PC's record with the addresses of the network it is on now.
\<close>

theorem announcement_stays_current:
  assumes start: "announces lib seed k" and k': "k' = fold (keepStep lib seed) is k"
    and ready: "kp_retryAt k' \<le> ki_time i" "ki_ok i" "instanceName lib (ki_state i) seed = Inr inst"
  shows "announces lib seed k' \<and>
    (\<exists>a. kp_srv (keepStep lib seed i k') = Some a \<and> ad_text a = txtRecords lib (ki_state i) seed \<and>
       ad_addrs a = localAddrs (multicastInterface (ki_ifaces i)))"
proof -
  have inv: "announces lib seed k'"
    unfolding k' using start by (induction "is" arbitrary: k) (simp_all add: keepStep_announces)
  let ?k = "keepStep lib seed i k'"
  have "kp_advertised ?k = Some (networkState (ki_ifaces i) (ki_all i), txtRecords lib (ki_state i) seed)"
    using ready by (auto simp: keepStep_def keepRound_def Let_def advertise_def)
  then have "\<exists>a. kp_srv ?k = Some a \<and> ad_text a = txtRecords lib (ki_state i) seed \<and> ad_addrs a = fst (snd (networkState (ki_ifaces i) (ki_all i)))"
    using keepStep_announces [OF inv, of i] by (auto simp: announces_def)
  then show ?thesis using inv by (simp add: networkState_def Let_def)
qed

section \<open>Concrete runs\<close>

definition demo_entry :: serviceEntry where
  "demo_entry = \<lparr>se_name = ''pc'', se_host = ''af-seed.local.'', se_port = 7433, se_addrV4 = None, se_fields = txtRecords toy_lib demo_state ''seed''\<rparr>"

lemma toy_sha256: "length (lib_sha256 toy_lib (lib_public toy_lib seed)) = 32"
  by (simp add: toy_lib_def)


definition demo_msg :: dnsMsg where
  "demo_msg = \<lparr>dm_id = 7, dm_response = False, dm_opcode = 0, dm_rcode = 0, dm_authoritative = False,
     dm_question = [\<lparr>dq_name = ''x'', dq_type = 12, dq_class = 1\<rparr>], dm_answer = []\<rparr>"

theorem queries_answered_once_witness:
  "fst (answer_query (\<lambda>_. [''rr'']) demo_msg 40000) = None \<and> fst (answer_query (\<lambda>_. [''rr'']) demo_msg 5353) \<noteq> None"
  using queries_answered_once [of "\<lambda>_. [''rr'']" demo_msg 40000 _ _ 0, OF prod.collapse [symmetric]]
  by (simp add: mdnsPort_def answer_query_def demo_msg_def wantsUnicast_def reply_def)

definition demo_keeper :: keeper where
  "demo_keeper = \<lparr>kp_network = networkState None None, kp_advertised = None, kp_wait = 0, kp_retryAt = 0, kp_cert = None, kp_srv = None\<rparr>"

definition demo_input :: keepInput where
  "demo_input = \<lparr>ki_time = 0, ki_ifaces = None, ki_all = None, ki_state = demo_state, ki_ok = True, ki_draw = 0\<rparr>"

theorem announcement_stays_current_witness:
  "\<exists>a. kp_srv (keepStep toy_lib ''seed'' demo_input demo_keeper) = Some a \<and> ad_text a = txtRecords toy_lib demo_state ''seed''"
proof -
  have "announces toy_lib ''seed'' demo_keeper" by (simp add: announces_def demo_keeper_def)
  moreover have "demo_keeper = fold (keepStep toy_lib ''seed'') [] demo_keeper" by simp
  moreover have "\<exists>inst. instanceName toy_lib (ki_state demo_input) ''seed'' = Inr inst"
    by (simp add: instanceName_def Let_def demo_input_def demo_state_def maxInstanceName_def instanceIDLen_def)
  ultimately show ?thesis
    using announcement_stays_current [of toy_lib "''seed''" demo_keeper demo_keeper "[]" demo_input]
    by (auto simp: demo_input_def demo_keeper_def)
qed

end
