(* ===== verification/Serve.thy ===== *)
theory Serve
  imports CommandLine Discovery
begin

text \<open>
  The life of \<^verbatim>\<open>agent run\<close>: \<^verbatim>\<open>device/agent/serve.go\<close>, as a machine that is driven by what happens to the process.  It opens
  the key store and the settings endpoint, waits for the device key, loads the registry, starts the applications, waits for
  the gateway's port, makes the certificate, serves, and on a stop drains and ends.  Every wait is one event per round, so
  the endpoint's wait for its port runs beside the others in any order.
\<close>

section \<open>The process\<close>

datatype exitErr = ExitStore | ExitToken | ExitSettingsPort | ExitKey keyErr | ExitRegistry aerr | ExitPort | ExitCertificate tlsErr
  | ExitServer | ExitDrain

text \<open>The boolean of a wait is \<^verbatim>\<open>told\<close>, which each wait has of its own.\<close>

datatype phase = Opening | AwaitsKey | AwaitsPort bool | Serving | Draining | Over "exitErr option" | Gone "exitErr option"

datatype endpoint = EndpointOff | EndpointWaits bool | EndpointUp

datatype task = SendReports | KeepRecord | KeepTunnel | TellServer

text \<open>The calls \<^verbatim>\<open>serve\<close> defers: stopping the applications and waiting for them, and closing the advertiser.\<close>

datatype deferred = StopApplications | CloseAdvertiser

text \<open>
  \<open>sr_gateway\<close> says that the gateway's listener is open, \<open>sr_inFlight\<close> that requests it accepted may still be answered.
  \<open>sr_defers\<close> are the deferred calls, the last one first.
\<close>

record service =
  sr_phase :: phase
  sr_endpoint :: endpoint
  sr_token :: string
  sr_agent :: "agent option"
  sr_gateway :: bool
  sr_inFlight :: bool
  sr_defers :: "deferred list"
  sr_keeper :: "keeper option"
  sr_tasks :: "task list"
  sr_toldOther :: bool
  sr_notices :: "notice list"

definition startService :: service where
  "startService = \<lparr>sr_phase = Opening, sr_endpoint = EndpointOff, sr_token = [], sr_agent = None, sr_gateway = False, sr_inFlight = False, sr_defers = [],
     sr_keeper = None, sr_tasks = [], sr_toldOther = False, sr_notices = []\<rparr>"

record serveEnv =
  sv_cfg :: agentConfig
  sv_env :: agentenv
  sv_lan :: lanlib
  sv_hostname :: "string option"

definition portOf :: "string \<Rightarrow> string" where
  "portOf addr = (case splitHostPort addr of None \<Rightarrow> [] | Some (_, port) \<Rightarrow> port)"

text \<open>What the applications' context ending does to them: each is asked to stop, and \<^verbatim>\<open>wait\<close> returns when all have.\<close>

definition stopApps :: "service \<Rightarrow> service" where
  "stopApps s = s\<lparr>sr_agent := map_option (\<lambda>ag. ag\<lparr>ag_running := []\<rparr>) (sr_agent s)\<rparr>"

fun runDeferred :: "deferred \<Rightarrow> service \<Rightarrow> service" where
  "runDeferred StopApplications s = stopApps s"
| "runDeferred CloseAdvertiser s = s\<lparr>sr_keeper := map_option (\<lambda>k. k\<lparr>kp_srv := None\<rparr>) (sr_keeper s)\<rparr>"

text \<open>
  \<^verbatim>\<open>serve\<close> returns: what it deferred so far runs.  The settings endpoint and what runs beside the gateway are not among it;
  they end with the context, or with the process, which is a step of its own.
\<close>

definition returns :: "exitErr option \<Rightarrow> service \<Rightarrow> service" where
  "returns e s = (fold runDeferred (sr_defers s) s)\<lparr>sr_phase := Over e, sr_defers := []\<rparr>"

definition processExits :: "service \<Rightarrow> service" where
  "processExits s = (case sr_phase s of
      Over e \<Rightarrow> s\<lparr>sr_phase := Gone e, sr_endpoint := EndpointOff, sr_inFlight := False, sr_tasks := [],
        sr_keeper := map_option (\<lambda>k. k\<lparr>kp_srv := None\<rparr>) (sr_keeper s)\<rparr>
    | _ \<Rightarrow> s)"

section \<open>Starting\<close>

text \<open>\<^verbatim>\<open>openSeedStore\<close> worked or not, then \<^verbatim>\<open>serveSettings\<close> with what reading the token and listening gave.\<close>

definition serveSettings :: "serveEnv \<Rightarrow> string option \<Rightarrow> listening \<Rightarrow> service \<Rightarrow> service" where
  "serveSettings V token l s =
     (if ac_settings (sv_cfg V) = [] then s\<lparr>sr_phase := AwaitsKey\<rparr>
      else case token of None \<Rightarrow> returns (Some ExitToken) s
      | Some t \<Rightarrow> (case l of
          CannotListen \<Rightarrow> returns (Some ExitSettingsPort) s
        | InUse \<Rightarrow> s\<lparr>sr_phase := AwaitsKey, sr_token := t, sr_endpoint := EndpointWaits False\<rparr>
        | Listens \<Rightarrow> s\<lparr>sr_phase := AwaitsKey, sr_token := t, sr_endpoint := EndpointUp\<rparr>))"

text \<open>
  One answer of the key store while \<^verbatim>\<open>waitForDeviceKey\<close> asks, and the disk the registry is then read from.  With the agent
  loaded the reports are switched on, the settings page gets it, its applications start, and stopping them is deferred.
\<close>

definition keyAnswered :: "serveEnv \<Rightarrow> keyErr + string \<Rightarrow> disk \<Rightarrow> service \<Rightarrow> service" where
  "keyAnswered V key d s = (case key of
      Inl e \<Rightarrow> if e = StoreLocked then s else returns (Some (ExitKey e)) s
    | Inr seed \<Rightarrow> (case loadAgent (sv_env V) (sv_hostname V) seed d of
        Inl e \<Rightarrow> returns (Some (ExitRegistry e)) s
      | Inr ag \<Rightarrow> s\<lparr>sr_phase := AwaitsPort False, sr_agent := Some (onApps (st_apps (ag_st ag)) ag), sr_tasks := [SendReports],
          sr_defers := StopApplications # sr_defers s\<rparr>))"

text \<open>
  One round of the gateway's \<^verbatim>\<open>listenWhenFree\<close>.  With the port the certificate is made, and the listener closed again if
  that fails; then the advertiser's end is deferred and everything else starts.
\<close>

record bringUp =
  bu_time :: int
  bu_addrs :: "nat list option list option"
  bu_made :: bool
  bu_ifaces :: "interface list option"

definition gatewayUp :: "serveEnv \<Rightarrow> bringUp \<Rightarrow> agent \<Rightarrow> service \<Rightarrow> service" where
  "gatewayUp V b ag s0 = (let s = s0\<lparr>sr_gateway := True\<rparr> in
     (case lanCert_get (ae_lib (sv_env V)) (sv_lan V) (ag_seed ag) (bu_addrs b) (bu_made b) (bu_time b) None of
        (Inl e, _) \<Rightarrow> returns (Some (ExitCertificate e)) (s\<lparr>sr_gateway := False\<rparr>)
      | (Inr c, cert) \<Rightarrow> s\<lparr>sr_phase := Serving, sr_inFlight := True,
          sr_defers := (if ac_mdns (sv_cfg V) then [CloseAdvertiser] else []) @ sr_defers s,
          sr_keeper := Some \<lparr>kp_network = networkState (bu_ifaces b) (bu_addrs b), kp_advertised = None, kp_wait = 0, kp_retryAt = 0,
            kp_cert = cert, kp_srv = None\<rparr>,
          sr_tasks := sr_tasks s @ [KeepRecord] @ (if ac_tunnel (sv_cfg V) then [KeepTunnel] else []) @ [TellServer]\<rparr>))"

definition portRound :: "serveEnv \<Rightarrow> listening \<times> bool \<times> string \<Rightarrow> bringUp \<Rightarrow> bool \<Rightarrow> agent \<Rightarrow> service \<Rightarrow> service" where
  "portRound V r b told ag s = (case listenRound (portOf (ac_addr (sv_cfg V))) r told (sr_toldOther s) of
      (w, ns, t, o') \<Rightarrow> let s' = s\<lparr>sr_notices := sr_notices s @ ns, sr_toldOther := o'\<rparr> in
        (case w of Listening \<Rightarrow> gatewayUp V b ag s' | Failed \<Rightarrow> returns (Some ExitPort) s' | Waiting \<Rightarrow> s'\<lparr>sr_phase := AwaitsPort t\<rparr>))"

text \<open>A round of the settings endpoint's wait.  When it fails for another reason the endpoint is given up, without a word.\<close>

definition settingsRound :: "serveEnv \<Rightarrow> listening \<times> bool \<times> string \<Rightarrow> bool \<Rightarrow> service \<Rightarrow> service" where
  "settingsRound V r told s = (case listenRound (portOf (ac_settings (sv_cfg V))) r told (sr_toldOther s) of
      (w, ns, t, o') \<Rightarrow> let s' = s\<lparr>sr_notices := sr_notices s @ ns, sr_toldOther := o'\<rparr> in
        s'\<lparr>sr_endpoint := (case w of Listening \<Rightarrow> EndpointUp | Failed \<Rightarrow> EndpointOff | Waiting \<Rightarrow> EndpointWaits t)\<rparr>)"

section \<open>Stopping\<close>

text \<open>
  The context ends, as the code notices it.  The applications' context is made from it (line 42), so they are stopped now; the settings
  endpoint is closed (lines 146 to 149), and what runs beside the gateway was started with this context (lines 36 and 94 to 104) and ends.  A gateway that serves is shut down: the listener is closed at once, and the
  requests it is answering go on until \<^verbatim>\<open>Shutdown\<close> has returned.  The wait for the port is left without an error,
  the wait for the key with the store's.
\<close>

definition contextEnds :: "service \<Rightarrow> service" where
  "contextEnds s = (stopApps s)\<lparr>sr_endpoint := EndpointOff, sr_tasks := []\<rparr>"

definition cancelled :: "service \<Rightarrow> service" where
  "cancelled s = (case sr_phase s of
      AwaitsKey \<Rightarrow> returns (Some (ExitKey StoreLocked)) (contextEnds s)
    | AwaitsPort told \<Rightarrow> returns None (contextEnds s)
    | Serving \<Rightarrow> (contextEnds s)\<lparr>sr_phase := Draining, sr_gateway := False\<rparr>
    | Over e \<Rightarrow> contextEnds s
    | _ \<Rightarrow> s)"

datatype serveEvent =
    Opens bool "string option" listening
  | KeyAnswer "keyErr + string" disk
  | GatewayPort "listening \<times> bool \<times> string" bringUp
  | SettingsPort "listening \<times> bool \<times> string"
  | AgentDoes agentOp
  | RecordRound int "interface list option" "nat list option list option" bool int
  | LanHandshake int "nat list option list option" bool
  | ServerStops
  | Cancel
  | Drained bool
  | ProcessExits

text \<open>
  An event that the phase does not wait for does not happen to the process.  Between the return of \<^verbatim>\<open>serve\<close> and the
  end of the process the settings endpoint may still change the shares and the record may still be kept; the context of
  the applications has ended, so none of them starts.  A server that stopped, and a shutdown that ran out of time, leave requests
  that are under way.
\<close>

fun serveStep :: "serveEnv \<Rightarrow> serveEvent \<Rightarrow> service \<Rightarrow> service" where
  "serveStep V (Opens store token l) s =
     (if sr_phase s = Opening then (if store then serveSettings V token l s else returns (Some ExitStore) s) else s)"
| "serveStep V (KeyAnswer key d) s = (if sr_phase s = AwaitsKey then keyAnswered V key d s else s)"
| "serveStep V (GatewayPort r b) s = (case (sr_phase s, sr_agent s) of (AwaitsPort told, Some ag) \<Rightarrow> portRound V r b told ag s | _ \<Rightarrow> s)"
| "serveStep V (SettingsPort r) s = (case sr_endpoint s of EndpointWaits told \<Rightarrow> settingsRound V r told s | _ \<Rightarrow> s)"
| "serveStep V (AgentDoes op) s = (case (sr_phase s, sr_agent s) of
      (AwaitsPort _, Some ag) \<Rightarrow> s\<lparr>sr_agent := Some (agentDo (sv_env V) op ag)\<rparr>
    | (Serving, Some ag) \<Rightarrow> s\<lparr>sr_agent := Some (agentDo (sv_env V) op ag)\<rparr>
    | (Over _, Some ag) \<Rightarrow> stopApps (s\<lparr>sr_agent := Some (agentDo (sv_env V) op ag)\<rparr>)
    | _ \<Rightarrow> s)"
| "serveStep V (RecordRound t ifaces addrs ok r) s = (case (sr_agent s, sr_keeper s) of
      (Some ag, Some k) \<Rightarrow> if KeepRecord \<notin> set (sr_tasks s) then s else
        s\<lparr>sr_keeper := Some (keepRound (ae_lib (sv_env V)) (ag_seed ag) (ac_mdns (sv_cfg V)) t ifaces addrs (ag_st ag) ok r k)\<rparr>
    | _ \<Rightarrow> s)"
| "serveStep V (LanHandshake t addrs made) s = (case (sr_phase s, sr_agent s, sr_keeper s) of
      (Serving, Some ag, Some k) \<Rightarrow>
        s\<lparr>sr_keeper := Some (k\<lparr>kp_cert := snd (lanCert_get (ae_lib (sv_env V)) (sv_lan V) (ag_seed ag) addrs made t (kp_cert k))\<rparr>)\<rparr>
    | _ \<Rightarrow> s)"
| "serveStep V ServerStops s = (if sr_phase s = Serving then returns (Some ExitServer) (s\<lparr>sr_gateway := False\<rparr>) else s)"
| "serveStep V Cancel s = cancelled s"
| "serveStep V (Drained ok) s = (if sr_phase s = Draining then returns (if ok then None else Some ExitDrain) (s\<lparr>sr_inFlight := \<not> ok\<rparr>) else s)"
| "serveStep V ProcessExits s = processExits s"

definition serveRun :: "serveEnv \<Rightarrow> serveEvent list \<Rightarrow> service \<Rightarrow> service" where
  "serveRun V es s = fold (serveStep V) es s"

text \<open>The states the process can be in, when its agent's operations are ones the agent can be asked for.\<close>

fun allowedEvent :: "serveEnv \<Rightarrow> serveEvent \<Rightarrow> bool" where
  "allowedEvent V (AgentDoes op) = allowedOp (sv_env V) UNIV op"
| "allowedEvent V _ = True"

inductive served :: "serveEnv \<Rightarrow> service \<Rightarrow> bool" for V where
  served_start: "served V startService"
| served_step: "served V s \<Longrightarrow> allowedEvent V e \<Longrightarrow> served V (serveStep V e s)"

lemma served_run: "served V s \<Longrightarrow> list_all (allowedEvent V) es \<Longrightarrow> served V (serveRun V es s)"
  unfolding serveRun_def by (induction es arbitrary: s) (auto intro: served_step)

section \<open>What holds throughout\<close>

text \<open>An agent as the service holds it: one that was brought up with the shares, after operations of its own.\<close>

definition broughtUp :: "serveEnv \<Rightarrow> agent \<Rightarrow> bool" where
  "broughtUp V ag \<longleftrightarrow> (\<exists>seed d ag0 ops. serveAgent (sv_env V) (sv_hostname V) seed d = Inr ag0 \<and>
     list_all (allowedOp (sv_env V) UNIV) ops \<and> ag = agentRun (sv_env V) ops ag0)"

lemma broughtUp_do: "broughtUp V ag \<Longrightarrow> allowedOp (sv_env V) UNIV op \<Longrightarrow> broughtUp V (agentDo (sv_env V) op ag)"
proof -
  assume "broughtUp V ag" "allowedOp (sv_env V) UNIV op"
  then obtain seed d ag0 ops where "serveAgent (sv_env V) (sv_hostname V) seed d = Inr ag0"
      "list_all (allowedOp (sv_env V) UNIV) (ops @ [op])" "agentDo (sv_env V) op ag = agentRun (sv_env V) (ops @ [op]) ag0"
    by (auto simp: broughtUp_def agentRun_def)
  then show ?thesis unfolding broughtUp_def by blast
qed

text \<open>The applications are stopped, or stopping them is deferred.\<close>

definition appsCovered :: "service \<Rightarrow> bool" where
  "appsCovered s \<longleftrightarrow> StopApplications \<in> set (sr_defers s) \<or> (\<forall>ag. sr_agent s = Some ag \<longrightarrow> ag_running ag = [])"

text \<open>Nothing is announced, or closing the advertiser is deferred.\<close>

definition recordCovered :: "serveEnv \<Rightarrow> service \<Rightarrow> bool" where
  "recordCovered V s \<longleftrightarrow> CloseAdvertiser \<in> set (sr_defers s) \<or>
     (ac_mdns (sv_cfg V) \<longrightarrow> sr_keeper s = None) \<and> (\<forall>k. sr_keeper s = Some k \<longrightarrow> kp_srv k = None)"

definition quiet :: "service \<Rightarrow> bool" where
  "quiet s \<longleftrightarrow> sr_endpoint s = EndpointOff \<and> \<not> sr_inFlight s \<and> sr_tasks s = [] \<and> (\<forall>k. sr_keeper s = Some k \<longrightarrow> kp_srv k = None)"

fun phaseOk :: "serveEnv \<Rightarrow> service \<Rightarrow> phase \<Rightarrow> bool" where
  "phaseOk V s Opening = (sr_agent s = None \<and> \<not> sr_gateway s \<and> sr_endpoint s = EndpointOff \<and> sr_tasks s = [] \<and> sr_keeper s = None \<and> \<not> sr_inFlight s)"
| "phaseOk V s AwaitsKey = (sr_agent s = None \<and> \<not> sr_gateway s \<and> sr_tasks s = [] \<and> sr_keeper s = None \<and> \<not> sr_inFlight s)"
| "phaseOk V s (AwaitsPort told) = ((\<exists>ag. sr_agent s = Some ag \<and> broughtUp V ag) \<and> \<not> sr_gateway s \<and> StopApplications \<in> set (sr_defers s) \<and>
     sr_keeper s = None \<and> \<not> sr_inFlight s)"
| "phaseOk V s Serving = ((\<exists>ag. sr_agent s = Some ag \<and> broughtUp V ag) \<and> sr_gateway s \<and> sr_keeper s \<noteq> None \<and>
     StopApplications \<in> set (sr_defers s) \<and> recordCovered V s)"
| "phaseOk V s Draining = ((\<exists>ag. sr_agent s = Some ag \<and> ag_running ag = []) \<and> \<not> sr_gateway s \<and> sr_endpoint s = EndpointOff \<and> sr_tasks s = [] \<and>
     recordCovered V s)"
| "phaseOk V s (Over e) = ((\<forall>ag. sr_agent s = Some ag \<longrightarrow> ag_running ag = []) \<and> \<not> sr_gateway s \<and> (sr_agent s = None \<longrightarrow> sr_tasks s = []) \<and>
     (e = None \<longrightarrow> quiet s))"
| "phaseOk V s (Gone e) = ((\<forall>ag. sr_agent s = Some ag \<longrightarrow> ag_running ag = []) \<and> \<not> sr_gateway s \<and> quiet s)"

definition serviceOk :: "serveEnv \<Rightarrow> service \<Rightarrow> bool" where
  "serviceOk V s \<longleftrightarrow> phaseOk V s (sr_phase s) \<and>
     (sr_endpoint s \<noteq> EndpointOff \<longrightarrow> ac_settings (sv_cfg V) \<noteq> [])"

lemma serviceOk_covered: "serviceOk V s \<Longrightarrow> appsCovered s"
  by (cases "sr_phase s") (auto simp: serviceOk_def appsCovered_def)

lemma stopApps_rest [simp]:
  "sr_gateway (stopApps s) = sr_gateway s" "sr_endpoint (stopApps s) = sr_endpoint s" "sr_tasks (stopApps s) = sr_tasks s"
  "sr_phase (stopApps s) = sr_phase s" "sr_keeper (stopApps s) = sr_keeper s" "sr_defers (stopApps s) = sr_defers s"
  "sr_inFlight (stopApps s) = sr_inFlight s" "(sr_agent (stopApps s) = None) = (sr_agent s = None)"
  by (simp_all add: stopApps_def)

lemma stopApps_stops: "sr_agent (stopApps s) = Some ag \<Longrightarrow> ag_running ag = []"
  by (auto simp: stopApps_def)

lemma runDeferred_rest:
  "sr_gateway (runDeferred d s) = sr_gateway s \<and> sr_endpoint (runDeferred d s) = sr_endpoint s \<and> sr_tasks (runDeferred d s) = sr_tasks s \<and>
   sr_inFlight (runDeferred d s) = sr_inFlight s \<and> (sr_agent (runDeferred d s) = None \<longleftrightarrow> sr_agent s = None)"
  by (cases d) simp_all

lemma runDeferreds_rest:
  "sr_gateway (fold runDeferred ds s) = sr_gateway s \<and> sr_endpoint (fold runDeferred ds s) = sr_endpoint s \<and>
   sr_tasks (fold runDeferred ds s) = sr_tasks s \<and> sr_inFlight (fold runDeferred ds s) = sr_inFlight s \<and> (sr_agent (fold runDeferred ds s) = None \<longleftrightarrow> sr_agent s = None)"
  by (induction ds arbitrary: s) (simp_all add: runDeferred_rest)

lemma runDeferreds_stop:
  "StopApplications \<in> set ds \<or> (\<forall>ag. sr_agent s = Some ag \<longrightarrow> ag_running ag = []) \<Longrightarrow>
   sr_agent (fold runDeferred ds s) = Some ag \<Longrightarrow> ag_running ag = []"
proof (induction ds arbitrary: s)
  case (Cons d ds)
  have "StopApplications \<in> set ds \<or> (\<forall>ag. sr_agent (runDeferred d s) = Some ag \<longrightarrow> ag_running ag = [])"
  proof (cases d)
    case StopApplications
    then show ?thesis using stopApps_stops by simp
  next
    case CloseAdvertiser
    then show ?thesis using Cons.prems(1) by simp
  qed
  then show ?case using Cons.IH [of "runDeferred d s"] Cons.prems(2) by simp
qed auto

lemma runDeferreds_close:
  "CloseAdvertiser \<in> set ds \<or> (\<forall>k. sr_keeper s = Some k \<longrightarrow> kp_srv k = None) \<Longrightarrow>
   sr_keeper (fold runDeferred ds s) = Some k \<Longrightarrow> kp_srv k = None"
proof (induction ds arbitrary: s)
  case (Cons d ds)
  have "CloseAdvertiser \<in> set ds \<or> (\<forall>k. sr_keeper (runDeferred d s) = Some k \<longrightarrow> kp_srv k = None)"
    using Cons.prems(1) by (cases d) auto
  then show ?case using Cons.IH [of "runDeferred d s"] Cons.prems(2) by simp
qed auto

text \<open>Wherever \<^verbatim>\<open>serve\<close> returns, with the listener closed and the applications covered, it returns well.\<close>

lemma returns_ok:
  assumes "appsCovered s" "\<not> sr_gateway s" "sr_agent s = None \<Longrightarrow> sr_tasks s = []" "sr_endpoint s \<noteq> EndpointOff \<Longrightarrow> ac_settings (sv_cfg V) \<noteq> []"
    and clean: "e = None \<Longrightarrow> sr_endpoint s = EndpointOff \<and> \<not> sr_inFlight s \<and> sr_tasks s = [] \<and> recordCovered V s"
  shows "serviceOk V (returns e s)"
proof -
  let ?f = "fold runDeferred (sr_defers s) s"
  note f = runDeferreds_rest [of "sr_defers s" s]
  have "\<forall>ag. sr_agent ?f = Some ag \<longrightarrow> ag_running ag = []"
    using runDeferreds_stop [OF assms(1) [unfolded appsCovered_def]] by blast
  moreover have "\<not> sr_gateway ?f" "sr_agent ?f = None \<longrightarrow> sr_tasks ?f = []" "sr_endpoint ?f \<noteq> EndpointOff \<longrightarrow> ac_settings (sv_cfg V) \<noteq> []"
    using f assms(2-4) by auto
  moreover have "quiet ?f" if "e = None"
  proof -
    have "CloseAdvertiser \<in> set (sr_defers s) \<or> (\<forall>k. sr_keeper s = Some k \<longrightarrow> kp_srv k = None)"
      using clean [OF that] by (auto simp: recordCovered_def)
    then have "\<forall>k. sr_keeper ?f = Some k \<longrightarrow> kp_srv k = None" using runDeferreds_close by blast
    then show ?thesis using clean [OF that] f by (simp add: quiet_def)
  qed
  ultimately show ?thesis by (simp add: serviceOk_def returns_def quiet_def)
qed

lemma returns_from:
  assumes "serviceOk V s" "\<not> sr_gateway s"
  shows "serviceOk V (returns (Some e) s)"
proof (rule returns_ok [OF serviceOk_covered [OF assms(1)] assms(2)])
  show "sr_agent s = None \<Longrightarrow> sr_tasks s = []" using assms(1) by (cases "sr_phase s") (auto simp: serviceOk_def quiet_def)
qed (use assms(1) in \<open>simp_all add: serviceOk_def\<close>)

lemma processExits_ok: "serviceOk V s \<Longrightarrow> serviceOk V (processExits s)"
  by (cases "sr_phase s") (auto simp: processExits_def serviceOk_def quiet_def)

lemma serveSettings_ok:
  assumes "serviceOk V s" "sr_phase s = Opening"
  shows "serviceOk V (serveSettings V token l s)"
proof -
  have "serviceOk V (returns (Some e) s)" for e
    by (rule returns_from) (use assms in \<open>auto simp: serviceOk_def\<close>)
  then show ?thesis
    using assms by (auto simp: serveSettings_def serviceOk_def appsCovered_def split: option.splits listening.splits)
qed

lemma keyAnswered_ok:
  assumes "serviceOk V s" "sr_phase s = AwaitsKey"
  shows "serviceOk V (keyAnswered V key d s)"
proof -
  have r: "serviceOk V (returns (Some e) s)" for e
    by (rule returns_from) (use assms in \<open>auto simp: serviceOk_def\<close>)
  have "broughtUp V (onApps (st_apps (ag_st ag)) ag)" if "loadAgent (sv_env V) (sv_hostname V) seed d = Inr ag" for seed ag
    unfolding broughtUp_def by (intro exI [of _ seed] exI [of _ d] exI [of _ "onApps (st_apps (ag_st ag)) ag"] exI [of _ "[]"])
      (simp add: serveAgent_def that agentRun_def)
  then have "serviceOk V (s\<lparr>sr_phase := AwaitsPort False, sr_agent := Some (onApps (st_apps (ag_st ag)) ag), sr_tasks := [SendReports],
      sr_defers := StopApplications # sr_defers s\<rparr>)" if "loadAgent (sv_env V) (sv_hostname V) seed d = Inr ag" for seed ag
    using assms that by (auto simp: serviceOk_def appsCovered_def)
  then show ?thesis using assms(1) r by (auto simp: keyAnswered_def split: sum.splits)
qed

lemma gatewayUp_ok:
  assumes "serviceOk V s" "sr_phase s = AwaitsPort told" "sr_agent s = Some ag"
  shows "serviceOk V (gatewayUp V b ag s)"
proof -
  have "serviceOk V (returns (Some e) (s\<lparr>sr_gateway := True, sr_gateway := False\<rparr>))" for e
    by (rule returns_ok) (use assms in \<open>auto simp: serviceOk_def appsCovered_def\<close>)
  then show ?thesis
    using assms by (auto simp: gatewayUp_def Let_def serviceOk_def appsCovered_def recordCovered_def split: sum.splits prod.splits)
qed

lemma portRound_ok:
  assumes "serviceOk V s" "sr_phase s = AwaitsPort told" "sr_agent s = Some ag"
  shows "serviceOk V (portRound V r b told ag s)"
proof -
  obtain w ns t o' where round: "listenRound (portOf (ac_addr (sv_cfg V))) r told (sr_toldOther s) = (w, ns, t, o')"
    by (cases "listenRound (portOf (ac_addr (sv_cfg V))) r told (sr_toldOther s)")
  let ?s = "s\<lparr>sr_notices := sr_notices s @ ns, sr_toldOther := o'\<rparr>"
  have ok: "serviceOk V ?s" "sr_phase ?s = AwaitsPort told" "sr_agent ?s = Some ag"
    using assms by (auto simp: serviceOk_def appsCovered_def)
  have "serviceOk V (returns (Some e) ?s)" for e
    by (rule returns_from) (use ok in \<open>auto simp: serviceOk_def\<close>)
  moreover have "serviceOk V (?s\<lparr>sr_phase := AwaitsPort t\<rparr>)" for t
    using ok by (auto simp: serviceOk_def appsCovered_def)
  ultimately show ?thesis
    using gatewayUp_ok [OF ok] by (simp add: portRound_def round Let_def split: waitOutcome.splits)
qed

lemma settingsRound_ok:
  assumes "serviceOk V s" "sr_endpoint s = EndpointWaits told"
  shows "serviceOk V (settingsRound V r told s)"
proof -
  have "sr_phase s \<noteq> Opening" "sr_phase s \<noteq> Draining" "\<And>e. sr_phase s \<noteq> Gone e" "ac_settings (sv_cfg V) \<noteq> []"
    using assms by (auto simp: serviceOk_def quiet_def)
  then show ?thesis
    using assms by (cases "sr_phase s") (auto simp: serviceOk_def appsCovered_def recordCovered_def quiet_def settingsRound_def Let_def split: prod.splits)
qed

lemma contextEnds_facts:
  "sr_gateway (contextEnds s) = sr_gateway s" "sr_endpoint (contextEnds s) = EndpointOff" "sr_tasks (contextEnds s) = []"
  "sr_phase (contextEnds s) = sr_phase s" "sr_agent (contextEnds s) = Some ag \<Longrightarrow> ag_running ag = []" "appsCovered (contextEnds s)"
  "(sr_agent (contextEnds s) = None) = (sr_agent s = None)" "sr_defers (contextEnds s) = sr_defers s"
  "sr_keeper (contextEnds s) = sr_keeper s" "sr_inFlight (contextEnds s) = sr_inFlight s"
  using stopApps_stops [of s] by (auto simp: contextEnds_def appsCovered_def)

lemma cancelled_ok:
  assumes "serviceOk V s"
  shows "serviceOk V (cancelled s)"
proof -
  have key: "serviceOk V (returns (Some e) (contextEnds s))" if "\<not> sr_gateway s" for e
    by (rule returns_ok) (use that in \<open>simp_all add: contextEnds_facts\<close>)
  have port: "serviceOk V (returns None (contextEnds s))" if "sr_phase s = AwaitsPort told" for told
    by (rule returns_ok) (use assms that in \<open>simp_all add: contextEnds_facts serviceOk_def recordCovered_def\<close>)
  have serving: "serviceOk V ((contextEnds s)\<lparr>sr_phase := Draining, sr_gateway := False\<rparr>)" if "sr_phase s = Serving"
    using assms that contextEnds_facts(5,7) [of s]
    by (cases "sr_agent (contextEnds s)") (auto simp: serviceOk_def contextEnds_facts recordCovered_def)
  have over: "serviceOk V (contextEnds s)" if "sr_phase s = Over e" for e
    using assms that contextEnds_facts(5,7) [of s] by (auto simp: serviceOk_def contextEnds_facts quiet_def)
  show ?thesis
    using assms key port serving over by (cases "sr_phase s") (auto simp: cancelled_def serviceOk_def [of V s])
qed

lemma keepRound_off: "kp_srv (keepRound lib seed False t ifaces addrs st ok r k) = kp_srv k"
  by (simp add: keepRound_def Let_def)

lemma serveStep_ok:
  assumes "serviceOk V s" "allowedEvent V e"
  shows "serviceOk V (serveStep V e s)"
proof (cases e)
  case (Opens store token l)
  have "serviceOk V (returns (Some x) s)" if "sr_phase s = Opening" for x
    by (rule returns_from) (use assms that in \<open>auto simp: serviceOk_def\<close>)
  then show ?thesis using Opens assms(1) serveSettings_ok by auto
next
  case (AgentDoes op)
  then show ?thesis
    using assms broughtUp_do [of V _ op] stopApps_stops
    by (cases "sr_phase s") (auto simp: serviceOk_def appsCovered_def recordCovered_def quiet_def split: option.splits)
next
  case (RecordRound t ifaces addrs ok r)
  then show ?thesis using assms keepRound_off
    by (cases "sr_phase s") (auto simp: serviceOk_def appsCovered_def recordCovered_def quiet_def split: option.splits)
next
  case (LanHandshake t addrs made)
  then show ?thesis using assms by (auto simp: serviceOk_def appsCovered_def recordCovered_def split: phase.splits option.splits)
next
  case (GatewayPort r b)
  then show ?thesis using assms portRound_ok [OF assms(1)] by (auto split: phase.splits option.splits)
next
  case (SettingsPort r)
  then show ?thesis using assms settingsRound_ok [OF assms(1)] by (auto split: endpoint.splits)
next
  case ServerStops
  have "serviceOk V (returns (Some x) (s\<lparr>sr_gateway := False\<rparr>))" if "sr_phase s = Serving" for x
    by (rule returns_ok) (use assms that in \<open>auto simp: serviceOk_def appsCovered_def\<close>)
  then show ?thesis using ServerStops assms(1) by simp
next
  case (Drained ok)
  have "serviceOk V (returns (if ok then None else Some ExitDrain) (s\<lparr>sr_inFlight := \<not> ok\<rparr>))" if "sr_phase s = Draining"
    by (rule returns_ok) (use assms that in \<open>auto simp: serviceOk_def appsCovered_def recordCovered_def split: if_splits\<close>)
  then show ?thesis using Drained assms(1) by simp
qed (use assms in \<open>simp_all add: keyAnswered_ok cancelled_ok processExits_ok\<close>)

lemma served_ok: "served V s \<Longrightarrow> serviceOk V s"
proof (induction rule: served.induct)
  case served_start
  then show ?case by (simp add: serviceOk_def startService_def)
qed (rule serveStep_ok)

text \<open>
  The gateway never answers without what it serves.  In every state the process can be in, when the gateway's port is
  open the device key and the registry have been loaded, and until a stop the agent behind it is one that came up with
  its shares and then did only what an agent does, so all that holds of such an agent holds of what the LAN sees; before
  the key there is no agent, no gateway and nothing in the background.
\<close>

theorem gateway_serves_a_loaded_agent:
  assumes "served V s"
  shows "case sr_agent s of
      None \<Rightarrow> \<not> sr_gateway s \<and> sr_tasks s = []
    | Some ag \<Rightarrow> sr_phase s \<noteq> Opening \<and> sr_phase s \<noteq> AwaitsKey \<and> (sr_phase s = Serving \<longrightarrow> sr_gateway s \<and> broughtUp V ag)"
  using served_ok [OF assms] by (cases "sr_phase s") (auto simp: serviceOk_def quiet_def split: option.splits)

definition ended :: "phase \<Rightarrow> bool" where
  "ended ph \<longleftrightarrow> (\<exists>e. ph = Over e \<or> ph = Gone e)"

lemma ended_returns [simp]: "sr_phase (returns e s) = Over e"
  by (simp add: returns_def)

lemma ended_stays: "ended (sr_phase s) \<Longrightarrow> ended (sr_phase (serveStep V e s))"
  by (cases e) (auto simp: ended_def cancelled_def contextEnds_def processExits_def settingsRound_def Let_def
      split: option.splits endpoint.splits prod.splits bool.splits)


section \<open>Coming up\<close>

text \<open>What may happen while the key store is locked, and while another program has the gateway's port.\<close>

fun keyWait :: "serveEvent \<Rightarrow> bool" where
  "keyWait (KeyAnswer (Inl e) d) = (e = StoreLocked)"
| "keyWait (SettingsPort r) = True"
| "keyWait _ = False"

fun portWait :: "serveEnv \<Rightarrow> serveEvent \<Rightarrow> bool" where
  "portWait V (GatewayPort r b) = (fst r = InUse)"
| "portWait V (SettingsPort r) = True"
| "portWait V (AgentDoes op) = allowedOp (sv_env V) UNIV op"
| "portWait V _ = False"

lemma serveRun_append: "serveRun V (xs @ ys) s = serveRun V ys (serveRun V xs s)"
  by (simp add: serveRun_def)

lemma serveRun_Cons: "serveRun V (e # es) s = serveRun V es (serveStep V e s)"
  by (simp add: serveRun_def)

lemma settingsRound_rest: "sr_phase (settingsRound V r told s) = sr_phase s" "sr_agent (settingsRound V r told s) = sr_agent s"
    "sr_tasks (settingsRound V r told s) = sr_tasks s"
  by (simp_all add: settingsRound_def Let_def split: prod.splits)

lemma settingsPort_rest: "sr_phase (serveStep V (SettingsPort r) s) = sr_phase s" "sr_agent (serveStep V (SettingsPort r) s) = sr_agent s"
    "sr_tasks (serveStep V (SettingsPort r) s) = sr_tasks s"
  by (simp_all add: settingsRound_rest split: endpoint.splits)

lemma keyWaits: "sr_phase s = AwaitsKey \<Longrightarrow> list_all keyWait es \<Longrightarrow> sr_phase (serveRun V es s) = AwaitsKey"
proof (induction es arbitrary: s)
  case (Cons e es)
  have "sr_phase (serveStep V e s) = AwaitsKey"
  proof (cases e)
    case (KeyAnswer key d)
    then show ?thesis using Cons.prems by (cases key) (simp_all add: keyAnswered_def)
  next
    case (SettingsPort r)
    then show ?thesis using Cons.prems(1) settingsPort_rest by metis
  qed (use Cons.prems in simp_all)
  then show ?case using Cons by (simp add: serveRun_Cons)
qed (simp add: serveRun_def)

definition waiting :: "serveEnv \<Rightarrow> string \<Rightarrow> service \<Rightarrow> bool" where
  "waiting V seed s \<longleftrightarrow> (\<exists>told ag. sr_phase s = AwaitsPort told \<and> sr_agent s = Some ag \<and> ag_seed ag = seed \<and> broughtUp V ag) \<and> sr_tasks s = [SendReports]"

lemma portWait_step:
  assumes "waiting V seed s" "portWait V e"
  shows "waiting V seed (serveStep V e s)"
proof -
  obtain told ag where s: "sr_phase s = AwaitsPort told" "sr_agent s = Some ag" "ag_seed ag = seed" "broughtUp V ag" "sr_tasks s = [SendReports]"
    using assms(1) by (auto simp: waiting_def)
  show ?thesis
  proof (cases e)
    case (GatewayPort r b)
    obtain l x y where r: "r = (l, x, y)" by (cases r)
    then have "fst (listenRound (portOf (ac_addr (sv_cfg V))) r told (sr_toldOther s)) = Waiting"
      using assms(2) GatewayPort by (simp add: listenRound_def)
    then obtain ns t o' where "listenRound (portOf (ac_addr (sv_cfg V))) r told (sr_toldOther s) = (Waiting, ns, t, o')"
      by (cases "listenRound (portOf (ac_addr (sv_cfg V))) r told (sr_toldOther s)") auto
    then show ?thesis using s by (simp add: GatewayPort portRound_def Let_def waiting_def)
  next
    case (SettingsPort r)
    then show ?thesis using assms(1) settingsPort_rest by (simp only: waiting_def)
  next
    case (AgentDoes op)
    have op: "allowedOp (sv_env V) UNIV op" using assms(2) AgentDoes by simp
    then have "broughtUp V (agentDo (sv_env V) op ag)" using s(4) by (intro broughtUp_do)
    moreover have "ag_seed (agentDo (sv_env V) op ag) = seed" using same_key.keeps_agentDo [OF op] s(3) by blast
    ultimately show ?thesis using s by (simp add: AgentDoes waiting_def)
  qed (use assms(2) in simp_all)
qed

lemma portWaits: "waiting V seed s \<Longrightarrow> list_all (portWait V) es \<Longrightarrow> waiting V seed (serveRun V es s)"
  unfolding serveRun_def by (induction es arbitrary: s) (simp_all add: portWait_step)

text \<open>
  C22.  The agent comes up.  When the key store opens and the settings address can be used or is off, the agent serves as soon
  as the key can be read, the registry loads and the gateway's port is free, however long the key store was locked,
  however often the port was taken, and whatever becomes of the settings page meanwhile; it then serves with that key's
  certificate and everything that runs beside the gateway is started.
\<close>

theorem service_comes_up:
  assumes settings: "ac_settings (sv_cfg V) = [] \<or> token \<noteq> None \<and> l \<noteq> CannotListen"
    and waits: "list_all keyWait ws" "list_all (portWait V) ws'"
    and registry: "loadAgent (sv_env V) (sv_hostname V) seed d = Inr ag0"
    and cert: "certKey (sv_lan V) seed = Inr key" "bu_made b"
    and run: "s = serveRun V (Opens True token l # ws @ KeyAnswer (Inr seed) d # ws' @ [GatewayPort (Listens, x) b]) startService"
  shows "sr_phase s = Serving \<and> sr_gateway s \<and> (\<exists>ag. sr_agent s = Some ag \<and> ag_seed ag = seed \<and> broughtUp V ag) \<and>
    (\<exists>k c. sr_keeper s = Some k \<and> kp_cert k = Some c \<and> ct_name c = deviceID (ae_lib (sv_env V)) seed @ certDomain) \<and>
    {SendReports, KeepRecord, TellServer} \<subseteq> set (sr_tasks s) \<and> (KeepTunnel \<in> set (sr_tasks s) \<longleftrightarrow> ac_tunnel (sv_cfg V))"
proof -
  define s1 where "s1 = serveRun V ws (serveStep V (Opens True token l) startService)"
  have "sr_phase (serveStep V (Opens True token l) startService) = AwaitsKey"
    using settings by (auto simp: startService_def serveSettings_def split: option.splits listening.splits)
  then have s1: "sr_phase s1 = AwaitsKey" unfolding s1_def by (rule keyWaits [OF _ waits(1)])
  define s2 where "s2 = serveStep V (KeyAnswer (Inr seed) d) s1"
  have "serveAgent (sv_env V) (sv_hostname V) seed d = Inr (onApps (st_apps (ag_st ag0)) ag0)"
    using registry by (simp add: serveAgent_def)
  then have "broughtUp V (onApps (st_apps (ag_st ag0)) ag0) \<and> ag_seed (onApps (st_apps (ag_st ag0)) ag0) = seed"
    using serveAgent_start unfolding broughtUp_def by (fastforce simp: agentRun_def intro: exI [of _ "[]"])
  then have s2: "waiting V seed s2" using s1 by (auto simp: s2_def keyAnswered_def registry waiting_def)
  have s3: "waiting V seed (serveRun V ws' s2)" by (rule portWaits [OF s2 waits(2)])
  then obtain told ag where s3': "sr_phase (serveRun V ws' s2) = AwaitsPort told" "sr_agent (serveRun V ws' s2) = Some ag" "ag_seed ag = seed"
      "broughtUp V ag" "sr_tasks (serveRun V ws' s2) = [SendReports]"
    by (auto simp: waiting_def)
  have s: "s = serveStep V (GatewayPort (Listens, x) b) (serveRun V ws' s2)"
    by (simp add: run s2_def s1_def serveRun_def del: serveStep.simps)
  show ?thesis
    using s3' cert by (auto simp: s portRound_def listenRound_def gatewayUp_def lanCert_get_def deviceCertificate_def Let_def split: prod.splits)
qed

section \<open>Stopping\<close>

text \<open>
  The applications stop before the gateway does.  Their context is made from the one that ends, so from the moment a stop
  is noticed until \<^verbatim>\<open>Shutdown\<close> returns the requests under way are still answered and still routed to every share, and not one of the
  applications behind it runs.
\<close>

theorem applications_stop_before_the_gateway:
  assumes "served V s" "sr_phase s = Serving" "sr_inFlight s" and drain: "\<forall>e \<in> set es. \<forall>ok. e \<noteq> Drained ok"
    and stopped: "s' = serveRun V (Cancel # es) s"
  shows "sr_inFlight s' \<and> (\<exists>ag ag'. sr_agent s = Some ag \<and> sr_agent s' = Some ag' \<and> ag_routes ag' = ag_routes ag \<and> ag_running ag' = [])"
proof -
  obtain ag where ag: "sr_agent s = Some ag" using served_ok [OF assms(1)] assms(2) by (auto simp: serviceOk_def)
  let ?c = "cancelled s"
  have c: "sr_phase ?c = Draining" "sr_endpoint ?c = EndpointOff" "sr_tasks ?c = []"
    using assms(2) by (simp_all add: cancelled_def contextEnds_def)
  have "serveStep V e ?c = ?c" if "\<forall>ok. e \<noteq> Drained ok" for e
  proof (cases e)
    case (Drained ok)
    then show ?thesis using that by blast
  qed (use c in \<open>simp_all add: cancelled_def [of ?c] processExits_def split: option.splits\<close>)
  then have "fold (serveStep V) es ?c = ?c" using drain by (induction es) auto
  then have "s' = ?c" using stopped by (simp add: serveRun_def)
  then show ?thesis using assms(2,3) ag by (simp add: cancelled_def contextEnds_def stopApps_def)
qed

section \<open>Witnesses\<close>

definition demo_serve :: serveEnv where
  "demo_serve = \<lparr>sv_cfg = \<lparr>ac_dir = ''/a'', ac_addr = '':7433'', ac_settings = ''localhost:7434'', ac_keystore = ''auto'', ac_mdns = True,
     ac_tunnel = True, ac_logLevel = 0, ac_logFile = []\<rparr>, sv_env = demo_env, sv_lan = toy_lan, sv_hostname = None\<rparr>"

definition demo_bringUp :: bringUp where
  "demo_bringUp = \<lparr>bu_time = 0, bu_addrs = None, bu_made = True, bu_ifaces = None\<rparr>"

definition demo_events :: "serveEvent list" where
  "demo_events = Opens True (Some ''token'') InUse # [KeyAnswer (Inl StoreLocked) demo_disk, SettingsPort (InUse, False, ''other'')] @
     KeyAnswer (Inr ''seed'') demo_disk # [GatewayPort (InUse, False, ''other'') demo_bringUp, AgentDoes (SetErrorReports False)] @
     [GatewayPort (Listens, False, []) demo_bringUp]"

lemma demo_loads: "\<exists>ag0. loadAgent demo_env None ''seed'' demo_disk = Inr ag0"
  using demo_start by (auto simp: serveAgent_def split: sum.splits)

theorem service_comes_up_witness:
  "sr_phase (serveRun demo_serve demo_events startService) = Serving \<and> sr_gateway (serveRun demo_serve demo_events startService)"
proof -
  obtain ag0 where "loadAgent (sv_env demo_serve) (sv_hostname demo_serve) ''seed'' demo_disk = Inr ag0"
    using demo_loads by (auto simp: demo_serve_def)
  moreover have "list_all (portWait demo_serve) [GatewayPort (InUse, False, ''other'') demo_bringUp, AgentDoes (SetErrorReports False)]"
    by (simp add: demo_serve_def allowed_simple allowedOp_def readsBack_def cleanServerURL_def)
  moreover have "certKey (sv_lan demo_serve) ''seed'' = Inr (itoa 1)" by (simp add: demo_serve_def toy_certKey)
  ultimately show ?thesis
    using service_comes_up [of demo_serve "Some ''token''" InUse "[KeyAnswer (Inl StoreLocked) demo_disk, SettingsPort (InUse, False, ''other'')]"
      "[GatewayPort (InUse, False, ''other'') demo_bringUp, AgentDoes (SetErrorReports False)]" "''seed''" demo_disk ag0 "itoa 1" demo_bringUp _
      "(False, [])"] by (simp add: demo_events_def demo_bringUp_def)
qed

lemma demo_wasServed: "served demo_serve (serveRun demo_serve demo_events startService)"
  by (rule served_run [OF served_start])
    (simp add: demo_events_def demo_serve_def allowedOp_def readsBack_def cleanServerURL_def)

lemma demo_serving: "sr_phase (serveRun demo_serve demo_events startService) = Serving"
proof -
  obtain ag0 where "loadAgent demo_env None ''seed'' demo_disk = Inr ag0" using demo_loads by blast
  then show ?thesis
    by (simp add: demo_events_def serveRun_def startService_def serveSettings_def demo_serve_def demo_bringUp_def keyAnswered_def settingsRound_def
        portRound_def listenRound_def gatewayUp_def lanCert_get_def deviceCertificate_def toy_certKey Let_def)
qed

lemma demo_gateway: "sr_gateway (serveRun demo_serve demo_events startService)"
  using served_ok [OF demo_wasServed] demo_serving by (simp add: serviceOk_def)

theorem gateway_serves_a_loaded_agent_witness:
  "\<exists>ag. sr_agent (serveRun demo_serve demo_events startService) = Some ag \<and> broughtUp demo_serve ag"
  using gateway_serves_a_loaded_agent [OF demo_wasServed] demo_gateway demo_serving by (auto split: option.splits)

lemma demo_inFlight: "sr_inFlight (serveRun demo_serve demo_events startService)"
proof -
  obtain ag0 where "loadAgent demo_env None ''seed'' demo_disk = Inr ag0" using demo_loads by blast
  then show ?thesis
    by (simp add: demo_events_def serveRun_def startService_def serveSettings_def demo_serve_def demo_bringUp_def keyAnswered_def settingsRound_def
        portRound_def listenRound_def gatewayUp_def lanCert_get_def deviceCertificate_def toy_certKey Let_def)
qed


theorem applications_stop_before_the_gateway_witness:
  "sr_inFlight (serveRun demo_serve [Cancel] (serveRun demo_serve demo_events startService))"
  using applications_stop_before_the_gateway [OF demo_wasServed demo_serving demo_inFlight, of "[]" "serveRun demo_serve [Cancel] (serveRun demo_serve demo_events startService)"]
  by simp

end
