(* ===== verification/AgentReports.thy ===== *)
theory AgentReports
  imports AgentFacts
begin

text \<open>
  \<^verbatim>\<open>device/agent/reports.go\<close>: which log lines become error reports and what they carry, the file they wait in, and sending
  it a batch at a time.  The JSON codec of a record is an argument; of the file, reads may fail, and a failed append or
  rewrite leaves a prefix or nothing, as \<^verbatim>\<open>os.WriteFile\<close> does.
\<close>

section \<open>What a line reports\<close>

record logAttr =
  la_key :: string
  la_value :: string

record slogRecord =
  sl_time :: int
  sl_level :: int
  sl_message :: string
  sl_attrs :: "logAttr list"

definition LevelWarn :: int where "LevelWarn = 4"
definition LevelError :: int where "LevelError = 8"

record report =
  rp_time :: string
  rp_severity :: nat
  rp_severityText :: string
  rp_body :: string
  rp_traceID :: string
  rp_attrs :: "(string \<times> string) list"

definition reportAttrs :: "string \<Rightarrow> string" where
  "reportAttrs key =
     (if key = ''error_code'' then ''error.code'' else if key = ''step'' then ''step''
      else if key = ''status'' then ''http.status_code'' else [])"

text \<open>The closure \<open>take\<close> of \<open>report\<close>: the record so far and the error code so far.\<close>

definition takeAttr :: "logAttr \<Rightarrow> report \<times> string \<Rightarrow> report \<times> string" where
  "takeAttr a rc = (case rc of (rec, code) \<Rightarrow>
     if la_key a = ''trace_id'' then (rec\<lparr>rp_traceID := la_value a\<rparr>, code)
     else if reportAttrs (la_key a) \<noteq> [] then
       (rec\<lparr>rp_attrs := rp_attrs rec @ [(reportAttrs (la_key a), la_value a)]\<rparr>,
        if la_key a = ''error_code'' then la_value a else code)
     else (rec, code))"

definition reportHandler_report :: "logAttr list \<Rightarrow> slogRecord \<Rightarrow> report \<times> bool" where
  "reportHandler_report attrs r =
     (let rec0 = \<lparr>rp_time = formatInt (sl_time r), rp_severity = (if sl_level r \<ge> LevelError then 17 else 13),
            rp_severityText = (if sl_level r \<ge> LevelError then ''ERROR'' else ''WARN''),
            rp_body = sl_message r, rp_traceID = [], rp_attrs = []\<rparr> in
      case fold takeAttr (attrs @ sl_attrs r) (rec0, []) of (rec, code) \<Rightarrow>
        if code \<noteq> [] then (rec, True)
        else if sl_level r < LevelError then (rec, False)
        else (rec\<lparr>rp_attrs := rp_attrs rec @ [(''error.code'', ''agent_error'')]\<rparr>, True))"

section \<open>The queue\<close>

definition maxReportQueue :: nat where "maxReportQueue = 2 * 1024 * 1024"
definition maxReportBatch :: nat where "maxReportBatch = 48 * 1024"

record reportQueue =
  qu_file :: "string option"
  qu_ops :: "fileOp list"
  qu_tooLarge :: nat

definition nextRq :: "reportQueue \<Rightarrow> fileOp \<times> reportQueue" where
  "nextRq q = (case qu_ops q of [] \<Rightarrow> (Works, q) | x # xs \<Rightarrow> (x, q\<lparr>qu_ops := xs\<rparr>))"

definition queued :: "reportQueue \<Rightarrow> string" where
  "queued q = (case qu_file q of None \<Rightarrow> [] | Some raw \<Rightarrow> raw)"

definition readQueue :: "reportQueue \<Rightarrow> string option \<times> reportQueue" where
  "readQueue q = (case nextRq q of (Works, q') \<Rightarrow> (qu_file q', q') | (_, q') \<Rightarrow> (None, q'))"

definition writeQueue :: "string \<Rightarrow> reportQueue \<Rightarrow> reportQueue" where
  "writeQueue raw q = (case nextRq q of (Works, q') \<Rightarrow> q'\<lparr>qu_file := Some raw\<rparr> | (Fails, q') \<Rightarrow> q'
     | (Truncates n, q') \<Rightarrow> q'\<lparr>qu_file := Some (take n raw)\<rparr>)"

text \<open>The loop of \<^verbatim>\<open>trim\<close>: whole lines off the front until the rest fits; nothing when no line ends.\<close>

function trimLoop :: "string \<Rightarrow> string" where
  "trimLoop raw =
     (if length raw > maxReportQueue * 3 div 4 then
        (if newline \<in> set raw then trimLoop (tl (dropWhile (\<lambda>c. c \<noteq> newline) raw)) else [])
      else raw)"
  by pat_completeness auto

lemma afterLine_shorter: "newline \<in> set raw \<Longrightarrow> length (tl (dropWhile (\<lambda>c. c \<noteq> newline) raw)) < length raw"
proof -
  assume "newline \<in> set raw"
  then have "dropWhile (\<lambda>c. c \<noteq> newline) raw \<noteq> []" by auto
  then show ?thesis
    using length_dropWhile_le [of "\<lambda>c. c \<noteq> newline" raw] by (cases "dropWhile (\<lambda>c. c \<noteq> newline) raw") auto
qed

termination trimLoop
  by (relation "measure length") (auto dest: afterLine_shorter simp del: length_tl)

declare trimLoop.simps [simp del]

definition queue_trim :: "reportQueue \<Rightarrow> reportQueue" where
  "queue_trim q0 = (case readQueue q0 of (None, q) \<Rightarrow> q | (Some raw, q) \<Rightarrow> writeQueue (trimLoop raw) q)"

text \<open>
  \<^verbatim>\<open>add\<close>, with the encoded line; \<open>on\<close> is what \<open>q.on\<close> answers.  The outcome of opening the file and of the write is
  one call, and the size that is compared is the size after it.
\<close>

definition queue_add :: "(report \<Rightarrow> string option) \<Rightarrow> bool \<Rightarrow> report \<Rightarrow> reportQueue \<Rightarrow> reportQueue" where
  "queue_add encode on rec q = (case encode rec of None \<Rightarrow> q
   | Some line \<Rightarrow>
     if \<not> on then q
     else if length line \<ge> maxReportBatch then q\<lparr>qu_tooLarge := qu_tooLarge q + 1\<rparr>
     else (case nextRq q of
         (Fails, q1) \<Rightarrow> q1
       | (op, q1) \<Rightarrow>
         let q2 = q1\<lparr>qu_file := Some (queued q1 @ (case op of Truncates n \<Rightarrow> take n (line @ [newline]) | _ \<Rightarrow> line @ [newline]))\<rparr> in
         if length (queued q2) > maxReportQueue then queue_trim q2 else q2))"

section \<open>Sending\<close>

definition reporting :: "state \<Rightarrow> bool" where
  "reporting st \<longleftrightarrow> enrolled st \<and> \<not> st_reportsOff st"

definition batchOf :: "string \<Rightarrow> string" where
  "batchOf raw =
     (if length raw > maxReportBatch then
        (case cutAt newline (rev (take maxReportBatch raw)) of (_, before, True) \<Rightarrow> rev before @ [newline] | _ \<Rightarrow> raw)
      else raw)"

text \<open>What \<^verbatim>\<open>bytes.Lines\<close> yields; each line keeps its line break, and JSON ignores it.\<close>

fun lines :: "string \<Rightarrow> string \<Rightarrow> string list" where
  "lines acc [] = (if acc = [] then [] else [acc])"
| "lines acc (c # s) = (if c = newline then (acc @ [c]) # lines [] s else lines (acc @ [c]) s)"

definition batchRecords :: "(string \<Rightarrow> report option) \<Rightarrow> string \<Rightarrow> report list" where
  "batchRecords decode batch = List.map_filter decode (lines [] batch)"

text \<open>
  The loop of \<^verbatim>\<open>flush\<close>.  The server's answers are a list, as for every request of the agent, each with the reports that
  were logged while the upload was on its way, when the lock is free; when the list is used up the server is out of reach and the loop ends.  What
  was posted comes out, the batch of the file with the records it was posted as, and whether the loop ended well.
\<close>

function flushLoop :: "(report \<Rightarrow> string option) \<Rightarrow> (string \<Rightarrow> report option) \<Rightarrow> (bool \<times> report list) list \<Rightarrow> reportQueue \<Rightarrow>
    (string \<times> report list) list \<times> bool \<times> reportQueue" where
  "flushLoop encode decode answers q =
     (case readQueue q of (raw, q1) \<Rightarrow>
        let batch = batchOf (case raw of None \<Rightarrow> [] | Some s \<Rightarrow> s); upload = (batch, batchRecords decode batch) in
        if batch = [] then ([], True, q1)
        else (case answers of
            [] \<Rightarrow> ([upload], False, q1)
          | (False, logged) # _ \<Rightarrow> ([upload], False, fold (queue_add encode True) logged q1)
          | (True, logged) # rest \<Rightarrow>
              let q2 = (case readQueue (fold (queue_add encode True) logged q1) of
                  (Some now, q') \<Rightarrow> if prefix batch now then writeQueue (drop (length batch) now) q' else q'
                | (None, q') \<Rightarrow> q') in
              (case flushLoop encode decode rest q2 of (ups, ok, q3) \<Rightarrow> (upload # ups, ok, q3))))"
  by pat_completeness auto

termination flushLoop
  by (relation "measure (\<lambda>(encode, decode, answers, q). length answers)") auto

declare flushLoop.simps [simp del]

definition queue_flush :: "(report \<Rightarrow> string option) \<Rightarrow> (string \<Rightarrow> report option) \<Rightarrow> (bool \<times> report list) list \<Rightarrow> state \<Rightarrow> reportQueue \<Rightarrow>
    (string \<times> report list) list \<times> bool \<times> reportQueue" where
  "queue_flush encode decode answers st q0 =
     (let q = q0\<lparr>qu_tooLarge := 0\<rparr> in
      if \<not> reporting st then ([], True, case nextRq q of (Works, q') \<Rightarrow> q'\<lparr>qu_file := None\<rparr> | (_, q') \<Rightarrow> q')
      else flushLoop encode decode answers q)"

section \<open>Only what is named goes out\<close>

definition mayReport :: "logAttr \<Rightarrow> bool" where
  "mayReport a \<longleftrightarrow> la_key a \<in> {''trace_id'', ''error_code'', ''step'', ''status''}"

lemma takeAttr_other: "\<not> mayReport a \<Longrightarrow> takeAttr a rc = rc"
  by (auto simp: takeAttr_def mayReport_def reportAttrs_def split: prod.splits)

lemma fold_takeAttr_filter: "fold takeAttr as rc = fold takeAttr (filter mayReport as) rc"
  by (induction as arbitrary: rc) (simp_all add: takeAttr_other)

lemma takeAttr_keys:
  "fold takeAttr as (rec, code) = (rec', code') \<Longrightarrow>
   \<forall>x \<in> set (rp_attrs rec). fst x \<in> {''error.code'', ''step'', ''http.status_code''} \<Longrightarrow>
   (\<forall>x \<in> set (rp_attrs rec'). fst x \<in> {''error.code'', ''step'', ''http.status_code''}) \<and> rp_body rec' = rp_body rec"
proof (induction as arbitrary: rec code)
  case (Cons a as)
  obtain r1 c1 where t: "takeAttr a (rec, code) = (r1, c1)" by fastforce
  then have "\<forall>x \<in> set (rp_attrs r1). fst x \<in> {''error.code'', ''step'', ''http.status_code''}" "rp_body r1 = rp_body rec"
    using Cons.prems(2) by (auto simp: takeAttr_def reportAttrs_def split: if_splits)
  then show ?case using Cons.IH [of r1 c1] Cons.prems(1) t by simp
qed simp

text \<open>
  A report carries the message, the trace and three named attributes.  Whatever else a log line says, an error that
  quotes a path or the name of a share, makes no difference to the report, and a line below error level reports only if
  it carries an error code.
\<close>

theorem reports_carry_only_named_attributes:
  "reportHandler_report attrs r = reportHandler_report (filter mayReport attrs) (r\<lparr>sl_attrs := filter mayReport (sl_attrs r)\<rparr>) \<and>
   rp_body (fst (reportHandler_report attrs r)) = sl_message r \<and>
   fst ` set (rp_attrs (fst (reportHandler_report attrs r))) \<subseteq> {''error.code'', ''step'', ''http.status_code''}"
proof -
  let ?rec0 = "\<lparr>rp_time = formatInt (sl_time r), rp_severity = (if sl_level r \<ge> LevelError then 17 else 13),
            rp_severityText = (if sl_level r \<ge> LevelError then ''ERROR'' else ''WARN''),
            rp_body = sl_message r, rp_traceID = [], rp_attrs = []\<rparr>"
  obtain rec code where t: "fold takeAttr (attrs @ sl_attrs r) (?rec0, []) = (rec, code)" by fastforce
  have same: "fold takeAttr (sl_attrs r) (fold takeAttr attrs x) = fold takeAttr (filter mayReport (sl_attrs r)) (fold takeAttr (filter mayReport attrs) x)" for x
    by (metis fold_takeAttr_filter)
  have "reportHandler_report attrs r = reportHandler_report (filter mayReport attrs) (r\<lparr>sl_attrs := filter mayReport (sl_attrs r)\<rparr>)"
    by (simp add: reportHandler_report_def Let_def same split: prod.splits)
  moreover have "rp_body (fst (reportHandler_report attrs r)) = sl_message r \<and>
      fst ` set (rp_attrs (fst (reportHandler_report attrs r))) \<subseteq> {''error.code'', ''step'', ''http.status_code''}"
    using takeAttr_keys [OF t] t by (auto simp: reportHandler_report_def Let_def)
  ultimately show ?thesis by blast
qed

section \<open>The queue holds whole lines\<close>

definition asLines :: "string list \<Rightarrow> string" where
  "asLines ls = concat (map (\<lambda>l. l @ [newline]) ls)"

lemma asLines_simps [simp]: "asLines [] = []" "asLines (l # ls) = l @ newline # asLines ls" "asLines (xs @ ys) = asLines xs @ asLines ys"
  by (simp_all add: asLines_def)

definition lineOk :: "string \<Rightarrow> bool" where
  "lineOk l \<longleftrightarrow> newline \<notin> set l \<and> length l < maxReportBatch"

definition queueOk :: "reportQueue \<Rightarrow> bool" where
  "queueOk q \<longleftrightarrow> set (qu_ops q) \<subseteq> {Works} \<and> length (queued q) \<le> maxReportQueue \<and>
     (\<exists>ls. queued q = asLines ls \<and> list_all lineOk ls)"

lemma cut_unique: "(x :: char) \<notin> set l \<Longrightarrow> x \<notin> set p \<Longrightarrow> l @ x # a = p @ x # b \<Longrightarrow> l = p \<and> a = b"
  by (drule arg_cong [where f = "cutAt x"]) (simp add: cutAt_append)

lemma asLines_prefix:
  assumes "asLines ls = p @ newline # rest" "list_all lineOk ls"
  shows "\<exists>k. p @ [newline] = asLines (take k ls) \<and> rest = asLines (drop k ls) \<and> 0 < k"
  using assms
proof (induction ls arbitrary: p)
  case (Cons l ls)
  have l: "newline \<notin> set l" using Cons.prems(2) by (simp add: lineOk_def)
  have eq: "l @ newline # asLines ls = p @ newline # rest" using Cons.prems(1) by simp
  show ?case
  proof (cases "newline \<in> set p")
    case False
    then have "l = p \<and> asLines ls = rest"
      using cut_unique [OF l _ eq] by blast
    then show ?thesis by (intro exI [of _ 1]) simp
  next
    case True
    then obtain a b where p: "p = a @ newline # b" "newline \<notin> set a" by (meson split_list_first)
    then have "l = a" "asLines ls = b @ newline # rest"
      using cut_unique [OF l p(2), of "asLines ls" "b @ newline # rest"] eq by auto
    moreover obtain k where "b @ [newline] = asLines (take k ls)" "rest = asLines (drop k ls)"
      using Cons.IH [OF calculation(2)] Cons.prems(2) by auto
    ultimately show ?thesis using p by (intro exI [of _ "Suc k"]) simp
  qed
qed simp

lemma batchOf_lines:
  assumes "list_all lineOk ls" "ls \<noteq> []"
  shows "\<exists>k. 0 < k \<and> batchOf (asLines ls) = asLines (take k ls) \<and> length (batchOf (asLines ls)) \<le> maxReportBatch"
proof (cases "length (asLines ls) > maxReportBatch")
  case False
  then show ?thesis using assms by (intro exI [of _ "length ls"]) (simp add: batchOf_def)
next
  case True
  let ?t = "take maxReportBatch (asLines ls)"
  obtain l ls' where ls: "ls = l # ls'" using assms(2) by (cases ls) auto
  have len: "length l < maxReportBatch" using assms(1) ls by (simp add: lineOk_def)
  then have nl: "newline \<in> set ?t"
    unfolding ls asLines_simps take_append by (cases "maxReportBatch - length l") auto
  obtain a b where ab: "rev ?t = a @ newline # b" "newline \<notin> set a"
    using nl by (metis set_rev split_list_first)
  have cut: "cutAt newline (rev ?t) = (a, b, True)" using ab cutAt_append by simp
  have t: "?t = rev b @ newline # rev a" using arg_cong [OF ab(1), of rev] by simp
  have "asLines ls = rev b @ newline # (rev a @ drop maxReportBatch (asLines ls))"
    using append_take_drop_id [of maxReportBatch "asLines ls"] t by (metis append.assoc append_Cons)
  from asLines_prefix [OF this assms(1)] obtain k where "rev b @ [newline] = asLines (take k ls)" "0 < k" by blast
  moreover have "batchOf (asLines ls) = rev b @ [newline]" using True cut by (simp add: batchOf_def)
  moreover have "length (rev b @ [newline]) \<le> length ?t" by (subst t) simp
  ultimately show ?thesis by (intro exI [of _ k]) simp
qed

lemma trimLoop_lines:
  "list_all lineOk ls \<Longrightarrow> \<exists>k. trimLoop (asLines ls) = asLines (drop k ls) \<and> length (trimLoop (asLines ls)) \<le> maxReportQueue * 3 div 4"
proof (induction ls)
  case Nil
  then show ?case by (simp add: trimLoop.simps)
next
  case (Cons l ls)
  show ?case
  proof (cases "length (asLines (l # ls)) > maxReportQueue * 3 div 4")
    case True
    have "tl (dropWhile (\<lambda>c. c \<noteq> newline) (asLines (l # ls))) = asLines ls"
      using Cons.prems by (auto simp: lineOk_def dropWhile_append)
    then have "trimLoop (asLines (l # ls)) = trimLoop (asLines ls)"
      using True by (subst trimLoop.simps) simp
    moreover obtain k where "trimLoop (asLines ls) = asLines (drop k ls)" "length (trimLoop (asLines ls)) \<le> maxReportQueue * 3 div 4"
      using Cons.IH Cons.prems by auto
    ultimately show ?thesis by (intro exI [of _ "Suc k"]) simp
  next
    case False
    then show ?thesis by (intro exI [of _ 0]) (subst trimLoop.simps, simp)+
  qed
qed

lemma nextRq_works:
  "set (qu_ops q) \<subseteq> {Works} \<Longrightarrow> \<exists>ops. nextRq q = (Works, q\<lparr>qu_ops := ops\<rparr>) \<and> set ops \<subseteq> {Works}"
  by (rule exI [of _ "tl (qu_ops q)"]) (cases "qu_ops q"; auto simp: nextRq_def)

lemma queued_ops [simp]: "queued (q\<lparr>qu_ops := ops\<rparr>) = queued q" "queued (q\<lparr>qu_file := Some raw\<rparr>) = raw"
  "queued (q\<lparr>qu_tooLarge := n\<rparr>) = queued q"
  by (simp_all add: queued_def)

lemma readQueue_works:
  assumes "set (qu_ops q) \<subseteq> {Works}"
  shows "\<exists>ops. readQueue q = (qu_file q, q\<lparr>qu_ops := ops\<rparr>) \<and> set ops \<subseteq> {Works}"
  using nextRq_works [OF assms] by (auto simp: readQueue_def)

lemma writeQueue_works:
  assumes "set (qu_ops q) \<subseteq> {Works}"
  shows "\<exists>ops. writeQueue raw q = q\<lparr>qu_ops := ops, qu_file := Some raw\<rparr> \<and> set ops \<subseteq> {Works}"
  using nextRq_works [OF assms] by (auto simp: writeQueue_def)

lemma queue_trim_works:
  assumes "set (qu_ops q) \<subseteq> {Works}" "qu_file q = Some raw"
  shows "\<exists>ops. queue_trim q = q\<lparr>qu_ops := ops, qu_file := Some (trimLoop raw)\<rparr> \<and> set ops \<subseteq> {Works}"
proof -
  obtain ops where r: "readQueue q = (Some raw, q\<lparr>qu_ops := ops\<rparr>)" "set ops \<subseteq> {Works}"
    using readQueue_works [OF assms(1)] assms(2) by auto
  then show ?thesis using writeQueue_works [of "q\<lparr>qu_ops := ops\<rparr>" "trimLoop raw"] by (auto simp: queue_trim_def)
qed

text \<open>
  The queue stays bounded and whole.  While the file can be written, after any report is added it holds complete lines
  of records, each fitting one upload, in at most two MiB; an added record is the last line, and what the cap drops is
  the oldest records.
\<close>

theorem report_queue_bounded:
  assumes ok: "queueOk q" and "queued q = asLines ls" "list_all lineOk ls"
    and enc: "encode rec = Some line" "newline \<notin> set line"
  shows "queueOk (queue_add encode on rec q) \<and>
    (\<exists>k. queued (queue_add encode on rec q) = asLines (drop k (ls @ (if on \<and> length line < maxReportBatch then [line] else []))))"
proof (cases "on \<and> length line < maxReportBatch")
  case False
  then have "queued (queue_add encode on rec q) = queued q" "qu_ops (queue_add encode on rec q) = qu_ops q"
    using enc by (auto simp: queue_add_def)
  then show ?thesis using ok assms(2) False by (auto simp: queueOk_def intro: exI [of _ 0])
next
  case True
  obtain ops where n: "nextRq q = (Works, q\<lparr>qu_ops := ops\<rparr>)" "set ops \<subseteq> {Works}"
    using nextRq_works ok unfolding queueOk_def by blast
  let ?ls = "ls @ [line]"
  have lines: "list_all lineOk ?ls" using assms(3) enc(2) True by (simp add: lineOk_def)
  let ?q = "q\<lparr>qu_ops := ops, qu_file := Some (asLines ?ls)\<rparr>"
  have add: "queue_add encode on rec q = (if length (asLines ?ls) > maxReportQueue then queue_trim ?q else ?q)"
    using True enc(1) n(1) assms(2) by (simp add: queue_add_def Let_def)
  show ?thesis
  proof (cases "length (asLines ?ls) > maxReportQueue")
    case trim: True
    obtain k where k: "trimLoop (asLines ?ls) = asLines (drop k ?ls)" "length (trimLoop (asLines ?ls)) \<le> maxReportQueue * 3 div 4"
      using trimLoop_lines [OF lines] by blast
    have "list_all lineOk (drop k ?ls)" using lines by (auto simp: list_all_iff dest: in_set_dropD)
    then have "\<exists>xs. trimLoop (asLines ?ls) = asLines xs \<and> list_all lineOk xs" using k(1) by blast
    moreover obtain ops' where "queue_trim ?q = ?q\<lparr>qu_ops := ops', qu_file := Some (trimLoop (asLines ?ls))\<rparr>" "set ops' \<subseteq> {Works}"
      using queue_trim_works [of ?q "asLines ?ls"] n(2) by auto
    moreover have "maxReportQueue * 3 div 4 \<le> maxReportQueue" by simp
    ultimately have "queueOk (queue_add encode on rec q)" "queued (queue_add encode on rec q) = asLines (drop k ?ls)"
      using add trim k by (simp_all add: queueOk_def queued_def)
    then show ?thesis using True by auto
  next
    case False
    then show ?thesis using add n(2) lines True
      by (auto simp: queueOk_def queued_def intro!: exI [of _ ?ls] exI [of _ 0])
  qed
qed

section \<open>Sending each report once\<close>

text \<open>
  What is needed of the codec and of one report: its line is whole, fits an upload, and is read back as the report.
\<close>

definition codec :: "(report \<Rightarrow> string option) \<Rightarrow> (string \<Rightarrow> report option) \<Rightarrow> report \<Rightarrow> bool" where
  "codec encode decode r \<longleftrightarrow> (\<exists>line. encode r = Some line \<and> lineOk line \<and> decode (line @ [newline]) = Some r)"

definition queueFor :: "(report \<Rightarrow> string option) \<Rightarrow> report list \<Rightarrow> string" where
  "queueFor encode rs = asLines (map (the \<circ> encode) rs)"

lemma queueFor_simps [simp]: "queueFor encode [] = []" "queueFor encode (r # rs) = the (encode r) @ newline # queueFor encode rs"
  "queueFor encode (xs @ ys) = queueFor encode xs @ queueFor encode ys"
  by (simp_all add: queueFor_def)

lemma queueFor_Nil [simp]: "queueFor encode rs = [] \<longleftrightarrow> rs = []" "[] = queueFor encode rs \<longleftrightarrow> rs = []"
  by (cases rs; auto)+

lemma queueFor_drop: "length (queueFor encode (drop k rs)) \<le> length (queueFor encode rs)"
  by (metis append_take_drop_id le_add2 length_append queueFor_simps(3))

lemma lines_line: "newline \<notin> set l \<Longrightarrow> lines acc (l @ newline # s) = (acc @ l @ [newline]) # lines [] s"
  by (induction l arbitrary: acc) auto

text \<open>What is posted for some reports of the queue is these reports.\<close>

lemma batchRecords_queueFor: "\<forall>r \<in> set rs. codec encode decode r \<Longrightarrow> batchRecords decode (queueFor encode rs) = rs"
proof (induction rs)
  case (Cons r rs)
  then obtain line where "encode r = Some line" "newline \<notin> set line" "decode (line @ [newline]) = Some r"
    by (auto simp: codec_def lineOk_def)
  then show ?case using Cons by (simp add: batchRecords_def lines_line List.map_filter_simps)
qed (simp add: batchRecords_def List.map_filter_simps)

lemma logged_meanwhile:
  assumes "set (qu_ops q) \<subseteq> {Works}" "queued q = queueFor encode rs" "\<forall>r \<in> set logged. codec encode decode r"
    and "length (queueFor encode (rs @ logged)) \<le> maxReportQueue"
  shows "set (qu_ops (fold (queue_add encode True) logged q)) \<subseteq> {Works} \<and>
    queued (fold (queue_add encode True) logged q) = queueFor encode (rs @ logged)"
  using assms
proof (induction logged arbitrary: q rs)
  case (Cons r logged)
  obtain line where line: "encode r = Some line" "length line < maxReportBatch" using Cons.prems(3) by (auto simp: codec_def lineOk_def)
  obtain ops where n: "nextRq q = (Works, q\<lparr>qu_ops := ops\<rparr>)" "set ops \<subseteq> {Works}" using nextRq_works [OF Cons.prems(1)] by blast
  let ?q = "q\<lparr>qu_ops := ops, qu_file := Some (queueFor encode (rs @ [r]))\<rparr>"
  have "length (queueFor encode (rs @ [r])) \<le> maxReportQueue" using Cons.prems(4) by simp
  then have "queue_add encode True r q = ?q"
    using line n(1) Cons.prems(2) by (simp add: queue_add_def Let_def queued_def)
  moreover have "set (qu_ops ?q) \<subseteq> {Works}" "queued ?q = queueFor encode (rs @ [r])" using n(2) by (simp_all add: queued_def)
  ultimately show ?case using Cons.IH [of ?q "rs @ [r]"] Cons.prems(3,4) by simp
qed simp

lemma flushLoop_round:
  assumes ok: "set (qu_ops q) \<subseteq> {Works}" and q: "queued q = queueFor encode rs" "rs \<noteq> []"
    and codec: "\<forall>r \<in> set (rs @ logged). codec encode decode r" and room: "length (queueFor encode (rs @ logged)) \<le> maxReportQueue"
  obtains k q0 q1 where "0 < k" "k \<le> length rs" "length (queueFor encode (take k rs)) \<le> maxReportBatch"
    "queued q0 = queueFor encode rs" "queued (fold (queue_add encode True) logged q0) = queueFor encode (rs @ logged)"
    "set (qu_ops q1) \<subseteq> {Works}" "queued q1 = queueFor encode (drop k rs @ logged)"
    "flushLoop encode decode [] q = ([(queueFor encode (take k rs), take k rs)], False, q0)"
    "\<forall>rest. flushLoop encode decode ((False, logged) # rest) q =
       ([(queueFor encode (take k rs), take k rs)], False, fold (queue_add encode True) logged q0)"
    "\<forall>rest. flushLoop encode decode ((True, logged) # rest) q =
       (case flushLoop encode decode rest q1 of (ups, good, q2) \<Rightarrow> ((queueFor encode (take k rs), take k rs) # ups, good, q2))"
proof -
  let ?ls = "map (the \<circ> encode) rs" and ?batch = "\<lambda>k. queueFor encode (take k rs)"
  have "lineOk (the (encode r))" if "r \<in> set rs" for r
  proof -
    have "codec encode decode r" using codec that by simp
    then show ?thesis by (auto simp: codec_def)
  qed
  then have "list_all lineOk ?ls" by (simp add: list_all_iff)
  moreover have "?ls \<noteq> []" using q(2) by simp
  ultimately obtain k' where k': "0 < k'" "batchOf (asLines ?ls) = asLines (take k' ?ls)" "length (batchOf (asLines ?ls)) \<le> maxReportBatch"
    using batchOf_lines by blast
  define k where "k = min k' (length rs)"
  have k: "0 < k" "k \<le> length rs" "batchOf (queueFor encode rs) = ?batch k" "length (?batch k) \<le> maxReportBatch"
    using k' q(2) by (auto simp: k_def queueFor_def take_map min_def)
  have split: "queueFor encode (rs @ logged) = ?batch k @ queueFor encode (drop k rs @ logged)"
    by (metis append.assoc append_take_drop_id queueFor_simps(3))
  have recs: "batchRecords decode (?batch k) = take k rs"
    using codec by (intro batchRecords_queueFor) (auto dest: in_set_takeD)
  have qf: "qu_file q = Some (queueFor encode rs)" using q by (auto simp: queued_def split: option.splits)
  obtain ops1 where r1: "readQueue q = (Some (queueFor encode rs), q\<lparr>qu_ops := ops1\<rparr>)" "set ops1 \<subseteq> {Works}"
    using readQueue_works [OF ok] qf by auto
  define q0 where "q0 = q\<lparr>qu_ops := ops1\<rparr>"
  define qa where "qa = fold (queue_add encode True) logged q0"
  have "set (qu_ops q0) \<subseteq> {Works}" "queued q0 = queueFor encode rs" using r1(2) q(1) by (simp_all add: q0_def)
  then have qa: "set (qu_ops qa) \<subseteq> {Works}" "queued qa = queueFor encode (rs @ logged)"
    using logged_meanwhile [of q0 encode rs logged decode] codec room by (auto simp: qa_def)
  have qaf: "qu_file qa = Some (queueFor encode (rs @ logged))" using qa(2) q(2) by (auto simp: queued_def split: option.splits)
  obtain ops2 where r2: "readQueue qa = (Some (queueFor encode (rs @ logged)), qa\<lparr>qu_ops := ops2\<rparr>)" "set ops2 \<subseteq> {Works}"
    using readQueue_works [OF qa(1)] qaf by auto
  define q1 where "q1 = writeQueue (queueFor encode (drop k rs @ logged)) (qa\<lparr>qu_ops := ops2\<rparr>)"
  obtain ops3 where w: "q1 = qa\<lparr>qu_ops := ops2\<rparr>\<lparr>qu_ops := ops3, qu_file := Some (queueFor encode (drop k rs @ logged))\<rparr>" "set ops3 \<subseteq> {Works}"
    using writeQueue_works [of "qa\<lparr>qu_ops := ops2\<rparr>" "queueFor encode (drop k rs @ logged)"] r2(2) by (auto simp: q1_def)
  have pre: "prefix (?batch k) (queueFor encode (rs @ logged))"
    and dr: "drop (length (?batch k)) (queueFor encode (rs @ logged)) = queueFor encode (drop k rs @ logged)"
    unfolding split by simp_all
  show thesis
  proof (rule that [OF k(1,2,4)])
    show "queued q0 = queueFor encode rs" by fact
    show "queued (fold (queue_add encode True) logged q0) = queueFor encode (rs @ logged)" using qa(2) by (simp add: qa_def)
    show "set (qu_ops q1) \<subseteq> {Works}" "queued q1 = queueFor encode (drop k rs @ logged)" using w by (simp_all add: queued_def)
    show "flushLoop encode decode [] q = ([(?batch k, take k rs)], False, q0)"
      by (subst flushLoop.simps) (simp add: r1 k(1,3) q(2) recs q0_def Let_def)
    show "\<forall>rest. flushLoop encode decode ((False, logged) # rest) q = ([(?batch k, take k rs)], False, fold (queue_add encode True) logged q0)"
      by (intro allI, subst flushLoop.simps) (simp add: r1 k(1,3) q(2) recs Let_def flip: q0_def)
    show "\<forall>rest. flushLoop encode decode ((True, logged) # rest) q =
        (case flushLoop encode decode rest q1 of (ups, good, q2) \<Rightarrow> ((?batch k, take k rs) # ups, good, q2))"
      by (intro allI, subst flushLoop.simps) (simp add: r1 r2 k(3) gr_implies_not0 [OF k(1)] q(2) recs pre dr Let_def del: queueFor_simps flip: q0_def qa_def q1_def)
  qed
qed

lemma flushLoop_empty:
  assumes "set (qu_ops q) \<subseteq> {Works}" "queued q = []"
  shows "\<exists>ops. flushLoop encode decode answers q = ([], True, q\<lparr>qu_ops := ops\<rparr>)"
  using readQueue_works [OF assms(1)] assms(2)
  by (subst flushLoop.simps) (auto simp: queued_def batchOf_def split: option.splits)

text \<open>The posts the server took: all of them, or all but the last when the flush ended badly.\<close>

definition taken :: "'a list \<Rightarrow> bool \<Rightarrow> 'a list" where
  "taken ups good = (if good then ups else butlast ups)"

lemma flushLoop_reports:
  assumes "set (qu_ops q) \<subseteq> {Works}" "queued q = queueFor encode rs"
    and "\<forall>r \<in> set (rs @ concat (map snd answers)). codec encode decode r"
    and "length (queueFor encode (rs @ concat (map snd answers))) \<le> maxReportQueue"
    and "flushLoop encode decode answers q = (ups, good, q')"
  shows "list_all (\<lambda>u. length (fst u) \<le> maxReportBatch \<and> fst u = queueFor encode (snd u)) ups \<and>
    (\<exists>left. concat (map snd (taken ups good)) @ left = rs @ concat (map snd (take (length ups) answers)) \<and> queued q' = queueFor encode left \<and>
       (good \<longrightarrow> left = [])) \<and>
    (length (rs @ concat (map snd answers)) \<le> length answers \<and> list_all fst answers \<longrightarrow> good)"
  using assms
proof (induction answers arbitrary: q rs ups)
  case Nil
  show ?case
  proof (cases "rs = []")
    case True
    then show ?thesis using flushLoop_empty [OF Nil.prems(1), of encode decode "[]"] Nil.prems(2,5) by (auto simp: taken_def)
  next
    case False
    obtain k q0 where "length (queueFor encode (take k rs)) \<le> maxReportBatch" "queued q0 = queueFor encode rs"
        "flushLoop encode decode [] q = ([(queueFor encode (take k rs), take k rs)], False, q0)"
      using flushLoop_round [OF Nil.prems(1,2) False, of "[]" decode] Nil.prems(3,4) by simp metis
    then show ?thesis using Nil.prems(5) False by (auto simp: taken_def)
  qed
next
  case (Cons ans answers)
  obtain ok logged where ans: "ans = (ok, logged)" by (cases ans)
  show ?case
  proof (cases "rs = []")
    case True
    then show ?thesis using flushLoop_empty [OF Cons.prems(1), of encode decode "ans # answers"] Cons.prems(2,5) by (auto simp: taken_def)
  next
    case False
    have pre: "\<forall>r \<in> set (rs @ logged). codec encode decode r" "length (queueFor encode (rs @ logged)) \<le> maxReportQueue"
      using Cons.prems(3,4) ans by auto
    obtain k q0 q1 where k: "0 < k" "k \<le> length rs"
      "length (queueFor encode (take k rs)) \<le> maxReportBatch"
      and "queued q0 = queueFor encode rs"
      and q0: "queued (fold (queue_add encode True) logged q0) = queueFor encode (rs @ logged)"
      and q1: "set (qu_ops q1) \<subseteq> {Works}" "queued q1 = queueFor encode (drop k rs @ logged)"
      and "flushLoop encode decode [] q = ([(queueFor encode (take k rs), take k rs)], False, q0)"
      and bad: "\<forall>rest. flushLoop encode decode ((False, logged) # rest) q =
        ([(queueFor encode (take k rs), take k rs)], False, fold (queue_add encode True) logged q0)"
      and well: "\<forall>rest. flushLoop encode decode ((True, logged) # rest) q =
        (case flushLoop encode decode rest q1 of (ups, good, q2) \<Rightarrow> ((queueFor encode (take k rs), take k rs) # ups, good, q2))"
      by (rule flushLoop_round [OF Cons.prems(1,2) False pre])
    show ?thesis
    proof (cases ok)
      case False
      then show ?thesis using spec [OF bad, of answers] Cons.prems(5) ans k(3) q0 by (auto simp: taken_def)
    next
      case True
      let ?rs = "drop k rs @ logged"
      obtain ups' where run: "flushLoop encode decode answers q1 = (ups', good, q')" "ups = (queueFor encode (take k rs), take k rs) # ups'"
        using spec [OF well, of answers] Cons.prems(5) ans True by (auto split: prod.splits)
      have "\<forall>r \<in> set (?rs @ concat (map snd answers)). codec encode decode r"
        using Cons.prems(3) ans by (auto dest: in_set_dropD)
      moreover have "length (queueFor encode (?rs @ concat (map snd answers))) \<le> maxReportQueue"
        using Cons.prems(4) ans queueFor_drop [of encode k rs] by simp
      ultimately have IH: "list_all (\<lambda>u. length (fst u) \<le> maxReportBatch \<and> fst u = queueFor encode (snd u)) ups'"
          "\<exists>left. concat (map snd (taken ups' good)) @ left = ?rs @ concat (map snd (take (length ups') answers)) \<and>
             queued q' = queueFor encode left \<and> (good \<longrightarrow> left = [])"
          "length (?rs @ concat (map snd answers)) \<le> length answers \<and> list_all fst answers \<longrightarrow> good"
        using Cons.IH [OF q1 _ _ run(1)] by blast+
      obtain left where left: "concat (map snd (taken ups' good)) @ left = ?rs @ concat (map snd (take (length ups') answers))"
          "queued q' = queueFor encode left" "good \<longrightarrow> left = []"
        using IH(2) by blast
      have ne: "ups' \<noteq> []" if "\<not> good"
        using run(1) that by (auto simp: flushLoop.simps [of encode decode answers] Let_def split: prod.splits if_splits list.splits bool.splits)
      then have "concat (map snd (taken ups good)) = take k rs @ concat (map snd (taken ups' good))"
        using run(2) by (auto simp: taken_def)
      then have "concat (map snd (taken ups good)) @ left = rs @ concat (map snd (take (length ups) (ans # answers)))"
        using left(1) run(2) ans by simp
      moreover have "length (rs @ concat (map snd (ans # answers))) \<le> length (ans # answers) \<and> list_all fst (ans # answers) \<longrightarrow> good"
        using IH(3) k(1,2) ans by auto
      ultimately show ?thesis using IH(1) left(2,3) run(2) k(3) by auto
    qed
  qed
qed


text \<open>
  A queue file that cannot be rewritten is sent without end.  The error of that write is ignored, so as long as the
  server goes on accepting, every round sends the same first batch again, with no pause between.
\<close>

theorem unwritable_queue_is_resent:
  assumes q: "qu_file q = Some raw" "batchOf raw \<noteq> []" "prefix (batchOf raw) raw"
    and ops: "qu_ops q = concat (replicate n [Works, Works, Fails])"
  shows "\<exists>ups good q'. flushLoop encode decode (replicate n (True, [])) q =
    (replicate n (batchOf raw, batchRecords decode (batchOf raw)) @ ups, good, q') \<and> qu_file q' = Some raw"
  using q ops
proof (induction n arbitrary: q)
  case 0
  then show ?case by (subst flushLoop.simps) (auto simp: readQueue_def nextRq_def Let_def)
next
  case (Suc n)
  let ?q = "q\<lparr>qu_ops := concat (replicate n [Works, Works, Fails])\<rparr>"
  have "flushLoop encode decode (replicate (Suc n) (True, [])) q = (case flushLoop encode decode (replicate n (True, [])) ?q of
      (ups, good, q') \<Rightarrow> ((batchOf raw, batchRecords decode (batchOf raw)) # ups, good, q'))"
    using Suc.prems by (simp add: flushLoop.simps [of _ _ "(True, []) # replicate n (True, [])"] readQueue_def writeQueue_def nextRq_def Let_def)
  then show ?case using Suc.IH [of ?q] Suc.prems by auto
qed

section \<open>Concrete runs\<close>

definition demo_queue :: reportQueue where
  "demo_queue = \<lparr>qu_file = Some (asLines [''{}'']), qu_ops = [], qu_tooLarge = 0\<rparr>"

lemma demo_queue_ok: "queued demo_queue = asLines [''{}'']" "list_all lineOk [''{}'']" "set (qu_ops demo_queue) \<subseteq> {Works}"
  by (simp_all add: demo_queue_def queued_def lineOk_def newline_def maxReportBatch_def)

definition demo_report :: report where
  "demo_report = fst (reportHandler_report [] \<lparr>sl_time = 0, sl_level = LevelError, sl_message = ''failed'', sl_attrs = []\<rparr>)"

theorem report_queue_bounded_witness: "queueOk (queue_add (\<lambda>_. Some ''{}'') True demo_report demo_queue)"
proof -
  have "length (queued demo_queue) \<le> maxReportQueue"
    by (simp add: demo_queue_ok(1) maxReportQueue_def)
  then have "queueOk demo_queue" unfolding queueOk_def using demo_queue_ok by blast
  from report_queue_bounded [OF this demo_queue_ok(1,2), of "\<lambda>_. Some ''{}''" demo_report "''{}''" True] show ?thesis
    by (simp add: newline_def)
qed

definition demo_reporting :: state where
  "demo_reporting = \<lparr>st_name = ''pc'', st_server = ''http://pc'', st_deviceID = ''id'', st_apps = [], st_reportsOff = False\<rparr>"


theorem unwritable_queue_is_resent_witness:
  "map fst (take 3 (fst (flushLoop (\<lambda>_. None) (\<lambda>_. None) (replicate 3 (True, [])) (demo_queue\<lparr>qu_ops := concat (replicate 3 [Works, Works, Fails])\<rparr>)))) =
   replicate 3 (asLines [''{}''])"
proof -
  have "batchOf (asLines [''{}'']) = asLines [''{}'']" by (simp add: batchOf_def maxReportBatch_def)
  then show ?thesis
    using unwritable_queue_is_resent [of "demo_queue\<lparr>qu_ops := concat (replicate 3 [Works, Works, Fails])\<rparr>" "asLines [''{}'']" 3 "\<lambda>_. None" "\<lambda>_. None"]
    by (auto simp: demo_queue_def)
qed

end
