(* ===== verification/Background.thy ===== *)
theory Background
  imports AgentReports Discovery
begin

text \<open>
  What runs beside the gateway: the sockets of the mDNS responder (\<^verbatim>\<open>device/agent/responder.go\<close>, \<^verbatim>\<open>mdns.go\<close>), \<^verbatim>\<open>agent discover\<close>, the address the
  tunnel dials (\<^verbatim>\<open>tunnel.go\<close>), the logger in front of the report queue and the loop that empties it (\<^verbatim>\<open>reports.go\<close>).
\<close>

section \<open>The responder's sockets\<close>

datatype family = IPv4 | IPv6

text \<open>\<^verbatim>\<open>newResponder\<close>: the families that could be bound; one is enough.\<close>

definition newResponder :: "bool \<Rightarrow> bool \<Rightarrow> family list option" where
  "newResponder v4 v6 =
     (let conns = (if v4 then [IPv4] else []) @ (if v6 then [IPv6] else []) in if conns = [] then None else Some conns)"

datatype target = Group family | Sender

definition respond_send :: "(dnsMsg \<Rightarrow> string option) \<Rightarrow> dnsMsg option \<Rightarrow> target \<Rightarrow> (target \<times> string) list" where
  "respond_send pack m t = (case m of None \<Rightarrow> [] | Some x \<Rightarrow> (case pack x of None \<Rightarrow> [] | Some buf \<Rightarrow> [(t, buf)]))"

text \<open>One datagram in the loop of \<^verbatim>\<open>serve\<close>: what is sent for it, where.\<close>

definition responder_serve ::
  "(dnsQuestion \<Rightarrow> string list) \<Rightarrow> (string \<Rightarrow> dnsMsg option) \<Rightarrow> (dnsMsg \<Rightarrow> string option) \<Rightarrow> family \<Rightarrow> nat \<Rightarrow> string \<Rightarrow> (target \<times> string) list" where
  "responder_serve zone unpack pack fam fromPort buf = (case unpack buf of None \<Rightarrow> []
   | Some q \<Rightarrow> (case answer_query zone q fromPort of (multi, uni) \<Rightarrow>
       respond_send pack multi (Group fam) @ respond_send pack uni Sender))"

text \<open>\<^verbatim>\<open>advertise\<close> puts a responder in place of the one before it and closes that one; \<^verbatim>\<open>close\<close> leaves none.\<close>

record responders =
  rs_current :: "family list option"
  rs_closed :: nat

definition replaceResponder :: "family list \<Rightarrow> responders \<Rightarrow> responders" where
  "replaceResponder new r = \<lparr>rs_current = Some new, rs_closed = rs_closed r + (if rs_current r = None then 0 else 1)\<rparr>"

definition advertiser_close :: "responders \<Rightarrow> responders" where
  "advertiser_close r = \<lparr>rs_current = None, rs_closed = rs_closed r + (if rs_current r = None then 0 else 1)\<rparr>"

text \<open>
  Responders do not answer each other.  Whatever datagram makes a responder send something, none of what it sends makes this
  or any other responder send anything, from whichever port it seems to come; so what comes back through multicast
  loopback ends there, and two PCs on one network cannot keep each other busy.
\<close>

theorem responders_do_not_echo:
  assumes library: "\<And>m buf. pack m = Some buf \<Longrightarrow> unpack buf = Some m"
    and sent: "(t, out) \<in> set (responder_serve zone unpack pack fam p buf)"
  shows "responder_serve zone' unpack pack fam' p' out = []"
proof -
  obtain q multi uni where q: "unpack buf = Some q" "answer_query zone q p = (multi, uni)"
    using sent by (cases "unpack buf") (auto simp: responder_serve_def intro: prod.exhaust_sel)
  have "\<exists>m. (multi = Some m \<or> uni = Some m) \<and> pack m = Some out"
    using sent q by (cases multi; cases uni) (auto simp: responder_serve_def respond_send_def split: option.splits)
  then obtain m where m: "multi = Some m \<or> uni = Some m" "pack m = Some out" by blast
  have "dm_response m"
    using q(2) m(1) by (auto simp: answer_query_def reply_def Let_def split: if_splits)
  then have "answer_query zone' m p' = (None, None)" by (simp add: answer_query_def)
  then show ?thesis using library [OF m(2)] by (simp add: responder_serve_def respond_send_def)
qed

section \<open>Looking for agents\<close>

definition mdnsService :: string where "mdnsService = ''_anywhere-file._tcp''"
definition mdnsDomain :: string where "mdnsDomain = ''local.''"

text \<open>\<^verbatim>\<open>discover\<close>: the query that is sent, through the interface the PC announces itself on, and what its answers are read as.\<close>

record mdnsQuery =
  mq_service :: string
  mq_domain :: string
  mq_interface :: "interface option"
  mq_ipv6 :: bool

definition discover :: "(mdnsQuery \<Rightarrow> serviceEntry list option) \<Rightarrow> interface list option \<Rightarrow> found list option" where
  "discover ask ifaces = map_option (map fromEntry)
     (ask \<lparr>mq_service = mdnsService, mq_domain = (if suffix ''.'' mdnsDomain then butlast mdnsDomain else mdnsDomain),
             mq_interface = multicastInterface ifaces, mq_ipv6 = False\<rparr>)"

text \<open>\<^verbatim>\<open>printDiscovered\<close>: a line for each agent and a count.\<close>

definition foundLine :: "found \<Rightarrow> string" where
  "foundLine f = joinWith [CHR 0x09] [fd_address f, fd_deviceID f, fd_name f, ''v'' @ fd_version f, joinWith '','' (fd_apps f)]"

definition printDiscovered :: "(mdnsQuery \<Rightarrow> serviceEntry list option) \<Rightarrow> interface list option \<Rightarrow> string list option" where
  "printDiscovered ask ifaces = map_option (\<lambda>fs. map foundLine fs @ [itoa (length fs) @ '' found'']) (discover ask ifaces)"

text \<open>
  What is printed can be taken apart again: as long as no field holds a tab, a line gives back the five fields, so the agents
  found and what they announced of themselves are those printed, in order, and the count is theirs.
\<close>

lemma found_line_reads_back:
  assumes "\<And>w. w \<in> {fd_address f, fd_deviceID f, fd_name f, fd_version f} \<union> set (fd_apps f) \<Longrightarrow> CHR 0x09 \<notin> set w"
  shows "splitOn (CHR 0x09) (foundLine f) = [fd_address f, fd_deviceID f, fd_name f, ''v'' @ fd_version f, joinWith '','' (fd_apps f)]"
proof -
  have "CHR 0x09 \<notin> set (joinWith '','' ws)" if "\<And>w. w \<in> set ws \<Longrightarrow> CHR 0x09 \<notin> set w" for ws
    using that by (induction ws rule: joinWith.induct [of "\<lambda>_. _" "''x''", simplified]) auto
  then show ?thesis using assms unfolding foundLine_def by (intro splitOn_joinWith) auto
qed

section \<open>Where the tunnel goes\<close>

text \<open>\<^verbatim>\<open>url.URL\<close>'s \<^verbatim>\<open>Port\<close> and \<^verbatim>\<open>Hostname\<close>: what follows the last colon when it is digits only, and the rest without brackets.\<close>

definition urlPort :: "string \<Rightarrow> string \<times> string" where
  "urlPort hostPort = (case cutAt (CHR '':'') (rev hostPort) of (after, before, found) \<Rightarrow>
     let (h, p) = (if found \<and> list_all is_digit (rev after) then (rev before, rev after) else (hostPort, [])) in
     (if h \<noteq> [] \<and> hd h = CHR ''['' \<and> last h = CHR '']'' then butlast (tl h) else h, p))"

text \<open>\<^verbatim>\<open>dialServer\<close>: whether TLS is used, and the address.\<close>

definition dialServer :: "(string \<Rightarrow> url option) \<Rightarrow> string \<Rightarrow> (bool \<times> string) option" where
  "dialServer urlParse server = (case urlParse server of None \<Rightarrow> None
   | Some u \<Rightarrow> (case urlPort (u_host u) of (hostname, port) \<Rightarrow>
       Some (u_scheme u = ''https'', if port = [] then joinHostPort hostname (if u_scheme u = ''http'' then ''80'' else ''443'') else u_host u)))"

text \<open>
  The tunnel goes to the server of the registry: over TLS exactly when the address says https, and to the port it names or
  else the one of its scheme.
\<close>

lemma urlPort_named: "port \<noteq> [] \<Longrightarrow> list_all is_digit port \<Longrightarrow> snd (urlPort (host @ '':'' @ port)) = port"
proof -
  assume p: "port \<noteq> []" "list_all is_digit port"
  then have "CHR '':'' \<notin> set (rev port)" by (auto simp: list_all_iff is_digit_def byte_def)
  then have "cutAt (CHR '':'') (rev port @ CHR '':'' # rev host) = (rev port, rev host, True)" by (rule cutAt_append)
  then show ?thesis using p by (simp add: urlPort_def Let_def)
qed

lemma urlPort_bare: "CHR '':'' \<notin> set host \<Longrightarrow> host = [] \<or> hd host \<noteq> CHR ''['' \<Longrightarrow> urlPort host = (host, [])"
  by (auto simp: urlPort_def cutAt_none)

theorem tunnel_dials_the_server:
  assumes "urlParse server = Some u" "u_scheme u = ''https'' \<or> u_scheme u = ''http''"
    and host: "CHR '':'' \<notin> set host" "host \<noteq> []" "hd host \<noteq> CHR ''[''"
  shows "(u_host u = host \<longrightarrow> dialServer urlParse server = Some (u_scheme u = ''https'', host @ (if u_scheme u = ''https'' then '':443'' else '':80''))) \<and>
    (\<forall>port. port \<noteq> [] \<and> list_all is_digit port \<and> u_host u = host @ '':'' @ port \<longrightarrow> dialServer urlParse server = Some (u_scheme u = ''https'', u_host u))"
proof (intro conjI impI allI)
  assume "u_host u = host"
  then show "dialServer urlParse server = Some (u_scheme u = ''https'', host @ (if u_scheme u = ''https'' then '':443'' else '':80''))"
    using assms urlPort_bare [OF host(1)] by (auto simp: dialServer_def joinHostPort_def)
next
  fix port assume "port \<noteq> [] \<and> list_all is_digit port \<and> u_host u = host @ '':'' @ port"
  then show "dialServer urlParse server = Some (u_scheme u = ''https'', u_host u)"
    using assms(1) urlPort_named [of port host] by (auto simp: dialServer_def split: prod.splits)
qed

section \<open>The logger\<close>

text \<open>A \<^verbatim>\<open>reportHandler\<close> and what was added to it; \<open>lo_level\<close> is the level of the log behind it.\<close>

record logger =
  lo_attrs :: "logAttr list"
  lo_level :: int

datatype logWith = WithAttrs "logAttr list" | WithGroup string

fun reportHandler_with :: "logWith \<Rightarrow> logger \<Rightarrow> logger" where
  "reportHandler_with (WithAttrs as) l = l\<lparr>lo_attrs := lo_attrs l @ as\<rparr>"
| "reportHandler_with (WithGroup name) l = l"

definition reportHandler_Enabled :: "logger \<Rightarrow> int \<Rightarrow> bool" where
  "reportHandler_Enabled l level \<longleftrightarrow> level \<ge> LevelWarn \<or> level \<ge> lo_level l"

text \<open>\<^verbatim>\<open>Handle\<close>: the queue after it, and whether the line went to the log.  \<open>on\<close> is None until \<^verbatim>\<open>setOn\<close>.\<close>

definition reportHandler_Handle ::
  "(report \<Rightarrow> string option) \<Rightarrow> bool option \<Rightarrow> logger \<Rightarrow> slogRecord \<Rightarrow> reportQueue \<Rightarrow> reportQueue \<times> bool" where
  "reportHandler_Handle encode on l r q =
     (case reportHandler_report (lo_attrs l) r of (rec, ok) \<Rightarrow>
        ((if ok then queue_add encode (on = Some True) rec q else q), sl_level r \<ge> lo_level l))"

text \<open>What a call on the logger does: a level that is not enabled never reaches the handler.\<close>

definition logLine :: "(report \<Rightarrow> string option) \<Rightarrow> bool option \<Rightarrow> logger \<Rightarrow> slogRecord \<Rightarrow> reportQueue \<Rightarrow> reportQueue \<times> bool" where
  "logLine encode on l r q = (if reportHandler_Enabled l (sl_level r) then reportHandler_Handle encode on l r q else (q, False))"

text \<open>
  What is reported does not depend on how much is logged.  However the logger was put together, the report of a warning or an
  error is the one of a single line with all its attributes, the level of the log only decides whether the line is
  written, and a line below a warning never adds to the queue what a code does not name.
\<close>

fun addedAttrs :: "logWith list \<Rightarrow> logAttr list" where
  "addedAttrs [] = []"
| "addedAttrs (WithAttrs as # ws) = as @ addedAttrs ws"
| "addedAttrs (WithGroup name # ws) = addedAttrs ws"

lemma with_attrs: "lo_attrs (fold reportHandler_with ws l) = lo_attrs l @ addedAttrs ws \<and> lo_level (fold reportHandler_with ws l) = lo_level l"
  by (induction ws arbitrary: l rule: addedAttrs.induct) simp_all

theorem reports_ignore_the_log_level:
  assumes "sl_level r \<ge> LevelWarn"
  shows "logLine encode on (fold reportHandler_with ws \<lparr>lo_attrs = as, lo_level = level\<rparr>) r q =
    (fst (logLine encode on \<lparr>lo_attrs = [], lo_level = 0\<rparr> (r\<lparr>sl_attrs := as @ addedAttrs ws @ sl_attrs r\<rparr>) q), sl_level r \<ge> level)"
proof -
  have "reportHandler_report (as @ addedAttrs ws) r = reportHandler_report [] (r\<lparr>sl_attrs := as @ addedAttrs ws @ sl_attrs r\<rparr>)"
    by (simp add: reportHandler_report_def Let_def split: prod.splits)
  then show ?thesis
    using assms with_attrs [of ws "\<lparr>lo_attrs = as, lo_level = level\<rparr>"]
    by (simp add: logLine_def reportHandler_Enabled_def reportHandler_Handle_def split: prod.splits)
qed

section \<open>Emptying the queue\<close>

text \<open>
  \<^verbatim>\<open>run\<close>: one \<^verbatim>\<open>flush\<close> per tick, with the registry as it is then and the server's answers, until the context ends.  What
  was posted comes out, tick by tick.
\<close>

fun reports_run :: "(report \<Rightarrow> string option) \<Rightarrow> (string \<Rightarrow> report option) \<Rightarrow> ((bool \<times> report list) list \<times> state) list \<Rightarrow> reportQueue \<Rightarrow>
    (string \<times> report list) list list \<times> reportQueue" where
  "reports_run encode decode [] q = ([], q)"
| "reports_run encode decode ((answers, st) # ticks) q = (case queue_flush encode decode answers st q of (ups, _, q1) \<Rightarrow>
     case reports_run encode decode ticks q1 of (upss, q2) \<Rightarrow> (ups # upss, q2))"

text \<open>Nothing is sent at a tick at which the PC is on no account or reports are switched off.\<close>

theorem nothing_sent_when_off:
  "list_all2 (\<lambda>(answers, st) ups. \<not> reporting st \<longrightarrow> ups = []) ticks (fst (reports_run encode decode ticks q))"
proof (induction ticks arbitrary: q)
  case (Cons tick ticks)
  obtain answers st where tick: "tick = (answers, st)" by (cases tick)
  obtain ups ok q1 where flush: "queue_flush encode decode answers st q = (ups, ok, q1)" by (cases "queue_flush encode decode answers st q")
  have "\<not> reporting st \<Longrightarrow> ups = []" using flush by (simp add: queue_flush_def Let_def)
  then show ?case using Cons [of q1] by (cases "reports_run encode decode ticks q1") (simp add: tick flush)
qed simp

section \<open>Witnesses\<close>

theorem responders_do_not_echo_witness:
  "responder_serve (\<lambda>_. [''rr'']) (\<lambda>s. if s = ''q'' then Some demo_msg else if s = ''a'' then reply 0 [''rr''] else None)
     (\<lambda>m. if Some m = reply 0 [''rr''] then Some ''a'' else None) IPv4 5353 ''a'' = []"
proof -
  let ?unpack = "\<lambda>s. if s = ''q'' then Some demo_msg else if s = ''a'' then reply 0 [''rr''] else None"
    and ?pack = "\<lambda>m. if Some m = reply 0 [''rr''] then Some ''a'' else None"
  have "?pack m = Some buf \<Longrightarrow> ?unpack buf = Some m" for m buf by (auto split: if_splits)
  moreover have "(Group IPv4, ''a'') \<in> set (responder_serve (\<lambda>_. [''rr'']) ?unpack ?pack IPv4 5353 ''q'')"
    by (simp add: responder_serve_def respond_send_def answer_query_def demo_msg_def mdnsPort_def wantsUnicast_def reply_def)
  ultimately show ?thesis by (rule responders_do_not_echo [where fam' = IPv4 and p' = 5353])
qed

theorem tunnel_dials_the_server_witness:
  "dialServer (\<lambda>_. Some \<lparr>u_scheme = ''https'', u_host = ''pc'', u_path = [], u_query = [], u_fragment = []\<rparr>) ''https://pc'' = Some (True, ''pc:443'')"
  using tunnel_dials_the_server [of "\<lambda>_. Some \<lparr>u_scheme = ''https'', u_host = ''pc'', u_path = [], u_query = [], u_fragment = []\<rparr>" "''https://pc''" _ "''pc''"]
  by simp

theorem reports_ignore_the_log_level_witness:
  "snd (logLine (\<lambda>_. None) None \<lparr>lo_attrs = [], lo_level = 12\<rparr> \<lparr>sl_time = 0, sl_level = 8, sl_message = ''m'', sl_attrs = []\<rparr> demo_queue) = False"
  using reports_ignore_the_log_level [of "\<lparr>sl_time = 0, sl_level = 8, sl_message = ''m'', sl_attrs = []\<rparr>" "\<lambda>_. None" None "[]" "[]" 12 demo_queue]
  by (simp add: LevelWarn_def)

end
