(* ===== verification/Manifest.thy ===== *)
theory Manifest
  imports Service
begin

text \<open>
  The texts of \<^verbatim>\<open>device/agent/service.go\<close>: the launchd job, the systemd unit, the menu entry and the scheduled task, as
  \<^verbatim>\<open>render\<close> writes them, and how launchd, systemd and a Windows process read the command line back out of them.
\<close>

section \<open>Writing\<close>

definition unlines :: "string list \<Rightarrow> string" where
  "unlines ls = concat (map (\<lambda>l. l @ [newline]) ls)"

definition tabs :: "nat \<Rightarrow> string \<Rightarrow> string" where
  "tabs n s = replicate n (CHR 0x09) @ s"

text \<open>
  \<^verbatim>\<open>xml.EscapeText\<close>, rune by rune: the markup characters and the three control characters XML has become references, and
  what is no XML character, or no UTF-8, becomes U+FFFD.
\<close>

definition xmlMarks :: "(char \<times> string) list" where
  "xmlMarks = [(CHR 0x22, ''#34''), (CHR 0x27, ''#39''), (CHR ''&'', ''amp''), (CHR ''<'', ''lt''), (CHR ''>'', ''gt''),
     (CHR 0x09, ''#x9''), (CHR 0x0A, ''#xA''), (CHR 0x0D, ''#xD'')]"

definition xmlChar :: "string \<Rightarrow> bool" where
  "xmlChar w \<longleftrightarrow> (if length w = 1 then 32 \<le> byte (hd w) \<and> byte (hd w) < 128
     else w \<noteq> [CHR 0xEF, CHR 0xBF, CHR 0xBE] \<and> w \<noteq> [CHR 0xEF, CHR 0xBF, CHR 0xBF])"

definition xmlRune :: "string \<Rightarrow> string" where
  "xmlRune w = (case (if length w = 1 then map_of xmlMarks (hd w) else None) of
      Some ref \<Rightarrow> ''&'' @ ref @ '';''
    | None \<Rightarrow> if xmlChar w then w else [CHR 0xEF, CHR 0xBF, CHR 0xBD])"

definition xmlEscape :: "string \<Rightarrow> string" where
  "xmlEscape s = concat (map xmlRune (runes s))"

definition launchdHead :: "string \<Rightarrow> string list" where \<open>
  launchdHead label =
     [''<?xml version="1.0" encoding="UTF-8"?>'',
      ''<!DOCTYPE plist PUBLIC "-//Apple//DTD PLIST 1.0//EN" "http://www.apple.com/DTDs/PropertyList-1.0.dtd">'',
      ''<plist version="1.0">'',
      ''<dict>'',
      tabs 1 (''<key>Label</key>''),
      tabs 1 (''<string>'' @ label @ ''</string>''),
      tabs 1 (''<!-- #223: an app dragged to the Trash takes the binary and leaves this file. The job''),
      tabs 1 (''     then deletes this file and itself, so launchd stops starting a missing program and''),
      tabs 1 (''     the next login loads nothing. exec keeps the agent as the process launchd watches. -->''),
      tabs 1 (''<key>ProgramArguments</key>''),
      tabs 1 (''<array>'')]\<close>

definition launchdPlist :: "string \<Rightarrow> string \<Rightarrow> string \<Rightarrow> string \<Rightarrow> string \<Rightarrow> string list \<Rightarrow> string" where \<open>
  launchdPlist label path command exe errFile args = unlines (
     launchdHead label @
     [tabs 2 (''<string>/bin/sh</string>''),
      tabs 2 (''<string>-c</string>''),
      tabs 2 (''<string>[ -x "$1" ] || { rm -f "$0"; exec launchctl remove '' @ label @ ''; }; exec "$@"</string>''),
      tabs 2 (''<string>'' @ xmlEscape path @ ''</string>''),
      tabs 2 (''<string>'' @ xmlEscape exe @ ''</string>''),
      tabs 2 (''<string>'' @ command @ ''</string>'')] @
     map (\<lambda>a. tabs 2 (''<string>'' @ xmlEscape a @ ''</string>'')) args @
     [tabs 1 (''</array>''),
      tabs 1 (''<key>RunAtLoad</key>''),
      tabs 1 (''<true/>''),
      tabs 1 (''<!-- Login Items in System Settings lists every job by its binary's name. This puts''),
      tabs 1 (''     both under the app instead, as one entry called anywhere-file. -->''),
      tabs 1 (''<key>AssociatedBundleIdentifiers</key>''),
      tabs 1 (''<string>'' @ serviceLabel @ ''</string>'')] @
     (if command = ''menubar'' then
     [tabs 1 (''<key>LimitLoadToSessionType</key>''),
      tabs 1 (''<string>Aqua</string>''),
      tabs 1 (''<key>ProcessType</key>''),
      tabs 1 (''<string>Interactive</string>'')]
      else
     [tabs 1 (''<key>KeepAlive</key>''),
      tabs 1 (''<true/>''),
      tabs 1 (''<key>ProcessType</key>''),
      tabs 1 (''<string>Standard</string>'')]) @
     [tabs 1 (''<!-- The agent writes and rotates its own log. What reaches stderr is what comes before''),
      tabs 1 (''     the log is open, and a crash. -->''),
      tabs 1 (''<key>StandardErrorPath</key>''),
      tabs 1 (''<string>'' @ xmlEscape errFile @ ''</string>''),
      ''</dict>'',
      ''</plist>''])\<close>

definition taskHead :: "string \<Rightarrow> bool \<Rightarrow> string list" where \<open>
  taskHead user restart =
     [''<?xml version="1.0" encoding="UTF-16"?>'',
      ''<Task version="1.2" xmlns="http://schemas.microsoft.com/windows/2004/02/mit/task">'',
      ''  <RegistrationInfo>'',
      ''    <Description>anywhere-file agent</Description>'',
      ''  </RegistrationInfo>'',
      ''  <Triggers>'',
      ''    <LogonTrigger>'',
      ''      <Enabled>true</Enabled>''] @
     (if user \<noteq> [] then [''      <UserId>'' @ xmlEscape user @ ''</UserId>''] else []) @
     [''    </LogonTrigger>'',
      ''  </Triggers>'',
      ''  <Principals>'',
      ''    <Principal id="Author">''] @
     (if user \<noteq> [] then [''      <UserId>'' @ xmlEscape user @ ''</UserId>''] else []) @
     [''      <LogonType>InteractiveToken</LogonType>'',
      ''      <RunLevel>LeastPrivilege</RunLevel>'',
      ''    </Principal>'',
      ''  </Principals>'',
      ''  <Settings>'',
      ''    <MultipleInstancesPolicy>IgnoreNew</MultipleInstancesPolicy>'',
      ''    <DisallowStartIfOnBatteries>false</DisallowStartIfOnBatteries>'',
      ''    <StopIfGoingOnBatteries>false</StopIfGoingOnBatteries>'',
      ''    <StartWhenAvailable>true</StartWhenAvailable>'',
      ''    <RunOnlyIfNetworkAvailable>false</RunOnlyIfNetworkAvailable>'',
      ''    <Hidden>true</Hidden>'',
      ''    <ExecutionTimeLimit>PT0S</ExecutionTimeLimit>''] @
     (if restart then
     [''    <RestartOnFailure>'',
      ''      <Interval>PT1M</Interval>'',
      ''      <Count>999</Count>'',
      ''    </RestartOnFailure>'']
      else []) @
     [''  </Settings>'',
      ''  <Actions Context="Author">'',
      ''    <Exec>'']\<close>

definition taskXml :: "string \<Rightarrow> string \<Rightarrow> string \<Rightarrow> bool \<Rightarrow> string" where \<open>
  taskXml user exe arguments restart = unlines (
     taskHead user restart @
     [''      <Command>'' @ xmlEscape exe @ ''</Command>'',
      ''      <Arguments>'' @ xmlEscape arguments @ ''</Arguments>'',
      ''    </Exec>'',
      ''  </Actions>'',
      ''</Task>''])\<close>

definition linuxUnit :: "string \<Rightarrow> string list \<Rightarrow> string" where
  "linuxUnit exe args = unlines
     [''[Unit]'', ''Description=anywhere-file agent'', ''After=network-online.target'', [],
      ''[Service]'', ''ExecStart='' @ exe @ '' run'' @ concat (map (\<lambda>a. '' '' @ a) args), ''Restart=always'', ''RestartSec=5'', [],
      ''[Install]'', ''WantedBy=default.target'']"

definition linuxDesktop :: "string \<Rightarrow> string" where
  "linuxDesktop exe = unlines
     [''[Desktop Entry]'', ''Type=Application'', ''Name=anywhere-file settings'', ''Comment=Choose which folders this PC shares'',
      ''Exec='' @ exe @ '' settings'', ''Terminal=false'', ''Categories=Network;FileTransfer;Settings;'']"

fun renderManifest :: "planBody \<Rightarrow> string" where
  "renderManifest (LaunchdJob label path command exe errFile args) = launchdPlist label path command exe errFile args"
| "renderManifest (SystemdUnit exe args) = linuxUnit exe args"
| "renderManifest (DesktopEntry exe) = linuxDesktop exe"
| "renderManifest (ScheduledTask user exe arguments restart) = taskXml user exe arguments restart"

section \<open>Reading\<close>

text \<open>
  XML as far as the manifests use it: each tag with the character data up to the next one, read in one pass, and the
  references of \<^const>\<open>xmlMarks\<close> put back.
\<close>

type_synonym scan = "bool \<times> string \<times> string \<times> (string \<times> string) list"

fun scanChar :: "char \<Rightarrow> scan \<Rightarrow> scan" where
  "scanChar c (inTag, buf, tag, ps) =
     (if c = CHR ''<'' then (True, [], [], ps @ [(tag, buf)])
      else if c = CHR ''>'' \<and> inTag then (False, [], buf, ps)
      else (inTag, buf @ [c], tag, ps))"

definition xmlPieces :: "string \<Rightarrow> (string \<times> string) list" where
  "xmlPieces s = (case fold scanChar s (False, [], [], []) of (_, buf, tag, ps) \<Rightarrow> ps @ [(tag, buf)])"

function xmlText :: "string \<Rightarrow> string option" where
  "xmlText [] = Some []"
| "xmlText (c # s) =
     (if c = CHR ''&'' then (case cutAt (CHR '';'') s of (ref, rest, ended) \<Rightarrow>
        (case find (\<lambda>m. snd m = ref) xmlMarks of
           Some (d, _) \<Rightarrow> if ended then map_option (\<lambda>t. d # t) (xmlText rest) else None
         | None \<Rightarrow> None))
      else map_option (\<lambda>t. c # t) (xmlText s))"
  by pat_completeness auto

lemma cutAt_shorter: "cutAt c s = (k, v, ok) \<Longrightarrow> length v \<le> length s"
proof (cases "dropWhile (\<lambda>d. d \<noteq> c) s")
  case (Cons d rest)
  assume "cutAt c s = (k, v, ok)"
  then show ?thesis using Cons length_dropWhile_le [of "\<lambda>d. d \<noteq> c" s] by (simp add: cutAt_def)
qed (simp add: cutAt_def)

termination xmlText
proof (relation "measure length", goal_cases)
  case 2
  then show ?case by (auto simp: less_Suc_eq_le dest: cutAt_shorter [OF sym])
qed simp_all

text \<open>launchd's \<open>ProgramArguments\<close>: the strings of the array.\<close>

definition programArguments :: "string \<Rightarrow> string list option" where
  "programArguments text = those (map (\<lambda>p. xmlText (snd p)) (filter (\<lambda>p. fst p = ''string'')
     (takeWhile (\<lambda>p. fst p \<noteq> ''/array'') (dropWhile (\<lambda>p. fst p \<noteq> ''array'') (xmlPieces text)))))"

text \<open>
  \<^verbatim>\<open>os.Args\<close> on Windows, as Go's runtime takes the command line apart: a quote after an even number of backslashes opens or
  closes, after an odd number it is a character, and backslashes before anything else stand for themselves.
\<close>

definition slashes :: "nat \<Rightarrow> string" where "slashes n = replicate n (CHR 0x5C)"

fun nextArg :: "string \<Rightarrow> bool \<Rightarrow> nat \<Rightarrow> string \<Rightarrow> string \<times> string" where
  "nextArg [] inQuote n b = (b @ slashes n, [])"
| "nextArg (c # s) inQuote n b =
     (if (c = CHR '' '' \<or> c = CHR 0x09) \<and> \<not> inQuote then (b @ slashes n, s)
      else if c = CHR 0x22 then
        (if odd n then nextArg s inQuote 0 (b @ slashes (n div 2) @ [c])
         else if inQuote \<and> s \<noteq> [] \<and> hd s = CHR 0x22 then nextArg (tl s) (\<not> inQuote) 0 (b @ slashes (n div 2) @ [c])
         else nextArg s (\<not> inQuote) 0 (b @ slashes (n div 2)))
      else if c = CHR 0x5C then nextArg s inQuote (n + 1) b
      else nextArg s inQuote 0 (b @ slashes n @ [c]))"

lemma nextArg_rest: "length (snd (nextArg s q n b)) \<le> length s - 1"
proof (induction s q n b rule: nextArg.induct)
  case (2 c s q n b)
  have up: "m \<le> length s - 1 \<Longrightarrow> m \<le> length s" "m \<le> length (tl s) - 1 \<Longrightarrow> m \<le> length s" for m by simp_all
  consider "(c = CHR '' '' \<or> c = CHR 0x09) \<and> \<not> q" | "\<not> ((c = CHR '' '' \<or> c = CHR 0x09) \<and> \<not> q)" "c = CHR 0x22" "odd n"
    | "\<not> ((c = CHR '' '' \<or> c = CHR 0x09) \<and> \<not> q)" "c = CHR 0x22" "\<not> odd n" "q \<and> s \<noteq> [] \<and> hd s = CHR 0x22"
    | "\<not> ((c = CHR '' '' \<or> c = CHR 0x09) \<and> \<not> q)" "c = CHR 0x22" "\<not> odd n" "\<not> (q \<and> s \<noteq> [] \<and> hd s = CHR 0x22)"
    | "\<not> ((c = CHR '' '' \<or> c = CHR 0x09) \<and> \<not> q)" "c \<noteq> CHR 0x22" "c = CHR 0x5C"
    | "\<not> ((c = CHR '' '' \<or> c = CHR 0x09) \<and> \<not> q)" "c \<noteq> CHR 0x22" "c \<noteq> CHR 0x5C" by blast
  then have "length (snd (nextArg (c # s) q n b)) \<le> length s"
  proof cases
    case 1 then show ?thesis by simp
  next
    case 2 from up(1) [OF "2.IH"(1) [OF this]] 2 show ?thesis by simp
  next
    case 3 from up(2) [OF "2.IH"(2) [OF this]] 3 show ?thesis by simp
  next
    case 4 from up(1) [OF "2.IH"(3) [OF this]] show ?thesis unfolding nextArg.simps if_not_P [OF 4(1)] if_P [OF 4(2)] if_not_P [OF 4(3)] if_not_P [OF 4(4)] .
  next
    case 5 from up(1) [OF "2.IH"(4) [OF this]] 5 show ?thesis by simp
  next
    case 6 from up(1) [OF "2.IH"(5) [OF this]] 6 show ?thesis by simp
  qed
  then show ?case by simp
qed simp

function commandLineToArgv :: "string \<Rightarrow> string list" where
  "commandLineToArgv [] = []"
| "commandLineToArgv (c # s) =
     (if c = CHR '' '' \<or> c = CHR 0x09 then commandLineToArgv s
      else (case nextArg (c # s) False 0 [] of (a, rest) \<Rightarrow> a # commandLineToArgv rest))"
  by pat_completeness auto

termination commandLineToArgv
proof (relation "measure length", goal_cases)
  case (3 c s)
  then show ?case using nextArg_rest [of "c # s" False 0 "[]"] by (auto simp del: nextArg.simps simp: less_Suc_eq_le dest!: arg_cong [of _ _ snd])
qed simp_all

section \<open>Escaped text reads back\<close>

lemma runeLen_high:
  assumes "runeLen (c # s) \<noteq> 1" "d \<in> set (take (runeLen (c # s)) (c # s))"
  shows "128 \<le> byte d"
proof -
  let ?n = "runeLen (c # s)"
  have n: "?n \<le> 4" "?n \<noteq> 1 \<Longrightarrow> 128 \<le> byte ((c # s) ! 0)" "?n \<noteq> 1 \<Longrightarrow> 128 \<le> byte ((c # s) ! 1)"
    "3 \<le> ?n \<Longrightarrow> 128 \<le> byte ((c # s) ! 2)" "4 \<le> ?n \<Longrightarrow> 128 \<le> byte ((c # s) ! 3)"
    unfolding runeLen_def Let_def cont_def by (simp_all split: if_splits) (elim disjE conjE; simp)+
  obtain k where k: "k < ?n" "d = (c # s) ! k" using assms(2) by (auto simp: in_set_conv_nth)
  then consider "k = 0" | "k = 1" | "k = 2" | "k = 3" using n(1) by linarith
  then show ?thesis using k n assms(1) by cases simp_all
qed

lemma runes_bytes: "w \<in> set (runes s) \<Longrightarrow> length w = 1 \<or> list_all (\<lambda>c. 128 \<le> byte c) w"
proof (induction s rule: runes.induct)
  case (2 c s)
  have "length (take (runeLen (c # s)) (c # s)) = 1 \<or> list_all (\<lambda>d. 128 \<le> byte d) (take (runeLen (c # s)) (c # s))"
    using runeLen_high [of c s] by (cases "runeLen (c # s) = 1") (auto simp: list_all_iff)
  with 2 show ?case by auto
qed simp

definition xmlClean :: "string \<Rightarrow> bool" where
  "xmlClean s \<longleftrightarrow> list_all (\<lambda>w. length w = 1 \<and> map_of xmlMarks (hd w) \<noteq> None \<or> xmlChar w) (runes s)"

lemma xmlRune_plain: "c \<in> set (xmlRune w) \<Longrightarrow> length w = 1 \<or> list_all (\<lambda>c. 128 \<le> byte c) w \<Longrightarrow> c \<noteq> CHR ''<'' \<and> c \<noteq> CHR ''>''"
proof (cases w)
  case (Cons d w')
  assume c: "c \<in> set (xmlRune w)" and w: "length w = 1 \<or> list_all (\<lambda>c. 128 \<le> byte c) w"
  have "byte (CHR ''<'') = 60" "byte (CHR ''>'') = 62" by (simp_all add: byte_def)
  then show ?thesis using c w Cons
    by (auto simp: xmlRune_def xmlMarks_def list_all_iff split: if_splits option.splits)
qed (simp add: xmlRune_def xmlChar_def)

lemma xmlEscape_plain: "c \<in> set (xmlEscape s) \<Longrightarrow> c \<noteq> CHR ''<'' \<and> c \<noteq> CHR ''>''"
  unfolding xmlEscape_def using xmlRune_plain runes_bytes by fastforce

lemma xmlText_plain: "CHR ''&'' \<notin> set w \<Longrightarrow> xmlText (w @ s) = map_option (\<lambda>t. w @ t) (xmlText s)"
  by (induction w; cases "xmlText s") auto

lemma xmlText_rune:
  assumes "length w = 1 \<and> map_of xmlMarks (hd w) \<noteq> None \<or> xmlChar w" "length w = 1 \<or> list_all (\<lambda>c. 128 \<le> byte c) w"
  shows "xmlText (xmlRune w @ s) = map_option (\<lambda>t. w @ t) (xmlText s)"
proof (cases "length w = 1 \<and> map_of xmlMarks (hd w) \<noteq> None")
  case True
  then obtain c where w: "w = [c]" by (auto simp: length_Suc_conv)
  then have "c \<in> fst ` set xmlMarks" using True by (auto simp: map_of_eq_None_iff)
  then show ?thesis
    by (auto simp: w xmlMarks_def xmlRune_def cutAt_def)
next
  case False
  then have plain: "xmlRune w = w" "xmlChar w" using assms(1) by (auto simp: xmlRune_def split: option.splits)
  have "CHR ''&'' \<notin> set w"
  proof
    assume amp: "CHR ''&'' \<in> set w"
    have "byte (CHR ''&'') = 38" by (simp add: byte_def)
    then have "w = ''&''" using amp assms(2) by (auto simp: list_all_iff length_Suc_conv)
    then show False using False by (simp add: xmlMarks_def)
  qed
  then show ?thesis by (simp add: plain(1) xmlText_plain)
qed

lemma xmlText_escape: "xmlClean s \<Longrightarrow> xmlText (xmlEscape s) = Some s"
proof -
  have "\<forall>w \<in> set ws. (length w = 1 \<and> map_of xmlMarks (hd w) \<noteq> None \<or> xmlChar w) \<and> (length w = 1 \<or> list_all (\<lambda>c. 128 \<le> byte c) w) \<Longrightarrow>
      xmlText (concat (map xmlRune ws)) = Some (concat ws)" for ws
    by (induction ws) (auto simp: xmlText_rune)
  then show "xmlClean s \<Longrightarrow> ?thesis"
    using runes_bytes [of _ s] runes_concat [of s] by (auto simp: xmlClean_def xmlEscape_def list_all_iff)
qed

section \<open>The launchd job starts the agent\<close>

lemma scan_plain: "\<forall>c \<in> set v. c \<noteq> CHR ''<'' \<and> c \<noteq> CHR ''>'' \<Longrightarrow> fold scanChar v (t, buf, tag, ps) = (t, buf @ v, tag, ps)"
  by (induction v arbitrary: buf) auto

lemma scan_escape [simp]: "fold scanChar (xmlEscape s) (t, buf, tag, ps) = (t, buf @ xmlEscape s, tag, ps)"
  by (rule scan_plain) (use xmlEscape_plain in blast)

definition launchScript :: "string \<Rightarrow> string" where \<open>
  launchScript label = ''[ -x "$1" ] || { rm -f "$0"; exec launchctl remove '' @ label @ ''; }; exec "$@"''\<close>

lemma unlines_simps: "unlines [] = []" "unlines (l # ls) = l @ newline # unlines ls" "unlines (ls @ ls') = unlines ls @ unlines ls'"
  by (simp_all add: unlines_def)

definition argLines :: "string list \<Rightarrow> string" where
  "argLines args = unlines (map (\<lambda>a. tabs 2 (''<string>'' @ xmlEscape a @ ''</string>'')) args)"

definition indent :: "nat \<Rightarrow> string" where "indent n = newline # replicate n (CHR 0x09)"

lemma scan_args:
  "fold scanChar (argLines args) (False, [newline], ''/string'', ps) =
     (False, [newline], ''/string'', ps @ concat (map (\<lambda>a. [(''/string'', indent 2), (''string'', xmlEscape a)]) args))"
proof (induction args arbitrary: ps)
  case (Cons a args)
  have "fold scanChar (tabs 2 (''<string>'' @ xmlEscape a @ ''</string>'') @ [newline]) (False, [newline], ''/string'', ps) =
      (False, [newline], ''/string'', ps @ [(''/string'', indent 2), (''string'', xmlEscape a)])"
    by (simp add: tabs_def indent_def numeral_2_eq_2 newline_def)
  then show ?case using Cons by (simp add: argLines_def unlines_simps)
qed (simp add: argLines_def unlines_simps)

lemma scan_frame:
  "fold scanChar s (t, b, g, ps) = (case fold scanChar s (t, b, g, []) of (t', b', g', qs) \<Rightarrow> (t', b', g', ps @ qs))"
proof (induction s arbitrary: t b g ps)
  case (Cons c s)
  have step: "fold scanChar (c # s) (t, b, g, qs) = fold scanChar s (scanChar c (t, b, g, qs))" for qs by simp
  show ?case
    unfolding step by (auto simp: Cons.IH [of True "[]" "[]" "ps @ [(g, b)]"] Cons.IH [of True "[]" "[]" "[(g, b)]"]
      Cons.IH [of False "[]" b ps] Cons.IH [of t "b @ [c]" g ps] split: prod.splits)
qed simp

lemma scan_head:
  assumes "\<forall>c \<in> set label. c \<noteq> CHR ''<'' \<and> c \<noteq> CHR ''>''"
  obtains pre where "fold scanChar (unlines (launchdHead label)) (False, [], [], []) = (False, [newline], ''array'', pre)"
    and "\<forall>p \<in> set pre. fst p \<noteq> ''array''"
proof -
  have "(case fold scanChar (unlines (launchdHead label)) (False, [], [], []) of (t, b, g, ps) \<Rightarrow>
      \<not> t \<and> b = [newline] \<and> g = ''array'' \<and> list_all (\<lambda>p. fst p \<noteq> ''array'') ps)"
    by (simp add: launchdHead_def unlines_simps tabs_def numeral_2_eq_2 newline_def scan_plain [OF assms])
  then show ?thesis using that by (auto simp: list_all_iff split: prod.splits)
qed

definition piecesFrom :: "scan \<Rightarrow> (string \<times> string) list" where
  "piecesFrom st = (case st of (_, buf, tag, ps) \<Rightarrow> ps @ [(tag, buf)])"

lemma pieces_first: "\<exists>x rest. piecesFrom (fold scanChar s (False, b, g, ps)) = ps @ (g, x) # rest"
proof (induction s arbitrary: b)
  case (Cons c s)
  show ?case
  proof (cases "c = CHR ''<''")
    case True
    then have "fold scanChar (c # s) (False, b, g, ps) = fold scanChar s (True, [], [], ps @ [(g, b)])" by simp
    then show ?thesis
      by (subst (asm) scan_frame) (auto simp: piecesFrom_def split: prod.splits)
  next
    case False
    then show ?thesis using Cons [of "b @ [c]"] by simp
  qed
qed (simp add: piecesFrom_def)

definition commandLines :: "string \<Rightarrow> string \<Rightarrow> string \<Rightarrow> string \<Rightarrow> string" where
  "commandLines label path exe command =
     unlines [tabs 2 ''<string>/bin/sh</string>'', tabs 2 ''<string>-c</string>'', tabs 2 (''<string>'' @ launchScript label @ ''</string>''),
       tabs 2 (''<string>'' @ xmlEscape path @ ''</string>''), tabs 2 (''<string>'' @ xmlEscape exe @ ''</string>''),
       tabs 2 (''<string>'' @ command @ ''</string>'')]"

lemma launchd_text:
  "\<exists>R. launchdPlist label path command exe errFile args = unlines (launchdHead label) @
     commandLines label path exe command @
     argLines args @ tabs 1 ''</array>'' @ R"
  unfolding launchdPlist_def unlines_simps(3) argLines_def
  by (simp add: commandLines_def launchScript_def unlines_simps tabs_def numeral_2_eq_2)

lemma launchScript_plain:
  assumes "\<forall>c \<in> set label. c \<noteq> CHR ''<'' \<and> c \<noteq> CHR ''>'' \<and> c \<noteq> CHR ''&''"
  shows "\<forall>c \<in> set (launchScript label). c \<noteq> CHR ''<'' \<and> c \<noteq> CHR ''>''" "CHR ''&'' \<notin> set (launchScript label)"
  using assms by (auto simp: launchScript_def)

lemma plain_text: "CHR ''&'' \<notin> set w \<Longrightarrow> xmlText w = Some w"
  using xmlText_plain [of w "[]"] by simp

lemma those_map_Some: "\<forall>x \<in> set xs. f x = Some (g x) \<Longrightarrow> those (map f xs) = Some (map g xs)"
  by (induction xs) auto

lemma launchd_arguments:
  assumes label: "\<forall>c \<in> set (label @ command). c \<noteq> CHR ''<'' \<and> c \<noteq> CHR ''>'' \<and> c \<noteq> CHR ''&''"
    and clean: "list_all xmlClean (path # exe # args)"
  shows "programArguments (launchdPlist label path command exe errFile args) =
    Some ([''/bin/sh'', ''-c'', launchScript label, path, exe, command] @ args)"
proof -
  obtain pre where head: "fold scanChar (unlines (launchdHead label)) (False, [], [], []) = (False, [newline], ''array'', pre)"
      "\<forall>p \<in> set pre. fst p \<noteq> ''array''"
    using scan_head [of label] label by auto
  obtain R where whole: "launchdPlist label path command exe errFile args = unlines (launchdHead label) @
     commandLines label path exe command @
     argLines args @ tabs 1 ''</array>'' @ R" using launchd_text by metis
  define strs where "strs = [''/bin/sh'', ''-c'', launchScript label, xmlEscape path, xmlEscape exe, command]"
  have script: "\<forall>c \<in> set (launchScript label). c \<noteq> CHR ''<'' \<and> c \<noteq> CHR ''>''" "CHR ''&'' \<notin> set (launchScript label)"
    using launchScript_plain [of label] label by auto
  have command: "\<forall>c \<in> set command. c \<noteq> CHR ''<'' \<and> c \<noteq> CHR ''>''" using label by auto
  let ?cmd = "tl (concat (map (\<lambda>v. [(''/string'', indent 2), (''string'', v)]) strs))"
  have cmd: "fold scanChar (commandLines label path exe command) (False, [newline], ''array'', pre) =
     (False, [newline], ''/string'', pre @ (''array'', indent 2) # ?cmd)"
    by (simp add: commandLines_def unlines_simps tabs_def indent_def numeral_2_eq_2 newline_def scan_plain [OF script(1)] scan_plain [OF command] strs_def)
  let ?args = "concat (map (\<lambda>a. [(''/string'', indent 2), (''string'', xmlEscape a)]) args)"
  let ?head = "pre @ (''array'', indent 2) # ?cmd @ ?args @ [(''/string'', indent 1)]"
  have close: "fold scanChar (tabs 1 ''</array>'') (False, [newline], ''/string'', qs) = (False, [], ''/array'', qs @ [(''/string'', indent 1)])" for qs
    by (simp add: tabs_def indent_def)
  have "fold scanChar (launchdPlist label path command exe errFile args) (False, [], [], []) = fold scanChar R (False, [], ''/array'', ?head)"
    by (simp only: whole fold_append o_apply head(1) cmd scan_args close append_assoc append_Cons)
  then obtain x rest where pieces: "xmlPieces (launchdPlist label path command exe errFile args) = ?head @ (''/array'', x) # rest"
    using pieces_first [of R "[]" "''/array''" ?head] by (auto simp only: xmlPieces_def piecesFrom_def)
  have "takeWhile (\<lambda>p. fst p \<noteq> ''/array'') (dropWhile (\<lambda>p. fst p \<noteq> ''array'') (?head @ (''/array'', x) # rest)) =
      (''array'', indent 2) # ?cmd @ ?args @ [(''/string'', indent 1)]"
  proof -
    have "takeWhile (\<lambda>p. fst p \<noteq> ''/array'') (?args @ (''/string'', indent 1) # (''/array'', x) # rest) = ?args @ [(''/string'', indent 1)]"
      by (subst takeWhile_append2) (auto split: if_splits)
    then show ?thesis using head(2) by (simp add: dropWhile_append2 strs_def)
  qed
  moreover have "filter (\<lambda>p. fst p = ''string'') ((''array'', indent 2) # ?cmd @ ?args @ [(''/string'', indent 1)]) =
      map (Pair ''string'') (strs @ map xmlEscape args)"
  proof -
    have "filter (\<lambda>p. fst p = ''string'') ?args = map (Pair ''string'') (map xmlEscape args)" by (induction args) simp_all
    then show ?thesis by (simp add: strs_def)
  qed
  ultimately have "programArguments (launchdPlist label path command exe errFile args) = those (map xmlText (strs @ map xmlEscape args))"
    by (simp add: programArguments_def pieces comp_def)
  moreover have "those (map xmlText (map xmlEscape args)) = Some args"
    using clean those_map_Some [of args "\<lambda>a. xmlText (xmlEscape a)" "\<lambda>a. a"] by (simp add: list_all_iff xmlText_escape comp_def)
  moreover have "xmlText command = Some command" using label by (intro plain_text) auto
  ultimately show ?thesis
    using clean plain_text [OF script(2)] by (simp add: strs_def xmlText_escape)
qed

section \<open>The command line of a scheduled task\<close>

definition taskCommand :: "string \<Rightarrow> (string \<times> string list) option" where
  "taskCommand t = (case (map_of (xmlPieces t) ''Command'', map_of (xmlPieces t) ''Arguments'') of
      (Some c, Some a) \<Rightarrow> (case (xmlText c, xmlText a) of (Some c', Some a') \<Rightarrow> Some (c', commandLineToArgv a') | _ \<Rightarrow> None)
    | _ \<Rightarrow> None)"

text \<open>Reading from one line's end to another, past tags other than the two that are looked for.\<close>

definition settles :: "string \<Rightarrow> string \<Rightarrow> string \<Rightarrow> bool" where
  "settles g s g' \<longleftrightarrow> (case fold scanChar s (False, [newline], g, []) of (t, b, h, ps) \<Rightarrow>
     \<not> t \<and> b = [newline] \<and> h = g' \<and> list_all (\<lambda>p. fst p \<noteq> ''Command'' \<and> fst p \<noteq> ''Arguments'') ps)"

lemma settles_trans:
  assumes "settles g s g'" "settles g' s' h"
  shows "settles g (s @ s') h"
proof -
  obtain ps where ps: "fold scanChar s (False, [newline], g, []) = (False, [newline], g', ps)"
      "list_all (\<lambda>p. fst p \<noteq> ''Command'' \<and> fst p \<noteq> ''Arguments'') ps"
    using assms(1) by (auto simp: settles_def split: prod.splits)
  show ?thesis
    using assms(2) ps(2) scan_frame [of s' False "[newline]" g' ps] by (auto simp: settles_def ps(1) split: prod.splits)
qed

lemma settles_if: "(P \<Longrightarrow> settles g s h) \<Longrightarrow> (\<not> P \<Longrightarrow> settles g s' h) \<Longrightarrow> settles g (if P then s else s') h"
  by simp

lemma scan_task:
  obtains pre where "fold scanChar (unlines (taskHead user restart)) (False, [], [], []) = (False, [newline], ''Exec'', pre)"
    and "\<forall>p \<in> set pre. fst p \<noteq> ''Command'' \<and> fst p \<noteq> ''Arguments''"
proof -
  let ?user = "''      <UserId>'' @ xmlEscape user @ ''</UserId>'' @ [newline]"
  have user: "settles g ?user ''/UserId''" if "g = ''/Enabled'' \<or> g = ''Principal id=\"Author\"''" for g
    using that by (auto simp: settles_def newline_def)
  let ?a = "unlines (take 8 (taskHead [] False))" and ?b = "unlines (take 4 (drop 8 (taskHead [] False)))"
    and ?c = "unlines (take 12 (drop 12 (taskHead [] False)))" and ?d = "unlines (take 4 (drop 24 (taskHead [] True)))"
    and ?e = "unlines (drop 24 (taskHead [] False))"
  have parts: "unlines (taskHead user restart) = ?a @ (if user \<noteq> [] then ?user else []) @ ?b @ (if user \<noteq> [] then ?user else []) @ ?c @
      (if restart then ?d else []) @ ?e"
    by (simp add: taskHead_def unlines_simps)
  have stay: "settles g [] g" for g by (simp add: settles_def)
  have b: "settles ''/Enabled'' ?b ''Principal id=\"Author\"''" "settles ''/UserId'' ?b ''Principal id=\"Author\"''" by code_simp+
  have c: "settles ''Principal id=\"Author\"'' ?c ''/ExecutionTimeLimit''" "settles ''/UserId'' ?c ''/ExecutionTimeLimit''" by code_simp+
  have d: "settles ''/ExecutionTimeLimit'' ?d ''/RestartOnFailure''" by code_simp
  have e: "settles ''/ExecutionTimeLimit'' ?e ''Exec''" "settles ''/RestartOnFailure'' ?e ''Exec''" by code_simp+
  let ?u = "if user \<noteq> [] then ?user else []"
  have de: "settles ''/ExecutionTimeLimit'' ((if restart then ?d else []) @ ?e) ''Exec''"
    using settles_trans [OF d e(2)] e(1) by (cases restart) (simp_all only: if_True if_False append_Nil)
  have bcde: "settles ''/Enabled'' (?u @ ?b @ ?u @ ?c @ (if restart then ?d else []) @ ?e) ''Exec''"
  proof (cases "user = []")
    case True
    then show ?thesis using settles_trans [OF b(1) settles_trans [OF c(1) de]] by (simp only: simp_thms if_False append_Nil)
  next
    case False
    then show ?thesis
      using settles_trans [OF user [of "''/Enabled''", simplified] settles_trans [OF b(2) settles_trans
        [OF user [of "''Principal id=\"Author\"''", simplified] settles_trans [OF c(2) de]]]] by simp
  qed
  then obtain ps where rest: "fold scanChar ((if user \<noteq> [] then ?user else []) @ ?b @ (if user \<noteq> [] then ?user else []) @ ?c @
      (if restart then ?d else []) @ ?e) (False, [newline], ''/Enabled'', []) = (False, [newline], ''Exec'', ps)"
      "list_all (\<lambda>p. fst p \<noteq> ''Command'' \<and> fst p \<noteq> ''Arguments'') ps"
    unfolding settles_def by (auto split: prod.splits simp del: fold_append)
  have "case fold scanChar ?a (False, [], [], []) of (t, b, h, ps) \<Rightarrow>
     \<not> t \<and> b = [newline] \<and> h = ''/Enabled'' \<and> list_all (\<lambda>p. fst p \<noteq> ''Command'' \<and> fst p \<noteq> ''Arguments'') ps" by code_simp
  then obtain qs where a: "fold scanChar ?a (False, [], [], []) = (False, [newline], ''/Enabled'', qs)"
      "list_all (\<lambda>p. fst p \<noteq> ''Command'' \<and> fst p \<noteq> ''Arguments'') qs"
    by (auto split: prod.splits)
  have "fold scanChar (unlines (taskHead user restart)) (False, [], [], []) = (False, [newline], ''Exec'', qs @ ps)"
    unfolding parts fold_append [of _ ?a] o_apply a(1) by (subst scan_frame, subst rest(1)) simp
  then show ?thesis using that a(2) rest(2) by (auto simp: list_all_iff)
qed

definition taskLines :: "string \<Rightarrow> string \<Rightarrow> string" where
  "taskLines exe arguments = ''      <Command>'' @ xmlEscape exe @ ''</Command>'' @ newline # ''      <Arguments>'' @ xmlEscape arguments @ ''</Arguments>''"

lemma task_text: "\<exists>R. taskXml user exe arguments restart = unlines (taskHead user restart) @ taskLines exe arguments @ R"
  unfolding taskXml_def unlines_simps(3) taskLines_def by (simp add: unlines_simps)

lemma task_reads_back:
  assumes "xmlClean exe" "xmlClean arguments"
  shows "taskCommand (taskXml user exe arguments restart) = Some (exe, commandLineToArgv arguments)"
proof -
  obtain pre where head: "fold scanChar (unlines (taskHead user restart)) (False, [], [], []) = (False, [newline], ''Exec'', pre)"
      "\<forall>p \<in> set pre. fst p \<noteq> ''Command'' \<and> fst p \<noteq> ''Arguments''"
    using scan_task by metis
  obtain R where whole: "taskXml user exe arguments restart = unlines (taskHead user restart) @ taskLines exe arguments @ R"
    using task_text by metis
  let ?nl = "newline # ''      ''"
  define found where "found = [(''Exec'', ?nl), (''Command'', xmlEscape exe), (''/Command'', ?nl), (''Arguments'', xmlEscape arguments)]"
  have lines: "fold scanChar (taskLines exe arguments) (False, [newline], ''Exec'', pre) = (False, [], ''/Arguments'', pre @ found)"
    by (simp add: taskLines_def newline_def found_def)
  have "fold scanChar (taskXml user exe arguments restart) (False, [], [], []) = fold scanChar R (False, [], ''/Arguments'', pre @ found)"
    by (simp only: whole fold_append o_apply head(1) lines)
  then obtain x rest where "xmlPieces (taskXml user exe arguments restart) = pre @ found @ (''/Arguments'', x) # rest"
    using pieces_first [of R "[]" "''/Arguments''" "pre @ found"] by (auto simp only: xmlPieces_def piecesFrom_def append_assoc)
  moreover have "map_of pre ''Command'' = None" "map_of pre ''Arguments'' = None"
    using head(2) by (auto simp: map_of_eq_None_iff)
  ultimately show ?thesis
    using assms by (simp add: taskCommand_def map_add_def found_def xmlText_escape)
qed

lemma nextArg_scan:
  assumes "CHR 0x22 \<notin> set a" "q \<or> \<not> containsAny a [CHR '' '', CHR 0x09]"
  shows "\<exists>m b'. (\<forall>s. nextArg (a @ s) q n b = nextArg s q m b') \<and> b' @ slashes m = b @ slashes n @ a \<and> (a \<noteq> [] \<and> last a \<noteq> CHR 0x5C \<longrightarrow> m = 0)"
  using assms
proof (induction a arbitrary: n b)
  case (Cons c a)
  let ?n = "if c = CHR 0x5C then n + 1 else 0" and ?b = "if c = CHR 0x5C then b else b @ slashes n @ [c]"
  have step: "nextArg ((c # a) @ s) q n b = nextArg (a @ s) q ?n ?b" for s
    using Cons.prems by (auto simp: containsAny_def list_ex_iff)
  have same: "?b @ slashes ?n = b @ slashes n @ [c]" by (simp add: slashes_def replicate_append_same)
  show ?case
  proof (cases "a = []")
    case True
    then show ?thesis using step same by (intro exI [of _ ?n] exI [of _ ?b]) auto
  next
    case False
    have "CHR 0x22 \<notin> set a" "q \<or> \<not> containsAny a [CHR '' '', CHR 0x09]"
      using Cons.prems by (auto simp: containsAny_def list_ex_iff)
    from Cons.IH [OF this, of ?n ?b] obtain m b' where "\<forall>s. nextArg (a @ s) q ?n ?b = nextArg s q m b'"
        "b' @ slashes m = ?b @ slashes ?n @ a" "a \<noteq> [] \<and> last a \<noteq> CHR 0x5C \<longrightarrow> m = 0" by blast
    moreover from this(2) have "b' @ slashes m = b @ slashes n @ c # a" using same by (metis append.assoc append_Cons append_Nil)
    ultimately show ?thesis using False step by (intro exI [of _ m] exI [of _ b']) auto
  qed
qed auto

lemma joinWith_chars: "c \<in> set (joinWith sep ws) \<Longrightarrow> c \<in> set sep \<or> (\<exists>w \<in> set ws. c \<in> set w)"
  by (induction sep ws rule: joinWith.induct) auto

definition argSafe :: "string \<Rightarrow> bool" where
  "argSafe a \<longleftrightarrow> a \<noteq> [] \<and> CHR 0x22 \<notin> set a \<and> (containsAny a [CHR '' '', CHR 0x09] \<longrightarrow> last a \<noteq> CHR 0x5C)"

lemma nextArg_quoted:
  assumes "argSafe a" and q: "quoted [a] = [w]"
  shows "nextArg w False 0 [] = (a, [])" "nextArg (w @ CHR '' '' # r) False 0 [] = (a, r)" "w \<noteq> []" "hd w \<noteq> CHR '' ''" "hd w \<noteq> CHR 0x09"
proof -
  have "nextArg w False 0 [] = (a, []) \<and> nextArg (w @ CHR '' '' # r) False 0 [] = (a, r) \<and> w \<noteq> [] \<and> hd w \<noteq> CHR '' '' \<and> hd w \<noteq> CHR 0x09"
  proof (cases "containsAny a [CHR '' '', CHR 0x09]")
    case True
    then have w: "w = CHR 0x22 # a @ [CHR 0x22]" using q by (simp add: quoted_def)
    obtain b' where b: "\<forall>s. nextArg (a @ s) True 0 [] = nextArg s True 0 b'" "b' = a"
      using nextArg_scan [of a True 0 "[]"] assms(1) True by (auto simp: argSafe_def slashes_def)
    have "a = [] \<or> hd (a @ s) \<noteq> CHR 0x22" for s using assms(1) by (cases a) (auto simp: argSafe_def)
    then show ?thesis using b assms(1) by (auto simp: w slashes_def argSafe_def)
  next
    case False
    then have w: "w = a" using q by (simp add: quoted_def)
    obtain m b' where b: "\<forall>s. nextArg (a @ s) False 0 [] = nextArg s False m b'" "b' @ slashes m = a"
      using nextArg_scan [of a False 0 "[]"] assms(1) False by (auto simp: argSafe_def slashes_def)
    have "hd a \<noteq> CHR '' ''" "hd a \<noteq> CHR 0x09" using False assms(1) by (cases a; auto simp: containsAny_def argSafe_def)+
    then show ?thesis using b(1) [rule_format, of "[]"] b assms(1) by (auto simp: w argSafe_def)
  qed
  then show "nextArg w False 0 [] = (a, [])" "nextArg (w @ CHR '' '' # r) False 0 [] = (a, r)" "w \<noteq> []" "hd w \<noteq> CHR '' ''" "hd w \<noteq> CHR 0x09" by auto
qed

lemma argv_quoted: "list_all argSafe args \<Longrightarrow> commandLineToArgv (joinWith '' '' (quoted args)) = args"
proof (induction args)
  case (Cons a args)
  obtain w where w: "quoted [a] = [w]" by (simp add: quoted_def)
  have first: "commandLineToArgv (w @ s) = (case nextArg (w @ s) False 0 [] of (x, rest) \<Rightarrow> x # commandLineToArgv rest)" for s
    using nextArg_quoted(3-5) [OF _ w] Cons.prems by (cases w) (auto simp del: nextArg.simps)
  have "quoted (a # args) = w # quoted args" using w by (simp add: quoted_def)
  moreover have "quoted args = [] \<longleftrightarrow> args = []" by (simp add: quoted_def)
  ultimately show ?case
    using Cons nextArg_quoted(1,2) [OF _ w] first [of "[]"] first [of "CHR '' '' # joinWith '' '' (quoted args)"]
    by (cases "quoted args") (auto simp del: nextArg.simps)
qed (simp add: quoted_def)

text \<open>
  The job a Mac is given runs the agent and nothing else.  launchd reads from the property list the shell line of
  the template, and after it the path of the job, the binary, the command and the settings, each exactly as it was
  written and in one argument, whatever markup characters they hold; and the agent takes all of them for settings.
\<close>

theorem launchd_job_starts_the_agent:
  assumes job: "f \<in> set (sp_files (darwinPlan joinPath inp))" "pf_body f = LaunchdJob label path command exe errFile args"
    and clean: "list_all xmlClean (path # exe # args)" and env: "list_all ours (pi_env inp)"
  shows "programArguments (renderManifest (pf_body f)) =
      Some ([''/bin/sh'', ''-c'', launchScript label, pf_path f, pi_exe inp, command] @ args) \<and>
    applyEnvArgs args = (withLogFile joinPath (pi_env inp) (pi_dir inp) command, [])"
proof -
  have data: "path = pf_path f" "exe = pi_exe inp" "args = envArgs (withLogFile joinPath (pi_env inp) (pi_dir inp) command)"
    "(label, command) \<in> {(serviceLabel, ''run''), (menubarLabel, ''menubar'')}"
    using job by (auto simp: darwinPlan_def Let_def)
  have "\<forall>c \<in> set (label @ command). c \<noteq> CHR ''<'' \<and> c \<noteq> CHR ''>'' \<and> c \<noteq> CHR ''&''"
    using data(4) by (auto simp: serviceLabel_def menubarLabel_def)
  from launchd_arguments [OF this clean] show ?thesis
    using job(2) data(1-3) applyEnvArgs_envArgs [OF withLogFile_ours [OF env]] by simp
qed

text \<open>
  C24.  An installed Mac agent starts with exactly the configuration it was installed from.  From the text of the job's property
  list launchd reads the binary, \<^verbatim>\<open>run\<close> and the settings; in a process that has none of the agent's own variables these
  arguments put every setting back, whatever markup characters it holds, none is taken for an argument of the command, and
  all that changes is that a log file is chosen where none was.
\<close>

theorem installed_mac_agent_keeps_settings:
  assumes plan: "currentPlan joinPath ''darwin'' (os_Getenv environ) environ (Some exe) tmp tempRel home dir = Some p"
    and job: "pf_body (hd (sp_files p)) = LaunchdJob label path command bin errFile args" and clean: "list_all xmlClean (path # bin # args)"
    and environ: "distinct (map fst (environPairs environ))"
    and base: "\<And>k. base k = (if hasPrefix k envPrefix then [] else os_Getenv environ k)"
    and cfg: "agent_loadConfig ''darwin'' (os_Getenv environ) joinPath userConfigDir parseLevel = Inr cfg"
  shows "\<exists>argv. programArguments (renderManifest (pf_body (hd (sp_files p)))) =
      Some ([''/bin/sh'', ''-c'', launchScript serviceLabel, pf_path (hd (sp_files p)), exe, ''run''] @ argv) \<and> snd (applyEnvArgs argv) = [] \<and>
    agent_loadConfig ''darwin'' (fold os_Setenv (fst (applyEnvArgs argv)) base) joinPath userConfigDir parseLevel =
      Inr (if hasKey (serviceEnv environ) ''RFM_AGENT_LOG_FILE'' then cfg else cfg\<lparr>ac_logFile := joinPath [dir, ''agent.log'']\<rparr>)"
proof -
  have data: "label = serviceLabel" "path = pf_path (hd (sp_files p))" "bin = exe" "command = ''run''"
    using plan job by (auto simp: currentPlan_def servicePlanFor_def darwinPlan_def Let_def split: option.splits if_splits)
  have "\<forall>c \<in> set (label @ command). c \<noteq> CHR ''<'' \<and> c \<noteq> CHR ''>'' \<and> c \<noteq> CHR ''&''"
    unfolding data by (simp add: serviceLabel_def)
  from launchd_arguments [OF this clean] installed_service_keeps_settings [OF plan job environ base cfg]
  show ?thesis unfolding job renderManifest.simps data(1) data(4) unfolding data(2,3) [symmetric] by blast
qed

text \<open>
  C25.  The task a Windows PC is given runs the agent with its settings.  From the task's text the scheduler takes the
  binary, and the process it starts takes its command line apart into the command and the settings as they were written,
  when no setting holds a quote and none that holds a space ends in a backslash.
\<close>

theorem scheduled_task_starts_the_agent:
  assumes task: "f \<in> set (sp_files (windowsPlan joinPath inp))" "pf_body f = ScheduledTask user exe arguments restart"
    and clean: "xmlClean exe" "xmlClean arguments" and env: "list_all ours (pi_env inp)"
    and safe: "\<And>command. list_all argSafe (envArgs (withLogFile joinPath (pi_env inp) (pi_dir inp) command))"
  shows "\<exists>command args. command \<in> {''run'', ''menubar''} \<and> taskCommand (renderManifest (pf_body f)) = Some (pi_exe inp, command # args) \<and>
    applyEnvArgs args = (withLogFile joinPath (pi_env inp) (pi_dir inp) command, [])"
proof -
  obtain command where command: "command \<in> {''run'', ''menubar''}" "exe = pi_exe inp"
      "arguments = joinWith '' '' (command # quoted (envArgs (withLogFile joinPath (pi_env inp) (pi_dir inp) command)))"
  proof -
    have "pf_body f \<in> {ScheduledTask (pi_user inp) (pi_exe inp) (joinWith '' '' (command #
        quoted (envArgs (withLogFile joinPath (pi_env inp) (pi_dir inp) command)))) (command = ''run'') | command. command \<in> {''run'', ''menubar''}}"
      using task(1) by (auto simp: windowsPlan_def Let_def simp del: joinWith.simps)
    then show thesis using that task(2) by (auto simp del: joinWith.simps)
  qed
  let ?args = "envArgs (withLogFile joinPath (pi_env inp) (pi_dir inp) command)"
  have "quoted (command # ?args) = command # quoted ?args" "argSafe command"
    using command(1) by (auto simp: quoted_def containsAny_def argSafe_def)
  then have "commandLineToArgv arguments = command # ?args"
    using argv_quoted [of "command # ?args"] safe command(3) by simp
  then show ?thesis
    using command(1,2) task(2) task_reads_back [OF clean] applyEnvArgs_envArgs [OF withLogFile_ours [OF env]] by auto
qed

text \<open>
  A directory that ends in a backslash swallows the settings after it.  When a setting holds a space and ends in a
  single backslash, the quote that should close it becomes part of it, and so does everything that follows.
\<close>

theorem trailing_backslash_swallows_settings:
  assumes setting: "containsAny v [CHR '' '', CHR 0x09]" "CHR 0x22 \<notin> set v" "last v \<noteq> CHR 0x5C"
    and others: "others \<noteq> []" "list_all argSafe others" "\<not> list_ex (\<lambda>a. containsAny a [CHR '' '', CHR 0x09]) others"
    and command: "argSafe command" "\<not> containsAny command [CHR '' '', CHR 0x09]"
  shows "commandLineToArgv (joinWith '' '' (command # quoted ((v @ [CHR 0x5C]) # others))) =
    [command, v @ [CHR 0x22] @ '' '' @ joinWith '' '' others]"
proof -
  let ?rest = "'' '' @ joinWith '' '' others" and ?s = "v @ [CHR 0x5C, CHR 0x22] @ '' '' @ joinWith '' '' others"
  have "v \<noteq> []" using setting(1) by (auto simp: containsAny_def)
  have plain: "quoted others = others" using others(3) by (auto simp: quoted_def list_ex_iff map_idI)
  have "containsAny (v @ [CHR 0x5C]) [CHR '' '', CHR 0x09]" using setting(1) by (simp add: containsAny_def)
  then have line: "joinWith '' '' (command # quoted ((v @ [CHR 0x5C]) # others)) = command @ CHR '' '' # CHR 0x22 # ?s"
    using plain others(1) by (cases others) (simp_all add: quoted_def)
  have "CHR 0x22 \<notin> set (joinWith '' '' others)"
    using joinWith_chars [of "CHR 0x22" "'' ''" others] others(2) by (auto simp: argSafe_def list_all_iff)
  then obtain m b where rest: "\<forall>s. nextArg (?rest @ s) True 0 (v @ [CHR 0x22]) = nextArg s True m b" "b @ slashes m = (v @ [CHR 0x22]) @ ?rest"
    using nextArg_scan [of ?rest True 0 "v @ [CHR 0x22]"] by (auto simp: slashes_def)
  obtain b' where "\<forall>s. nextArg (v @ s) True 0 [] = nextArg s True 0 b'" "b' = v"
    using nextArg_scan [of v True 0 "[]"] setting \<open>v \<noteq> []\<close> by (auto simp: slashes_def)
  then have "nextArg ?s True 0 [] = nextArg (?rest @ []) True 0 (v @ [CHR 0x22])" by (simp add: slashes_def)
  also have "\<dots> = nextArg [] True m b" by (rule rest(1) [rule_format])
  also have "\<dots> = (v @ [CHR 0x22] @ ?rest, [])" using rest(2) by simp
  finally have second: "nextArg ?s True 0 [] = (v @ [CHR 0x22] @ ?rest, [])" .
  have "hd v \<noteq> CHR 0x22" using setting(2) \<open>v \<noteq> []\<close> by (cases v) auto
  then have "nextArg (CHR 0x22 # ?s) False 0 [] = (v @ [CHR 0x22] @ ?rest, [])" using second by (simp add: slashes_def)
  then have tail: "commandLineToArgv (CHR 0x22 # ?s) = [v @ [CHR 0x22] @ ?rest]" by (simp del: nextArg.simps)
  have w: "quoted [command] = [command]" using command(2) by (simp add: quoted_def)
  have "commandLineToArgv (command @ CHR '' '' # CHR 0x22 # ?s) = command # commandLineToArgv (CHR 0x22 # ?s)"
    using nextArg_quoted(2-5) [OF command(1) w] by (cases command) (auto simp del: nextArg.simps)
  then show ?thesis unfolding line tail by simp
qed

section \<open>The systemd unit\<close>

text \<open>
  How systemd splits a command line, as far as it is plain: words between blanks, or between double quotes; a line that
  holds an escape, a variable, a specifier or a stray quote is left out, as None.
\<close>

definition blank :: "char \<Rightarrow> bool" where "blank c \<longleftrightarrow> c = CHR '' '' \<or> c = CHR 0x09"

definition unitPlain :: "string \<Rightarrow> bool" where
  "unitPlain w \<longleftrightarrow> list_all (\<lambda>c. c \<notin> {CHR 0x5C, CHR 0x22, CHR 0x27, CHR ''%'', CHR ''$'', newline}) w"

lemma unitPlain_line: "unitPlain w \<Longrightarrow> newline \<notin> set w"
  by (auto simp: unitPlain_def list_all_iff)

function unitWords :: "string \<Rightarrow> string list option" where
  "unitWords [] = Some []"
| "unitWords (c # s) =
     (if blank c then unitWords s
      else if c = CHR 0x22 then (case cutAt (CHR 0x22) s of (w, rest, closed) \<Rightarrow>
        if closed \<and> unitPlain w \<and> (rest = [] \<or> blank (hd rest)) then map_option (\<lambda>ws. w # ws) (unitWords rest) else None)
      else if unitPlain (takeWhile (\<lambda>c. \<not> blank c) (c # s))
        then map_option (\<lambda>ws. takeWhile (\<lambda>c. \<not> blank c) (c # s) # ws) (unitWords (dropWhile (\<lambda>c. \<not> blank c) (c # s)))
      else None)"
  by pat_completeness auto

termination unitWords
proof (relation "measure length", goal_cases)
  case 3
  then show ?case by (auto simp: less_Suc_eq_le dest: cutAt_shorter [OF sym])
next
  case (4 c s)
  then show ?case using length_dropWhile_le [of "\<lambda>c. \<not> blank c" s] by (simp add: less_Suc_eq_le)
qed simp_all

definition execStart :: "string \<Rightarrow> string list option" where
  "execStart unit = (case find (\<lambda>l. prefix ''ExecStart='' l) (splitOn newline unit) of
      None \<Rightarrow> None | Some l \<Rightarrow> unitWords (drop (length ''ExecStart='') l))"

lemma unitWords_word:
  assumes "w \<noteq> []" "unitPlain w" "\<not> list_ex blank w" and True: "s = [] \<or> blank (hd s)"
  shows "unitWords (w @ s) = map_option (\<lambda>ws. w # ws) (unitWords s)"
proof -
  obtain c w' where w: "w = c # w'" using assms(1) by (cases w) auto
  have all: "\<forall>c \<in> set w. \<not> blank c" using assms(3) by (auto simp: list_ex_iff)
  then have "takeWhile (\<lambda>c. \<not> blank c) (w @ s) = w" "dropWhile (\<lambda>c. \<not> blank c) (w @ s) = s"
    using True by (cases s; simp add: takeWhile_append dropWhile_append)+
  moreover have "\<not> blank c" "c \<noteq> CHR 0x22" using all assms(2) by (simp_all add: w unitPlain_def)
  ultimately show ?thesis using True assms(2) unitWords.simps(2) [of c "w' @ s"] by (simp add: w)
qed

lemma unitWords_quoted:
  assumes "a \<noteq> []" "unitPlain a" "quoted [a] = [w]" "s = [] \<or> blank (hd s)"
  shows "unitWords (w @ s) = map_option (\<lambda>ws. a # ws) (unitWords s)"
proof (cases "containsAny a [CHR '' '', CHR 0x09]")
  case True
  then have w: "w @ s = CHR 0x22 # a @ CHR 0x22 # s" using assms(3) by (simp add: quoted_def)
  have "CHR 0x22 \<notin> set a" using assms(2) by (auto simp: unitPlain_def list_all_iff)
  then have "cutAt (CHR 0x22) (a @ CHR 0x22 # s) = (a, s, True)" by (rule cutAt_append)
  then show ?thesis using assms(2,4) unitWords.simps(2) [of "CHR 0x22" "a @ CHR 0x22 # s"] by (simp add: w blank_def)
next
  case False
  then have "w = a" "\<not> list_ex blank a" using assms(3) by (auto simp: quoted_def containsAny_def list_ex_iff blank_def)
  then show ?thesis using unitWords_word [of a s] assms(1,2,4) by simp
qed

lemma unitWords_args:
  "list_all (\<lambda>a. a \<noteq> [] \<and> unitPlain a) args \<Longrightarrow> unitWords (concat (map (\<lambda>a. '' '' @ a) (quoted args))) = Some args"
proof (induction args)
  case (Cons a args)
  obtain w where w: "quoted [a] = [w]" by (simp add: quoted_def)
  let ?rest = "concat (map (\<lambda>a. '' '' @ a) (quoted args))"
  have "?rest = [] \<or> blank (hd ?rest)" by (cases "quoted args") (simp_all add: blank_def)
  then have "unitWords (w @ ?rest) = Some (a # args)"
    using unitWords_quoted [OF _ _ w, of ?rest] Cons by simp
  moreover have "quoted (a # args) = w # quoted args" using w by (simp add: quoted_def)
  ultimately show ?case by (simp add: blank_def)
qed (simp add: quoted_def)

lemma splitOn_unlines: "\<forall>l \<in> set ls. newline \<notin> set l \<Longrightarrow> splitOn newline (unlines ls) = ls @ [[]]"
  by (induction ls) (simp_all add: unlines_simps splitOn_append)

text \<open>
  The unit a Linux PC is given starts the agent with its settings.  systemd reads from it the binary, \<^verbatim>\<open>run\<close> and each
  setting as it was written, provided none of them holds a quote, a backslash, a percent or a dollar sign, and the path of
  the binary holds no blank: unlike the settings, it is not quoted.
\<close>

theorem unit_starts_the_agent:
  assumes unit: "f \<in> set (sp_files (linuxPlan joinPath inp))" "pf_body f = SystemdUnit exe args"
    and exe: "exe \<noteq> []" "unitPlain exe" "\<not> list_ex blank exe"
    and plain: "list_all unitPlain (map snd (pi_env inp))" and env: "list_all ours (pi_env inp)" "list_all unitPlain (map fst (pi_env inp))"
  shows "\<exists>words. execStart (renderManifest (pf_body f)) = Some (pi_exe inp # ''run'' # words) \<and> applyEnvArgs words = (pi_env inp, [])"
proof -
  let ?words = "envArgs (pi_env inp)"
  have data: "exe = pi_exe inp" "args = quoted ?words" using unit by (auto simp: linuxPlan_def Let_def)
  have "a \<noteq> [] \<and> unitPlain a" if a: "a \<in> set ?words" for a
  proof -
    obtain kv where "kv \<in> set (pi_env inp)" "a = fst kv @ ''='' @ snd kv" using a by (fastforce simp: envArgs_def)
    moreover from this(1) have "unitPlain (fst kv)" "unitPlain (snd kv)" using plain env(2) by (simp_all add: list_all_iff)
    ultimately show ?thesis by (simp add: unitPlain_def newline_def)
  qed
  then have words: "list_all (\<lambda>a. a \<noteq> [] \<and> unitPlain a) ?words" by (simp add: list_all_iff)
  then have "unitWords (concat (map (\<lambda>a. '' '' @ a) (quoted (''run'' # ?words)))) = Some (''run'' # ?words)"
    by (intro unitWords_args) (simp add: unitPlain_def newline_def)
  then have "unitWords ('' run'' @ concat (map (\<lambda>a. '' '' @ a) args)) = Some (''run'' # ?words)"
    by (simp add: data(2) quoted_def containsAny_def)
  then have start: "unitWords (exe @ '' run'' @ concat (map (\<lambda>a. '' '' @ a) args)) = Some (exe # ''run'' # ?words)"
    using unitWords_word [OF exe, of "'' run'' @ concat (map (\<lambda>a. '' '' @ a) args)"] by (simp add: blank_def)
  let ?l = "''ExecStart='' @ exe @ '' run'' @ concat (map (\<lambda>a. '' '' @ a) args)"
  have "newline \<notin> set w" if "w \<in> set ?words" for w
    using words that unitPlain_line [of w] by (simp add: list_all_iff)
  then have "newline \<notin> set a" if "a \<in> set args" for a
    using that by (auto simp: data(2) quoted_def newline_def split: if_splits)
  then have "newline \<notin> set ?l"
    using unitPlain_line [OF exe(2)] by (auto simp: newline_def)
  then have "splitOn newline (linuxUnit exe args) =
      [''[Unit]'', ''Description=anywhere-file agent'', ''After=network-online.target'', [], ''[Service]'', ?l, ''Restart=always'', ''RestartSec=5'', [],
       ''[Install]'', ''WantedBy=default.target''] @ [[]]"
    unfolding linuxUnit_def by (intro splitOn_unlines) (simp add: newline_def)
  then have "execStart (linuxUnit exe args) = unitWords (exe @ '' run'' @ concat (map (\<lambda>a. '' '' @ a) args))"
    by (simp add: execStart_def)
  then show ?thesis using start unit(2) data(1) applyEnvArgs_envArgs [OF env(1)] by simp
qed

section \<open>Witnesses\<close>

definition demo_host :: planInput where
  "demo_host = \<lparr>pi_goos = ''windows'', pi_exe = ''/p/agent'', pi_dir = ''/a b'', pi_home = ''/h'', pi_user = ''HOME'' @ [CHR 0x5C] @ ''ann'',
     pi_env = [(''RFM_AGENT_NAME'', ''Tom & Ann'')]\<rparr>"

lemma demo_ours: "list_all ours (pi_env demo_host)"
  by (simp add: demo_host_def ours_def hasPrefix_def envPrefix_def)

lemma demo_args: "withLogFile demo_join (pi_env demo_host) (pi_dir demo_host) command =
    [(''RFM_AGENT_LOG_FILE'', if command = ''menubar'' then ''/a b/menubar.log'' else ''/a b/agent.log''), (''RFM_AGENT_NAME'', ''Tom & Ann'')]"
  by (simp add: withLogFile_def hasKey_def demo_host_def demo_join_def sortPairs_def byte_def)

theorem launchd_job_starts_the_agent_witness:
  "programArguments (renderManifest (pf_body (hd (sp_files (darwinPlan demo_join demo_host))))) =
     Some [''/bin/sh'', ''-c'', launchScript serviceLabel, ''/h/Library/LaunchAgents/io.anywhere-file.agent.plist'', ''/p/agent'', ''run'',
       ''RFM_AGENT_LOG_FILE=/a b/agent.log'', ''RFM_AGENT_NAME=Tom & Ann'']"
proof -
  let ?f = "hd (sp_files (darwinPlan demo_join demo_host))"
  let ?path = "''/h/Library/LaunchAgents/io.anywhere-file.agent.plist''" and ?args = "[''RFM_AGENT_LOG_FILE=/a b/agent.log'', ''RFM_AGENT_NAME=Tom & Ann'']"
  have f: "?f \<in> set (sp_files (darwinPlan demo_join demo_host))" "pf_path ?f = ?path" "pi_exe demo_host = ''/p/agent''"
    "pf_body ?f = LaunchdJob serviceLabel ?path ''run'' ''/p/agent'' ''/a b/stderr.log'' ?args"
    using demo_args [of "''run''"] by (simp_all add: darwinPlan_def Let_def demo_host_def demo_join_def serviceLabel_def envArgs_def)
  have "list_all xmlClean (?path # ''/p/agent'' # ?args)" by code_simp
  from launchd_job_starts_the_agent [OF f(1,4) this demo_ours] show ?thesis unfolding f(2,3) by simp
qed

theorem scheduled_task_starts_the_agent_witness:
  "\<exists>command args. command \<in> {''run'', ''menubar''} \<and>
     taskCommand (renderManifest (pf_body (hd (sp_files (windowsPlan demo_join demo_host))))) = Some (''/p/agent'', command # args) \<and>
     applyEnvArgs args = (withLogFile demo_join (pi_env demo_host) (pi_dir demo_host) command, [])"
proof -
  let ?f = "hd (sp_files (windowsPlan demo_join demo_host))"
  let ?line = "''run \"RFM_AGENT_LOG_FILE=/a b/agent.log\" \"RFM_AGENT_NAME=Tom & Ann\"''"
  have f: "?f \<in> set (sp_files (windowsPlan demo_join demo_host))" "pi_exe demo_host = ''/p/agent''"
    "pf_body ?f = ScheduledTask (pi_user demo_host) ''/p/agent'' ?line True"
    using demo_args [of "''run''"] by (simp_all add: windowsPlan_def Let_def demo_host_def demo_join_def envArgs_def quoted_def containsAny_def)
  have "xmlClean ''/p/agent''" "xmlClean ?line" by code_simp+
  moreover have "list_all argSafe (envArgs (withLogFile demo_join (pi_env demo_host) (pi_dir demo_host) command))" for command
    by (simp add: demo_args envArgs_def argSafe_def containsAny_def)
  ultimately show ?thesis
    using scheduled_task_starts_the_agent [OF f(1,3) _ _ demo_ours] unfolding f(2) by blast
qed

theorem trailing_backslash_swallows_settings_witness:
  "commandLineToArgv (joinWith '' '' (''run'' # quoted [''RFM_AGENT_DIR=/a b'' @ [CHR 0x5C], ''RFM_AGENT_ADDR=:9''])) =
     [''run'', ''RFM_AGENT_DIR=/a b\" RFM_AGENT_ADDR=:9'']"
  using trailing_backslash_swallows_settings [of "''RFM_AGENT_DIR=/a b''" "[''RFM_AGENT_ADDR=:9'']" "''run''"]
  by (simp add: containsAny_def argSafe_def)

theorem unit_starts_the_agent_witness:
  "\<exists>words. execStart (renderManifest (pf_body (hd (sp_files (linuxPlan demo_join demo_host))))) = Some (''/p/agent'' # ''run'' # words) \<and>
     applyEnvArgs words = ([(''RFM_AGENT_NAME'', ''Tom & Ann'')], [])"
proof -
  let ?f = "hd (sp_files (linuxPlan demo_join demo_host))"
  have f: "?f \<in> set (sp_files (linuxPlan demo_join demo_host))" "pi_exe demo_host = ''/p/agent''" "pi_env demo_host = [(''RFM_AGENT_NAME'', ''Tom & Ann'')]"
    "pf_body ?f = SystemdUnit ''/p/agent'' (quoted (envArgs (pi_env demo_host)))"
    by (simp_all add: linuxPlan_def Let_def demo_host_def)
  show ?thesis
    using unit_starts_the_agent [OF f(1,4) _ _ _ _ demo_ours] unfolding f(2,3)
    by (simp add: unitPlain_def newline_def blank_def)
qed

theorem installed_mac_agent_keeps_settings_witness:
  "\<exists>p argv. currentPlan demo_join ''darwin'' (os_Getenv demo_environ) demo_environ (Some ''/bin/agent'') [] None (Some ''/h'') ''/a b'' = Some p \<and>
     programArguments (renderManifest (pf_body (hd (sp_files p)))) =
       Some ([''/bin/sh'', ''-c'', launchScript serviceLabel, pf_path (hd (sp_files p)), ''/bin/agent'', ''run''] @ argv) \<and>
     agent_loadConfig ''darwin'' (fold os_Setenv (fst (applyEnvArgs argv)) (\<lambda>k. if hasPrefix k envPrefix then [] else os_Getenv demo_environ k))
       demo_join None (\<lambda>_. Some 0) =
     Inr \<lparr>ac_dir = ''/a b'', ac_addr = '':9000'', ac_settings = [], ac_keystore = ''auto'', ac_mdns = True, ac_tunnel = True,
       ac_logLevel = 0, ac_logFile = ''/a b/agent.log''\<rparr>"
proof -
  define cfg where "cfg = \<lparr>ac_dir = ''/a b'', ac_addr = '':9000'', ac_settings = [], ac_keystore = ''auto'',
    ac_mdns = True, ac_tunnel = True, ac_logLevel = 0, ac_logFile = []\<rparr>"
  have cfg: "agent_loadConfig ''darwin'' (os_Getenv demo_environ) demo_join None (\<lambda>_. Some 0) = Inr cfg"
    by (simp add: agent_loadConfig_def agentEnv_def os_Getenv_def demo_pairs cfg_def)
  have dist: "distinct (map fst (environPairs demo_environ))" by (simp add: demo_pairs)
  define p where "p = darwinPlan demo_join \<lparr>pi_goos = ''darwin'', pi_exe = ''/bin/agent'', pi_dir = ''/a b'', pi_home = ''/h'',
    pi_user = [], pi_env = serviceEnv demo_environ\<rparr>"
  have plan: "currentPlan demo_join ''darwin'' (os_Getenv demo_environ) demo_environ (Some ''/bin/agent'') [] None (Some ''/h'') ''/a b'' = Some p"
    by (simp add: currentPlan_def temporaryBuild_def servicePlanFor_def planUser_def p_def)
  let ?path = "''/h/Library/LaunchAgents/io.anywhere-file.agent.plist''"
    and ?args = "[''RFM_AGENT_ADDR=:9000'', ''RFM_AGENT_DIR=/a b'', ''RFM_AGENT_LOG_FILE=/a b/agent.log'', ''RFM_AGENT_SETTINGS_ADDR=off'']"
  have job: "pf_body (hd (sp_files p)) = LaunchdJob serviceLabel ?path ''run'' ''/bin/agent'' ''/a b/stderr.log'' ?args"
    by (simp add: p_def darwinPlan_def Let_def demo_join_def serviceLabel_def demo_serviceEnv withLogFile_def hasKey_def sortPairs_def byte_def envArgs_def)
  have clean: "list_all xmlClean (?path # ''/bin/agent'' # ?args)" by code_simp
  have key: "\<not> hasKey (serviceEnv demo_environ) ''RFM_AGENT_LOG_FILE''" "demo_join [''/a b'', ''agent.log''] = ''/a b/agent.log''"
    by (simp_all add: demo_serviceEnv hasKey_def demo_join_def)
  show ?thesis
    using installed_mac_agent_keeps_settings [OF plan job clean dist refl cfg] plan key by (auto simp: cfg_def)
qed

end
