(* ===== verification/AppLog.thy ===== *)
theory AppLog
  imports Supervisor
begin

text \<open>
  Running one application: \<^verbatim>\<open>runApp\<close> and \<^verbatim>\<open>appLog\<close> of \<^verbatim>\<open>device/agent/supervisor.go\<close>.  How the child is started and stopped, how
  long a change of the registry waits for the children it stops, and what of a child's output reaches the agent's log.  A
  folder's name and path stay out of it (\<^verbatim>\<open>docs/adr/0007\<close>).
\<close>

section \<open>Starting and stopping a child\<close>

datatype stopSignal = Interrupt | KillAtOnce

record launch =
  ln_program :: string
  ln_args :: "string list"
  ln_env :: "(string \<times> string) list"
  ln_hide :: "(string \<times> string) list"
  ln_window :: bool
  ln_stop :: stopSignal
  ln_grace :: int

definition appStopGrace :: int where "appStopGrace = 5 * second"

definition runApp :: "string \<Rightarrow> (string \<Rightarrow> string option) \<Rightarrow> osenv \<Rightarrow> (string \<Rightarrow> string) option \<Rightarrow> app \<Rightarrow> launch" where
  "runApp goos lookPath os beside a =
     \<lparr>ln_program = program lookPath os beside (hd (app_command a)),
      ln_args = tl (app_command a),
      ln_env = [(''DUFS_LOG_FORMAT'', [])],
      ln_hide = hidden os a,
      ln_window = (goos \<noteq> ''windows''),
      ln_stop = (if goos = ''windows'' then KillAtOnce else Interrupt),
      ln_grace = appStopGrace\<rparr>"

text \<open>
  When a child that is told to stop at \<open>t\<close> is gone: \<open>takes\<close> is how long it goes on after the signal, nothing when it
  ignores it.  After the grace \<^verbatim>\<open>exec\<close> kills it and closes its pipes.
\<close>

definition stopTime :: "launch \<Rightarrow> int \<Rightarrow> int option \<Rightarrow> int" where
  "stopTime l t takes = t + (case takes of None \<Rightarrow> ln_grace l | Some d \<Rightarrow> min d (ln_grace l))"

text \<open>The two loops of \<^verbatim>\<open>set\<close> that stop children: all are told, and then each is waited for in turn.\<close>

fun waitEach :: "int \<Rightarrow> int list \<Rightarrow> int" where
  "waitEach now [] = now"
| "waitEach now (end # ends) = waitEach (max now end) ends"

definition stopAll :: "int \<Rightarrow> (launch \<times> int option) list \<Rightarrow> int" where
  "stopAll t children = waitEach t (map (\<lambda>(l, takes). stopTime l t takes) children)"

lemma waitEach_bounds: "now \<le> m \<Longrightarrow> (\<And>e. e \<in> set ends \<Longrightarrow> e \<le> m) \<Longrightarrow> now \<le> waitEach now ends \<and> waitEach now ends \<le> m"
proof (induction ends arbitrary: now)
  case (Cons e ends)
  have "max now e \<le> m" using Cons.prems by simp
  from Cons.IH [OF this] Cons.prems(2) show ?case by simp
qed simp

text \<open>
  A change of the registry is never held up for long.  However many applications it stops, and whether or not they heed the
  signal, all of them are gone within one grace period: they are waited for together, not one after another.
\<close>

theorem stopping_is_bounded:
  assumes "\<And>l takes. (l, takes) \<in> set children \<Longrightarrow> ln_grace l = appStopGrace"
  shows "t \<le> stopAll t children \<and> stopAll t children \<le> t + 5 * second"
  unfolding stopAll_def
proof (rule waitEach_bounds)
  fix e assume "e \<in> set (map (\<lambda>(l, takes). stopTime l t takes) children)"
  then obtain l takes where e: "(l, takes) \<in> set children" "e = stopTime l t takes" by auto
  then show "e \<le> t + 5 * second" using assms by (auto simp: stopTime_def appStopGrace_def split: option.splits)
qed simp

section \<open>What reaches the log\<close>

text \<open>A stream of a child, written in pieces: the log lines it leaves.\<close>

definition loggedLines :: "(string \<times> string) list \<Rightarrow> string list \<Rightarrow> string list" where
  "loggedLines hide ps = List.map_filter (appLog_line hide) (fst (writeAll ps []))"

text \<open>A mark is what stands in place of a name: it is bracketed by signs no hidden name has.\<close>

lemma sublist_barrier: "x \<notin> set r \<Longrightarrow> sublist r (ys @ x # zs) \<longleftrightarrow> sublist r ys \<or> sublist r zs"
proof
  assume x: "x \<notin> set r" and "sublist r (ys @ x # zs)"
  then consider "sublist r ys" | "sublist r (x # zs)" | r1 r2 where "r = r1 @ r2" "suffix r1 ys" "prefix r2 (x # zs)"
    unfolding sublist_append by blast
  then show "sublist r ys \<or> sublist r zs"
  proof cases
    case 2
    then show ?thesis using x by (auto simp: sublist_Cons_right prefix_Cons)
  next
    case 3
    then have "r2 = []" using x by (auto simp: prefix_Cons)
    then show ?thesis using 3 by (simp add: suffix_imp_sublist)
  qed simp
next
  assume "sublist r ys \<or> sublist r zs"
  then show "sublist r (ys @ x # zs)" by (metis Cons_eq_appendI append_Nil sublist_append)
qed

text \<open>A name that can be hidden: a path or a share's part of one, without the brackets of the marks.\<close>

definition hideable :: "string \<Rightarrow> bool" where
  "hideable r \<longleftrightarrow> CHR ''<'' \<notin> set r \<and> CHR ''>'' \<notin> set r \<and> (CHR ''/'' \<in> set r \<or> CHR 0x5C \<in> set r)"

definition folderMarks :: "string \<Rightarrow> string \<Rightarrow> (string \<times> string) list" where
  "folderMarks root name = [(root, ''<shared folder>''), (''/'' @ name, ''/<share>'')]"

lemma hidden_marks: "sharedPath os a \<noteq> [] \<Longrightarrow> hidden os a = folderMarks (sharedPath os a) (app_name a)"
  by (simp add: hidden_def folderMarks_def)

text \<open>Beyond its marks the replaced text is the text: a word without brackets that it starts with, the text starts with.\<close>

lemma prefix_kept:
  "CHR ''<'' \<notin> set w \<Longrightarrow> prefix w (replaceAll (folderMarks root name) s) \<Longrightarrow> prefix w s"
proof (induction "folderMarks root name" s arbitrary: w rule: replaceAll.induct)
  case (2 c s)
  show ?case
  proof (cases "find (\<lambda>p. fst p \<noteq> [] \<and> prefix (fst p) (c # s)) (folderMarks root name)")
    case None
    then show ?thesis using 2 by (cases w) auto
  next
    case (Some p)
    then have "p = (root, ''<shared folder>'') \<or> p = (''/'' @ name, ''/<share>'') \<and> prefix (''/'' @ name) (c # s)"
      by (auto simp: folderMarks_def split: if_splits)
    then show ?thesis
    proof
      assume "p = (root, ''<shared folder>'')"
      then show ?thesis using Some 2(3,4) by (cases w) auto
    next
      assume "p = (''/'' @ name, ''/<share>'') \<and> prefix (''/'' @ name) (c # s)"
      then show ?thesis using Some 2(3,4) by (cases w) (auto simp: prefix_Cons)
    qed
  qed
qed simp

lemma not_in_mark: "hideable r \<Longrightarrow> \<not> sublist r ''<shared folder'' \<and> \<not> sublist r ''share''"
proof -
  assume r: "hideable r"
  have "set r \<subseteq> set ys" if "sublist r ys" for ys using that by (auto simp: sublist_def)
  then show ?thesis using r unfolding hideable_def by fastforce
qed

lemma marks_hide:
  assumes r: "hideable r" and hid: "r = root \<or> r = ''/'' @ name" and name: "name \<noteq> []"
  shows "\<not> sublist r (replaceAll (folderMarks root name) s)"
proof (induction "folderMarks root name" s rule: replaceAll.induct)
  case 1
  then show ?case using r by (auto simp: hideable_def)
next
  case (2 c s)
  have nonempty: "r \<noteq> []" using r by (auto simp: hideable_def)
  have open': "CHR ''<'' \<notin> set r" and close': "CHR ''>'' \<notin> set r" using r by (simp_all add: hideable_def)
  show ?case
  proof (cases "find (\<lambda>p. fst p \<noteq> [] \<and> prefix (fst p) (c # s)) (folderMarks root name)")
    case None
    have "\<not> prefix r (c # replaceAll (folderMarks root name) s)"
    proof
      assume "prefix r (c # replaceAll (folderMarks root name) s)"
      then obtain w where w: "r = c # w" "prefix w (replaceAll (folderMarks root name) s)" using nonempty by (cases r) auto
      have "CHR ''<'' \<notin> set w" using open' w(1) by simp
      from prefix_kept [OF this w(2)] have "prefix w s" .
      then have "prefix r (c # s)" by (simp add: w(1))
      moreover have "\<exists>mark. (r, mark) \<in> set (folderMarks root name)" using hid by (auto simp: folderMarks_def)
      ultimately show False using None nonempty unfolding find_None_iff by fastforce
    qed
    then show ?thesis using None 2(1) by (simp add: sublist_Cons_right)
  next
    case (Some p)
    then consider (path) "p = (root, ''<shared folder>'')"
      | (share) "p = (''/'' @ name, ''/<share>'')" "prefix (''/'' @ name) (c # s)" "root = [] \<or> \<not> prefix root (c # s)"
      by (auto simp: folderMarks_def split: if_splits)
    then show ?thesis
    proof cases
      case path
      let ?rest = "replaceAll (folderMarks root name) (drop (length root) (c # s))"
      have shape: "replaceAll (folderMarks root name) (c # s) = ''<shared folder'' @ CHR ''>'' # ?rest" using Some path by simp
      have "\<not> sublist r ?rest" using 2(2) [OF Some] path by simp
      then show ?thesis unfolding shape using sublist_barrier [OF close', of "''<shared folder''" ?rest] not_in_mark [OF r] by blast
    next
      case share
      let ?rest = "replaceAll (folderMarks root name) (drop (length (''/'' @ name)) (c # s))"
      have shape: "replaceAll (folderMarks root name) (c # s) = ''/'' @ CHR ''<'' # ''share'' @ CHR ''>'' # ?rest" using Some share by simp
      have "\<not> sublist r ''/''"
      proof
        assume "sublist r ''/''"
        then have "r = ''/''" using nonempty by (auto simp: sublist_Cons_right prefix_Cons)
        then show False using hid share name by (auto simp: prefix_Cons)
      qed
      moreover have "\<not> sublist r ?rest" using 2(2) [OF Some] share by simp
      ultimately show ?thesis
        unfolding shape using sublist_barrier [OF open', of "''/''" "''share'' @ CHR ''>'' # ?rest"]
          sublist_barrier [OF close', of "''share''" ?rest] not_in_mark [OF r] by blast
    qed
  qed
qed

text \<open>
  C19.  No log line names a shared folder.  Whatever an application writes and however the pipe cuts it, no line the agent logs
  for it contains the folder's path, and none contains the share's name as a part of a path.
\<close>

theorem log_never_names_the_folder:
  assumes "hideable (sharedPath os a)" "appname_Valid (app_name a)"
    and "l \<in> set (loggedLines (ln_hide (runApp goos lookPath os beside a)) ps)"
  shows "\<not> sublist (sharedPath os a) l \<and> \<not> sublist (''/'' @ app_name a) l"
proof -
  have path: "sharedPath os a \<noteq> []" using assms(1) by (auto simp: hideable_def)
  have "\<not> name_char (CHR ''<'')" "\<not> name_char (CHR ''>'')" by code_simp+
  then have chars: "CHR ''<'' \<notin> set (app_name a) \<and> CHR ''>'' \<notin> set (app_name a)" and name: "app_name a \<noteq> []"
    using appname_Valid_chars [OF assms(2)] appname_Valid_nonempty [OF assms(2)] by blast+
  then have share: "hideable (''/'' @ app_name a)" by (simp add: hideable_def)
  obtain b where "l = replaceAll (folderMarks (sharedPath os a) (app_name a)) b"
    using assms(3) hidden_marks [OF path]
    by (auto simp: loggedLines_def runApp_def appLog_line_def List.map_filter_def Let_def split: if_splits)
  then show ?thesis using marks_hide [OF assms(1) _ name] marks_hide [OF share _ name] by simp
qed

section \<open>A line that is too long\<close>

lemma replaceAll_id: "(\<And>p. p \<in> set ps \<Longrightarrow> fst p \<noteq> [] \<Longrightarrow> \<not> sublist (fst p) s) \<Longrightarrow> replaceAll ps s = s"
proof (induction ps s rule: replaceAll.induct)
  case (2 ps c s)
  have "find (\<lambda>p. fst p \<noteq> [] \<and> prefix (fst p) (c # s)) ps = None"
    unfolding find_None_iff using 2(3) by (auto simp: sublist_Cons_right)
  moreover have "replaceAll ps s = s" using 2(1) [OF calculation] 2(3) by (simp add: sublist_Cons_right)
  ultimately show ?case by simp
qed simp

lemma takeLines_plain: "newline \<notin> set s \<Longrightarrow> takeLines acc s = ([], acc @ s)"
  using takeLines_acc [of s acc "[]"] by simp

text \<open>
  A line without its end in sight is logged as soon as it passes the cap, wherever that falls: then a path that lies across
  the cut is not recognised in either half, and the log holds both.
\<close>

theorem cut_line_shows_the_path:
  assumes "maxAppLogLine < length (pad @ r1)" "r2 \<noteq> []" "newline \<notin> set (pad @ r1 @ r2)"
    and "last (pad @ r1) \<noteq> CHR 0x0D" "last r2 \<noteq> CHR 0x0D"
    and "\<not> sublist (r1 @ r2) (pad @ r1)" "\<not> sublist (''/'' @ name) (pad @ r1)" "r1 \<noteq> []" "\<not> sublist (''/'' @ name) r2"
  shows "loggedLines (folderMarks (r1 @ r2) name) [pad @ r1, r2 @ [newline]] = [pad @ r1, r2]"
proof -
  have first: "appLog_Write [] (pad @ r1) = ([pad @ r1], [])"
    using assms(1,3) takeLines_plain [of "pad @ r1" "[]"] by (simp add: appLog_Write_def)
  have second: "appLog_Write [] (r2 @ [newline]) = ([r2], [])"
    using assms(3) takeLines_acc [of r2 "[]" "[newline]"] by (simp add: appLog_Write_def)
  have "\<not> sublist (r1 @ r2) r2"
  proof
    assume "sublist (r1 @ r2) r2"
    then have "length (r1 @ r2) \<le> length r2" by (rule sublist_length_le)
    then show False using assms(8) by simp
  qed
  then have same: "replaceAll (folderMarks (r1 @ r2) name) (pad @ r1) = pad @ r1" "replaceAll (folderMarks (r1 @ r2) name) r2 = r2"
    using assms(6,7,9) by (auto intro!: replaceAll_id simp: folderMarks_def)
  have trim: "trimRight (CHR 0x0D) xs = xs" if "last xs \<noteq> CHR 0x0D" for xs
    using that by (cases xs rule: rev_cases) (simp_all add: trimRight_def)
  show ?thesis
    using assms(1,2,8) unfolding loggedLines_def List.map_filter_def appLog_line_def
    by (simp add: first second trim [OF assms(4)] trim [OF assms(5)] same)
qed

section \<open>What the log says of a failed zip\<close>

text \<open>
  An error of the file system: the operation, the names it was about and the cause; an error may be wrapped in another with a
  message of its own.
\<close>

datatype goErr = PathError string string goErr | LinkError string string string goErr | Wrapped string goErr | Errno string

fun errText :: "goErr \<Rightarrow> string" where
  "errText (PathError op path e) = op @ '' '' @ path @ '': '' @ errText e"
| "errText (LinkError op old new e) = op @ '' '' @ old @ '' '' @ new @ '': '' @ errText e"
| "errText (Wrapped message e) = message"
| "errText (Errno message) = message"

text \<open>\<^verbatim>\<open>errors.As\<close>: the first error of the kind along the chain.\<close>

fun asPathError :: "goErr \<Rightarrow> (string \<times> goErr) option" where
  "asPathError (PathError op path e) = Some (op, e)"
| "asPathError (LinkError op old new e) = asPathError e"
| "asPathError (Wrapped message e) = asPathError e"
| "asPathError (Errno message) = None"

fun asLinkError :: "goErr \<Rightarrow> (string \<times> goErr) option" where
  "asLinkError (PathError op path e) = asLinkError e"
| "asLinkError (LinkError op old new e) = Some (op, e)"
| "asLinkError (Wrapped message e) = asLinkError e"
| "asLinkError (Errno message) = None"

definition pathless :: "goErr \<Rightarrow> string" where
  "pathless e = (case asPathError e of Some (op, cause) \<Rightarrow> op @ '': '' @ errText cause
     | None \<Rightarrow> (case asLinkError e of Some (op, cause) \<Rightarrow> op @ '': '' @ errText cause | None \<Rightarrow> errText e))"

text \<open>The errors a system call gives, wrapped or not, and the same error about other files.\<close>

fun systemError :: "goErr \<Rightarrow> bool" where
  "systemError (PathError op path (Errno m)) = True"
| "systemError (LinkError op old new (Errno m)) = True"
| "systemError (Wrapped message e) = systemError e"
| "systemError e = False"

fun otherFiles :: "(string \<Rightarrow> string) \<Rightarrow> goErr \<Rightarrow> goErr" where
  "otherFiles f (PathError op path e) = PathError op (f path) (otherFiles f e)"
| "otherFiles f (LinkError op old new e) = LinkError op (f old) (f new) (otherFiles f e)"
| "otherFiles f (Wrapped message e) = Wrapped (f message) (otherFiles f e)"
| "otherFiles f (Errno m) = Errno m"

text \<open>
  What is logged of a zip that failed does not depend on any name: the same failure of other files, wrapped in any message,
  is logged with the same words.
\<close>

lemma pathless_forgets_names: "systemError e \<Longrightarrow> pathless (otherFiles f e) = pathless e"
proof -
  assume "systemError e"
  then have "\<exists>op m. asPathError e = Some (op, Errno m) \<and> asPathError (otherFiles f e) = Some (op, Errno m) \<or>
      asPathError e = None \<and> asPathError (otherFiles f e) = None \<and>
      asLinkError e = Some (op, Errno m) \<and> asLinkError (otherFiles f e) = Some (op, Errno m)"
    by (induction e rule: systemError.induct) auto
  then show ?thesis by (auto simp: pathless_def)
qed

section \<open>Instances\<close>

definition demo_share :: app where
  "demo_share = demo_app\<lparr>app_name := ''taxes'', app_command := [''dufs'', ''/home/me/taxes'']\<rparr>"

definition demo_files :: osenv where
  "demo_files = \<lparr>os_abs = Some, os_isDir = (\<lambda>_. Some True), os_base = (\<lambda>s. s)\<rparr>"

theorem stopping_is_bounded_witness:
  "stopAll 7 [(runApp ''linux'' (\<lambda>_. None) demo_files None demo_share, None), (runApp ''linux'' (\<lambda>_. None) demo_files None demo_share, Some second)]
     \<le> 7 + 5 * second"
  by (rule stopping_is_bounded [THEN conjunct2]) (auto simp: runApp_def)

lemma demo_shared: "sharedPath demo_files demo_share = ''/home/me/taxes''" "app_name demo_share = ''taxes''"
  by (simp_all add: sharedPath_def demo_files_def demo_share_def dufsProgram_def)

lemma demo_logged:
  "loggedLines (ln_hide (runApp ''linux'' (\<lambda>_. None) demo_files None demo_share)) [''no such folder: /home/me/taxes'' @ [newline]]
     = [''no such folder: <shared folder>'']"
  by (simp add: runApp_def hidden_def demo_shared) code_simp

theorem log_never_names_the_folder_witness: "\<not> sublist ''/home/me/taxes'' ''no such folder: <shared folder>''"
proof -
  have "hideable (sharedPath demo_files demo_share)" by (simp add: demo_shared hideable_def)
  moreover have "appname_Valid (app_name demo_share)" unfolding demo_shared by code_simp
  ultimately show ?thesis
    using log_never_names_the_folder [of demo_files demo_share "''no such folder: <shared folder>''"] demo_logged
    by (metis demo_shared(1) list.set_intros(1))
qed

lemma sublist_pad: "r \<noteq> [] \<Longrightarrow> hd r \<noteq> x \<Longrightarrow> sublist r (replicate n x @ s) \<longleftrightarrow> sublist r s"
  by (induction n) (auto simp: sublist_Cons_right prefix_Cons)

theorem cut_line_shows_the_path_witness:
  "loggedLines (folderMarks ''/home/me/taxes'' ''taxes'') [replicate 8192 (CHR ''.'') @ ''/home/me/ta'', ''xes'' @ [newline]]
     = [replicate 8192 (CHR ''.'') @ ''/home/me/ta'', ''xes'']"
proof -
  have "newline \<noteq> CHR ''.''" "newline \<notin> set ''/home/me/taxes''" by (simp_all add: newline_def)
  then show ?thesis
    using cut_line_shows_the_path [of "replicate 8192 (CHR ''.'')" "''/home/me/ta''" "''xes''" "''taxes''"]
    by (simp add: maxAppLogLine_def sublist_pad sublist_Cons_right)
qed

end
