(* ===== verification/Heartbeat.thy ===== *)
theory Heartbeat
  imports Tunnel AgentCore
begin

text \<open>
  When a tunnel is given up: the heartbeat of \<^verbatim>\<open>hosted/control-plane/tunnel.go\<close> (\<^verbatim>\<open>watch\<close>) and the idle window of
  \<^verbatim>\<open>device/agent/tunnel.go\<close> (\<^verbatim>\<open>tunnelConn\<close>), on one clock.  Between the two ends is a path that carries each ping and each
  answer after a delay, or not at all.
\<close>

section \<open>The two ends\<close>

definition tunnelPingEvery :: int where "tunnelPingEvery = 30 * second"
definition tunnelPingTimeout :: int where "tunnelPingTimeout = 10 * second"
definition tunnelIdle :: int where "tunnelIdle = 90 * second"

text \<open>One ping: how long it takes to the agent, and its answer back; nothing when it is lost.\<close>

type_synonym trip = "int option \<times> int option"

definition answeredAfter :: "trip \<Rightarrow> int option" where
  "answeredAfter tr = (case tr of (Some x, Some y) \<Rightarrow> if x + y < tunnelPingTimeout then Some (x + y) else None | _ \<Rightarrow> None)"

text \<open>
  \<^verbatim>\<open>watch\<close> from \<open>now\<close>: when each ping reaches the agent, and when the server gives the tunnel up, if it does within
  these pings.
\<close>

fun heartbeat :: "int \<Rightarrow> trip list \<Rightarrow> int list \<times> int option" where
  "heartbeat now [] = ([], None)"
| "heartbeat now (tr # trs) =
     (let sent = now + tunnelPingEvery;
          here = (case fst tr of None \<Rightarrow> [] | Some x \<Rightarrow> [sent + x])
      in case answeredAfter tr of
          None \<Rightarrow> (here, Some (sent + tunnelPingTimeout))
        | Some d \<Rightarrow> (case heartbeat (sent + d) trs of (later, end) \<Rightarrow> (here @ later, end)))"

text \<open>
  The reads of the agent: each has to get something before its deadline, which is set when it starts.  What comes out is
  when a read fails.
\<close>

fun tunnelReads :: "int \<Rightarrow> int list \<Rightarrow> int" where
  "tunnelReads now [] = now + tunnelIdle"
| "tunnelReads now (a # as) = (if a < now + tunnelIdle then tunnelReads a as else now + tunnelIdle)"

lemmas clockwork = tunnelPingEvery_def tunnelPingTimeout_def tunnelIdle_def

section \<open>The timed loop is the loop\<close>

definition pingOf :: "trip \<Rightarrow> ping" where
  "pingOf tr = (if answeredAfter tr = None then Deadline else ping.Answered)"

text \<open>With times left out, \<open>heartbeat\<close> is \<open>registry_watch\<close>: it gives the tunnel up for the same pings, for a heartbeat that stopped.\<close>

lemma heartbeat_watch:
  "registry_watch (map pingOf trs) = (case snd (heartbeat now trs) of None \<Rightarrow> None | Some _ \<Rightarrow> Some reasonTimeout)"
  by (induction now trs rule: heartbeat.induct) (auto simp: pingOf_def Let_def split: option.splits prod.splits)

section \<open>A healthy path\<close>

definition healthy :: "trip \<Rightarrow> bool" where
  "healthy tr \<longleftrightarrow> (case tr of (Some x, Some y) \<Rightarrow> 0 \<le> x \<and> 0 \<le> y \<and> x + y < tunnelPingTimeout | _ \<Rightarrow> False)"

definition lastOr :: "int \<Rightarrow> int list \<Rightarrow> int" where
  "lastOr now as = (if as = [] then now else last as)"

text \<open>One answered ping, with what it leaves for the next: the agent heard it within one timeout.\<close>

lemma healthy_step:
  assumes "healthy tr" "now - tunnelPingTimeout < start" "start < now + tunnelPingTimeout"
  obtains a now' where "\<And>trs. heartbeat now (tr # trs) = (a # fst (heartbeat now' trs), snd (heartbeat now' trs))"
    "now' - tunnelPingTimeout < a" "a < now' + tunnelPingTimeout" "a < start + tunnelIdle"
proof -
  obtain x y where tr: "tr = (Some x, Some y)" "0 \<le> x" "0 \<le> y" "x + y < tunnelPingTimeout"
    using assms(1) by (auto simp: healthy_def split: option.splits prod.splits)
  then have "answeredAfter tr = Some (x + y)" by (simp add: answeredAfter_def)
  then have step: "heartbeat now (tr # trs) = ((now + tunnelPingEvery + x) # fst (heartbeat (now + tunnelPingEvery + (x + y)) trs),
      snd (heartbeat (now + tunnelPingEvery + (x + y)) trs))" for trs
    by (simp add: tr(1) Let_def split: prod.splits)
  show thesis using tr assms(2) by (intro that [OF step]) (auto simp: clockwork)
qed

lemma lastOr_Cons [simp]: "lastOr now (a # as) = lastOr a as"
  by (simp add: lastOr_def)

lemma heartbeat_healthy:
  assumes "list_all healthy trs" "now - tunnelPingTimeout < start" "start < now + tunnelPingTimeout"
  shows "snd (heartbeat now trs) = None \<and> length (fst (heartbeat now trs)) = length trs \<and>
    tunnelReads start (fst (heartbeat now trs)) = lastOr start (fst (heartbeat now trs)) + tunnelIdle"
  using assms
proof (induction trs arbitrary: now start)
  case (Cons tr trs)
  have ok: "healthy tr" "list_all healthy trs" using Cons.prems(1) by simp_all
  obtain a now' where step: "\<And>trs. heartbeat now (tr # trs) = (a # fst (heartbeat now' trs), snd (heartbeat now' trs))"
    and near: "now' - tunnelPingTimeout < a" "a < now' + tunnelPingTimeout" and read: "a < start + tunnelIdle"
    using healthy_step [OF ok(1) Cons.prems(2,3)] by blast
  show ?case using Cons.IH [OF ok(2) near] read by (simp add: step del: heartbeat.simps(2))
qed (simp add: lastOr_def)

lemma heartbeat_lost:
  assumes "list_all healthy trs" "now - tunnelPingTimeout < start" "start < now + tunnelPingTimeout"
  shows "fst (heartbeat now (trs @ [(None, up)])) = fst (heartbeat now trs) \<and>
    (\<exists>answered. \<bar>answered - lastOr start (fst (heartbeat now trs))\<bar> < tunnelPingTimeout \<and>
       snd (heartbeat now (trs @ [(None, up)])) = Some (answered + tunnelPingEvery + tunnelPingTimeout))"
  using assms
proof (induction trs arbitrary: now start)
  case Nil
  then show ?case by (intro conjI exI [of _ now]) (simp_all add: lastOr_def answeredAfter_def)
next
  case (Cons tr trs)
  have ok: "healthy tr" "list_all healthy trs" using Cons.prems(1) by simp_all
  obtain a now' where step: "\<And>trs. heartbeat now (tr # trs) = (a # fst (heartbeat now' trs), snd (heartbeat now' trs))"
    and near: "now' - tunnelPingTimeout < a" "a < now' + tunnelPingTimeout"
    using healthy_step [OF ok(1) Cons.prems(2,3)] by blast
  show ?case using Cons.IH [OF ok(2) near] by (simp add: step del: heartbeat.simps(2))
qed

text \<open>
  C20.  A tunnel ends when its path does, and not before.  Take an agent that starts to read within ten seconds of the server's
  start.  While every ping comes back in time neither end gives the tunnel up, however little else it carries.  Once
  nothing gets through any more, the server gives it up forty seconds after the last answer, which it had within ten
  seconds of the last ping's arrival at the agent, and the agent ninety seconds after that arrival.
\<close>

theorem tunnel_ends_with_its_path:
  assumes "list_all healthy trs" "now - tunnelPingTimeout < start" "start < now + tunnelPingTimeout"
  shows "snd (heartbeat now trs) = None \<and> length (fst (heartbeat now trs)) = length trs \<and>
    tunnelReads start (fst (heartbeat now (trs @ [(None, up)]))) = lastOr start (fst (heartbeat now trs)) + 90 * second \<and>
    (\<exists>answered. \<bar>answered - lastOr start (fst (heartbeat now trs))\<bar> < 10 * second \<and>
       snd (heartbeat now (trs @ [(None, up)])) = Some (answered + 40 * second))"
  using heartbeat_healthy [OF assms] heartbeat_lost [OF assms, of up] by (auto simp: clockwork add.assoc)

theorem tunnel_ends_with_its_path_witness:
  "snd (heartbeat 0 [(Some 3, Some 4), (Some second, Some (8 * second))]) = None"
  by (rule tunnel_ends_with_its_path [THEN conjunct1, of _ _ 0]) (simp_all add: healthy_def clockwork)

end
