(* ===== verification/HttpServer.thy ===== *)
theory HttpServer
  imports Server
begin

text \<open>
  The control plane's process: \<^verbatim>\<open>serve\<close> and \<^verbatim>\<open>logRequests\<close> of \<^verbatim>\<open>hosted/control-plane/server.go\<close>.  Serving, a stop, and the end of
  the shutdown are events; a run is a list of them.
\<close>

section \<open>Serving until told to stop\<close>

datatype listenEnd = ServerClosed | ListenFailed string

datatype httpEvent =
    ListenReturns "listenEnd option"
  | StopAsked
  | ShutdownReturns "string option"

datatype httpPhase = Accepting | ShuttingDown | AwaitsListener | Exited "string option"

text \<open>\<open>hs_errs\<close> is the channel \<^verbatim>\<open>errs\<close>: nothing while the listener runs, and what is in it once it is closed.\<close>

record httpServer =
  hs_tls :: bool
  hs_errs :: "string option option"
  hs_phase :: httpPhase

definition startServe :: "config \<Rightarrow> httpServer" where
  "startServe cfg = \<lparr>hs_tls = usesTLS cfg, hs_errs = None, hs_phase = Accepting\<rparr>"

text \<open>A receive from \<^verbatim>\<open>errs\<close> returns when the listener has: its error, or none from the closed channel.\<close>

definition receiveErrs :: "httpServer \<Rightarrow> httpServer" where
  "receiveErrs s = (case hs_errs s of None \<Rightarrow> s | Some e \<Rightarrow> s\<lparr>hs_phase := Exited e\<rparr>)"

fun httpStep :: "httpEvent \<Rightarrow> httpServer \<Rightarrow> httpServer" where
  "httpStep (ListenReturns r) s =
     (if hs_errs s \<noteq> None then s
      else (let s' = s\<lparr>hs_errs := Some (case r of Some (ListenFailed e) \<Rightarrow> Some e | _ \<Rightarrow> None)\<rparr>
            in if hs_phase s = Accepting \<or> hs_phase s = AwaitsListener then receiveErrs s' else s'))"
| "httpStep StopAsked s = (if hs_phase s = Accepting then s\<lparr>hs_phase := ShuttingDown\<rparr> else s)"
| "httpStep (ShutdownReturns e) s =
     (if hs_phase s = ShuttingDown then
        (case e of Some err \<Rightarrow> s\<lparr>hs_phase := Exited (Some err)\<rparr>
         | None \<Rightarrow> receiveErrs (s\<lparr>hs_phase := AwaitsListener\<rparr>))
      else s)"

definition serve :: "config \<Rightarrow> httpEvent list \<Rightarrow> httpServer" where
  "serve cfg es = fold httpStep es (startServe cfg)"

text \<open>
  What the library does: the listener returns an error, and returns \<open>ServerClosed\<close> only after \<^verbatim>\<open>Shutdown\<close> was called.
\<close>

fun listenerAsDocumented :: "bool \<Rightarrow> httpEvent list \<Rightarrow> bool" where
  "listenerAsDocumented stopping [] = True"
| "listenerAsDocumented stopping (StopAsked # es) = listenerAsDocumented True es"
| "listenerAsDocumented stopping (ListenReturns r # es) =
     (r \<noteq> None \<and> (r = Some ServerClosed \<longrightarrow> stopping) \<and> listenerAsDocumented stopping es)"
| "listenerAsDocumented stopping (ShutdownReturns e # es) = listenerAsDocumented stopping es"

lemma listenerAsDocumented_snoc:
  "listenerAsDocumented b (es @ [e]) \<longleftrightarrow> listenerAsDocumented b es \<and> listenerAsDocumented (b \<or> StopAsked \<in> set es) [e]"
  by (induction b es rule: listenerAsDocumented.induct) auto

text \<open>The failures of a run, and what has happened by the time the process is in a phase.\<close>

definition failed :: "httpEvent list \<Rightarrow> string \<Rightarrow> bool" where
  "failed es e \<longleftrightarrow> ListenReturns (Some (ListenFailed e)) \<in> set es \<or> ShutdownReturns (Some e) \<in> set es"

definition drained :: "httpEvent list \<Rightarrow> bool" where
  "drained es \<longleftrightarrow> StopAsked \<in> set es \<and> ShutdownReturns None \<in> set es"

fun phaseOf :: "httpEvent list \<Rightarrow> httpServer \<Rightarrow> httpPhase \<Rightarrow> bool" where
  "phaseOf es s Accepting = (StopAsked \<notin> set es \<and> hs_errs s = None)"
| "phaseOf es s ShuttingDown = (StopAsked \<in> set es)"
| "phaseOf es s AwaitsListener = (drained es \<and> hs_errs s = None)"
| "phaseOf es s (Exited None) = drained es"
| "phaseOf es s (Exited (Some e)) = failed es e"

lemma receiveErrs_phase:
  "hs_errs s = Some e \<Longrightarrow> receiveErrs s = s\<lparr>hs_phase := Exited e\<rparr>" "hs_errs s = None \<Longrightarrow> receiveErrs s = s"
  by (simp_all add: receiveErrs_def)

lemma phaseOf_more: "phaseOf es s p \<Longrightarrow> p \<noteq> Accepting \<Longrightarrow> hs_errs s' = hs_errs s \<Longrightarrow> phaseOf (es @ [e]) s' p"
  by (cases "(es, s, p)" rule: phaseOf.cases) (auto simp: drained_def failed_def)

lemma phaseOf_exited: "phaseOf es s (Exited r) = (case r of None \<Rightarrow> drained es | Some e \<Rightarrow> failed es e)"
  by (cases r) simp_all

lemma serve_phases:
  "listenerAsDocumented False es \<Longrightarrow> phaseOf es (serve cfg es) (hs_phase (serve cfg es)) \<and>
    (\<forall>e. hs_errs (serve cfg es) = Some (Some e) \<longrightarrow> failed es e)"
proof (induction es rule: rev_induct)
  case Nil
  then show ?case by (simp add: serve_def startServe_def)
next
  case (snoc x es)
  have doc: "listenerAsDocumented False es" "listenerAsDocumented (StopAsked \<in> set es) [x]"
    using snoc.prems by (simp_all add: listenerAsDocumented_snoc)
  let ?s = "serve cfg es"
  have step: "serve cfg (es @ [x]) = httpStep x ?s" by (simp add: serve_def)
  have IH: "phaseOf es ?s (hs_phase ?s)" "\<forall>e. hs_errs ?s = Some (Some e) \<longrightarrow> failed es e" using snoc.IH [OF doc(1)] by auto
  have kept: "failed es e \<Longrightarrow> failed (es @ [x]) e" for e by (auto simp: failed_def)
  show ?case
  proof (cases x)
    case (ListenReturns r)
    show ?thesis
    proof (cases "hs_errs ?s")
      case (Some e)
      then have "hs_phase ?s \<noteq> Accepting" using IH(1) by (cases "hs_phase ?s") auto
      then have "phaseOf (es @ [x]) ?s (hs_phase ?s)" using phaseOf_more [OF IH(1)] by simp
      then show ?thesis using Some IH(2) kept unfolding step by (simp add: ListenReturns)
    next
      case None
      show ?thesis
        using None IH doc(2) kept unfolding step
        by (cases "(es, ?s, hs_phase ?s)" rule: phaseOf.cases)
          (auto simp: ListenReturns receiveErrs_def Let_def failed_def drained_def split: option.splits listenEnd.splits)
    qed
  next
    case StopAsked
    then show ?thesis using IH kept phaseOf_more [OF IH(1)] unfolding step by (cases "hs_phase ?s") (auto simp: StopAsked failed_def drained_def)
  next
    case (ShutdownReturns r)
    then show ?thesis
      using IH kept phaseOf_more [OF IH(1)] unfolding step
      by (cases "hs_phase ?s") (auto simp: ShutdownReturns receiveErrs_def phaseOf_exited failed_def drained_def split: option.splits)
  qed
qed


text \<open>
  The process says truly how it ended.  It exits without an error only after a stop was asked for and the requests in
  flight were drained, and an error it exits with is one that happened; a failure to listen ends it at once, and a stop that
  drains ends it without an error, whichever of the listener and the shutdown returns first.
\<close>

theorem serve_exits_truly:
  assumes "listenerAsDocumented False es"
  shows "(hs_phase (serve cfg es) = Exited None \<longrightarrow> drained es) \<and>
    (\<forall>e. hs_phase (serve cfg es) = Exited (Some e) \<longrightarrow> failed es e) \<and>
    (hs_phase (serve cfg es) = Accepting \<longrightarrow>
       (\<forall>e. hs_phase (serve cfg (es @ [ListenReturns (Some (ListenFailed e))])) = Exited (Some e)) \<and>
       hs_phase (serve cfg (es @ [StopAsked, ListenReturns (Some ServerClosed), ShutdownReturns None])) = Exited None \<and>
       hs_phase (serve cfg (es @ [StopAsked, ShutdownReturns None, ListenReturns (Some ServerClosed)])) = Exited None)"
proof -
  have inv: "phaseOf es (serve cfg es) (hs_phase (serve cfg es))" using serve_phases [OF assms] by blast
  have app: "serve cfg (es @ fs) = fold httpStep fs (serve cfg es)" for fs by (simp add: serve_def)
  have "hs_errs (serve cfg es) = None" if "hs_phase (serve cfg es) = Accepting" using inv that by simp
  then show ?thesis using inv by (auto simp: phaseOf_exited app receiveErrs_def)
qed

theorem serve_exits_truly_witness:
  "hs_phase (serve \<lparr>cf_addr = '':8443'', cf_databaseURL = ''d'', cf_tlsCert = [], cf_tlsKey = [], cf_logLevel = 0, cf_shutdownTimeout = 20 * second\<rparr>
     [StopAsked, ListenReturns (Some ServerClosed), ShutdownReturns None]) = Exited None"
  using serve_exits_truly [of "[]" "\<lparr>cf_addr = '':8443'', cf_databaseURL = ''d'', cf_tlsCert = [], cf_tlsKey = [], cf_logLevel = 0, cf_shutdownTimeout = 20 * second\<rparr>"]
  by (simp add: serve_def startServe_def)

section \<open>The request log\<close>

record requestLine =
  rl_method :: string
  rl_path :: string
  rl_status :: nat
  rl_durationMs :: int

text \<open>\<^verbatim>\<open>logRequests\<close>: the handler below is the status codes it writes, in order, and the time it takes.\<close>

definition logRequests :: "request \<Rightarrow> nat list \<Rightarrow> int \<Rightarrow> response \<Rightarrow> response \<times> requestLine" where
  "logRequests r codes took rw =
     (let rec = fold recorder_WriteHeader codes (newStatusRecorder rw) in
      (sr_writer rec, \<lparr>rl_method = rq_method r, rl_path = rq_path r, rl_status = sr_status rec, rl_durationMs = took div 1000000\<rparr>))"

lemma recorder_status: "sr_status (fold recorder_WriteHeader codes s) = (if codes = [] then sr_status s else last codes)"
  by (induction codes arbitrary: s) (auto simp: recorder_WriteHeader_def)

lemma recorder_writer:
  "rs_status (sr_writer (fold recorder_WriteHeader codes s)) = (case rs_status (sr_writer s) of Some c \<Rightarrow> Some c
     | None \<Rightarrow> (case codes of [] \<Rightarrow> None | c # cs \<Rightarrow> Some c))"
  by (induction codes arbitrary: s) (auto simp: recorder_WriteHeader_def writeHeader_def split: option.splits)

text \<open>
  The log has the status that was sent when the handler writes one status; of two it has the second, and the client the
  first.
\<close>

lemma logged_status:
  assumes "rs_status rw = None" "codes \<noteq> []"
  shows "rs_status (fst (logRequests r codes took rw)) = Some (hd codes) \<and> rl_status (snd (logRequests r codes took rw)) = last codes"
  using assms by (cases codes) (auto simp: logRequests_def Let_def recorder_status recorder_writer newStatusRecorder_def recorder_WriteHeader_def writeHeader_def)

text \<open>
  The request log of the server names files.  A remote request is logged with its whole path, and that holds the
  application, whose name is made from the folder's, and the path of the file inside it, whatever the answer was.
\<close>

theorem request_log_names_the_file:
  assumes "rq_path r = ''/d/'' @ device @ remotePath app rest" "rest \<noteq> []"
  shows "sublist (app @ ''/'' @ rest) (rl_path (snd (logRequests r codes took rw)))"
proof -
  have "rl_path (snd (logRequests r codes took rw)) = (''/d/'' @ device @ ''/'') @ (app @ ''/'' @ rest)"
    using assms by (simp add: logRequests_def Let_def remotePath_def)
  then show ?thesis by (simp only: sublist_append_leftI)
qed

theorem request_log_names_the_file_witness:
  "sublist ''taxes/2025.pdf'' (rl_path (snd (logRequests
     \<lparr>rq_method = ''GET'', rq_escaped = ''/d/ab/taxes/2025.pdf'', rq_path = ''/d/ab/taxes/2025.pdf'', rq_headers = [], rq_cookies = [], rq_query = [],
      rq_remote = [], rq_host = [], rq_tls = True\<rparr> [200] 7000000 fresh_response)))"
  using request_log_names_the_file [of "\<lparr>rq_method = ''GET'', rq_escaped = ''/d/ab/taxes/2025.pdf'', rq_path = ''/d/ab/taxes/2025.pdf'', rq_headers = [],
      rq_cookies = [], rq_query = [], rq_remote = [], rq_host = [], rq_tls = True\<rparr>" "''ab''" "''taxes''" "''2025.pdf''" "[200]" 7000000 fresh_response]
  by (simp add: remotePath_def)

end
