(* ===== verification/Desktop.thy ===== *)
theory Desktop
  imports CommandLine Discovery
begin

text \<open>
  What the agent asks the desktop it runs on: who holds a port and a notice on the screen (\<^verbatim>\<open>device/agent/ports.go\<close>), opening a
  browser (\<^verbatim>\<open>share.go\<close>), whether the network lets other devices in (\<^verbatim>\<open>lancheck_windows.go\<close>, \<^verbatim>\<open>lancheck_darwin.go\<close>,
  \<^verbatim>\<open>lancheck_other.go\<close>), and the console it was started in (\<^verbatim>\<open>console_windows.go\<close>).  A command is what is started; what it prints is
  an argument.
\<close>

section \<open>Commands\<close>

record command =
  co_argv :: "string list"
  co_env :: "(string \<times> string) list"
  co_window :: bool

text \<open>\<^verbatim>\<open>hideWindow\<close>: on Windows a command gets no window of its own; elsewhere there is none to hide.\<close>

definition hideWindow :: "string \<Rightarrow> command \<Rightarrow> command" where
  "hideWindow goos c = (if goos = ''windows'' then c\<lparr>co_window := False\<rparr> else c)"

definition command :: "string list \<Rightarrow> command" where
  "command argv = \<lparr>co_argv = argv, co_env = [], co_window = True\<rparr>"

text \<open>\<^verbatim>\<open>detachConsole\<close> lets its console go when no other process shares it.\<close>

definition detachConsole :: "nat \<Rightarrow> bool" where
  "detachConsole processes \<longleftrightarrow> processes = 1"

definition openBrowser :: "string \<Rightarrow> string \<Rightarrow> command" where
  "openBrowser goos url = command
     (if goos = ''darwin'' then [''open'', url]
      else if goos = ''windows'' then [''rundll32'', ''url.dll,FileProtocolHandler'', url]
      else [''xdg-open'', url])"

section \<open>Who holds a port\<close>

definition askHolder :: "string \<Rightarrow> string \<Rightarrow> command" where
  "askHolder goos port = hideWindow goos (command
     (if goos = ''darwin'' then [''lsof'', ''-nP'', ''-iTCP:'' @ port, ''-sTCP:LISTEN'', ''-Fc'']
      else if goos = ''windows'' then [''powershell.exe'', ''-NoProfile'', ''-NonInteractive'', ''-Command'',
        ''(Get-Process -Id (Get-NetTCPConnection -LocalPort '' @ port @ '' -State Listen).OwningProcess).ProcessName'']
      else [''ss'', ''-Hltnp'', ''sport = :'' @ port]))"

text \<open>
  The three patterns.  \<^verbatim>\<open>(?m)^c(.+)$\<close> takes the rest of the first line that has one after a \<open>c\<close>; the one for Windows takes the
  first line that does not begin with a space, without the spaces at its end; the one for Linux takes what stands in
  quotes after \<^verbatim>\<open>users:((\<close>.
\<close>

definition pickDarwin :: "string \<Rightarrow> string option" where
  "pickDarwin out = map_option tl (find (\<lambda>l. prefix ''c'' l \<and> length l \<ge> 2) (splitOn newline out))"

definition regexSpace :: "char \<Rightarrow> bool" where
  "regexSpace c \<longleftrightarrow> c = CHR '' '' \<or> c = CHR 0x09 \<or> c = newline \<or> c = CHR 0x0C \<or> c = CHR 0x0D"

definition pickWindows :: "string \<Rightarrow> string option" where
  "pickWindows out = map_option (\<lambda>l. rev (dropWhile regexSpace (rev l)))
     (find (\<lambda>l. l \<noteq> [] \<and> \<not> regexSpace (hd l)) (splitOn newline out))"

definition quoteMark :: char where "quoteMark = CHR 0x22"

definition usersMark :: string where "usersMark = ''users:(('' @ [quoteMark]"

fun pickLinux :: "string \<Rightarrow> string option" where
  "pickLinux [] = None"
| "pickLinux (c # s) =
     (let rest = drop (length usersMark) (c # s); name = takeWhile (\<lambda>x. x \<noteq> quoteMark) rest in
      if prefix usersMark (c # s) \<and> name \<noteq> [] \<and> length name < length rest then Some name else pickLinux s)"

definition pickHolder :: "string \<Rightarrow> string \<Rightarrow> string option" where
  "pickHolder goos out =
     (if goos = ''darwin'' then pickDarwin out else if goos = ''windows'' then pickWindows out else pickLinux out)"

definition portHolder :: "string \<Rightarrow> (command \<Rightarrow> string) \<Rightarrow> string \<Rightarrow> string" where
  "portHolder goos output port = (case pickHolder goos (output (askHolder goos port)) of Some name \<Rightarrow> name | None \<Rightarrow> ''another program'')"

section \<open>A notice\<close>

fun noticeText :: "notice \<Rightarrow> string" where
  "noticeText OtherUser = ''anywhere-file already runs for another user on this PC. Sign out of the account there first, then quit anywhere-file there or remove it.''"
| "noticeText (PortTaken holder port) =
     holder @ '' is using port '' @ port @ '', which anywhere-file needs. Close it and anywhere-file starts by itself.''"

definition notify :: "string \<Rightarrow> string \<Rightarrow> command" where \<open>
  notify goos msg = hideWindow goos
     (if goos = ''darwin'' then command [''osascript'', ''-e'', ''on run argv'',
        ''-e'', ''display notification (item 1 of argv) with title "anywhere-file"'', ''-e'', ''end run'', msg]
      else if goos = ''windows'' then (command [''powershell.exe'', ''-NoProfile'', ''-NonInteractive'', ''-Command'',
        ''Add-Type -AssemblyName System.Windows.Forms; $n = New-Object System.Windows.Forms.NotifyIcon; '' @
        ''$n.Icon = [System.Drawing.SystemIcons]::Warning; $n.Visible = $true; '' @
        ''$n.ShowBalloonTip(10000, 'anywhere-file', $env:RFM_NOTICE, 'Warning'); Start-Sleep 10; $n.Dispose()''])
          \<lparr>co_env := [(''RFM_NOTICE'', msg)]\<rparr>
      else command [''notify-send'', ''anywhere-file'', msg])\<close>

section \<open>What the commands say\<close>

lemma find_picked: "find P xs = Some x \<Longrightarrow> P x \<and> x \<in> set xs"
  by (auto simp: find_Some_iff)

lemma splitOn_pieces: "splitOn c s = w # ws \<Longrightarrow> prefix w s \<and> (\<forall>l \<in> set ws. sublist l s)"
proof (induction s arbitrary: w ws)
  case (Cons d s)
  obtain v vs where v: "splitOn c s = v # vs" using splitOn_nonempty by (cases "splitOn c s") auto
  have IH: "prefix v s" "\<And>l. l \<in> set vs \<Longrightarrow> sublist l s" using Cons.IH [OF v] by auto
  show ?case
  proof (cases "d = c")
    case True
    then show ?thesis using Cons.prems IH by (auto simp: v sublist_Cons_right dest: prefix_imp_sublist)
  next
    case False
    then show ?thesis using Cons.prems IH by (auto simp: v sublist_Cons_right)
  qed
qed simp

lemma splitOn_sublist: "l \<in> set (splitOn c s) \<Longrightarrow> sublist l s"
  using splitOn_pieces [of c s] by (cases "splitOn c s") (auto dest: prefix_imp_sublist)

lemma takeWhile_ends:
  "length (takeWhile (\<lambda>x. x \<noteq> q) t) < length t \<Longrightarrow> \<exists>t'. t = takeWhile (\<lambda>x. x \<noteq> q) t @ q # t'"
  by (induction t) auto

lemma pickLinux_found: "pickLinux s = Some name \<Longrightarrow> name \<noteq> [] \<and> sublist (usersMark @ name @ [quoteMark]) s"
proof (induction s)
  case (Cons c s)
  let ?rest = "drop (length usersMark) (c # s)"
  let ?name = "takeWhile (\<lambda>x. x \<noteq> quoteMark) ?rest"
  show ?case
  proof (cases "prefix usersMark (c # s) \<and> ?name \<noteq> [] \<and> length ?name < length ?rest")
    case True
    have "Some ?name = Some name" using Cons.prems unfolding pickLinux.simps Let_def if_P [OF True] .
    then have name: "name = ?name" by simp
    obtain t where t: "c # s = usersMark @ t" using True by (auto elim: prefixE)
    then have rest: "?rest = t" by simp
    obtain t' where "t = name @ quoteMark # t'" using True takeWhile_ends [of quoteMark t] unfolding name rest by blast
    then have "c # s = (usersMark @ name @ [quoteMark]) @ t'" using t by simp
    then show ?thesis using True unfolding name by (metis sublist_append_rightI)
  next
    case False
    then have "pickLinux s = Some name" using Cons.prems by (simp only: pickLinux.simps Let_def if_False)
    then show ?thesis using Cons.IH by (auto simp: sublist_Cons_right)
  qed
qed simp

lemma trimmed_line: "l \<noteq> [] \<Longrightarrow> \<not> P (hd l) \<Longrightarrow> rev (dropWhile P (rev l)) \<noteq> [] \<and> prefix (rev (dropWhile P (rev l))) l"
proof -
  assume l: "l \<noteq> []" "\<not> P (hd l)"
  have "dropWhile P (rev l) \<noteq> []" using l by (auto simp: dropWhile_eq_Nil_conv)
  moreover have "suffix (dropWhile P (rev l)) (rev l)" by (rule suffix_dropWhile)
  ultimately show ?thesis by (simp add: suffix_to_prefix)
qed

text \<open>
  The notice always names something, and nothing the command did not print: the holder is not empty, and a name is a piece of
  one line of the output on macOS and Windows and what stands in quotes on Linux.
\<close>

theorem holder_is_named:
  "portHolder goos output port \<noteq> [] \<and>
    (portHolder goos output port = ''another program'' \<or> sublist (portHolder goos output port) (output (askHolder goos port)))"
proof (cases "pickHolder goos (output (askHolder goos port))")
  case None
  then show ?thesis by (simp add: portHolder_def)
next
  case (Some name)
  let ?out = "output (askHolder goos port)"
  have line: "sublist l ?out" if "l \<in> set (splitOn newline ?out)" for l
    using that by (rule splitOn_sublist)
  consider (darwin) "pickDarwin ?out = Some name" | (windows) "pickWindows ?out = Some name" | (linux) "pickLinux ?out = Some name"
    using Some by (auto simp: pickHolder_def split: if_splits)
  then have "name \<noteq> [] \<and> sublist name ?out"
  proof cases
    case darwin
    then obtain l where l: "find (\<lambda>l. prefix ''c'' l \<and> length l \<ge> 2) (splitOn newline ?out) = Some l" "name = tl l"
      by (auto simp: pickDarwin_def)
    from find_picked [OF l(1)] have "sublist l ?out" "2 \<le> length l" using line by auto
    have "tl l \<noteq> []" using \<open>2 \<le> length l\<close> by (cases l) auto
    moreover have "sublist (tl l) ?out" by (rule sublist_order.order.trans [OF sublist_tl \<open>sublist l ?out\<close>])
    ultimately show ?thesis by (simp add: l(2))
  next
    case windows
    then obtain l where l: "find (\<lambda>l. l \<noteq> [] \<and> \<not> regexSpace (hd l)) (splitOn newline ?out) = Some l"
      "name = rev (dropWhile regexSpace (rev l))"
      by (auto simp: pickWindows_def)
    from find_picked [OF l(1)] have "sublist l ?out" "l \<noteq> []" "\<not> regexSpace (hd l)" using line by auto
    from trimmed_line [of l regexSpace, OF this(2,3)] have "name \<noteq> []" "sublist name l" by (simp_all add: l(2) prefix_imp_sublist)
    moreover from this(2) \<open>sublist l ?out\<close> have "sublist name ?out" by (rule sublist_order.order.trans)
    ultimately show ?thesis by simp
  next
    case linux
    from pickLinux_found [OF this] have "name \<noteq> []" "sublist (usersMark @ name @ [quoteMark]) ?out" by simp_all
    moreover from sublist_appendI [of name usersMark "[quoteMark]"] this(2) have "sublist name ?out"
      by (rule sublist_order.order.trans)
    ultimately show ?thesis by simp
  qed
  then show ?thesis using Some by (simp add: portHolder_def)
qed

text \<open>What the tools print for a port held by \<open>name\<close> is read as that name.\<close>

lemma holder_read:
  "newline \<notin> set name \<Longrightarrow> name \<noteq> [] \<Longrightarrow> CHR ''c'' \<notin> set pid \<Longrightarrow> newline \<notin> set pid \<Longrightarrow>
    pickHolder ''darwin'' (pid @ newline # CHR ''c'' # name @ [newline]) = Some name"
  "newline \<notin> set name \<Longrightarrow> name \<noteq> [] \<Longrightarrow> \<not> regexSpace (hd name) \<Longrightarrow> \<not> regexSpace (last name) \<Longrightarrow>
    pickHolder ''windows'' (name @ CHR 0x0D # [newline]) = Some name"
proof -
  have split: "splitOn newline (l @ newline # rest) = l # splitOn newline rest" if "newline \<notin> set l" for l rest
    using that splitOn_append by simp
  assume name: "newline \<notin> set name" "name \<noteq> []"
  show "pickHolder ''darwin'' (pid @ newline # CHR ''c'' # name @ [newline]) = Some name" if "CHR ''c'' \<notin> set pid" "newline \<notin> set pid"
  proof -
    have "\<not> prefix ''c'' pid" using that(1) by (cases pid) auto
    moreover have "newline \<notin> set (CHR ''c'' # name)" using name by (auto simp: newline_def)
    from split [OF that(2)] split [OF this, of "[]"] have "splitOn newline (pid @ newline # CHR ''c'' # name @ [newline]) = [pid, CHR ''c'' # name, []]" by simp
    ultimately show ?thesis using name(2) by (cases name) (simp_all add: pickHolder_def pickDarwin_def)
  qed
  show "pickHolder ''windows'' (name @ CHR 0x0D # [newline]) = Some name" if "\<not> regexSpace (hd name)" "\<not> regexSpace (last name)"
  proof -
    have "newline \<notin> set (name @ [CHR 0x0D])" using name(1) by (simp add: newline_def)
    from split [OF this, of "[]"] have lines: "splitOn newline (name @ CHR 0x0D # [newline]) = [name @ [CHR 0x0D], []]" by simp
    obtain l x where l: "name = l @ [x]" using name(2) by (cases name rule: rev_cases) auto
    then have "rev (dropWhile regexSpace (rev (name @ [CHR 0x0D]))) = name" using that(2) by (simp add: regexSpace_def)
    then show ?thesis using name(2) that(1) by (simp add: pickHolder_def pickWindows_def lines)
  qed
qed

text \<open>
  A notice is shown, never run.  The program a notice names is another's, and its name is in the message; on every system
  the message changes one argument or one variable of the command and none of what is read as a script.
\<close>

theorem notice_is_data:
  "\<exists>argv window. \<forall>msg. notify goos msg =
     (if goos = ''windows'' then \<lparr>co_argv = argv, co_env = [(''RFM_NOTICE'', msg)], co_window = window\<rparr>
      else \<lparr>co_argv = argv @ [msg], co_env = [], co_window = window\<rparr>)"
proof (cases "goos = ''windows''")
  case True
  then show ?thesis
    by (intro exI [of _ "co_argv (notify ''windows'' [])"] exI [of _ False]) (simp add: notify_def hideWindow_def command_def)
next
  case False
  then show ?thesis
    by (intro exI [of _ "butlast (co_argv (notify goos []))"] exI [of _ True]) (simp add: notify_def hideWindow_def command_def)
qed

section \<open>Whether the network lets other devices in\<close>

datatype probe = NoSocket | Sent | HostUnreachable | SendFailed

text \<open>\<open>category\<close> is what the system calls the network of the interface, \<open>probe\<close> how a datagram to the group went.\<close>

definition lanBlocked_windows :: "interface option \<Rightarrow> (interface \<Rightarrow> string option) \<Rightarrow> lanProblem" where
  "lanBlocked_windows iface category = (case iface of None \<Rightarrow> LanFine
   | Some i \<Rightarrow> (case category i of None \<Rightarrow> LanFine | Some out \<Rightarrow> if trimSpace out = ''Public'' then LanPublic else LanFine))"

definition lanBlocked_darwin :: "interface option \<Rightarrow> (interface \<Rightarrow> probe) \<Rightarrow> lanProblem" where
  "lanBlocked_darwin iface probe = (case iface of None \<Rightarrow> LanFine
   | Some i \<Rightarrow> if probe i = HostUnreachable then LanDenied else LanFine)"

definition lanBlocked :: "string \<Rightarrow> interface list option \<Rightarrow> (interface \<Rightarrow> string option) \<Rightarrow> (interface \<Rightarrow> probe) \<Rightarrow> lanProblem" where
  "lanBlocked goos ifaces category probe =
     (if goos = ''windows'' then lanBlocked_windows (multicastInterface ifaces) category
      else if goos = ''darwin'' then lanBlocked_darwin (multicastInterface ifaces) probe
      else LanFine)"

text \<open>
  A warning is about the interface the PC announces itself on: without one there is no warning, and with one the warning is of
  the system it is shown on.
\<close>

lemma warned_when_blocked:
  "lanBlocked goos ifaces category probe = LanPublic \<longleftrightarrow> goos = ''windows'' \<and>
     (\<exists>i out. multicastInterface ifaces = Some i \<and> category i = Some out \<and> trimSpace out = ''Public'')"
  "lanBlocked goos ifaces category probe = LanDenied \<longleftrightarrow> goos = ''darwin'' \<and>
     (\<exists>i. multicastInterface ifaces = Some i \<and> probe i = HostUnreachable)"
  by (auto simp: lanBlocked_def lanBlocked_windows_def lanBlocked_darwin_def split: option.splits)

section \<open>The settings page\<close>

text \<open>
  \<^verbatim>\<open>servePage\<close>: only the root is a page, and its fields are the caller's with the token, the home folder, empty when there is
  none, and the version.
\<close>

definition serveSettingsPage :: "string \<Rightarrow> string option \<Rightarrow> string \<Rightarrow> (string \<rightharpoonup> string) \<Rightarrow> string \<Rightarrow> nat + (string \<rightharpoonup> string)" where
  "serveSettingsPage token home version page path =
     (if path \<noteq> ''/'' then Inl 404
      else Inr (page(''Token'' \<mapsto> token, ''Home'' \<mapsto> (case home of Some h \<Rightarrow> h | None \<Rightarrow> []), ''Version'' \<mapsto> version)))"

end
