(* ===== verification/Spec2Isabelle.thy ===== *)
theory Spec2Isabelle
  imports ControlPlane EndToEnd AgentLog Archive Tray Serve Background Manifest AppLog Heartbeat HttpServer Desktop
begin

text \<open>
  anywhere-file lets a person reach folders and applications on their own PC, on the LAN and from elsewhere.  It has two
  programs: the control plane (\<^verbatim>\<open>src/hosted/control-plane\<close>), an HTTP server over PostgreSQL that knows accounts, devices,
  bindings and invites, keeps one tunnel per device and routes remote requests into it; and the agent
  (\<^verbatim>\<open>src/device/agent\<close>), which runs on the PC, holds the device key, runs the shared applications behind a gateway and
  keeps the tunnel open.  Both use \<^verbatim>\<open>src/internal\<close>: application names, trace headers and device signatures.

  \<^bold>\<open>How the code is modelled.\<close>  Strings are byte strings.  A handler is a function of the decoded request that takes a
  response and a world and returns both; the world holds the tables, the clock and the list of database calls that will
  fail, so every theorem that says nothing about faults holds for all of them.  A transaction is a state action whose
  changes are dropped when it fails.  The agent is a record of its registry, its disk, its routes, its running
  applications, what it sent and what the server will answer; a file operation works, fails or truncates as a list of
  outcomes says.  Errors are values.  What is not in the repository is an argument: hashes and Ed25519, \<^verbatim>\<open>url.Parse\<close>, the
  JSON codec, templates, the operating system's keyring, what a command, a child process or a socket does.  Facts about
  such arguments (a signature verifies, a codec reads back what it wrote, a digest has 32 bytes) are named hypotheses, and
  each theorem that has one has a witness that discharges it.

  \<^bold>\<open>Shared.\<close>
  \<^item> \<open>Prelude\<close>, \<open>Encoding\<close>, \<open>Http\<close>: Go's strings, integers, hexadecimal and base64, headers and responses, and the
    lemma collections the rest uses.
  \<^item> \<open>Internal\<close>, \<open>Devicesig\<close>: \<^verbatim>\<open>appname.go\<close>, \<^verbatim>\<open>traceparent.go\<close>, \<^verbatim>\<open>devicesig.go\<close>.  A request signed by the agent verifies, and
    the signed bytes determine the request.

  \<^bold>\<open>Control plane.\<close>
  \<^item> \<open>Store\<close>, \<open>Schema\<close>, \<open>AuditLog\<close>, \<open>Migrate\<close>: database actions with a small Hoare logic (\<open>triple\<close>), rows and the
    well-formedness of the tables (keys, foreign keys), \<^verbatim>\<open>audit.go\<close>, \<^verbatim>\<open>migrate.go\<close>.
  \<^item> \<open>Ratelimit\<close>, \<open>Mail\<close>, \<open>Auth\<close>, \<open>AuthFacts\<close>: \<^verbatim>\<open>ratelimit.go\<close> (a refinement of the full history), \<^verbatim>\<open>mail.go\<close>, \<^verbatim>\<open>auth.go\<close>.
  \<^item> \<open>AgentAuth\<close>, \<open>SingleUse\<close>, \<open>Enrol\<close>, \<open>EnrolFacts\<close>: \<^verbatim>\<open>agent.go\<close>, \<^verbatim>\<open>enrol.go\<close>.  Tokens and invites share the locale of
    things that can be spent once; nonces are accepted once in their lifetime.
  \<^item> \<open>Tunnel\<close>, \<open>Bindings\<close>, \<open>BindingsFacts\<close>, \<open>Directory\<close>, \<open>DirectoryFacts\<close>, \<open>Routing\<close>: \<^verbatim>\<open>tunnel.go\<close>, \<^verbatim>\<open>bindings.go\<close>, \<^verbatim>\<open>invite.go\<close>,
    \<^verbatim>\<open>subscription.go\<close>, \<^verbatim>\<open>delete.go\<close>, \<^verbatim>\<open>apps.go\<close>, \<^verbatim>\<open>reports.go\<close>, \<^verbatim>\<open>routing.go\<close>.  The audit log tells
    each connection's end once, the last admin stays, an account's deletion is complete and spares everyone else, a request is forwarded exactly with every permission and without the server's credentials.
  \<^item> \<open>Download\<close>, \<open>Web\<close>, \<open>Server\<close>: \<^verbatim>\<open>download.go\<close>, \<^verbatim>\<open>web.go\<close>, \<^verbatim>\<open>config.go\<close>, \<^verbatim>\<open>main.go\<close>, \<^verbatim>\<open>server.go\<close>, \<^verbatim>\<open>metrics.go\<close>.
  \<^item> \<open>HttpServer\<close>: \<^verbatim>\<open>serve\<close> and the request log of \<^verbatim>\<open>server.go\<close>.  The process exits without an error only after a drained stop.
  \<^item> \<open>ControlPlane\<close>: all routes behind their limits as one step relation of a process that may restart; its invariants
    hold in every reachable state.

  \<^bold>\<open>Agent.\<close>
  \<^item> \<open>Net\<close>, \<open>AgentState\<close>, \<open>AgentShares\<close>: addresses, \<^verbatim>\<open>state.go\<close>, the shares of \<^verbatim>\<open>settings.go\<close>, \<^verbatim>\<open>share.go\<close> and \<^verbatim>\<open>ports.go\<close>.
  \<^item> \<open>Supervisor\<close>: \<^verbatim>\<open>supervisor.go\<close>.  What runs follows the registry, a restart pauses within bounds (the locale \<open>retry\<close>,
    interpreted for applications and for the tunnel), and a child's output gives the same lines however it is cut.
  \<^item> \<open>AppLog\<close>: how a child is started and stopped, and that no line logged for it names its folder.
  \<^item> \<open>AgentCore\<close>, \<open>AgentFacts\<close>: \<^verbatim>\<open>enrol.go\<close>, \<^verbatim>\<open>login.go\<close>, \<^verbatim>\<open>tunnel.go\<close> and the agent part of \<^verbatim>\<open>serve.go\<close>.  The operations are a
    datatype; an invariant of the agent is a locale that asks for each operation once and gives every run, and it is
    interpreted for a valid registry, for the unchanged key and for memory, file, routes and processes that agree.
  \<^item> \<open>Identity\<close>: \<^verbatim>\<open>identity.go\<close>, \<^verbatim>\<open>seedstore.go\<close>, \<^verbatim>\<open>seedstore_linux.go\<close>.  The locale \<open>seed_store\<close> is what the key relies on; both
    stores keep it.  Every start chooses its store afresh; no start overwrites a stored key, and where the choice is fixed all
    starts get one key.  On Linux with the automatic choice it is not, and a PC can get a second key.
  \<^item> \<open>AgentReports\<close>: \<^verbatim>\<open>reports.go\<close>.  While the queue file works each report is posted once and in order; what a file
    that cannot be written does is stated beside it.
  \<^item> \<open>AgentLog\<close>: \<^verbatim>\<open>logfile.go\<close>.  Opening and writing refine a list of segments of which the newest four are the files.
  \<^item> \<open>LanTls\<close>, \<open>Discovery\<close>, \<open>Gateway\<close>, \<open>Archive\<close>: \<^verbatim>\<open>tls.go\<close>, \<^verbatim>\<open>mdns.go\<close>, \<^verbatim>\<open>responder.go\<close>, \<^verbatim>\<open>gateway.go\<close>, \<^verbatim>\<open>compress.go\<close>.  Other
    programs may change the folder at every pause of making a zip, and each of its own calls may fail.
  \<^item> \<open>Settings\<close>: the endpoint of \<^verbatim>\<open>settings.go\<close> and \<^verbatim>\<open>lancheck.go\<close>, a refinement of the agent's own operations.
  \<^item> \<open>Service\<close>: \<^verbatim>\<open>config.go\<close>, \<^verbatim>\<open>service.go\<close> and the arguments of \<^verbatim>\<open>main.go\<close>.
  \<^item> \<open>Paths\<close>, \<open>Commands\<close>, \<open>CommandLine\<close>: how paths are written and read in a request, the commands of \<^verbatim>\<open>share.go\<close>, and those
    of \<^verbatim>\<open>login.go\<close>, \<^verbatim>\<open>main.go\<close>, \<^verbatim>\<open>menubar.go\<close>, with \<^verbatim>\<open>ports.go\<close> and \<^verbatim>\<open>instance.go\<close>.  Changing shares from the command
    line does the same with and without a running agent in one working directory; enrolling does not.
  \<^item> \<open>Manifest\<close>: the texts \<^verbatim>\<open>service.go\<close> writes for launchd, systemd and the task scheduler, with readers of the three
    formats: each manager starts the command the agent was given, up to the cases the theorems name.
  \<^item> \<open>Serve\<close>: the life of the agent process, \<^verbatim>\<open>serve.go\<close>, as a step machine over the events its waits return.  The gateway
    serves only a loaded agent.  What \<^verbatim>\<open>serve\<close> defers is a list that grows where the code defers; every return runs it,
    and with the context and the end of the process it ends all that was started.
  \<^item> \<open>Background\<close>: the sockets of \<^verbatim>\<open>responder.go\<close>, \<^verbatim>\<open>agent discover\<close>, how \<^verbatim>\<open>tunnel.go\<close> dials, the logger and the report loop.
  \<^item> \<open>Tray\<close>: the icon of \<^verbatim>\<open>menubar_windows.go\<close>, its program, what its window does on a message, and \<^verbatim>\<open>menubar_items.go\<close>'s quit.
  \<^item> \<open>Desktop\<close>: the commands of \<^verbatim>\<open>ports.go\<close>, \<^verbatim>\<open>share.go\<close>, \<^verbatim>\<open>lancheck_*.go\<close> and \<^verbatim>\<open>console_windows.go\<close> and how their output is read.

  \<^bold>\<open>Together.\<close>  \<open>EndToEnd\<close> puts the two programs on the ends of a tunnel: both ends of an enrolment agree on the device,
  and a permitted remote request for a shared folder reaches that folder's application and returns its answer.
  \<open>Heartbeat\<close> puts the server's pings and the agent's idle window on one clock: neither gives up a path that works, and both
  give up one that does not.

  \<^bold>\<open>Loops.\<close>  Every loop of the model terminates in HOL.  Loops over data are structural; polling for an approval is
  measured by the time left over the interval, trimming the report queue by the length of the file, sending reports by
  the list of answers the server still gives.  Loops that run as long as the process does (restarting an application, keeping
  the tunnel, re-advertising, waiting for the key) are functions of one round, folded over the rounds; the agent's and the
  server's processes take one event per round, so a run is the list of what happened to it.

  \<^bold>\<open>Not modelled.\<close>  Sockets, TLS and HTTP/2 themselves, processes and signals, the exposition format
  of metrics, HTML templates (their data is modelled), SMTP, D-Bus, the Win32 and Objective-C calls of the tray and menu
  bar, the file lock behind the instance lock, and what the probes for a blocked network return: they are calls into an
  operating system or a library.  The Kotlin client, installers and tests are outside the Go programs.  Requests are
  served one after another; where the code's own interleavings matter (spending a token, an invite or a reset link,
  replacing a tunnel) the racing steps are modelled.  Each half of the tunnel handler, before and after its \<^verbatim>\<open>watch\<close>, is one step,
  and a poll for an approval takes no time.  A process that is killed is not modelled beyond what is on disk.
\<close>

end
